(* ===== verification/Prelude.thy ===== *)
theory Prelude
  imports Main "HOL-Library.Word"
begin

text \<open>
  Shared vocabulary of the development.

  \<^item> Machine types: a byte is an \<open>8 word\<close>, an \<open>i64\<close> a \<open>64 word\<close> read with \<open>sint\<close>; \<open>u64\<close>,
    \<open>u32\<close> and \<open>usize\<close> quantities are natural numbers whose width reappears where they are
    encoded (\<open>le_bytes k n\<close> keeps exactly the low \<open>8 * k\<close> bits, as a Rust cast does).
  \<^item> Little-endian encoding (\<open>to_le_bytes\<close>, \<open>from_le_bytes\<close>) with its round trip.
  \<^item> Results: \<open>veloci_error\<close> is \<open>VelociError\<close> of \<open>src/types.rs\<close> without the message texts; a
    \<open>fault\<close> is such an error, a panic (out-of-range slice, arithmetic underflow), or the mark of a
    loop or recursion that the fuel of the model cut off.
  \<^item> A state and error monad whose failing runs keep the state reached so far, because a Rust
    function that returns \<open>Err\<close> leaves the mutations it already made.
  \<^item> Slices: reading and writing sub-ranges of a byte buffer, with the panic of the
    out-of-range case.
\<close>

section \<open>Collections of rewrite rules\<close>

named_theorems codec_simps \<open>encoding, decoding and their lengths\<close>
named_theorems buf_simps \<open>slices and updates of byte buffers\<close>
named_theorems monad_simps \<open>sequencing of fallible and stateful steps\<close>

section \<open>Machine types and results\<close>

type_synonym u8 = "8 word"
type_synonym bytes = "8 word list"
type_synonym i64 = "64 word"

datatype veloci_error =
    Io | IoError | Corruption | Busy | NotFound | ConstraintViolation | ParseError
  | TransactionError | TypeMismatch | StorageError | NotImplemented

datatype fault = Error veloci_error | Panic | OutOfFuel

type_synonym 'a result = "fault + 'a"

definition rbind :: "'a result \<Rightarrow> ('a \<Rightarrow> 'b result) \<Rightarrow> 'b result" where
  "rbind r f = (case r of Inl e \<Rightarrow> Inl e | Inr x \<Rightarrow> f x)"

definition is_ok :: "'a result \<Rightarrow> bool" where
  "is_ok r \<longleftrightarrow> (case r of Inl _ \<Rightarrow> False | Inr _ \<Rightarrow> True)"

lemma rbind_Inl [simp, monad_simps]: "rbind (Inl e) f = Inl e"
  by (simp add: rbind_def)

lemma rbind_Inr [simp, monad_simps]: "rbind (Inr x) f = f x"
  by (simp add: rbind_def)

lemma rbind_eq_Inr: "rbind r f = Inr y \<longleftrightarrow> (\<exists>x. r = Inr x \<and> f x = Inr y)"
  by (simp add: rbind_def split: sum.split)

lemma rbind_eq_Inl: "rbind r f = Inl e \<longleftrightarrow> r = Inl e \<or> (\<exists>x. r = Inr x \<and> f x = Inl e)"
  by (auto simp: rbind_def split: sum.split)

lemma is_ok_simps [simp]: "is_ok (Inl e) = False" "is_ok (Inr x) = True"
  by (simp_all add: is_ok_def)

lemma is_ok_iff: "is_ok r \<longleftrightarrow> (\<exists>x. r = Inr x)"
  by (cases r) auto

section \<open>Stateful fallible steps\<close>

type_synonym ('s, 'a) op = "'s \<Rightarrow> 'a result \<times> 's"

definition mret :: "'a \<Rightarrow> ('s, 'a) op" where
  "mret x s = (Inr x, s)"

definition mfail :: "fault \<Rightarrow> ('s, 'a) op" where
  "mfail e s = (Inl e, s)"

definition mlift :: "'a result \<Rightarrow> ('s, 'a) op" where
  "mlift r s = (r, s)"

definition mbind :: "('s, 'a) op \<Rightarrow> ('a \<Rightarrow> ('s, 'b) op) \<Rightarrow> ('s, 'b) op" where
  "mbind m f s = (case m s of (r, s') \<Rightarrow> (case r of Inl e \<Rightarrow> (Inl e, s') | Inr x \<Rightarrow> f x s'))"

lemma mret_apply [simp, monad_simps]: "mret x s = (Inr x, s)"
  by (simp add: mret_def)

lemma mfail_apply [simp, monad_simps]: "mfail e s = (Inl e, s)"
  by (simp add: mfail_def)

lemma mlift_apply [simp, monad_simps]: "mlift r s = (r, s)"
  by (simp add: mlift_def)

lemma mbind_Inl [monad_simps]: "m s = (Inl e, s') \<Longrightarrow> mbind m f s = (Inl e, s')"
  by (simp add: mbind_def)

lemma mbind_Inr [monad_simps]: "m s = (Inr x, s') \<Longrightarrow> mbind m f s = f x s'"
  by (simp add: mbind_def)

lemma mbind_eq_Inr:
  "mbind m f s = (Inr y, t) \<longleftrightarrow> (\<exists>x s'. m s = (Inr x, s') \<and> f x s' = (Inr y, t))"
  by (auto simp: mbind_def split: prod.split sum.split)

lemma mbind_mret [simp]: "mbind (mret x) f = f x"
  by (rule ext) (simp add: mbind_def)

lemma mbind_mfail [simp]: "mbind (mfail e) f = mfail e"
  by (rule ext) (simp add: mbind_def)

lemma mbind_mlift_Inr [simp]: "mbind (mlift (Inr x)) f = f x"
  by (rule ext) (simp add: mbind_def)

lemma mbind_mlift_Inl [simp]: "mbind (mlift (Inl e)) f = mfail e"
  by (rule ext) (simp add: mbind_def)

lemma mbind_state_pred:
  assumes "P (snd (m s))" and "\<And>x s'. m s = (Inr x, s') \<Longrightarrow> P s' \<Longrightarrow> P (snd (f x s'))"
  shows "P (snd (mbind m f s))"
  using assms by (cases "m s"; cases "fst (m s)") (auto simp: mbind_def)

section \<open>Little-endian encoding\<close>

fun le_bytes :: "nat \<Rightarrow> nat \<Rightarrow> bytes" where
  "le_bytes 0 n = []"
| "le_bytes (Suc k) n = word_of_nat n # le_bytes k (n div 256)"

fun le_nat :: "bytes \<Rightarrow> nat" where
  "le_nat [] = 0"
| "le_nat (b # bs) = unat b + 256 * le_nat bs"

lemma length_le_bytes [simp, codec_simps]: "length (le_bytes k n) = k"
  by (induction k arbitrary: n) auto

lemma unat_u8_bound: "unat (b :: u8) < 256"
proof -
  have "unat b < 2 ^ LENGTH(8)" by (rule unsigned_less)
  then show ?thesis by simp
qed

lemma unat_i64_bound: "unat (w :: i64) < 256 ^ 8"
proof -
  have "unat w < 2 ^ LENGTH(64)" by (rule unsigned_less)
  then show ?thesis by simp
qed

lemma le_nat_bound: "le_nat bs < 256 ^ length bs"
proof (induction bs)
  case Nil
  then show ?case by simp
next
  case (Cons b bs)
  with unat_u8_bound [of b] show ?case by simp
qed

lemma unat_word8_of_nat: "unat (word_of_nat n :: u8) = n mod 256"
  by (simp add: unat_of_nat)

lemma le_nat_le_bytes [codec_simps]: "le_nat (le_bytes k n) = n mod 256 ^ k"
proof (induction k arbitrary: n)
  case 0
  then show ?case by simp
next
  case (Suc k)
  have "n mod 256 + 256 * (n div 256 mod 256 ^ k) = n mod (256 * 256 ^ k)"
    by (simp add: mod_mult2_eq add.commute)
  with Suc show ?case by (simp add: unat_word8_of_nat)
qed

lemma le_nat_le_bytes_id: "n < 256 ^ k \<Longrightarrow> le_nat (le_bytes k n) = n"
  by (simp add: le_nat_le_bytes)

lemma le_bytes_le_nat: "length bs = k \<Longrightarrow> le_bytes k (le_nat bs) = bs"
proof (induction bs arbitrary: k)
  case Nil
  then show ?case by simp
next
  case (Cons b bs)
  then obtain j where k: "k = Suc j" and j: "length bs = j" by (cases k) auto
  have b: "unat b < 256" by (rule unat_u8_bound)
  then have d: "(unat b + 256 * le_nat bs) div 256 = le_nat bs"
    by simp
  have "unat (word_of_nat (unat b + 256 * le_nat bs) :: u8) = unat b"
    unfolding unat_word8_of_nat using b by simp
  then have w: "word_of_nat (unat b + 256 * le_nat bs) = b"
    by (simp only: word_unat_eq_iff)
  show ?case unfolding k le_nat.simps le_bytes.simps w d Cons.IH [OF j] ..
qed

text \<open>An \<open>i64\<close> is encoded through its unsigned 64-bit pattern.\<close>

definition i64_to_le :: "i64 \<Rightarrow> bytes" where
  "i64_to_le w = le_bytes 8 (unat w)"

definition i64_from_le :: "bytes \<Rightarrow> i64" where
  "i64_from_le bs = word_of_nat (le_nat bs)"

lemma length_i64_to_le [simp, codec_simps]: "length (i64_to_le w) = 8"
  by (simp add: i64_to_le_def)

lemma i64_from_to_le [simp, codec_simps]: "i64_from_le (i64_to_le w) = w"
proof -
  have "le_nat (le_bytes 8 (unat w)) = unat w"
    using unat_i64_bound by (rule le_nat_le_bytes_id)
  then show ?thesis by (simp add: i64_to_le_def i64_from_le_def)
qed

section \<open>Byte buffers\<close>

text \<open>\<open>&data[lo..hi]\<close>: a sub-slice, or a panic when the range is not inside the buffer.\<close>

definition slice :: "nat \<Rightarrow> nat \<Rightarrow> 'a list \<Rightarrow> 'a list result" where
  "slice lo hi bs =
     (if lo \<le> hi \<and> hi \<le> length bs then Inr (take (hi - lo) (drop lo bs)) else Inl Panic)"

text \<open>\<open>data[lo..lo + v.len()].copy_from_slice(&v)\<close>.\<close>

definition put :: "nat \<Rightarrow> 'a list \<Rightarrow> 'a list \<Rightarrow> 'a list result" where
  "put lo v bs =
     (if lo + length v \<le> length bs
      then Inr (take lo bs @ v @ drop (lo + length v) bs) else Inl Panic)"

text \<open>\<open>data.copy_within(lo..hi, dst)\<close>: an overlapping move inside one buffer.\<close>

definition copy_within :: "nat \<Rightarrow> nat \<Rightarrow> nat \<Rightarrow> 'a list \<Rightarrow> 'a list result" where
  "copy_within lo hi dst bs =
     (if lo \<le> hi \<and> hi \<le> length bs \<and> dst + (hi - lo) \<le> length bs
      then Inr (take dst bs @ take (hi - lo) (drop lo bs) @ drop (dst + (hi - lo)) bs)
      else Inl Panic)"

lemma take_exact: "n = length xs \<Longrightarrow> take n (xs @ ys) = xs"
  by simp

lemma drop_exact: "n = length xs \<Longrightarrow> drop n (xs @ ys) = ys"
  by simp

lemma slice_mid [buf_simps]:
  "lo = length pre \<Longrightarrow> hi = length pre + length v \<Longrightarrow> slice lo hi (pre @ v @ post) = Inr v"
  by (simp add: slice_def)

lemma slice_Inr_length: "slice lo hi bs = Inr v \<Longrightarrow> length v = hi - lo"
  by (auto simp: slice_def split: if_splits)

lemma put_mid [buf_simps]:
  "lo = length pre \<Longrightarrow> length v = length old \<Longrightarrow> put lo v (pre @ old @ post) = Inr (pre @ v @ post)"
  by (simp add: put_def)

lemma put_Inr_length: "put lo v bs = Inr bs' \<Longrightarrow> length bs' = length bs"
  by (auto simp: put_def split: if_splits)

lemma copy_within_Inr_length: "copy_within lo hi dst bs = Inr bs' \<Longrightarrow> length bs' = length bs"
  by (auto simp: copy_within_def split: if_splits)

end
