(* ===== verification/Types.thy ===== *)
theory Types
  imports Prelude
begin

text \<open>
  The core types of \<open>src/types.rs\<close>: SQL values with their conversions and sizes, data types,
  columns, rows and query results.

  A Rust \<open>String\<close> is the list of its UTF-8 bytes, kept as a HOL \<open>string\<close>. An \<open>f64\<close> and an \<open>f32\<close>
  are their IEEE-754 bit patterns; the comparisons and the \<open>i64 as f64\<close> conversion the code uses
  are defined on the patterns.
\<close>

section \<open>Strings\<close>

definition str_bytes :: "string \<Rightarrow> bytes" where
  "str_bytes s = map of_char s"

definition bytes_str :: "bytes \<Rightarrow> string" where
  "bytes_str bs = map (\<lambda>b. char_of (unat b)) bs"

lemma length_str_bytes [simp, codec_simps]: "length (str_bytes s) = length s"
  by (simp add: str_bytes_def)

lemma bytes_str_str_bytes [simp, codec_simps]: "bytes_str (str_bytes s) = s"
proof -
  have "char_of (unat (of_char c :: u8)) = c" for c
  proof -
    have "(of_char c :: u8) = word_of_nat (of_char c)"
      by (rule of_nat_of_char [symmetric])
    then have "unat (of_char c :: u8) = (of_char c :: nat)"
      using nat_of_char_less_256 [of c] by (simp only: unat_word8_of_nat) simp
    then show ?thesis by simp
  qed
  then show ?thesis by (simp add: bytes_str_def str_bytes_def comp_def)
qed

text \<open>Well-formed UTF-8, the check of \<open>String::from_utf8\<close> (Unicode, table 3-7).\<close>

definition utf8_cont :: "u8 \<Rightarrow> bool" where
  "utf8_cont b \<longleftrightarrow> 128 \<le> b \<and> b \<le> 191"

fun utf8_valid :: "bytes \<Rightarrow> bool" where
  "utf8_valid [] = True"
| "utf8_valid (a # bs) =
     (if a \<le> 127 then utf8_valid bs
      else if 194 \<le> a \<and> a \<le> 223 then
        (case bs of b # cs \<Rightarrow> utf8_cont b \<and> utf8_valid cs | _ \<Rightarrow> False)
      else if 224 \<le> a \<and> a \<le> 239 then
        (case bs of b # c # ds \<Rightarrow>
             (if a = 224 then 160 \<le> b \<and> b \<le> 191
              else if a = 237 then 128 \<le> b \<and> b \<le> 159 else utf8_cont b)
             \<and> utf8_cont c \<and> utf8_valid ds
         | _ \<Rightarrow> False)
      else if 240 \<le> a \<and> a \<le> 244 then
        (case bs of b # c # d # es \<Rightarrow>
             (if a = 240 then 144 \<le> b \<and> b \<le> 191
              else if a = 244 then 128 \<le> b \<and> b \<le> 143 else utf8_cont b)
             \<and> utf8_cont c \<and> utf8_cont d \<and> utf8_valid es
         | _ \<Rightarrow> False)
      else False)"

text \<open>A string value of the program always holds well-formed UTF-8.\<close>

definition str_ok :: "string \<Rightarrow> bool" where
  "str_ok s \<longleftrightarrow> utf8_valid (str_bytes s)"

definition from_utf8 :: "bytes \<Rightarrow> string result" where
  "from_utf8 bs = (if utf8_valid bs then Inr (bytes_str bs) else Inl (Error Corruption))"

lemma from_utf8_str_bytes [codec_simps]: "str_ok s \<Longrightarrow> from_utf8 (str_bytes s) = Inr s"
  by (simp add: from_utf8_def str_ok_def)

section \<open>Floating-point bit patterns\<close>

type_synonym f64 = "64 word"
type_synonym f32 = "32 word"

datatype ordering = Less | Equal | Greater

fun msb_index :: "int \<Rightarrow> nat" where
  "msb_index n = (if n < 2 then 0 else Suc (msb_index (n div 2)))"

declare msb_index.simps [simp del]

text \<open>\<open>i as f64\<close>: round to nearest, ties to even.\<close>

definition f64_magnitude :: "int \<Rightarrow> int" where
  "f64_magnitude m =
     (if m = 0 then 0
      else let e = msb_index m in
        if e \<le> 52 then (1023 + int e) * 2 ^ 52 + (m * 2 ^ (52 - e) - 2 ^ 52)
        else let sh = e - 52; q = m div 2 ^ sh; r = m mod 2 ^ sh; h = 2 ^ (sh - 1);
                 q' = (if h < r \<or> (r = h \<and> odd q) then q + 1 else q)
             in (1023 + int e) * 2 ^ 52 + (q' - 2 ^ 52))"

definition f64_of_int :: "int \<Rightarrow> f64" where
  "f64_of_int i = (if i < 0 then word_of_int (2 ^ 63 + f64_magnitude (- i))
                   else word_of_int (f64_magnitude i))"

definition f64_is_nan :: "f64 \<Rightarrow> bool" where
  "f64_is_nan x \<longleftrightarrow> 2047 * 2 ^ 52 < uint x mod 2 ^ 63"

text \<open>The order of non-NaN patterns is the order of sign and magnitude; both zeros have key 0.\<close>

definition f64_key :: "f64 \<Rightarrow> int" where
  "f64_key x = (if uint x < 2 ^ 63 then uint x else 2 ^ 63 - uint x)"

definition cmp_int :: "int \<Rightarrow> int \<Rightarrow> ordering" where
  "cmp_int a b = (if a < b then Less else if a = b then Equal else Greater)"

definition f64_partial_cmp :: "f64 \<Rightarrow> f64 \<Rightarrow> ordering option" where
  "f64_partial_cmp a b =
     (if f64_is_nan a \<or> f64_is_nan b then None else Some (cmp_int (f64_key a) (f64_key b)))"

section \<open>Values\<close>

datatype sql_value =
    VNull
  | VInteger i64
  | VFloat f64
  | VReal f64
  | VText string
  | VBlob bytes
  | VVector "f32 list"

type_synonym row = "sql_value list"

definition as_integer :: "sql_value \<Rightarrow> i64 result" where
  "as_integer v = (case v of VInteger i \<Rightarrow> Inr i | _ \<Rightarrow> Inl (Error TypeMismatch))"

definition as_text :: "sql_value \<Rightarrow> string result" where
  "as_text v = (case v of VText s \<Rightarrow> Inr s | _ \<Rightarrow> Inl (Error TypeMismatch))"

definition as_float :: "sql_value \<Rightarrow> f64 result" where
  "as_float v =
     (case v of VFloat f \<Rightarrow> Inr f | VReal f \<Rightarrow> Inr f | VInteger i \<Rightarrow> Inr (f64_of_int (sint i))
      | _ \<Rightarrow> Inl (Error TypeMismatch))"

definition as_vector :: "sql_value \<Rightarrow> f32 list result" where
  "as_vector v = (case v of VVector xs \<Rightarrow> Inr xs | _ \<Rightarrow> Inl (Error TypeMismatch))"

definition size_bytes :: "sql_value \<Rightarrow> nat" where
  "size_bytes v =
     (case v of VNull \<Rightarrow> 1 | VInteger _ \<Rightarrow> 9 | VFloat _ \<Rightarrow> 9 | VReal _ \<Rightarrow> 9
      | VText s \<Rightarrow> 1 + 4 + length s | VBlob b \<Rightarrow> 1 + 4 + length b
      | VVector xs \<Rightarrow> 1 + 4 + length xs * 4)"

section \<open>Columns and results\<close>

datatype data_type = DtInteger | DtReal | DtText | DtBlob | DtNull | DtVector nat

record column =
  col_name :: string
  col_data_type :: data_type
  col_primary_key :: bool
  col_not_null :: bool
  col_unique :: bool

record query_result =
  qr_columns :: "column list"
  qr_rows :: "row list"

definition query_result_empty :: query_result where
  "query_result_empty = \<lparr>qr_columns = [], qr_rows = []\<rparr>"

lemma cmp_int_simps [simp]:
  "cmp_int a a = Equal" "cmp_int a b = Equal \<longleftrightarrow> a = b" "cmp_int a b = Less \<longleftrightarrow> a < b"
  "cmp_int a b = Greater \<longleftrightarrow> b < a"
  by (auto simp: cmp_int_def)

end
