(* ===== verification/Cdc.thy ===== *)
theory Cdc
  imports Types
begin

text \<open>
  Change data capture, \<open>src/cdc.rs\<close>: a bounded in-memory log of committed changes and a staging
  buffer for the changes of the running write group. \<open>CdcManager\<close> is the record \<open>cdc\<close>; its atomics
  and locks are single fields, since every method takes them one call at a time.
\<close>

section \<open>State and operations\<close>

datatype change_op = Insert | Update | Delete

record change =
  ch_table :: string
  ch_op :: change_op
  ch_rowid :: i64
  ch_before :: "row option"
  ch_after :: "row option"

record change_event =
  ev_seq :: nat
  ev_change :: change

record cdc =
  cdc_enabled :: bool
  next_seq :: nat
  capacity :: nat
  log :: "change_event list"
  staged :: "change list"

definition cdc_with_capacity :: "nat \<Rightarrow> cdc" where
  "cdc_with_capacity cap =
     \<lparr>cdc_enabled = False, next_seq = 1, capacity = cap, log = [], staged = []\<rparr>"

definition cdc_new :: cdc where
  "cdc_new = cdc_with_capacity 65536"

definition cdc_enable :: "cdc \<Rightarrow> cdc" where
  "cdc_enable c = c\<lparr>cdc_enabled := True\<rparr>"

definition cdc_disable :: "cdc \<Rightarrow> cdc" where
  "cdc_disable c = c\<lparr>cdc_enabled := False, log := [], staged := []\<rparr>"

text \<open>\<open>VecDeque::pop_front\<close> on an empty log is a no-op, as \<open>tl []\<close> is.\<close>

definition cdc_record :: "change \<Rightarrow> cdc \<Rightarrow> cdc" where
  "cdc_record ch c =
     (if \<not> cdc_enabled c then c
      else let event = \<lparr>ev_seq = next_seq c, ev_change = ch\<rparr>;
               kept = (if capacity c \<le> length (log c) then tl (log c) else log c)
           in c\<lparr>next_seq := next_seq c + 1, log := kept @ [event]\<rparr>)"

definition cdc_stage :: "change \<Rightarrow> cdc \<Rightarrow> cdc" where
  "cdc_stage ch c = (if \<not> cdc_enabled c then c else c\<lparr>staged := staged c @ [ch]\<rparr>)"

definition staged_mark :: "cdc \<Rightarrow> nat" where
  "staged_mark c = length (staged c)"

definition discard_staged_from :: "nat \<Rightarrow> cdc \<Rightarrow> cdc" where
  "discard_staged_from mark c = c\<lparr>staged := take mark (staged c)\<rparr>"

definition publish_staged :: "cdc \<Rightarrow> cdc" where
  "publish_staged c = fold cdc_record (staged c) (c\<lparr>staged := []\<rparr>)"

definition changes_since :: "nat \<Rightarrow> cdc \<Rightarrow> change_event list" where
  "changes_since since c = filter (\<lambda>e. since < ev_seq e) (log c)"

definition latest_seq :: "cdc \<Rightarrow> nat" where
  "latest_seq c = next_seq c - 1"

section \<open>Reachable states\<close>

inductive cdc_step :: "cdc \<Rightarrow> cdc \<Rightarrow> bool" where
  step_enable: "cdc_step c (cdc_enable c)"
| step_disable: "cdc_step c (cdc_disable c)"
| step_record: "cdc_step c (cdc_record ch c)"
| step_stage: "cdc_step c (cdc_stage ch c)"
| step_discard: "cdc_step c (discard_staged_from mark c)"
| step_publish: "cdc_step c (publish_staged c)"

inductive cdc_reachable :: "nat \<Rightarrow> cdc \<Rightarrow> bool" for cap where
  reach_new: "cdc_reachable cap (cdc_with_capacity cap)"
| reach_step: "cdc_reachable cap c \<Longrightarrow> cdc_step c c' \<Longrightarrow> cdc_reachable cap c'"

text \<open>
  The log holds the most recent events under consecutive sequence numbers that end just below
  the next one, and never more than the capacity, except that a zero capacity still keeps one.
\<close>

definition cdc_inv :: "cdc \<Rightarrow> bool" where
  "cdc_inv c \<longleftrightarrow>
     length (log c) < next_seq c \<and>
     map ev_seq (log c) = [next_seq c - length (log c) ..< next_seq c] \<and>
     length (log c) \<le> max 1 (capacity c)"

section \<open>The invariant\<close>

lemma cdc_inv_new: "cdc_inv (cdc_with_capacity cap)"
  by (simp add: cdc_inv_def cdc_with_capacity_def)

lemma cdc_inv_staged [simp]: "cdc_inv (c\<lparr>staged := xs\<rparr>) = cdc_inv c"
  by (simp add: cdc_inv_def)

lemma cdc_record_inv:
  assumes "cdc_inv c"
  shows "cdc_inv (cdc_record ch c)"
proof (cases "cdc_enabled c")
  case True
  let ?n = "next_seq c" and ?l = "length (log c)"
  from assms have lt: "?l < ?n" and seqs: "map ev_seq (log c) = [?n - ?l ..< ?n]"
    and cap: "?l \<le> max 1 (capacity c)"
    by (simp_all add: cdc_inv_def)
  show ?thesis
  proof (cases "capacity c \<le> ?l")
    case drop: True
    have "map ev_seq (tl (log c)) = tl [?n - ?l ..< ?n]"
      using seqs by (simp add: map_tl)
    also have "tl [?n - ?l ..< ?n] = [?n - (?l - 1) ..< ?n]"
    proof (cases "?l = 0")
      case False
      then have "Suc (?n - ?l) = ?n - (?l - 1)" using lt by arith
      with False lt show ?thesis by (simp add: upt_rec [of "?n - ?l"])
    qed simp
    finally show ?thesis
      using drop True lt cap by (auto simp: cdc_inv_def cdc_record_def Let_def)
  next
    case False
    with True lt seqs show ?thesis
      by (simp add: cdc_inv_def cdc_record_def Let_def)
  qed
qed (use assms in \<open>simp add: cdc_record_def\<close>)

lemma cdc_fold_record_inv: "cdc_inv c \<Longrightarrow> cdc_inv (fold cdc_record chs c)"
  by (induction chs arbitrary: c) (simp_all add: cdc_record_inv)

lemma cdc_step_inv: "cdc_step c c' \<Longrightarrow> cdc_inv c \<Longrightarrow> cdc_inv c'"
proof (induction rule: cdc_step.induct)
  case (step_publish c)
  then show ?case by (simp add: publish_staged_def cdc_fold_record_inv)
next
  case (step_record c ch)
  then show ?case by (simp add: cdc_record_inv)
qed (simp_all add: cdc_inv_def cdc_enable_def cdc_disable_def cdc_stage_def discard_staged_from_def)

lemma cdc_reachable_inv: "cdc_reachable cap c \<Longrightarrow> cdc_inv c"
  by (induction rule: cdc_reachable.induct) (auto intro: cdc_inv_new cdc_step_inv)

lemma cdc_record_capacity [simp]: "capacity (cdc_record ch c) = capacity c"
  by (simp add: cdc_record_def Let_def)

lemma cdc_record_enabled [simp]: "cdc_enabled (cdc_record ch c) = cdc_enabled c"
  by (simp add: cdc_record_def Let_def)

lemma cdc_record_staged [simp]: "staged (cdc_record ch c) = staged c"
  by (simp add: cdc_record_def Let_def)

lemma cdc_fold_record_frame [simp]:
  "capacity (fold cdc_record chs c) = capacity c"
  "cdc_enabled (fold cdc_record chs c) = cdc_enabled c"
  "staged (fold cdc_record chs c) = staged c"
  by (induction chs arbitrary: c) simp_all

lemma cdc_reachable_capacity: "cdc_reachable cap c \<Longrightarrow> capacity c = cap"
proof (induction rule: cdc_reachable.induct)
  case (reach_step c c')
  from reach_step.hyps(2) have "capacity c' = capacity c"
    by (cases rule: cdc_step.cases)
      (simp_all add: cdc_enable_def cdc_disable_def cdc_stage_def discard_staged_from_def
        publish_staged_def)
  with reach_step.IH show ?case by simp
qed (simp add: cdc_with_capacity_def)

section \<open>Publishing\<close>

text \<open>The log after recording a list of changes: the newest entries of old and new together.\<close>

fun seq_events :: "nat \<Rightarrow> change list \<Rightarrow> change_event list" where
  "seq_events n [] = []"
| "seq_events n (ch # chs) = \<lparr>ev_seq = n, ev_change = ch\<rparr> # seq_events (Suc n) chs"

lemma length_seq_events [simp]: "length (seq_events n chs) = length chs"
  by (induction chs arbitrary: n) simp_all

lemma seq_events_seq: "e \<in> set (seq_events n chs) \<Longrightarrow> n \<le> ev_seq e"
  by (induction chs arbitrary: n) (auto dest: Suc_leD)

lemma seq_events_change [simp]: "map ev_change (seq_events n chs) = chs"
  by (induction chs arbitrary: n) simp_all

definition keep_last :: "nat \<Rightarrow> 'a list \<Rightarrow> 'a list" where
  "keep_last k xs = drop (length xs - k) xs"

lemma keep_last_absorb: "keep_last k (keep_last k xs @ ys) = keep_last k (xs @ ys)"
proof (cases "k \<le> length xs")
  case True
  then have "length ys + (length xs - k) = length xs + length ys - k" by simp
  with True show ?thesis by (simp add: keep_last_def)
qed (simp add: keep_last_def)

lemma keep_last_id: "length xs \<le> k \<Longrightarrow> keep_last k xs = xs"
  by (simp add: keep_last_def)

lemma cdc_record_log:
  assumes "cdc_enabled c" and "length (log c) \<le> max 1 (capacity c)"
  shows "log (cdc_record ch c) =
           keep_last (max 1 (capacity c)) (log c @ [\<lparr>ev_seq = next_seq c, ev_change = ch\<rparr>])"
proof (cases "capacity c \<le> length (log c)")
  case True
  show ?thesis
  proof (cases "log c")
    case Nil
    with True assms(1) show ?thesis by (simp add: cdc_record_def keep_last_def Let_def)
  next
    case (Cons e es)
    with True assms(2) have "max 1 (capacity c) = Suc (length es)" by auto
    with True Cons assms(1) show ?thesis by (simp add: cdc_record_def keep_last_def Let_def)
  qed
qed (use assms in \<open>simp add: cdc_record_def keep_last_def Let_def\<close>)

lemma cdc_fold_record_log:
  assumes "cdc_enabled c" and "length (log c) \<le> max 1 (capacity c)"
  shows "log (fold cdc_record chs c) =
           keep_last (max 1 (capacity c)) (log c @ seq_events (next_seq c) chs)
         \<and> next_seq (fold cdc_record chs c) = next_seq c + length chs"
  using assms
proof (induction chs arbitrary: c)
  case Nil
  then show ?case by (simp add: keep_last_id)
next
  case (Cons ch chs)
  let ?c = "cdc_record ch c" and ?k = "max 1 (capacity c)"
  have lg: "log ?c = keep_last ?k (log c @ [\<lparr>ev_seq = next_seq c, ev_change = ch\<rparr>])"
    using Cons.prems by (rule cdc_record_log)
  then have "length (log ?c) \<le> max 1 (capacity ?c)"
    by (simp add: keep_last_def)
  moreover have "next_seq ?c = Suc (next_seq c)"
    using Cons.prems by (simp add: cdc_record_def Let_def)
  ultimately show ?case
    using Cons.IH [of ?c] Cons.prems by (simp add: lg keep_last_absorb)
qed

lemma keep_last_append:
  "keep_last k (xs @ ys) = drop (length xs + length ys - k) xs @ keep_last k ys"
  by (simp add: keep_last_def)

lemma set_keep_last: "set (keep_last k xs) \<subseteq> set xs"
  by (simp add: keep_last_def set_drop_subset)

lemma map_keep_last: "map f (keep_last k xs) = keep_last k (map f xs)"
  by (simp add: keep_last_def drop_map)

lemma cdc_inv_seq_less: "cdc_inv c \<Longrightarrow> e \<in> set (log c) \<Longrightarrow> ev_seq e < next_seq c"
proof -
  assume inv: "cdc_inv c" and e: "e \<in> set (log c)"
  then have "ev_seq e \<in> set (map ev_seq (log c))" by simp
  with inv show ?thesis by (simp only: cdc_inv_def set_upt) simp
qed

lemma publish_staged_changes:
  assumes inv: "cdc_inv c" and en: "cdc_enabled c"
  shows "changes_since (latest_seq c) (publish_staged c) =
           keep_last (max 1 (capacity c)) (seq_events (next_seq c) (staged c))"
proof -
  let ?k = "max 1 (capacity c)" and ?evs = "seq_events (next_seq c) (staged c)"
  have lg: "log (publish_staged c) = keep_last ?k (log c @ ?evs)"
    using inv en cdc_fold_record_log [of "c\<lparr>staged := []\<rparr>" "staged c"]
    by (simp add: publish_staged_def cdc_inv_def)
  have old: "filter (\<lambda>e. latest_seq c < ev_seq e) (drop m (log c)) = []" for m
    using cdc_inv_seq_less [OF inv]
    by (fastforce simp: filter_empty_conv latest_seq_def dest: in_set_dropD)
  have "next_seq c \<le> ev_seq e" if "e \<in> set (keep_last ?k ?evs)" for e
    using that set_keep_last [of ?k ?evs] by (auto intro: seq_events_seq)
  moreover have "0 < next_seq c" using inv by (simp add: cdc_inv_def)
  ultimately have "filter (\<lambda>e. latest_seq c < ev_seq e) (keep_last ?k ?evs) = keep_last ?k ?evs"
    by (fastforce simp: latest_seq_def intro: filter_True)
  with old show ?thesis by (simp add: changes_since_def lg keep_last_append)
qed

lemma fold_stage_staged:
  "fold cdc_stage chs c = (if cdc_enabled c then c\<lparr>staged := staged c @ chs\<rparr> else c)"
  by (induction chs arbitrary: c) (simp_all add: cdc_stage_def)

section \<open>Properties\<close>

text \<open>
  C25: in every reachable state the retained events carry consecutive sequence numbers that end
  just below the next number to be assigned, and there are never more of them than the capacity
  (one, when the capacity is zero).
\<close>

theorem cdc_log_consecutive:
  assumes "cdc_reachable cap c"
  shows "map ev_seq (log c) = [next_seq c - length (log c) ..< next_seq c]
         \<and> length (log c) \<le> max 1 cap"
  using cdc_reachable_inv [OF assms] cdc_reachable_capacity [OF assms]
  by (simp add: cdc_inv_def)

text \<open>
  when capture is enabled, a consumer that polls with the latest sequence number before a
  commit receives exactly the changes the commit published, in staging order, as far as the
  capacity retains them, and nothing stays staged.
\<close>

theorem publish_delivers_staged:
  assumes "cdc_reachable cap c" and "cdc_enabled c"
  shows "map ev_change (changes_since (latest_seq c) (publish_staged c)) =
           keep_last (max 1 cap) (staged c)
         \<and> staged (publish_staged c) = []"
  using publish_staged_changes [OF cdc_reachable_inv [OF assms(1)] assms(2)]
    cdc_reachable_capacity [OF assms(1)]
  by (simp add: map_keep_last publish_staged_def)

text \<open>
  discarding from the mark taken before a statement undoes every change the statement
  staged, whatever it staged and whether or not capture is enabled: a rolled-back statement can
  publish nothing.
\<close>

theorem discard_undoes_staging:
  "discard_staged_from (staged_mark c) (fold cdc_stage chs c) = c"
  by (simp add: fold_stage_staged discard_staged_from_def staged_mark_def)

section \<open>Witnesses\<close>

definition sample_change :: "nat \<Rightarrow> change" where
  "sample_change n =
     \<lparr>ch_table = ''t'', ch_op = Insert, ch_rowid = word_of_nat n, ch_before = None, ch_after = None\<rparr>"

definition sample_cdc :: cdc where
  "sample_cdc = cdc_stage (sample_change 3) (cdc_stage (sample_change 2)
     (cdc_record (sample_change 1) (cdc_record (sample_change 0)
       (cdc_record (sample_change 0) (cdc_enable (cdc_with_capacity 2))))))"

lemma sample_cdc_reachable: "cdc_reachable 2 sample_cdc"
  unfolding sample_cdc_def
  by (intro reach_step [OF _ step_stage] reach_step [OF _ step_record]
      reach_step [OF _ step_enable] reach_new)

theorem cdc_log_consecutive_witness:
  "map ev_seq (log sample_cdc) = [2, 3] \<and> length (log sample_cdc) \<le> 2"
  using cdc_log_consecutive [OF sample_cdc_reachable]
  by (simp add: sample_cdc_def cdc_stage_def cdc_record_def cdc_enable_def cdc_with_capacity_def
      Let_def)

theorem publish_delivers_staged_witness:
  "map ev_change (changes_since 3 (publish_staged sample_cdc)) = [sample_change 2, sample_change 3]"
proof -
  have en: "cdc_enabled sample_cdc" and sq: "latest_seq sample_cdc = 3"
    and st: "staged sample_cdc = [sample_change 2, sample_change 3]"
    by (simp_all add: sample_cdc_def cdc_stage_def cdc_record_def cdc_enable_def latest_seq_def
        cdc_with_capacity_def Let_def)
  show ?thesis
    using publish_delivers_staged [OF sample_cdc_reachable en] by (simp add: sq st keep_last_def)
qed

end
