(* ===== verification/Transaction.thy ===== *)
theory Transaction
  imports Types
begin

text \<open>
  \<open>src/transaction.rs\<close>: transaction states with their atomic transitions, the transaction
  manager, and the table lock manager with its retry loop.

  A \<open>Transaction\<close> is shared through an \<open>Arc\<close>, so the manager's record keeps the state of every
  transaction ever begun (\<open>txn_states\<close>) beside the table of active ones. Each operation is one
  atomic step; \<open>lock_step\<close> interleaves the steps of any number of transactions.
\<close>

section \<open>Transactions and their manager\<close>

datatype transaction_state = Active | Committed | Aborted

definition state_of_u8 :: "u8 \<Rightarrow> transaction_state" where
  "state_of_u8 b = (if b = 0 then Active else if b = 1 then Committed else Aborted)"

definition state_to_u8 :: "transaction_state \<Rightarrow> u8" where
  "state_to_u8 s = (case s of Active \<Rightarrow> 0 | Committed \<Rightarrow> 1 | Aborted \<Rightarrow> 2)"

text \<open>\<open>compare_exchange(Active, target)\<close> on the state byte.\<close>

definition txn_transition :: "transaction_state \<Rightarrow> transaction_state \<Rightarrow> transaction_state result" where
  "txn_transition target s = (if s = Active then Inr target else Inl (Error TransactionError))"

record txn_manager =
  next_txn_id :: nat
  txn_states :: "nat \<rightharpoonup> transaction_state"
  active_transactions :: "nat set"

definition txn_manager_new :: txn_manager where
  "txn_manager_new = \<lparr>next_txn_id = 1, txn_states = Map.empty, active_transactions = {}\<rparr>"

definition txn_begin :: "txn_manager \<Rightarrow> nat \<times> txn_manager" where
  "txn_begin m =
     (let txn_id = next_txn_id m in
      (txn_id, m\<lparr>next_txn_id := txn_id + 1, txn_states := (txn_states m)(txn_id \<mapsto> Active),
                 active_transactions := insert txn_id (active_transactions m)\<rparr>))"

definition txn_end :: "transaction_state \<Rightarrow> nat \<Rightarrow> txn_manager \<Rightarrow> unit result \<times> txn_manager" where
  "txn_end target txn_id m =
     (case txn_states m txn_id of
        None \<Rightarrow> (Inl Panic, m)
      | Some s \<Rightarrow>
          (case txn_transition target s of
             Inl e \<Rightarrow> (Inl e, m)
           | Inr s' \<Rightarrow>
               (Inr (), m\<lparr>txn_states := (txn_states m)(txn_id \<mapsto> s'),
                          active_transactions := active_transactions m - {txn_id}\<rparr>)))"

definition txn_commit :: "nat \<Rightarrow> txn_manager \<Rightarrow> unit result \<times> txn_manager" where
  "txn_commit = txn_end Committed"

definition txn_abort :: "nat \<Rightarrow> txn_manager \<Rightarrow> unit result \<times> txn_manager" where
  "txn_abort = txn_end Aborted"

definition get_transaction :: "nat \<Rightarrow> txn_manager \<Rightarrow> nat option" where
  "get_transaction txn_id m = (if txn_id \<in> active_transactions m then Some txn_id else None)"

definition active_count :: "txn_manager \<Rightarrow> nat" where
  "active_count m = card (active_transactions m)"

inductive txn_step :: "txn_manager \<Rightarrow> txn_manager \<Rightarrow> bool" where
  "txn_step m (snd (txn_begin m))"
| "txn_step m (snd (txn_commit t m))"
| "txn_step m (snd (txn_abort t m))"

definition txn_inv :: "txn_manager \<Rightarrow> bool" where
  "txn_inv m \<longleftrightarrow>
     dom (txn_states m) = {1 ..< next_txn_id m} \<and> 1 \<le> next_txn_id m \<and>
     active_transactions m = {t. txn_states m t = Some Active}"

section \<open>Locks\<close>

datatype lock_type = Shared | Exclusive

record lock_entry =
  le_txn :: nat
  le_type :: lock_type

type_synonym lock_manager = "string \<rightharpoonup> lock_entry list"

definition lock_manager_new :: lock_manager where
  "lock_manager_new = Map.empty"

text \<open>
  The loop of \<open>try_acquire_lock_once\<close> over the entries of one resource: the request conflicts, is
  already covered, or is to be pushed onto the given list (emptied of the requester's own shared
  entry by an upgrade).
\<close>

datatype scan_outcome = ScanBusy | ScanHeld | ScanPush "lock_entry list"

fun lock_scan :: "lock_entry list \<Rightarrow> nat \<Rightarrow> lock_type \<Rightarrow> lock_entry list \<Rightarrow> scan_outcome" where
  "lock_scan entries t ty [] = ScanPush entries"
| "lock_scan entries t ty (e # es) =
     (if le_txn e = t then
        (case (le_type e, ty) of
           (Shared, Exclusive) \<Rightarrow>
             if list_ex (\<lambda>x. le_txn x \<noteq> t) entries then ScanBusy
             else ScanPush (filter (\<lambda>x. le_txn x \<noteq> t) entries)
         | (Exclusive, Shared) \<Rightarrow> ScanHeld
         | (Shared, Shared) \<Rightarrow> ScanHeld
         | (Exclusive, Exclusive) \<Rightarrow> ScanHeld)
      else
        (case (ty, le_type e) of
           (Shared, Shared) \<Rightarrow> lock_scan entries t ty es
         | _ \<Rightarrow> ScanBusy))"

definition entries_of :: "lock_manager \<Rightarrow> string \<Rightarrow> lock_entry list" where
  "entries_of lm r = (case lm r of None \<Rightarrow> [] | Some es \<Rightarrow> es)"

definition try_acquire_lock_once ::
    "string \<Rightarrow> nat \<Rightarrow> lock_type \<Rightarrow> lock_manager \<Rightarrow> unit result \<times> lock_manager" where
  "try_acquire_lock_once resource t ty lm =
     (let entries = entries_of lm resource in
      case lock_scan entries t ty entries of
        ScanBusy \<Rightarrow> (Inl (Error Busy), lm(resource \<mapsto> entries))
      | ScanHeld \<Rightarrow> (Inr (), lm(resource \<mapsto> entries))
      | ScanPush es \<Rightarrow> (Inr (), lm(resource \<mapsto> es @ [\<lparr>le_txn = t, le_type = ty\<rparr>])))"

text \<open>
  The retry loop. \<open>elapsed i\<close> is the clock reading after attempt \<open>i\<close> and \<open>other i\<close> what the other
  threads do to the lock table while this one sleeps; fuel bounds the number of attempts.
\<close>

fun acquire_loop ::
    "nat \<Rightarrow> nat \<Rightarrow> (nat \<Rightarrow> nat) \<Rightarrow> (nat \<Rightarrow> lock_manager \<Rightarrow> lock_manager) \<Rightarrow> nat \<Rightarrow>
     string \<Rightarrow> nat \<Rightarrow> lock_type \<Rightarrow> lock_manager \<Rightarrow> (unit result \<times> lock_manager) option" where
  "acquire_loop 0 i elapsed other timeout resource t ty lm = None"
| "acquire_loop (Suc fuel) i elapsed other timeout resource t ty lm =
     (case try_acquire_lock_once resource t ty lm of
        (Inr u, lm') \<Rightarrow> Some (Inr u, lm')
      | (Inl e, lm') \<Rightarrow>
          if e = Error Busy then
            if timeout < elapsed i then Some (Inl (Error TransactionError), lm')
            else acquire_loop fuel (Suc i) elapsed other timeout resource t ty (other i lm')
          else Some (Inl e, lm'))"

definition release_lock :: "string \<Rightarrow> nat \<Rightarrow> lock_manager \<Rightarrow> lock_manager" where
  "release_lock resource t lm =
     (case lm resource of
        None \<Rightarrow> lm
      | Some es \<Rightarrow>
          let es' = filter (\<lambda>e. le_txn e \<noteq> t) es in
          if es' = [] then lm(resource := None) else lm(resource \<mapsto> es'))"

text \<open>\<open>release_all_locks\<close> collects the keys of the table first; \<open>keys\<close> is that snapshot.\<close>

definition release_all_locks :: "string list \<Rightarrow> nat \<Rightarrow> lock_manager \<Rightarrow> lock_manager" where
  "release_all_locks keys t lm = fold (\<lambda>r. release_lock r t) keys lm"

definition holds :: "lock_manager \<Rightarrow> string \<Rightarrow> nat \<Rightarrow> lock_type \<Rightarrow> bool" where
  "holds lm r t ty \<longleftrightarrow> \<lparr>le_txn = t, le_type = ty\<rparr> \<in> set (entries_of lm r)"

definition has_locks :: "string list \<Rightarrow> nat \<Rightarrow> lock_manager \<Rightarrow> bool" where
  "has_locks keys t lm \<longleftrightarrow>
     list_ex (\<lambda>r. list_ex (\<lambda>e. le_txn e = t) (entries_of lm r)) keys"

inductive lock_step :: "lock_manager \<Rightarrow> lock_manager \<Rightarrow> bool" where
  step_acquire: "lock_step lm (snd (try_acquire_lock_once r t ty lm))"
| step_release: "lock_step lm (release_lock r t lm)"
| step_release_all: "lock_step lm (release_all_locks keys t lm)"

inductive lock_reachable :: "lock_manager \<Rightarrow> bool" where
  lock_start: "lock_reachable lock_manager_new"
| lock_next: "lock_reachable lm \<Longrightarrow> lock_step lm lm' \<Longrightarrow> lock_reachable lm'"

text \<open>
  One entry per transaction on a resource, and an exclusive entry is alone there.
\<close>

definition entries_ok :: "lock_entry list \<Rightarrow> bool" where
  "entries_ok es \<longleftrightarrow>
     distinct (map le_txn es) \<and> (length es \<le> 1 \<or> list_all (\<lambda>e. le_type e = Shared) es)"

definition lock_inv :: "lock_manager \<Rightarrow> bool" where
  "lock_inv lm \<longleftrightarrow> (\<forall>r es. lm r = Some es \<longrightarrow> entries_ok es)"

section \<open>Transaction lifecycle\<close>

lemma txn_begin_inv: "txn_inv m \<Longrightarrow> txn_inv (snd (txn_begin m))"
  by (auto simp: txn_inv_def txn_begin_def Let_def)

lemma txn_end_inv: "target \<noteq> Active \<Longrightarrow> txn_inv m \<Longrightarrow> txn_inv (snd (txn_end target t m))"
  by (auto simp: txn_inv_def txn_end_def txn_transition_def split: option.split)

lemma txn_step_inv: "txn_step m m' \<Longrightarrow> txn_inv m \<Longrightarrow> txn_inv m'"
  by (induction rule: txn_step.induct)
    (simp_all add: txn_begin_inv txn_end_inv txn_commit_def txn_abort_def)

lemma txn_manager_new_inv: "txn_inv txn_manager_new"
  by (auto simp: txn_inv_def txn_manager_new_def)

lemma txn_reachable_inv: "txn_step\<^sup>*\<^sup>* txn_manager_new m \<Longrightarrow> txn_inv m"
  by (induction rule: rtranclp_induct) (auto intro: txn_manager_new_inv txn_step_inv)

lemma txn_step_finished:
  assumes "txn_step m m'" and "txn_inv m" and "txn_states m t = Some s" and "s \<noteq> Active"
  shows "txn_states m' t = Some s"
  using assms
  by (induction rule: txn_step.induct)
    (auto simp: txn_inv_def txn_begin_def txn_commit_def txn_abort_def txn_end_def
      txn_transition_def Let_def split: option.split)

lemma txn_steps_finished:
  assumes "txn_step\<^sup>*\<^sup>* m m'" and "txn_inv m" and "txn_states m t = Some s" and "s \<noteq> Active"
  shows "txn_states m' t = Some s \<and> txn_inv m'"
  using assms(1)
proof (induction rule: rtranclp_induct)
  case base
  show ?case using assms by simp
next
  case (step y z)
  then show ?case using assms(4) by (blast intro: txn_step_finished txn_step_inv)
qed

section \<open>Lock table lemmas\<close>

lemma entries_of_upd [simp]:
  "entries_of (lm(r \<mapsto> es)) r' = (if r' = r then es else entries_of lm r')"
  by (simp add: entries_of_def)

lemma lock_scan_push_shared:
  assumes "lock_scan entries t Shared es = ScanPush ps"
  shows "ps = entries \<and> list_all (\<lambda>e. le_txn e \<noteq> t \<and> le_type e = Shared) es"
  using assms by (induction es) (auto split: if_splits lock_type.splits)

lemma lock_scan_push_exclusive:
  assumes "lock_scan entries t Exclusive es = ScanPush ps" and "es = entries"
  shows "ps = []"
  using assms
  by (cases es) (auto split: if_splits lock_type.splits simp: list_ex_iff filter_empty_conv)

lemma try_acquire_entries_ok:
  assumes "entries_ok (entries_of lm r)"
  shows "entries_ok (entries_of (snd (try_acquire_lock_once r t ty lm)) r)"
proof (cases "lock_scan (entries_of lm r) t ty (entries_of lm r)")
  case (ScanPush ps)
  show ?thesis
  proof (cases ty)
    case Shared
    with ScanPush have ps: "ps = entries_of lm r"
      and all: "list_all (\<lambda>e. le_txn e \<noteq> t \<and> le_type e = Shared) (entries_of lm r)"
      by (auto dest: lock_scan_push_shared)
    from all assms show ?thesis
      using ScanPush Shared
      by (auto simp: try_acquire_lock_once_def ps entries_ok_def list_all_iff)
  next
    case Exclusive
    with ScanPush have "ps = []" by (auto dest: lock_scan_push_exclusive)
    then show ?thesis
      by (simp add: try_acquire_lock_once_def ScanPush entries_ok_def)
  qed
qed (use assms in \<open>simp_all add: try_acquire_lock_once_def\<close>)

lemma try_acquire_other [simp]:
  "r' \<noteq> r \<Longrightarrow> snd (try_acquire_lock_once r t ty lm) r' = lm r'"
  by (simp add: try_acquire_lock_once_def Let_def split: scan_outcome.split)

lemma entries_ok_Nil [simp]: "entries_ok []"
  by (simp add: entries_ok_def)

lemma lock_inv_entries: "lock_inv lm \<Longrightarrow> entries_ok (entries_of lm r)"
  by (auto simp: lock_inv_def entries_of_def split: option.split)

lemma lock_inv_acquire: "lock_inv lm \<Longrightarrow> lock_inv (snd (try_acquire_lock_once r t ty lm))"
proof -
  assume inv: "lock_inv lm"
  have "entries_ok es" if es: "snd (try_acquire_lock_once r t ty lm) r' = Some es" for r' es
  proof (cases "r' = r")
    case True
    with es try_acquire_entries_ok [OF lock_inv_entries [OF inv], of r t ty] show ?thesis
      by (simp add: entries_of_def)
  next
    case False
    with es inv show ?thesis by (auto simp: lock_inv_def)
  qed
  then show ?thesis by (simp add: lock_inv_def)
qed

lemma entries_ok_filter: "entries_ok es \<Longrightarrow> entries_ok (filter P es)"
  unfolding entries_ok_def list_all_iff
  using distinct_map_filter [of le_txn es P] le_trans [OF length_filter_le [of P es]] by auto

lemma lock_inv_release: "lock_inv lm \<Longrightarrow> lock_inv (release_lock r t lm)"
  by (auto simp: lock_inv_def release_lock_def Let_def entries_ok_filter split: option.split)

lemma lock_inv_release_all: "lock_inv lm \<Longrightarrow> lock_inv (release_all_locks keys t lm)"
  unfolding release_all_locks_def
  by (induction keys arbitrary: lm) (simp_all add: lock_inv_release)

lemma lock_step_inv: "lock_step lm lm' \<Longrightarrow> lock_inv lm \<Longrightarrow> lock_inv lm'"
  by (induction rule: lock_step.induct)
    (simp_all add: lock_inv_acquire lock_inv_release lock_inv_release_all)

lemma lock_inv_new: "lock_inv lock_manager_new"
  by (simp add: lock_inv_def lock_manager_new_def)

lemma lock_reachable_inv: "lock_reachable lm \<Longrightarrow> lock_inv lm"
  by (induction rule: lock_reachable.induct) (auto intro: lock_inv_new lock_step_inv)

lemma entries_ok_exclusive:
  assumes "entries_ok es" and "e \<in> set es" and "le_type e = Exclusive"
  shows "es = [e]"
proof -
  from assms have "length es \<le> 1" by (auto simp: entries_ok_def list_all_iff)
  with assms(2) show ?thesis by (cases es) auto
qed

lemma lock_scan_held:
  assumes "lock_scan entries t ty es = ScanHeld"
  shows "\<exists>e\<in>set es. le_txn e = t \<and> (le_type e = ty \<or> le_type e = Exclusive)"
  using assms by (induction es) (auto split: if_splits lock_type.splits)

lemma try_acquire_grants:
  assumes "try_acquire_lock_once r t ty lm = (Inr u, lm')"
  shows "holds lm' r t ty \<or> holds lm' r t Exclusive"
proof (cases "lock_scan (entries_of lm r) t ty (entries_of lm r)")
  case ScanHeld
  then obtain e where "e \<in> set (entries_of lm r)" "le_txn e = t" "le_type e = ty \<or> le_type e = Exclusive"
    by (auto dest: lock_scan_held)
  moreover from this have "e = \<lparr>le_txn = t, le_type = le_type e\<rparr>" by simp
  ultimately have "\<lparr>le_txn = t, le_type = ty\<rparr> \<in> set (entries_of lm r)
      \<or> \<lparr>le_txn = t, le_type = Exclusive\<rparr> \<in> set (entries_of lm r)"
    by metis
  with ScanHeld assms show ?thesis by (auto simp: try_acquire_lock_once_def holds_def)
next
  case (ScanPush es)
  with assms show ?thesis by (auto simp: try_acquire_lock_once_def holds_def)
next
  case ScanBusy
  with assms show ?thesis by (simp add: try_acquire_lock_once_def)
qed

lemma try_acquire_error: "fst (try_acquire_lock_once r t ty lm) = Inl e \<Longrightarrow> e = Error Busy"
  by (auto simp: try_acquire_lock_once_def Let_def split: scan_outcome.splits)

lemma acquire_loop_returns:
  assumes "timeout < elapsed (i + k)"
  shows "\<exists>res lm'. acquire_loop (Suc k) i elapsed other timeout r t ty lm = Some (res, lm')
           \<and> (res = Inl (Error TransactionError)
              \<or> res = Inr () \<and> (holds lm' r t ty \<or> holds lm' r t Exclusive))"
  using assms
proof (induction k arbitrary: i lm)
  case 0
  show ?case
  proof (cases "try_acquire_lock_once r t ty lm")
    case (Pair res lm')
    with 0 show ?thesis
      using try_acquire_error [of r t ty lm] try_acquire_grants [of r t ty lm] by (cases res) auto
  qed
next
  case (Suc k)
  show ?case
  proof (cases "try_acquire_lock_once r t ty lm")
    case (Pair res lm')
    show ?thesis
    proof (cases res)
      case (Inl e)
      with Pair have e: "e = Error Busy" using try_acquire_error [of r t ty lm] by simp
      have "timeout < elapsed (Suc i + k)" using Suc.prems by simp
      from Suc.IH [OF this, of "other i lm'"] show ?thesis
        using Pair Inl e by (cases "timeout < elapsed i") simp_all
    next
      case (Inr u)
      with Pair show ?thesis using try_acquire_grants [of r t ty lm] by simp
    qed
  qed
qed

text \<open>Entries that do not conflict with a request: another transaction's only when both are shared.\<close>

definition compatible :: "nat \<Rightarrow> lock_type \<Rightarrow> lock_entry list \<Rightarrow> bool" where
  "compatible t ty es \<longleftrightarrow> list_all (\<lambda>e. le_txn e = t \<or> ty = Shared \<and> le_type e = Shared) es"

lemma lock_scan_compatible:
  assumes "compatible t ty entries" and "compatible t ty es"
  shows "lock_scan entries t ty es \<noteq> ScanBusy"
  using assms(2)
proof (induction es)
  case (Cons e es)
  with assms(1) show ?case
    by (cases ty; cases "le_type e") (auto simp: compatible_def list_all_iff list_ex_iff)
qed simp

lemma try_acquire_compatible:
  assumes "compatible t ty (entries_of lm r)"
  shows "fst (try_acquire_lock_once r t ty lm) = Inr ()"
  using lock_scan_compatible [OF assms assms]
  by (auto simp: try_acquire_lock_once_def Let_def split: scan_outcome.split)

lemma acquire_loop_granted:
  assumes "\<forall>j\<le>i + k. elapsed j \<le> timeout" and "\<forall>lm. compatible t ty (entries_of (other (i + k) lm) r)"
  shows "\<exists>lm'. acquire_loop (Suc (Suc k)) i elapsed other timeout r t ty lm = Some (Inr (), lm')
           \<and> (holds lm' r t ty \<or> holds lm' r t Exclusive)"
  using assms
proof (induction k arbitrary: i lm)
  case 0
  obtain res lm1 where a: "try_acquire_lock_once r t ty lm = (res, lm1)" by fastforce
  obtain res2 lm2 where b: "try_acquire_lock_once r t ty (other i lm1) = (res2, lm2)" by fastforce
  with 0 have "res2 = Inr ()" using try_acquire_compatible [of t ty "other i lm1" r] by simp
  with a b 0 show ?case
    using try_acquire_error [of r t ty lm] try_acquire_grants [of r t ty lm] try_acquire_grants [of r t ty "other i lm1"]
    by (cases res) (auto simp: not_less)
next
  case (Suc k)
  obtain res lm1 where a: "try_acquire_lock_once r t ty lm = (res, lm1)" by fastforce
  from Suc.IH [of "Suc i" "other i lm1"] Suc.prems
  have "\<exists>lm'. acquire_loop (Suc (Suc k)) (Suc i) elapsed other timeout r t ty (other i lm1) = Some (Inr (), lm')
           \<and> (holds lm' r t ty \<or> holds lm' r t Exclusive)" by simp
  moreover have "elapsed i \<le> timeout" using Suc.prems by simp
  ultimately show ?case
    using a try_acquire_error [of r t ty lm] try_acquire_grants [of r t ty lm]
    by (cases res) (auto simp: not_less simp del: acquire_loop.simps(2) simp: acquire_loop.simps(2) [of "Suc (Suc k)"])
qed

lemma entries_of_release:
  "entries_of (release_lock r t lm) r' =
     (if r' = r then filter (\<lambda>e. le_txn e \<noteq> t) (entries_of lm r') else entries_of lm r')"
  by (auto simp: release_lock_def entries_of_def Let_def split: option.split)

lemma entries_of_release_all:
  "entries_of (release_all_locks keys t lm) r =
     (if r \<in> set keys then filter (\<lambda>e. le_txn e \<noteq> t) (entries_of lm r) else entries_of lm r)"
  unfolding release_all_locks_def
  by (induction keys arbitrary: lm) (auto simp: entries_of_release)

section \<open>Properties\<close>


text \<open>
  C23: the retry loop ends. Whatever the other threads do to the lock table between the
  attempts, once the clock has passed the timeout at attempt \<open>k\<close> at most \<open>k + 1\<close> attempts are
  made, and the call either reports the timeout or leaves the caller holding a lock that covers
  the request.
\<close>

theorem acquire_loop_terminates:
  assumes "timeout < elapsed k"
  shows "\<exists>res lm'. acquire_loop (Suc k) 0 elapsed other timeout r t ty lm = Some (res, lm')
           \<and> (res = Inl (Error TransactionError)
              \<or> res = Inr () \<and> (holds lm' r t ty \<or> holds lm' r t Exclusive))"
  using acquire_loop_returns [of timeout elapsed 0 k] assms by simp

text \<open>
  releasing all locks of a transaction, over a snapshot of the keys that covers the table,
  removes exactly that transaction's entries.
\<close>

theorem release_all_removes_own:
  assumes "dom lm \<subseteq> set keys"
  shows "entries_of (release_all_locks keys t lm) r =
           filter (\<lambda>e. le_txn e \<noteq> t) (entries_of lm r)"
proof (cases "r \<in> set keys")
  case False
  with assms have "entries_of lm r = []" by (auto simp: entries_of_def split: option.split)
  with False show ?thesis by (simp add: entries_of_release_all)
qed (simp add: entries_of_release_all)

text \<open>
  C24: a waiting request is granted. When the conflicting locks on the table are gone after the sleep \<open>k\<close> and the
  clock has not passed the timeout by then, the loop returns success with a lock that covers the
  request, whatever the other threads did before.
\<close>

theorem waiting_lock_granted:
  assumes "\<forall>j\<le>k. elapsed j \<le> timeout" and "\<forall>lm. compatible t ty (entries_of (other k lm) r)"
  shows "\<exists>lm'. acquire_loop (Suc (Suc k)) 0 elapsed other timeout r t ty lm = Some (Inr (), lm')
           \<and> (holds lm' r t ty \<or> holds lm' r t Exclusive)"
  using acquire_loop_granted [of 0 k] assms by simp

text \<open>A reader waits for the exclusive lock of another transaction, which releases everything during its third sleep.\<close>

theorem waiting_lock_granted_witness:
  "\<exists>lm'. acquire_loop 4 0 (\<lambda>i. 10 * i) (\<lambda>i lm. if i = 2 then Map.empty else lm) 100 ''t'' 7 Shared
           [''t'' \<mapsto> [\<lparr>le_txn = 3, le_type = Exclusive\<rparr>]] = Some (Inr (), lm')
       \<and> (holds lm' ''t'' 7 Shared \<or> holds lm' ''t'' 7 Exclusive)"
  using waiting_lock_granted [of 2 "\<lambda>i. 10 * i" 100 7 Shared "\<lambda>i lm. if i = 2 then Map.empty else lm" "''t''"]
  by (simp add: compatible_def entries_of_def numeral_eq_Suc)

text \<open>
  a transaction ends once. After a successful commit, in every later state of the manager the
  transaction is still committed, is not listed as active, and both another commit and an abort
  are refused.
\<close>

theorem txn_commit_final:
  assumes "txn_step\<^sup>*\<^sup>* txn_manager_new m" and "txn_commit t m = (Inr (), m')"
    and "txn_step\<^sup>*\<^sup>* m' m''"
  shows "txn_states m'' t = Some Committed \<and> t \<notin> active_transactions m''
         \<and> fst (txn_commit t m'') = Inl (Error TransactionError)
         \<and> fst (txn_abort t m'') = Inl (Error TransactionError)"
proof -
  have inv: "txn_inv m" using assms(1) by (rule txn_reachable_inv)
  have m': "m' = snd (txn_commit t m)" using assms(2) by simp
  have inv': "txn_inv m'" unfolding m' txn_commit_def by (rule txn_end_inv) (use inv in simp_all)
  have "txn_states m' t = Some Committed"
    using assms(2)
    by (auto simp: txn_commit_def txn_end_def txn_transition_def split: option.splits if_splits)
  from txn_steps_finished [OF assms(3) inv' this]
  have st: "txn_states m'' t = Some Committed" and inv'': "txn_inv m''" by simp_all
  then have "t \<notin> active_transactions m''" by (simp add: txn_inv_def)
  with st show ?thesis by (simp add: txn_commit_def txn_abort_def txn_end_def txn_transition_def)
qed

section \<open>Witnesses\<close>

definition sample_locks :: lock_manager where
  "sample_locks = snd (try_acquire_lock_once ''t'' 1 Exclusive
     (snd (try_acquire_lock_once ''t'' 1 Shared lock_manager_new)))"

lemma sample_locks_reachable: "lock_reachable sample_locks"
  unfolding sample_locks_def by (intro lock_next [OF _ step_acquire] lock_start)

lemma sample_locks_eq: "sample_locks = [''t'' \<mapsto> [\<lparr>le_txn = 1, le_type = Exclusive\<rparr>]]"
  by (simp add: sample_locks_def try_acquire_lock_once_def lock_manager_new_def entries_of_def)


theorem acquire_loop_terminates_witness:
  "\<exists>res lm'. acquire_loop (Suc 31) 0 (\<lambda>i. 1000 * i) (\<lambda>_ lm. lm) 30000 ''t'' 2 Shared sample_locks
       = Some (res, lm') \<and> (res = Inl (Error TransactionError)
         \<or> res = Inr () \<and> (holds lm' ''t'' 2 Shared \<or> holds lm' ''t'' 2 Exclusive))"
  by (rule acquire_loop_terminates) simp

theorem release_all_removes_own_witness:
  "entries_of (release_all_locks [''t''] 1 sample_locks) ''t'' = []"
proof -
  have "dom sample_locks \<subseteq> set [''t'']" by (simp add: sample_locks_eq)
  from release_all_removes_own [OF this, of 1 "''t''"] show ?thesis
    by (simp add: sample_locks_eq entries_of_def)
qed

theorem txn_commit_final_witness:
  "fst (txn_abort 1 (snd (txn_commit 1 (snd (txn_begin txn_manager_new)))))
     = Inl (Error TransactionError)"
proof -
  let ?m = "snd (txn_begin txn_manager_new)"
  have "txn_step\<^sup>*\<^sup>* txn_manager_new ?m" by (blast intro: txn_step.intros)
  moreover have "txn_commit 1 ?m = (Inr (), snd (txn_commit 1 ?m))"
    by (simp add: txn_commit_def txn_end_def txn_transition_def txn_begin_def txn_manager_new_def)
  ultimately show ?thesis
    using txn_commit_final [of ?m 1 "snd (txn_commit 1 ?m)" "snd (txn_commit 1 ?m)"] by simp
qed

end
