(* ===== verification/RowCodec.thy ===== *)
theory RowCodec
  imports Types
begin

text \<open>
  The row format of \<open>src/btree.rs\<close> (\<open>serialize_row\<close>, \<open>deserialize_row\<close>): a value count followed by
  tagged values. The decoder reads from a buffer at a moving offset, as the code does, with a
  panic wherever the code indexes outside the buffer and an error wherever it returns one.
  \<open>row_codec\<close> is the contract a client of the format relies on; the theory proves that decoding
  an encoded row gives the row back, up to \<open>Real\<close>, which the format stores as \<open>Float\<close>.
\<close>

section \<open>Encoding\<close>

definition serialize_value :: "sql_value \<Rightarrow> bytes" where
  "serialize_value v =
     (case v of
        VNull \<Rightarrow> [0]
      | VInteger i \<Rightarrow> 1 # i64_to_le i
      | VFloat f \<Rightarrow> 2 # le_bytes 8 (unat f)
      | VReal f \<Rightarrow> 2 # le_bytes 8 (unat f)
      | VText s \<Rightarrow> 3 # le_bytes 4 (length s) @ str_bytes s
      | VBlob b \<Rightarrow> 4 # le_bytes 4 (length b) @ b
      | VVector xs \<Rightarrow> 5 # le_bytes 4 (length xs) @ concat (map (\<lambda>x. le_bytes 4 (unat x)) xs))"

definition serialize_row :: "row \<Rightarrow> bytes" where
  "serialize_row vs = le_bytes 4 (length vs) @ concat (map serialize_value vs)"

section \<open>Decoding\<close>

text \<open>\<open>data[offset]\<close>.\<close>

definition byte_at :: "nat \<Rightarrow> bytes \<Rightarrow> u8 result" where
  "byte_at off data = (if off < length data then Inr (data ! off) else Inl Panic)"

text \<open>\<open>u32::from_le_bytes(data[offset..offset + 4]) as usize\<close>, and the other widths.\<close>

definition read_u32 :: "nat \<Rightarrow> bytes \<Rightarrow> nat result" where
  "read_u32 off data = rbind (slice off (off + 4) data) (\<lambda>bs. Inr (le_nat bs))"

definition read_u64 :: "nat \<Rightarrow> bytes \<Rightarrow> nat result" where
  "read_u64 off data = rbind (slice off (off + 8) data) (\<lambda>bs. Inr (le_nat bs))"

definition read_i64 :: "nat \<Rightarrow> bytes \<Rightarrow> i64 result" where
  "read_i64 off data = rbind (slice off (off + 8) data) (\<lambda>bs. Inr (i64_from_le bs))"

fun read_f32s :: "nat \<Rightarrow> nat \<Rightarrow> bytes \<Rightarrow> f32 list result" where
  "read_f32s 0 off data = Inr []"
| "read_f32s (Suc n) off data =
     rbind (read_u32 off data) (\<lambda>x. rbind (read_f32s n (off + 4) data)
       (\<lambda>xs. Inr (word_of_nat x # xs)))"

definition deserialize_value :: "nat \<Rightarrow> bytes \<Rightarrow> (sql_value \<times> nat) result" where
  "deserialize_value off data =
     rbind (byte_at off data) (\<lambda>type_tag. let off = off + 1 in
       if type_tag = 0 then Inr (VNull, off)
       else if type_tag = 1 then
         rbind (read_i64 off data) (\<lambda>i. Inr (VInteger i, off + 8))
       else if type_tag = 2 then
         rbind (read_u64 off data) (\<lambda>f. Inr (VFloat (word_of_nat f), off + 8))
       else if type_tag = 3 then
         rbind (read_u32 off data) (\<lambda>len. let off = off + 4 in
           rbind (slice off (off + len) data) (\<lambda>bs.
             rbind (from_utf8 bs) (\<lambda>s. Inr (VText s, off + len))))
       else if type_tag = 4 then
         rbind (read_u32 off data) (\<lambda>len. let off = off + 4 in
           rbind (slice off (off + len) data) (\<lambda>b. Inr (VBlob b, off + len)))
       else if type_tag = 5 then
         rbind (read_u32 off data) (\<lambda>dim. let off = off + 4 in
           if length data < off + dim * 4 then Inl (Error Corruption)
           else rbind (read_f32s dim off data) (\<lambda>xs. Inr (VVector xs, off + dim * 4)))
       else Inl (Error Corruption))"

fun deserialize_values :: "nat \<Rightarrow> nat \<Rightarrow> bytes \<Rightarrow> row result" where
  "deserialize_values 0 off data = Inr []"
| "deserialize_values (Suc n) off data =
     rbind (deserialize_value off data) (\<lambda>(v, off').
       rbind (deserialize_values n off' data) (\<lambda>vs. Inr (v # vs)))"

definition deserialize_row :: "bytes \<Rightarrow> row result" where
  "deserialize_row data =
     rbind (read_u32 0 data) (\<lambda>num_values. deserialize_values num_values 4 data)"

section \<open>Well-formed rows\<close>

text \<open>The lengths the format can carry, and the program's own invariant on strings.\<close>

definition value_ok :: "sql_value \<Rightarrow> bool" where
  "value_ok v =
     (case v of VText s \<Rightarrow> length s < 2 ^ 32 \<and> str_ok s | VBlob b \<Rightarrow> length b < 2 ^ 32
      | VVector xs \<Rightarrow> length xs < 2 ^ 32 | _ \<Rightarrow> True)"

definition row_ok :: "row \<Rightarrow> bool" where
  "row_ok vs \<longleftrightarrow> length vs < 2 ^ 32 \<and> list_all value_ok vs"

text \<open>The variant the format keeps: \<open>Real\<close> is stored under the tag of \<open>Float\<close>.\<close>

definition stored_value :: "sql_value \<Rightarrow> sql_value" where
  "stored_value v = (case v of VReal f \<Rightarrow> VFloat f | _ \<Rightarrow> v)"

abbreviation stored_row :: "row \<Rightarrow> row" where
  "stored_row \<equiv> map stored_value"

section \<open>Reading back what was written\<close>

lemma read_u32_mid [codec_simps]:
  "off = length pre \<Longrightarrow> n < 2 ^ 32 \<Longrightarrow> read_u32 off (pre @ le_bytes 4 n @ post) = Inr n"
  unfolding read_u32_def
  by (subst slice_mid) (simp_all add: le_nat_le_bytes_id)

lemma read_u64_mid [codec_simps]:
  "off = length pre \<Longrightarrow> n < 2 ^ 64 \<Longrightarrow> read_u64 off (pre @ le_bytes 8 n @ post) = Inr n"
  unfolding read_u64_def
  by (subst slice_mid) (simp_all add: le_nat_le_bytes_id)

lemma read_i64_mid [codec_simps]:
  "off = length pre \<Longrightarrow> read_i64 off (pre @ i64_to_le w @ post) = Inr w"
  unfolding read_i64_def
  by (subst slice_mid) simp_all

lemma byte_at_mid [codec_simps]: "off = length pre \<Longrightarrow> byte_at off (pre @ b # post) = Inr b"
  by (simp add: byte_at_def)

lemma unat_f32_bound: "unat (x :: f32) < 2 ^ 32"
proof -
  have "unat x < 2 ^ LENGTH(32)" by (rule unsigned_less)
  then show ?thesis by simp
qed

lemma length_f32_bytes [codec_simps]:
  "length (concat (map (\<lambda>x. le_bytes 4 (unat (x :: f32))) xs)) = 4 * length xs"
  by (induction xs) auto

lemma read_f32s_mid [codec_simps]:
  "off = length pre \<Longrightarrow>
   read_f32s (length xs) off (pre @ concat (map (\<lambda>x. le_bytes 4 (unat x)) xs) @ post) = Inr xs"
proof (induction xs arbitrary: off pre)
  case Nil
  then show ?case by simp
next
  case (Cons x xs)
  let ?rest = "concat (map (\<lambda>x. le_bytes 4 (unat x)) xs) @ post"
  have "read_u32 off (pre @ le_bytes 4 (unat x) @ ?rest) = Inr (unat x)"
    using Cons.prems unat_f32_bound by (rule read_u32_mid)
  moreover have "read_f32s (length xs) (off + 4) ((pre @ le_bytes 4 (unat x)) @ ?rest) = Inr xs"
    using Cons.prems by (intro Cons.IH) simp
  ultimately show ?case by simp
qed

lemma length_serialize_value [codec_simps]: "length (serialize_value v) = size_bytes v"
  by (cases v) (auto simp: serialize_value_def size_bytes_def codec_simps)

lemma tag_distinct:
  "(1 :: u8) \<noteq> 0" "(2 :: u8) \<noteq> 0" "(3 :: u8) \<noteq> 0" "(4 :: u8) \<noteq> 0" "(5 :: u8) \<noteq> 0"
  "(2 :: u8) \<noteq> 1" "(3 :: u8) \<noteq> 1" "(4 :: u8) \<noteq> 1" "(5 :: u8) \<noteq> 1"
  "(3 :: u8) \<noteq> 2" "(4 :: u8) \<noteq> 2" "(5 :: u8) \<noteq> 2"
  "(4 :: u8) \<noteq> 3" "(5 :: u8) \<noteq> 3" "(5 :: u8) \<noteq> 4"
  by simp_all

text \<open>One encoded value in the middle of a buffer is read back, and the offset moves behind it.\<close>

lemma deserialize_value_mid:
  assumes "off = length pre" and "value_ok v"
  shows "deserialize_value off (pre @ serialize_value v @ post) =
           Inr (stored_value v, off + size_bytes v)"
proof -
  have tag: "byte_at off (pre @ b # more) = Inr b" for b more
    using assms(1) by (rule byte_at_mid)
  note defs = tag_distinct deserialize_value_def serialize_value_def stored_value_def size_bytes_def value_ok_def
  have i64: "read_i64 (Suc off) (pre @ t # i64_to_le i @ post) = Inr i" for t i
    using read_i64_mid [of "Suc off" "pre @ [t]" i post] assms(1) by simp
  have f64: "read_u64 (Suc off) (pre @ t # le_bytes 8 (unat (f :: f64)) @ post) = Inr (unat f)" for t f
    using read_u64_mid [of "Suc off" "pre @ [t]" "unat f" post] unat_i64_bound [of f] assms(1)
    by simp
  have u32: "n < 2 ^ 32 \<Longrightarrow> read_u32 (Suc off) (pre @ t # le_bytes 4 n @ more) = Inr n" for t n more
    using read_u32_mid [of "Suc off" "pre @ [t]" n more] assms(1) by simp
  have sl: "slice (5 + off) (5 + off + length bs) (pre @ t # le_bytes 4 n @ bs @ post) = Inr bs"
    for t n bs
    using slice_mid [of "5 + off" "pre @ t # le_bytes 4 n" "5 + off + length bs" bs post] assms(1)
    by simp
  have fs: "read_f32s (length xs) (5 + off)
      (pre @ t # le_bytes 4 n @ concat (map (\<lambda>x. le_bytes 4 (unat x)) xs) @ post) = Inr xs" for t n xs
    using read_f32s_mid [of "5 + off" "pre @ t # le_bytes 4 n" xs post] assms(1) by simp
  show ?thesis
  proof (cases v)
    case (VText s)
    have "length (str_bytes s) = length s" by simp
    with sl [of "str_bytes s" 3 "length s"] assms(2) u32 [of "length s" 3 "str_bytes s @ post"] VText
    show ?thesis by (simp add: defs tag from_utf8_str_bytes Let_def)
  next
    case (VBlob b)
    with sl [of b 4 "length b"] assms(2) u32 [of "length b" 4 "b @ post"]
    show ?thesis by (simp add: defs tag Let_def)
  next
    case (VVector xs)
    with fs [of xs 5 "length xs"] assms
      u32 [of "length xs" 5 "concat (map (\<lambda>x. le_bytes 4 (unat x)) xs) @ post"]
    show ?thesis by (simp add: defs byte_at_mid Let_def length_f32_bytes)
  qed (use i64 f64 in \<open>simp_all add: defs tag Let_def\<close>)
qed

lemma deserialize_values_mid:
  assumes "off = length pre" and "list_all value_ok vs"
  shows "deserialize_values (length vs) off (pre @ concat (map serialize_value vs) @ post) =
           Inr (stored_row vs)"
  using assms
proof (induction vs arbitrary: off pre)
  case Nil
  then show ?case by simp
next
  case (Cons v vs)
  let ?rest = "concat (map serialize_value vs) @ post"
  have "deserialize_value off (pre @ serialize_value v @ ?rest) =
          Inr (stored_value v, off + size_bytes v)"
    using Cons.prems by (intro deserialize_value_mid) simp_all
  moreover have "deserialize_values (length vs) (off + size_bytes v)
      ((pre @ serialize_value v) @ ?rest) = Inr (stored_row vs)"
    using Cons.prems by (intro Cons.IH) (simp_all add: codec_simps)
  ultimately show ?case by simp
qed

lemma length_serialize_row [codec_simps]:
  "length (serialize_row vs) = 4 + sum_list (map size_bytes vs)"
proof -
  have "length (concat (map serialize_value vs)) = sum_list (map size_bytes vs)"
    by (induction vs) (simp_all add: codec_simps)
  then show ?thesis by (simp add: serialize_row_def)
qed

lemma deserialize_serialize_row:
  assumes "row_ok vs"
  shows "deserialize_row (serialize_row vs) = Inr (stored_row vs)"
proof -
  from assms have len: "length vs < 2 ^ 32" and ok: "list_all value_ok vs"
    by (simp_all add: row_ok_def)
  have "read_u32 0 ([] @ le_bytes 4 (length vs) @ concat (map serialize_value vs)) =
          Inr (length vs)"
    using len by (intro read_u32_mid) simp_all
  moreover have "deserialize_values (length vs) 4
      (le_bytes 4 (length vs) @ concat (map serialize_value vs) @ []) = Inr (stored_row vs)"
    using ok by (intro deserialize_values_mid) simp_all
  ultimately show ?thesis
    by (simp add: deserialize_row_def serialize_row_def)
qed

section \<open>The contract of the format\<close>

text \<open>
  What a storage layer relies on: decoding inverts encoding on the rows it accepts, and the rows
  that come back are accepted again and unchanged by another trip.
\<close>

locale row_codec =
  fixes enc :: "'r \<Rightarrow> bytes" and dec :: "bytes \<Rightarrow> 'r result"
    and ok :: "'r \<Rightarrow> bool" and canon :: "'r \<Rightarrow> 'r"
  assumes dec_enc: "ok r \<Longrightarrow> dec (enc r) = Inr (canon r)"
    and canon_ok: "ok r \<Longrightarrow> ok (canon r)"
    and enc_canon: "enc (canon r) = enc r"
begin

lemma dec_enc_canon: "ok r \<Longrightarrow> dec (enc (canon r)) = Inr (canon r)"
  by (simp add: dec_enc enc_canon)

lemma enc_inj: "ok r \<Longrightarrow> ok r' \<Longrightarrow> enc r = enc r' \<Longrightarrow> canon r = canon r'"
  by (metis dec_enc sum.inject(2))

lemma canon_canon: "ok r \<Longrightarrow> canon (canon r) = canon r"
  by (rule enc_inj) (simp_all add: canon_ok enc_canon)

end

lemma serialize_stored_value [simp]: "serialize_value (stored_value v) = serialize_value v"
  by (cases v) (simp_all add: serialize_value_def stored_value_def)

lemma value_ok_stored [simp]: "value_ok (stored_value v) = value_ok v"
  by (cases v) (simp_all add: value_ok_def stored_value_def)

interpretation rows: row_codec serialize_row deserialize_row row_ok stored_row
proof unfold_locales
  show "row_ok r \<Longrightarrow> deserialize_row (serialize_row r) = Inr (stored_row r)" for r
    by (rule deserialize_serialize_row)
  show "row_ok r \<Longrightarrow> row_ok (stored_row r)" for r
    by (simp add: row_ok_def list_all_iff)
  show "serialize_row (stored_row r) = serialize_row r" for r
    by (simp add: serialize_row_def comp_def)
qed

end
