(* ===== verification/Wal.thy ===== *)
theory Wal
  imports RowCodec
begin

text \<open>
  The write-ahead log, \<open>src/wal.rs\<close>: record encoding, appending a committed group in one write,
  and the scan that recovers committed groups.

  The CRC (crate \<open>crc32fast\<close>) is the parameter \<open>crc\<close> of every definition that uses it; nothing is
  assumed about it. The WAL file is its bytes. A write that fails, or a crash in the middle of
  it, leaves a prefix of the buffer in the file: \<open>write_outcome\<close> says how much.
\<close>

section \<open>Files\<close>

definition page_size :: nat where
  "page_size = 4096"

definition write_at :: "nat \<Rightarrow> bytes \<Rightarrow> bytes \<Rightarrow> bytes" where
  "write_at off bs f =
     take off (f @ replicate (off - length f) 0) @ bs @ drop (off + length bs) f"

definition set_len :: "nat \<Rightarrow> bytes \<Rightarrow> bytes" where
  "set_len n f = take n (f @ replicate (n - length f) 0)"

text \<open>
  The outcome of \<open>seek\<close>, \<open>write_all\<close> and \<open>sync_data\<close> taken together: success, or a failure after
  \<open>k\<close> bytes of the buffer reached the file, with the result of the \<open>set_len\<close> that tries to undo it.
\<close>

datatype write_outcome = WriteOk | WriteFails nat bool

section \<open>State\<close>

record committed_group =
  cg_group_id :: nat
  cg_writes :: "(nat \<times> bytes) list"

record wal_manager =
  wal_file :: bytes
  next_group_id :: nat
  wal_len :: nat

definition wal_open :: "bytes \<Rightarrow> wal_manager" where
  "wal_open contents = \<lparr>wal_file = contents, next_group_id = 1, wal_len = length contents\<rparr>"

definition wal_size :: "wal_manager \<Rightarrow> nat" where
  "wal_size w = wal_len w"

definition wal_path_for :: "string \<Rightarrow> string" where
  "wal_path_for db_path = db_path @ ''-wal''"

section \<open>Appending\<close>

definition REC_PAGE_WRITE :: u8 where "REC_PAGE_WRITE = 1"
definition REC_COMMIT :: u8 where "REC_COMMIT = 2"

definition encode_record :: "(bytes \<Rightarrow> 32 word) \<Rightarrow> u8 \<Rightarrow> nat \<Rightarrow> bytes \<Rightarrow> bytes" where
  "encode_record crc rec_type group_id payload =
     (let body = rec_type # le_bytes 8 group_id @ le_bytes 4 (length payload) @ payload
      in body @ le_bytes 4 (unat (crc body)))"

fun encode_pages :: "(bytes \<Rightarrow> 32 word) \<Rightarrow> nat \<Rightarrow> (nat \<times> bytes) list \<Rightarrow> bytes result" where
  "encode_pages crc group_id [] = Inr []"
| "encode_pages crc group_id ((page_id, data) # pages) =
     (if length data \<noteq> page_size then Inl (Error StorageError)
      else rbind (encode_pages crc group_id pages) (\<lambda>buf.
        Inr (encode_record crc REC_PAGE_WRITE group_id (le_bytes 8 page_id @ data) @ buf)))"

definition append_group ::
    "(bytes \<Rightarrow> 32 word) \<Rightarrow> write_outcome \<Rightarrow> nat \<Rightarrow> (nat \<times> bytes) list \<Rightarrow> (wal_manager, unit) op" where
  "append_group crc outcome group_id pages w =
     (case encode_pages crc group_id pages of
        Inl e \<Rightarrow> (Inl e, w)
      | Inr recs \<Rightarrow>
          let buf = recs @ encode_record crc REC_COMMIT group_id [] in
          case outcome of
            WriteOk \<Rightarrow>
              (Inr (), w\<lparr>wal_file := write_at (wal_len w) buf (wal_file w),
                         wal_len := wal_len w + length buf\<rparr>)
          | WriteFails k undone \<Rightarrow>
              let f = write_at (wal_len w) (take k buf) (wal_file w) in
              (Inl (Error Io), w\<lparr>wal_file := (if undone then set_len (wal_len w) f else f)\<rparr>))"

definition append_record ::
    "(bytes \<Rightarrow> 32 word) \<Rightarrow> write_outcome \<Rightarrow> u8 \<Rightarrow> nat \<Rightarrow> bytes \<Rightarrow> (wal_manager, unit) op" where
  "append_record crc outcome rec_type group_id payload w =
     (let buf = encode_record crc rec_type group_id payload in
      case outcome of
        WriteOk \<Rightarrow>
          (Inr (), w\<lparr>wal_file := write_at (wal_len w) buf (wal_file w),
                     wal_len := wal_len w + length buf\<rparr>)
      | WriteFails k _ \<Rightarrow>
          (Inl (Error Io), w\<lparr>wal_file := write_at (wal_len w) (take k buf) (wal_file w)\<rparr>))"

definition log_page_write ::
    "(bytes \<Rightarrow> 32 word) \<Rightarrow> write_outcome \<Rightarrow> nat \<Rightarrow> nat \<Rightarrow> bytes \<Rightarrow> (wal_manager, unit) op" where
  "log_page_write crc outcome group_id page_id data w =
     (if length data \<noteq> page_size then (Inl (Error StorageError), w)
      else append_record crc outcome REC_PAGE_WRITE group_id (le_bytes 8 page_id @ data) w)"

text \<open>\<open>synced\<close> is the outcome of the \<open>sync_data\<close> after the record is written.\<close>

definition log_commit ::
    "(bytes \<Rightarrow> 32 word) \<Rightarrow> write_outcome \<Rightarrow> bool \<Rightarrow> nat \<Rightarrow> (wal_manager, unit) op" where
  "log_commit crc outcome synced group_id =
     mbind (append_record crc outcome REC_COMMIT group_id [])
       (\<lambda>_. if synced then mret () else mfail (Error Io))"

definition allocate_group_id :: "wal_manager \<Rightarrow> nat \<times> wal_manager" where
  "allocate_group_id w =
     (next_group_id w, w\<lparr>next_group_id := (next_group_id w + 1) mod 2 ^ 64\<rparr>)"

definition observe_group_id :: "nat \<Rightarrow> wal_manager \<Rightarrow> wal_manager" where
  "observe_group_id floor w =
     (if next_group_id w \<le> floor then w\<lparr>next_group_id := (floor + 1) mod 2 ^ 64\<rparr> else w)"

text \<open>
  \<open>truncate\<close> is three calls; any of them may fail, and \<open>len\<close> is reset only behind the last one.
\<close>

datatype truncate_outcome = TruncateOk | SetLenFails | TruncateSyncFails

definition wal_truncate :: "truncate_outcome \<Rightarrow> (wal_manager, unit) op" where
  "wal_truncate outcome w =
     (case outcome of
        SetLenFails \<Rightarrow> (Inl (Error Io), w)
      | TruncateSyncFails \<Rightarrow> (Inl (Error Io), w\<lparr>wal_file := set_len 0 (wal_file w)\<rparr>)
      | TruncateOk \<Rightarrow> (Inr (), w\<lparr>wal_file := set_len 0 (wal_file w), wal_len := 0\<rparr>))"

section \<open>Reading committed groups\<close>

record wal_record =
  wr_type :: u8
  wr_group_id :: nat
  wr_payload :: bytes

function parse_records :: "(bytes \<Rightarrow> 32 word) \<Rightarrow> bytes \<Rightarrow> nat \<Rightarrow> wal_record list" where
  "parse_records crc buf cursor =
     (if length buf < cursor + 1 + 8 + 4 + 4 then []
      else let len = le_nat (take 4 (drop (cursor + 9) buf));
               payload_start = cursor + 13;
               payload_end = payload_start + len;
               crc_end = payload_end + 4
           in if length buf < crc_end then []
              else if unat (crc (take (payload_end - cursor) (drop cursor buf)))
                        \<noteq> le_nat (take 4 (drop payload_end buf)) then []
              else \<lparr>wr_type = buf ! cursor,
                    wr_group_id = le_nat (take 8 (drop (cursor + 1) buf)),
                    wr_payload = take len (drop payload_start buf)\<rparr>
                   # parse_records crc buf crc_end)"
  by pat_completeness auto
termination
  by (relation "measure (\<lambda>(crc, buf, cursor). length buf - cursor)") auto

declare parse_records.simps [simp del]

definition highest_group :: "wal_record list \<Rightarrow> nat" where
  "highest_group rs = fold (\<lambda>r h. if h < wr_group_id r then wr_group_id r else h) rs 0"

fun collect_groups ::
    "(nat \<Rightarrow> (nat \<times> bytes) list) \<Rightarrow> wal_record list \<Rightarrow> committed_group list result" where
  "collect_groups pend [] = Inr []"
| "collect_groups pend (r # rs) =
     (let g = wr_group_id r; payload = wr_payload r in
      if wr_type r = REC_PAGE_WRITE then
        if length payload < 8 + page_size then Inl (Error Corruption)
        else collect_groups
          (pend(g := pend g @ [(le_nat (take 8 payload), take page_size (drop 8 payload))])) rs
      else if wr_type r = REC_COMMIT then
        rbind (collect_groups (pend(g := [])) rs)
          (\<lambda>gs. Inr (\<lparr>cg_group_id = g, cg_writes = pend g\<rparr> # gs))
      else Inl (Error Corruption))"

definition read_committed_groups ::
    "(bytes \<Rightarrow> 32 word) \<Rightarrow> (wal_manager, committed_group list) op" where
  "read_committed_groups crc w =
     (let records = parse_records crc (wal_file w) 0 in
      (collect_groups (\<lambda>_. []) records, observe_group_id (highest_group records) w))"

section \<open>The encoding of whole groups\<close>

definition page_record :: "(bytes \<Rightarrow> 32 word) \<Rightarrow> nat \<Rightarrow> nat \<times> bytes \<Rightarrow> bytes" where
  "page_record crc g pw = encode_record crc REC_PAGE_WRITE g (le_bytes 8 (fst pw) @ snd pw)"

definition encode_group :: "(bytes \<Rightarrow> 32 word) \<Rightarrow> committed_group \<Rightarrow> bytes" where
  "encode_group crc g =
     concat (map (page_record crc (cg_group_id g)) (cg_writes g))
     @ encode_record crc REC_COMMIT (cg_group_id g) []"

definition encode_groups :: "(bytes \<Rightarrow> 32 word) \<Rightarrow> committed_group list \<Rightarrow> bytes" where
  "encode_groups crc gs = concat (map (encode_group crc) gs)"

definition group_ok :: "committed_group \<Rightarrow> bool" where
  "group_ok g \<longleftrightarrow> cg_group_id g < 2 ^ 64
     \<and> list_all (\<lambda>(pid, data). pid < 2 ^ 64 \<and> length data = page_size) (cg_writes g)"

lemma encode_pages_eq:
  "encode_pages crc g pws =
     (if list_all (\<lambda>(pid, data). length data = page_size) pws
      then Inr (concat (map (page_record crc g) pws)) else Inl (Error StorageError))"
  by (induction pws) (auto simp: page_record_def [of crc g "(pid, data)" for pid data])

lemma length_encode_record [codec_simps]:
  "length (encode_record crc t g payload) = 17 + length payload"
  by (simp add: encode_record_def Let_def)

lemma length_page_record [codec_simps]:
  "length (snd pw) = page_size \<Longrightarrow> length (page_record crc g pw) = 25 + page_size"
  by (simp add: page_record_def codec_simps)

section \<open>Scanning encoded records\<close>

lemma unat_crc_bound: "unat (c :: 32 word) < 256 ^ 4"
  using unat_f32_bound [of c] by simp

lemma parse_record_mid:
  assumes g: "g < 2 ^ 64" and len: "length payload < 2 ^ 32"
  shows "parse_records crc (pre @ encode_record crc t g payload @ post) (length pre) =
           \<lparr>wr_type = t, wr_group_id = g, wr_payload = payload\<rparr>
           # parse_records crc ((pre @ encode_record crc t g payload) @ post)
               (length (pre @ encode_record crc t g payload))"
proof -
  let ?body = "t # le_bytes 8 g @ le_bytes 4 (length payload) @ payload"
  let ?c = "le_bytes 4 (unat (crc ?body))"
  let ?buf = "pre @ ?body @ ?c @ post"
  have buf: "pre @ encode_record crc t g payload @ post = ?buf"
    by (simp add: encode_record_def Let_def)
  have gid: "le_nat (le_bytes 8 g) = g" and n: "le_nat (le_bytes 4 (length payload)) = length payload"
    and c: "le_nat ?c = unat (crc ?body)"
    using g len unat_crc_bound by (simp_all add: le_nat_le_bytes_id)
  have d: "drop (length pre + k) ?buf = drop k (?body @ ?c @ post)" for k by simp
  have l: "take 4 (drop (length pre + 9) ?buf) = le_bytes 4 (length payload)"
    by (simp add: d)
  have "drop (length pre) ?buf = ?body @ ?c @ post" by simp
  then have b: "take (length pre + 13 + length payload - length pre) (drop (length pre) ?buf) = ?body"
    by (simp only:) (rule take_exact, simp)
  have cc: "take 4 (drop (length pre + 13 + length payload) ?buf) = ?c"
  proof -
    have "drop (length pre + 13 + length payload) ((pre @ ?body) @ ?c @ post) = ?c @ post"
      by (rule drop_exact) simp
    then show ?thesis by simp
  qed
  have p: "take (length payload) (drop (length pre + 13) ?buf) = payload"
    by (simp add: d)
  have i: "take 8 (drop (length pre + 1) ?buf) = le_bytes 8 g" by simp
  show ?thesis
    unfolding buf
    by (subst parse_records.simps)
      (simp only: l n Let_def b cc c p i gid, simp add: encode_record_def Let_def ac_simps)
qed

text \<open>A record cut short, at the end of the file, ends the scan.\<close>

lemma parse_record_torn:
  assumes len: "length payload < 2 ^ 32" and k: "k < length (encode_record crc t g payload)"
  shows "parse_records crc (pre @ take k (encode_record crc t g payload)) (length pre) = []"
proof (cases "k < 17")
  case True
  then show ?thesis by (subst parse_records.simps) (simp add: codec_simps)
next
  case False
  let ?rec = "encode_record crc t g payload"
  have rec: "?rec = (t # le_bytes 8 g) @ le_bytes 4 (length payload) @ payload
      @ le_bytes 4 (unat (crc (t # le_bytes 8 g @ le_bytes 4 (length payload) @ payload)))"
    by (simp add: encode_record_def Let_def)
  have "take 4 (drop 9 (take k ?rec)) = take 4 (drop 9 ?rec)"
    using False by (simp add: drop_take min_def)
  also have "\<dots> = le_bytes 4 (length payload)" by (simp add: rec)
  finally have "le_nat (take 4 (drop (length pre + 9) (pre @ take k ?rec))) = length payload"
    using len by (simp add: le_nat_le_bytes_id)
  with k show ?thesis
    by (subst parse_records.simps) (simp add: codec_simps Let_def)
qed

lemma parse_records_end: "parse_records crc buf (length buf) = []"
  by (subst parse_records.simps) simp

definition group_records :: "committed_group \<Rightarrow> wal_record list" where
  "group_records g =
     map (\<lambda>pw. \<lparr>wr_type = REC_PAGE_WRITE, wr_group_id = cg_group_id g,
                 wr_payload = le_bytes 8 (fst pw) @ snd pw\<rparr>) (cg_writes g)
     @ [\<lparr>wr_type = REC_COMMIT, wr_group_id = cg_group_id g, wr_payload = []\<rparr>]"

lemma parse_page_records:
  assumes "g < 2 ^ 64" and "list_all (\<lambda>(pid, data). pid < 2 ^ 64 \<and> length data = page_size) pws"
  shows "parse_records crc (pre @ concat (map (page_record crc g) pws) @ post) (length pre) =
           map (\<lambda>pw. \<lparr>wr_type = REC_PAGE_WRITE, wr_group_id = g,
                        wr_payload = le_bytes 8 (fst pw) @ snd pw\<rparr>) pws
           @ parse_records crc (pre @ concat (map (page_record crc g) pws) @ post)
               (length pre + length (concat (map (page_record crc g) pws)))"
  using assms(2)
proof (induction pws arbitrary: pre)
  case Nil
  then show ?case by simp
next
  case (Cons pw pws)
  let ?rest = "concat (map (page_record crc g) pws) @ post"
  have "length (le_bytes 8 (fst pw) @ snd pw) < 2 ^ 32"
    using Cons.prems by (auto simp: page_size_def split: prod.splits)
  from parse_record_mid [OF assms(1) this, of crc pre REC_PAGE_WRITE ?rest]
    Cons.IH [of "pre @ page_record crc g pw"] Cons.prems
  show ?case by (simp add: page_record_def [of crc g pw] add.assoc)
qed

lemma parse_group:
  assumes "group_ok g"
  shows "parse_records crc (pre @ encode_group crc g @ post) (length pre) =
           group_records g @ parse_records crc ((pre @ encode_group crc g) @ post)
             (length (pre @ encode_group crc g))"
proof -
  let ?ps = "concat (map (page_record crc (cg_group_id g)) (cg_writes g))"
  let ?c = "encode_record crc REC_COMMIT (cg_group_id g) []"
  from assms have gid: "cg_group_id g < 2 ^ 64"
    and ws: "list_all (\<lambda>(pid, data). pid < 2 ^ 64 \<and> length data = page_size) (cg_writes g)"
    by (simp_all add: group_ok_def)
  from parse_page_records [OF gid ws, of crc pre "?c @ post"]
    parse_record_mid [OF gid, of "[]" crc "pre @ ?ps" REC_COMMIT post]
  show ?thesis by (simp add: encode_group_def group_records_def add.assoc)
qed

lemma parse_groups:
  assumes "list_all group_ok gs"
  shows "parse_records crc (pre @ encode_groups crc gs @ post) (length pre) =
           concat (map group_records gs)
           @ parse_records crc ((pre @ encode_groups crc gs) @ post)
               (length (pre @ encode_groups crc gs))"
  using assms
proof (induction gs arbitrary: pre)
  case Nil
  then show ?case by (simp add: encode_groups_def)
next
  case (Cons g gs)
  from parse_group [of g crc pre "encode_groups crc gs @ post"] Cons.IH [of "pre @ encode_group crc g"]
    Cons.prems
  show ?case by (simp add: encode_groups_def add.assoc)
qed

abbreviation page_records :: "nat \<Rightarrow> (nat \<times> bytes) list \<Rightarrow> wal_record list" where
  "page_records g pws \<equiv> map (\<lambda>pw. \<lparr>wr_type = REC_PAGE_WRITE, wr_group_id = g,
      wr_payload = le_bytes 8 (fst pw) @ snd pw\<rparr>) pws"

lemma parse_pages_torn:
  assumes "g < 2 ^ 64" and "list_all (\<lambda>(pid, data). pid < 2 ^ 64 \<and> length data = page_size) pws"
    and "k < length (concat (map (page_record crc g) pws) @ encode_record crc REC_COMMIT g [])"
  shows "\<exists>n. parse_records crc
           (pre @ take k (concat (map (page_record crc g) pws) @ encode_record crc REC_COMMIT g []))
           (length pre) = page_records g (take n pws)"
  using assms(2,3)
proof (induction pws arbitrary: pre k)
  case Nil
  then show ?case using parse_record_torn [of "[]" k crc REC_COMMIT g pre] by simp
next
  case (Cons pw pws)
  let ?r = "page_record crc g pw"
  let ?rest = "concat (map (page_record crc g) pws) @ encode_record crc REC_COMMIT g []"
  have len: "length (le_bytes 8 (fst pw) @ snd pw) < 2 ^ 32"
    using Cons.prems by (auto simp: page_size_def split: prod.splits)
  show ?case
  proof (cases "k < length ?r")
    case True
    then have "parse_records crc (pre @ take k ?r) (length pre) = []"
      unfolding page_record_def by (rule parse_record_torn [OF len])
    with True show ?thesis by (intro exI [of _ 0]) simp
  next
    case False
    have "k - length ?r < length ?rest" using Cons.prems False by auto
    then obtain n where "parse_records crc ((pre @ ?r) @ take (k - length ?r) ?rest)
        (length (pre @ ?r)) = page_records g (take n pws)"
      using Cons.IH [of "k - length ?r" "pre @ ?r"] Cons.prems by auto
    with parse_record_mid [OF assms(1) len, of crc pre REC_PAGE_WRITE "take (k - length ?r) ?rest"] False
    show ?thesis by (intro exI [of _ "Suc n"]) (simp add: page_record_def [of crc g pw])
  qed
qed

lemma parse_group_torn:
  assumes "group_ok g" and "k < length (encode_group crc g)"
  shows "\<exists>n. parse_records crc (pre @ take k (encode_group crc g)) (length pre) =
           page_records (cg_group_id g) (take n (cg_writes g))"
  using assms parse_pages_torn [of "cg_group_id g" "cg_writes g" k crc pre]
  by (simp add: group_ok_def encode_group_def)

section \<open>Collecting groups\<close>

lemma rec_type_distinct [simp]: "REC_COMMIT \<noteq> REC_PAGE_WRITE"
  by (simp add: REC_COMMIT_def REC_PAGE_WRITE_def)

lemma collect_pages:
  assumes "list_all (\<lambda>(pid, data). pid < 2 ^ 64 \<and> length data = page_size) pws"
  shows "collect_groups pend (page_records g pws @ rs) = collect_groups (pend(g := pend g @ pws)) rs"
  using assms
proof (induction pws arbitrary: pend)
  case Nil
  then show ?case by simp
next
  case (Cons pw pws)
  from Cons.prems have "le_nat (le_bytes 8 (fst pw)) = fst pw" and "length (snd pw) = page_size"
    by (auto simp: le_nat_le_bytes_id split: prod.splits)
  then have "collect_groups pend (page_records g (pw # pws) @ rs) =
      collect_groups (pend(g := pend g @ [pw])) (page_records g pws @ rs)"
    by (simp add: Let_def del: fun_upd_apply)
  also have "\<dots> = collect_groups ((pend(g := pend g @ [pw]))
      (g := (pend(g := pend g @ [pw])) g @ pws)) rs"
    using Cons.prems by (intro Cons.IH) simp
  also have "(pend(g := pend g @ [pw])) (g := (pend(g := pend g @ [pw])) g @ pws)
      = pend(g := pend g @ pw # pws)"
    by simp
  finally show ?case .
qed

lemma collect_group:
  assumes "group_ok g" and "pend (cg_group_id g) = []"
  shows "collect_groups pend (group_records g @ rs) =
           rbind (collect_groups pend rs) (\<lambda>gs. Inr (g # gs))"
proof (cases g)
  case (fields gid ws)
  have "pend(gid := []) = pend" using assms(2) fields by auto
  with assms fields collect_pages [of ws pend gid] show ?thesis
    by (simp add: group_records_def group_ok_def Let_def)
qed

lemma collect_all_groups:
  assumes "list_all group_ok gs"
  shows "collect_groups (\<lambda>_. []) (concat (map group_records gs) @ rs) =
           rbind (collect_groups (\<lambda>_. []) rs) (\<lambda>more. Inr (gs @ more))"
  using assms
proof (induction gs)
  case Nil
  then show ?case by (cases "collect_groups (\<lambda>_. []) rs") simp_all
next
  case (Cons g gs)
  then show ?case
    by (cases "collect_groups (\<lambda>_. []) rs") (simp_all add: collect_group)
qed

lemma collect_uncommitted:
  assumes "group_ok g"
  shows "collect_groups (\<lambda>_. []) (page_records (cg_group_id g) (take n (cg_writes g))) = Inr []"
proof -
  have "list_all (\<lambda>(pid, data). pid < 2 ^ 64 \<and> length data = page_size) (take n (cg_writes g))"
    using assms by (auto simp: group_ok_def list_all_iff dest: in_set_takeD)
  from collect_pages [OF this, of "\<lambda>_. []" "cg_group_id g" "[]"] show ?thesis by simp
qed

section \<open>Recovery of a log, whole or torn\<close>

text \<open>What a recovering process reads from a WAL file with the given contents.\<close>

definition recovered_groups :: "(bytes \<Rightarrow> 32 word) \<Rightarrow> bytes \<Rightarrow> committed_group list result" where
  "recovered_groups crc contents = fst (read_committed_groups crc (wal_open contents))"

lemma recovered_groups_eq:
  "recovered_groups crc contents = collect_groups (\<lambda>_. []) (parse_records crc contents 0)"
  by (simp add: recovered_groups_def read_committed_groups_def wal_open_def Let_def)

lemma recovered_groups_torn:
  assumes "list_all group_ok gs" and "group_ok g" and "k < length (encode_group crc g)"
  shows "recovered_groups crc (encode_groups crc gs @ take k (encode_group crc g)) = Inr gs"
proof -
  obtain n where "parse_records crc (encode_groups crc gs @ take k (encode_group crc g))
      (length (encode_groups crc gs)) = page_records (cg_group_id g) (take n (cg_writes g))"
    using parse_group_torn [OF assms(2,3), of "encode_groups crc gs"] by blast
  with parse_groups [OF assms(1), of crc "[]" "take k (encode_group crc g)"]
  have "parse_records crc (encode_groups crc gs @ take k (encode_group crc g)) 0 =
      concat (map group_records gs) @ page_records (cg_group_id g) (take n (cg_writes g))"
    by simp
  then show ?thesis
    using assms(1) by (simp add: recovered_groups_eq collect_all_groups collect_uncommitted [OF assms(2)])
qed

lemma recovered_groups_all:
  assumes "list_all group_ok gs"
  shows "recovered_groups crc (encode_groups crc gs) = Inr gs"
  using parse_groups [OF assms, of crc "[]" "[]"] collect_all_groups [OF assms, of "[]"]
  by (simp add: recovered_groups_eq parse_records_end)

lemma encode_groups_snoc: "encode_groups crc (gs @ [g]) = encode_groups crc gs @ encode_group crc g"
  by (simp add: encode_groups_def)

lemma append_group_ok:
  assumes "group_ok g" and "wal_len w = length (wal_file w)"
  shows "append_group crc WriteOk (cg_group_id g) (cg_writes g) w =
           (Inr (), w\<lparr>wal_file := wal_file w @ encode_group crc g,
                      wal_len := wal_len w + length (encode_group crc g)\<rparr>)"
proof -
  have "list_all (\<lambda>(pid, data). length data = page_size) (cg_writes g)"
    using assms(1) by (auto simp: group_ok_def list_all_iff)
  with assms(2) show ?thesis
    by (simp add: append_group_def encode_pages_eq encode_group_def write_at_def Let_def)
qed

lemma append_group_fails:
  assumes "group_ok g" and "wal_len w = length (wal_file w)"
  shows "append_group crc (WriteFails k undone) (cg_group_id g) (cg_writes g) w =
           (Inl (Error Io), w\<lparr>wal_file := (if undone then wal_file w
              else wal_file w @ take k (encode_group crc g))\<rparr>)"
proof -
  have "list_all (\<lambda>(pid, data). length data = page_size) (cg_writes g)"
    using assms(1) by (auto simp: group_ok_def list_all_iff)
  with assms(2) show ?thesis
    by (simp add: append_group_def encode_pages_eq encode_group_def write_at_def set_len_def Let_def)
qed

end
