(* ===== verification/WalTheorems.thy ===== *)
theory WalTheorems
  imports Wal
begin

text \<open>
  The properties of the log on its own: what a prefix of it recovers to, appending and reading
  back, refused pages, group ids after a recovery, and the gap a failed truncation leaves.
\<close>

section \<open>Prefixes\<close>

text \<open>The number of groups that fit entirely into the first \<open>k\<close> bytes of a log.\<close>

fun whole_groups :: "(bytes \<Rightarrow> 32 word) \<Rightarrow> committed_group list \<Rightarrow> nat \<Rightarrow> nat" where
  "whole_groups crc [] k = 0"
| "whole_groups crc (g # gs) k =
     (let n = length (encode_group crc g) in if n \<le> k then Suc (whole_groups crc gs (k - n)) else 0)"

lemma encode_groups_Cons: "encode_groups crc (g # gs) = encode_group crc g @ encode_groups crc gs"
  by (simp add: encode_groups_def)

lemma recovered_prefix:
  assumes "list_all group_ok (pre @ gs)"
  shows "recovered_groups crc (encode_groups crc pre @ take k (encode_groups crc gs)) =
           Inr (pre @ take (whole_groups crc gs k) gs)"
  using assms
proof (induction gs arbitrary: pre k)
  case Nil
  then show ?case using recovered_groups_all [of pre crc] by (simp add: encode_groups_def)
next
  case (Cons g gs)
  show ?case
  proof (cases "length (encode_group crc g) \<le> k")
    case True
    with Cons.IH [of "pre @ [g]" "k - length (encode_group crc g)"] Cons.prems show ?thesis
      by (simp add: encode_groups_Cons encode_groups_snoc Let_def)
  next
    case False
    with recovered_groups_torn [of pre g k crc] Cons.prems show ?thesis
      by (simp add: encode_groups_Cons Let_def)
  qed
qed

text \<open>
  C21: Recovery sees exactly the whole groups. Cut a log of committed groups after any number of
  bytes: the scan returns, without an error, the groups that lie entirely before the cut, in
  order, with their pages, and nothing of the group that was cut.
\<close>

theorem wal_prefix_recovers:
  assumes "list_all group_ok gs"
  shows "recovered_groups crc (take k (encode_groups crc gs)) = Inr (take (whole_groups crc gs k) gs)"
  using recovered_prefix [of "[]" gs crc k] assms by (simp add: encode_groups_def)

theorem wal_prefix_recovers_witness:
  "recovered_groups (\<lambda>_. 0) (take 20 (encode_groups (\<lambda>_. 0)
      [\<lparr>cg_group_id = 1, cg_writes = []\<rparr>, \<lparr>cg_group_id = 2, cg_writes = [(0, replicate 4096 0)]\<rparr>]))
    = Inr [\<lparr>cg_group_id = 1, cg_writes = []\<rparr>]"
  using wal_prefix_recovers [of "[\<lparr>cg_group_id = 1, cg_writes = []\<rparr>,
      \<lparr>cg_group_id = 2, cg_writes = [(0, replicate 4096 0)]\<rparr>]" "\<lambda>_. 0" 20]
  by (simp add: group_ok_def page_size_def encode_group_def page_record_def codec_simps Let_def)

section \<open>Appending\<close>

fun append_groups :: "(bytes \<Rightarrow> 32 word) \<Rightarrow> committed_group list \<Rightarrow> (wal_manager, unit) op" where
  "append_groups crc [] w = (Inr (), w)"
| "append_groups crc (g # gs) w =
     mbind (append_group crc WriteOk (cg_group_id g) (cg_writes g)) (\<lambda>_. append_groups crc gs) w"

lemma append_groups_file:
  assumes "list_all group_ok gs" and "wal_len w = length (wal_file w)"
  shows "fst (append_groups crc gs w) = Inr ()
    \<and> wal_file (snd (append_groups crc gs w)) = wal_file w @ encode_groups crc gs"
  using assms
proof (induction gs arbitrary: w)
  case (Cons g gs)
  from Cons.prems append_group_ok [of g w crc]
    Cons.IH [of "w\<lparr>wal_file := wal_file w @ encode_group crc g,
      wal_len := wal_len w + length (encode_group crc g)\<rparr>"]
  show ?case by (simp add: mbind_def encode_groups_Cons)
qed (simp add: encode_groups_def)

text \<open>
  Append and read back. Appending any groups to a new log succeeds, and the scan of the
  resulting file returns exactly these groups, page ids and page contents included.
\<close>

theorem wal_append_read:
  assumes "list_all group_ok gs"
  shows "fst (append_groups crc gs (wal_open [])) = Inr ()
    \<and> recovered_groups crc (wal_file (snd (append_groups crc gs (wal_open [])))) = Inr gs"
  using append_groups_file [OF assms, of "wal_open []" crc] recovered_groups_all [OF assms, of crc]
  by (simp add: wal_open_def)

theorem wal_append_read_witness:
  "fst (append_groups (\<lambda>_. 5) [\<lparr>cg_group_id = 1, cg_writes = [(3, replicate 4096 7)]\<rparr>] (wal_open [])) = Inr ()
   \<and> recovered_groups (\<lambda>_. 5)
       (wal_file (snd (append_groups (\<lambda>_. 5) [\<lparr>cg_group_id = 1, cg_writes = [(3, replicate 4096 7)]\<rparr>] (wal_open []))))
     = Inr [\<lparr>cg_group_id = 1, cg_writes = [(3, replicate 4096 7)]\<rparr>]"
  by (rule wal_append_read) (simp add: group_ok_def page_size_def)

text \<open>
  A page of the wrong size is refused before anything is written: the append returns a
  storage error and the log manager, file included, is unchanged, whatever the disk would do.
\<close>

theorem append_group_bad_page:
  assumes "(pid, data) \<in> set pws" and "length data \<noteq> page_size"
  shows "append_group crc outcome gid pws w = (Inl (Error StorageError), w)"
proof -
  have "\<not> list_all (\<lambda>(pid, data). length data = page_size) pws"
    using assms by (auto simp: list_all_iff)
  then show ?thesis by (simp add: append_group_def encode_pages_eq)
qed

theorem append_group_bad_page_witness:
  "append_group (\<lambda>_. 0) WriteOk 1 [(0, [1, 2, 3])] (wal_open []) = (Inl (Error StorageError), wal_open [])"
  by (rule append_group_bad_page [of 0 "[1, 2, 3]"]) (simp_all add: page_size_def)

section \<open>Group ids\<close>

lemma highest_group_ge:
  "h \<le> fold (\<lambda>r h. if h < wr_group_id r then wr_group_id r else h) rs h"
proof (induction rs arbitrary: h)
  case (Cons r rs)
  show ?case
    using Cons [of "if h < wr_group_id r then wr_group_id r else h"] by (auto split: if_splits)
qed simp

lemma highest_group_member:
  "r \<in> set rs \<Longrightarrow> wr_group_id r \<le> fold (\<lambda>r h. if h < wr_group_id r then wr_group_id r else h) rs h"
proof (induction rs arbitrary: h)
  case (Cons a rs)
  then show ?case
    using highest_group_ge [of "if h < wr_group_id a then wr_group_id a else h" rs]
    by (auto split: if_splits)
qed simp

text \<open>
  Ids are not reused after a recovery. The first group id allocated after reading a log is
  above the id of every record in it, committed or not, unless an id was the largest 64-bit value.
\<close>

theorem recovered_ids_fresh:
  assumes "r \<in> set (parse_records crc contents 0)"
    and "highest_group (parse_records crc contents 0) < 2 ^ 64 - 1"
  shows "wr_group_id r < fst (allocate_group_id (snd (read_committed_groups crc (wal_open contents))))"
  using highest_group_member [OF assms(1), of 0] assms(2)
  by (simp add: read_committed_groups_def allocate_group_id_def observe_group_id_def highest_group_def
      wal_open_def Let_def)

theorem recovered_ids_fresh_witness:
  "wr_group_id \<lparr>wr_type = REC_COMMIT, wr_group_id = 9, wr_payload = []\<rparr>
     < fst (allocate_group_id (snd (read_committed_groups (\<lambda>_. 0)
         (wal_open (encode_groups (\<lambda>_. 0) [\<lparr>cg_group_id = 9, cg_writes = []\<rparr>])))))"
proof -
  let ?gs = "[\<lparr>cg_group_id = 9, cg_writes = []\<rparr>]"
  have p: "parse_records (\<lambda>_. 0) (encode_groups (\<lambda>_. 0) ?gs) 0 =
      [\<lparr>wr_type = REC_COMMIT, wr_group_id = 9, wr_payload = []\<rparr>]"
    using parse_groups [of ?gs "\<lambda>_. 0" "[]" "[]"]
    by (simp add: group_ok_def group_records_def parse_records_end)
  show ?thesis
    by (rule recovered_ids_fresh) (simp_all add: p highest_group_def)
qed

section \<open>A failed truncation\<close>

text \<open>A run of zero bytes in front of the records ends the scan before the first of them.\<close>

lemma zero_gap_ends_scan:
  assumes "crc (replicate 13 0) \<noteq> 0" and "17 \<le> n"
  shows "parse_records crc (replicate n 0 @ bs) 0 = []"
proof -
  let ?buf = "replicate n 0 @ bs"
  have zeros: "take j (drop i ?buf) = replicate j 0" if "i + j \<le> 17" for i j
    using that assms(2) by (simp add: min_def)
  have "le_nat (replicate j 0) = 0" for j by (induction j) simp_all
  with assms zeros [of 9 4] zeros [of 0 13] zeros [of 13 4] show ?thesis
    by (subst parse_records.simps) (simp add: unat_eq_zero)
qed

text \<open>
  A truncation whose sync fails loses later commits. \<open>truncate\<close> then has emptied the file but
  kept the old length, so the next append lands behind a gap of zero bytes; it reports success,
  and recovery does not see it. (The CRC-32 of thirteen zero bytes is not zero.)
\<close>

theorem truncate_sync_failure_drops_commits:
  assumes "group_ok g" and "17 \<le> wal_len w" and "crc (replicate 13 0) \<noteq> 0"
  defines "r \<equiv> append_group crc WriteOk (cg_group_id g) (cg_writes g) (snd (wal_truncate TruncateSyncFails w))"
  shows "fst r = Inr () \<and> recovered_groups crc (wal_file (snd r)) = Inr []"
proof -
  have "list_all (\<lambda>(pid, data). length data = page_size) (cg_writes g)"
    using assms(1) by (auto simp: group_ok_def list_all_iff)
  then have "fst r = Inr ()" and f: "wal_file (snd r) = replicate (wal_len w) 0 @ encode_group crc g"
    by (simp_all add: r_def append_group_def wal_truncate_def set_len_def encode_pages_eq encode_group_def
        write_at_def Let_def)
  with zero_gap_ends_scan [of crc "wal_len w" "encode_group crc g"] assms(2,3) show ?thesis
    by (simp add: recovered_groups_eq)
qed

theorem truncate_sync_failure_drops_commits_witness:
  "fst (append_group (\<lambda>_. 1) WriteOk 4 [(0, replicate 4096 7)]
      (snd (wal_truncate TruncateSyncFails (wal_open (replicate 20 3))))) = Inr ()
   \<and> recovered_groups (\<lambda>_. 1) (wal_file (snd (append_group (\<lambda>_. 1) WriteOk 4 [(0, replicate 4096 7)]
      (snd (wal_truncate TruncateSyncFails (wal_open (replicate 20 3))))))) = Inr []"
  using truncate_sync_failure_drops_commits [of "\<lparr>cg_group_id = 4, cg_writes = [(0, replicate 4096 7)]\<rparr>"
      "wal_open (replicate 20 3)" "\<lambda>_. 1"]
  by (simp add: group_ok_def page_size_def wal_open_def)

end
