(* ===== verification/Pager.thy ===== *)
theory Pager
  imports Wal "HOL-Library.Finite_Map"
begin

text \<open>
  The pager, \<open>Pager\<close> in \<open>src/storage.rs\<close>: page reads through the pending buffer, the cache, the
  committed pages and the data file; write groups with commit and abort; statement savepoints;
  checkpoint and recovery.

  A \<open>HashMap\<close> is a finite map. The read cache is a \<open>DashMap\<close> (crate \<open>dashmap\<close>) whose iteration
  order is not specified: the entry its iterator yields first is the parameter \<open>pick\<close>. The
  outcome of every file operation is an argument as well (\<open>io_env\<close>), so that each failing call
  is a branch of the model.
\<close>

section \<open>State\<close>

record savepoint =
  sp_undo :: "(nat, bytes option) fmap"
  sp_num_pages :: nat

record pager =
  pg_file :: bytes
  num_pages :: nat
  cache :: "(nat, bytes) fmap"
  cache_size :: nat
  max_cache_size :: nat
  pg_wal :: wal_manager
  active_group :: "nat option"
  pending :: "(nat, bytes) fmap"
  committed :: "(nat, bytes) fmap"
  group_start_pages :: nat
  pg_savepoint :: "savepoint option"

text \<open>
  Outcomes of file operations: appending to the WAL, the \<open>n\<close>-th raw page write (\<open>Some j\<close>: it fails
  after \<open>j\<close> bytes), syncing the data file, truncating the WAL, and the final \<open>sync_all\<close>.
\<close>

record io_env =
  io_append :: write_outcome
  io_raw :: "nat \<Rightarrow> nat option"
  io_sync :: bool
  io_truncate :: truncate_outcome
  io_sync_all :: bool

definition io_ok :: io_env where
  "io_ok = \<lparr>io_append = WriteOk, io_raw = (\<lambda>_. None), io_sync = True,
            io_truncate = TruncateOk, io_sync_all = True\<rparr>"

definition CACHE_SIZE :: nat where "CACHE_SIZE = 1024"

definition CHECKPOINT_WAL_BYTES :: nat where "CHECKPOINT_WAL_BYTES = 4 * 1024 * 1024"

definition page_new :: bytes where
  "page_new = replicate page_size 0"

section \<open>The data file\<close>

definition file_page :: "bytes \<Rightarrow> nat \<Rightarrow> bytes option" where
  "file_page f pid =
     (if pid * page_size + page_size \<le> length f
      then Some (take page_size (drop (pid * page_size) f)) else None)"

fun write_pages_raw :: "(nat \<Rightarrow> nat option) \<Rightarrow> nat \<Rightarrow> (nat \<times> bytes) list \<Rightarrow> (pager, unit) op" where
  "write_pages_raw io n [] p = (Inr (), p)"
| "write_pages_raw io n ((pid, data) # ws) p =
     (if length data \<noteq> page_size then (Inl (Error StorageError), p)
      else case io n of
        Some j \<Rightarrow> (Inl (Error Io), p\<lparr>pg_file := write_at (pid * page_size) (take j data) (pg_file p)\<rparr>)
      | None \<Rightarrow>
          write_pages_raw io (Suc n) ws
            (p\<lparr>pg_file := write_at (pid * page_size) data (pg_file p),
               num_pages := (if num_pages p \<le> pid then pid + 1 else num_pages p)\<rparr>))"

definition sorted_pages :: "(nat, bytes) fmap \<Rightarrow> (nat \<times> bytes) list" where
  "sorted_pages m = map (\<lambda>pid. (pid, the (fmlookup m pid))) (sorted_list_of_fset (fmdom m))"

definition checkpoint :: "io_env \<Rightarrow> (pager, unit) op" where
  "checkpoint io p =
     (if committed p = fmempty then (Inr (), p)
      else let taken = committed p in
        case write_pages_raw (io_raw io) 0 (sorted_pages taken) (p\<lparr>committed := fmempty\<rparr>) of
          (Inl e, p1) \<Rightarrow> (Inl e, p1\<lparr>committed := taken\<rparr>)
        | (Inr _, p1) \<Rightarrow>
            if \<not> io_sync io then (Inl (Error Io), p1\<lparr>committed := taken\<rparr>)
            else case wal_truncate (io_truncate io) (pg_wal p1) of
              (Inl e, w) \<Rightarrow> (Inl e, p1\<lparr>pg_wal := w, committed := taken\<rparr>)
            | (Inr _, w) \<Rightarrow> (Inr (), p1\<lparr>pg_wal := w\<rparr>))"

section \<open>Opening and recovery\<close>

definition recover :: "(bytes \<Rightarrow> 32 word) \<Rightarrow> io_env \<Rightarrow> (pager, unit) op" where
  "recover crc io p =
     (if wal_size (pg_wal p) = 0 then (Inr (), p)
      else case read_committed_groups crc (pg_wal p) of
        (Inl e, w) \<Rightarrow> (Inl e, p\<lparr>pg_wal := w\<rparr>)
      | (Inr groups, w) \<Rightarrow>
          (case write_pages_raw (io_raw io) 0 (concat (map cg_writes groups)) (p\<lparr>pg_wal := w\<rparr>) of
             (Inl e, p1) \<Rightarrow> (Inl e, p1)
           | (Inr _, p1) \<Rightarrow>
               if groups \<noteq> [] \<and> \<not> io_sync io then (Inl (Error Io), p1)
               else case wal_truncate (io_truncate io) (pg_wal p1) of
                 (Inl e, w') \<Rightarrow> (Inl e, p1\<lparr>pg_wal := w'\<rparr>)
               | (Inr _, w') \<Rightarrow> (Inr (), p1\<lparr>pg_wal := w'\<rparr>)))"

definition pager_blank :: "bytes \<Rightarrow> bytes \<Rightarrow> pager" where
  "pager_blank f wal_bytes =
     (let n = (length f + page_size - 1) div page_size in
      \<lparr>pg_file = f, num_pages = n, cache = fmempty, cache_size = 0, max_cache_size = CACHE_SIZE,
       pg_wal = wal_open wal_bytes, active_group = None, pending = fmempty, committed = fmempty,
       group_start_pages = n, pg_savepoint = None\<rparr>)"

definition pager_new :: "(bytes \<Rightarrow> 32 word) \<Rightarrow> io_env \<Rightarrow> bytes \<Rightarrow> bytes \<Rightarrow> pager result" where
  "pager_new crc io f wal_bytes =
     (case recover crc io (pager_blank f wal_bytes) of (Inl e, _) \<Rightarrow> Inl e | (Inr _, p) \<Rightarrow> Inr p)"

section \<open>The read cache\<close>

text \<open>
  The eviction loop. \<open>keep\<close> is the page \<open>write_page\<close> is about to overwrite, on which it stops. The
  iterator only yields entries of the map; an entry outside it stops the model's loop too.
\<close>

function evict_until ::
    "((nat, bytes) fmap \<Rightarrow> nat option) \<Rightarrow> nat option \<Rightarrow> nat \<Rightarrow> (nat, bytes) fmap \<times> nat \<Rightarrow>
     (nat, bytes) fmap \<times> nat" where
  "evict_until pick keep mx (c, sz) =
     (if mx \<le> fcard (fmdom c) then
        (case pick c of
           None \<Rightarrow> (c, sz)
         | Some k \<Rightarrow>
             if keep = Some k then (c, sz)
             else if k |\<in>| fmdom c then evict_until pick keep mx (fmdrop k c, sz - 1)
             else (c, sz))
      else (c, sz))"
  by pat_completeness auto
termination
proof (relation "measure (\<lambda>(pick, keep, mx, c, sz). fcard (fmdom c))", goal_cases)
  case (2 pick keep mx c sz k)
  then have "fcard (fmdom c |-| {|k|}) < fcard (fmdom c)"
    by (intro fcard_fminus1_less) simp
  then show ?case by simp
qed simp

declare evict_until.simps [simp del]

definition cache_insert :: "nat \<Rightarrow> bytes \<Rightarrow> (nat, bytes) fmap \<times> nat \<Rightarrow> (nat, bytes) fmap \<times> nat" where
  "cache_insert pid page cs =
     (fmupd pid page (fst cs), if pid |\<in>| fmdom (fst cs) then snd cs else snd cs + 1)"

definition evict :: "nat \<Rightarrow> pager \<Rightarrow> pager" where
  "evict pid p =
     (if pid |\<in>| fmdom (cache p)
      then p\<lparr>cache := fmdrop pid (cache p), cache_size := cache_size p - 1\<rparr> else p)"

definition set_cache :: "(nat, bytes) fmap \<times> nat \<Rightarrow> pager \<Rightarrow> pager" where
  "set_cache cs p = p\<lparr>cache := fst cs, cache_size := snd cs\<rparr>"

definition read_page ::
    "((nat, bytes) fmap \<Rightarrow> nat option) \<Rightarrow> nat \<Rightarrow> (pager, bytes) op" where
  "read_page pick pid p =
     (case fmlookup (pending p) pid of
        Some page \<Rightarrow> (Inr page, p)
      | None \<Rightarrow>
          (case fmlookup (cache p) pid of
             Some page \<Rightarrow> (Inr page, p)
           | None \<Rightarrow>
               let loaded =
                 (case fmlookup (committed p) pid of
                    Some page \<Rightarrow> Inr page
                  | None \<Rightarrow>
                      if num_pages p \<le> pid then Inl (Error NotFound)
                      else (case file_page (pg_file p) pid of
                              None \<Rightarrow> Inl (Error Io) | Some page \<Rightarrow> Inr page))
               in (case loaded of
                     Inl e \<Rightarrow> (Inl e, p)
                   | Inr page \<Rightarrow>
                       (Inr page,
                        set_cache (cache_insert pid page
                          (evict_until pick None (max_cache_size p) (cache p, cache_size p))) p))))"

section \<open>Write groups\<close>

definition begin_group :: "(pager, nat) op" where
  "begin_group p =
     (case active_group p of
        Some _ \<Rightarrow> (Inl (Error TransactionError), p)
      | None \<Rightarrow>
          let (gid, w) = allocate_group_id (pg_wal p) in
          (Inr gid, p\<lparr>pg_wal := w, active_group := Some gid, group_start_pages := num_pages p\<rparr>))"

definition in_group :: "pager \<Rightarrow> bool" where
  "in_group p \<longleftrightarrow> active_group p \<noteq> None"

definition abort_group :: "(pager, unit) op" where
  "abort_group p =
     (case active_group p of
        None \<Rightarrow> (Inl (Error TransactionError), p)
      | Some _ \<Rightarrow>
          let p1 = p\<lparr>active_group := None, pg_savepoint := None, pending := fmempty\<rparr>;
              p2 = fold evict (sorted_list_of_fset (fmdom (pending p))) p1
          in (Inr (), p2\<lparr>num_pages := group_start_pages p2\<rparr>))"

definition commit_group :: "(bytes \<Rightarrow> 32 word) \<Rightarrow> io_env \<Rightarrow> (pager, unit) op" where
  "commit_group crc io p =
     (case active_group p of
        None \<Rightarrow> (Inl (Error TransactionError), p)
      | Some gid \<Rightarrow>
          let p1 = p\<lparr>pg_savepoint := None\<rparr> in
          if pending p1 = fmempty then (Inr (), p1\<lparr>active_group := None\<rparr>)
          else case append_group crc (io_append io) gid (sorted_pages (pending p1)) (pg_wal p1) of
            (Inl e, w) \<Rightarrow> (Inl e, snd (abort_group (p1\<lparr>pg_wal := w\<rparr>)))
          | (Inr _, w) \<Rightarrow>
              let p2 = p1\<lparr>pg_wal := w, active_group := None, pending := fmempty,
                          committed := committed p1 ++\<^sub>f pending p1\<rparr>
              in if CHECKPOINT_WAL_BYTES \<le> wal_size w then (Inr (), snd (checkpoint io p2))
                 else (Inr (), p2))"

section \<open>Savepoints\<close>

definition begin_savepoint :: "(pager, unit) op" where
  "begin_savepoint p =
     (if active_group p = None then (Inl (Error TransactionError), p)
      else if pg_savepoint p \<noteq> None then (Inl (Error TransactionError), p)
      else (Inr (), p\<lparr>pg_savepoint := Some \<lparr>sp_undo = fmempty, sp_num_pages = num_pages p\<rparr>\<rparr>))"

definition release_savepoint :: "pager \<Rightarrow> pager" where
  "release_savepoint p = p\<lparr>pg_savepoint := None\<rparr>"

definition undo_page :: "savepoint \<Rightarrow> nat \<Rightarrow> pager \<Rightarrow> pager" where
  "undo_page sp pid p =
     evict pid
       (case fmlookup (sp_undo sp) pid of
          Some (Some page) \<Rightarrow> p\<lparr>pending := fmupd pid page (pending p)\<rparr>
        | Some None \<Rightarrow> p\<lparr>pending := fmdrop pid (pending p)\<rparr>
        | None \<Rightarrow> p)"

definition rollback_to_savepoint :: "(pager, unit) op" where
  "rollback_to_savepoint p =
     (case pg_savepoint p of
        None \<Rightarrow> (Inl (Error TransactionError), p)
      | Some sp \<Rightarrow>
          let p1 = fold (undo_page sp) (sorted_list_of_fset (fmdom (sp_undo sp)))
                     (p\<lparr>pg_savepoint := None\<rparr>)
          in (Inr (), p1\<lparr>num_pages := sp_num_pages sp\<rparr>))"

section \<open>Writing pages\<close>

definition record_undo :: "nat \<Rightarrow> pager \<Rightarrow> pager" where
  "record_undo pid p =
     (case pg_savepoint p of
        None \<Rightarrow> p
      | Some sp \<Rightarrow>
          if pid |\<in>| fmdom (sp_undo sp) then p
          else p\<lparr>pg_savepoint :=
            Some (sp\<lparr>sp_undo := fmupd pid (fmlookup (pending p) pid) (sp_undo sp)\<rparr>)\<rparr>)"

definition buffer_page :: "((nat, bytes) fmap \<Rightarrow> nat option) \<Rightarrow> nat \<Rightarrow> bytes \<Rightarrow> pager \<Rightarrow> pager" where
  "buffer_page pick pid page p =
     (let p1 = record_undo pid p;
          p2 = p1\<lparr>pending := fmupd pid page (pending p1)\<rparr>;
          p3 = set_cache (cache_insert pid page
                 (evict_until pick (Some pid) (max_cache_size p2) (cache p2, cache_size p2))) p2
      in p3\<lparr>num_pages := (if num_pages p3 \<le> pid then pid + 1 else num_pages p3)\<rparr>)"

definition write_page ::
    "(bytes \<Rightarrow> 32 word) \<Rightarrow> ((nat, bytes) fmap \<Rightarrow> nat option) \<Rightarrow> io_env \<Rightarrow> nat \<Rightarrow> bytes \<Rightarrow>
     (pager, unit) op" where
  "write_page crc pick io pid page p =
     (if active_group p = None then
        mbind begin_group (\<lambda>_. mbind (\<lambda>q. (Inr (), buffer_page pick pid page q))
          (\<lambda>_. commit_group crc io)) p
      else (Inr (), buffer_page pick pid page p))"

definition allocate_page ::
    "(bytes \<Rightarrow> 32 word) \<Rightarrow> ((nat, bytes) fmap \<Rightarrow> nat option) \<Rightarrow> io_env \<Rightarrow> (pager, nat) op" where
  "allocate_page crc pick io p =
     mbind (write_page crc pick io (num_pages p) page_new) (\<lambda>_. mret (num_pages p)) p"

definition flush :: "io_env \<Rightarrow> (pager, unit) op" where
  "flush io p =
     (let p1 = (if active_group p = None then p else snd (abort_group p)) in
      mbind (checkpoint io) (\<lambda>_. if io_sync_all io then mret () else mfail (Error Io)) p1)"

end
