(* ===== verification/PagerFile.thy ===== *)
theory PagerFile
  imports Pager
begin

text \<open>
  Facts about the data file: what a page-sized write, complete or torn, does to the pages of the
  file, and what the replay of a list of page writes leaves behind.
\<close>

section \<open>Writes inside a file\<close>

lemma page_size_pos [simp]: "0 < page_size"
  by (simp add: page_size_def)

lemma length_write_at: "length (write_at off bs f) = max (length f) (off + length bs)"
  by (simp add: write_at_def)

lemma write_at_nth:
  assumes "i < length f" and "i < off \<or> off + length bs \<le> i"
  shows "write_at off bs f ! i = f ! i"
  using assms by (auto simp: write_at_def nth_append)

lemma write_at_mid: "take (length bs) (drop off (write_at off bs f)) = bs"
  by (simp add: write_at_def)

lemma page_ranges_disjoint:
  fixes p q :: nat
  assumes "q \<noteq> p"
  shows "q * n + n \<le> p * n \<or> p * n + n \<le> q * n"
proof -
  from assms have "Suc q \<le> p \<or> Suc p \<le> q" by auto
  then have "Suc q * n \<le> p * n \<or> Suc p * n \<le> q * n" using mult_le_mono1 by blast
  then show ?thesis by (simp add: add.commute)
qed

lemma file_page_length: "file_page f q = Some x \<Longrightarrow> length x = page_size"
  by (auto simp: file_page_def split: if_splits)

lemma file_page_bound: "file_page f q = Some x \<Longrightarrow> q * page_size < length f"
  by (auto simp: file_page_def split: if_splits intro: less_le_trans [of _ "q * page_size + page_size"])

lemma file_page_write_same:
  "length bs = page_size \<Longrightarrow> file_page (write_at (pid * page_size) bs f) pid = Some bs"
  using write_at_mid [of bs "pid * page_size" f] by (simp add: file_page_def length_write_at)

lemma file_page_write_other:
  assumes "q \<noteq> pid" and "length bs \<le> page_size" and "file_page f q = Some x"
  shows "file_page (write_at (pid * page_size) bs f) q = Some x"
proof -
  let ?f = "write_at (pid * page_size) bs f"
  have fit: "q * page_size + page_size \<le> length f"
    and x: "x = take page_size (drop (q * page_size) f)"
    using assms(3) by (auto simp: file_page_def split: if_splits)
  have "take page_size (drop (q * page_size) ?f) = take page_size (drop (q * page_size) f)"
  proof (rule nth_equalityI)
    fix i assume "i < length (take page_size (drop (q * page_size) ?f))"
    then have i: "i < page_size" by simp
    have "q * page_size + i < pid * page_size \<or> pid * page_size + length bs \<le> q * page_size + i"
      using page_ranges_disjoint [OF assms(1), of page_size] assms(2) i by auto
    then have "?f ! (q * page_size + i) = f ! (q * page_size + i)"
      using fit i by (intro write_at_nth) auto
    then show "take page_size (drop (q * page_size) ?f) ! i = take page_size (drop (q * page_size) f) ! i"
      using i fit by (simp add: length_write_at)
  qed (use fit in \<open>simp add: length_write_at\<close>)
  then show ?thesis using fit x by (simp add: file_page_def length_write_at)
qed

section \<open>Replaying page writes\<close>

definition apply_writes :: "(nat \<times> bytes) list \<Rightarrow> (nat, bytes) fmap \<Rightarrow> (nat, bytes) fmap" where
  "apply_writes ws m = fold (\<lambda>(pid, data) m. fmupd pid data m) ws m"

lemma apply_writes_simps [simp]:
  "apply_writes [] m = m"
  "apply_writes ((pid, data) # ws) m = apply_writes ws (fmupd pid data m)"
  by (simp_all add: apply_writes_def)

lemma apply_writes_append: "apply_writes (xs @ ys) m = apply_writes ys (apply_writes xs m)"
  by (simp add: apply_writes_def)

lemma apply_writes_add: "apply_writes ws (m ++\<^sub>f n) = m ++\<^sub>f apply_writes ws n"
proof (induction ws arbitrary: n)
  case (Cons w ws)
  obtain pid data where w: "w = (pid, data)" by (cases w)
  have eq: "fmupd pid data (m ++\<^sub>f n) = m ++\<^sub>f fmupd pid data n"
    by (rule fmap_ext) auto
  have "apply_writes (w # ws) (m ++\<^sub>f n) = apply_writes ws (fmupd pid data (m ++\<^sub>f n))"
    by (simp add: w)
  also have "\<dots> = m ++\<^sub>f apply_writes ws (fmupd pid data n)" by (simp only: eq Cons.IH)
  finally show ?case by (simp add: w)
qed simp

lemma fmlookup_apply_writes:
  "fmlookup (apply_writes ws m) q =
     (case fmlookup (apply_writes ws fmempty) q of None \<Rightarrow> fmlookup m q | Some x \<Rightarrow> Some x)"
  using apply_writes_add [of ws m fmempty] by (auto simp: fmdom_notI split: option.split dest: fmdomI)

lemma fmdom_apply_writes: "fset (fmdom (apply_writes ws m)) = fset (fmdom m) \<union> fst ` set ws"
proof (induction ws arbitrary: m)
  case (Cons w ws)
  obtain pid data where w: "w = (pid, data)" by (cases w)
  from Cons.IH [of "fmupd pid data m"] show ?case by (auto simp: w)
qed simp

lemma set_sorted_pages: "(pid, x) \<in> set (sorted_pages m) \<longleftrightarrow> fmlookup m pid = Some x"
  by (auto simp: sorted_pages_def fmdom_notI dest: fmdomI)

lemma sorted_pages_fst: "map fst (sorted_pages m) = sorted_list_of_fset (fmdom m)"
  by (simp add: sorted_pages_def comp_def)

lemma apply_writes_distinct:
  assumes "distinct (map fst ws)"
  shows "fmlookup (apply_writes ws m) q = (case map_of ws q of None \<Rightarrow> fmlookup m q | Some x \<Rightarrow> Some x)"
  using assms
proof (induction ws arbitrary: m)
  case (Cons w ws)
  obtain pid data where w: "w = (pid, data)" by (cases w)
  with Cons.prems have "map_of ws pid = None" by (simp add: map_of_eq_None_iff)
  with Cons w show ?case by (simp split: option.split)
qed simp

lemma apply_sorted_pages: "apply_writes (sorted_pages m) n = n ++\<^sub>f m"
proof (rule fmap_ext)
  fix q
  have d: "distinct (map fst (sorted_pages m))" by (simp add: sorted_pages_fst sorted_list_of_fset.rep_eq)
  have "map_of (sorted_pages m) q = fmlookup m q"
  proof (cases "fmlookup m q")
    case None
    then have "q \<notin> fst ` set (sorted_pages m)" by (force simp: set_sorted_pages)
    then have "map_of (sorted_pages m) q = None" by (simp add: map_of_eq_None_iff)
    with None show ?thesis by simp
  next
    case (Some x)
    with d show ?thesis by (simp add: set_sorted_pages)
  qed
  with d show "fmlookup (apply_writes (sorted_pages m) n) q = fmlookup (n ++\<^sub>f m) q"
    by (auto simp: apply_writes_distinct fmdom_notI split: option.split dest: fmdomI)
qed

text \<open>A run of raw page writes, finished or broken off at any point, with any torn last write.\<close>

lemma write_pages_raw_frame:
  "\<exists>f n. snd (write_pages_raw io k ws p) = p\<lparr>pg_file := f, num_pages := n\<rparr>"
proof (induction ws arbitrary: k p)
  case Nil
  have "p = p\<lparr>pg_file := pg_file p, num_pages := num_pages p\<rparr>" by simp
  then show ?case by (metis write_pages_raw.simps(1) snd_conv)
next
  case (Cons w ws)
  obtain pid data where w: "w = (pid, data)" by (cases w)
  have keep: "\<exists>f n. p\<lparr>pg_file := g\<rparr> = p\<lparr>pg_file := f, num_pages := n\<rparr>" for g
    by (intro exI [of _ g] exI [of _ "num_pages p"]) simp
  have same: "\<exists>f n. p = p\<lparr>pg_file := f, num_pages := n\<rparr>"
    by (intro exI [of _ "pg_file p"] exI [of _ "num_pages p"]) simp
  have step: "\<exists>f' n'. snd (write_pages_raw io (Suc k) ws (p\<lparr>pg_file := f, num_pages := n\<rparr>))
      = p\<lparr>pg_file := f', num_pages := n'\<rparr>" for f n
    using Cons.IH [of "Suc k" "p\<lparr>pg_file := f, num_pages := n\<rparr>"] by simp
  show ?case
  proof (cases "length data = page_size \<and> io k = None")
    case True
    then show ?thesis unfolding w write_pages_raw.simps
      using step [of "if num_pages p \<le> pid then pid + 1 else num_pages p"
        "write_at (pid * page_size) data (pg_file p)"] by (simp only: simp_thms if_False option.case)
  next
    case False
    then show ?thesis using keep same by (auto simp: w split: option.split)
  qed
qed

lemma write_pages_raw_preserves:
  assumes "q \<notin> fst ` set ws" and "file_page (pg_file p) q = Some x"
  shows "file_page (pg_file (snd (write_pages_raw io k ws p))) q = Some x"
  using assms
proof (induction ws arbitrary: k p)
  case (Cons w ws)
  obtain pid data where w: "w = (pid, data)" by (cases w)
  with Cons.prems have q: "q \<noteq> pid" by auto
  show ?case
  proof (cases "length data = page_size")
    case True
    then have "file_page (write_at (pid * page_size) (take j data) (pg_file p)) q = Some x" for j
      using q Cons.prems(2) by (intro file_page_write_other) simp_all
    moreover have "file_page (write_at (pid * page_size) data (pg_file p)) q = Some x"
      using q Cons.prems(2) True by (intro file_page_write_other) simp_all
    ultimately show ?thesis
      using Cons True by (simp add: w split: option.split)
  qed (use Cons.prems w in simp)
qed simp

lemma write_pages_raw_length:
  assumes "list_all (\<lambda>(pid, data). pid < n) ws" and "length (pg_file p) \<le> n * page_size"
  shows "length (pg_file (snd (write_pages_raw io k ws p))) \<le> n * page_size"
  using assms
proof (induction ws arbitrary: k p)
  case (Cons w ws)
  obtain pid data where w: "w = (pid, data)" by (cases w)
  with Cons.prems have pid: "Suc pid \<le> n" by simp
  from mult_le_mono1 [OF this, of page_size] have "pid * page_size + page_size \<le> n * page_size"
    by simp
  with Cons w show ?case by (auto simp: length_write_at split: option.split)
qed simp

lemma write_pages_raw_num_pages:
  assumes "list_all (\<lambda>(pid, data). pid < n) ws" and "num_pages p \<le> n"
  shows "num_pages (snd (write_pages_raw io k ws p)) \<le> n"
  using assms by (induction ws arbitrary: k p) (auto split: option.split)

lemma write_pages_raw_num_pages_mono:
  "num_pages p \<le> num_pages (snd (write_pages_raw io k ws p))"
proof (induction ws arbitrary: k p)
  case (Cons w ws)
  obtain pid data where w: "w = (pid, data)" by (cases w)
  define q where "q = p\<lparr>pg_file := write_at (pid * page_size) data (pg_file p),
      num_pages := (if num_pages p \<le> pid then pid + 1 else num_pages p)\<rparr>"
  have "num_pages p \<le> num_pages q" by (simp add: q_def)
  also have "\<dots> \<le> num_pages (snd (write_pages_raw io (Suc k) ws q))" by (rule Cons.IH)
  finally show ?case
    unfolding w write_pages_raw.simps q_def [symmetric] by (simp split: option.split)
qed simp

lemma write_pages_raw_succeeds:
  assumes "list_all (\<lambda>(pid, data). length data = page_size) ws" and "\<forall>n. io n = None"
  shows "fst (write_pages_raw io k ws p) = Inr ()"
  using assms(1)
proof (induction ws arbitrary: k p)
  case (Cons w ws)
  then show ?case using assms(2) by (cases w) simp
qed simp

text \<open>A run that reports success has put the last write of every page into the file.\<close>

lemma write_pages_raw_done:
  assumes "fst (write_pages_raw io k ws p) = Inr ()"
    and "fmlookup (apply_writes ws fmempty) q = Some x"
  shows "file_page (pg_file (snd (write_pages_raw io k ws p))) q = Some x
    \<and> q < num_pages (snd (write_pages_raw io k ws p))"
  using assms
proof (induction ws arbitrary: k p)
  case (Cons w ws)
  obtain pid data where w: "w = (pid, data)" by (cases w)
  define p' where "p' = p\<lparr>pg_file := write_at (pid * page_size) data (pg_file p),
      num_pages := (if num_pages p \<le> pid then pid + 1 else num_pages p)\<rparr>"
  let ?r = "write_pages_raw io (Suc k) ws p'"
  have ok: "length data = page_size" and io: "io k = None"
    using Cons.prems(1) by (auto simp: w split: if_splits option.splits)
  then have r: "write_pages_raw io k (w # ws) p = ?r"
    unfolding w write_pages_raw.simps p'_def [symmetric] by simp
  have last: "(case fmlookup (apply_writes ws fmempty) q of
      None \<Rightarrow> fmlookup (fmupd pid data fmempty) q | Some y \<Rightarrow> Some y) = Some x"
    using Cons.prems(2) fmlookup_apply_writes [of ws "fmupd pid data fmempty" q] by (simp add: w)
  show ?case
  proof (cases "fmlookup (apply_writes ws fmempty) q")
    case None
    with last have q: "q = pid" "x = data" by (auto split: if_splits)
    have notin: "q \<notin> fst ` set ws"
      using fmdom_notI [OF None] fmdom_apply_writes [of ws fmempty] by simp
    have "file_page (pg_file p') q = Some x"
      using ok by (simp add: q p'_def file_page_write_same)
    moreover have "q < num_pages (snd ?r)"
      by (rule less_le_trans [OF _ write_pages_raw_num_pages_mono]) (simp add: q p'_def)
    ultimately show ?thesis using write_pages_raw_preserves [OF notin] by (simp add: r)
  next
    case (Some y)
    with last have "y = x" by simp
    with Some Cons.IH [of "Suc k" p'] Cons.prems(1) show ?thesis by (simp add: r)
  qed
qed simp

end
