(* ===== verification/PagerInv.thy ===== *)
theory PagerInv
  imports PagerFile
begin

text \<open>
  The invariant of the pager and its abstract state. A pager stands for up to three page maps: the
  durable one (what a crash leaves), the current one (what reads return) and, inside a statement,
  the one its savepoint would restore. Each is a layering of buffered pages over the committed
  pages over the data file.
\<close>

section \<open>Views\<close>

definition layered ::
    "(nat \<Rightarrow> bytes option) \<Rightarrow> (nat, bytes) fmap \<Rightarrow> bytes \<Rightarrow> nat \<Rightarrow> nat \<Rightarrow> bytes option" where
  "layered pend comm f n pid =
     (case pend pid of
        Some x \<Rightarrow> Some x
      | None \<Rightarrow> (case fmlookup comm pid of
           Some x \<Rightarrow> Some x
         | None \<Rightarrow> if pid < n then file_page f pid else None))"

definition base_pages :: "pager \<Rightarrow> nat" where
  "base_pages p = (if active_group p = None then num_pages p else group_start_pages p)"

definition page_view :: "pager \<Rightarrow> nat \<Rightarrow> bytes option" where
  "page_view p = layered (fmlookup (pending p)) (committed p) (pg_file p) (num_pages p)"

definition durable_view :: "pager \<Rightarrow> nat \<Rightarrow> bytes option" where
  "durable_view p = layered (\<lambda>_. None) (committed p) (pg_file p) (base_pages p)"

definition undone :: "savepoint \<Rightarrow> (nat, bytes) fmap \<Rightarrow> nat \<Rightarrow> bytes option" where
  "undone sp pend pid = (case fmlookup (sp_undo sp) pid of Some v \<Rightarrow> v | None \<Rightarrow> fmlookup pend pid)"

definition saved_view :: "savepoint \<Rightarrow> pager \<Rightarrow> nat \<Rightarrow> bytes option" where
  "saved_view sp p = layered (undone sp (pending p)) (committed p) (pg_file p) (sp_num_pages sp)"

text \<open>A view is a gap-free array of whole pages.\<close>

definition view_ok :: "(nat \<Rightarrow> bytes option) \<Rightarrow> nat \<Rightarrow> bool" where
  "view_ok v n \<longleftrightarrow> (\<forall>pid. v pid \<noteq> None \<longleftrightarrow> pid < n) \<and> (\<forall>pid x. v pid = Some x \<longrightarrow> length x = page_size)"

section \<open>The invariant\<close>

definition wal_inv :: "(bytes \<Rightarrow> 32 word) \<Rightarrow> pager \<Rightarrow> bool" where
  "wal_inv crc p \<longleftrightarrow>
     (\<exists>gs. list_all group_ok gs \<and> wal_file (pg_wal p) = encode_groups crc gs
        \<and> committed p = apply_writes (concat (map cg_writes gs)) fmempty)
     \<and> wal_len (pg_wal p) = length (wal_file (pg_wal p))
     \<and> next_group_id (pg_wal p) < 2 ^ 64"

definition cache_ok :: "(nat \<Rightarrow> bytes option) \<Rightarrow> (nat, bytes) fmap \<Rightarrow> bool" where
  "cache_ok v c \<longleftrightarrow> (\<forall>pid x. fmlookup c pid = Some x \<longrightarrow> v pid = Some x)"

definition group_inv :: "pager \<Rightarrow> bool" where
  "group_inv p \<longleftrightarrow>
     (case active_group p of
        None \<Rightarrow> pending p = fmempty \<and> pg_savepoint p = None
      | Some gid \<Rightarrow> gid < 2 ^ 64 \<and> group_start_pages p \<le> num_pages p
          \<and> (case pg_savepoint p of
               None \<Rightarrow> True
             | Some sp \<Rightarrow> group_start_pages p \<le> sp_num_pages sp \<and> sp_num_pages sp \<le> num_pages p
                 \<and> view_ok (saved_view sp p) (sp_num_pages sp)))"

definition pager_inv :: "(bytes \<Rightarrow> 32 word) \<Rightarrow> pager \<Rightarrow> bool" where
  "pager_inv crc p \<longleftrightarrow>
     wal_inv crc p \<and> group_inv p
     \<and> view_ok (page_view p) (num_pages p) \<and> view_ok (durable_view p) (base_pages p)
     \<and> length (pg_file p) \<le> base_pages p * page_size
     \<and> cache_ok (page_view p) (cache p) \<and> cache_size p = fcard (fmdom (cache p))"

lemmas pager_inv_defs = pager_inv_def wal_inv_def group_inv_def

lemma view_okD:
  assumes "view_ok v n"
  shows "v pid = Some x \<Longrightarrow> length x = page_size" and "v pid = Some x \<Longrightarrow> pid < n"
    and "pid < n \<Longrightarrow> \<exists>x. v pid = Some x" and "n \<le> pid \<Longrightarrow> v pid = None"
  using assms by (auto simp: view_ok_def dest: leD)

lemma view_ok_unique: "view_ok v m \<Longrightarrow> view_ok v n \<Longrightarrow> m = n"
  by (metis view_ok_def linorder_less_linear less_irrefl)

lemma view_ok_upd:
  assumes "view_ok v n" and "length x = page_size" and "pid \<le> n"
  shows "view_ok (v(pid \<mapsto> x)) (if n \<le> pid then pid + 1 else n)"
  using assms by (auto simp: view_ok_def)

lemma file_page_in_range:
  assumes "file_page f pid = Some x" and "length f \<le> n * page_size"
  shows "pid < n"
proof -
  from less_le_trans [OF file_page_bound [OF assms(1)] assms(2)] show ?thesis by simp
qed

lemma layered_mono_pages:
  assumes "length f \<le> n * page_size" and "n \<le> m"
  shows "layered pend comm f m = layered pend comm f n"
proof
  fix pid
  show "layered pend comm f m pid = layered pend comm f n pid"
    using file_page_in_range [OF _ assms(1), of pid] assms(2)
    by (cases "file_page f pid") (auto simp: layered_def split: option.split)
qed

text \<open>
  Under the invariant the page counts bound the file, so all three views can be read off the same
  layering, without the count.
\<close>

definition stored :: "pager \<Rightarrow> nat \<Rightarrow> bytes option" where
  "stored p pid = (case fmlookup (committed p) pid of Some x \<Rightarrow> Some x | None \<Rightarrow> file_page (pg_file p) pid)"

lemma base_le_num_pages: "group_inv p \<Longrightarrow> base_pages p \<le> num_pages p"
  by (auto simp: group_inv_def base_pages_def split: option.splits)

lemma file_length_le:
  assumes "pager_inv crc p"
  shows "length (pg_file p) \<le> num_pages p * page_size"
proof (rule le_trans)
  show "length (pg_file p) \<le> base_pages p * page_size" using assms by (simp add: pager_inv_def)
  show "base_pages p * page_size \<le> num_pages p * page_size"
    using assms by (intro mult_le_mono1 base_le_num_pages) (simp add: pager_inv_def)
qed

lemma layered_stored:
  assumes "length (pg_file p) \<le> n * page_size"
  shows "layered pend (committed p) (pg_file p) n pid =
     (case pend pid of Some x \<Rightarrow> Some x | None \<Rightarrow> stored p pid)"
proof -
  have "file_page (pg_file p) pid = Some x \<Longrightarrow> pid < n" for x
    using file_page_in_range [OF _ assms] by blast
  then show ?thesis
    by (cases "file_page (pg_file p) pid") (auto simp: layered_def stored_def split: option.split)
qed

lemma pager_inv_views:
  assumes "pager_inv crc p"
  shows "durable_view p = stored p"
    and "page_view p pid = (case fmlookup (pending p) pid of Some x \<Rightarrow> Some x | None \<Rightarrow> stored p pid)"
    and "pg_savepoint p = Some sp \<Longrightarrow>
      saved_view sp p pid = (case undone sp (pending p) pid of Some x \<Rightarrow> Some x | None \<Rightarrow> stored p pid)"
proof -
  from assms have len: "length (pg_file p) \<le> base_pages p * page_size"
    and le: "base_pages p \<le> num_pages p" and grp: "group_inv p"
    by (auto simp: pager_inv_def intro: base_le_num_pages)
  have up: "length (pg_file p) \<le> n * page_size" if "base_pages p \<le> n" for n
    by (rule le_trans [OF len mult_le_mono1 [OF that]])
  show "durable_view p = stored p"
    using layered_stored [OF len, of "\<lambda>_. None"] by (auto simp: durable_view_def fun_eq_iff)
  show "page_view p pid = (case fmlookup (pending p) pid of Some x \<Rightarrow> Some x | None \<Rightarrow> stored p pid)"
    using layered_stored [OF up [OF le]] by (simp add: page_view_def)
  assume "pg_savepoint p = Some sp"
  with grp have "base_pages p \<le> sp_num_pages sp"
    by (auto simp: group_inv_def base_pages_def split: option.splits)
  from layered_stored [OF up [OF this]]
  show "saved_view sp p pid = (case undone sp (pending p) pid of Some x \<Rightarrow> Some x | None \<Rightarrow> stored p pid)"
    by (simp add: saved_view_def)
qed

section \<open>The abstract page store\<close>

text \<open>
  What the pager promises its clients: a durable and a current array of pages, a write group that
  separates them, and one level of statement savepoint.
\<close>

record page_store =
  st_durable :: "nat \<Rightarrow> bytes option"
  st_current :: "nat \<Rightarrow> bytes option"
  st_active :: bool
  st_saved :: "(nat \<Rightarrow> bytes option) option"

definition abs_pager :: "pager \<Rightarrow> page_store" where
  "abs_pager p = \<lparr>st_durable = durable_view p, st_current = page_view p,
     st_active = in_group p, st_saved = map_option (\<lambda>sp. saved_view sp p) (pg_savepoint p)\<rparr>"

section \<open>The cache\<close>

lemma fcard_drop: "k |\<in>| fmdom c \<Longrightarrow> fcard (fmdom c |-| {|k|}) = fcard (fmdom c) - 1"
  by (simp add: fcard_fminus_fsingleton)

lemma evict_until_sub:
  "fmlookup (fst (evict_until pick keep mx cs)) pid = Some x \<Longrightarrow> fmlookup (fst cs) pid = Some x"
proof (induction pick keep mx cs rule: evict_until.induct)
  case (1 pick keep mx c sz)
  from "1.prems" show ?case
    unfolding evict_until.simps [of pick keep mx c sz]
    by (auto split: if_splits option.splits dest: "1.IH")
qed

lemma evict_until_size:
  "snd cs = fcard (fmdom (fst cs)) \<Longrightarrow>
     snd (evict_until pick keep mx cs) = fcard (fmdom (fst (evict_until pick keep mx cs)))"
proof (induction pick keep mx cs rule: evict_until.induct)
  case (1 pick keep mx c sz)
  then show ?case
    by (subst (1 2) evict_until.simps) (auto simp: fcard_drop split: option.splits)
qed

lemma cache_insert_size:
  "snd cs = fcard (fmdom (fst cs)) \<Longrightarrow>
     snd (cache_insert pid x cs) = fcard (fmdom (fst (cache_insert pid x cs)))"
  by (auto simp: cache_insert_def fcard_finsert_if finsert_absorb)

end
