(* ===== verification/PagerOps.thy ===== *)
theory PagerOps
  imports PagerInv
begin

text \<open>
  Every operation of the pager against the abstract page store: reads, buffered writes, groups,
  savepoints and the checkpoint keep the invariant and act on the views as the store says.
\<close>

section \<open>Reading\<close>

lemma set_cache_fields [simp]:
  "pg_file (set_cache cs p) = pg_file p" "num_pages (set_cache cs p) = num_pages p"
  "cache (set_cache cs p) = fst cs" "cache_size (set_cache cs p) = snd cs"
  "pg_wal (set_cache cs p) = pg_wal p" "active_group (set_cache cs p) = active_group p"
  "pending (set_cache cs p) = pending p" "committed (set_cache cs p) = committed p"
  "group_start_pages (set_cache cs p) = group_start_pages p"
  "pg_savepoint (set_cache cs p) = pg_savepoint p"
  "max_cache_size (set_cache cs p) = max_cache_size p"
  by (simp_all add: set_cache_def)

lemmas view_defs = page_view_def durable_view_def saved_view_def base_pages_def

lemma set_cache_views [simp]:
  "page_view (set_cache cs p) = page_view p" "durable_view (set_cache cs p) = durable_view p"
  "saved_view sp (set_cache cs p) = saved_view sp p" "base_pages (set_cache cs p) = base_pages p"
  by (simp_all add: view_defs)

lemma set_cache_group_wal [simp]:
  "group_inv (set_cache cs p) = group_inv p" "wal_inv crc (set_cache cs p) = wal_inv crc p"
  by (simp_all add: group_inv_def wal_inv_def cong: option.case_cong)

lemma abs_set_cache [simp]: "abs_pager (set_cache cs p) = abs_pager p"
  by (simp add: abs_pager_def in_group_def)

lemma set_cache_inv:
  assumes "pager_inv crc p" and "cache_ok (page_view p) (fst cs)" and "snd cs = fcard (fmdom (fst cs))"
  shows "pager_inv crc (set_cache cs p)"
  using assms by (simp add: pager_inv_defs cong: option.case_cong)

lemma cache_insert_ok:
  assumes "cache_ok v (fst cs)" and "v pid = Some x"
  shows "cache_ok v (fst (cache_insert pid x cs))"
  using assms by (auto simp: cache_ok_def cache_insert_def)

lemma evict_until_ok: "cache_ok v (fst cs) \<Longrightarrow> cache_ok v (fst (evict_until pick keep mx cs))"
  by (auto simp: cache_ok_def dest: evict_until_sub)

lemma read_page_result:
  assumes "pager_inv crc p"
  shows "fst (read_page pick pid p) =
     (case page_view p pid of Some x \<Rightarrow> Inr x | None \<Rightarrow> Inl (Error NotFound))"
proof -
  have v: "view_ok (page_view p) (num_pages p)" and c: "cache_ok (page_view p) (cache p)"
    using assms by (simp_all add: pager_inv_def)
  have "fmlookup (cache p) pid = Some x \<Longrightarrow> page_view p pid = Some x" for x
    using c by (simp add: cache_ok_def)
  moreover have "page_view p pid = None \<longleftrightarrow> num_pages p \<le> pid"
    using v by (metis view_ok_def not_le)
  ultimately show ?thesis
    by (auto simp: read_page_def page_view_def layered_def Let_def split: option.splits if_splits)
qed

lemma read_page_state:
  assumes "pager_inv crc p"
  shows "\<exists>cs. snd (read_page pick pid p) = set_cache cs p
    \<and> cache_ok (page_view p) (fst cs) \<and> snd cs = fcard (fmdom (fst cs))"
proof -
  let ?loaded = "case fmlookup (committed p) pid of
                    Some page \<Rightarrow> Inr page
                  | None \<Rightarrow>
                      if num_pages p \<le> pid then Inl (Error NotFound)
                      else (case file_page (pg_file p) pid of
                              None \<Rightarrow> Inl (Error Io) | Some page \<Rightarrow> Inr page)"
  have c: "cache_ok (page_view p) (cache p)" and sz: "cache_size p = fcard (fmdom (cache p))"
    using assms by (simp_all add: pager_inv_def)
  have same: "\<exists>cs. p = set_cache cs p \<and> cache_ok (page_view p) (fst cs) \<and> snd cs = fcard (fmdom (fst cs))"
    using c sz by (intro exI [of _ "(cache p, cache_size p)"]) (simp add: set_cache_def)
  show ?thesis
  proof (cases "fmlookup (pending p) pid = None \<and> fmlookup (cache p) pid = None")
    case False
    then have "snd (read_page pick pid p) = p"
      by (auto simp: read_page_def split: option.split)
    with same show ?thesis by simp
  next
    case True
    show ?thesis
    proof (cases ?loaded)
      case (Inl e)
      with True have "snd (read_page pick pid p) = p" by (simp add: read_page_def Let_def)
      with same show ?thesis by simp
    next
      case (Inr page)
      let ?cs = "cache_insert pid page (evict_until pick None (max_cache_size p) (cache p, cache_size p))"
      have "page_view p pid = Some page"
        using True Inr by (auto simp: page_view_def layered_def split: option.splits if_splits)
      with c sz have "cache_ok (page_view p) (fst ?cs)" "snd ?cs = fcard (fmdom (fst ?cs))"
        by (auto intro!: cache_insert_ok evict_until_ok cache_insert_size evict_until_size)
      moreover have "snd (read_page pick pid p) = set_cache ?cs p"
        using True Inr by (simp add: read_page_def Let_def)
      ultimately show ?thesis by blast
    qed
  qed
qed

lemma read_page_inv:
  assumes "pager_inv crc p"
  shows "pager_inv crc (snd (read_page pick pid p))"
    and "abs_pager (snd (read_page pick pid p)) = abs_pager p"
    and "num_pages (snd (read_page pick pid p)) = num_pages p"
    and "active_group (snd (read_page pick pid p)) = active_group p"
  using read_page_state [OF assms, of pick pid] set_cache_inv [OF assms] by auto

lemma fmlookup_empty_fun [simp]: "fmlookup fmempty = (\<lambda>_. None)"
  by (simp add: fun_eq_iff)

section \<open>Buffering a page\<close>

lemma layered_upd:
  assumes "pid \<le> n"
  shows "layered (pend(pid \<mapsto> x)) comm f (if n \<le> pid then pid + 1 else n) = (layered pend comm f n)(pid \<mapsto> x)"
  using assms by (auto simp: layered_def fun_eq_iff split: option.split)

lemma fmlookup_fmupd_fun: "fmlookup (fmupd pid x m) = (fmlookup m)(pid \<mapsto> x)"
  by auto

lemma record_undo_fields [simp]:
  "pg_file (record_undo pid p) = pg_file p" "num_pages (record_undo pid p) = num_pages p"
  "cache (record_undo pid p) = cache p" "cache_size (record_undo pid p) = cache_size p"
  "pg_wal (record_undo pid p) = pg_wal p" "active_group (record_undo pid p) = active_group p"
  "pending (record_undo pid p) = pending p" "committed (record_undo pid p) = committed p"
  "group_start_pages (record_undo pid p) = group_start_pages p"
  "max_cache_size (record_undo pid p) = max_cache_size p"
  by (simp_all add: record_undo_def split: option.split)

lemma buffer_page_fields:
  fixes pick
  defines "q pid x p \<equiv> buffer_page pick pid x p"
  shows "pg_file (q pid x p) = pg_file p" "pg_wal (q pid x p) = pg_wal p"
    "active_group (q pid x p) = active_group p" "committed (q pid x p) = committed p"
    "group_start_pages (q pid x p) = group_start_pages p"
    "max_cache_size (q pid x p) = max_cache_size p"
    "pending (q pid x p) = fmupd pid x (pending p)"
    "num_pages (q pid x p) = (if num_pages p \<le> pid then pid + 1 else num_pages p)"
    "pg_savepoint (q pid x p) = pg_savepoint (record_undo pid p)"
    "cache (q pid x p) = fst (cache_insert pid x
       (evict_until pick (Some pid) (max_cache_size p) (cache p, cache_size p)))"
    "cache_size (q pid x p) = snd (cache_insert pid x
       (evict_until pick (Some pid) (max_cache_size p) (cache p, cache_size p)))"
  by (simp_all add: q_def buffer_page_def Let_def)

lemma record_undo_undone:
  assumes "pg_savepoint p = Some sp"
  obtains sp' where "pg_savepoint (record_undo pid p) = Some sp'" and "sp_num_pages sp' = sp_num_pages sp"
    and "undone sp' (fmupd pid x (pending p)) = undone sp (pending p)"
proof (cases "pid |\<in>| fmdom (sp_undo sp)")
  case True
  then have "undone sp (fmupd pid x (pending p)) = undone sp (pending p)"
    by (auto simp: undone_def fun_eq_iff split: option.split dest: fmdom_notI)
  with True assms that [of sp] show ?thesis by (simp add: record_undo_def)
next
  case False
  let ?sp = "sp\<lparr>sp_undo := fmupd pid (fmlookup (pending p) pid) (sp_undo sp)\<rparr>"
  from False have "undone ?sp (fmupd pid x (pending p)) = undone sp (pending p)"
    by (auto simp: undone_def fun_eq_iff fmdom_notD split: option.split)
  with False assms that [of ?sp] show ?thesis by (simp add: record_undo_def)
qed

lemma buffer_page_views:
  assumes "active_group p = Some g" and "pid \<le> num_pages p"
  shows "page_view (buffer_page pick pid x p) = (page_view p)(pid \<mapsto> x)"
    and "durable_view (buffer_page pick pid x p) = durable_view p"
    and "base_pages (buffer_page pick pid x p) = base_pages p"
proof -
  show "page_view (buffer_page pick pid x p) = (page_view p)(pid \<mapsto> x)"
    unfolding page_view_def buffer_page_fields fmlookup_fmupd_fun by (rule layered_upd [OF assms(2)])
qed (use assms(1) in \<open>simp_all add: view_defs buffer_page_fields\<close>)

lemma buffer_page_saved:
  assumes "pg_savepoint p = Some sp"
  obtains sp' where "pg_savepoint (buffer_page pick pid x p) = Some sp'"
    and "sp_num_pages sp' = sp_num_pages sp"
    and "saved_view sp' (buffer_page pick pid x p) = saved_view sp p"
proof (rule record_undo_undone [OF assms, of pid x])
  fix sp'
  assume sp': "pg_savepoint (record_undo pid p) = Some sp'" "sp_num_pages sp' = sp_num_pages sp"
    "undone sp' (fmupd pid x (pending p)) = undone sp (pending p)"
  show thesis
    by (rule that [of sp']) (simp_all add: sp' saved_view_def buffer_page_fields)
qed

lemma buffer_page_no_savepoint:
  "pg_savepoint p = None \<Longrightarrow> pg_savepoint (buffer_page pick pid x p) = None"
  by (simp add: buffer_page_fields record_undo_def)

lemma buffer_page_cache_ok:
  assumes "cache_ok v (cache p)"
  shows "cache_ok (v(pid \<mapsto> x)) (cache (buffer_page pick pid x p))"
proof -
  have "cache_ok v (fst (evict_until pick (Some pid) (max_cache_size p) (cache p, cache_size p)))"
    using assms by (intro evict_until_ok) simp
  then show ?thesis
    unfolding buffer_page_fields by (simp add: cache_ok_def cache_insert_def)
qed

lemma buffer_page_inv:
  assumes inv: "pager_inv crc p" and g: "active_group p = Some g"
    and pid: "pid \<le> num_pages p" and x: "length x = page_size"
  shows "pager_inv crc (buffer_page pick pid x p)"
proof -
  let ?q = "buffer_page pick pid x p"
  have grp: "group_inv ?q"
  proof (cases "pg_savepoint p")
    case None
    with inv g show ?thesis
      by (auto simp: pager_inv_def group_inv_def buffer_page_fields(3,5,8) buffer_page_no_savepoint)
  next
    case (Some sp)
    from buffer_page_saved [OF Some, of pick pid x] obtain sp' where
      "pg_savepoint ?q = Some sp'" "sp_num_pages sp' = sp_num_pages sp" "saved_view sp' ?q = saved_view sp p"
      by blast
    with inv g Some show ?thesis
      by (auto simp: pager_inv_def group_inv_def buffer_page_fields(3,5,8))
  qed
  have wal: "wal_inv crc ?q"
    using inv by (simp add: pager_inv_def wal_inv_def buffer_page_fields)
  have view: "view_ok (page_view ?q) (num_pages ?q)"
    using inv view_ok_upd [OF _ x pid, of "page_view p"]
    by (simp add: pager_inv_def buffer_page_views [OF g pid] buffer_page_fields(8))
  have size: "cache_size ?q = fcard (fmdom (cache ?q))"
    unfolding buffer_page_fields
    using inv by (intro cache_insert_size evict_until_size) (simp add: pager_inv_def)
  from inv grp wal view size show ?thesis
    using buffer_page_cache_ok [of "page_view p" p pid x pick]
    by (simp add: pager_inv_def buffer_page_views [OF g pid] buffer_page_fields(1))
qed

section \<open>Beginning and aborting a group\<close>

lemma begin_group_inv:
  assumes "pager_inv crc p" and "active_group p = None"
  shows "pager_inv crc (snd (begin_group p))"
    and "fst (begin_group p) = Inr (next_group_id (pg_wal p))"
    and "active_group (snd (begin_group p)) = Some (next_group_id (pg_wal p))"
    and "num_pages (snd (begin_group p)) = num_pages p"
    and "abs_pager (snd (begin_group p)) = (abs_pager p)\<lparr>st_active := True\<rparr>"
  using assms
  by (auto simp: begin_group_def allocate_group_id_def pager_inv_defs view_defs abs_pager_def in_group_def)

lemma fold_evict:
  "\<exists>c sz. fold evict pids p = set_cache (c, sz) p
     \<and> (\<forall>pid. fmlookup c pid = (if pid \<in> set pids then None else fmlookup (cache p) pid))
     \<and> (cache_size p = fcard (fmdom (cache p)) \<longrightarrow> sz = fcard (fmdom c))"
proof (induction pids arbitrary: p)
  case Nil
  show ?case by (intro exI [of _ "cache p"] exI [of _ "cache_size p"]) (simp add: set_cache_def)
next
  case (Cons a pids)
  obtain c sz where IH: "fold evict pids (evict a p) = set_cache (c, sz) (evict a p)"
    "\<forall>pid. fmlookup c pid = (if pid \<in> set pids then None else fmlookup (cache (evict a p)) pid)"
    "cache_size (evict a p) = fcard (fmdom (cache (evict a p))) \<longrightarrow> sz = fcard (fmdom c)"
    using Cons [of "evict a p"] by blast
  have "fmlookup (cache (evict a p)) pid = (if pid = a then None else fmlookup (cache p) pid)" for pid
    by (auto simp: evict_def fmdom_notD)
  moreover have "cache_size p = fcard (fmdom (cache p)) \<Longrightarrow>
      cache_size (evict a p) = fcard (fmdom (cache (evict a p)))"
    by (simp add: evict_def fcard_drop)
  moreover have "set_cache (c, sz) (evict a p) = set_cache (c, sz) p"
    by (simp add: evict_def set_cache_def)
  ultimately show ?case using IH by (intro exI [of _ c] exI [of _ sz]) simp
qed

lemma set_sorted_dom [simp]: "set (sorted_list_of_fset (fmdom m)) = fset (fmdom m)"
  by (simp add: sorted_list_of_fset.rep_eq)

lemma view_ok_durable_num: "pager_inv crc p \<Longrightarrow> view_ok (durable_view p) (base_pages p)"
  by (simp add: pager_inv_def)

lemma abort_group_fields:
  assumes "active_group p = Some g" and "cache_size p = fcard (fmdom (cache p))"
  obtains c sz where "abort_group p = (Inr (), set_cache (c, sz) (p\<lparr>active_group := None,
      pg_savepoint := None, pending := fmempty, num_pages := group_start_pages p\<rparr>))"
    and "\<And>pid. fmlookup c pid = (if fmlookup (pending p) pid = None then fmlookup (cache p) pid else None)"
    and "sz = fcard (fmdom c)"
proof -
  let ?p1 = "p\<lparr>active_group := None, pg_savepoint := None, pending := fmempty\<rparr>"
  obtain c sz where f: "fold evict (sorted_list_of_fset (fmdom (pending p))) ?p1 = set_cache (c, sz) ?p1"
    and c: "\<forall>pid. fmlookup c pid = (if pid |\<in>| fmdom (pending p) then None else fmlookup (cache p) pid)"
    and sz: "sz = fcard (fmdom c)"
    using fold_evict [of "sorted_list_of_fset (fmdom (pending p))" ?p1] assms(2) by auto
  show thesis
  proof (rule that [of c sz])
    show "abort_group p = (Inr (), set_cache (c, sz) (p\<lparr>active_group := None,
        pg_savepoint := None, pending := fmempty, num_pages := group_start_pages p\<rparr>))"
      using assms(1) f by (simp add: abort_group_def Let_def set_cache_def)
    show "fmlookup c pid = (if fmlookup (pending p) pid = None then fmlookup (cache p) pid else None)" for pid
      using c by (auto simp: fmdom_notD dest: fmdomI)
  qed (rule sz)
qed

lemma abort_group_inv:
  assumes inv: "pager_inv crc p" and g: "active_group p = Some g"
  shows "pager_inv crc (snd (abort_group p))" and "fst (abort_group p) = Inr ()"
    and "num_pages (snd (abort_group p)) = base_pages p"
    and "active_group (snd (abort_group p)) = None"
    and "abs_pager (snd (abort_group p)) =
      \<lparr>st_durable = durable_view p, st_current = durable_view p, st_active = False, st_saved = None\<rparr>"
proof -
  obtain c sz where a: "abort_group p = (Inr (), set_cache (c, sz) (p\<lparr>active_group := None,
      pg_savepoint := None, pending := fmempty, num_pages := group_start_pages p\<rparr>))"
    and c: "\<And>pid. fmlookup c pid = (if fmlookup (pending p) pid = None then fmlookup (cache p) pid else None)"
    and sz: "sz = fcard (fmdom c)"
    using inv abort_group_fields [OF g] by (auto simp: pager_inv_def)
  have base: "base_pages p = group_start_pages p" using g by (simp add: base_pages_def)
  let ?q = "p\<lparr>active_group := None, pg_savepoint := None, pending := fmempty,
      num_pages := group_start_pages p\<rparr>"
  have v: "page_view ?q = durable_view p" "durable_view ?q = durable_view p" "base_pages ?q = base_pages p"
    by (simp_all add: view_defs g)
  have "cache_ok (durable_view p) c"
    unfolding cache_ok_def
  proof (intro allI impI)
    fix pid x assume "fmlookup c pid = Some x"
    then have n: "fmlookup (pending p) pid = None" and "fmlookup (cache p) pid = Some x"
      by (auto simp: c split: if_splits)
    then have "page_view p pid = Some x" using inv by (auto simp: pager_inv_def cache_ok_def)
    with n show "durable_view p pid = Some x" by (simp add: pager_inv_views [OF inv])
  qed
  with inv sz show "pager_inv crc (snd (abort_group p))"
    by (simp add: a pager_inv_def v base group_inv_def wal_inv_def)
  show "abs_pager (snd (abort_group p)) =
      \<lparr>st_durable = durable_view p, st_current = durable_view p, st_active = False, st_saved = None\<rparr>"
    by (simp add: a abs_pager_def v in_group_def)
  show "fst (abort_group p) = Inr ()" "num_pages (snd (abort_group p)) = base_pages p"
    "active_group (snd (abort_group p)) = None"
    by (simp_all add: a base)
qed

section \<open>Savepoints\<close>

lemma begin_savepoint_inv:
  assumes inv: "pager_inv crc p" and g: "active_group p = Some g" and s: "pg_savepoint p = None"
  shows "pager_inv crc (snd (begin_savepoint p))" and "fst (begin_savepoint p) = Inr ()"
    and "abs_pager (snd (begin_savepoint p)) = (abs_pager p)\<lparr>st_saved := Some (page_view p)\<rparr>"
proof -
  let ?sp = "\<lparr>sp_undo = fmempty, sp_num_pages = num_pages p\<rparr>"
  have e: "begin_savepoint p = (Inr (), p\<lparr>pg_savepoint := Some ?sp\<rparr>)"
    using g s by (simp add: begin_savepoint_def)
  have u: "undone ?sp (pending p) = fmlookup (pending p)" by (simp add: undone_def fun_eq_iff)
  then have v: "saved_view ?sp (p\<lparr>pg_savepoint := Some ?sp\<rparr>) = page_view p"
    by (simp add: saved_view_def page_view_def)
  have w: "page_view (p\<lparr>pg_savepoint := Some ?sp\<rparr>) = page_view p"
    "durable_view (p\<lparr>pg_savepoint := Some ?sp\<rparr>) = durable_view p"
    "base_pages (p\<lparr>pg_savepoint := Some ?sp\<rparr>) = base_pages p"
    by (simp_all add: view_defs)
  show "pager_inv crc (snd (begin_savepoint p))"
    using inv g s by (simp add: e pager_inv_def group_inv_def wal_inv_def v w)
  show "abs_pager (snd (begin_savepoint p)) = (abs_pager p)\<lparr>st_saved := Some (page_view p)\<rparr>"
    by (simp add: e abs_pager_def v w in_group_def)
qed (use g s in \<open>simp add: begin_savepoint_def\<close>)

lemma release_savepoint_inv:
  assumes "pager_inv crc p"
  shows "pager_inv crc (release_savepoint p)"
    and "abs_pager (release_savepoint p) = (abs_pager p)\<lparr>st_saved := None\<rparr>"
  using assms by (auto simp: release_savepoint_def pager_inv_defs view_defs abs_pager_def in_group_def
      split: option.splits)

lemma fold_undo_page:
  "\<exists>m c sz. fold (undo_page sp) pids p = set_cache (c, sz) (p\<lparr>pending := m\<rparr>)
     \<and> (\<forall>pid. fmlookup m pid = (if pid \<in> set pids then undone sp (pending p) pid else fmlookup (pending p) pid))
     \<and> (\<forall>pid. fmlookup c pid = (if pid \<in> set pids then None else fmlookup (cache p) pid))
     \<and> (cache_size p = fcard (fmdom (cache p)) \<longrightarrow> sz = fcard (fmdom c))"
proof (induction pids arbitrary: p)
  case Nil
  show ?case
    by (intro exI [of _ "pending p"] exI [of _ "cache p"] exI [of _ "cache_size p"]) (simp add: set_cache_def)
next
  case (Cons a pids)
  let ?p = "undo_page sp a p"
  obtain m c sz where IH: "fold (undo_page sp) pids ?p = set_cache (c, sz) (?p\<lparr>pending := m\<rparr>)"
    "\<forall>pid. fmlookup m pid = (if pid \<in> set pids then undone sp (pending ?p) pid else fmlookup (pending ?p) pid)"
    "\<forall>pid. fmlookup c pid = (if pid \<in> set pids then None else fmlookup (cache ?p) pid)"
    "cache_size ?p = fcard (fmdom (cache ?p)) \<longrightarrow> sz = fcard (fmdom c)"
    using Cons [of ?p] by blast
  have "fmlookup (pending ?p) pid = (if pid = a then undone sp (pending p) a else fmlookup (pending p) pid)" for pid
    by (auto simp: undo_page_def evict_def undone_def split: option.split)
  moreover from this have "undone sp (pending ?p) pid = undone sp (pending p) pid" for pid
    by (auto simp: undone_def split: option.split)
  moreover have "fmlookup (cache ?p) pid = (if pid = a then None else fmlookup (cache p) pid)" for pid
    by (auto simp: undo_page_def evict_def fmdom_notD split: option.split)
  moreover have "cache_size p = fcard (fmdom (cache p)) \<Longrightarrow> cache_size ?p = fcard (fmdom (cache ?p))"
    by (auto simp: undo_page_def evict_def fcard_drop split: option.split)
  moreover have "set_cache (c, sz) (?p\<lparr>pending := m\<rparr>) = set_cache (c, sz) (p\<lparr>pending := m\<rparr>)"
    by (auto simp: undo_page_def evict_def set_cache_def split: option.split)
  ultimately show ?case
    using IH by (intro exI [of _ m] exI [of _ c] exI [of _ sz]) simp
qed

lemma rollback_inv:
  assumes inv: "pager_inv crc p" and s: "pg_savepoint p = Some sp"
  shows "pager_inv crc (snd (rollback_to_savepoint p))" and "fst (rollback_to_savepoint p) = Inr ()"
    and "num_pages (snd (rollback_to_savepoint p)) = sp_num_pages sp"
    and "active_group (snd (rollback_to_savepoint p)) = active_group p"
    and "abs_pager (snd (rollback_to_savepoint p)) =
      (abs_pager p)\<lparr>st_current := saved_view sp p, st_saved := None\<rparr>"
proof -
  let ?p0 = "p\<lparr>pg_savepoint := None\<rparr>"
  obtain m c sz where f: "fold (undo_page sp) (sorted_list_of_fset (fmdom (sp_undo sp))) ?p0
      = set_cache (c, sz) (?p0\<lparr>pending := m\<rparr>)"
    and m: "\<forall>pid. fmlookup m pid =
      (if pid |\<in>| fmdom (sp_undo sp) then undone sp (pending p) pid else fmlookup (pending p) pid)"
    and c: "\<forall>pid. fmlookup c pid = (if pid |\<in>| fmdom (sp_undo sp) then None else fmlookup (cache p) pid)"
    and sz: "sz = fcard (fmdom c)"
    using fold_undo_page [of sp "sorted_list_of_fset (fmdom (sp_undo sp))" ?p0] inv
    by (auto simp: pager_inv_def)
  let ?q = "p\<lparr>pg_savepoint := None, pending := m, num_pages := sp_num_pages sp\<rparr>"
  have r: "rollback_to_savepoint p = (Inr (), set_cache (c, sz) ?q)"
    by (simp add: rollback_to_savepoint_def s Let_def f set_cache_def)
  have mu: "fmlookup m = undone sp (pending p)"
    using m by (auto simp: undone_def fun_eq_iff fmdom_notD)
  have g: "active_group p \<noteq> None" and le: "base_pages p \<le> sp_num_pages sp"
    and ok: "view_ok (saved_view sp p) (sp_num_pages sp)"
    using inv s by (auto simp: pager_inv_def group_inv_def base_pages_def split: option.splits)
  have v: "page_view ?q = saved_view sp p" "durable_view ?q = durable_view p" "base_pages ?q = base_pages p"
    using g by (auto simp: view_defs mu)
  have "cache_ok (saved_view sp p) c"
    unfolding cache_ok_def
  proof (intro allI impI)
    fix pid x assume "fmlookup c pid = Some x"
    then have n: "fmlookup (sp_undo sp) pid = None" and "fmlookup (cache p) pid = Some x"
      using c by (auto simp: fmdom_notD split: if_splits)
    then have "page_view p pid = Some x" using inv by (auto simp: pager_inv_def cache_ok_def)
    with n show "saved_view sp p pid = Some x"
      by (simp add: pager_inv_views [OF inv] s undone_def)
  qed
  moreover have "group_inv ?q"
    using inv g le by (auto simp: pager_inv_def group_inv_def base_pages_def split: option.splits)
  ultimately show "pager_inv crc (snd (rollback_to_savepoint p))"
    using inv sz ok by (simp add: r pager_inv_def v) (simp add: wal_inv_def)
  show "abs_pager (snd (rollback_to_savepoint p)) =
      (abs_pager p)\<lparr>st_current := saved_view sp p, st_saved := None\<rparr>"
    by (simp add: r abs_pager_def v in_group_def)
  show "fst (rollback_to_savepoint p) = Inr ()" "num_pages (snd (rollback_to_savepoint p)) = sp_num_pages sp"
    "active_group (snd (rollback_to_savepoint p)) = active_group p"
    by (simp_all add: r)
qed

section \<open>Checkpoint\<close>

lemma sorted_pages_lengths:
  assumes "\<And>pid x. fmlookup m pid = Some x \<Longrightarrow> length x = page_size"
  shows "list_all (\<lambda>(pid, data). length data = page_size) (sorted_pages m)"
  using assms by (auto simp: list_all_iff set_sorted_pages)

lemma sorted_pages_bound:
  assumes "\<And>pid x. fmlookup m pid = Some x \<Longrightarrow> pid < n"
  shows "list_all (\<lambda>(pid, data). pid < n) (sorted_pages m)"
  using assms by (auto simp: list_all_iff set_sorted_pages)

lemma committed_bound:
  assumes "pager_inv crc p" and "fmlookup (committed p) pid = Some x"
  shows "pid < base_pages p" and "length x = page_size"
proof -
  from assms have "durable_view p pid = Some x" and "view_ok (durable_view p) (base_pages p)"
    by (simp_all add: pager_inv_def durable_view_def layered_def)
  then show "pid < base_pages p" "length x = page_size" by (auto dest: view_okD)
qed

text \<open>
  The data file while a checkpoint copies the committed pages into it: every other page is intact,
  the file has not grown past the pages in use, and if the copying finished the committed pages
  are there.
\<close>

lemma checkpoint_writes:
  assumes inv: "pager_inv crc p" and a: "active_group p = None"
  obtains f where "snd (write_pages_raw io k (sorted_pages (committed p)) (p\<lparr>committed := fmempty\<rparr>))
      = p\<lparr>pg_file := f, committed := fmempty\<rparr>"
    and "length f \<le> num_pages p * page_size"
    and "\<And>pid x. fmlookup (committed p) pid = None \<Longrightarrow> file_page (pg_file p) pid = Some x \<Longrightarrow> file_page f pid = Some x"
    and "\<And>pid x. fst (write_pages_raw io k (sorted_pages (committed p)) (p\<lparr>committed := fmempty\<rparr>)) = Inr () \<Longrightarrow>
      fmlookup (committed p) pid = Some x \<Longrightarrow> file_page f pid = Some x"
proof -
  let ?ws = "sorted_pages (committed p)" and ?p = "p\<lparr>committed := fmempty\<rparr>"
  let ?r = "write_pages_raw io k ?ws ?p"
  have base: "base_pages p = num_pages p" using a by (simp add: base_pages_def)
  obtain f n where r: "snd ?r = ?p\<lparr>pg_file := f, num_pages := n\<rparr>"
    using write_pages_raw_frame by blast
  have b: "list_all (\<lambda>(pid, data). pid < num_pages p) ?ws"
    using committed_bound(1) [OF inv] base by (intro sorted_pages_bound) simp
  have "n \<le> num_pages p" using write_pages_raw_num_pages [OF b, of ?p io k] r by simp
  moreover have "num_pages p \<le> n" using write_pages_raw_num_pages_mono [of ?p io k ?ws] r by simp
  ultimately have n: "n = num_pages p" by simp
  have len: "length f \<le> num_pages p * page_size"
    using write_pages_raw_length [OF b, of ?p io k] inv r base by (simp add: pager_inv_def)
  have keep: "file_page f pid = Some x"
    if "fmlookup (committed p) pid = None" "file_page (pg_file p) pid = Some x" for pid x
  proof -
    have "pid \<notin> fst ` set ?ws" using that(1) by (auto simp: set_sorted_pages)
    from write_pages_raw_preserves [OF this, of ?p x io k] that(2) r show ?thesis by simp
  qed
  have done': "file_page f pid = Some x"
    if "fst ?r = Inr ()" "fmlookup (committed p) pid = Some x" for pid x
  proof -
    have "apply_writes ?ws fmempty = committed p" by (simp add: apply_sorted_pages)
    with write_pages_raw_done [OF that(1)] that(2) r show ?thesis by simp
  qed
  show thesis by (rule that [of f]) (simp_all add: r n len keep done')
qed

lemma stored_same_file:
  assumes "\<And>pid x. fmlookup comm pid = None \<Longrightarrow> file_page f pid = Some x \<Longrightarrow> file_page g pid = Some x"
    and "view_ok (layered pend comm f n) n"
  shows "layered pend comm g n = layered pend comm f n"
proof
  fix pid
  have "pid < n \<Longrightarrow> layered pend comm f n pid \<noteq> None" using assms(2) by (simp add: view_ok_def)
  with assms(1) [of pid] show "layered pend comm g n pid = layered pend comm f n pid"
    by (auto simp: layered_def split: option.splits)
qed

lemma stored_folded:
  assumes "\<And>pid x. fmlookup comm pid = None \<Longrightarrow> file_page f pid = Some x \<Longrightarrow> file_page g pid = Some x"
    and "\<And>pid x. fmlookup comm pid = Some x \<Longrightarrow> file_page g pid = Some x"
    and "view_ok (layered (\<lambda>_. None) comm f n) n"
  shows "layered (\<lambda>_. None) fmempty g n = layered (\<lambda>_. None) comm f n"
proof
  fix pid
  have "layered (\<lambda>_. None) comm f n pid \<noteq> None \<longleftrightarrow> pid < n" using assms(3) by (simp add: view_ok_def)
  with assms(1,2) [of pid] show "layered (\<lambda>_. None) fmempty g n pid = layered (\<lambda>_. None) comm f n pid"
    by (auto simp: layered_def split: option.splits if_splits)
qed

text \<open>The outcomes of a checkpoint: the committed pages are kept, or the file has them all.\<close>

lemma checkpoint_cases:
  assumes inv: "pager_inv crc p" and a: "active_group p = None"
  obtains (kept) r f where "checkpoint io p = (r, p\<lparr>pg_file := f\<rparr>)"
      "layered (\<lambda>_. None) (committed p) f (num_pages p) = page_view p" "length f \<le> num_pages p * page_size"
    | (folded) f where "checkpoint io p = (Inr (), p\<lparr>pg_file := f, committed := fmempty,
          pg_wal := (pg_wal p)\<lparr>wal_file := [], wal_len := 0\<rparr>\<rparr>)"
      "layered (\<lambda>_. None) fmempty f (num_pages p) = page_view p" "length f \<le> num_pages p * page_size"
    | (stale) f where "checkpoint io p = (Inl (Error Io), p\<lparr>pg_file := f, pg_wal := (pg_wal p)\<lparr>wal_file := []\<rparr>\<rparr>)"
      "layered (\<lambda>_. None) fmempty f (num_pages p) = page_view p"
      "layered (\<lambda>_. None) (committed p) f (num_pages p) = page_view p"
      "length f \<le> num_pages p * page_size" "io_truncate io = TruncateSyncFails"
proof (cases "committed p = fmempty")
  case True
  have "pending p = fmempty" using inv a by (simp add: pager_inv_def group_inv_def)
  then have "layered (\<lambda>_. None) (committed p) (pg_file p) (num_pages p) = page_view p"
    by (simp add: page_view_def)
  with True inv a kept [of "Inr ()" "pg_file p"] show thesis
    by (simp add: checkpoint_def pager_inv_def base_pages_def)
next
  case False
  let ?r = "write_pages_raw (io_raw io) 0 (sorted_pages (committed p)) (p\<lparr>committed := fmempty\<rparr>)"
  have pend: "pending p = fmempty" using inv a by (simp add: pager_inv_def group_inv_def)
  obtain f where f: "snd ?r = p\<lparr>pg_file := f, committed := fmempty\<rparr>" "length f \<le> num_pages p * page_size"
    and keep: "\<And>pid x. fmlookup (committed p) pid = None \<Longrightarrow> file_page (pg_file p) pid = Some x \<Longrightarrow> file_page f pid = Some x"
    and don: "\<And>pid x. fst ?r = Inr () \<Longrightarrow> fmlookup (committed p) pid = Some x \<Longrightarrow> file_page f pid = Some x"
    using checkpoint_writes [OF inv a] by metis
  have pv: "page_view p = layered (\<lambda>_. None) (committed p) (pg_file p) (num_pages p)"
    by (simp add: page_view_def pend)
  have ok: "view_ok (layered (\<lambda>_. None) (committed p) (pg_file p) (num_pages p)) (num_pages p)"
    using inv pv by (simp add: pager_inv_def)
  have same: "layered (\<lambda>_. None) (committed p) f (num_pages p) = page_view p"
    unfolding pv by (rule stored_same_file [OF keep ok])
  have fold: "layered (\<lambda>_. None) fmempty f (num_pages p) = page_view p" if "fst ?r = Inr ()"
    unfolding pv by (rule stored_folded [OF keep don [OF that] ok])
  show thesis
  proof (cases "fst ?r")
    case (Inl e)
    then have "?r = (Inl e, p\<lparr>pg_file := f, committed := fmempty\<rparr>)" using f(1) by (cases ?r) simp
    with False have "checkpoint io p = (Inl e, p\<lparr>pg_file := f\<rparr>)" by (simp add: checkpoint_def)
    from kept [OF this same f(2)] show thesis .
  next
    case (Inr u)
    then have r: "?r = (Inr (), p\<lparr>pg_file := f, committed := fmempty\<rparr>)" using f(1) by (cases ?r) simp
    then have fold': "layered (\<lambda>_. None) fmempty f (num_pages p) = page_view p" by (intro fold) simp
    note c = checkpoint_def [of io p] r False wal_truncate_def set_len_def Let_def
    consider "\<not> io_sync io \<or> io_truncate io = SetLenFails" | "io_sync io" "io_truncate io = TruncateOk"
      | "io_sync io" "io_truncate io = TruncateSyncFails"
      by (cases "io_truncate io") auto
    then show thesis
    proof cases
      case 1
      then have "checkpoint io p = (Inl (Error Io), p\<lparr>pg_file := f\<rparr>)" by (auto simp: c)
      from kept [OF this same f(2)] show thesis .
    next
      case 2
      then have "checkpoint io p = (Inr (), p\<lparr>pg_file := f, committed := fmempty,
          pg_wal := (pg_wal p)\<lparr>wal_file := [], wal_len := 0\<rparr>\<rparr>)" by (simp add: c)
      from folded [OF this fold' f(2)] show thesis .
    next
      case 3
      then have "checkpoint io p = (Inl (Error Io), p\<lparr>pg_file := f, pg_wal := (pg_wal p)\<lparr>wal_file := []\<rparr>\<rparr>)"
        by (simp add: c)
      from stale [OF this fold' same f(2) 3(2)] show thesis .
    qed
  qed
qed

lemma refiled_inv:
  assumes inv: "pager_inv crc p" and a: "active_group p = None"
    and f: "layered (\<lambda>_. None) (committed p) f (num_pages p) = page_view p" "length f \<le> num_pages p * page_size"
  shows "pager_inv crc (p\<lparr>pg_file := f\<rparr>)" and "page_view (p\<lparr>pg_file := f\<rparr>) = page_view p"
    and "durable_view (p\<lparr>pg_file := f\<rparr>) = page_view p"
proof -
  have pend: "pending p = fmempty" "pg_savepoint p = None"
    using inv a by (simp_all add: pager_inv_def group_inv_def)
  show v: "page_view (p\<lparr>pg_file := f\<rparr>) = page_view p" "durable_view (p\<lparr>pg_file := f\<rparr>) = page_view p"
    using f(1) by (simp_all add: view_defs pend a)
  from inv f(2) v show "pager_inv crc (p\<lparr>pg_file := f\<rparr>)"
    by (simp add: a pend pager_inv_def wal_inv_def group_inv_def base_pages_def)
qed

lemma checkpoint_inv:
  assumes inv: "pager_inv crc p" and a: "active_group p = None"
  shows "page_view (snd (checkpoint io p)) = page_view p"
    and "abs_pager (snd (checkpoint io p)) = abs_pager p"
    and "num_pages (snd (checkpoint io p)) = num_pages p"
    and "active_group (snd (checkpoint io p)) = None"
    and "io_truncate io \<noteq> TruncateSyncFails \<Longrightarrow> pager_inv crc (snd (checkpoint io p))"
proof -
  have pend: "pending p = fmempty" "pg_savepoint p = None"
    using inv a by (simp_all add: pager_inv_def group_inv_def)
  have dur: "durable_view p = page_view p"
    by (simp add: view_defs pend a)
  note simps = abs_pager_def in_group_def dur a pend
  have "page_view (snd (checkpoint io p)) = page_view p
    \<and> abs_pager (snd (checkpoint io p)) = abs_pager p
    \<and> num_pages (snd (checkpoint io p)) = num_pages p
    \<and> active_group (snd (checkpoint io p)) = None
    \<and> (io_truncate io \<noteq> TruncateSyncFails \<longrightarrow> pager_inv crc (snd (checkpoint io p)))"
  proof (rule checkpoint_cases [OF inv a, of io], goal_cases kept folded stale)
    case (kept r f)
    from refiled_inv [OF inv a kept(2,3)] show ?thesis by (simp add: kept(1) simps)
  next
    case (folded f)
    let ?q = "p\<lparr>pg_file := f, committed := fmempty, pg_wal := (pg_wal p)\<lparr>wal_file := [], wal_len := 0\<rparr>\<rparr>"
    have v: "page_view ?q = page_view p" "durable_view ?q = page_view p" "base_pages ?q = base_pages p"
      using folded(2) by (simp_all add: view_defs pend a)
    have w: "wal_inv crc ?q"
      using inv unfolding pager_inv_def wal_inv_def
      by (auto intro!: exI [of _ "[]"] simp: encode_groups_def)
    from inv folded(3) v w show ?thesis
      by (simp add: folded(1) simps pager_inv_def group_inv_def base_pages_def)
  next
    case (stale f)
    then show ?thesis by (simp add: simps view_defs)
  qed
  then show "page_view (snd (checkpoint io p)) = page_view p"
    "abs_pager (snd (checkpoint io p)) = abs_pager p"
    "num_pages (snd (checkpoint io p)) = num_pages p"
    "active_group (snd (checkpoint io p)) = None"
    "io_truncate io \<noteq> TruncateSyncFails \<Longrightarrow> pager_inv crc (snd (checkpoint io p))"
    by blast+
qed

end
