(* ===== verification/PagerCrash.thy ===== *)
theory PagerCrash
  imports PagerOps
begin

text \<open>
  Commit, crash and recovery. The pages a reopened database shows are the durable view of the
  pager that crashed, whatever point of a commit or of a checkpoint the crash hit.
\<close>

section \<open>Recovery\<close>

lemma layered_folded:
  assumes "\<And>pid x. fmlookup m pid = Some x \<Longrightarrow> file_page g pid = Some x"
    and "\<And>pid x. fmlookup m pid = None \<Longrightarrow> file_page f pid = Some x \<Longrightarrow> file_page g pid = Some x"
    and "view_ok (layered (\<lambda>_. None) m f n) n"
  shows "layered (\<lambda>_. None) fmempty g n = layered (\<lambda>_. None) m f n"
  using assms by (intro stored_folded)

lemma blank_pages_le:
  assumes "length f \<le> n * page_size"
  shows "(length f + page_size - 1) div page_size \<le> n"
proof -
  have "length f + page_size - 1 < (n + 1) * page_size" using assms by (simp add: page_size_def)
  then have "(length f + page_size - 1) div page_size < n + 1" by (rule less_mult_imp_div_less)
  then show ?thesis by simp
qed

lemma blank_pages_ge:
  assumes "file_page f pid = Some x"
  shows "pid < (length f + page_size - 1) div page_size"
proof -
  have "(pid + 1) * page_size \<le> length f + page_size - 1"
    using assms by (auto simp: file_page_def page_size_def split: if_splits)
  then have "(pid + 1) * page_size div page_size \<le> (length f + page_size - 1) div page_size"
    by (rule div_le_mono)
  then show ?thesis by simp
qed

lemma recovery_writes:
  fixes f :: bytes and n k :: nat
  defines "view ws \<equiv> layered (\<lambda>_. None) (apply_writes ws fmempty) f n"
  assumes io: "\<forall>i. io i = None" and lens: "list_all (\<lambda>(pid, data). length data = page_size) ws"
    and ok: "view_ok (view ws) n" and len: "length f \<le> n * page_size"
    and p: "pg_file p = f" "num_pages p = (length f + page_size - 1) div page_size"
  obtains g where "write_pages_raw io k ws p = (Inr (), p\<lparr>pg_file := g, num_pages := n\<rparr>)"
    and "length g \<le> n * page_size" and "layered (\<lambda>_. None) fmempty g n = view ws"
proof -
  let ?m = "apply_writes ws fmempty" and ?r = "write_pages_raw io k ws p"
  obtain g l where r: "snd ?r = p\<lparr>pg_file := g, num_pages := l\<rparr>" using write_pages_raw_frame by blast
  have fst: "fst ?r = Inr ()" using write_pages_raw_succeeds [OF lens io] .
  have dom: "fst ` set ws = fset (fmdom ?m)" by (simp add: fmdom_apply_writes)
  have b: "list_all (\<lambda>(pid, data). pid < n) ws"
  proof -
    have "pid < n" if "(pid, data) \<in> set ws" for pid data
    proof -
      have "pid |\<in>| fmdom ?m" using that dom by force
      then obtain x where "fmlookup ?m pid = Some x" by blast
      then have "view ws pid = Some x" by (simp add: view_def layered_def)
      with ok show ?thesis by (auto dest: view_okD)
    qed
    then show ?thesis by (auto simp: list_all_iff)
  qed
  have dn: "file_page g pid = Some x \<and> pid < l" if "fmlookup ?m pid = Some x" for pid x
    using write_pages_raw_done [OF fst that] r by simp
  have kp: "file_page g pid = Some x" if "fmlookup ?m pid = None" "file_page f pid = Some x" for pid x
  proof -
    have "pid \<notin> fst ` set ws" using that(1) dom by (simp add: fmdom_notI)
    from write_pages_raw_preserves [OF this, of p x io k] that(2) r p show ?thesis by simp
  qed
  have "l \<le> n"
    using write_pages_raw_num_pages [OF b, of p io k] blank_pages_le [OF len] r p by simp
  moreover have "n \<le> l"
  proof (cases n)
    case (Suc i)
    then obtain x where "view ws i = Some x" using view_okD(3) [OF ok, of i] by auto
    then have "i < l"
      using dn [of i] blank_pages_ge [of f i] write_pages_raw_num_pages_mono [of p io k ws] r p
      by (auto simp: view_def layered_def split: option.splits if_splits)
    with Suc show ?thesis by simp
  qed simp
  ultimately have l: "l = n" by simp
  show thesis
  proof (rule that [of g])
    show "?r = (Inr (), p\<lparr>pg_file := g, num_pages := n\<rparr>)"
      using fst r l by (cases ?r) simp
    show "length g \<le> n * page_size" using write_pages_raw_length [OF b, of p io k] r p len by simp
    show "layered (\<lambda>_. None) fmempty g n = view ws"
      unfolding view_def using dn kp ok by (intro layered_folded) (auto simp: view_def)
  qed
qed

lemma observe_bound:
  "next_group_id w < 2 ^ 64 \<Longrightarrow> next_group_id (observe_group_id i w) < 2 ^ 64"
  by (simp add: observe_group_id_def)

lemma read_committed_groups_eq:
  "read_committed_groups crc (wal_open wal) =
     (recovered_groups crc wal, observe_group_id (highest_group (parse_records crc wal 0)) (wal_open wal))"
  by (simp add: recovered_groups_def read_committed_groups_def wal_open_def Let_def)

lemma clean_pager_inv:
  assumes "view_ok (layered (\<lambda>_. None) fmempty (pg_file p) (num_pages p)) (num_pages p)"
    and "length (pg_file p) \<le> num_pages p * page_size"
    and "active_group p = None" and "pg_savepoint p = None" and "pending p = fmempty"
    and "committed p = fmempty" and "cache p = fmempty" and "cache_size p = 0"
    and "wal_file (pg_wal p) = []" and "wal_len (pg_wal p) = 0" and "next_group_id (pg_wal p) < 2 ^ 64"
  shows "pager_inv crc p"
proof -
  have "wal_inv crc p"
    using assms unfolding wal_inv_def by (auto intro!: exI [of _ "[]"] simp: encode_groups_def)
  with assms show ?thesis
    by (simp add: pager_inv_def group_inv_def view_defs cache_ok_def)
qed

lemma recovery:
  assumes rec: "recovered_groups crc wal = Inr gs" and gs: "list_all group_ok gs"
    and ok: "view_ok (layered (\<lambda>_. None) (apply_writes (concat (map cg_writes gs)) fmempty) f n) n"
    and len: "length f \<le> n * page_size"
  obtains q where "pager_new crc io_ok f wal = Inr q" and "pager_inv crc q" and "active_group q = None"
    and "num_pages q = n"
    and "page_view q = layered (\<lambda>_. None) (apply_writes (concat (map cg_writes gs)) fmempty) f n"
proof -
  let ?ws = "concat (map cg_writes gs)"
  let ?w = "observe_group_id (highest_group (parse_records crc wal 0)) (wal_open wal)"
  define p where "p = (if wal = [] then pager_blank f wal else (pager_blank f wal)\<lparr>pg_wal := ?w\<rparr>)"
  have lens: "list_all (\<lambda>(pid, data). length data = page_size) ?ws"
    using gs by (auto simp: list_all_iff group_ok_def)
  have io: "\<forall>i. io_raw io_ok i = None" by (simp add: io_ok_def)
  have pf: "pg_file p = f" "num_pages p = (length f + page_size - 1) div page_size"
    by (simp_all add: p_def pager_blank_def Let_def)
  obtain g where wr: "write_pages_raw (io_raw io_ok) 0 ?ws p = (Inr (), p\<lparr>pg_file := g, num_pages := n\<rparr>)"
    and g: "length g \<le> n * page_size"
      "layered (\<lambda>_. None) fmempty g n = layered (\<lambda>_. None) (apply_writes ?ws fmempty) f n"
    by (rule recovery_writes [OF io lens ok len pf, of 0])
  define q where "q = p\<lparr>pg_file := g, num_pages := n, pg_wal := (pg_wal p)\<lparr>wal_file := [], wal_len := 0\<rparr>\<rparr>"
  have new: "pager_new crc io_ok f wal = Inr q"
  proof (cases "wal = []")
    case True
    then have "?ws = []"
      using rec recovered_groups_all [of "[]" crc] by (simp add: encode_groups_def)
    with wr have e1: "p\<lparr>pg_file := g, num_pages := n\<rparr> = p" by simp
    have e2: "pg_wal p = (pg_wal p)\<lparr>wal_file := [], wal_len := 0\<rparr>"
      using True by (simp add: p_def pager_blank_def Let_def wal_open_def)
    have "q = p" unfolding q_def e1 e2 [symmetric] by simp
    with True show ?thesis
      by (simp add: pager_new_def recover_def wal_size_def p_def pager_blank_def Let_def wal_open_def)
  next
    case False
    then have p: "p = (pager_blank f wal)\<lparr>pg_wal := ?w\<rparr>" by (simp add: p_def)
    have w: "pg_wal (pager_blank f wal) = wal_open wal" "wal_size (wal_open wal) \<noteq> 0"
      using False by (simp_all add: pager_blank_def Let_def wal_size_def wal_open_def)
    have "recover crc io_ok (pager_blank f wal) = (Inr (), q)"
      using wr rec
      by (simp add: recover_def w read_committed_groups_eq p [symmetric] q_def wal_truncate_def set_len_def)
        (simp add: io_ok_def set_len_def)
    then show ?thesis by (simp add: pager_new_def)
  qed
  have "next_group_id ?w < 2 ^ 64" by (rule observe_bound) (simp add: wal_open_def)
  then have "pager_inv crc q"
    using g ok by (intro clean_pager_inv) (simp_all add: q_def p_def pager_blank_def Let_def wal_open_def)
  with new g show thesis
    by (intro that [of q]) (simp_all add: page_view_def q_def p_def pager_blank_def Let_def)
qed

section \<open>Committing\<close>

abbreviation pending_group :: "nat \<Rightarrow> pager \<Rightarrow> committed_group" where
  "pending_group gid p \<equiv> \<lparr>cg_group_id = gid, cg_writes = sorted_pages (pending p)\<rparr>"

lemma pending_group_ok:
  assumes inv: "pager_inv crc p" and g: "active_group p = Some gid" and n: "num_pages p \<le> 2 ^ 64"
  shows "group_ok (pending_group gid p)"
proof -
  have "view_ok (page_view p) (num_pages p)" using inv by (simp add: pager_inv_def)
  moreover have "page_view p pid = Some x" if "fmlookup (pending p) pid = Some x" for pid x
    using that by (simp add: page_view_def layered_def)
  ultimately have "pid < num_pages p \<and> length x = page_size" if "fmlookup (pending p) pid = Some x" for pid x
    using that by (blast dest: view_okD)
  with n have "list_all (\<lambda>(pid, data). pid < 2 ^ 64 \<and> length data = page_size) (sorted_pages (pending p))"
    by (fastforce simp: list_all_iff set_sorted_pages)
  moreover have "gid < 2 ^ 64" using inv g by (simp add: pager_inv_def group_inv_def)
  ultimately show ?thesis by (simp add: group_ok_def)
qed

lemma layered_merge: "layered (\<lambda>_. None) (comm ++\<^sub>f pend) f n = layered (fmlookup pend) comm f n"
  by (auto simp: layered_def fun_eq_iff fmdom_notD split: option.split dest: fmdomI)

lemma wal_inv_groups:
  assumes "pager_inv crc p"
  obtains gs where "list_all group_ok gs" and "wal_file (pg_wal p) = encode_groups crc gs"
    and "committed p = apply_writes (concat (map cg_writes gs)) fmempty"
    and "wal_len (pg_wal p) = length (wal_file (pg_wal p))"
  using assms by (auto simp: pager_inv_def wal_inv_def)

text \<open>The state in which the append has succeeded and the buffered pages count as committed.\<close>

definition promoted :: "(bytes \<Rightarrow> 32 word) \<Rightarrow> nat \<Rightarrow> pager \<Rightarrow> pager" where
  "promoted crc gid p = p\<lparr>pg_savepoint := None,
     pg_wal := (pg_wal p)\<lparr>wal_file := wal_file (pg_wal p) @ encode_group crc (pending_group gid p),
        wal_len := wal_len (pg_wal p) + length (encode_group crc (pending_group gid p))\<rparr>,
     active_group := None, pending := fmempty, committed := committed p ++\<^sub>f pending p\<rparr>"

lemma promoted_views:
  "page_view (promoted crc gid p) = page_view p" "durable_view (promoted crc gid p) = page_view p"
  "base_pages (promoted crc gid p) = num_pages p" "num_pages (promoted crc gid p) = num_pages p"
  "active_group (promoted crc gid p) = None"
  by (simp_all add: promoted_def view_defs layered_merge)

lemma promoted_inv:
  assumes inv: "pager_inv crc p" and g: "active_group p = Some gid" and n: "num_pages p \<le> 2 ^ 64"
  shows "pager_inv crc (promoted crc gid p)"
proof -
  obtain gs where gs: "list_all group_ok gs" "wal_file (pg_wal p) = encode_groups crc gs"
    "committed p = apply_writes (concat (map cg_writes gs)) fmempty"
    "wal_len (pg_wal p) = length (wal_file (pg_wal p))"
    by (rule wal_inv_groups [OF inv])
  let ?gs = "gs @ [pending_group gid p]"
  have "list_all group_ok ?gs" using gs(1) pending_group_ok [OF assms] by simp
  moreover have "encode_groups crc ?gs = wal_file (pg_wal p) @ encode_group crc (pending_group gid p)"
    using gs(2) by (simp add: encode_groups_snoc)
  moreover have "apply_writes (concat (map cg_writes ?gs)) fmempty = committed p ++\<^sub>f pending p"
    by (simp add: apply_writes_append apply_sorted_pages gs(3))
  ultimately have "wal_inv crc (promoted crc gid p)"
    using inv gs(4) unfolding wal_inv_def pager_inv_def promoted_def
    by (auto intro!: exI [of _ ?gs])
  moreover have "length (pg_file p) \<le> num_pages p * page_size"
    by (rule file_length_le [OF inv])
  ultimately show ?thesis
    using inv unfolding pager_inv_def promoted_views
    by (simp add: promoted_def group_inv_def)
qed

lemma commit_group_append:
  assumes inv: "pager_inv crc p" and g: "active_group p = Some gid" and n: "num_pages p \<le> 2 ^ 64"
    and pend: "pending p \<noteq> fmempty" and io: "io_append io = WriteOk"
  shows "commit_group crc io p = (Inr (),
     if CHECKPOINT_WAL_BYTES \<le> wal_size (pg_wal (promoted crc gid p))
     then snd (checkpoint io (promoted crc gid p)) else promoted crc gid p)"
proof -
  have "wal_len (pg_wal p) = length (wal_file (pg_wal p))"
    using inv by (simp add: pager_inv_def wal_inv_def)
  from append_group_ok [OF pending_group_ok [OF inv g n] this] pend show ?thesis
    by (simp add: commit_group_def g io Let_def promoted_def wal_size_def)
qed

lemma commit_group_empty:
  assumes inv: "pager_inv crc p" and g: "active_group p = Some gid" and pend: "pending p = fmempty"
  shows "commit_group crc io p = (Inr (), p\<lparr>pg_savepoint := None, active_group := None\<rparr>)"
  using g pend by (simp add: commit_group_def Let_def)

lemma empty_group_inv:
  assumes inv: "pager_inv crc p" and g: "active_group p = Some gid" and pend: "pending p = fmempty"
  defines "q \<equiv> p\<lparr>pg_savepoint := None, active_group := None\<rparr>"
  shows "pager_inv crc q" and "page_view q = page_view p" and "durable_view q = page_view p"
proof -
  show v: "page_view q = page_view p" "durable_view q = page_view p"
    by (simp_all add: q_def view_defs pend)
  have "length (pg_file p) \<le> num_pages p * page_size"
    by (rule file_length_le [OF inv])
  moreover have "wal_inv crc q" using inv by (simp add: q_def pager_inv_def wal_inv_def)
  ultimately show "pager_inv crc q"
    using inv v by (simp add: pager_inv_def q_def group_inv_def pend base_pages_def)
qed

text \<open>A commit whose append succeeds makes the current view durable, whatever the checkpoint does.\<close>

lemma commit_group_ok:
  assumes inv: "pager_inv crc p" and g: "active_group p = Some gid" and n: "num_pages p \<le> 2 ^ 64"
    and io: "io_append io = WriteOk"
  shows "fst (commit_group crc io p) = Inr ()"
    and "abs_pager (snd (commit_group crc io p)) =
      \<lparr>st_durable = page_view p, st_current = page_view p, st_active = False, st_saved = None\<rparr>"
    and "io_truncate io \<noteq> TruncateSyncFails \<Longrightarrow> pager_inv crc (snd (commit_group crc io p))"
proof -
  let ?q = "promoted crc gid p"
  have q: "pager_inv crc ?q" "active_group ?q = None"
    using promoted_inv [OF inv g n] by (simp_all add: promoted_views)
  have aq: "abs_pager ?q = \<lparr>st_durable = page_view p, st_current = page_view p, st_active = False, st_saved = None\<rparr>"
    by (simp add: abs_pager_def promoted_views in_group_def) (simp add: promoted_def)
  show "fst (commit_group crc io p) = Inr ()"
    by (cases "pending p = fmempty")
      (simp_all add: commit_group_empty [OF inv g] commit_group_append [OF inv g n _ io])
  show "abs_pager (snd (commit_group crc io p)) =
      \<lparr>st_durable = page_view p, st_current = page_view p, st_active = False, st_saved = None\<rparr>"
  proof (cases "pending p = fmempty")
    case True
    from empty_group_inv(2,3) [OF inv g True] show ?thesis
      by (simp add: commit_group_empty [OF inv g True] abs_pager_def in_group_def)
  next
    case False
    with aq checkpoint_inv(2) [OF q] show ?thesis
      by (simp add: commit_group_append [OF inv g n _ io])
  qed
  assume "io_truncate io \<noteq> TruncateSyncFails"
  then show "pager_inv crc (snd (commit_group crc io p))"
    using q checkpoint_inv(5) [OF q] empty_group_inv(1) [OF inv g]
    by (cases "pending p = fmempty")
      (simp_all add: commit_group_empty [OF inv g] commit_group_append [OF inv g n _ io])
qed

text \<open>A commit whose append fails, with the log cut back, reports the error and drops the group.\<close>

lemma commit_group_failed:
  assumes inv: "pager_inv crc p" and g: "active_group p = Some gid" and n: "num_pages p \<le> 2 ^ 64"
    and pend: "pending p \<noteq> fmempty" and io: "io_append io = WriteFails k True"
  shows "fst (commit_group crc io p) = Inl (Error Io)"
    and "abs_pager (snd (commit_group crc io p)) =
      \<lparr>st_durable = durable_view p, st_current = durable_view p, st_active = False, st_saved = None\<rparr>"
    and "pager_inv crc (snd (commit_group crc io p))"
proof -
  have len: "wal_len (pg_wal p) = length (wal_file (pg_wal p))"
    using inv by (simp add: pager_inv_def wal_inv_def)
  let ?p = "release_savepoint p"
  have e: "commit_group crc io p = (Inl (Error Io), snd (abort_group ?p))"
    using append_group_fails [OF pending_group_ok [OF inv g n] len, of crc k True] pend
    by (simp add: commit_group_def g io Let_def release_savepoint_def)
  have p: "pager_inv crc ?p" "active_group ?p = Some gid" "durable_view ?p = durable_view p"
    using release_savepoint_inv [OF inv] g by (simp_all add: release_savepoint_def view_defs)
  from abort_group_inv(1,5) [OF p(1,2)] show "pager_inv crc (snd (commit_group crc io p))"
    and "abs_pager (snd (commit_group crc io p)) =
      \<lparr>st_durable = durable_view p, st_current = durable_view p, st_active = False, st_saved = None\<rparr>"
    by (simp_all add: e p(3))
  show "fst (commit_group crc io p) = Inl (Error Io)" by (simp add: e)
qed

section \<open>Crashes\<close>

text \<open>
  What a crash leaves is the data file and the log. \<open>reopens_as crc f wal v\<close>: opening the
  database on them succeeds, in a state that meets the invariant and shows exactly the pages \<open>v\<close>.
\<close>

definition reopens_as :: "(bytes \<Rightarrow> 32 word) \<Rightarrow> bytes \<Rightarrow> bytes \<Rightarrow> (nat \<Rightarrow> bytes option) \<Rightarrow> bool" where
  "reopens_as crc f wal v \<longleftrightarrow>
     (\<exists>q. pager_new crc io_ok f wal = Inr q \<and> pager_inv crc q \<and> active_group q = None \<and> page_view q = v)"

lemma reopens_groups:
  assumes "recovered_groups crc wal = Inr gs" and "list_all group_ok gs"
    and "v = layered (\<lambda>_. None) (apply_writes (concat (map cg_writes gs)) fmempty) f n"
    and "view_ok v n" and "length f \<le> n * page_size"
  shows "reopens_as crc f wal v"
  using recovery [OF assms(1,2) _ assms(5)] assms(3,4) unfolding reopens_as_def by metis

lemma reopens_durable:
  assumes inv: "pager_inv crc p"
  shows "reopens_as crc (pg_file p) (wal_file (pg_wal p)) (durable_view p)"
proof -
  obtain gs where gs: "list_all group_ok gs" "wal_file (pg_wal p) = encode_groups crc gs"
    "committed p = apply_writes (concat (map cg_writes gs)) fmempty"
    by (rule wal_inv_groups [OF inv])
  have "recovered_groups crc (wal_file (pg_wal p)) = Inr gs"
    using recovered_groups_all [OF gs(1)] gs(2) by simp
  then show ?thesis
    by (rule reopens_groups [OF _ gs(1), where n = "base_pages p"])
      (use inv gs(3) in \<open>simp_all add: pager_inv_def durable_view_def\<close>)
qed

lemma reopens_torn_commit:
  assumes inv: "pager_inv crc p" and g: "active_group p = Some gid" and n: "num_pages p \<le> 2 ^ 64"
  shows "reopens_as crc (pg_file p)
     (wal_file (pg_wal p) @ take k (encode_group crc (pending_group gid p)))
     (if k < length (encode_group crc (pending_group gid p)) then durable_view p else page_view p)"
proof (cases "k < length (encode_group crc (pending_group gid p))")
  case True
  obtain gs where gs: "list_all group_ok gs" "wal_file (pg_wal p) = encode_groups crc gs"
    "committed p = apply_writes (concat (map cg_writes gs)) fmempty"
    by (rule wal_inv_groups [OF inv])
  have "recovered_groups crc (wal_file (pg_wal p) @ take k (encode_group crc (pending_group gid p))) = Inr gs"
    using recovered_groups_torn [OF gs(1) pending_group_ok [OF inv g n] True] gs(2) by simp
  then have "reopens_as crc (pg_file p)
      (wal_file (pg_wal p) @ take k (encode_group crc (pending_group gid p))) (durable_view p)"
    by (rule reopens_groups [OF _ gs(1), where n = "base_pages p"])
      (use inv gs(3) in \<open>simp_all add: pager_inv_def durable_view_def\<close>)
  with True show ?thesis by simp
next
  case False
  from reopens_durable [OF promoted_inv [OF inv g n]] False show ?thesis
    by (simp add: promoted_views) (simp add: promoted_def)
qed

lemma reopens_checkpoint:
  assumes inv: "pager_inv crc p" and a: "active_group p = None"
  shows "reopens_as crc (pg_file (snd (checkpoint io p))) (wal_file (pg_wal (snd (checkpoint io p)))) (page_view p)"
proof (cases "io_truncate io = TruncateSyncFails")
  case False
  let ?q = "snd (checkpoint io p)"
  from checkpoint_inv(4,5) [OF inv a] False have q: "pager_inv crc ?q" "active_group ?q = None" by auto
  then have "durable_view ?q = page_view ?q"
    by (simp add: pager_inv_def group_inv_def view_defs)
  with reopens_durable [OF q(1)] checkpoint_inv(1) [OF inv a] show ?thesis by simp
next
  case True
  have ok: "view_ok (page_view p) (num_pages p)" using inv by (simp add: pager_inv_def)
  have rec: "recovered_groups crc [] = Inr []"
    using recovered_groups_all [of "[]" crc] by (simp add: encode_groups_def)
  show ?thesis
  proof (rule checkpoint_cases [OF inv a, of io], goal_cases kept folded stale)
    case (kept r f)
    from reopens_durable [OF refiled_inv(1) [OF inv a kept(2,3)]] refiled_inv(3) [OF inv a kept(2,3)]
    show ?case by (simp add: kept(1))
  next
    case (folded f)
    from reopens_groups [OF rec, of "page_view p" f "num_pages p"] ok folded show ?case by simp
  next
    case (stale f)
    from reopens_groups [OF rec, of "page_view p" f "num_pages p"] ok stale show ?case by simp
  qed
qed

end
