(* ===== verification/PagerSpec.thy ===== *)
theory PagerSpec
  imports PagerCrash
begin

text \<open>
  The contract of the pager. The specification is an array of pages with groups and one savepoint;
  every sequence of calls on the pager answers as the specification does. The interface the B+tree
  relies on is the locale \<open>page_io\<close>, interpreted here on the pager inside a write group.
\<close>

section \<open>The specification\<close>

record page_array =
  ar_durable :: "bytes list"
  ar_current :: "bytes list"
  ar_active :: bool
  ar_saved :: "bytes list option"

datatype call =
  CRead nat | CWrite nat bytes | CAllocate | CBegin | CCommit | CAbort
  | CSavepoint | CRelease | CRollback | CCheckpoint | CFlush

datatype reply = Done | GotPage bytes | NewPage nat | Failed fault

definition array_write :: "nat \<Rightarrow> bytes \<Rightarrow> bytes list \<Rightarrow> bytes list" where
  "array_write pid x xs = (if pid < length xs then xs[pid := x] else xs @ [x])"

definition array_put :: "nat \<Rightarrow> bytes \<Rightarrow> page_array \<Rightarrow> page_array" where
  "array_put pid x a =
     (let xs = array_write pid x (ar_current a) in
      if ar_active a then a\<lparr>ar_current := xs\<rparr> else a\<lparr>ar_current := xs, ar_durable := xs\<rparr>)"

fun spec_call :: "call \<Rightarrow> page_array \<Rightarrow> reply \<times> page_array" where
  "spec_call (CRead pid) a =
     (if pid < length (ar_current a) then GotPage (ar_current a ! pid) else Failed (Error NotFound), a)"
| "spec_call (CWrite pid x) a = (Done, array_put pid x a)"
| "spec_call CAllocate a = (NewPage (length (ar_current a)), array_put (length (ar_current a)) page_new a)"
| "spec_call CBegin a =
     (if ar_active a then (Failed (Error TransactionError), a) else (Done, a\<lparr>ar_active := True\<rparr>))"
| "spec_call CCommit a =
     (if ar_active a then (Done, a\<lparr>ar_durable := ar_current a, ar_active := False, ar_saved := None\<rparr>)
      else (Failed (Error TransactionError), a))"
| "spec_call CAbort a =
     (if ar_active a then (Done, a\<lparr>ar_current := ar_durable a, ar_active := False, ar_saved := None\<rparr>)
      else (Failed (Error TransactionError), a))"
| "spec_call CSavepoint a =
     (if ar_active a \<and> ar_saved a = None then (Done, a\<lparr>ar_saved := Some (ar_current a)\<rparr>)
      else (Failed (Error TransactionError), a))"
| "spec_call CRelease a = (Done, a\<lparr>ar_saved := None\<rparr>)"
| "spec_call CRollback a =
     (case ar_saved a of
        None \<Rightarrow> (Failed (Error TransactionError), a)
      | Some xs \<Rightarrow> (Done, a\<lparr>ar_current := xs, ar_saved := None\<rparr>))"
| "spec_call CCheckpoint a = (Done, a)"
| "spec_call CFlush a = (Done, a\<lparr>ar_current := ar_durable a, ar_active := False, ar_saved := None\<rparr>)"

section \<open>Calls on the pager\<close>

definition as_reply :: "('a \<Rightarrow> reply) \<Rightarrow> 'a result \<times> pager \<Rightarrow> reply \<times> pager" where
  "as_reply f r = (case r of (Inl e, p) \<Rightarrow> (Failed e, p) | (Inr x, p) \<Rightarrow> (f x, p))"

fun pager_call ::
    "(bytes \<Rightarrow> 32 word) \<Rightarrow> ((nat, bytes) fmap \<Rightarrow> nat option) \<Rightarrow> call \<Rightarrow> pager \<Rightarrow> reply \<times> pager" where
  "pager_call crc pick (CRead pid) p = as_reply GotPage (read_page pick pid p)"
| "pager_call crc pick (CWrite pid x) p = as_reply (\<lambda>_. Done) (write_page crc pick io_ok pid x p)"
| "pager_call crc pick CAllocate p = as_reply NewPage (allocate_page crc pick io_ok p)"
| "pager_call crc pick CBegin p = as_reply (\<lambda>_. Done) (begin_group p)"
| "pager_call crc pick CCommit p = as_reply (\<lambda>_. Done) (commit_group crc io_ok p)"
| "pager_call crc pick CAbort p = as_reply (\<lambda>_. Done) (abort_group p)"
| "pager_call crc pick CSavepoint p = as_reply (\<lambda>_. Done) (begin_savepoint p)"
| "pager_call crc pick CRelease p = (Done, release_savepoint p)"
| "pager_call crc pick CRollback p = as_reply (\<lambda>_. Done) (rollback_to_savepoint p)"
| "pager_call crc pick CCheckpoint p = as_reply (\<lambda>_. Done) (checkpoint io_ok p)"
| "pager_call crc pick CFlush p = as_reply (\<lambda>_. Done) (flush io_ok p)"

text \<open>
  What the callers respect: pages are 4096 bytes (the type of \<open>Page::data\<close>), a write never skips
  past the end of the file, and a checkpoint is not requested inside a group.
\<close>

fun call_ok :: "call \<Rightarrow> page_array \<Rightarrow> bool" where
  "call_ok (CWrite pid x) a \<longleftrightarrow> pid \<le> length (ar_current a) \<and> length x = page_size"
| "call_ok CCheckpoint a \<longleftrightarrow> \<not> ar_active a"
| "call_ok _ a \<longleftrightarrow> True"

section \<open>The abstraction function\<close>

definition pages_of :: "(nat \<Rightarrow> bytes option) \<Rightarrow> bytes list" where
  "pages_of v = map (\<lambda>i. the (v i)) [0..<(LEAST n. v n = None)]"

definition array_of :: "page_store \<Rightarrow> page_array" where
  "array_of s = \<lparr>ar_durable = pages_of (st_durable s), ar_current = pages_of (st_current s),
     ar_active = st_active s, ar_saved = map_option pages_of (st_saved s)\<rparr>"

abbreviation abs_array :: "pager \<Rightarrow> page_array" where
  "abs_array p \<equiv> array_of (abs_pager p)"

lemma pages_of_ok:
  assumes "view_ok v n"
  shows "pages_of v = map (\<lambda>i. the (v i)) [0..<n]" and "length (pages_of v) = n"
    and "v i = (if i < n then Some (pages_of v ! i) else None)"
proof -
  have "(LEAST k. v k = None) = n"
    using assms unfolding view_ok_def
    by (intro Least_equality) (metis less_irrefl, metis not_le_imp_less)
  then show e: "pages_of v = map (\<lambda>i. the (v i)) [0..<n]" by (simp add: pages_of_def)
  then show "length (pages_of v) = n" by simp
  show "v i = (if i < n then Some (pages_of v ! i) else None)"
    using view_okD(3,4) [OF assms, of i] by (auto simp: e)
qed

lemma pages_of_upd:
  assumes "view_ok v n" and "length x = page_size" and "pid \<le> n"
  shows "pages_of (v(pid \<mapsto> x)) = array_write pid x (pages_of v)"
proof -
  let ?m = "if n \<le> pid then pid + 1 else n"
  have w: "view_ok (v(pid \<mapsto> x)) ?m" by (rule view_ok_upd [OF assms])
  show ?thesis
    unfolding pages_of_ok(1) [OF w] pages_of_ok(1) [OF assms(1)] array_write_def
    using assms(3) by (auto simp: list_eq_iff_nth_eq nth_list_update nth_append)
qed

lemma inv_current:
  assumes "pager_inv crc p"
  shows "length (ar_current (abs_array p)) = num_pages p"
    and "page_view p i = (if i < num_pages p then Some (ar_current (abs_array p) ! i) else None)"
  using pages_of_ok(2,3) [of "page_view p" "num_pages p"] assms
  by (simp_all add: pager_inv_def array_of_def abs_pager_def)

lemma array_of_fields [simp]:
  "ar_active (abs_array p) = in_group p"
  "ar_saved (abs_array p) = map_option (\<lambda>sp. pages_of (saved_view sp p)) (pg_savepoint p)"
  by (simp_all add: array_of_def abs_pager_def option.map_comp comp_def)

section \<open>Autocommitted writes\<close>

lemma buffer_page_abs:
  assumes inv: "pager_inv crc p" and g: "active_group p = Some g" and pid: "pid \<le> num_pages p"
  shows "abs_pager (buffer_page pick pid x p) = (abs_pager p)\<lparr>st_current := (page_view p)(pid \<mapsto> x)\<rparr>"
proof (cases "pg_savepoint p")
  case None
  then show ?thesis
    by (simp add: abs_pager_def buffer_page_views [OF g pid] buffer_page_no_savepoint in_group_def
        buffer_page_fields(3))
next
  case (Some sp)
  obtain sp' where sp': "pg_savepoint (buffer_page pick pid x p) = Some sp'"
    "saved_view sp' (buffer_page pick pid x p) = saved_view sp p"
    by (rule buffer_page_saved [OF Some])
  with Some show ?thesis
    by (simp add: abs_pager_def buffer_page_views [OF g pid] in_group_def buffer_page_fields(3))
qed

lemma write_page_in_group:
  "active_group p = Some g \<Longrightarrow> write_page crc pick io pid x p = (Inr (), buffer_page pick pid x p)"
  by (simp add: write_page_def)

lemma write_page_auto:
  fixes pick
  assumes inv: "pager_inv crc p" and a: "active_group p = None" and pid: "pid \<le> num_pages p"
    and x: "length x = page_size" and n: "num_pages p < 2 ^ 64"
  defines "r \<equiv> write_page crc pick io_ok pid x p"
  shows "fst r = Inr ()" and "pager_inv crc (snd r)"
    and "abs_pager (snd r) = \<lparr>st_durable = (page_view p)(pid \<mapsto> x), st_current = (page_view p)(pid \<mapsto> x),
      st_active = False, st_saved = None\<rparr>"
proof -
  let ?b = "snd (begin_group p)"
  let ?q = "buffer_page pick pid x ?b"
  note b = begin_group_inv [OF inv a]
  have pid': "pid \<le> num_pages ?b" using pid b(4) by simp
  have q: "pager_inv crc ?q" "active_group ?q = Some (next_group_id (pg_wal p))" "num_pages ?q \<le> 2 ^ 64"
    using buffer_page_inv [OF b(1,3) pid' x] b(3,4) pid n by (simp_all add: buffer_page_fields)
  have pv: "page_view ?q = (page_view p)(pid \<mapsto> x)"
    using buffer_page_views(1) [OF b(3) pid'] b(5) by (simp add: abs_pager_def)
  have "begin_group p = (Inr (next_group_id (pg_wal p)), ?b)" using b(2) by (cases "begin_group p") simp
  then have r: "r = commit_group crc io_ok ?q"
    unfolding r_def using a by (cases "begin_group p") (simp add: write_page_def mbind_def)
  have io: "io_append io_ok = WriteOk" "io_truncate io_ok \<noteq> TruncateSyncFails" by (simp_all add: io_ok_def)
  from commit_group_ok [OF q io(1)] io(2) pv
  show "fst r = Inr ()" "pager_inv crc (snd r)"
    "abs_pager (snd r) = \<lparr>st_durable = (page_view p)(pid \<mapsto> x), st_current = (page_view p)(pid \<mapsto> x),
      st_active = False, st_saved = None\<rparr>"
    by (simp_all add: r)
qed

lemma write_page_call:
  assumes inv: "pager_inv crc p" and pid: "pid \<le> num_pages p"
    and x: "length x = page_size" and n: "num_pages p < 2 ^ 64"
  shows "fst (write_page crc pick io_ok pid x p) = Inr ()"
    and "pager_inv crc (snd (write_page crc pick io_ok pid x p))"
    and "abs_array (snd (write_page crc pick io_ok pid x p)) = array_put pid x (abs_array p)"
proof -
  have v: "view_ok (page_view p) (num_pages p)" using inv by (simp add: pager_inv_def)
  note up = pages_of_upd [OF v x pid]
  have "fst (write_page crc pick io_ok pid x p) = Inr ()
    \<and> pager_inv crc (snd (write_page crc pick io_ok pid x p))
    \<and> abs_array (snd (write_page crc pick io_ok pid x p)) = array_put pid x (abs_array p)"
  proof (cases "active_group p")
    case None
    moreover have "pg_savepoint p = None" using inv None by (simp add: pager_inv_def group_inv_def)
    ultimately show ?thesis
      using write_page_auto [OF inv None pid x n, of pick] up
      by (simp add: array_of_def array_put_def abs_pager_def in_group_def Let_def)
  next
    case (Some g)
    from buffer_page_inv [OF inv Some pid x] buffer_page_abs [OF inv Some pid] up show ?thesis
      by (simp add: write_page_in_group [OF Some] array_of_def array_put_def Let_def)
        (simp add: abs_pager_def in_group_def Some)
  qed
  then show "fst (write_page crc pick io_ok pid x p) = Inr ()"
    "pager_inv crc (snd (write_page crc pick io_ok pid x p))"
    "abs_array (snd (write_page crc pick io_ok pid x p)) = array_put pid x (abs_array p)" by auto
qed

lemma length_array_put_le: "length (ar_current (array_put pid x a)) \<le> Suc (length (ar_current a))"
  by (simp add: array_put_def array_write_def Let_def)

lemma length_page_new [simp]: "length page_new = page_size"
  by (simp add: page_new_def)

section \<open>Refinement, call by call\<close>

lemma as_reply_eq:
  "as_reply f r = ((case fst r of Inl e \<Rightarrow> Failed e | Inr x \<Rightarrow> f x), snd r)"
  by (cases r) (simp add: as_reply_def split: sum.split)

lemma checkpoint_ok:
  assumes inv: "pager_inv crc p"
  shows "fst (checkpoint io_ok p) = Inr ()"
proof -
  let ?r = "write_pages_raw (io_raw io_ok) 0 (sorted_pages (committed p)) (p\<lparr>committed := fmempty\<rparr>)"
  have "list_all (\<lambda>(pid, data). length data = page_size) (sorted_pages (committed p))"
    using committed_bound(2) [OF inv] by (rule sorted_pages_lengths)
  then have "fst ?r = Inr ()" by (rule write_pages_raw_succeeds) (simp add: io_ok_def)
  then obtain q where "?r = (Inr (), q)" by (cases ?r) simp
  then show ?thesis by (simp add: checkpoint_def Let_def) (simp add: io_ok_def wal_truncate_def)
qed

lemma io_ok_fields [simp]:
  "io_append io_ok = WriteOk" "io_sync_all io_ok" "io_truncate io_ok \<noteq> TruncateSyncFails"
  by (simp_all add: io_ok_def)

lemma flush_call:
  assumes inv: "pager_inv crc p"
  shows "fst (flush io_ok p) = Inr ()" and "pager_inv crc (snd (flush io_ok p))"
    and "abs_pager (snd (flush io_ok p)) =
      \<lparr>st_durable = durable_view p, st_current = durable_view p, st_active = False, st_saved = None\<rparr>"
proof -
  let ?q = "if active_group p = None then p else snd (abort_group p)"
  have q: "pager_inv crc ?q \<and> active_group ?q = None \<and> abs_pager ?q =
      \<lparr>st_durable = durable_view p, st_current = durable_view p, st_active = False, st_saved = None\<rparr>"
  proof (cases "active_group p")
    case None
    with inv show ?thesis by (auto simp: abs_pager_def in_group_def pager_inv_def group_inv_def view_defs)
  next
    case (Some g)
    from abort_group_inv [OF inv Some] Some show ?thesis by simp
  qed
  then have c: "checkpoint io_ok ?q = (Inr (), snd (checkpoint io_ok ?q))"
    using checkpoint_ok [of crc ?q] by (cases "checkpoint io_ok ?q") simp
  have f: "flush io_ok p = (Inr (), snd (checkpoint io_ok ?q))"
    unfolding flush_def Let_def mbind_def by (subst c) (simp add: mret_def)
  from q checkpoint_inv(2,5) [of crc ?q io_ok]
  show "fst (flush io_ok p) = Inr ()" "pager_inv crc (snd (flush io_ok p))"
    "abs_pager (snd (flush io_ok p)) =
      \<lparr>st_durable = durable_view p, st_current = durable_view p, st_active = False, st_saved = None\<rparr>"
    by (simp_all add: f)
qed

lemma allocate_page_eq:
  assumes "fst (write_page crc pick io_ok (num_pages p) page_new p) = Inr ()"
  shows "allocate_page crc pick io_ok p =
     (Inr (num_pages p), snd (write_page crc pick io_ok (num_pages p) page_new p))"
  using assms by (cases "write_page crc pick io_ok (num_pages p) page_new p")
    (simp add: allocate_page_def mbind_def mret_def)

lemma pager_call_refines:
  assumes inv: "pager_inv crc p" and ok: "call_ok c (abs_array p)" and n: "num_pages p < 2 ^ 64"
  shows "pager_inv crc (snd (pager_call crc pick c p))"
    and "spec_call c (abs_array p) =
      (fst (pager_call crc pick c p), abs_array (snd (pager_call crc pick c p)))"
proof -
  have len: "length (ar_current (abs_array p)) = num_pages p" by (rule inv_current(1) [OF inv])
  have cur: "ar_current (abs_array p) = pages_of (page_view p)"
    "ar_durable (abs_array p) = pages_of (durable_view p)"
    by (simp_all add: array_of_def abs_pager_def)
  have none: "pending p = fmempty" "pg_savepoint p = None" if "active_group p = None"
    using inv that by (simp_all add: pager_inv_def group_inv_def)
  have "pager_inv crc (snd (pager_call crc pick c p)) \<and>
    spec_call c (abs_array p) = (fst (pager_call crc pick c p), abs_array (snd (pager_call crc pick c p)))"
  proof (cases c)
    case (CRead pid)
    with read_page_inv(1,2) [OF inv, of pick pid] read_page_result [OF inv, of pick pid]
      len inv_current(2) [OF inv, of pid]
    show ?thesis by (simp add: as_reply_eq)
  next
    case (CWrite pid x)
    then have "pid \<le> num_pages p" "length x = page_size" using ok len by simp_all
    from write_page_call [OF inv this n, of pick] CWrite show ?thesis by (simp add: as_reply_eq)
  next
    case CAllocate
    from write_page_call [OF inv order_refl length_page_new n, of pick] CAllocate len show ?thesis
      by (simp add: as_reply_eq allocate_page_eq)
  next
    case CBegin
    show ?thesis
    proof (cases "active_group p")
      case None
      from begin_group_inv [OF inv None] CBegin None show ?thesis
        by (simp add: as_reply_eq in_group_def) (simp add: array_of_def)
    qed (use CBegin inv in \<open>simp add: as_reply_eq begin_group_def in_group_def\<close>)
  next
    case CCommit
    show ?thesis
    proof (cases "active_group p")
      case (Some g)
      from commit_group_ok [OF inv Some _ io_ok_fields(1)] n CCommit Some show ?thesis
        by (simp add: as_reply_eq in_group_def) (simp add: array_of_def abs_pager_def)
    qed (use CCommit inv in \<open>simp add: as_reply_eq commit_group_def in_group_def\<close>)
  next
    case CAbort
    show ?thesis
    proof (cases "active_group p")
      case (Some g)
      from abort_group_inv [OF inv Some] CAbort Some show ?thesis
        by (simp add: as_reply_eq in_group_def) (simp add: array_of_def abs_pager_def)
    qed (use CAbort inv in \<open>simp add: as_reply_eq abort_group_def in_group_def\<close>)
  next
    case CSavepoint
    show ?thesis
    proof (cases "in_group p \<and> pg_savepoint p = None")
      case True
      then obtain g where g: "active_group p = Some g" by (auto simp: in_group_def)
      from begin_savepoint_inv [OF inv g] CSavepoint True show ?thesis
        by (simp add: as_reply_eq) (simp add: array_of_def abs_pager_def)
    next
      case False
      then have "begin_savepoint p = (Inl (Error TransactionError), p)"
        by (auto simp: begin_savepoint_def in_group_def)
      with False CSavepoint inv show ?thesis by (auto simp: as_reply_eq)
    qed
  next
    case CRelease
    with release_savepoint_inv [OF inv] show ?thesis by (simp add: array_of_def)
  next
    case CRollback
    show ?thesis
    proof (cases "pg_savepoint p")
      case (Some sp)
      from rollback_inv [OF inv Some] CRollback Some show ?thesis
        by (simp add: as_reply_eq) (simp add: array_of_def)
    qed (use CRollback inv in \<open>simp add: as_reply_eq rollback_to_savepoint_def\<close>)
  next
    case CCheckpoint
    then have "active_group p = None" using ok by (simp add: in_group_def)
    from checkpoint_inv(2,5) [OF inv this] checkpoint_ok [OF inv] CCheckpoint show ?thesis
      by (simp add: as_reply_eq)
  next
    case CFlush
    from flush_call [OF inv] CFlush show ?thesis
      by (simp add: as_reply_eq) (simp add: array_of_def abs_pager_def)
  qed
  then show "pager_inv crc (snd (pager_call crc pick c p))"
    "spec_call c (abs_array p) = (fst (pager_call crc pick c p), abs_array (snd (pager_call crc pick c p)))"
    by auto
qed

section \<open>Sequences of calls\<close>

fun spec_calls :: "call list \<Rightarrow> page_array \<Rightarrow> reply list \<times> page_array" where
  "spec_calls [] a = ([], a)"
| "spec_calls (c # cs) a =
     (let (r, b) = spec_call c a; (rs, z) = spec_calls cs b in (r # rs, z))"

fun pager_calls ::
    "(bytes \<Rightarrow> 32 word) \<Rightarrow> ((nat, bytes) fmap \<Rightarrow> nat option) \<Rightarrow> call list \<Rightarrow> pager \<Rightarrow> reply list \<times> pager" where
  "pager_calls crc pick [] p = ([], p)"
| "pager_calls crc pick (c # cs) p =
     (let (r, q) = pager_call crc pick c p; (rs, z) = pager_calls crc pick cs q in (r # rs, z))"

fun calls_ok :: "call list \<Rightarrow> page_array \<Rightarrow> bool" where
  "calls_ok [] a \<longleftrightarrow> True"
| "calls_ok (c # cs) a \<longleftrightarrow> call_ok c a \<and> calls_ok cs (snd (spec_call c a))"

definition array_size :: "page_array \<Rightarrow> nat" where
  "array_size a = Max {length (ar_current a), length (ar_durable a),
     (case ar_saved a of None \<Rightarrow> 0 | Some xs \<Rightarrow> length xs)}"

lemma spec_call_size: "array_size (snd (spec_call c a)) \<le> Suc (array_size a)"
  by (cases c) (auto simp: array_size_def array_put_def array_write_def Let_def split: option.splits)

lemma num_pages_le_size: "pager_inv crc p \<Longrightarrow> num_pages p \<le> array_size (abs_array p)"
  using inv_current(1) [of crc p] by (simp add: array_size_def)

lemma pager_calls_refine:
  assumes "pager_inv crc p" and "calls_ok cs (abs_array p)"
    and "array_size (abs_array p) + length cs \<le> 2 ^ 64"
  shows "pager_inv crc (snd (pager_calls crc pick cs p))
    \<and> spec_calls cs (abs_array p) =
      (fst (pager_calls crc pick cs p), abs_array (snd (pager_calls crc pick cs p)))"
  using assms
proof (induction cs arbitrary: p)
  case (Cons c cs)
  let ?q = "snd (pager_call crc pick c p)"
  have n: "num_pages p < 2 ^ 64" using num_pages_le_size [OF Cons.prems(1)] Cons.prems(3) by simp
  have ok: "call_ok c (abs_array p)" using Cons.prems(2) by simp
  note step = pager_call_refines [OF Cons.prems(1) ok n, of pick]
  have "array_size (abs_array ?q) \<le> Suc (array_size (abs_array p))"
    using spec_call_size [of c "abs_array p"] by (simp add: step(2))
  with Cons.IH [OF step(1)] Cons.prems(2,3) step(2) show ?case
    by (simp add: split_beta Let_def)
qed simp

section \<open>The cache stays within its capacity\<close>

text \<open>The iterator of a non-empty map yields one of its entries.\<close>

definition picks_entry :: "((nat, bytes) fmap \<Rightarrow> nat option) \<Rightarrow> bool" where
  "picks_entry pick \<longleftrightarrow> (\<forall>c. c \<noteq> fmempty \<longrightarrow> (\<exists>k. pick c = Some k \<and> k |\<in>| fmdom c))"

lemma evict_until_le: "fcard (fmdom (fst (evict_until pick keep mx cs))) \<le> fcard (fmdom (fst cs))"
proof (induction pick keep mx cs rule: evict_until.induct)
  case (1 pick keep mx c sz)
  have "fcard (fmdom (fst (evict_until pick keep mx (fmdrop k c, sz - 1)))) \<le> fcard (fmdom c)"
    if "mx \<le> fcard (fmdom c)" "pick c = Some k" "keep \<noteq> Some k" "k |\<in>| fmdom c" for k
    using 1 [OF that] fcard_drop [OF that(4)] by simp
  then show ?case
    by (subst evict_until.simps) (simp split: option.split)
qed

lemma evict_until_room:
  "picks_entry pick \<Longrightarrow> 0 < mx \<Longrightarrow> fcard (fmdom (fst (evict_until pick keep mx cs))) < mx
     \<or> (\<exists>k. keep = Some k \<and> k |\<in>| fmdom (fst (evict_until pick keep mx cs)))"
proof (induction pick keep mx cs rule: evict_until.induct)
  case (1 pick keep mx c sz)
  show ?case
  proof (cases "mx \<le> fcard (fmdom c)")
    case True
    with "1.prems" have "c \<noteq> fmempty" by (auto simp: fcard_fempty)
    with "1.prems" obtain k where k: "pick c = Some k" "k |\<in>| fmdom c" by (auto simp: picks_entry_def)
    then have "evict_until pick keep mx (c, sz) =
        (if keep = Some k then (c, sz) else evict_until pick keep mx (fmdrop k c, sz - 1))"
      using True by (subst evict_until.simps) simp
    with 1(1) [OF True k(1) _ k(2)] "1.prems" k(2) show ?thesis by simp
  next
    case False
    then show ?thesis by (subst evict_until.simps) simp
  qed
qed

lemma cache_insert_card:
  assumes "picks_entry pick" and "0 < mx" and "fcard (fmdom (fst cs)) \<le> mx"
    and "keep = None \<or> keep = Some pid"
  shows "fcard (fmdom (fst (cache_insert pid x (evict_until pick keep mx cs)))) \<le> mx"
  using evict_until_room [OF assms(1,2), of keep cs] evict_until_le [of pick keep mx cs] assms(3,4)
  by (auto simp: cache_insert_def fcard_finsert_if finsert_absorb)

definition cache_bounded :: "pager \<Rightarrow> bool" where
  "cache_bounded p \<longleftrightarrow> 0 < max_cache_size p \<and> fcard (fmdom (cache p)) \<le> max_cache_size p"

lemma set_cache_bounded:
  "0 < max_cache_size p \<Longrightarrow> fcard (fmdom (fst cs)) \<le> max_cache_size p \<Longrightarrow> cache_bounded (set_cache cs p)"
  by (simp add: cache_bounded_def)

lemma read_page_bounded:
  assumes "picks_entry pick" and "cache_bounded p"
  shows "cache_bounded (snd (read_page pick pid p))"
proof -
  have "cache_bounded (set_cache (cache_insert pid x
      (evict_until pick None (max_cache_size p) (cache p, cache_size p))) p)" for x
    using assms by (intro set_cache_bounded cache_insert_card) (simp_all add: cache_bounded_def)
  with assms(2) show ?thesis
    by (auto simp: read_page_def Let_def split: option.split)
qed

lemma buffer_page_bounded:
  assumes "picks_entry pick" and "cache_bounded p"
  shows "cache_bounded (buffer_page pick pid x p)"
  using cache_insert_card [OF assms(1), of "max_cache_size p" "(cache p, cache_size p)" "Some pid" pid x] assms(2)
  by (simp add: cache_bounded_def buffer_page_fields)

lemma drop_cache_bounded:
  assumes "cache_bounded p" and "\<And>pid. fmlookup c pid \<noteq> None \<Longrightarrow> fmlookup (cache p) pid \<noteq> None"
  shows "fcard (fmdom c) \<le> max_cache_size p"
proof -
  have "fmdom c |\<subseteq>| fmdom (cache p)" using assms(2) by (auto simp: fmlookup_dom_iff)
  from fcard_mono [OF this] assms(1) show ?thesis by (simp add: cache_bounded_def)
qed

lemma abort_group_bounded:
  assumes "cache_bounded p"
  shows "cache_bounded (snd (abort_group p))"
proof (cases "active_group p")
  case None
  with assms show ?thesis by (simp add: abort_group_def)
next
  case (Some g)
  let ?p = "p\<lparr>active_group := None, pg_savepoint := None, pending := fmempty\<rparr>"
  obtain c sz where f: "fold evict (sorted_list_of_fset (fmdom (pending p))) ?p = set_cache (c, sz) ?p"
    and c: "\<forall>pid. fmlookup c pid =
      (if pid \<in> set (sorted_list_of_fset (fmdom (pending p))) then None else fmlookup (cache ?p) pid)"
    using fold_evict [of "sorted_list_of_fset (fmdom (pending p))" ?p] by blast
  have "fcard (fmdom c) \<le> max_cache_size p"
    using c by (intro drop_cache_bounded [OF assms]) (simp split: if_splits)
  with assms show ?thesis by (simp add: abort_group_def Some Let_def f cache_bounded_def)
qed

lemma rollback_bounded:
  assumes "cache_bounded p"
  shows "cache_bounded (snd (rollback_to_savepoint p))"
proof (cases "pg_savepoint p")
  case None
  with assms show ?thesis by (simp add: rollback_to_savepoint_def)
next
  case (Some sp)
  let ?p = "p\<lparr>pg_savepoint := None\<rparr>" and ?l = "sorted_list_of_fset (fmdom (sp_undo sp))"
  obtain m c sz where f: "fold (undo_page sp) ?l ?p = set_cache (c, sz) (?p\<lparr>pending := m\<rparr>)"
    and c: "\<forall>pid. fmlookup c pid = (if pid \<in> set ?l then None else fmlookup (cache ?p) pid)"
    using fold_undo_page [of sp ?l ?p] by blast
  have "fcard (fmdom c) \<le> max_cache_size p"
    using c by (intro drop_cache_bounded [OF assms]) (simp split: if_splits)
  with assms show ?thesis by (simp add: rollback_to_savepoint_def Some Let_def f cache_bounded_def)
qed

lemma checkpoint_bounded: "cache_bounded p \<Longrightarrow> cache_bounded (snd (checkpoint io p))"
proof -
  assume b: "cache_bounded p"
  let ?r = "write_pages_raw (io_raw io) 0 (sorted_pages (committed p)) (p\<lparr>committed := fmempty\<rparr>)"
  obtain f n where "snd ?r = p\<lparr>committed := fmempty, pg_file := f, num_pages := n\<rparr>"
    using write_pages_raw_frame [of "io_raw io" 0 "sorted_pages (committed p)" "p\<lparr>committed := fmempty\<rparr>"] by blast
  with b show ?thesis
    by (cases ?r) (auto simp: checkpoint_def cache_bounded_def Let_def wal_truncate_def split: sum.split
        truncate_outcome.split)
qed

lemma commit_group_bounded:
  assumes "cache_bounded p"
  shows "cache_bounded (snd (commit_group crc io p))"
proof -
  have fields: "cache_bounded (p\<lparr>pg_savepoint := None, pg_wal := w\<rparr>)" for w
    using assms by (simp add: cache_bounded_def)
  have fin: "cache_bounded (p\<lparr>pg_savepoint := None, pg_wal := w, active_group := None, pending := fmempty,
      committed := m\<rparr>)" for w m
    using assms by (simp add: cache_bounded_def)
  show ?thesis
    using abort_group_bounded [OF fields] checkpoint_bounded [OF fin] fin assms
    by (auto simp: commit_group_def Let_def cache_bounded_def [of "p\<lparr>pg_savepoint := None, active_group := None\<rparr>"]
        cache_bounded_def [of p] split: option.split prod.split sum.split)
qed

lemma begin_group_bounded: "cache_bounded p \<Longrightarrow> cache_bounded (snd (begin_group p))"
  by (simp add: begin_group_def allocate_group_id_def cache_bounded_def split: option.split)

lemma write_page_bounded:
  assumes "picks_entry pick" and "cache_bounded p"
  shows "cache_bounded (snd (write_page crc pick io pid x p))"
  using commit_group_bounded [OF buffer_page_bounded [OF assms(1) begin_group_bounded [OF assms(2)]]]
    begin_group_bounded [OF assms(2)] buffer_page_bounded [OF assms]
  by (auto simp: write_page_def mbind_def split: prod.split sum.split)

lemma savepoint_bounded:
  "cache_bounded p \<Longrightarrow> cache_bounded (snd (begin_savepoint p))"
  "cache_bounded p \<Longrightarrow> cache_bounded (release_savepoint p)"
  by (simp_all add: cache_bounded_def begin_savepoint_def release_savepoint_def)

lemma pager_call_bounded:
  assumes "picks_entry pick" and "cache_bounded p"
  shows "cache_bounded (snd (pager_call crc pick c p))"
proof (cases c)
  case CAllocate
  with write_page_bounded [OF assms, of crc io_ok "num_pages p" page_new] show ?thesis
    by (auto simp: as_reply_eq allocate_page_def mbind_def mret_def split: prod.split sum.split)
next
  case CFlush
  have "cache_bounded (if active_group p = None then p else snd (abort_group p))"
    using assms(2) abort_group_bounded by simp
  from checkpoint_bounded [OF this, of io_ok] CFlush show ?thesis
    by (auto simp: as_reply_eq flush_def Let_def mbind_def mret_def mfail_def split: prod.split sum.split)
qed (use assms in \<open>simp_all add: as_reply_eq read_page_bounded write_page_bounded begin_group_bounded
      commit_group_bounded abort_group_bounded rollback_bounded checkpoint_bounded
      savepoint_bounded\<close>)

end
