(* ===== verification/PagerTheorems.thy ===== *)
theory PagerTheorems
  imports PagerSpec
begin

text \<open>
  The properties of the storage layer: crash atomicity of a commit, crash safety of a checkpoint,
  durability of a reported commit, refinement of the page-array specification, the statement
  savepoint, the capacity of the cache, and two failure sequences in which the code does not do
  what its comments promise.
\<close>

section \<open>A concrete pager\<close>

text \<open>A new database with one group open and one zero page written; the states of the witnesses.\<close>

definition sample_crc :: "bytes \<Rightarrow> 32 word" where
  "sample_crc bs = of_nat (length bs)"

definition sample_open :: pager where
  "sample_open = snd (begin_group (pager_blank [] []))"

definition sample_written :: pager where
  "sample_written = buffer_page (\<lambda>_. None) 0 page_new sample_open"

lemma blank_inv: "pager_inv crc (pager_blank [] [])"
  by (rule clean_pager_inv)
    (simp_all add: pager_blank_def Let_def wal_open_def page_size_def view_ok_def layered_def)

lemma sample_open_facts:
  "pager_inv crc sample_open" "active_group sample_open = Some 1" "num_pages sample_open = 0"
  "pg_savepoint sample_open = None"
proof -
  have a: "active_group (pager_blank [] []) = None" by (simp add: pager_blank_def Let_def)
  from begin_group_inv [OF blank_inv [of crc] a]
  show "pager_inv crc sample_open" "active_group sample_open = Some 1" "num_pages sample_open = 0"
    by (simp_all add: sample_open_def pager_blank_def Let_def wal_open_def page_size_def)
  show "pg_savepoint sample_open = None"
    by (simp add: sample_open_def begin_group_def allocate_group_id_def pager_blank_def Let_def)
qed

lemma sample_written_facts:
  "pager_inv crc sample_written" "active_group sample_written = Some 1" "num_pages sample_written = 1"
  "pending sample_written \<noteq> fmempty"
proof -
  show "pager_inv crc sample_written"
    unfolding sample_written_def
    by (rule buffer_page_inv [OF sample_open_facts(1,2)]) (simp_all add: sample_open_facts(3))
  have "fmlookup (pending sample_written) 0 = Some page_new"
    by (simp add: sample_written_def buffer_page_fields)
  then show "pending sample_written \<noteq> fmempty" by auto
qed (simp_all add: sample_written_def buffer_page_fields sample_open_facts)

section \<open>Crash safety\<close>

text \<open>
  C17: Commit is atomic under a crash. If the process dies after any number \<open>k\<close> of bytes of the
  group's log append reached the file, reopening the database succeeds and shows exactly the pages
  before the group while the append is incomplete, and exactly the pages after it once complete.
\<close>

theorem commit_crash_atomic:
  assumes "pager_inv crc p" and "active_group p = Some gid" and "num_pages p \<le> 2 ^ 64"
  shows "reopens_as crc (pg_file p)
     (wal_file (snd (append_group crc (WriteFails k False) gid (sorted_pages (pending p)) (pg_wal p))))
     (if k < length (encode_group crc (pending_group gid p)) then durable_view p else page_view p)"
proof -
  have len: "wal_len (pg_wal p) = length (wal_file (pg_wal p))"
    using assms(1) by (simp add: pager_inv_def wal_inv_def)
  from append_group_fails [OF pending_group_ok [OF assms] len, of crc k False]
    reopens_torn_commit [OF assms, of k]
  show ?thesis by simp
qed

theorem commit_crash_atomic_witness:
  "reopens_as sample_crc (pg_file sample_written)
     (wal_file (snd (append_group sample_crc (WriteFails 100 False) 1
        (sorted_pages (pending sample_written)) (pg_wal sample_written))))
     (if 100 < length (encode_group sample_crc (pending_group 1 sample_written))
      then durable_view sample_written else page_view sample_written)"
  by (rule commit_crash_atomic) (simp_all add: sample_written_facts)

text \<open>
  C18: A checkpoint never loses a committed page. Whatever page write, sync or truncation of it
  fails, and after however many bytes, reopening the database on the files it left shows exactly
  the pages before the checkpoint.
\<close>

theorem checkpoint_crash_safe:
  assumes "pager_inv crc p" and "active_group p = None"
  shows "reopens_as crc (pg_file (snd (checkpoint io p))) (wal_file (pg_wal (snd (checkpoint io p)))) (page_view p)"
  by (rule reopens_checkpoint [OF assms])

theorem checkpoint_crash_safe_witness:
  "reopens_as sample_crc
     (pg_file (snd (checkpoint (io_ok\<lparr>io_raw := \<lambda>_. Some 7\<rparr>) (promoted sample_crc 1 sample_written))))
     (wal_file (pg_wal (snd (checkpoint (io_ok\<lparr>io_raw := \<lambda>_. Some 7\<rparr>) (promoted sample_crc 1 sample_written)))))
     (page_view (promoted sample_crc 1 sample_written))"
  by (rule checkpoint_crash_safe)
    (rule promoted_inv, simp_all add: sample_written_facts promoted_views)

lemma commit_reopens:
  assumes "pager_inv crc p" and "active_group p = Some gid" and "num_pages p \<le> 2 ^ 64"
    and "io_append io = WriteOk"
  shows "fst (commit_group crc io p) = Inr ()
    \<and> reopens_as crc (pg_file (snd (commit_group crc io p))) (wal_file (pg_wal (snd (commit_group crc io p))))
        (page_view p)"
proof (cases "pending p = fmempty")
  case True
  note e = commit_group_empty [OF assms(1,2) True] and q = empty_group_inv [OF assms(1,2) True]
  from reopens_durable [OF q(1)] q(3) show ?thesis by (simp add: e)
next
  case False
  let ?q = "promoted crc gid p"
  have inv: "pager_inv crc ?q" and a: "active_group ?q = None"
    using promoted_inv [OF assms(1-3)] by (simp_all add: promoted_views)
  from reopens_checkpoint [OF inv a, of io] reopens_durable [OF inv] show ?thesis
    by (simp add: commit_group_append [OF assms(1-3) False assms(4)] promoted_views)
qed

text \<open>
  A reported commit is durable. When the log append of a commit succeeds, the commit reports
  success and, whatever the checkpoint that may follow inside it does, reopening the database
  afterwards shows exactly the pages the group had written.
\<close>

theorem commit_durable:
  assumes "pager_inv crc p" and "active_group p = Some gid" and "num_pages p \<le> 2 ^ 64"
    and "io_append io = WriteOk"
  shows "fst (commit_group crc io p) = Inr ()
    \<and> reopens_as crc (pg_file (snd (commit_group crc io p))) (wal_file (pg_wal (snd (commit_group crc io p))))
        (page_view p)"
  by (rule commit_reopens [OF assms])

theorem commit_durable_witness:
  "fst (commit_group sample_crc io_ok sample_written) = Inr ()
    \<and> reopens_as sample_crc (pg_file (snd (commit_group sample_crc io_ok sample_written)))
        (wal_file (pg_wal (snd (commit_group sample_crc io_ok sample_written)))) (page_view sample_written)"
  by (rule commit_durable) (simp_all add: sample_written_facts)

text \<open>
  A failed commit leaves nothing behind. When the append fails after any number of bytes and
  the log is cut back, the commit returns the I/O error, the group is closed, and both the pages
  in memory and the pages after a reopening are those before the group.
\<close>

theorem failed_commit_rolls_back:
  assumes "pager_inv crc p" and "active_group p = Some gid" and "num_pages p \<le> 2 ^ 64"
    and "pending p \<noteq> fmempty" and "io_append io = WriteFails k True"
  shows "fst (commit_group crc io p) = Inl (Error Io)
    \<and> \<not> in_group (snd (commit_group crc io p))
    \<and> page_view (snd (commit_group crc io p)) = durable_view p
    \<and> reopens_as crc (pg_file (snd (commit_group crc io p))) (wal_file (pg_wal (snd (commit_group crc io p))))
        (durable_view p)"
proof -
  note f = commit_group_failed [OF assms]
  from f(2) have v: "page_view (snd (commit_group crc io p)) = durable_view p"
    "durable_view (snd (commit_group crc io p)) = durable_view p" "\<not> in_group (snd (commit_group crc io p))"
    by (simp_all add: abs_pager_def)
  from f(1) v reopens_durable [OF f(3)] show ?thesis by simp
qed

theorem failed_commit_rolls_back_witness:
  "fst (commit_group sample_crc (io_ok\<lparr>io_append := WriteFails 50 True\<rparr>) sample_written) = Inl (Error Io)
    \<and> \<not> in_group (snd (commit_group sample_crc (io_ok\<lparr>io_append := WriteFails 50 True\<rparr>) sample_written))
    \<and> page_view (snd (commit_group sample_crc (io_ok\<lparr>io_append := WriteFails 50 True\<rparr>) sample_written))
        = durable_view sample_written
    \<and> reopens_as sample_crc
        (pg_file (snd (commit_group sample_crc (io_ok\<lparr>io_append := WriteFails 50 True\<rparr>) sample_written)))
        (wal_file (pg_wal (snd (commit_group sample_crc (io_ok\<lparr>io_append := WriteFails 50 True\<rparr>) sample_written))))
        (durable_view sample_written)"
  by (rule failed_commit_rolls_back [where gid = 1 and k = 50]) (simp_all add: sample_written_facts)

section \<open>Refinement\<close>

text \<open>
  C19: The pager implements its specification. Every sequence of reads, writes, allocations, group,
  savepoint, checkpoint and flush calls gives the replies of the page-array specification, errors
  included, ends in the state the specification ends in, and keeps the pager's invariant.
\<close>

theorem pager_refines_array:
  assumes "pager_inv crc p" and "calls_ok cs (abs_array p)"
    and "array_size (abs_array p) + length cs \<le> 2 ^ 64"
  shows "pager_inv crc (snd (pager_calls crc pick cs p))
    \<and> spec_calls cs (abs_array p) =
      (fst (pager_calls crc pick cs p), abs_array (snd (pager_calls crc pick cs p)))"
  by (rule pager_calls_refine [OF assms])

lemma blank_array: "abs_array (pager_blank [] []) =
    \<lparr>ar_durable = [], ar_current = [], ar_active = False, ar_saved = None\<rparr>"
  using pages_of_ok(2) [of "page_view (pager_blank [] [])" 0] pages_of_ok(2) [of "durable_view (pager_blank [] [])" 0]
  by (simp add: array_of_def abs_pager_def in_group_def view_defs pager_blank_def Let_def page_size_def
      view_ok_def layered_def)

theorem pager_refines_array_witness:
  "pager_inv sample_crc (snd (pager_calls sample_crc (\<lambda>_. None)
       [CBegin, CAllocate, CSavepoint, CAllocate, CRollback, CCommit, CRead 0, CRead 1] (pager_blank [] [])))
    \<and> fst (pager_calls sample_crc (\<lambda>_. None)
       [CBegin, CAllocate, CSavepoint, CAllocate, CRollback, CCommit, CRead 0, CRead 1] (pager_blank [] []))
     = [Done, NewPage 0, Done, NewPage 1, Done, Done, GotPage page_new, Failed (Error NotFound)]"
  using pager_refines_array [OF blank_inv, of "[CBegin, CAllocate, CSavepoint, CAllocate, CRollback, CCommit, CRead 0, CRead 1]"
      sample_crc "\<lambda>_. None"]
  by (simp add: blank_array array_put_def array_write_def array_size_def)

section \<open>Statements\<close>

text \<open>The calls a statement makes on the pager between its savepoint and its end.\<close>

fun statement_call :: "call \<Rightarrow> bool" where
  "statement_call (CRead _) \<longleftrightarrow> True"
| "statement_call (CWrite _ _) \<longleftrightarrow> True"
| "statement_call CAllocate \<longleftrightarrow> True"
| "statement_call _ \<longleftrightarrow> False"

lemma spec_calls_append:
  "spec_calls (cs @ ds) a =
     (let (r, b) = spec_calls cs a; (r', z) = spec_calls ds b in (r @ r', z))"
  by (induction cs arbitrary: a) (simp_all add: split_beta Let_def)

lemma calls_ok_append:
  "calls_ok (cs @ ds) a \<longleftrightarrow> calls_ok cs a \<and> calls_ok ds (snd (spec_calls cs a))"
  by (induction cs arbitrary: a) (simp_all add: split_beta Let_def)

lemma spec_statement:
  assumes "list_all statement_call cs" and "ar_active a"
  shows "\<exists>xs. snd (spec_calls cs a) = a\<lparr>ar_current := xs\<rparr>"
  using assms
proof (induction cs arbitrary: a)
  case Nil
  show ?case by (intro exI [of _ "ar_current a"]) simp
next
  case (Cons c cs)
  have step: "\<exists>xs. snd (spec_call c a) = a\<lparr>ar_current := xs\<rparr>"
  proof (cases c)
    case (CRead pid)
    then show ?thesis by (intro exI [of _ "ar_current a"]) simp
  qed (use Cons.prems in \<open>auto simp: array_put_def Let_def\<close>)
  then obtain xs where xs: "snd (spec_call c a) = a\<lparr>ar_current := xs\<rparr>" by blast
  with Cons.IH [of "a\<lparr>ar_current := xs\<rparr>"] Cons.prems show ?case by (simp add: split_beta Let_def)
qed

text \<open>
  A failed statement leaves no trace. Inside a group, setting the savepoint, making any reads,
  writes and allocations, and rolling back to it ends in the abstract state before the statement:
  the same pages, the same page count, the same durable pages, the group still open.
\<close>

theorem statement_rollback_exact:
  assumes "pager_inv crc p" and "in_group p" and "pg_savepoint p = None"
    and "list_all statement_call cs"
    and "calls_ok cs ((abs_array p)\<lparr>ar_saved := Some (ar_current (abs_array p))\<rparr>)"
    and "array_size (abs_array p) + length cs + 2 \<le> 2 ^ 64"
  shows "abs_array (snd (pager_calls crc pick (CSavepoint # cs @ [CRollback]) p)) = abs_array p"
proof -
  let ?a = "(abs_array p)\<lparr>ar_saved := Some (ar_current (abs_array p))\<rparr>"
  have saved: "ar_saved (abs_array p) = None" by (simp add: assms(3))
  obtain xs where xs: "snd (spec_calls cs ?a) = ?a\<lparr>ar_current := xs\<rparr>"
    using spec_statement [OF assms(4), of ?a] assms(2) by auto
  have "snd (spec_calls (CSavepoint # cs @ [CRollback]) (abs_array p)) = abs_array p"
    using assms(2,3) saved xs by (simp add: spec_calls_append split_beta Let_def)
  moreover have "calls_ok (CSavepoint # cs @ [CRollback]) (abs_array p)"
    using assms(2,3,5) by (simp add: calls_ok_append)
  ultimately show ?thesis
    using pager_calls_refine [OF assms(1), of "CSavepoint # cs @ [CRollback]" pick] assms(6) by simp
qed

lemma sample_open_array: "abs_array sample_open =
    \<lparr>ar_durable = [], ar_current = [], ar_active = True, ar_saved = None\<rparr>"
proof -
  have a: "active_group (pager_blank [] []) = None" by (simp add: pager_blank_def Let_def)
  have "abs_array sample_open = (abs_array (pager_blank [] []))\<lparr>ar_active := True\<rparr>"
    unfolding sample_open_def begin_group_inv(5) [OF blank_inv a] by (simp add: array_of_def)
  then show ?thesis by (simp add: blank_array)
qed

theorem statement_rollback_exact_witness:
  "abs_array (snd (pager_calls sample_crc (\<lambda>_. None)
     (CSavepoint # [CAllocate, CAllocate, CWrite 0 page_new] @ [CRollback]) sample_open)) = abs_array sample_open"
  by (rule statement_rollback_exact)
    (simp_all add: sample_open_facts in_group_def sample_open_array array_size_def array_put_def array_write_def)

section \<open>The cache\<close>

text \<open>
  C29: The page cache never holds more than its capacity, after any sequence of calls, as long as
  the map's iterator yields an entry of a non-empty map.
\<close>

theorem cache_within_capacity:
  assumes "picks_entry pick" and "cache_bounded p"
  shows "fcard (fmdom (cache (snd (pager_calls crc pick cs p)))) \<le> max_cache_size (snd (pager_calls crc pick cs p))"
proof -
  have "cache_bounded (snd (pager_calls crc pick cs p))"
    using assms(2) pager_call_bounded [OF assms(1)]
    by (induction cs arbitrary: p) (simp_all add: split_beta Let_def)
  then show ?thesis by (simp add: cache_bounded_def)
qed

definition sample_pick :: "(nat, bytes) fmap \<Rightarrow> nat option" where
  "sample_pick c = (case sorted_list_of_fset (fmdom c) of [] \<Rightarrow> None | k # _ \<Rightarrow> Some k)"

lemma sample_pick_entry: "picks_entry sample_pick"
  unfolding picks_entry_def
proof (intro allI impI)
  fix c :: "(nat, bytes) fmap" assume "c \<noteq> fmempty"
  then have "fset (fmdom c) \<noteq> {}" by (metis bot_fset.rep_eq fmrestrict_fset_dom fmrestrict_fset_null fset_inject)
  then obtain k ks where e: "sorted_list_of_fset (fmdom c) = k # ks"
    using set_sorted_dom [of c] by (cases "sorted_list_of_fset (fmdom c)") auto
  then have "k |\<in>| fmdom c" using set_sorted_dom [of c] by auto
  with e show "\<exists>k. sample_pick c = Some k \<and> k |\<in>| fmdom c" by (simp add: sample_pick_def)
qed

theorem cache_within_capacity_witness:
  "fcard (fmdom (cache (snd (pager_calls sample_crc sample_pick [CAllocate, CRead 0] (pager_blank [] [])))))
     \<le> max_cache_size (snd (pager_calls sample_crc sample_pick [CAllocate, CRead 0] (pager_blank [] [])))"
  by (rule cache_within_capacity [OF sample_pick_entry])
    (simp add: cache_bounded_def pager_blank_def Let_def CACHE_SIZE_def fcard_fempty)

section \<open>Failure sequences\<close>

text \<open>
  A commit that reported an error can still take effect. If the append wrote all its bytes but
  the sync failed, and cutting the log back failed too, the commit returns the I/O error although
  a reopened database replays the group.
\<close>

theorem failed_commit_can_survive:
  assumes "pager_inv crc p" and "active_group p = Some gid" and "num_pages p \<le> 2 ^ 64"
    and "pending p \<noteq> fmempty" and "io_append io = WriteFails k False"
    and "length (encode_group crc (pending_group gid p)) \<le> k"
  shows "fst (commit_group crc io p) = Inl (Error Io)
    \<and> reopens_as crc (pg_file (snd (commit_group crc io p))) (wal_file (pg_wal (snd (commit_group crc io p))))
        (page_view p)"
proof -
  have len: "wal_len (pg_wal p) = length (wal_file (pg_wal p))"
    using assms(1) by (simp add: pager_inv_def wal_inv_def)
  note ap = append_group_fails [OF pending_group_ok [OF assms(1-3)] len, of crc k False]
  let ?q = "p\<lparr>pg_savepoint := None, pg_wal := (pg_wal p)\<lparr>wal_file := wal_file (pg_wal p)
      @ take k (encode_group crc (pending_group gid p))\<rparr>\<rparr>"
  have e: "commit_group crc io p = (Inl (Error Io), snd (abort_group ?q))"
    using ap assms(2,4,5) by (simp add: commit_group_def Let_def)
  have q: "active_group ?q = Some gid" "cache_size ?q = fcard (fmdom (cache ?q))"
    using assms(1,2) by (simp_all add: pager_inv_def)
  obtain c sz where "abort_group ?q = (Inr (), set_cache (c, sz) (?q\<lparr>active_group := None,
      pg_savepoint := None, pending := fmempty, num_pages := group_start_pages ?q\<rparr>))"
    by (rule abort_group_fields [OF q])
  with reopens_torn_commit [OF assms(1-3), of k] assms(6) show ?thesis by (simp add: e)
qed

theorem failed_commit_can_survive_witness:
  "fst (commit_group sample_crc (io_ok\<lparr>io_append := WriteFails
       (length (encode_group sample_crc (pending_group 1 sample_written))) False\<rparr>) sample_written) = Inl (Error Io)
   \<and> reopens_as sample_crc
       (pg_file (snd (commit_group sample_crc (io_ok\<lparr>io_append := WriteFails
          (length (encode_group sample_crc (pending_group 1 sample_written))) False\<rparr>) sample_written)))
       (wal_file (pg_wal (snd (commit_group sample_crc (io_ok\<lparr>io_append := WriteFails
          (length (encode_group sample_crc (pending_group 1 sample_written))) False\<rparr>) sample_written))))
       (page_view sample_written)"
  by (rule failed_commit_can_survive [OF sample_written_facts(1,2) _ sample_written_facts(4) _ order_refl])
    (simp_all add: sample_written_facts(3))

end
