(* ===== verification/BTreePage.thy ===== *)
theory BTreePage
  imports RowCodec Wal
begin

text \<open>
  The pages of the B+tree, \<open>src/btree.rs\<close>: the node header, the packed entries of a leaf and the
  child and key array of an internal node, as operations on the bytes of one page. An index out
  of the page is a panic; \<open>num_keys\<close> and \<open>parent\<close> are natural numbers that take their widths when
  a header is written.
\<close>

section \<open>Constants and the header\<close>

definition BTREE_ORDER :: nat where "BTREE_ORDER = 64"
definition MIN_KEYS :: nat where "MIN_KEYS = BTREE_ORDER div 2"
definition HEADER_SIZE :: nat where "HEADER_SIZE = 8"

definition Internal :: u8 where "Internal = 0"
definition Leaf :: u8 where "Leaf = 1"

record node_header =
  node_type :: u8
  num_keys :: nat
  parent :: nat

definition header_new :: "u8 \<Rightarrow> node_header" where
  "header_new t = \<lparr>node_type = t, num_keys = 0, parent = 0\<rparr>"

definition new_leaf :: node_header where
  "new_leaf = header_new Leaf"

definition serialize_header :: "node_header \<Rightarrow> bytes \<Rightarrow> bytes result" where
  "serialize_header h buffer =
     put 0 (node_type h # le_bytes 2 (num_keys h) @ le_bytes 4 (parent h)) buffer"

definition deserialize_header :: "bytes \<Rightarrow> node_header result" where
  "deserialize_header buffer =
     (if length buffer < HEADER_SIZE then Inl (Error Corruption)
      else Inr \<lparr>node_type = buffer ! 0, num_keys = le_nat (take 2 (drop 1 buffer)),
                parent = le_nat (take 4 (drop 3 buffer))\<rparr>)"

definition as_u32 :: "nat \<Rightarrow> nat" where
  "as_u32 n = n mod 2 ^ 32"

section \<open>Leaf pages\<close>

text \<open>The loop of \<open>search\<close> and \<open>delete\<close>: offset and data size of the first entry with the key.\<close>

fun leaf_find :: "nat \<Rightarrow> nat \<Rightarrow> bytes \<Rightarrow> i64 \<Rightarrow> (nat \<times> nat) option result" where
  "leaf_find 0 offset data key = Inr None"
| "leaf_find (Suc n) offset data key =
     rbind (read_i64 offset data) (\<lambda>stored_key.
     rbind (read_u32 (offset + 8) data) (\<lambda>size.
       if stored_key = key then Inr (Some (offset, size))
       else leaf_find n (offset + 12 + size) data key))"

text \<open>The loop of \<open>scan_node\<close> over a leaf.\<close>

fun leaf_rows :: "nat \<Rightarrow> nat \<Rightarrow> bytes \<Rightarrow> (i64 \<times> row) list result" where
  "leaf_rows 0 offset data = Inr []"
| "leaf_rows (Suc n) offset data =
     rbind (read_i64 offset data) (\<lambda>key.
     rbind (read_u32 (offset + 8) data) (\<lambda>size.
     rbind (slice (offset + 12) (offset + 12 + size) data) (\<lambda>d.
     rbind (deserialize_row d) (\<lambda>row.
     rbind (leaf_rows n (offset + 12 + size) data) (\<lambda>rest. Inr ((key, row) # rest))))))"

text \<open>Collecting the entries, in \<open>split_leaf_node\<close> and \<open>merge_leaves\<close>.\<close>

fun leaf_entries :: "nat \<Rightarrow> nat \<Rightarrow> bytes \<Rightarrow> (i64 \<times> bytes) list result" where
  "leaf_entries 0 offset data = Inr []"
| "leaf_entries (Suc n) offset data =
     rbind (read_i64 offset data) (\<lambda>key.
     rbind (read_u32 (offset + 8) data) (\<lambda>size.
     rbind (slice (offset + 12) (offset + 12 + size) data) (\<lambda>d.
     rbind (leaf_entries n (offset + 12 + size) data) (\<lambda>rest. Inr ((key, d) # rest)))))"

text \<open>The insertion point of \<open>insert_into_leaf\<close>: behind every entry whose key is not greater.\<close>

fun leaf_insert_offset :: "nat \<Rightarrow> nat \<Rightarrow> bytes \<Rightarrow> i64 \<Rightarrow> nat result" where
  "leaf_insert_offset 0 offset data key = Inr offset"
| "leaf_insert_offset (Suc n) offset data key =
     rbind (read_i64 offset data) (\<lambda>stored_key.
     rbind (read_u32 (offset + 8) data) (\<lambda>size.
       if sint key < sint stored_key then Inr offset
       else leaf_insert_offset n (offset + 12 + size) data key))"

fun data_end :: "nat \<Rightarrow> nat \<Rightarrow> bytes \<Rightarrow> nat result" where
  "data_end 0 offset data = Inr offset"
| "data_end (Suc n) offset data =
     (if page_size < offset + 12 then Inl (Error Corruption)
      else if length data < offset + 12 then Inl (Error Corruption)
      else let offset' = offset + 12 + le_nat (take 4 (drop (offset + 8) data)) in
        if page_size < offset' then Inl (Error Corruption) else data_end n offset' data)"

definition find_data_end :: "node_header \<Rightarrow> bytes \<Rightarrow> nat result" where
  "find_data_end h data = data_end (num_keys h) HEADER_SIZE data"

text \<open>\<open>read_entry_at_index\<close>: key, size, data and offset of an entry.\<close>

fun read_entry_at_index :: "bytes \<Rightarrow> nat \<Rightarrow> nat \<Rightarrow> (i64 \<times> nat \<times> bytes \<times> nat) result" where
  "read_entry_at_index data offset 0 =
     rbind (read_i64 offset data) (\<lambda>key.
     rbind (read_u32 (offset + 8) data) (\<lambda>size.
     rbind (slice (offset + 12) (offset + 12 + size) data) (\<lambda>d. Inr (key, size, d, offset))))"
| "read_entry_at_index data offset (Suc index) =
     rbind (read_i64 offset data) (\<lambda>key.
     rbind (read_u32 (offset + 8) data) (\<lambda>size.
       read_entry_at_index data (offset + 12 + size) index))"

definition write_entry :: "nat \<Rightarrow> i64 \<Rightarrow> bytes \<Rightarrow> bytes \<Rightarrow> bytes result" where
  "write_entry offset key d page =
     rbind (put offset (i64_to_le key) page) (\<lambda>page.
     rbind (put (offset + 8) (le_bytes 4 (length d)) page) (\<lambda>page.
       put (offset + 12) d page))"

text \<open>The entries of a fresh page, written one behind the other by \<open>split_leaf_node\<close>.\<close>

fun fill_leaf :: "nat \<Rightarrow> (i64 \<times> bytes) list \<Rightarrow> bytes \<Rightarrow> bytes result" where
  "fill_leaf offset [] page = Inr page"
| "fill_leaf offset ((key, d) # es) page =
     rbind (write_entry offset key d page) (\<lambda>page. fill_leaf (offset + (12 + length d)) es page)"

text \<open>The appending loop of \<open>merge_leaves\<close>, with the header it counts up.\<close>

fun append_entries :: "(i64 \<times> bytes) list \<Rightarrow> node_header \<Rightarrow> bytes \<Rightarrow> (node_header \<times> bytes) result" where
  "append_entries [] h page = Inr (h, page)"
| "append_entries ((key, d) # es) h page =
     rbind (find_data_end h page) (\<lambda>end_offset.
       if page_size < end_offset + (12 + length d) then Inl (Error StorageError)
       else rbind (write_entry end_offset key d page) (\<lambda>page.
         append_entries es (h\<lparr>num_keys := num_keys h + 1\<rparr>) page))"

text \<open>The part of \<open>insert_into_leaf\<close> that works on the page: \<open>None\<close> when the entry does not fit.\<close>

definition leaf_insert :: "i64 \<Rightarrow> bytes \<Rightarrow> bytes \<Rightarrow> bytes option result" where
  "leaf_insert key d page =
     rbind (deserialize_header page) (\<lambda>h.
     rbind (leaf_insert_offset (num_keys h) HEADER_SIZE page key) (\<lambda>insert_offset.
       let required_space = 12 + length d in
     rbind (find_data_end h page) (\<lambda>end_offset.
       if page_size < end_offset + required_space then Inr None
       else
         rbind (if insert_offset < end_offset
                then copy_within insert_offset end_offset (insert_offset + required_space) page
                else Inr page) (\<lambda>page.
         rbind (write_entry insert_offset key d page) (\<lambda>page.
         rbind (serialize_header (h\<lparr>num_keys := num_keys h + 1\<rparr>) page) (\<lambda>page.
           Inr (Some page)))))))"

text \<open>The part of \<open>delete\<close> that works on the page: \<open>None\<close> when the key is not there.\<close>

definition leaf_delete :: "i64 \<Rightarrow> bytes \<Rightarrow> (node_header \<times> bytes) option result" where
  "leaf_delete key page =
     rbind (deserialize_header page) (\<lambda>h.
     rbind (leaf_find (num_keys h) HEADER_SIZE page key) (\<lambda>found.
       case found of
         None \<Rightarrow> Inr None
       | Some (delete_offset, sz) \<Rightarrow>
           let delete_size = 12 + sz in
           rbind (find_data_end h page) (\<lambda>end_offset.
           rbind (if delete_offset + delete_size < end_offset
                  then copy_within (delete_offset + delete_size) end_offset delete_offset page
                  else Inr page) (\<lambda>page.
             let h' = h\<lparr>num_keys := num_keys h - 1\<rparr> in
             rbind (serialize_header h' page) (\<lambda>page. Inr (Some (h', page)))))))"

section \<open>Internal pages\<close>

text \<open>The descent of \<open>find_leaf\<close> through one node.\<close>

fun find_child :: "nat \<Rightarrow> nat \<Rightarrow> bytes \<Rightarrow> i64 \<Rightarrow> nat \<Rightarrow> nat result" where
  "find_child 0 offset data key child = Inr child"
| "find_child (Suc n) offset data key child =
     rbind (read_i64 offset data) (\<lambda>stored_key.
     rbind (read_u64 (offset + 8) data) (\<lambda>next_child.
       if sint key < sint stored_key then Inr child
       else find_child n (offset + 16) data key next_child))"

fun parse_pairs :: "nat \<Rightarrow> nat \<Rightarrow> bytes \<Rightarrow> (i64 list \<times> nat list) result" where
  "parse_pairs 0 offset data = Inr ([], [])"
| "parse_pairs (Suc n) offset data =
     rbind (read_i64 offset data) (\<lambda>k.
     rbind (read_u64 (offset + 8) data) (\<lambda>c.
     rbind (parse_pairs n (offset + 16) data) (\<lambda>(ks, cs). Inr (k # ks, c # cs))))"

definition parse_internal_node :: "bytes \<Rightarrow> node_header \<Rightarrow> (i64 list \<times> nat list) result" where
  "parse_internal_node data h =
     rbind (read_u64 HEADER_SIZE data) (\<lambda>first_child.
     rbind (parse_pairs (num_keys h) (HEADER_SIZE + 8) data) (\<lambda>(keys, children).
       Inr (keys, first_child # children)))"

fun write_pairs :: "nat \<Rightarrow> (i64 \<times> nat) list \<Rightarrow> bytes \<Rightarrow> bytes result" where
  "write_pairs offset [] page = Inr page"
| "write_pairs offset ((k, c) # ps) page =
     rbind (put offset (i64_to_le k) page) (\<lambda>page.
     rbind (put (offset + 8) (le_bytes 8 c) page) (\<lambda>page.
       write_pairs (offset + 16) ps page))"

text \<open>The unchecked body writer that \<open>split_internal_node\<close> inlines; \<open>children[0]\<close> may panic.\<close>

definition put_internal_body :: "i64 list \<Rightarrow> nat list \<Rightarrow> bytes \<Rightarrow> bytes result" where
  "put_internal_body keys children page =
     (case children of
        [] \<Rightarrow> Inl Panic
      | c # cs \<Rightarrow>
          rbind (put HEADER_SIZE (le_bytes 8 c) page) (\<lambda>page.
            write_pairs (HEADER_SIZE + 8) (zip keys cs) page))"

definition write_internal_body :: "i64 list \<Rightarrow> nat list \<Rightarrow> bytes \<Rightarrow> bytes result" where
  "write_internal_body keys children page =
     (if length children \<noteq> length keys + 1 then Inl (Error Corruption)
      else if page_size < HEADER_SIZE + 8 + length keys * 16 then Inl (Error StorageError)
      else put_internal_body keys children page)"

fun sibling_loop :: "nat \<Rightarrow> nat \<Rightarrow> bytes \<Rightarrow> nat \<Rightarrow> nat \<Rightarrow> (nat \<times> i64 \<times> bool) result" where
  "sibling_loop 0 offset data child_id prev = Inr (0, 0, False)"
| "sibling_loop (Suc n) offset data child_id prev =
     rbind (read_i64 offset data) (\<lambda>key.
     rbind (read_u64 (offset + 8) data) (\<lambda>next_child.
       if next_child = child_id then Inr (prev, key, True)
       else sibling_loop n (offset + 16) data child_id next_child))"

text \<open>\<open>find_sibling_info\<close>: the sibling, the separator between them, and whether it is the left one.\<close>

definition find_sibling_info :: "bytes \<Rightarrow> node_header \<Rightarrow> nat \<Rightarrow> (nat \<times> i64 \<times> bool) result" where
  "find_sibling_info data h child_id =
     rbind (read_u64 HEADER_SIZE data) (\<lambda>first_child.
       if first_child = child_id then
         rbind (read_i64 (HEADER_SIZE + 8) data) (\<lambda>separator.
         rbind (read_u64 (HEADER_SIZE + 16) data) (\<lambda>sibling. Inr (sibling, separator, False)))
       else sibling_loop (num_keys h) (HEADER_SIZE + 8) data child_id first_child)"

text \<open>The loop of \<open>update_parent_key\<close>.\<close>

fun replace_key :: "nat \<Rightarrow> nat \<Rightarrow> i64 \<Rightarrow> i64 \<Rightarrow> bytes \<Rightarrow> bytes result" where
  "replace_key 0 offset old_key new_key page = Inr page"
| "replace_key (Suc n) offset old_key new_key page =
     rbind (read_i64 offset page) (\<lambda>current.
       if current = old_key then put offset (i64_to_le new_key) page
       else replace_key n (offset + 16) old_key new_key page)"

text \<open>The insertion index of \<open>insert_into_internal\<close>.\<close>

fun internal_insert_idx :: "nat \<Rightarrow> nat \<Rightarrow> bytes \<Rightarrow> i64 \<Rightarrow> nat result" where
  "internal_insert_idx 0 offset data key = Inr 0"
| "internal_insert_idx (Suc n) offset data key =
     rbind (read_i64 offset data) (\<lambda>stored_key.
       if sint key < sint stored_key then Inr 0
       else rbind (internal_insert_idx n (offset + 16) data key) (\<lambda>i. Inr (Suc i)))"

text \<open>The page part of \<open>insert_into_internal\<close> for a node that is not full.\<close>

definition internal_insert :: "node_header \<Rightarrow> nat \<Rightarrow> i64 \<Rightarrow> nat \<Rightarrow> bytes \<Rightarrow> bytes result" where
  "internal_insert h insert_idx key right_page page =
     (let insert_offset = HEADER_SIZE + 8 + insert_idx * 16;
          end_offset = HEADER_SIZE + 8 + num_keys h * 16 in
      rbind (if insert_offset < end_offset
             then copy_within insert_offset end_offset (insert_offset + 16) page
             else Inr page) (\<lambda>page.
      rbind (put insert_offset (i64_to_le key) page) (\<lambda>page.
      rbind (put (insert_offset + 8) (le_bytes 8 right_page) page) (\<lambda>page.
        serialize_header (h\<lparr>num_keys := num_keys h + 1\<rparr>) page))))"

text \<open>
  The pair \<open>remove_child_from_parent\<close> cuts out: the offset of the bytes to close up, and whether the
  child was the first one.
\<close>

fun child_pair :: "nat \<Rightarrow> nat \<Rightarrow> bytes \<Rightarrow> nat \<Rightarrow> nat option result" where
  "child_pair 0 offset data child_id = Inr None"
| "child_pair (Suc n) offset data child_id =
     rbind (read_u64 (offset + 8) data) (\<lambda>next_child.
       if next_child = child_id then Inr (Some offset)
       else child_pair n (offset + 16) data child_id)"

definition close_up :: "node_header \<Rightarrow> nat \<Rightarrow> bytes \<Rightarrow> (node_header \<times> bytes) result" where
  "close_up h offset page =
     (let end = HEADER_SIZE + 8 + num_keys h * 16 in
      rbind (copy_within (offset + 16) end offset page) (\<lambda>page.
        if num_keys h = 0 then Inl Panic
        else let h' = h\<lparr>num_keys := num_keys h - 1\<rparr> in
          rbind (serialize_header h' page) (\<lambda>page. Inr (h', page))))"

end
