(* ===== verification/BTree.thy ===== *)
theory BTree
  imports BTreePage
begin

text \<open>
  The B+tree operations of \<open>src/btree.rs\<close> over a page store. The pager is reached through three
  calls, \<open>read_page\<close>, \<open>write_page\<close> and \<open>allocate_page\<close>, passed as a record of operations on a state
  \<open>'s\<close>, so the tree is stated over the interface and later applied to the pager model.

  Loops and recursions that follow page pointers carry fuel; a run that needs more ends in
  \<open>OutOfFuel\<close>. The functions that store a new root in \<open>self.root_page\<close> while deleting return it
  (the store is their last action).
\<close>

record 's page_ops =
  po_read :: "nat \<Rightarrow> ('s, bytes) op"
  po_write :: "nat \<Rightarrow> bytes \<Rightarrow> ('s, unit) op"
  po_alloc :: "('s, nat) op"

definition blank_page :: bytes where
  "blank_page = replicate page_size 0"

section \<open>Descending\<close>

definition read_node :: "'s page_ops \<Rightarrow> nat \<Rightarrow> ('s, node_header \<times> bytes) op" where
  "read_node P page_id =
     mbind (po_read P page_id) (\<lambda>page. mbind (mlift (deserialize_header page)) (\<lambda>h. mret (h, page)))"

fun find_leaf :: "'s page_ops \<Rightarrow> nat \<Rightarrow> nat \<Rightarrow> i64 \<Rightarrow> ('s, nat) op" where
  "find_leaf P 0 page_id key = mfail OutOfFuel"
| "find_leaf P (Suc fuel) page_id key =
     mbind (read_node P page_id) (\<lambda>(h, page).
       if node_type h = Leaf then mret page_id
       else mbind (mlift (rbind (read_u64 HEADER_SIZE page) (\<lambda>child_page.
                    find_child (num_keys h) (HEADER_SIZE + 8) page key child_page))) (\<lambda>child.
         find_leaf P fuel child key))"

definition search :: "'s page_ops \<Rightarrow> nat \<Rightarrow> nat \<Rightarrow> i64 \<Rightarrow> ('s, row option) op" where
  "search P fuel root_page key =
     mbind (find_leaf P fuel root_page key) (\<lambda>leaf_page_id.
     mbind (read_node P leaf_page_id) (\<lambda>(h, page).
     mbind (mlift (leaf_find (num_keys h) HEADER_SIZE page key)) (\<lambda>found.
       case found of
         None \<Rightarrow> mret None
       | Some (offset, sz) \<Rightarrow>
           mlift (rbind (slice (offset + 12) (offset + 12 + sz) page) (\<lambda>d.
             rbind (deserialize_row d) (\<lambda>row. Inr (Some row)))))))"

fun scan_node :: "'s page_ops \<Rightarrow> nat \<Rightarrow> nat \<Rightarrow> ('s, (i64 \<times> row) list) op"
  and scan_pairs :: "'s page_ops \<Rightarrow> nat \<Rightarrow> nat \<Rightarrow> nat \<Rightarrow> bytes \<Rightarrow> ('s, (i64 \<times> row) list) op" where
  "scan_node P 0 page_id = mfail OutOfFuel"
| "scan_node P (Suc fuel) page_id =
     mbind (read_node P page_id) (\<lambda>(h, page).
       if node_type h = Leaf then mlift (leaf_rows (num_keys h) HEADER_SIZE page)
       else mbind (mlift (read_u64 HEADER_SIZE page)) (\<lambda>first_child.
         mbind (scan_node P fuel first_child) (\<lambda>results.
         mbind (scan_pairs P fuel (num_keys h) (HEADER_SIZE + 8) page) (\<lambda>more.
           mret (results @ more)))))"
| "scan_pairs P fuel 0 offset page = mret []"
| "scan_pairs P fuel (Suc n) offset page =
     mbind (mlift (read_u64 (offset + 8) page)) (\<lambda>child.
     mbind (scan_node P fuel child) (\<lambda>results.
     mbind (scan_pairs P fuel n (offset + 16) page) (\<lambda>more.
       mret (results @ more))))"

section \<open>Inserting\<close>

definition split_leaf_node :: "'s page_ops \<Rightarrow> nat \<Rightarrow> ('s, nat \<times> i64) op" where
  "split_leaf_node P page_id =
     mbind (read_node P page_id) (\<lambda>(h, page).
     mbind (mlift (leaf_entries (num_keys h) HEADER_SIZE page)) (\<lambda>entries.
       let half = length entries div 2;
           split_index = (if half = 0 \<and> entries \<noteq> [] then 1 else half) in
       if length entries \<le> split_index then mfail Panic
       else
         let split_key = fst (entries ! split_index) in
         mbind (po_alloc P) (\<lambda>sibling_page_id.
         mbind (mlift (rbind (fill_leaf HEADER_SIZE (take split_index entries) blank_page)
           (serialize_header (h\<lparr>num_keys := length (take split_index entries)\<rparr>)))) (\<lambda>left_page.
         mbind (po_write P page_id left_page) (\<lambda>_.
         mbind (mlift (rbind (fill_leaf HEADER_SIZE (drop split_index entries) blank_page)
           (serialize_header (new_leaf\<lparr>num_keys := length (drop split_index entries)\<rparr>)))) (\<lambda>right_page.
         mbind (po_write P sibling_page_id right_page) (\<lambda>_.
           mret (sibling_page_id, split_key))))))))"

definition set_parent_pointer :: "'s page_ops \<Rightarrow> nat \<Rightarrow> nat \<Rightarrow> ('s, unit) op" where
  "set_parent_pointer P page_id new_parent =
     mbind (read_node P page_id) (\<lambda>(h, page).
       if parent h = new_parent then mret ()
       else mbind (mlift (serialize_header (h\<lparr>parent := new_parent\<rparr>) page)) (\<lambda>page.
         po_write P page_id page))"

fun set_parent_pointers :: "'s page_ops \<Rightarrow> nat list \<Rightarrow> nat \<Rightarrow> ('s, unit) op" where
  "set_parent_pointers P [] new_parent = mret ()"
| "set_parent_pointers P (c # cs) new_parent =
     mbind (set_parent_pointer P c new_parent) (\<lambda>_. set_parent_pointers P cs new_parent)"

definition create_new_root :: "'s page_ops \<Rightarrow> nat \<Rightarrow> nat \<Rightarrow> i64 \<Rightarrow> ('s, nat) op" where
  "create_new_root P left_page right_page split_key =
     mbind (po_alloc P) (\<lambda>root_page_id.
     mbind (mlift (rbind (serialize_header ((header_new Internal)\<lparr>num_keys := 1\<rparr>) blank_page)
       (put_internal_body [split_key] [left_page, right_page]))) (\<lambda>root_page.
     mbind (po_write P root_page_id root_page) (\<lambda>_.
     mbind (set_parent_pointer P left_page (as_u32 root_page_id)) (\<lambda>_.
     mbind (set_parent_pointer P right_page (as_u32 root_page_id)) (\<lambda>_.
       mret root_page_id)))))"

text \<open>\<open>while insert_idx < keys.len() && keys[insert_idx] < key\<close>.\<close>

definition split_insert_idx :: "i64 list \<Rightarrow> i64 \<Rightarrow> nat" where
  "split_insert_idx keys key = length (takeWhile (\<lambda>k. sint k < sint key) keys)"

definition insert_at :: "nat \<Rightarrow> 'a \<Rightarrow> 'a list \<Rightarrow> 'a list" where
  "insert_at i x xs = take i xs @ x # drop i xs"

fun insert_into_parent :: "'s page_ops \<Rightarrow> nat \<Rightarrow> nat \<Rightarrow> nat \<Rightarrow> i64 \<Rightarrow> ('s, nat option) op"
  and insert_into_internal :: "'s page_ops \<Rightarrow> nat \<Rightarrow> nat \<Rightarrow> nat \<Rightarrow> i64 \<Rightarrow> ('s, nat option) op"
  and split_internal_node :: "'s page_ops \<Rightarrow> nat \<Rightarrow> nat \<Rightarrow> nat \<Rightarrow> i64 \<Rightarrow> ('s, nat option) op" where
  "insert_into_parent P 0 left_page right_page split_key = mfail OutOfFuel"
| "insert_into_parent P (Suc fuel) left_page right_page split_key =
     mbind (read_node P left_page) (\<lambda>(left_header, _).
       if parent left_header = 0 then
         mbind (create_new_root P left_page right_page split_key) (\<lambda>r. mret (Some r))
       else insert_into_internal P fuel (parent left_header) right_page split_key)"
| "insert_into_internal P 0 page_id right_page key = mfail OutOfFuel"
| "insert_into_internal P (Suc fuel) page_id right_page key =
     mbind (set_parent_pointer P right_page (as_u32 page_id)) (\<lambda>_.
     mbind (read_node P page_id) (\<lambda>(h, page).
     mbind (mlift (internal_insert_idx (num_keys h) (HEADER_SIZE + 8) page key)) (\<lambda>insert_idx.
       if BTREE_ORDER \<le> num_keys h then split_internal_node P fuel page_id right_page key
       else
         mbind (mlift (internal_insert h insert_idx key right_page page)) (\<lambda>page.
         mbind (po_write P page_id page) (\<lambda>_. mret None)))))"
| "split_internal_node P 0 page_id right_page key = mfail OutOfFuel"
| "split_internal_node P (Suc fuel) page_id right_page key =
     mbind (read_node P page_id) (\<lambda>(h, page).
     mbind (mlift (parse_internal_node page h)) (\<lambda>(keys0, children0).
       let insert_idx = split_insert_idx keys0 key;
           keys = insert_at insert_idx key keys0;
           children = insert_at (insert_idx + 1) right_page children0;
           split_idx = length keys div 2;
           promoted_key = keys ! split_idx;
           right_keys = drop (split_idx + 1) keys;
           right_children = drop (split_idx + 1) children;
           left_keys = take split_idx keys;
           left_children = take (split_idx + 1) children
       in
       mbind (po_alloc P) (\<lambda>sibling_page_id.
       mbind (mlift (rbind
         (serialize_header ((header_new Internal)\<lparr>num_keys := length right_keys\<rparr>) blank_page)
         (put_internal_body right_keys right_children))) (\<lambda>sibling_page.
       mbind (set_parent_pointers P right_children (as_u32 sibling_page_id)) (\<lambda>_.
       mbind (po_write P sibling_page_id sibling_page) (\<lambda>_.
       mbind (mlift (rbind (serialize_header (h\<lparr>num_keys := length left_keys\<rparr>) blank_page)
         (put_internal_body left_keys left_children))) (\<lambda>new_left_page.
       mbind (po_write P page_id new_left_page) (\<lambda>_.
         insert_into_parent P fuel page_id sibling_page_id promoted_key))))))))"

fun insert_into_leaf :: "'s page_ops \<Rightarrow> nat \<Rightarrow> nat \<Rightarrow> i64 \<Rightarrow> bytes \<Rightarrow> ('s, nat option) op" where
  "insert_into_leaf P 0 page_id key d = mfail OutOfFuel"
| "insert_into_leaf P (Suc fuel) page_id key d =
     mbind (po_read P page_id) (\<lambda>page.
     mbind (mlift (leaf_insert key d page)) (\<lambda>r.
       case r of
         Some page \<Rightarrow> mbind (po_write P page_id page) (\<lambda>_. mret None)
       | None \<Rightarrow>
           mbind (split_leaf_node P page_id) (\<lambda>(sibling_page_id, split_key).
           mbind (insert_into_parent P fuel page_id sibling_page_id split_key) (\<lambda>new_root.
           mbind (insert_into_leaf P fuel
                    (if sint key < sint split_key then page_id else sibling_page_id) key d) (\<lambda>_.
             mret new_root)))))"

section \<open>Deleting\<close>

definition update_parent_key :: "'s page_ops \<Rightarrow> nat \<Rightarrow> i64 \<Rightarrow> i64 \<Rightarrow> ('s, unit) op" where
  "update_parent_key P parent_id old_key new_key =
     mbind (read_node P parent_id) (\<lambda>(h, page).
     mbind (mlift (replace_key (num_keys h) (HEADER_SIZE + 8) old_key new_key page)) (\<lambda>page.
       po_write P parent_id page))"

text \<open>The entry a sibling lends: its offset, key, size and data.\<close>

definition lent_entry :: "bool \<Rightarrow> node_header \<Rightarrow> bytes \<Rightarrow> (nat \<times> i64 \<times> nat \<times> bytes) result" where
  "lent_entry sibling_is_left h data =
     (if sibling_is_left then
        if num_keys h = 0 then Inl Panic
        else rbind (read_entry_at_index data HEADER_SIZE (num_keys h - 1))
          (\<lambda>(entry_key, entry_size, entry_data, entry_start).
             Inr (entry_start, entry_key, entry_size, entry_data))
      else
        rbind (read_i64 HEADER_SIZE data) (\<lambda>key.
        rbind (read_u32 (HEADER_SIZE + 8) data) (\<lambda>sz.
        rbind (slice (HEADER_SIZE + 12) (HEADER_SIZE + 12 + sz) data) (\<lambda>d.
          Inr (HEADER_SIZE, key, sz, d)))))"

definition take_in_entry :: "bool \<Rightarrow> i64 \<Rightarrow> bytes \<Rightarrow> node_header \<Rightarrow> bytes \<Rightarrow> bytes result" where
  "take_in_entry sibling_is_left key d h page =
     rbind (find_data_end h page) (\<lambda>end_offset.
       let entry_size = 12 + length d in
       if page_size < end_offset + entry_size then Inl (Error StorageError)
       else
         rbind (if sibling_is_left then
                  rbind (copy_within HEADER_SIZE end_offset (HEADER_SIZE + entry_size) page)
                    (write_entry HEADER_SIZE key d)
                else write_entry end_offset key d page) (\<lambda>page.
           serialize_header (h\<lparr>num_keys := num_keys h + 1\<rparr>) page))"

definition redistribute_from_sibling ::
    "'s page_ops \<Rightarrow> nat \<Rightarrow> nat \<Rightarrow> nat \<Rightarrow> i64 \<Rightarrow> bool \<Rightarrow> ('s, unit) op" where
  "redistribute_from_sibling P page_id sibling_id parent_id separator_key sibling_is_left =
     mbind (read_node P sibling_id) (\<lambda>(sh, sdata).
     mbind (mlift (lent_entry sibling_is_left sh sdata)) (\<lambda>(key_offset, stolen_key, sz, stolen_data).
     mbind (mlift (find_data_end sh sdata)) (\<lambda>end.
     mbind (mlift (copy_within (key_offset + (12 + sz)) end key_offset sdata)) (\<lambda>sib.
     mbind (mlift (if num_keys sh = 0 then Inl Panic
                   else serialize_header (sh\<lparr>num_keys := num_keys sh - 1\<rparr>) sib)) (\<lambda>sib.
     mbind (po_write P sibling_id sib) (\<lambda>_.
     mbind (read_node P page_id) (\<lambda>(h, page).
     mbind (mlift (take_in_entry sibling_is_left stolen_key stolen_data h page)) (\<lambda>page.
     mbind (po_write P page_id page) (\<lambda>_.
     mbind (read_node P (if sibling_is_left then page_id else sibling_id)) (\<lambda>(nh, ndata).
       if 0 < num_keys nh then
         mbind (mlift (read_i64 HEADER_SIZE ndata)) (\<lambda>new_first.
           update_parent_key P parent_id separator_key new_first)
       else mret ()))))))))))"

definition read_internal :: "'s page_ops \<Rightarrow> nat \<Rightarrow> ('s, node_header \<times> i64 list \<times> nat list) op" where
  "read_internal P page_id =
     mbind (read_node P page_id) (\<lambda>(h, page).
     mbind (mlift (parse_internal_node page h)) (\<lambda>(ks, cs). mret (h, ks, cs)))"

definition write_internal ::
    "'s page_ops \<Rightarrow> nat \<Rightarrow> node_header \<Rightarrow> i64 list \<Rightarrow> nat list \<Rightarrow> ('s, unit) op" where
  "write_internal P page_id h keys children =
     mbind (mlift (rbind (serialize_header (h\<lparr>num_keys := length keys\<rparr>) blank_page)
       (write_internal_body keys children))) (\<lambda>page. po_write P page_id page)"

text \<open>Keys and children of sibling and node behind the rotation, the separator and the moved child.\<close>

definition rotate_internal ::
    "bool \<Rightarrow> i64 \<Rightarrow> i64 list \<Rightarrow> nat list \<Rightarrow> i64 list \<Rightarrow> nat list \<Rightarrow>
     (i64 list \<times> nat list \<times> i64 list \<times> nat list \<times> i64 \<times> nat) result" where
  "rotate_internal sibling_is_left separator_key sib_keys sib_children node_keys node_children =
     (if sibling_is_left then
        if sib_children = [] \<or> sib_keys = [] then Inl (Error Corruption)
        else Inr (butlast sib_keys, butlast sib_children, separator_key # node_keys,
                  last sib_children # node_children, last sib_keys, last sib_children)
      else if sib_children = [] \<or> sib_keys = [] then Inl Panic
      else Inr (tl sib_keys, tl sib_children, node_keys @ [separator_key],
                node_children @ [hd sib_children], hd sib_keys, hd sib_children))"

definition redistribute_internal ::
    "'s page_ops \<Rightarrow> nat \<Rightarrow> nat \<Rightarrow> nat \<Rightarrow> i64 \<Rightarrow> bool \<Rightarrow> ('s, unit) op" where
  "redistribute_internal P page_id sibling_id parent_id separator_key sibling_is_left =
     mbind (read_internal P sibling_id) (\<lambda>(sh, sks, scs).
     mbind (read_internal P page_id) (\<lambda>(nh, nks, ncs).
     mbind (mlift (rotate_internal sibling_is_left separator_key sks scs nks ncs))
       (\<lambda>(sks', scs', nks', ncs', new_separator, moved_child).
     mbind (write_internal P sibling_id sh sks' scs') (\<lambda>_.
     mbind (write_internal P page_id nh nks' ncs') (\<lambda>_.
     mbind (set_parent_pointer P moved_child (as_u32 page_id)) (\<lambda>_.
       update_parent_key P parent_id separator_key new_separator))))))"

fun remove_child_from_parent :: "'s page_ops \<Rightarrow> nat \<Rightarrow> nat \<Rightarrow> nat \<Rightarrow> nat \<Rightarrow> ('s, nat option) op"
  and handle_internal_underflow :: "'s page_ops \<Rightarrow> nat \<Rightarrow> nat \<Rightarrow> nat \<Rightarrow> ('s, nat option) op"
  and merge_internal ::
    "'s page_ops \<Rightarrow> nat \<Rightarrow> nat \<Rightarrow> nat \<Rightarrow> nat \<Rightarrow> i64 \<Rightarrow> nat \<Rightarrow> bool \<Rightarrow> ('s, nat option) op" where
  "remove_child_from_parent P 0 parent_id child_id root_page = mfail OutOfFuel"
| "remove_child_from_parent P (Suc fuel) parent_id child_id root_page =
     mbind (read_node P parent_id) (\<lambda>(h, page).
     mbind (mlift (read_u64 HEADER_SIZE page)) (\<lambda>first_child.
       if first_child = child_id then
         mbind (mlift (close_up h HEADER_SIZE page)) (\<lambda>(h', page).
         mbind (po_write P parent_id page) (\<lambda>_.
           if parent_id = root_page \<and> num_keys h' = 0
           then mbind (mlift (read_u64 HEADER_SIZE page)) (\<lambda>new_root. mret (Some new_root))
           else mret None))
       else
         mbind (mlift (child_pair (num_keys h) (HEADER_SIZE + 8) page child_id)) (\<lambda>found.
           case found of
             None \<Rightarrow> mret None
           | Some offset \<Rightarrow>
               mbind (mlift (close_up h offset page)) (\<lambda>(h', page).
               mbind (po_write P parent_id page) (\<lambda>_.
                 if parent_id = root_page \<and> num_keys h' = 0
                 then mbind (mlift (read_u64 HEADER_SIZE page)) (\<lambda>new_root. mret (Some new_root))
                 else if parent_id \<noteq> root_page \<and> num_keys h' < MIN_KEYS
                 then handle_internal_underflow P fuel parent_id root_page
                 else mret None)))))"
| "handle_internal_underflow P 0 page_id root_page = mfail OutOfFuel"
| "handle_internal_underflow P (Suc fuel) page_id root_page =
     mbind (read_node P page_id) (\<lambda>(h, _).
       if parent h = 0 \<or> page_id = root_page then mret None
       else
         mbind (read_node P (parent h)) (\<lambda>(ph, pdata).
         mbind (mlift (find_sibling_info pdata ph page_id)) (\<lambda>(sibling_id, separator_key, sibling_is_left).
           if sibling_id = 0 then mfail (Error Corruption)
           else
             mbind (read_node P sibling_id) (\<lambda>(sh, _).
               if MIN_KEYS < num_keys sh
               then mbind (redistribute_internal P page_id sibling_id (parent h) separator_key sibling_is_left)
                      (\<lambda>_. mret None)
               else merge_internal P fuel page_id sibling_id (parent h) separator_key root_page
                      sibling_is_left))))"
| "merge_internal P 0 page_id sibling_id parent_id separator_key root_page sibling_is_left = mfail OutOfFuel"
| "merge_internal P (Suc fuel) page_id sibling_id parent_id separator_key root_page sibling_is_left =
     (let (left_id, right_id) = (if sibling_is_left then (sibling_id, page_id) else (page_id, sibling_id)) in
      mbind (read_internal P left_id) (\<lambda>(lh, lks, lcs).
      mbind (read_internal P right_id) (\<lambda>(rh, rks, rcs).
        let merged_keys = lks @ separator_key # rks;
            merged_children = lcs @ rcs in
        if page_size < HEADER_SIZE + 8 + length merged_keys * 16 then mfail (Error StorageError)
        else
          mbind (set_parent_pointers P (take (num_keys rh + 1) (rev merged_children)) (as_u32 left_id)) (\<lambda>_.
          mbind (write_internal P left_id lh merged_keys merged_children) (\<lambda>_.
            remove_child_from_parent P fuel parent_id right_id root_page)))))"

definition merge_leaves ::
    "'s page_ops \<Rightarrow> nat \<Rightarrow> nat \<Rightarrow> nat \<Rightarrow> nat \<Rightarrow> nat \<Rightarrow> bool \<Rightarrow> ('s, nat option) op" where
  "merge_leaves P fuel page_id sibling_id parent_id root_page sibling_is_left =
     (let (left_id, right_id) = (if sibling_is_left then (sibling_id, page_id) else (page_id, sibling_id)) in
      mbind (read_node P right_id) (\<lambda>(rh, rdata).
      mbind (mlift (leaf_entries (num_keys rh) HEADER_SIZE rdata)) (\<lambda>right_entries.
      mbind (read_node P left_id) (\<lambda>(lh, ldata).
      mbind (mlift (rbind (append_entries right_entries lh ldata) (\<lambda>(h, page). serialize_header h page))) (\<lambda>page.
      mbind (po_write P left_id page) (\<lambda>_.
        remove_child_from_parent P fuel parent_id right_id root_page))))))"

definition handle_leaf_underflow :: "'s page_ops \<Rightarrow> nat \<Rightarrow> nat \<Rightarrow> nat \<Rightarrow> ('s, nat option) op" where
  "handle_leaf_underflow P fuel page_id root_page =
     mbind (read_node P page_id) (\<lambda>(h, _).
       if parent h = 0 then mret None
       else
         mbind (read_node P (parent h)) (\<lambda>(ph, pdata).
         mbind (mlift (find_sibling_info pdata ph page_id)) (\<lambda>(sibling_id, separator_key, sibling_is_left).
           if sibling_id = 0 then mfail (Error Corruption)
           else
             mbind (read_node P sibling_id) (\<lambda>(sh, _).
               if MIN_KEYS < num_keys sh
               then mbind (redistribute_from_sibling P page_id sibling_id (parent h) separator_key sibling_is_left)
                      (\<lambda>_. mret None)
               else merge_leaves P fuel page_id sibling_id (parent h) root_page sibling_is_left))))"

section \<open>The tree\<close>

record 's btree =
  root_page :: nat
  bt_pager :: 's

definition set_root :: "nat option \<Rightarrow> 's btree \<Rightarrow> 's btree" where
  "set_root r t = (case r of None \<Rightarrow> t | Some p \<Rightarrow> t\<lparr>root_page := p\<rparr>)"

definition on_pager :: "('s, 'a) op \<Rightarrow> ('s btree, 'a) op" where
  "on_pager m t = (case m (bt_pager t) of (r, s) \<Rightarrow> (r, t\<lparr>bt_pager := s\<rparr>))"

definition btree_new :: "'s page_ops \<Rightarrow> 's \<Rightarrow> ('s btree) result \<times> 's" where
  "btree_new P =
     mbind (po_alloc P) (\<lambda>root.
     mbind (mlift (serialize_header (header_new Leaf) blank_page)) (\<lambda>page.
     mbind (po_write P root page) (\<lambda>_ s. (Inr \<lparr>root_page = root, bt_pager = s\<rparr>, s))))"

definition btree_search :: "'s page_ops \<Rightarrow> nat \<Rightarrow> i64 \<Rightarrow> ('s btree, row option) op" where
  "btree_search P fuel key t = on_pager (search P fuel (root_page t) key) t"

definition btree_scan :: "'s page_ops \<Rightarrow> nat \<Rightarrow> ('s btree, (i64 \<times> row) list) op" where
  "btree_scan P fuel t = on_pager (scan_node P fuel (root_page t)) t"

definition btree_insert :: "'s page_ops \<Rightarrow> nat \<Rightarrow> i64 \<Rightarrow> row \<Rightarrow> ('s btree, unit) op" where
  "btree_insert P fuel key row t =
     mbind (on_pager (find_leaf P fuel (root_page t) key)) (\<lambda>leaf_page_id.
     mbind (on_pager (insert_into_leaf P fuel leaf_page_id key (serialize_row row)))
       (\<lambda>new_root t. (Inr (), set_root new_root t))) t"

definition btree_delete :: "'s page_ops \<Rightarrow> nat \<Rightarrow> i64 \<Rightarrow> ('s btree, bool) op" where
  "btree_delete P fuel key t =
     (let root = root_page t in
      mbind (on_pager (find_leaf P fuel root key)) (\<lambda>leaf_page_id.
      mbind (on_pager (po_read P leaf_page_id)) (\<lambda>page.
      mbind (mlift (leaf_delete key page)) (\<lambda>r.
        case r of
          None \<Rightarrow> mret False
        | Some (h, page) \<Rightarrow>
            mbind (on_pager (po_write P leaf_page_id page)) (\<lambda>_.
              if leaf_page_id \<noteq> root \<and> num_keys h < MIN_KEYS
              then mbind (on_pager (handle_leaf_underflow P fuel leaf_page_id root))
                     (\<lambda>new_root t. (Inr True, set_root new_root t))
              else mret True)))) t)"

end
