(* ===== verification/LeafPage.thy ===== *)
theory LeafPage
  imports BTreePage
begin

text \<open>
  What the page operations do to a well-formed leaf: a leaf page represents a list of entries, and
  looking up, inserting, deleting and rebuilding act on that list.
\<close>

section \<open>The layout\<close>

definition header_bytes :: "node_header \<Rightarrow> bytes" where
  "header_bytes h = node_type h # le_bytes 2 (num_keys h) @ le_bytes 4 (parent h)"

definition entry_bytes :: "i64 \<times> bytes \<Rightarrow> bytes" where
  "entry_bytes e = i64_to_le (fst e) @ le_bytes 4 (length (snd e)) @ snd e"

definition entries_bytes :: "(i64 \<times> bytes) list \<Rightarrow> bytes" where
  "entries_bytes es = concat (map entry_bytes es)"

definition entries_len :: "(i64 \<times> bytes) list \<Rightarrow> nat" where
  "entries_len es = sum_list (map (\<lambda>e. 12 + length (snd e)) es)"

text \<open>\<open>leaf_page page par es\<close>: the page is a leaf with parent field \<open>par\<close> holding the entries \<open>es\<close>.\<close>

definition leaf_page :: "bytes \<Rightarrow> nat \<Rightarrow> (i64 \<times> bytes) list \<Rightarrow> bool" where
  "leaf_page page par es \<longleftrightarrow>
     length page = page_size \<and> par < 2 ^ 32
     \<and> (\<exists>z pad. page = header_bytes \<lparr>node_type = Leaf, num_keys = length es, parent = par\<rparr>
            @ [z] @ entries_bytes es @ pad)"

lemma length_header_bytes [simp, codec_simps]: "length (header_bytes h) = 7"
  by (simp add: header_bytes_def)

lemma length_entry_bytes [codec_simps]: "length (entry_bytes e) = 12 + length (snd e)"
  by (simp add: entry_bytes_def)

lemma length_entries_bytes [simp]: "length (entries_bytes es) = entries_len es"
  by (simp add: entries_bytes_def entries_len_def length_concat comp_def length_entry_bytes)

lemma entries_simps [simp]:
  "entries_bytes [] = []" "entries_bytes (e # es) = entry_bytes e @ entries_bytes es"
  "entries_bytes (xs @ ys) = entries_bytes xs @ entries_bytes ys"
  "entries_len [] = 0" "entries_len (e # es) = 12 + length (snd e) + entries_len es"
  "entries_len (xs @ ys) = entries_len xs + entries_len ys"
  by (simp_all add: entries_bytes_def entries_len_def)

lemma entries_len_ge: "12 * length es \<le> entries_len es"
  by (induction es) simp_all

lemma entries_len_member: "e \<in> set es \<Longrightarrow> 12 + length (snd e) \<le> entries_len es"
  by (induction es) auto

text \<open>Everything in a page is far below the widths it is stored in.\<close>

lemma leaf_page_bounds:
  assumes "leaf_page page par es"
  shows "HEADER_SIZE + entries_len es \<le> page_size" and "length es < 2 ^ 16"
    and "e \<in> set es \<Longrightarrow> length (snd e) < 2 ^ 32"
proof -
  from assms obtain z pad where "length page = page_size"
    and "page = header_bytes \<lparr>node_type = Leaf, num_keys = length es, parent = par\<rparr> @ [z] @ entries_bytes es @ pad"
    by (auto simp: leaf_page_def)
  then show b: "HEADER_SIZE + entries_len es \<le> page_size" by (auto simp: HEADER_SIZE_def)
  then show "length es < 2 ^ 16"
    using entries_len_ge [of es] by (simp add: page_size_def HEADER_SIZE_def)
  assume "e \<in> set es"
  from entries_len_member [OF this] b show "length (snd e) < 2 ^ 32" by (simp add: page_size_def)
qed

section \<open>Headers\<close>

lemma take_drop_mid: "i = length a \<Longrightarrow> n = length b \<Longrightarrow> take n (drop i (a @ b @ c)) = b"
  by simp

lemma deserialize_header_bytes:
  assumes "num_keys h < 2 ^ 16" and "parent h < 2 ^ 32"
  shows "deserialize_header (header_bytes h @ z # rest) = Inr h"
proof -
  let ?b = "header_bytes h @ z # rest"
  have 1: "take 2 (drop 1 ?b) = le_bytes 2 (num_keys h)"
    unfolding header_bytes_def by (simp add: le_bytes.simps)
  have "?b = (node_type h # le_bytes 2 (num_keys h)) @ le_bytes 4 (parent h) @ [z] @ rest"
    by (simp add: header_bytes_def)
  then have 2: "take 4 (drop 3 ?b) = le_bytes 4 (parent h)"
    by (simp only:) (rule take_drop_mid, simp_all)
  have "?b ! 0 = node_type h" by (simp add: header_bytes_def)
  with 1 2 assms show ?thesis
    by (simp add: deserialize_header_def HEADER_SIZE_def le_nat_le_bytes_id)
qed

lemma serialize_header_bytes:
  assumes "length old = 7"
  shows "serialize_header h (old @ rest) = Inr (header_bytes h @ rest)"
  using put_mid [of 0 "[]" "header_bytes h" old rest] assms
  by (simp add: serialize_header_def header_bytes_def)

lemma serialize_header_any:
  assumes "7 \<le> length page"
  shows "serialize_header h page = Inr (header_bytes h @ drop 7 page)"
  using serialize_header_bytes [of "take 7 page" h "drop 7 page"] assms by simp

lemma leaf_page_header:
  assumes "leaf_page page par es"
  shows "deserialize_header page = Inr \<lparr>node_type = Leaf, num_keys = length es, parent = par\<rparr>"
  using assms leaf_page_bounds(2) [OF assms] unfolding leaf_page_def
  by (auto intro!: deserialize_header_bytes)

section \<open>Reading entries\<close>

lemma read_entry_mid:
  assumes "length d < 2 ^ 32"
  shows "read_i64 (length pre) (pre @ entry_bytes (k, d) @ post) = Inr k"
    and "read_u32 (length pre + 8) (pre @ entry_bytes (k, d) @ post) = Inr (length d)"
    and "slice (length pre + 12) (length pre + 12 + length d) (pre @ entry_bytes (k, d) @ post) = Inr d"
proof -
  let ?b = "pre @ entry_bytes (k, d) @ post"
  have e1: "?b = pre @ i64_to_le k @ (le_bytes 4 (length d) @ d @ post)"
    and e2: "?b = (pre @ i64_to_le k) @ le_bytes 4 (length d) @ (d @ post)"
    and e3: "?b = (pre @ i64_to_le k @ le_bytes 4 (length d)) @ d @ post"
    by (simp_all add: entry_bytes_def)
  show "read_i64 (length pre) ?b = Inr k"
    unfolding e1 by (rule read_i64_mid) simp
  show "read_u32 (length pre + 8) ?b = Inr (length d)"
    unfolding e2 using assms by (intro read_u32_mid) simp_all
  show "slice (length pre + 12) (length pre + 12 + length d) ?b = Inr d"
    unfolding e3 by (rule slice_mid) simp_all
qed

lemma shift_entry: "pre @ (entry_bytes e @ rest) @ post = (pre @ entry_bytes e) @ rest @ post"
  "length (pre @ entry_bytes (k, d)) = length pre + 12 + length d"
  by (simp_all add: length_entry_bytes)

definition entries_ok :: "(i64 \<times> bytes) list \<Rightarrow> bool" where
  "entries_ok es \<longleftrightarrow> (\<forall>e\<in>set es. length (snd e) < 2 ^ 32)"

lemma entries_ok_simps [simp]:
  "entries_ok []" "entries_ok (e # es) \<longleftrightarrow> length (snd e) < 2 ^ 32 \<and> entries_ok es"
  "entries_ok (xs @ ys) \<longleftrightarrow> entries_ok xs \<and> entries_ok ys"
  by (auto simp: entries_ok_def)

lemma leaf_entries_mid:
  assumes "entries_ok es"
  shows "leaf_entries (length es) (length pre) (pre @ entries_bytes es @ post) = Inr es"
  using assms
proof (induction es arbitrary: pre)
  case (Cons e es)
  obtain k d where e: "e = (k, d)" by (cases e)
  have d: "length d < 2 ^ 32" using Cons.prems by (simp add: e)
  have "leaf_entries (length es) (length pre + 12 + length d)
      (pre @ entry_bytes (k, d) @ entries_bytes es @ post) = Inr es"
    using Cons.IH [of "pre @ entry_bytes (k, d)"] Cons.prems by (simp add: length_entry_bytes add.assoc)
  with read_entry_mid [OF d, of pre k "entries_bytes es @ post"] show ?case
    by (simp add: e add.assoc)
qed simp

definition decodes_to :: "i64 \<times> bytes \<Rightarrow> i64 \<times> row \<Rightarrow> bool" where
  "decodes_to e r \<longleftrightarrow> fst r = fst e \<and> deserialize_row (snd e) = Inr (snd r)"

lemma leaf_rows_mid:
  assumes "entries_ok es" and "list_all2 decodes_to es rs"
  shows "leaf_rows (length es) (length pre) (pre @ entries_bytes es @ post) = Inr rs"
  using assms
proof (induction es arbitrary: pre rs)
  case (Cons e es)
  obtain k d where e: "e = (k, d)" by (cases e)
  obtain r rs' where rs: "rs = (k, r) # rs'" "deserialize_row d = Inr r" "list_all2 decodes_to es rs'"
    using Cons.prems(2) by (cases rs) (auto simp: e decodes_to_def [of "(k, d)"])
  have d: "length d < 2 ^ 32" using Cons.prems by (simp add: e)
  have "leaf_rows (length es) (length pre + 12 + length d)
      (pre @ entry_bytes (k, d) @ entries_bytes es @ post) = Inr rs'"
    using Cons.IH [OF _ rs(3), of "pre @ entry_bytes (k, d)"] Cons.prems
    by (simp add: length_entry_bytes add.assoc)
  with read_entry_mid [OF d, of pre k "entries_bytes es @ post"] rs show ?case
    by (simp add: e add.assoc)
qed simp

text \<open>Lookup: the first entry with the key, and where it lies.\<close>

lemma leaf_find_absent:
  assumes "entries_ok es" and "key \<notin> fst ` set es"
  shows "leaf_find (length es) (length pre) (pre @ entries_bytes es @ post) key = Inr None"
  using assms
proof (induction es arbitrary: pre)
  case (Cons e es)
  obtain k d where e: "e = (k, d)" by (cases e)
  have d: "length d < 2 ^ 32" using Cons.prems by (simp add: e)
  have "leaf_find (length es) (length pre + 12 + length d)
      (pre @ entry_bytes (k, d) @ entries_bytes es @ post) key = Inr None"
    using Cons.IH [of "pre @ entry_bytes (k, d)"] Cons.prems by (simp add: length_entry_bytes add.assoc)
  moreover have "k \<noteq> key" using Cons.prems by (auto simp: e)
  ultimately show ?case
    using read_entry_mid [OF d, of pre k "entries_bytes es @ post"] by (simp add: e add.assoc)
qed simp

lemma leaf_find_present:
  assumes "entries_ok es" and "entries_ok fs" and "length d < 2 ^ 32" and "key \<notin> fst ` set es"
  shows "leaf_find (length (es @ (key, d) # fs)) (length pre) (pre @ entries_bytes (es @ (key, d) # fs) @ post) key =
     Inr (Some (length pre + entries_len es, length d))"
  using assms
proof (induction es arbitrary: pre)
  case Nil
  from read_entry_mid [OF Nil.prems(3), of pre key "entries_bytes fs @ post"] show ?case by simp
next
  case (Cons e es)
  obtain k d' where e: "e = (k, d')" by (cases e)
  have d: "length d' < 2 ^ 32" using Cons.prems by (simp add: e)
  let ?rest = "entries_bytes (es @ (key, d) # fs) @ post"
  have "leaf_find (length (es @ (key, d) # fs)) (length pre + 12 + length d')
      (pre @ entry_bytes (k, d') @ ?rest) key = Inr (Some (length pre + 12 + length d' + entries_len es, length d))"
    using Cons.IH [of "pre @ entry_bytes (k, d')"] Cons.prems by (simp add: length_entry_bytes add.assoc)
  moreover have "k \<noteq> key" using Cons.prems by (auto simp: e)
  ultimately show ?case
    using read_entry_mid [OF d, of pre k ?rest] by (simp add: e add.assoc)
qed

lemma data_end_mid:
  assumes "entries_ok es" and "length pre + entries_len es \<le> page_size"
  shows "data_end (length es) (length pre) (pre @ entries_bytes es @ post) = Inr (length pre + entries_len es)"
  using assms
proof (induction es arbitrary: pre)
  case (Cons e es)
  obtain k d where e: "e = (k, d)" by (cases e)
  have d: "length d < 2 ^ 32" using Cons.prems by (simp add: e)
  have "data_end (length es) (length pre + 12 + length d)
      (pre @ entry_bytes (k, d) @ entries_bytes es @ post) = Inr (length pre + 12 + length d + entries_len es)"
    using Cons.IH [of "pre @ entry_bytes (k, d)"] Cons.prems by (simp add: e length_entry_bytes add.assoc)
  moreover have "take 4 (drop (length pre + 8) (pre @ entry_bytes (k, d) @ entries_bytes es @ post)) =
      le_bytes 4 (length d)"
    using take_drop_mid [of "length pre + 8" "pre @ i64_to_le k" 4 "le_bytes 4 (length d)"
        "d @ entries_bytes es @ post"] by (simp add: entry_bytes_def)
  ultimately show ?case
    using Cons.prems d by (simp add: e le_nat_le_bytes_id length_entry_bytes Let_def add.assoc)
qed simp

abbreviation not_above :: "i64 \<Rightarrow> i64 \<times> bytes \<Rightarrow> bool" where
  "not_above key e \<equiv> sint (fst e) \<le> sint key"

lemma leaf_insert_offset_mid:
  assumes "entries_ok es"
  shows "leaf_insert_offset (length es) (length pre) (pre @ entries_bytes es @ post) key =
     Inr (length pre + entries_len (takeWhile (not_above key) es))"
  using assms
proof (induction es arbitrary: pre)
  case (Cons e es)
  obtain k d where e: "e = (k, d)" by (cases e)
  have d: "length d < 2 ^ 32" using Cons.prems by (simp add: e)
  have "leaf_insert_offset (length es) (length pre + 12 + length d)
      (pre @ entry_bytes (k, d) @ entries_bytes es @ post) key =
      Inr (length pre + 12 + length d + entries_len (takeWhile (not_above key) es))"
    using Cons.IH [of "pre @ entry_bytes (k, d)"] Cons.prems by (simp add: length_entry_bytes add.assoc)
  with read_entry_mid [OF d, of pre k "entries_bytes es @ post"] show ?case
    by (simp add: e add.assoc not_le)
qed simp

section \<open>Operations on leaf pages\<close>

lemma leaf_page_split:
  assumes "leaf_page page par es"
  obtains pre z pad where "page = pre @ entries_bytes es @ pad" and "length pre = HEADER_SIZE"
    and "drop 7 pre = [z]"
proof -
  let ?h = "header_bytes \<lparr>node_type = Leaf, num_keys = length es, parent = par\<rparr>"
  from assms obtain z pad where "page = (?h @ [z]) @ entries_bytes es @ pad"
    by (auto simp: leaf_page_def)
  then show thesis by (rule that) (simp_all add: HEADER_SIZE_def nth_append)
qed

lemma leaf_page_entries_ok: "leaf_page page par es \<Longrightarrow> entries_ok es"
  using leaf_page_bounds(3) by (auto simp: entries_ok_def)

lemma leaf_page_read:
  assumes "leaf_page page par es"
  shows "leaf_entries (length es) HEADER_SIZE page = Inr es"
    and "list_all2 decodes_to es rs \<Longrightarrow> leaf_rows (length es) HEADER_SIZE page = Inr rs"
    and "data_end (length es) HEADER_SIZE page = Inr (HEADER_SIZE + entries_len es)"
    and "leaf_insert_offset (length es) HEADER_SIZE page key =
      Inr (HEADER_SIZE + entries_len (takeWhile (not_above key) es))"
proof -
  obtain pre pad where page: "page = pre @ entries_bytes es @ pad" and pre: "length pre = HEADER_SIZE"
    using leaf_page_split [OF assms] by metis
  note ok = leaf_page_entries_ok [OF assms] and b = leaf_page_bounds(1) [OF assms]
  show "leaf_entries (length es) HEADER_SIZE page = Inr es"
    using leaf_entries_mid [OF ok, of pre pad] by (simp add: page pre)
  show "list_all2 decodes_to es rs \<Longrightarrow> leaf_rows (length es) HEADER_SIZE page = Inr rs"
    using leaf_rows_mid [OF ok, of rs pre pad] by (simp add: page pre)
  show "data_end (length es) HEADER_SIZE page = Inr (HEADER_SIZE + entries_len es)"
    using data_end_mid [OF ok, of pre pad] b by (simp add: page pre)
  show "leaf_insert_offset (length es) HEADER_SIZE page key =
      Inr (HEADER_SIZE + entries_len (takeWhile (not_above key) es))"
    using leaf_insert_offset_mid [OF ok, of pre pad key] by (simp add: page pre)
qed

lemma leaf_page_find:
  assumes page: "leaf_page page par es"
  shows "key \<notin> fst ` set es \<Longrightarrow> leaf_find (length es) HEADER_SIZE page key = Inr None"
    and "es = xs @ (key, d) # ys \<Longrightarrow> key \<notin> fst ` set xs \<Longrightarrow>
      leaf_find (length es) HEADER_SIZE page key = Inr (Some (HEADER_SIZE + entries_len xs, length d))"
    and "es = xs @ (key, d) # ys \<Longrightarrow>
      slice (HEADER_SIZE + entries_len xs + 12) (HEADER_SIZE + entries_len xs + 12 + length d) page = Inr d"
proof -
  obtain pre pad where e: "page = pre @ entries_bytes es @ pad" and pre: "length pre = HEADER_SIZE"
    using leaf_page_split [OF page] by metis
  note ok = leaf_page_entries_ok [OF page]
  show "key \<notin> fst ` set es \<Longrightarrow> leaf_find (length es) HEADER_SIZE page key = Inr None"
    using leaf_find_absent [OF ok, of key pre pad] by (simp add: e pre)
  assume es: "es = xs @ (key, d) # ys"
  with ok have ok': "entries_ok xs" "entries_ok ys" "length d < 2 ^ 32" by simp_all
  show "key \<notin> fst ` set xs \<Longrightarrow>
      leaf_find (length es) HEADER_SIZE page key = Inr (Some (HEADER_SIZE + entries_len xs, length d))"
    using leaf_find_present [OF ok', of key pre pad] by (simp add: e pre es)
  show "slice (HEADER_SIZE + entries_len xs + 12) (HEADER_SIZE + entries_len xs + 12 + length d) page = Inr d"
    using read_entry_mid(3) [OF ok'(3), of "pre @ entries_bytes xs" key "entries_bytes ys @ pad"]
    by (simp add: e pre es)
qed

lemma leaf_pageI:
  assumes "length es < 2 ^ 16 \<Longrightarrow> page = header_bytes \<lparr>node_type = Leaf, num_keys = length es, parent = par\<rparr> @ z # entries_bytes es @ pad"
    and "length page = page_size" and "par < 2 ^ 32" and "length es < 2 ^ 16"
  shows "leaf_page page par es"
  using assms unfolding leaf_page_def by auto

lemma write_entry_at:
  assumes "length old = 12 + length d"
  shows "write_entry (length pre) key d (pre @ old @ post) = Inr (pre @ entry_bytes (key, d) @ post)"
proof -
  have "old = take 8 old @ take 4 (drop 8 old) @ drop 4 (drop 8 old)"
    by (simp only: append_take_drop_id)
  with assms obtain o1 o2 o3 where old: "old = o1 @ o2 @ o3" "length o1 = 8" "length o2 = 4" "length o3 = length d"
    by (auto intro!: that [of "take 8 old" "take 4 (drop 8 old)" "drop 4 (drop 8 old)"])
  have 1: "put (length pre) (i64_to_le key) (pre @ o1 @ (o2 @ o3 @ post)) = Inr (pre @ i64_to_le key @ (o2 @ o3 @ post))"
    by (rule put_mid) (simp_all add: old)
  have 2: "put (length pre + 8) (le_bytes 4 (length d)) ((pre @ i64_to_le key) @ o2 @ (o3 @ post)) =
      Inr ((pre @ i64_to_le key) @ le_bytes 4 (length d) @ (o3 @ post))"
    by (rule put_mid) (simp_all add: old)
  have 3: "put (length pre + 12) d ((pre @ i64_to_le key @ le_bytes 4 (length d)) @ o3 @ post) =
      Inr ((pre @ i64_to_le key @ le_bytes 4 (length d)) @ d @ post)"
    by (rule put_mid) (simp_all add: old)
  from 1 2 3 show ?thesis by (simp add: write_entry_def old(1) entry_bytes_def)
qed

text \<open>Opening a gap of \<open>n\<close> bytes in front of \<open>B\<close>; the gap holds what was there before.\<close>

lemma open_gap:
  assumes "n = length p1"
  obtains gap where "(if B \<noteq> [] then copy_within (length A) (length A + length B) (length A + n) (A @ B @ p1 @ p2)
      else Inr (A @ B @ p1 @ p2)) = Inr (A @ gap @ B @ p2)" and "length gap = n"
proof (cases "B = []")
  case True
  then show thesis using that [of p1] assms by simp
next
  case False
  let ?gap = "take n (B @ p1 @ p2)"
  have "drop (length A + (n + length B)) (A @ B @ p1 @ p2) = p2"
    using assms by (simp add: add.commute)
  then have "copy_within (length A) (length A + length B) (length A + n) (A @ B @ p1 @ p2) = Inr (A @ ?gap @ B @ p2)"
    using assms by (simp add: copy_within_def add.assoc)
  with False that [of ?gap] assms show thesis by simp
qed

definition insert_entry :: "i64 \<Rightarrow> bytes \<Rightarrow> (i64 \<times> bytes) list \<Rightarrow> (i64 \<times> bytes) list" where
  "insert_entry key d es = takeWhile (not_above key) es @ (key, d) # dropWhile (not_above key) es"

lemma leaf_insert_full:
  assumes page: "leaf_page page par es" and full: "page_size < HEADER_SIZE + entries_len es + (12 + length d)"
  shows "leaf_insert key d page = Inr None"
  using full by (simp add: leaf_insert_def leaf_page_header [OF page] leaf_page_read [OF page] find_data_end_def Let_def)

lemma leaf_insert_fits:
  assumes page: "leaf_page page par es" and fits: "HEADER_SIZE + entries_len es + (12 + length d) \<le> page_size"
  obtains page' where "leaf_insert key d page = Inr (Some page')" and "leaf_page page' par (insert_entry key d es)"
proof -
  let ?A = "takeWhile (not_above key) es" and ?B = "dropWhile (not_above key) es"
  let ?h = "\<lparr>node_type = Leaf, num_keys = length es, parent = par\<rparr>"
  obtain pre z pad where e: "page = pre @ entries_bytes es @ pad" and pre: "length pre = HEADER_SIZE"
    and hd: "drop 7 pre = [z]"
    using leaf_page_split [OF page] by metis
  have es: "entries_bytes es = entries_bytes ?A @ entries_bytes ?B" "entries_len es = entries_len ?A + entries_len ?B"
    by (simp_all flip: entries_simps)
  have len: "length page = page_size" using page by (simp add: leaf_page_def)
  then have "12 + length d \<le> length pad" using fits e pre by simp
  then obtain p1 p2 where pad: "pad = p1 @ p2" "length p1 = 12 + length d"
    by (metis append_take_drop_id length_take min.absorb2)
  let ?A' = "pre @ entries_bytes ?A"
  obtain gap where gap: "(if entries_bytes ?B \<noteq> []
      then copy_within (length ?A') (length ?A' + length (entries_bytes ?B)) (length ?A' + (12 + length d))
        (?A' @ entries_bytes ?B @ p1 @ p2)
      else Inr (?A' @ entries_bytes ?B @ p1 @ p2)) = Inr (?A' @ gap @ entries_bytes ?B @ p2)" "length gap = 12 + length d"
    by (rule open_gap [OF pad(2) [symmetric], where A = ?A' and B = "entries_bytes ?B" and ?p2.0 = p2])
  have page_eq: "page = ?A' @ entries_bytes ?B @ p1 @ p2" by (simp add: e es pad)
  have nz: "entries_len ?A < entries_len es \<longleftrightarrow> entries_bytes ?B \<noteq> []"
    using es(2) length_entries_bytes [of ?B] by (auto simp flip: length_greater_0_conv)
  have wr: "write_entry (length ?A') key d (?A' @ gap @ entries_bytes ?B @ p2) =
      Inr (?A' @ entry_bytes (key, d) @ entries_bytes ?B @ p2)"
    by (rule write_entry_at [OF gap(2)])
  let ?page = "header_bytes (?h\<lparr>num_keys := length es + 1\<rparr>) @ z # entries_bytes (insert_entry key d es) @ p2"
  have ser: "serialize_header (?h\<lparr>num_keys := length es + 1\<rparr>) (?A' @ entry_bytes (key, d) @ entries_bytes ?B @ p2) =
      Inr ?page"
    using hd pre by (subst serialize_header_any) (simp_all add: insert_entry_def HEADER_SIZE_def)
  show thesis
  proof (rule that [of ?page])
    have "(if entries_len ?A < entries_len es
        then copy_within (HEADER_SIZE + entries_len ?A) (HEADER_SIZE + entries_len es)
          (HEADER_SIZE + entries_len ?A + (12 + length d)) page
        else Inr page) = Inr (?A' @ gap @ entries_bytes ?B @ p2)"
      using gap(1) unfolding nz page_eq by (simp add: pre es(2) add.assoc cong: if_cong)
    then show "leaf_insert key d page = Inr (Some ?page)"
      using fits wr ser
      by (simp add: leaf_insert_def leaf_page_header [OF page] leaf_page_read [OF page] find_data_end_def Let_def pre)
    have l: "length (insert_entry key d es) = length es + 1"
      using arg_cong [OF takeWhile_dropWhile_id [of "not_above key" es], of length]
      by (simp add: insert_entry_def del: takeWhile_dropWhile_id)
    have "entries_len (insert_entry key d es) = entries_len es + (12 + length d)"
      by (simp add: insert_entry_def es(2))
    moreover have "length p2 = page_size - (HEADER_SIZE + entries_len es + (12 + length d))"
      using len e pre pad fits by simp
    ultimately have "length ?page = page_size" using fits by (simp add: HEADER_SIZE_def)
    with page l show "leaf_page ?page par (insert_entry key d es)"
      unfolding leaf_page_def by auto
  qed
qed

lemma close_gap:
  obtains rest where "(if Y \<noteq> [] then copy_within (length A + length E) (length A + length E + length Y) (length A)
        (A @ E @ Y @ pad)
      else Inr (A @ E @ Y @ pad)) = Inr (A @ Y @ rest)" and "length rest = length E + length pad"
proof (cases "Y = []")
  case True
  then show thesis using that [of "E @ pad"] by simp
next
  case False
  let ?rest = "drop (length Y) (E @ Y @ pad)"
  have "drop (length A + length E) (A @ E @ Y @ pad) = Y @ pad" by simp
  then have "copy_within (length A + length E) (length A + length E + length Y) (length A) (A @ E @ Y @ pad) =
      Inr (A @ Y @ ?rest)"
    by (simp add: copy_within_def)
  with False that [of ?rest] show thesis by simp
qed

lemma leaf_delete_absent:
  assumes page: "leaf_page page par es" and "key \<notin> fst ` set es"
  shows "leaf_delete key page = Inr None"
  by (simp add: leaf_delete_def leaf_page_header [OF page] leaf_page_find(1) [OF page assms(2)])

lemma leaf_delete_present:
  assumes page: "leaf_page page par es" and es: "es = xs @ (key, d) # ys" and key: "key \<notin> fst ` set xs"
  obtains page' where "leaf_page page' par (xs @ ys)" and "leaf_delete key page =
    Inr (Some (\<lparr>node_type = Leaf, num_keys = length (xs @ ys), parent = par\<rparr>, page'))"
proof -
  let ?h = "\<lparr>node_type = Leaf, num_keys = length es, parent = par\<rparr>"
  obtain pre z pad where e: "page = pre @ entries_bytes es @ pad" and pre: "length pre = HEADER_SIZE"
    and hd: "drop 7 pre = [z]"
    by (rule leaf_page_split [OF page])
  let ?A = "pre @ entries_bytes xs"
  obtain rest where gap: "(if entries_bytes ys \<noteq> []
      then copy_within (length ?A + length (entry_bytes (key, d)))
        (length ?A + length (entry_bytes (key, d)) + length (entries_bytes ys)) (length ?A)
        (?A @ entry_bytes (key, d) @ entries_bytes ys @ pad)
      else Inr (?A @ entry_bytes (key, d) @ entries_bytes ys @ pad)) = Inr (?A @ entries_bytes ys @ rest)"
    and rest: "length rest = length (entry_bytes (key, d)) + length pad"
    by (rule close_gap [where A = ?A and E = "entry_bytes (key, d)" and Y = "entries_bytes ys" and pad = pad])
  have page_eq: "page = ?A @ entry_bytes (key, d) @ entries_bytes ys @ pad" by (simp add: e es)
  have nz: "HEADER_SIZE + entries_len xs + (12 + length d) < HEADER_SIZE + entries_len es \<longleftrightarrow> entries_bytes ys \<noteq> []"
    using length_entries_bytes [of ys] by (auto simp: es simp flip: length_greater_0_conv)
  have "(if HEADER_SIZE + entries_len xs + (12 + length d) < HEADER_SIZE + entries_len es
      then copy_within (HEADER_SIZE + entries_len xs + (12 + length d)) (HEADER_SIZE + entries_len es)
        (HEADER_SIZE + entries_len xs) page
      else Inr page) = Inr (?A @ entries_bytes ys @ rest)"
    using gap unfolding nz page_eq by (simp add: pre es length_entry_bytes add.assoc cong: if_cong)
  moreover let ?page = "header_bytes (?h\<lparr>num_keys := length (xs @ ys)\<rparr>) @ z # entries_bytes (xs @ ys) @ rest"
  have "serialize_header (?h\<lparr>num_keys := length (xs @ ys)\<rparr>) (?A @ entries_bytes ys @ rest) = Inr ?page"
    using hd pre by (subst serialize_header_any) (simp_all add: HEADER_SIZE_def)
  moreover have num: "length es - 1 = length (xs @ ys)" by (simp add: es)
  ultimately have del: "leaf_delete key page =
      Inr (Some (\<lparr>node_type = Leaf, num_keys = length (xs @ ys), parent = par\<rparr>, ?page))"
    using leaf_page_find(2) [OF page es key] leaf_page_read(3) [OF page] num
    by (simp add: leaf_delete_def leaf_page_header [OF page] find_data_end_def Let_def cong: if_cong)
  have "length page = page_size" using page by (simp add: leaf_page_def)
  then have "length ?page = page_size" using rest e pre by (simp add: es HEADER_SIZE_def length_entry_bytes)
  with page have "leaf_page ?page par (xs @ ys)" unfolding leaf_page_def by auto
  from that [OF this del] show thesis .
qed

section \<open>Building leaf pages\<close>

lemma fill_leaf_at:
  assumes "entries_len es \<le> length blank"
  shows "fill_leaf (length pre) es (pre @ blank) = Inr (pre @ entries_bytes es @ drop (entries_len es) blank)"
  using assms
proof (induction es arbitrary: pre blank)
  case (Cons e es)
  obtain k d where e: "e = (k, d)" by (cases e)
  let ?n = "12 + length d"
  have n: "?n \<le> length blank" using Cons.prems by (simp add: e)
  then have "write_entry (length pre) k d (pre @ take ?n blank @ drop ?n blank) =
      Inr (pre @ entry_bytes (k, d) @ drop ?n blank)"
    by (intro write_entry_at) simp
  moreover have "fill_leaf (length pre + ?n) es ((pre @ entry_bytes (k, d)) @ drop ?n blank) =
      Inr ((pre @ entry_bytes (k, d)) @ entries_bytes es @ drop (entries_len es) (drop ?n blank))"
    using Cons.IH [of "drop ?n blank" "pre @ entry_bytes (k, d)"] Cons.prems
    by (simp add: e length_entry_bytes)
  ultimately show ?case by (simp add: e add.commute)
qed simp

lemma fresh_leaf:
  assumes "HEADER_SIZE + entries_len es \<le> page_size" and "par < 2 ^ 32"
    and h: "h = \<lparr>node_type = Leaf, num_keys = length es, parent = par\<rparr>"
  obtains page where "rbind (fill_leaf HEADER_SIZE es (replicate page_size 0)) (serialize_header h) = Inr page"
    and "leaf_page page par es"
proof -
  let ?z = "replicate HEADER_SIZE (0 :: u8)" and ?r = "replicate (page_size - HEADER_SIZE) (0 :: u8)"
  have le: "HEADER_SIZE \<le> page_size" using assms(1) by simp
  have blank: "replicate page_size 0 = ?z @ ?r" using le by (simp flip: replicate_add)
  have "fill_leaf (length ?z) es (?z @ ?r) = Inr (?z @ entries_bytes es @ drop (entries_len es) ?r)"
    using assms(1) by (intro fill_leaf_at) simp
  then have fill: "fill_leaf HEADER_SIZE es (replicate page_size 0) =
      Inr (?z @ entries_bytes es @ drop (entries_len es) ?r)" by (simp add: blank)
  let ?page = "header_bytes h @ 0 # entries_bytes es @ drop (entries_len es) ?r"
  have "drop 7 ?z = [0]" by (simp add: HEADER_SIZE_def)
  then have ser: "serialize_header h (?z @ entries_bytes es @ drop (entries_len es) ?r) = Inr ?page"
    by (subst serialize_header_any) (simp_all add: HEADER_SIZE_def)
  have "length ?page = page_size" using assms(1) by (simp add: HEADER_SIZE_def)
  then have "leaf_page ?page par es" using assms(2) h unfolding leaf_page_def by auto
  with fill ser show thesis by (intro that [of ?page]) simp_all
qed

lemma append_entries_at:
  assumes "length pre = HEADER_SIZE" and "num_keys h = length es" and "entries_ok (es @ fs)"
    and "HEADER_SIZE + entries_len (es @ fs) \<le> page_size"
    and "length (pre @ entries_bytes es @ pad) = page_size"
  shows "append_entries fs h (pre @ entries_bytes es @ pad) =
     Inr (h\<lparr>num_keys := length (es @ fs)\<rparr>, pre @ entries_bytes (es @ fs) @ drop (entries_len fs) pad)"
  using assms
proof (induction fs arbitrary: es h pad)
  case Nil
  then show ?case by (cases h) simp
next
  case (Cons f fs)
  obtain k d where f: "f = (k, d)" by (cases f)
  let ?n = "12 + length d"
  have n: "?n \<le> length pad" using Cons.prems by (simp add: f)
  have end': "find_data_end h (pre @ entries_bytes es @ pad) = Inr (HEADER_SIZE + entries_len es)"
    using data_end_mid [of es pre pad] Cons.prems by (simp add: find_data_end_def)
  have "write_entry (length (pre @ entries_bytes es)) k d ((pre @ entries_bytes es) @ take ?n pad @ drop ?n pad) =
      Inr ((pre @ entries_bytes es) @ entry_bytes (k, d) @ drop ?n pad)"
    using n by (intro write_entry_at) simp
  then have wr: "write_entry (HEADER_SIZE + entries_len es) k d (pre @ entries_bytes es @ pad) =
      Inr (pre @ entries_bytes (es @ [(k, d)]) @ drop ?n pad)"
    using Cons.prems(1) by simp
  have "append_entries fs (h\<lparr>num_keys := num_keys h + 1\<rparr>) (pre @ entries_bytes (es @ [(k, d)]) @ drop ?n pad) =
      Inr (h\<lparr>num_keys := length ((es @ [(k, d)]) @ fs)\<rparr>,
        pre @ entries_bytes ((es @ [(k, d)]) @ fs) @ drop (entries_len fs) (drop ?n pad))"
    using Cons.IH [of "h\<lparr>num_keys := num_keys h + 1\<rparr>" "es @ [(k, d)]" "drop ?n pad"] Cons.prems n
    by (simp add: f length_entry_bytes)
  with end' wr Cons.prems(4) show ?case by (simp add: f add.commute)
qed

text \<open>When the merged entries do not fit, the merge reports the storage error.\<close>

lemma append_entries_full:
  assumes "length pre = HEADER_SIZE" and "num_keys h = length es" and "entries_ok (es @ fs)"
    and "HEADER_SIZE + entries_len es \<le> page_size" and "page_size < HEADER_SIZE + entries_len (es @ fs)"
    and "length (pre @ entries_bytes es @ pad) = page_size"
  shows "append_entries fs h (pre @ entries_bytes es @ pad) = Inl (Error StorageError)"
  using assms
proof (induction fs arbitrary: es h pad)
  case (Cons f fs)
  obtain k d where f: "f = (k, d)" by (cases f)
  let ?n = "12 + length d"
  have end': "find_data_end h (pre @ entries_bytes es @ pad) = Inr (HEADER_SIZE + entries_len es)"
    using data_end_mid [of es pre pad] Cons.prems by (simp add: find_data_end_def)
  show ?case
  proof (cases "page_size < HEADER_SIZE + entries_len es + ?n")
    case True
    with end' show ?thesis by (simp add: f)
  next
    case False
    have n: "?n \<le> length pad" using False Cons.prems by simp
    have "write_entry (length (pre @ entries_bytes es)) k d ((pre @ entries_bytes es) @ take ?n pad @ drop ?n pad) =
        Inr ((pre @ entries_bytes es) @ entry_bytes (k, d) @ drop ?n pad)"
      using n by (intro write_entry_at) simp
    then have wr: "write_entry (HEADER_SIZE + entries_len es) k d (pre @ entries_bytes es @ pad) =
        Inr (pre @ entries_bytes (es @ [(k, d)]) @ drop ?n pad)"
      using Cons.prems(1) by simp
    have "append_entries fs (h\<lparr>num_keys := num_keys h + 1\<rparr>) (pre @ entries_bytes (es @ [(k, d)]) @ drop ?n pad) =
        Inl (Error StorageError)"
      using Cons.IH [of "h\<lparr>num_keys := num_keys h + 1\<rparr>" "es @ [(k, d)]" "drop ?n pad"] Cons.prems n False
      by (simp add: f length_entry_bytes)
    with end' wr False show ?thesis by (simp add: f)
  qed
qed simp

end
