(* ===== verification/InternalPage.thy ===== *)
theory InternalPage
  imports LeafPage
begin

text \<open>
  What the page operations do to a well-formed internal node: it represents a first child and a
  list of (key, child) pairs.
\<close>

section \<open>The layout\<close>

definition pair_bytes :: "i64 \<times> nat \<Rightarrow> bytes" where
  "pair_bytes p = i64_to_le (fst p) @ le_bytes 8 (snd p)"

definition pairs_bytes :: "(i64 \<times> nat) list \<Rightarrow> bytes" where
  "pairs_bytes ps = concat (map pair_bytes ps)"

definition node_page :: "bytes \<Rightarrow> nat \<Rightarrow> nat \<Rightarrow> (i64 \<times> nat) list \<Rightarrow> bool" where
  "node_page page par c ps \<longleftrightarrow>
     length page = page_size \<and> par < 2 ^ 32 \<and> c < 2 ^ 64 \<and> (\<forall>p\<in>set ps. snd p < 2 ^ 64)
     \<and> (\<exists>z pad. page = header_bytes \<lparr>node_type = Internal, num_keys = length ps, parent = par\<rparr>
            @ [z] @ le_bytes 8 c @ pairs_bytes ps @ pad)"

lemma length_pair_bytes [simp]: "length (pair_bytes p) = 16"
  by (simp add: pair_bytes_def)

lemma length_pairs_bytes [simp]: "length (pairs_bytes ps) = 16 * length ps"
  by (simp add: pairs_bytes_def length_concat comp_def sum_list_triv)

lemma pairs_simps [simp]:
  "pairs_bytes [] = []" "pairs_bytes (p # ps) = pair_bytes p @ pairs_bytes ps"
  "pairs_bytes (xs @ ys) = pairs_bytes xs @ pairs_bytes ys"
  by (simp_all add: pairs_bytes_def)

definition pairs_ok :: "(i64 \<times> nat) list \<Rightarrow> bool" where
  "pairs_ok ps \<longleftrightarrow> (\<forall>p\<in>set ps. snd p < 2 ^ 64)"

lemma pairs_ok_simps [simp]:
  "pairs_ok []" "pairs_ok (p # ps) \<longleftrightarrow> snd p < 2 ^ 64 \<and> pairs_ok ps"
  "pairs_ok (xs @ ys) \<longleftrightarrow> pairs_ok xs \<and> pairs_ok ys"
  by (auto simp: pairs_ok_def)

lemma node_page_bounds:
  assumes "node_page page par c ps"
  shows "HEADER_SIZE + 8 + 16 * length ps \<le> page_size" and "length ps < 2 ^ 16" and "pairs_ok ps"
    and "c < 2 ^ 64"
proof -
  from assms obtain z pad where "length page = page_size"
    and "page = header_bytes \<lparr>node_type = Internal, num_keys = length ps, parent = par\<rparr>
      @ [z] @ le_bytes 8 c @ pairs_bytes ps @ pad"
    by (auto simp: node_page_def)
  then show b: "HEADER_SIZE + 8 + 16 * length ps \<le> page_size" by (auto simp: HEADER_SIZE_def)
  then show "length ps < 2 ^ 16" by (simp add: page_size_def HEADER_SIZE_def)
  show "pairs_ok ps" "c < 2 ^ 64" using assms by (auto simp: node_page_def pairs_ok_def)
qed

lemma node_page_header:
  assumes "node_page page par c ps"
  shows "deserialize_header page = Inr \<lparr>node_type = Internal, num_keys = length ps, parent = par\<rparr>"
  using assms node_page_bounds(2) [OF assms] unfolding node_page_def
  by (auto intro!: deserialize_header_bytes)

lemma node_page_split:
  assumes "node_page page par c ps"
  obtains pre z pad where "page = pre @ pairs_bytes ps @ pad" and "length pre = HEADER_SIZE + 8"
    and "drop 7 pre = z # le_bytes 8 c"
proof -
  let ?h = "header_bytes \<lparr>node_type = Internal, num_keys = length ps, parent = par\<rparr>"
  from assms obtain z pad where "page = (?h @ z # le_bytes 8 c) @ pairs_bytes ps @ pad"
    by (auto simp: node_page_def)
  then show thesis by (rule that) (simp_all add: HEADER_SIZE_def)
qed

lemma node_pageI:
  assumes "serialize_header \<lparr>node_type = Internal, num_keys = length ps, parent = par\<rparr>
      (pre @ pairs_bytes ps @ pad) = Inr page"
    and "drop 7 pre = z # le_bytes 8 c" and "length (pre @ pairs_bytes ps @ pad) = page_size"
    and "par < 2 ^ 32" and "c < 2 ^ 64" and "pairs_ok ps"
  shows "node_page page par c ps"
proof -
  have "length (drop 7 pre) = 9" by (simp add: assms(2))
  then have "length pre = 16" by simp
  then have "page = header_bytes \<lparr>node_type = Internal, num_keys = length ps, parent = par\<rparr>
      @ [z] @ le_bytes 8 c @ pairs_bytes ps @ pad"
    using assms(1,2) by (simp add: serialize_header_any)
  moreover from this have "length page = page_size" using assms(3) \<open>length pre = 16\<close> by simp
  ultimately show ?thesis using assms(4-6) unfolding node_page_def pairs_ok_def by auto
qed

section \<open>Reading\<close>

lemma read_pair_mid:
  assumes "c < 2 ^ 64"
  shows "read_i64 (length pre) (pre @ pair_bytes (k, c) @ post) = Inr k"
    and "read_u64 (length pre + 8) (pre @ pair_bytes (k, c) @ post) = Inr c"
proof -
  let ?b = "pre @ pair_bytes (k, c) @ post"
  have e1: "?b = pre @ i64_to_le k @ (le_bytes 8 c @ post)" and e2: "?b = (pre @ i64_to_le k) @ le_bytes 8 c @ post"
    by (simp_all add: pair_bytes_def)
  show "read_i64 (length pre) ?b = Inr k" unfolding e1 by (rule read_i64_mid) simp
  show "read_u64 (length pre + 8) ?b = Inr c" unfolding e2 using assms by (intro read_u64_mid) simp_all
qed

fun pick_child :: "nat \<Rightarrow> (i64 \<times> nat) list \<Rightarrow> i64 \<Rightarrow> nat" where
  "pick_child c [] key = c"
| "pick_child c ((k, c') # ps) key = (if sint key < sint k then c else pick_child c' ps key)"

lemma find_child_mid:
  assumes "pairs_ok ps"
  shows "find_child (length ps) (length pre) (pre @ pairs_bytes ps @ post) key c = Inr (pick_child c ps key)"
  using assms
proof (induction ps arbitrary: pre c)
  case (Cons p ps)
  obtain k c' where p: "p = (k, c')" by (cases p)
  from Cons.IH [of "pre @ pair_bytes (k, c')" c'] read_pair_mid [of c' pre k "pairs_bytes ps @ post"] Cons.prems
  show ?case by (simp add: p)
qed simp

lemma parse_pairs_mid:
  assumes "pairs_ok ps"
  shows "parse_pairs (length ps) (length pre) (pre @ pairs_bytes ps @ post) = Inr (map fst ps, map snd ps)"
  using assms
proof (induction ps arbitrary: pre)
  case (Cons p ps)
  obtain k c' where p: "p = (k, c')" by (cases p)
  from Cons.IH [of "pre @ pair_bytes (k, c')"] read_pair_mid [of c' pre k "pairs_bytes ps @ post"] Cons.prems
  show ?case by (simp add: p)
qed simp

lemma internal_insert_idx_mid:
  assumes "pairs_ok ps"
  shows "internal_insert_idx (length ps) (length pre) (pre @ pairs_bytes ps @ post) key =
     Inr (length (takeWhile (\<lambda>p. sint (fst p) \<le> sint key) ps))"
  using assms
proof (induction ps arbitrary: pre)
  case (Cons p ps)
  obtain k c' where p: "p = (k, c')" by (cases p)
  from Cons.IH [of "pre @ pair_bytes (k, c')"] read_pair_mid(1) [of c' pre k "pairs_bytes ps @ post"] Cons.prems
  show ?case by (simp add: p not_le)
qed simp

lemma sibling_loop_mid:
  assumes "pairs_ok ps" and "child \<notin> snd ` set xs" and "ps = xs @ (k, child) # ys"
  shows "sibling_loop (length ps) (length pre) (pre @ pairs_bytes ps @ post) child prev =
     Inr (last (prev # map snd xs), k, True)"
  using assms
proof (induction xs arbitrary: pre ps prev)
  case Nil
  with read_pair_mid [of child pre k "pairs_bytes ys @ post"] show ?case by simp
next
  case (Cons x xs)
  obtain k' c' where x: "x = (k', c')" by (cases x)
  define ps' where "ps' = xs @ (k, child) # ys"
  have ps: "ps = (k', c') # ps'" using Cons.prems(3) by (simp add: x ps'_def)
  have "sibling_loop (length ps') (length (pre @ pair_bytes (k', c')))
      ((pre @ pair_bytes (k', c')) @ pairs_bytes ps' @ post) child c' = Inr (last (c' # map snd xs), k, True)"
    using Cons.prems by (intro Cons.IH) (auto simp: ps ps'_def)
  moreover have "c' \<noteq> child" using Cons.prems(2) by (auto simp: x)
  ultimately show ?case
    using read_pair_mid [of c' pre k' "pairs_bytes ps' @ post"] Cons.prems by (simp add: ps x)
qed

lemma child_pair_mid:
  assumes "pairs_ok ps" and "child \<notin> snd ` set xs" and "ps = xs @ (k, child) # ys"
  shows "child_pair (length ps) (length pre) (pre @ pairs_bytes ps @ post) child =
     Inr (Some (length pre + 16 * length xs))"
  using assms
proof (induction xs arbitrary: pre ps)
  case Nil
  with read_pair_mid [of child pre k "pairs_bytes ys @ post"] show ?case by simp
next
  case (Cons x xs)
  obtain k' c' where x: "x = (k', c')" by (cases x)
  define ps' where "ps' = xs @ (k, child) # ys"
  have ps: "ps = (k', c') # ps'" using Cons.prems(3) by (simp add: x ps'_def)
  have "child_pair (length ps') (length (pre @ pair_bytes (k', c')))
      ((pre @ pair_bytes (k', c')) @ pairs_bytes ps' @ post) child =
      Inr (Some (length (pre @ pair_bytes (k', c')) + 16 * length xs))"
    using Cons.prems by (intro Cons.IH) (auto simp: ps ps'_def)
  moreover have "c' \<noteq> child" using Cons.prems(2) by (auto simp: x)
  ultimately show ?case
    using read_pair_mid [of c' pre k' "pairs_bytes ps' @ post"] Cons.prems by (simp add: ps x)
qed

lemma node_page_read:
  assumes "node_page page par c ps"
  shows "read_u64 HEADER_SIZE page = Inr c"
    and "find_child (length ps) (HEADER_SIZE + 8) page key c = Inr (pick_child c ps key)"
    and "parse_internal_node page \<lparr>node_type = Internal, num_keys = length ps, parent = par\<rparr> =
      Inr (map fst ps, c # map snd ps)"
    and "internal_insert_idx (length ps) (HEADER_SIZE + 8) page key =
      Inr (length (takeWhile (\<lambda>p. sint (fst p) \<le> sint key) ps))"
proof -
  obtain pre z pad where e: "page = pre @ pairs_bytes ps @ pad" and pre: "length pre = HEADER_SIZE + 8"
    and z: "drop 7 pre = z # le_bytes 8 c"
    by (rule node_page_split [OF assms])
  note b = node_page_bounds [OF assms]
  have "pre = (take 7 pre @ [z]) @ le_bytes 8 c" using z by (metis append_take_drop_id append_assoc append_Cons append_Nil)
  then have p: "page = (take 7 pre @ [z]) @ le_bytes 8 c @ pairs_bytes ps @ pad" by (simp add: e)
  show c: "read_u64 HEADER_SIZE page = Inr c"
    unfolding p using b(4) pre by (intro read_u64_mid) (simp_all add: HEADER_SIZE_def)
  show "find_child (length ps) (HEADER_SIZE + 8) page key c = Inr (pick_child c ps key)"
    using find_child_mid [OF b(3), of pre pad] by (simp add: e pre)
  have "parse_pairs (length ps) (HEADER_SIZE + 8) page = Inr (map fst ps, map snd ps)"
    using parse_pairs_mid [OF b(3), of pre pad] by (simp add: e pre)
  with c show "parse_internal_node page \<lparr>node_type = Internal, num_keys = length ps, parent = par\<rparr> =
      Inr (map fst ps, c # map snd ps)"
    by (simp add: parse_internal_node_def)
  show "internal_insert_idx (length ps) (HEADER_SIZE + 8) page key =
      Inr (length (takeWhile (\<lambda>p. sint (fst p) \<le> sint key) ps))"
    using internal_insert_idx_mid [OF b(3), of pre pad] by (simp add: e pre)
qed

lemma node_page_child:
  assumes "node_page page par c ps" and "i < length ps"
  shows "read_u64 (HEADER_SIZE + 8 + 16 * i + 8) page = Inr (snd (ps ! i))"
proof -
  obtain pre z pad where e: "page = pre @ pairs_bytes ps @ pad" and pre: "length pre = HEADER_SIZE + 8"
    by (rule node_page_split [OF assms(1)])
  have ps: "ps = take i ps @ (fst (ps ! i), snd (ps ! i)) # drop (Suc i) ps"
    using assms(2) by (simp add: id_take_nth_drop)
  have "snd (ps ! i) < 2 ^ 64" using node_page_bounds(3) [OF assms(1)] assms(2) by (simp add: pairs_ok_def)
  from read_pair_mid(2) [OF this, of "pre @ pairs_bytes (take i ps)" "fst (ps ! i)" "pairs_bytes (drop (Suc i) ps) @ pad"]
  have "read_u64 (HEADER_SIZE + 8 + 16 * i + 8) (pre @ pairs_bytes (take i ps @ (fst (ps ! i), snd (ps ! i)) # drop (Suc i) ps) @ pad)
      = Inr (snd (ps ! i))"
    using assms(2) by (simp add: pre)
  with e show ?thesis by (simp only: ps [symmetric])
qed

lemma node_page_sibling:
  assumes "node_page page par c ps"
  shows "ps = (k, s) # ps' \<Longrightarrow>
      find_sibling_info page \<lparr>node_type = Internal, num_keys = length ps, parent = par\<rparr> c = Inr (s, k, False)"
    and "ps = xs @ (k, child) # ys \<Longrightarrow> child \<notin> set (c # map snd xs) \<Longrightarrow>
      find_sibling_info page \<lparr>node_type = Internal, num_keys = length ps, parent = par\<rparr> child =
        Inr (last (c # map snd xs), k, True)"
proof -
  obtain pre z pad where e: "page = pre @ pairs_bytes ps @ pad" and pre: "length pre = HEADER_SIZE + 8"
    by (rule node_page_split [OF assms])
  note b = node_page_bounds [OF assms] and rd = node_page_read(1) [OF assms]
  {
    assume ps: "ps = (k, s) # ps'"
    from b(3) read_pair_mid [of s pre k "pairs_bytes ps' @ pad"]
    show "find_sibling_info page \<lparr>node_type = Internal, num_keys = length ps, parent = par\<rparr> c = Inr (s, k, False)"
      by (simp add: find_sibling_info_def rd) (simp add: e ps pre add.commute [of HEADER_SIZE])
  next
    assume ps: "ps = xs @ (k, child) # ys" and n: "child \<notin> set (c # map snd xs)"
    from n have "sibling_loop (length ps) (HEADER_SIZE + 8) page child c = Inr (last (c # map snd xs), k, True)"
      using sibling_loop_mid [OF b(3) _ ps, of pre pad c] by (simp add: e pre image_iff)
    with n show "find_sibling_info page \<lparr>node_type = Internal, num_keys = length ps, parent = par\<rparr> child =
        Inr (last (c # map snd xs), k, True)"
      by (simp add: find_sibling_info_def rd del: last.simps)
  }
qed

section \<open>Writing\<close>

lemma put_pair_at:
  assumes "length old = 16"
  shows "rbind (put (length pre) (i64_to_le k) (pre @ old @ post)) (\<lambda>page.
      put (length pre + 8) (le_bytes 8 c) page) = Inr (pre @ pair_bytes (k, c) @ post)"
proof -
  have "old = take 8 old @ drop 8 old" by simp
  then obtain o1 o2 where old: "old = o1 @ o2" "length o1 = 8" "length o2 = 8"
    using assms by (intro that [of "take 8 old" "drop 8 old"]) simp_all
  have 1: "put (length pre) (i64_to_le k) (pre @ o1 @ (o2 @ post)) = Inr (pre @ i64_to_le k @ (o2 @ post))"
    by (rule put_mid) (simp_all add: old)
  have 2: "put (length pre + 8) (le_bytes 8 c) ((pre @ i64_to_le k) @ o2 @ post) =
      Inr ((pre @ i64_to_le k) @ le_bytes 8 c @ post)"
    by (rule put_mid) (simp_all add: old)
  from 1 2 show ?thesis by (simp add: old(1) pair_bytes_def)
qed

lemma write_pairs_at:
  assumes "16 * length ps \<le> length blank"
  shows "write_pairs (length pre) ps (pre @ blank) = Inr (pre @ pairs_bytes ps @ drop (16 * length ps) blank)"
  using assms
proof (induction ps arbitrary: pre blank)
  case (Cons p ps)
  obtain k c where p: "p = (k, c)" by (cases p)
  have "rbind (put (length pre) (i64_to_le k) (pre @ take 16 blank @ drop 16 blank)) (\<lambda>page.
      put (length pre + 8) (le_bytes 8 c) page) = Inr (pre @ pair_bytes (k, c) @ drop 16 blank)"
    using Cons.prems by (intro put_pair_at) simp
  moreover have "write_pairs (length (pre @ pair_bytes (k, c))) ps ((pre @ pair_bytes (k, c)) @ drop 16 blank) =
      Inr ((pre @ pair_bytes (k, c)) @ pairs_bytes ps @ drop (16 * length ps) (drop 16 blank))"
    using Cons.prems by (intro Cons.IH) simp
  ultimately show ?case
    by (auto simp: p rbind_eq_Inr add.commute)
qed simp

lemma fresh_node:
  assumes h: "h = \<lparr>node_type = Internal, num_keys = length ps, parent = par\<rparr>"
    and b: "HEADER_SIZE + 8 + 16 * length ps \<le> page_size" and par: "par < 2 ^ 32"
    and ok: "c < 2 ^ 64" "pairs_ok ps" and cs: "keys = map fst ps" "children = c # map snd ps"
  obtains page where "rbind (serialize_header h (replicate page_size 0)) (put_internal_body keys children) = Inr page"
    and "rbind (serialize_header h (replicate page_size 0)) (write_internal_body keys children) = Inr page"
    and "node_page page par c ps"
proof -
  let ?r = "replicate (page_size - HEADER_SIZE - 8) (0 :: u8)"
  have "page_size = 7 + (1 + (8 + (page_size - HEADER_SIZE - 8)))" using b by (simp add: HEADER_SIZE_def)
  then have blank: "replicate page_size (0 :: u8) = replicate 7 0 @ [0] @ replicate 8 0 @ ?r"
    by (metis replicate_add replicate_Suc replicate_0 One_nat_def)
  have ser: "serialize_header h (replicate page_size 0) = Inr (header_bytes h @ [0] @ replicate 8 0 @ ?r)"
    unfolding blank by (rule serialize_header_bytes) simp
  let ?p = "header_bytes h @ [0] @ le_bytes 8 c @ pairs_bytes ps @ drop (16 * length ps) ?r"
  have "put HEADER_SIZE (le_bytes 8 c) ((header_bytes h @ [0]) @ replicate 8 0 @ ?r) =
      Inr ((header_bytes h @ [0]) @ le_bytes 8 c @ ?r)"
    by (rule put_mid) (simp_all add: HEADER_SIZE_def)
  moreover have "write_pairs (length (header_bytes h @ [0] @ le_bytes 8 c)) ps ((header_bytes h @ [0] @ le_bytes 8 c) @ ?r) =
      Inr ((header_bytes h @ [0] @ le_bytes 8 c) @ pairs_bytes ps @ drop (16 * length ps) ?r)"
    using b by (intro write_pairs_at) simp
  moreover have "zip keys (map snd ps) = ps" by (simp add: cs zip_map_fst_snd)
  ultimately have body: "put_internal_body keys children (header_bytes h @ [0] @ replicate 8 0 @ ?r) = Inr ?p"
    by (simp add: put_internal_body_def cs HEADER_SIZE_def)
  then have wbody: "write_internal_body keys children (header_bytes h @ [0] @ replicate 8 0 @ ?r) = Inr ?p"
    using b by (simp add: write_internal_body_def cs mult.commute)
  have "length ?p = page_size" using b by (simp add: HEADER_SIZE_def)
  then have "node_page ?p par c ps"
    using par ok h unfolding node_page_def pairs_ok_def by auto
  with ser body wbody show thesis by (intro that [of ?p]) simp_all
qed

lemma internal_insert_ok:
  assumes page: "node_page page par c ps" and i: "i \<le> length ps" and r: "r < 2 ^ 64"
    and fits: "HEADER_SIZE + 8 + 16 * (length ps + 1) \<le> page_size"
  obtains page' where "internal_insert \<lparr>node_type = Internal, num_keys = length ps, parent = par\<rparr> i key r page = Inr page'"
    and "node_page page' par c (take i ps @ (key, r) # drop i ps)"
proof -
  let ?h = "\<lparr>node_type = Internal, num_keys = length ps, parent = par\<rparr>"
  let ?A = "take i ps" and ?B = "drop i ps"
  obtain pre z pad where e: "page = pre @ pairs_bytes ps @ pad" and pre: "length pre = HEADER_SIZE + 8"
    and z: "drop 7 pre = z # le_bytes 8 c"
    by (rule node_page_split [OF page])
  have ab: "pairs_bytes ps = pairs_bytes ?A @ pairs_bytes ?B" by (simp flip: pairs_simps(3))
  have len: "length page = page_size" and par: "par < 2 ^ 32" using page by (simp_all add: node_page_def)
  then have "16 \<le> length pad" using fits e pre by simp
  then obtain p1 p2 where pad: "pad = p1 @ p2" "length p1 = 16"
    by (metis append_take_drop_id length_take min.absorb2)
  let ?A' = "pre @ pairs_bytes ?A"
  obtain gap where gap: "(if pairs_bytes ?B \<noteq> []
      then copy_within (length ?A') (length ?A' + length (pairs_bytes ?B)) (length ?A' + 16)
        (?A' @ pairs_bytes ?B @ p1 @ p2)
      else Inr (?A' @ pairs_bytes ?B @ p1 @ p2)) = Inr (?A' @ gap @ pairs_bytes ?B @ p2)" "length gap = 16"
    by (rule open_gap [OF pad(2) [symmetric], where A = ?A' and B = "pairs_bytes ?B" and ?p2.0 = p2])
  have page_eq: "page = ?A' @ pairs_bytes ?B @ p1 @ p2" by (simp add: e ab pad)
  have nz: "HEADER_SIZE + 8 + i * 16 < HEADER_SIZE + 8 + length ps * 16 \<longleftrightarrow> pairs_bytes ?B \<noteq> []"
    using i length_pairs_bytes [of ?B] by (auto simp flip: length_greater_0_conv)
  have 1: "(if HEADER_SIZE + 8 + i * 16 < HEADER_SIZE + 8 + length ps * 16
      then copy_within (HEADER_SIZE + 8 + i * 16) (HEADER_SIZE + 8 + length ps * 16) (HEADER_SIZE + 8 + i * 16 + 16) page
      else Inr page) = Inr (?A' @ gap @ pairs_bytes ?B @ p2)"
  proof -
    have "i * 16 + (length ps - i) * 16 = length ps * 16" using i by (simp flip: add_mult_distrib)
    then show ?thesis
      using gap(1) i unfolding nz page_eq by (simp add: pre min_def mult.commute add.assoc cong: if_cong)
  qed
  have 2: "rbind (put (length ?A') (i64_to_le key) (?A' @ gap @ pairs_bytes ?B @ p2)) (\<lambda>page.
      put (length ?A' + 8) (le_bytes 8 r) page) = Inr (?A' @ pair_bytes (key, r) @ pairs_bytes ?B @ p2)"
    by (rule put_pair_at [OF gap(2)])
  let ?ps = "?A @ (key, r) # ?B"
  have lps: "length ?ps = length ps + 1" using i by simp
  have "7 \<le> length (pre @ pairs_bytes ?ps @ p2)" using pre by (simp add: HEADER_SIZE_def)
  then obtain page' where ser: "serialize_header \<lparr>node_type = Internal, num_keys = length ps + 1, parent = par\<rparr>
      (pre @ pairs_bytes ?ps @ p2) = Inr page'"
    by (simp add: serialize_header_any)
  have "internal_insert ?h i key r page = Inr page'"
    using 1 2 ser i by (auto simp: internal_insert_def Let_def pre rbind_eq_Inr mult.commute cong: if_cong)
  moreover have "node_page page' par c ?ps"
  proof (rule node_pageI)
    show "serialize_header \<lparr>node_type = Internal, num_keys = length ?ps, parent = par\<rparr> (pre @ pairs_bytes ?ps @ p2) = Inr page'"
      using ser by (simp only: lps)
    have l: "length (pre @ pairs_bytes ?ps @ p2) = length pre + (16 * (length ps + 1) + length p2)"
      using i by simp
    show "length (pre @ pairs_bytes ?ps @ p2) = page_size"
      unfolding l using len e pre pad by simp
    show "pairs_ok ?ps" using node_page_bounds(3) [OF page] r
      by (auto simp: pairs_ok_def dest: in_set_takeD in_set_dropD)
  qed (use z par node_page_bounds(4) [OF page] in simp_all)
  ultimately show thesis by (rule that)
qed

section \<open>Changing the parent field\<close>

lemma leaf_page_set_parent:
  assumes "leaf_page page par es" and "par' < 2 ^ 32"
  obtains page' where "serialize_header \<lparr>node_type = Leaf, num_keys = length es, parent = par'\<rparr> page = Inr page'"
    and "leaf_page page' par' es"
proof -
  obtain z pad where e: "page = header_bytes \<lparr>node_type = Leaf, num_keys = length es, parent = par\<rparr> @ [z] @ entries_bytes es @ pad"
    and len: "length page = page_size" using assms(1) by (auto simp: leaf_page_def)
  let ?p = "header_bytes \<lparr>node_type = Leaf, num_keys = length es, parent = par'\<rparr> @ [z] @ entries_bytes es @ pad"
  have "serialize_header \<lparr>node_type = Leaf, num_keys = length es, parent = par'\<rparr> page = Inr ?p"
    unfolding e by (rule serialize_header_bytes) simp
  moreover have "leaf_page ?p par' es" using assms(2) len e unfolding leaf_page_def by auto
  ultimately show thesis by (rule that)
qed

lemma node_page_set_parent:
  assumes "node_page page par c ps" and "par' < 2 ^ 32"
  obtains page' where "serialize_header \<lparr>node_type = Internal, num_keys = length ps, parent = par'\<rparr> page = Inr page'"
    and "node_page page' par' c ps"
proof -
  obtain z pad where e: "page = header_bytes \<lparr>node_type = Internal, num_keys = length ps, parent = par\<rparr>
      @ [z] @ le_bytes 8 c @ pairs_bytes ps @ pad"
    and len: "length page = page_size" using assms(1) by (auto simp: node_page_def)
  let ?p = "header_bytes \<lparr>node_type = Internal, num_keys = length ps, parent = par'\<rparr>
      @ [z] @ le_bytes 8 c @ pairs_bytes ps @ pad"
  have "serialize_header \<lparr>node_type = Internal, num_keys = length ps, parent = par'\<rparr> page = Inr ?p"
    unfolding e by (rule serialize_header_bytes) simp
  moreover have "node_page ?p par' c ps" using assms len e unfolding node_page_def by auto
  ultimately show thesis by (rule that)
qed

lemma node_types [simp]: "Internal \<noteq> Leaf" "Leaf \<noteq> Internal"
  by (simp_all add: Internal_def Leaf_def)

end
