(* ===== verification/BTreeRead.thy ===== *)
theory BTreeRead
  imports BTree InternalPage
begin

text \<open>
  Trees stored in pages. A \<open>tree\<close> names the page of every node; \<open>tree_at v par t\<close> says that the pages
  of the view \<open>v\<close> hold exactly this tree, with the parent fields the code maintains. The in-order
  sequence of leaves and separators (\<open>blocks\<close>) carries the order and the entries, and is what the
  restructuring of the tree preserves. Reading operations are proved over any page store that
  meets the laws of the locales \<open>page_reads\<close> and \<open>page_io\<close>.
\<close>

section \<open>Trees\<close>

datatype tree = TLeaf nat "(i64 \<times> bytes) list" | TNode nat tree "(i64 \<times> tree) list"

datatype block = Blk nat "(i64 \<times> bytes) list" | Sep i64

fun root_id :: "tree \<Rightarrow> nat" where
  "root_id (TLeaf p es) = p"
| "root_id (TNode p t kts) = p"

fun blocks :: "tree \<Rightarrow> block list" where
  "blocks (TLeaf p es) = [Blk p es]"
| "blocks (TNode p t kts) = blocks t @ concat (map (\<lambda>(k, u). Sep k # blocks u) kts)"

definition sub_blocks :: "(i64 \<times> tree) list \<Rightarrow> block list" where
  "sub_blocks kts = concat (map (\<lambda>(k, u). Sep k # blocks u) kts)"

lemma sub_blocks_simps [simp]:
  "sub_blocks [] = []" "sub_blocks ((k, u) # kts) = Sep k # blocks u @ sub_blocks kts"
  "sub_blocks (xs @ ys) = sub_blocks xs @ sub_blocks ys"
  by (simp_all add: sub_blocks_def)

lemma blocks_node [simp]: "blocks (TNode p t kts) = blocks t @ sub_blocks kts"
  by (simp add: sub_blocks_def)

declare blocks.simps(2) [simp del]

fun block_entries :: "block \<Rightarrow> (i64 \<times> bytes) list" where
  "block_entries (Blk p es) = es"
| "block_entries (Sep k) = []"

definition entries_of :: "block list \<Rightarrow> (i64 \<times> bytes) list" where
  "entries_of bs = concat (map block_entries bs)"

lemma entries_of_simps [simp]:
  "entries_of [] = []" "entries_of (Blk p es # bs) = es @ entries_of bs" "entries_of (Sep k # bs) = entries_of bs"
  "entries_of (bs @ cs) = entries_of bs @ entries_of cs"
  by (simp_all add: entries_of_def)

definition entries :: "tree \<Rightarrow> (i64 \<times> bytes) list" where
  "entries t = entries_of (blocks t)"

fun height :: "tree \<Rightarrow> nat" where
  "height (TLeaf p es) = 1"
| "height (TNode p t kts) = Suc (fold max (map (\<lambda>(k, u). height u) kts) (height t))"

definition child_ids :: "(i64 \<times> tree) list \<Rightarrow> (i64 \<times> nat) list" where
  "child_ids kts = map (\<lambda>(k, u). (k, root_id u)) kts"

fun tree_at :: "(nat \<Rightarrow> bytes option) \<Rightarrow> nat \<Rightarrow> tree \<Rightarrow> bool" where
  "tree_at v par (TLeaf p es) \<longleftrightarrow> (\<exists>page. v p = Some page \<and> leaf_page page par es)"
| "tree_at v par (TNode p t kts) \<longleftrightarrow>
     (\<exists>page. v p = Some page \<and> node_page page par (root_id t) (child_ids kts))
     \<and> tree_at v p t \<and> (\<forall>(k, u)\<in>set kts. tree_at v p u)"

section \<open>Order\<close>

text \<open>
  A separator bounds the keys on its left strictly and the keys on its right weakly. Ranking the
  separator \<open>k\<close> as \<open>2 k\<close> and the key \<open>k\<close> as \<open>2 k + 1\<close> makes a tree ordered exactly when the ranks increase.
\<close>

fun block_ranks :: "block \<Rightarrow> int list" where
  "block_ranks (Blk p es) = map (\<lambda>e. 2 * sint (fst e) + 1) es"
| "block_ranks (Sep k) = [2 * sint k]"

definition ranks :: "block list \<Rightarrow> int list" where
  "ranks bs = concat (map block_ranks bs)"

lemma ranks_simps [simp]:
  "ranks [] = []" "ranks (b # bs) = block_ranks b @ ranks bs" "ranks (bs @ cs) = ranks bs @ ranks cs"
  by (simp_all add: ranks_def)

definition ordered :: "block list \<Rightarrow> bool" where
  "ordered bs \<longleftrightarrow> sorted_wrt (<) (ranks bs)"

lemma ordered_append: "ordered (bs @ cs) \<longleftrightarrow> ordered bs \<and> ordered cs \<and> (\<forall>x\<in>set (ranks bs). \<forall>y\<in>set (ranks cs). x < y)"
  by (simp add: ordered_def sorted_wrt_append)

lemma ordered_Sep: "ordered (Sep k # cs) \<longleftrightarrow> ordered cs \<and> (\<forall>y\<in>set (ranks cs). 2 * sint k < y)"
  by (auto simp: ordered_def)

lemma rank_of_Sep: "Sep k \<in> set bs \<Longrightarrow> 2 * sint k \<in> set (ranks bs)"
  by (force simp: ranks_def)

lemma rank_of_entry: "e \<in> set (entries_of bs) \<Longrightarrow> 2 * sint (fst e) + 1 \<in> set (ranks bs)"
proof (induction bs)
  case (Cons b bs)
  then show ?case by (cases b) auto
qed simp

lemma ordered_Sep_le:
  assumes "ordered (Sep k # cs)" and "Sep k' \<in> set (Sep k # cs)"
  shows "sint k \<le> sint k'"
proof (cases "k' = k")
  case False
  with assms(2) have "2 * sint k' \<in> set (ranks cs)" by (intro rank_of_Sep) simp
  with assms(1) have "2 * sint k < 2 * sint k'" unfolding ordered_Sep by blast
  then show ?thesis by simp
qed simp

lemma ordered_Sep_ge:
  assumes "ordered (bs @ [Sep k])" and "Sep k' \<in> set (bs @ [Sep k])"
  shows "sint k' \<le> sint k"
proof (cases "k' = k")
  case False
  with assms(2) have "2 * sint k' \<in> set (ranks bs)" by (intro rank_of_Sep) simp
  moreover have "\<forall>x\<in>set (ranks bs). x < 2 * sint k" using assms(1) by (simp add: ordered_append)
  ultimately have "2 * sint k' < 2 * sint k" by blast
  then show ?thesis by simp
qed simp

lemma ordered_mid: "ordered (xs @ ys @ zs) \<Longrightarrow> ordered ys" "ordered (xs @ ys) \<Longrightarrow> ordered xs" "ordered (xs @ ys) \<Longrightarrow> ordered ys"
  by (simp_all add: ordered_append)

lemma sint_eq_iff [simp]: "sint (a :: i64) = sint b \<longleftrightarrow> a = b"
  by (auto intro: signed_word_eqI)

text \<open>The place of a key: the leaf, what lies before it and what lies behind it.\<close>

definition place :: "i64 \<Rightarrow> block list \<Rightarrow> block list \<Rightarrow> bool" where
  "place key cl cr \<longleftrightarrow>
     (\<forall>k. Sep k \<in> set cl \<longrightarrow> sint k \<le> sint key) \<and> (\<forall>k. Sep k \<in> set cr \<longrightarrow> sint key < sint k)
     \<and> (cl = [] \<or> (\<exists>k cl'. cl = cl' @ [Sep k])) \<and> (cr = [] \<or> (\<exists>k cr'. cr = Sep k # cr'))"

lemma place_left:
  assumes "ordered (cl @ bs)" and "place key cl cr" and "e \<in> set (entries_of cl)"
  shows "sint (fst e) < sint key"
proof -
  from assms(2,3) obtain k cl' where cl: "cl = cl' @ [Sep k]" by (auto simp: place_def)
  have "2 * sint (fst e) + 1 \<in> set (ranks cl')" using assms(3) rank_of_entry [of e cl'] by (simp add: cl)
  then have "2 * sint (fst e) + 1 < 2 * sint k" using assms(1) by (simp add: cl ordered_append)
  moreover have "sint k \<le> sint key" using assms(2) by (auto simp: place_def cl)
  ultimately show ?thesis by simp
qed

lemma place_right:
  assumes "ordered (bs @ cr)" and "place key cl cr" and "e \<in> set (entries_of cr)"
  shows "sint key < sint (fst e)"
proof -
  from assms(2,3) obtain k cr' where cr: "cr = Sep k # cr'" by (auto simp: place_def)
  have "2 * sint (fst e) + 1 \<in> set (ranks cr')" using assms(3) rank_of_entry [of e cr'] by (simp add: cr)
  then have "2 * sint k < 2 * sint (fst e) + 1" using assms(1) by (auto simp: cr ordered_append ordered_Sep)
  moreover have "sint key < sint k" using assms(2) by (auto simp: place_def cr)
  ultimately show ?thesis by simp
qed

lemma place_lookup:
  assumes "ordered (cl @ Blk p es # cr)" and "place key cl cr"
  shows "map_of (entries_of (cl @ Blk p es # cr)) key = map_of es key"
proof -
  have "fst e \<noteq> key" if "e \<in> set (entries_of cl)" for e
    using place_left [OF assms that] by auto
  then have l: "map_of (entries_of cl) key = None" by (force simp: map_of_eq_None_iff)
  have "ordered ((cl @ [Blk p es]) @ cr)" using assms(1) by simp
  from place_right [OF this assms(2)] have "fst e \<noteq> key" if "e \<in> set (entries_of cr)" for e
    using that by fastforce
  then have r: "map_of (entries_of cr) key = None" by (force simp: map_of_eq_None_iff)
  from l r show ?thesis by (auto simp: map_add_def split: option.split)
qed

lemma place_nest:
  assumes "place key cl cr" and "place key cl' cr'"
  shows "place key (cl @ cl') (cr' @ cr)"
proof -
  have "cl @ cl' = [] \<or> (\<exists>k xs. cl @ cl' = xs @ [Sep k])" "cr' @ cr = [] \<or> (\<exists>k xs. cr' @ cr = Sep k # xs)"
    using assms unfolding place_def by (metis append_assoc append_Nil2 append_Nil append_Cons)+
  with assms show ?thesis unfolding place_def by auto
qed

section \<open>Choosing the child\<close>

fun pick_tree :: "tree \<Rightarrow> (i64 \<times> tree) list \<Rightarrow> i64 \<Rightarrow> tree" where
  "pick_tree t [] key = t"
| "pick_tree t ((k, u) # kts) key = (if sint key < sint k then t else pick_tree u kts key)"

lemma pick_child_tree: "pick_child (root_id t) (child_ids kts) key = root_id (pick_tree t kts key)"
  by (induction t kts key rule: pick_tree.induct) (simp_all add: child_ids_def)

lemma pick_tree_member: "pick_tree t kts key = t \<or> pick_tree t kts key \<in> snd ` set kts"
  by (induction t kts key rule: pick_tree.induct) auto

lemma pick_tree_place:
  assumes "ordered (blocks t @ sub_blocks kts)"
  shows "\<exists>cl cr. blocks t @ sub_blocks kts = cl @ blocks (pick_tree t kts key) @ cr \<and> place key cl cr"
  using assms
proof (induction t kts key rule: pick_tree.induct)
  case (1 t key)
  show ?case by (intro exI [of _ "[]"]) (simp add: place_def)
next
  case (2 t k u kts key)
  show ?case
  proof (cases "sint key < sint k")
    case True
    have "ordered (Sep k # blocks u @ sub_blocks kts)" using ordered_mid(3) [OF 2(2)] by simp
    from ordered_Sep_le [OF this] True have "\<forall>k'. Sep k' \<in> set (sub_blocks ((k, u) # kts)) \<longrightarrow> sint key < sint k'"
      by fastforce
    then have "place key [] (sub_blocks ((k, u) # kts))" unfolding place_def by simp
    with True show ?thesis by (intro exI [of _ "[]"] exI [of _ "sub_blocks ((k, u) # kts)"]) simp
  next
    case False
    have "ordered (blocks u @ sub_blocks kts)" using 2(2) by (simp add: ordered_append ordered_Sep)
    from 2(1) [OF False this] obtain cl cr where
      e: "blocks u @ sub_blocks kts = cl @ blocks (pick_tree u kts key) @ cr" and pl: "place key cl cr" by blast
    have "ordered (blocks t @ [Sep k])"
      using ordered_mid(2) [of "blocks t @ [Sep k]" "blocks u @ sub_blocks kts"] 2(2) by simp
    from ordered_Sep_ge [OF this] False have "\<forall>k'. Sep k' \<in> set (blocks t @ [Sep k]) \<longrightarrow> sint k' \<le> sint key"
      by fastforce
    then have "place key (blocks t @ [Sep k]) []" unfolding place_def by simp
    from place_nest [OF this pl] have "place key (blocks t @ Sep k # cl) cr" by simp
    with e False show ?thesis by (intro exI [of _ "blocks t @ Sep k # cl"] exI [of _ cr]) simp
  qed
qed

lemma fold_max_start: "(a :: nat) \<le> fold max xs a"
proof (induction xs arbitrary: a)
  case (Cons y ys)
  show ?case using Cons [of "max y a"] by simp
qed simp

lemma fold_max_member: "(x :: nat) \<in> set xs \<Longrightarrow> x \<le> fold max xs a"
proof (induction xs arbitrary: a)
  case (Cons y ys)
  then show ?case using fold_max_start [of "max y a" ys] by auto
qed simp

lemma height_first: "height t < height (TNode p t kts)"
  using fold_max_start by (simp add: less_Suc_eq_le)

lemma height_later: "(k, u) \<in> set kts \<Longrightarrow> height u < height (TNode p t kts)"
proof -
  assume "(k, u) \<in> set kts"
  then have "height u \<in> set (map (\<lambda>(k, u). height u) kts)" by force
  from fold_max_member [OF this] show ?thesis by (simp add: less_Suc_eq_le)
qed

lemma height_pick: "height (pick_tree t kts key) < height (TNode p t kts)"
  using pick_tree_member [of t kts key] height_first [of t p kts] height_later [of _ _ kts p t]
  by (metis imageE prod.collapse)

section \<open>Page stores\<close>

text \<open>
  What lookups and scans rely on: a read of an existing page returns it and changes nothing visible.
\<close>

locale page_reads =
  fixes P :: "'s page_ops" and view :: "'s \<Rightarrow> nat \<Rightarrow> bytes option" and room :: "'s \<Rightarrow> nat" and inv :: "'s \<Rightarrow> bool"
  assumes read_ok: "inv s \<Longrightarrow> view s pid = Some x \<Longrightarrow>
      \<exists>s'. po_read P pid s = (Inr x, s') \<and> inv s' \<and> view s' = view s \<and> room s' = room s"
begin

text \<open>\<open>keeps s s'\<close>: nothing visible changed.\<close>

definition keeps :: "'s \<Rightarrow> 's \<Rightarrow> bool" where
  "keeps s s' \<longleftrightarrow> inv s' \<and> view s' = view s \<and> room s' = room s"

lemma read_node_ok:
  assumes "inv s" and "view s pid = Some page" and "deserialize_header page = Inr h"
  obtains s' where "read_node P pid s = (Inr (h, page), s')" and "keeps s s'"
  using read_ok [OF assms(1,2)] assms(3) by (auto simp: read_node_def mbind_def keeps_def)

lemma find_leaf_ok:
  assumes "inv s" and "tree_at (view s) par t" and "height t \<le> fuel" and "ordered (blocks t)"
  shows "\<exists>p es page q cl cr s'. find_leaf P fuel (root_id t) key s = (Inr p, s') \<and> keeps s s'
     \<and> view s p = Some page \<and> leaf_page page q es \<and> blocks t = cl @ Blk p es # cr \<and> place key cl cr"
  using assms
proof (induction fuel arbitrary: s t par)
  case 0
  then show ?case by (cases t) simp_all
next
  case (Suc fuel)
  show ?case
  proof (cases t)
    case (TLeaf p es)
    with Suc.prems(2) obtain page where page: "view s p = Some page" "leaf_page page par es" by auto
    obtain s' where "read_node P p s = (Inr (\<lparr>node_type = Leaf, num_keys = length es, parent = par\<rparr>, page), s')"
      "keeps s s'"
      by (rule read_node_ok [OF Suc.prems(1) page(1) leaf_page_header [OF page(2)]])
    moreover have "place key [] []" by (simp add: place_def)
    ultimately show ?thesis using page TLeaf by (force simp: mbind_def)
  next
    case (TNode p t' kts)
    with Suc.prems(2) obtain page where page: "view s p = Some page" "node_page page par (root_id t') (child_ids kts)"
      by auto
    let ?h = "\<lparr>node_type = Internal, num_keys = length (child_ids kts), parent = par\<rparr>"
    obtain s1 where rd: "read_node P p s = (Inr (?h, page), s1)" and s1: "keeps s s1"
      by (rule read_node_ok [OF Suc.prems(1) page(1) node_page_header [OF page(2)]])
    let ?u = "pick_tree t' kts key"
    have step: "find_leaf P (Suc fuel) p key s = find_leaf P fuel (root_id ?u) key s1"
      using rd node_page_read(1,2) [OF page(2)] by (simp add: mbind_def pick_child_tree)
    obtain cl cr where u: "blocks t = cl @ blocks ?u @ cr" and pl: "place key cl cr"
      using pick_tree_place [of t' kts key] Suc.prems(4) by (auto simp: TNode)
    have "inv s1" "tree_at (view s1) p ?u" "height ?u \<le> fuel" "ordered (blocks ?u)"
      using pick_tree_member [of t' kts key] Suc.prems(2-4) s1 u height_pick [of t' kts key p]
        ordered_mid(1) [of cl "blocks ?u" cr]
      by (auto simp: TNode keeps_def)
    from Suc.IH [OF this] obtain q es page' r cl' cr' s' where
      IH: "find_leaf P fuel (root_id ?u) key s1 = (Inr q, s')" "keeps s1 s'" "view s1 q = Some page'"
        "leaf_page page' r es" "blocks ?u = cl' @ Blk q es # cr'" "place key cl' cr'"
      by blast
    have "blocks t = (cl @ cl') @ Blk q es # (cr' @ cr)" using u IH(5) by simp
    moreover have "place key (cl @ cl') (cr' @ cr)" by (rule place_nest [OF pl IH(6)])
    ultimately show ?thesis
      using step IH s1 unfolding TNode root_id.simps keeps_def by metis
  qed
qed

lemma search_ok:
  assumes "inv s" and "tree_at (view s) par t" and "height t \<le> fuel" and "ordered (blocks t)"
  shows "\<exists>s'. search P fuel (root_id t) key s =
      ((case map_of (entries t) key of
          None \<Rightarrow> Inr None
        | Some d \<Rightarrow> rbind (deserialize_row d) (\<lambda>row. Inr (Some row))), s') \<and> keeps s s'"
proof -
  obtain p es page q cl cr s1 where fl: "find_leaf P fuel (root_id t) key s = (Inr p, s1)" and s1: "keeps s s1"
    and page: "view s p = Some page" "leaf_page page q es" and b: "blocks t = cl @ Blk p es # cr" "place key cl cr"
    using find_leaf_ok [OF assms] by blast
  have look: "map_of (entries t) key = map_of es key"
    using place_lookup [of cl p es cr key] assms(4) b by (simp add: entries_def)
  have v1: "inv s1" "view s1 p = Some page" using page(1) s1 by (simp_all add: keeps_def)
  obtain s2 where rd: "read_node P p s1 = (Inr (\<lparr>node_type = Leaf, num_keys = length es, parent = q\<rparr>, page), s2)"
    and s2: "keeps s1 s2"
    by (rule read_node_ok [OF v1 leaf_page_header [OF page(2)]])
  have k: "keeps s s2" using s1 s2 by (simp add: keeps_def)
  show ?thesis
  proof (cases "map_of es key")
    case None
    then have "key \<notin> fst ` set es" by (simp add: map_of_eq_None_iff)
    from leaf_page_find(1) [OF page(2) this] None fl rd k look show ?thesis
      by (auto simp: search_def mbind_def)
  next
    case (Some d)
    from split_list_first [of key "map fst es"] obtain xs ys where "map fst es = xs @ key # ys" "key \<notin> set xs"
      using map_of_SomeD [OF Some] by force
    then obtain as d' bs where es: "es = as @ (key, d') # bs" "key \<notin> fst ` set as"
      by (auto simp: map_eq_append_conv map_eq_Cons_conv)
    have "map_of as key = None" using es(2) by (simp add: map_of_eq_None_iff)
    with Some have "d' = d" by (simp add: es(1) map_add_def)
    with es have es': "es = as @ (key, d) # bs" "key \<notin> fst ` set as" by simp_all
    from leaf_page_find(2) [OF page(2) es'] leaf_page_find(3) [OF page(2) es'(1)] Some fl rd k look
    show ?thesis by (auto simp: search_def mbind_def)
  qed
qed

lemma scan_pairs_ok:
  assumes node: "node_page page par c (child_ids kts)"
    and IH: "\<And>s k u rs. inv s \<Longrightarrow> (k, u) \<in> set kts \<Longrightarrow> tree_at (view s) p u \<Longrightarrow>
      list_all2 decodes_to (entries u) rs \<Longrightarrow>
      \<exists>s'. scan_node P fuel (root_id u) s = (Inr rs, s') \<and> keeps s s'"
    and "inv s" and "j + length us = length kts" and "us = drop j kts"
    and "\<forall>(k, u)\<in>set kts. tree_at (view s) p u" and "list_all2 decodes_to (entries_of (sub_blocks us)) rs"
  shows "\<exists>s'. scan_pairs P fuel (length us) (HEADER_SIZE + 8 + 16 * j) page s = (Inr rs, s') \<and> keeps s s'"
  using assms(3-)
proof (induction us arbitrary: j s rs)
  case (Cons ku us)
  obtain k u where ku: "ku = (k, u)" by (cases ku)
  have j: "j < length kts" using Cons.prems(2) by simp
  then have us: "kts ! j = (k, u)" "us = drop (Suc j) kts"
    using Cons.prems(3) by (simp_all add: ku Cons_nth_drop_Suc [symmetric])
  have mem: "(k, u) \<in> set kts" using us(1) j by (metis nth_mem)
  obtain rs1 rs2 where rs: "rs = rs1 @ rs2" "list_all2 decodes_to (entries u) rs1"
    "list_all2 decodes_to (entries_of (sub_blocks us)) rs2"
    using Cons.prems(5) by (auto simp: ku list_all2_append1 entries_def)
  have child: "read_u64 (HEADER_SIZE + 8 + 16 * j + 8) page = Inr (root_id u)"
    using node_page_child [OF node, of j] j us(1) by (simp add: child_ids_def)
  obtain s1 where s1: "scan_node P fuel (root_id u) s = (Inr rs1, s1)" "keeps s s1"
    using IH [OF Cons.prems(1) mem _ rs(2)] Cons.prems(4) mem by auto
  obtain s2 where s2: "scan_pairs P fuel (length us) (HEADER_SIZE + 8 + 16 * Suc j) page s1 = (Inr rs2, s2)"
    "keeps s1 s2"
    using Cons.IH [OF _ _ us(2) _ rs(3), of s1] Cons.prems(2,4) s1(2) by (auto simp: keeps_def)
  have "HEADER_SIZE + 8 + 16 * j + 16 = HEADER_SIZE + 8 + 16 * Suc j" by simp
  with child s1 s2 rs(1) show ?case by (simp add: mbind_def ku keeps_def)
qed (simp add: keeps_def)

lemma scan_node_ok:
  assumes "inv s" and "tree_at (view s) par t" and "height t \<le> fuel" and "list_all2 decodes_to (entries t) rs"
  shows "\<exists>s'. scan_node P fuel (root_id t) s = (Inr rs, s') \<and> keeps s s'"
  using assms
proof (induction fuel arbitrary: s t par rs)
  case 0
  then show ?case by (cases t) simp_all
next
  case (Suc fuel)
  show ?case
  proof (cases t)
    case (TLeaf p es)
    with Suc.prems(2) obtain page where page: "view s p = Some page" "leaf_page page par es" by auto
    obtain s' where "read_node P p s = (Inr (\<lparr>node_type = Leaf, num_keys = length es, parent = par\<rparr>, page), s')"
      "keeps s s'"
      by (rule read_node_ok [OF Suc.prems(1) page(1) leaf_page_header [OF page(2)]])
    with leaf_page_read(2) [OF page(2)] Suc.prems(4) TLeaf show ?thesis by (auto simp: mbind_def entries_def)
  next
    case (TNode p t' kts)
    with Suc.prems(2) obtain page where page: "view s p = Some page" "node_page page par (root_id t') (child_ids kts)"
      by auto
    let ?h = "\<lparr>node_type = Internal, num_keys = length (child_ids kts), parent = par\<rparr>"
    obtain s1 where rd: "read_node P p s = (Inr (?h, page), s1)" and s1: "keeps s s1"
      by (rule read_node_ok [OF Suc.prems(1) page(1) node_page_header [OF page(2)]])
    obtain rs1 rs2 where rs: "rs = rs1 @ rs2" "list_all2 decodes_to (entries t') rs1"
      "list_all2 decodes_to (entries_of (sub_blocks kts)) rs2"
      using Suc.prems(4) by (auto simp: TNode list_all2_append1 entries_def)
    have h: "height t' \<le> fuel" "(k, u) \<in> set kts \<Longrightarrow> height u \<le> fuel" for k u
      using Suc.prems(3) height_first [of t' p kts] height_later [of k u kts p t'] by (auto simp: TNode)
    obtain s2 where s2: "scan_node P fuel (root_id t') s1 = (Inr rs1, s2)" "keeps s1 s2"
      using Suc.IH [OF _ _ h(1) rs(2), of s1 p] Suc.prems(2) s1 by (auto simp: TNode keeps_def)
    have i2: "inv s2" and kts: "\<forall>(k, u)\<in>set kts. tree_at (view s2) p u"
      using Suc.prems(2) s1 s2(2) by (auto simp: TNode keeps_def)
    have "\<exists>s'. scan_pairs P fuel (length kts) (HEADER_SIZE + 8 + 16 * 0) page s2 = (Inr rs2, s') \<and> keeps s2 s'"
      by (rule scan_pairs_ok [OF page(2) _ i2 _ _ kts rs(3)]) (auto intro: Suc.IH h(2))
    then obtain s3 where "scan_pairs P fuel (length (child_ids kts)) (HEADER_SIZE + 8) page s2 = (Inr rs2, s3)"
      "keeps s2 s3"
      by (auto simp: child_ids_def)
    with rd s1 s2 node_page_read(1) [OF page(2)] rs(1) show ?thesis by (auto simp: TNode mbind_def keeps_def)
  qed
qed

end

text \<open>
  What changes of the tree rely on besides: a write of a whole page to an existing page succeeds and
  changes just this page, and an allocation, while page ids below 2^32 remain (\<open>room\<close>), returns a page
  that did not exist.
\<close>

locale page_io = page_reads P view room inv
  for P :: "'s page_ops" and view :: "'s \<Rightarrow> nat \<Rightarrow> bytes option" and room :: "'s \<Rightarrow> nat" and inv :: "'s \<Rightarrow> bool" +
  assumes write_ok: "inv s \<Longrightarrow> view s pid \<noteq> None \<Longrightarrow> length x = page_size \<Longrightarrow>
      \<exists>s'. po_write P pid x s = (Inr (), s') \<and> inv s' \<and> view s' = (view s)(pid \<mapsto> x) \<and> room s' = room s"
    and alloc_ok: "inv s \<Longrightarrow> 0 < room s \<Longrightarrow>
      \<exists>pid s'. po_alloc P s = (Inr pid, s') \<and> inv s' \<and> view s pid = None \<and> pid < 2 ^ 32
        \<and> view s' = (view s)(pid \<mapsto> blank_page) \<and> room s = Suc (room s')"

end
