(* ===== verification/BTreeContext.thy ===== *)
theory BTreeContext
  imports BTreeRead "HOL-Library.Multiset"
begin

text \<open>
  Paths in stored trees. The insertion climbs from a leaf to the root along parent fields; the part
  of the tree above a node is a context, the list of the frames on the way up.
\<close>

section \<open>Page ids\<close>

fun ids :: "tree \<Rightarrow> nat list" where
  "ids (TLeaf p es) = [p]"
| "ids (TNode p t kts) = p # ids t @ concat (map (\<lambda>(k, u). ids u) kts)"

definition sub_ids :: "(i64 \<times> tree) list \<Rightarrow> nat list" where
  "sub_ids kts = concat (map (\<lambda>(k, u). ids u) kts)"

lemma sub_ids_simps [simp]:
  "sub_ids [] = []" "sub_ids ((k, u) # kts) = ids u @ sub_ids kts" "sub_ids (xs @ ys) = sub_ids xs @ sub_ids ys"
  by (simp_all add: sub_ids_def)

lemma ids_node [simp]: "ids (TNode p t kts) = p # ids t @ sub_ids kts"
  by (simp add: sub_ids_def)

declare ids.simps(2) [simp del]

lemma set_sub_ids: "(k, u) \<in> set kts \<Longrightarrow> set (ids u) \<subseteq> set (sub_ids kts)"
  by (auto simp: sub_ids_def)

lemma root_id_in_ids [simp]: "root_id t \<in> set (ids t)"
  by (cases t) simp_all

lemma tree_at_cong:
  assumes "\<And>i. i \<in> set (ids t) \<Longrightarrow> v i = w i"
  shows "tree_at v par t = tree_at w par t"
  using assms
proof (induction t arbitrary: par)
  case (TNode p t kts)
  have "tree_at v p t = tree_at w p t" using TNode.prems by (intro TNode.IH(1)) simp
  moreover have "tree_at v p u = tree_at w p u" if "(k, u) \<in> set kts" for k u
  proof (rule TNode.IH(2) [OF that])
    show "u \<in> Basic_BNFs.snds (k, u)" by simp
    show "v i = w i" if "i \<in> set (ids u)" for i
      using set_sub_ids [OF \<open>(k, u) \<in> set kts\<close>] that by (intro TNode.prems) auto
  qed
  ultimately show ?case using TNode.prems [of p] by auto
qed simp

lemma tree_at_root:
  assumes "tree_at v par t"
  obtains page h where "v (root_id t) = Some page" and "deserialize_header page = Inr h" and "parent h = par"
    and "par < 2 ^ 32" and "length page = page_size"
proof (cases t)
  case (TLeaf p es)
  with assms obtain page where "v p = Some page" "leaf_page page par es" by auto
  with TLeaf that [of page] leaf_page_header [of page par es] show thesis by (simp add: leaf_page_def)
next
  case (TNode p t' kts)
  with assms obtain page where page: "v p = Some page" "node_page page par (root_id t') (child_ids kts)" by auto
  from page(2) have "par < 2 ^ 32" "length page = page_size" by (simp_all add: node_page_def)
  with TNode that [of page] page(1) node_page_header [OF page(2)] show thesis by simp
qed

section \<open>Contexts\<close>

text \<open>A node with a hole among its children: the children and keys before the hole, and those behind.\<close>

datatype frame = Frame nat "(tree \<times> (i64 \<times> tree) list \<times> i64) option" "(i64 \<times> tree) list"

fun frame_id :: "frame \<Rightarrow> nat" where "frame_id (Frame p ld rs) = p"

fun lead_tree :: "(tree \<times> (i64 \<times> tree) list \<times> i64) option \<Rightarrow> tree \<Rightarrow> tree" where
  "lead_tree None L = L"
| "lead_tree (Some (t0, ls, k)) L = t0"

fun lead_pairs :: "(tree \<times> (i64 \<times> tree) list \<times> i64) option \<Rightarrow> tree \<Rightarrow> (i64 \<times> tree) list" where
  "lead_pairs None L = []"
| "lead_pairs (Some (t0, ls, k)) L = ls @ [(k, L)]"

fun lead_left :: "(tree \<times> (i64 \<times> tree) list \<times> i64) option \<Rightarrow> block list" where
  "lead_left None = []"
| "lead_left (Some (t0, ls, k)) = blocks t0 @ sub_blocks ls @ [Sep k]"

fun lead_ids :: "(tree \<times> (i64 \<times> tree) list \<times> i64) option \<Rightarrow> nat list" where
  "lead_ids None = []"
| "lead_ids (Some (t0, ls, k)) = ids t0 @ sub_ids ls"

fun plug :: "frame \<Rightarrow> tree \<Rightarrow> tree" where
  "plug (Frame p ld rs) L = TNode p (lead_tree ld L) (lead_pairs ld L @ rs)"

fun plug_ctx :: "frame list \<Rightarrow> tree \<Rightarrow> tree" where
  "plug_ctx [] L = L"
| "plug_ctx (f # fs) L = plug_ctx fs (plug f L)"

fun par_of :: "frame list \<Rightarrow> nat" where
  "par_of [] = 0"
| "par_of (f # fs) = frame_id f"

fun frame_ids :: "frame \<Rightarrow> nat list" where
  "frame_ids (Frame p ld rs) = p # lead_ids ld @ sub_ids rs"

definition ctx_ids :: "frame list \<Rightarrow> nat list" where
  "ctx_ids fs = concat (map frame_ids fs)"

fun ctx_left :: "frame list \<Rightarrow> block list" where
  "ctx_left [] = []"
| "ctx_left (Frame p ld rs # fs) = ctx_left fs @ lead_left ld"

fun ctx_right :: "frame list \<Rightarrow> block list" where
  "ctx_right [] = []"
| "ctx_right (Frame p ld rs # fs) = sub_blocks rs @ ctx_right fs"

lemma ctx_ids_simps [simp]: "ctx_ids [] = []" "ctx_ids (f # fs) = frame_ids f @ ctx_ids fs"
  by (simp_all add: ctx_ids_def)

lemma blocks_lead: "blocks (lead_tree ld L) @ sub_blocks (lead_pairs ld L) = lead_left ld @ blocks L"
  by (cases "(ld, L)" rule: lead_tree.cases) simp_all

lemma blocks_plug_ctx: "blocks (plug_ctx fs L) = ctx_left fs @ blocks L @ ctx_right fs"
proof (induction fs arbitrary: L)
  case (Cons f fs)
  obtain p ld rs where f: "f = Frame p ld rs" by (cases f)
  have "blocks (plug f L) = lead_left ld @ blocks L @ sub_blocks rs"
    using blocks_lead [of ld L] by (simp add: f flip: append_assoc)
  with Cons [of "plug f L"] show ?case by (simp add: f)
qed simp

lemma mset_ids_lead: "mset (ids (lead_tree ld L)) + mset (sub_ids (lead_pairs ld L)) = mset (lead_ids ld) + mset (ids L)"
  by (cases "(ld, L)" rule: lead_tree.cases) simp_all

lemma mset_ids_plug: "mset (ids (plug f L)) = mset (frame_ids f) + mset (ids L)"
  using mset_ids_lead by (cases f) (simp flip: add.assoc)

lemma mset_ids_plug_ctx: "mset (ids (plug_ctx fs L)) = mset (ctx_ids fs) + mset (ids L)"
  by (induction fs arbitrary: L) (simp_all add: mset_ids_plug)

lemma ids_plug_ctx:
  "distinct (ids (plug_ctx fs L)) \<longleftrightarrow> distinct (ctx_ids fs @ ids L)"
  "set (ids (plug_ctx fs L)) = set (ctx_ids fs) \<union> set (ids L)"
proof -
  have m: "mset (ids (plug_ctx fs L)) = mset (ctx_ids fs @ ids L)" by (simp add: mset_ids_plug_ctx)
  from mset_eq_imp_distinct_iff [OF m] show "distinct (ids (plug_ctx fs L)) \<longleftrightarrow> distinct (ctx_ids fs @ ids L)" .
  from mset_eq_setD [OF m] show "set (ids (plug_ctx fs L)) = set (ctx_ids fs) \<union> set (ids L)" by simp
qed

section \<open>Contexts in pages\<close>

fun lead_root :: "(tree \<times> (i64 \<times> tree) list \<times> i64) option \<Rightarrow> nat \<Rightarrow> nat" where
  "lead_root None l = l"
| "lead_root (Some (t0, ls, k)) l = root_id t0"

fun lead_child_ids :: "(tree \<times> (i64 \<times> tree) list \<times> i64) option \<Rightarrow> nat \<Rightarrow> (i64 \<times> nat) list" where
  "lead_child_ids None l = []"
| "lead_child_ids (Some (t0, ls, k)) l = child_ids ls @ [(k, l)]"

fun lead_at :: "(nat \<Rightarrow> bytes option) \<Rightarrow> nat \<Rightarrow> (tree \<times> (i64 \<times> tree) list \<times> i64) option \<Rightarrow> bool" where
  "lead_at v p None \<longleftrightarrow> True"
| "lead_at v p (Some (t0, ls, k)) \<longleftrightarrow> tree_at v p t0 \<and> (\<forall>(k, u)\<in>set ls. tree_at v p u)"

fun frame_at :: "(nat \<Rightarrow> bytes option) \<Rightarrow> nat \<Rightarrow> nat \<Rightarrow> frame \<Rightarrow> bool" where
  "frame_at v par l (Frame p ld rs) \<longleftrightarrow>
     (\<exists>page. v p = Some page \<and> node_page page par (lead_root ld l) (lead_child_ids ld l @ child_ids rs))
     \<and> lead_at v p ld \<and> (\<forall>(k, u)\<in>set rs. tree_at v p u)"

fun ctx_at :: "(nat \<Rightarrow> bytes option) \<Rightarrow> nat \<Rightarrow> frame list \<Rightarrow> bool" where
  "ctx_at v l [] \<longleftrightarrow> True"
| "ctx_at v l (f # fs) \<longleftrightarrow> frame_at v (par_of fs) l f \<and> ctx_at v (frame_id f) fs"

lemma child_ids_simps [simp]:
  "child_ids [] = []" "child_ids ((k, u) # kts) = (k, root_id u) # child_ids kts"
  "child_ids (xs @ ys) = child_ids xs @ child_ids ys" "length (child_ids kts) = length kts"
  by (simp_all add: child_ids_def)

lemma lead_plug:
  "root_id (lead_tree ld L) = lead_root ld (root_id L)"
  "child_ids (lead_pairs ld L) = lead_child_ids ld (root_id L)"
  "tree_at v p (lead_tree ld L) \<and> (\<forall>(k, u)\<in>set (lead_pairs ld L). tree_at v p u) \<longleftrightarrow> lead_at v p ld \<and> tree_at v p L"
  by (cases "(ld, L)" rule: lead_tree.cases; auto)+

lemma tree_at_plug: "tree_at v par (plug f L) \<longleftrightarrow> frame_at v par (root_id L) f \<and> tree_at v (frame_id f) L"
proof -
  obtain p ld rs where f: "f = Frame p ld rs" by (cases f)
  have "(\<forall>(k, u)\<in>set (lead_pairs ld L @ rs). tree_at v p u) \<longleftrightarrow>
      (\<forall>(k, u)\<in>set (lead_pairs ld L). tree_at v p u) \<and> (\<forall>(k, u)\<in>set rs. tree_at v p u)"
    by (simp add: ball_Un)
  with lead_plug(3) [of v p ld L] show ?thesis
    by (simp only: f plug.simps tree_at.simps frame_at.simps frame_id.simps lead_plug(1,2) child_ids_simps) blast
qed

lemma root_id_plug [simp]: "root_id (plug f L) = frame_id f"
  by (cases f) simp

lemma tree_at_plug_ctx: "tree_at v 0 (plug_ctx fs L) \<longleftrightarrow> tree_at v (par_of fs) L \<and> ctx_at v (root_id L) fs"
  by (induction fs arbitrary: L) (auto simp: tree_at_plug)

lemma lead_at_cong:
  assumes "\<And>i. i \<in> set (lead_ids ld) \<Longrightarrow> v i = w i"
  shows "lead_at v p ld = lead_at w p ld"
proof (cases ld)
  case (Some x)
  obtain t0 ls k where x: "x = (t0, ls, k)" by (cases x)
  have "tree_at v p t0 = tree_at w p t0" using assms by (intro tree_at_cong) (simp add: Some x)
  moreover have "tree_at v p u = tree_at w p u" if "(k', u) \<in> set ls" for k' u
    using assms set_sub_ids [OF that] by (intro tree_at_cong) (auto simp: Some x)
  ultimately show ?thesis by (auto simp: Some x)
qed simp

lemma sub_at_cong:
  assumes "\<And>i. i \<in> set (sub_ids kts) \<Longrightarrow> v i = w i"
  shows "(\<forall>(k, u)\<in>set kts. tree_at v p u) \<longleftrightarrow> (\<forall>(k, u)\<in>set kts. tree_at w p u)"
proof -
  have "tree_at v p u = tree_at w p u" if "(k', u) \<in> set kts" for k' u
    using assms set_sub_ids [OF that] by (intro tree_at_cong) auto
  then show ?thesis by auto
qed

lemma ctx_at_cong:
  assumes "\<And>i. i \<in> set (ctx_ids fs) \<Longrightarrow> v i = w i"
  shows "ctx_at v l fs = ctx_at w l fs"
  using assms
proof (induction fs arbitrary: l)
  case (Cons f fs)
  obtain p ld rs where f: "f = Frame p ld rs" by (cases f)
  have "lead_at v p ld = lead_at w p ld"
    using Cons.prems by (intro lead_at_cong) (simp add: f)
  moreover have "(\<forall>(k, u)\<in>set rs. tree_at v p u) \<longleftrightarrow> (\<forall>(k, u)\<in>set rs. tree_at w p u)"
    using Cons.prems by (intro sub_at_cong) (simp add: f)
  moreover have "v p = w p" using Cons.prems [of p] by (simp add: f)
  moreover have "ctx_at v p fs = ctx_at w p fs" using Cons.prems by (intro Cons.IH) simp
  ultimately show ?case by (simp add: f)
qed simp

text \<open>Every leaf of a tree is reached by a context no longer than the tree is high.\<close>

lemma split_blocks_child:
  assumes "sub_blocks kts = cl @ Blk p es # cr"
  obtains ls k u rs xl xr where "kts = ls @ (k, u) # rs" and "blocks u = xl @ Blk p es # xr"
    and "cl = sub_blocks ls @ Sep k # xl" and "cr = xr @ sub_blocks rs"
  using assms
proof (induction kts arbitrary: cl thesis)
  case (Cons ku kts)
  obtain k u where ku: "ku = (k, u)" by (cases ku)
  have "Sep k # blocks u @ sub_blocks kts = cl @ Blk p es # cr" using Cons.prems(2) by (simp add: ku)
  then obtain cl' where cl: "cl = Sep k # cl'" and e: "blocks u @ sub_blocks kts = cl' @ Blk p es # cr"
    by (cases cl) auto
  from e consider (in_u) xr where "blocks u = cl' @ Blk p es # xr" "cr = xr @ sub_blocks kts"
    | (later) xl where "cl' = blocks u @ xl" "sub_blocks kts = xl @ Blk p es # cr"
    by (auto simp: append_eq_append_conv2 append_eq_Cons_conv Cons_eq_append_conv)
  then show ?case
  proof cases
    case in_u
    then show ?thesis using Cons.prems(1) [of "[]" k u kts cl' xr] by (simp add: ku cl)
  next
    case later
    from Cons.IH [OF _ later(2)] obtain ls k' u' rs xl' xr where
      "kts = ls @ (k', u') # rs" "blocks u' = xl' @ Blk p es # xr" "xl = sub_blocks ls @ Sep k' # xl'"
      "cr = xr @ sub_blocks rs" by blast
    with later(1) show ?thesis using Cons.prems(1) [of "(k, u) # ls" k' u' rs xl' xr] by (simp add: ku cl)
  qed
qed simp

lemma leaf_context:
  assumes "blocks t = cl @ Blk p es # cr"
  obtains fs where "t = plug_ctx fs (TLeaf p es)" and "ctx_left fs = cl" and "ctx_right fs = cr"
    and "length fs < height t"
proof -
  have "\<exists>gs. plug_ctx fs t = plug_ctx gs (TLeaf p es) \<and> ctx_left gs = ctx_left fs @ cl
      \<and> ctx_right gs = cr @ ctx_right fs \<and> length gs < length fs + height t" for fs
    using assms
  proof (induction t arbitrary: fs cl cr)
    case (TLeaf p' es')
    then have "cl = [] \<and> cr = [] \<and> p' = p \<and> es' = es" by (simp add: append_eq_Cons_conv Cons_eq_append_conv)
    then show ?case by (intro exI [of _ fs]) simp
  next
    case (TNode p' t kts)
    from TNode.prems consider (first) xr where "blocks t = cl @ Blk p es # xr" "cr = xr @ sub_blocks kts"
      | (later) xl where "cl = blocks t @ xl" "sub_blocks kts = xl @ Blk p es # cr"
      by (auto simp: append_eq_append_conv2 append_eq_Cons_conv Cons_eq_append_conv)
    then show ?case
    proof cases
      case first
      from TNode.IH(1) [OF first(1), of "Frame p' None kts # fs"] first(2) height_first [of t p' kts]
      show ?thesis by auto
    next
      case later
      obtain ls k u rs xl' xr where kts: "kts = ls @ (k, u) # rs" and u: "blocks u = xl' @ Blk p es # xr"
        and xl: "xl = sub_blocks ls @ Sep k # xl'" and cr: "cr = xr @ sub_blocks rs"
        by (rule split_blocks_child [OF later(2)])
      have mem: "(k, u) \<in> set kts" by (simp add: kts)
      have "u \<in> Basic_BNFs.snds (k, u)" by simp
      from TNode.IH(2) [OF mem this u, of "Frame p' (Some (t, ls, k)) rs # fs"]
        height_later [OF mem, of p' t] later(1) xl cr kts
      show ?thesis by auto
    qed
  qed
  from this [of "[]"] show thesis using that by auto
qed

end
