(* ===== verification/BTreeShape.thy ===== *)
theory BTreeShape
  imports BTreeContext
begin

text \<open>
  The shape of the tree: all leaves lie on one level and every internal node has at least one separator. What
  a context contributes to it is a property of its frames alone.
\<close>

section \<open>Balance\<close>

fun bal :: "nat \<Rightarrow> tree \<Rightarrow> bool" where
  "bal n (TLeaf p es) \<longleftrightarrow> n = 0"
| "bal n (TNode p t kts) \<longleftrightarrow> 0 < n \<and> kts \<noteq> [] \<and> bal (n - 1) t \<and> (\<forall>(k, u)\<in>set kts. bal (n - 1) u)"

fun lead_bal :: "nat \<Rightarrow> (tree \<times> (i64 \<times> tree) list \<times> i64) option \<Rightarrow> bool" where
  "lead_bal n None \<longleftrightarrow> True"
| "lead_bal n (Some (t0, ls, k)) \<longleftrightarrow> bal n t0 \<and> (\<forall>(k, u)\<in>set ls. bal n u)"

fun frame_bal :: "nat \<Rightarrow> frame \<Rightarrow> bool" where
  "frame_bal n (Frame p ld rs) \<longleftrightarrow> lead_bal n ld \<and> (\<forall>(k, u)\<in>set rs. bal n u)"

fun frame_keys :: "frame \<Rightarrow> nat" where
  "frame_keys (Frame p ld rs) = (case ld of None \<Rightarrow> 0 | Some (t0, ls, k) \<Rightarrow> Suc (length ls)) + length rs"

fun ctx_bal :: "nat \<Rightarrow> frame list \<Rightarrow> bool" where
  "ctx_bal n [] \<longleftrightarrow> True"
| "ctx_bal n (f # fs) \<longleftrightarrow> frame_bal n f \<and> 0 < frame_keys f \<and> ctx_bal (Suc n) fs"

fun root_keys :: "tree \<Rightarrow> nat" where
  "root_keys (TLeaf p es) = 0"
| "root_keys (TNode p t kts) = length kts"

lemma lead_bal_plug:
  "bal n (lead_tree ld L) \<and> (\<forall>(k, u)\<in>set (lead_pairs ld L). bal n u) \<longleftrightarrow> lead_bal n ld \<and> bal n L"
  by (cases "(ld, L)" rule: lead_tree.cases) auto

lemma root_keys_plug [simp]: "root_keys (plug f L) = frame_keys f"
proof -
  obtain p ld rs where "f = Frame p ld rs" by (cases f)
  then show ?thesis by (cases "(ld, L)" rule: lead_tree.cases) simp_all
qed

lemma bal_plug: "bal (Suc n) (plug f L) \<longleftrightarrow> frame_bal n f \<and> 0 < frame_keys f \<and> bal n L"
proof -
  obtain p ld rs where f: "f = Frame p ld rs" by (cases f)
  have "0 < frame_keys f \<longleftrightarrow> lead_pairs ld L @ rs \<noteq> []"
    by (cases "(ld, L)" rule: lead_tree.cases) (simp_all add: f)
  with lead_bal_plug [of n ld L] show ?thesis by (auto simp: f)
qed

lemma bal_plug_ctx: "ctx_bal n fs \<Longrightarrow> bal n L \<Longrightarrow> bal (n + length fs) (plug_ctx fs L)"
proof (induction fs arbitrary: n L)
  case (Cons f fs)
  then show ?case using Cons.IH [of "Suc n" "plug f L"] bal_plug [of n f L] by simp
qed simp

lemma bal_split_ctx:
  assumes "bal m (plug_ctx fs L)"
  obtains n where "m = n + length fs" and "bal n L" and "ctx_bal n fs"
  using assms
proof (induction fs arbitrary: L thesis)
  case (Cons f fs)
  obtain n' where n': "m = n' + length fs" "bal n' (plug f L)" "ctx_bal n' fs" using Cons.IH [of "plug f L"] Cons.prems(2) by auto
  obtain n where "n' = Suc n" using n'(2) by (cases f; cases n') simp_all
  with n' bal_plug [of n f L] show ?case by (intro Cons.prems(1) [of n]) simp_all
qed simp

lemma root_keys_plug_ctx: "root_keys (plug_ctx (f # fs) L) = frame_keys (last (f # fs))"
  by (induction fs arbitrary: f L) simp_all

lemma fold_max_le: "fold max xs a \<le> h \<longleftrightarrow> (a :: nat) \<le> h \<and> (\<forall>x\<in>set xs. x \<le> h)"
  by (induction xs arbitrary: a) auto

lemma height_bal: "bal n t \<Longrightarrow> height t = Suc n"
proof (induction t arbitrary: n)
  case (TNode p t kts)
  then obtain m where m: "n = Suc m" "bal m t" "\<forall>(k, u)\<in>set kts. bal m u" by (cases n) auto
  have t: "height t = Suc m" by (rule TNode.IH(1) [OF m(2)])
  have "height u = Suc m" if "(k, u) \<in> set kts" for k u
    by (rule TNode.IH(2) [OF that]) (use m(3) that in auto)
  then have "height (TNode p t kts) \<le> Suc (Suc m)" using t by (auto simp: fold_max_le)
  moreover have "Suc m < height (TNode p t kts)" using height_first [of t p kts] t by simp
  ultimately show ?case by (simp add: m(1))
qed simp

text \<open>The shape an insertion keeps.\<close>

definition balanced :: "tree \<Rightarrow> bool" where
  "balanced t \<longleftrightarrow> (\<exists>n. bal n t)"

lemma balanced_root: "bal n L \<Longrightarrow> bal n R \<Longrightarrow> balanced (TNode r L [(k, R)])"
  unfolding balanced_def by (intro exI [of _ "Suc n"]) simp

lemma balanced_single [simp]: "balanced (TLeaf p es)"
  by (simp add: balanced_def)

lemma balanced_plug_ctx: "ctx_bal n fs \<Longrightarrow> bal n L \<Longrightarrow> balanced (plug_ctx fs L)"
  unfolding balanced_def by (blast intro: bal_plug_ctx)

lemma balanced_leaf:
  assumes "balanced (plug_ctx fs (TLeaf p es))"
  shows "ctx_bal 0 fs" and "balanced (plug_ctx fs (TLeaf q es'))"
proof -
  from assms obtain m where "bal m (plug_ctx fs (TLeaf p es))" by (auto simp: balanced_def)
  then obtain n where "bal n (TLeaf p es)" "ctx_bal n fs" by (rule bal_split_ctx)
  then show "ctx_bal 0 fs" by simp
  then show "balanced (plug_ctx fs (TLeaf q es'))" by (rule balanced_plug_ctx) simp
qed

lemma bal_insert_after:
  assumes "frame_bal n (Frame p ld rs)" and "bal n L" and "bal n R"
  shows "bal (Suc n) (TNode p (lead_tree ld L) (lead_pairs ld L @ (k, R) # rs))"
  using bal_plug [of n "Frame p ld ((k, R) # rs)" L] assms by simp

lemma bal_halves:
  assumes "bal (Suc n) (TNode p t kts)" and "0 < j" and "Suc j < length kts"
  shows "bal (Suc n) (TNode p t (take j kts))" and "bal (Suc n) (TNode q (snd (kts ! j)) (drop (Suc j) kts))"
proof -
  have "kts ! j \<in> set kts" using assms(3) by simp
  with assms show "bal (Suc n) (TNode p t (take j kts))" and "bal (Suc n) (TNode q (snd (kts ! j)) (drop (Suc j) kts))"
    by (auto dest: in_set_takeD in_set_dropD simp: case_prod_unfold)
qed

lemma bal_Suc:
  assumes "bal (Suc n) t"
  obtains p u kts where "t = TNode p u kts" and "kts \<noteq> []" and "bal n u" and "\<forall>(k, w)\<in>set kts. bal n w"
  using assms by (cases t) auto

lemma bal_zero:
  assumes "bal 0 t"
  obtains p es where "t = TLeaf p es"
  using assms by (cases t) auto

end
