(* ===== verification/BTreeSplit.thy ===== *)
theory BTreeSplit
  imports BTreeShape
begin

text \<open>
  Insertion, splits included. The leaf operations change one block of the in-order sequence; the
  climb through the parents changes the shape of the tree but not the sequence, except for the
  new separator it was called with.
\<close>

section \<open>Rewriting single pages\<close>

lemma tree_at_upd_other:
  assumes "i \<notin> set (ids t)"
  shows "tree_at (v(i \<mapsto> x)) par t = tree_at v par t"
  using assms by (intro tree_at_cong) auto

lemma sub_at_upd_other:
  assumes "i \<notin> set (sub_ids kts)"
  shows "(\<forall>(k, u)\<in>set kts. tree_at (v(i \<mapsto> x)) p u) \<longleftrightarrow> (\<forall>(k, u)\<in>set kts. tree_at v p u)"
  using assms by (intro sub_at_cong) auto

lemma tree_at_reparent:
  assumes t: "tree_at v q t" and d: "distinct (ids t)" and par: "par < 2 ^ 32"
    and page: "v (root_id t) = Some page" and h: "deserialize_header page = Inr h"
  obtains page' where "serialize_header (h\<lparr>parent := par\<rparr>) page = Inr page'" and "length page' = page_size"
    and "tree_at (v(root_id t \<mapsto> page')) par t"
proof (cases t)
  case (TLeaf p es)
  with t page have lp: "leaf_page page q es" by auto
  obtain page' where p': "serialize_header \<lparr>node_type = Leaf, num_keys = length es, parent = par\<rparr> page = Inr page'"
    "leaf_page page' par es"
    by (rule leaf_page_set_parent [OF lp par])
  have "h = \<lparr>node_type = Leaf, num_keys = length es, parent = q\<rparr>" using leaf_page_header [OF lp] h by simp
  with p' TLeaf show thesis by (intro that [of page']) (auto simp: leaf_page_def)
next
  case (TNode p u kts)
  with t page have np: "node_page page q (root_id u) (child_ids kts)" by auto
  obtain page' where p': "serialize_header \<lparr>node_type = Internal, num_keys = length (child_ids kts), parent = par\<rparr> page = Inr page'"
    "node_page page' par (root_id u) (child_ids kts)"
    by (rule node_page_set_parent [OF np par])
  have "h = \<lparr>node_type = Internal, num_keys = length (child_ids kts), parent = q\<rparr>"
    using node_page_header [OF np] h by simp
  moreover have "length page' = page_size" using p'(2) by (simp add: node_page_def)
  moreover have "tree_at (v(p \<mapsto> page')) par (TNode p u kts)"
    using t d p'(2) by (simp add: TNode tree_at_upd_other sub_at_upd_other)
  ultimately show thesis using p'(1) TNode by (intro that [of page']) simp_all
qed

text \<open>The pages of a tree are different pages, none of them page 0, with ids that fit a parent field.\<close>

definition ids_ok :: "nat list \<Rightarrow> bool" where
  "ids_ok is \<longleftrightarrow> distinct is \<and> (\<forall>i\<in>set is. 0 < i \<and> i < 2 ^ 32)"

lemma ids_okD: "ids_ok is \<Longrightarrow> i \<in> set is \<Longrightarrow> 0 < i" "ids_ok is \<Longrightarrow> i \<in> set is \<Longrightarrow> i < 2 ^ 32"
  by (simp_all add: ids_ok_def)

lemma u32_u64: "(i :: nat) < 2 ^ 32 \<Longrightarrow> i < 2 ^ 64"
  by simp

lemma root_disjoint:
  assumes "set (ids L) \<inter> set (ids R) = {}"
  shows "root_id L \<notin> set (ids R)" and "root_id R \<notin> set (ids L)"
  using assms root_id_in_ids by blast+

lemma disjoint_mono: "B \<subseteq> C \<Longrightarrow> A \<inter> C = {} \<Longrightarrow> A \<inter> B = {}"
  by blast

lemma ids_in_sub: "u \<in> snd ` set kts \<Longrightarrow> set (ids u) \<subseteq> set (sub_ids kts)"
proof -
  assume "u \<in> snd ` set kts"
  then obtain k where "(k, u) \<in> set kts" by auto
  then show ?thesis by (rule set_sub_ids)
qed

lemma roots_in_sub: "root_id ` snd ` set kts \<subseteq> set (sub_ids kts)"
proof
  fix i assume "i \<in> root_id ` snd ` set kts"
  then obtain u where u: "u \<in> snd ` set kts" "i = root_id u" by blast
  from ids_in_sub [OF u(1)] root_id_in_ids [of u] u(2) show "i \<in> set (sub_ids kts)" by blast
qed

lemma ids_ok_root:
  assumes "ids_ok is" and "set (ids t) \<subseteq> set is"
  shows "0 < root_id t" and "root_id t < 2 ^ 32" and "root_id t < 2 ^ 64" and "as_u32 (root_id t) = root_id t"
proof -
  have "root_id t \<in> set is" using assms(2) root_id_in_ids by blast
  with assms(1) show "0 < root_id t" "root_id t < 2 ^ 32" by (blast dest: ids_okD)+
  then show "root_id t < 2 ^ 64" "as_u32 (root_id t) = root_id t" by (simp_all add: as_u32_def)
qed

section \<open>Heights\<close>

lemma height_node_le: "height (TNode p t kts) \<le> Suc h \<longleftrightarrow> height t \<le> h \<and> (\<forall>(k, u)\<in>set kts. height u \<le> h)"
  by (auto simp: fold_max_le)

lemma height_node_Suc: "\<exists>h. height (TNode p t kts) = Suc h"
  by simp

lemma height_lead_le:
  "height (TNode p (lead_tree ld L) (lead_pairs ld L @ rs)) \<le> Suc h \<longleftrightarrow>
     height L \<le> h \<and> (case ld of None \<Rightarrow> True | Some (t0, ls, k) \<Rightarrow> height t0 \<le> h \<and> (\<forall>(k, u)\<in>set ls. height u \<le> h))
     \<and> (\<forall>(k, u)\<in>set rs. height u \<le> h)"
  unfolding height_node_le by (cases "(ld, L)" rule: lead_tree.cases) auto

lemma height_insert_after:
  assumes "height L \<le> height X" and "height R \<le> height X"
  shows "height (TNode p (lead_tree ld L) (lead_pairs ld L @ (k, R) # rs)) \<le> height (plug (Frame p ld rs) X)"
proof -
  obtain h where h: "height (plug (Frame p ld rs) X) = Suc h" by simp
  then have le: "height X \<le> h" "case ld of None \<Rightarrow> True | Some (t0, ls, k) \<Rightarrow> height t0 \<le> h \<and> (\<forall>(k, u)\<in>set ls. height u \<le> h)"
    "\<forall>(k, u)\<in>set rs. height u \<le> h"
    using height_lead_le [of p ld X rs h] by simp_all
  with assms have "\<forall>(k', u)\<in>set ((k, R) # rs). height u \<le> h" "height L \<le> h" by auto
  with le(2) h show ?thesis using height_lead_le [of p ld L "(k, R) # rs" h] by simp
qed

lemma height_plug_mono: "height L \<le> height X \<Longrightarrow> height (plug f L) \<le> height (plug f X)"
proof -
  assume le: "height L \<le> height X"
  obtain p ld rs where f: "f = Frame p ld rs" by (cases f)
  obtain h where h: "height (plug f X) = Suc h" by (simp add: f)
  then have "height X \<le> h" "case ld of None \<Rightarrow> True | Some (t0, ls, k) \<Rightarrow> height t0 \<le> h \<and> (\<forall>(k, u)\<in>set ls. height u \<le> h)"
    "\<forall>(k, u)\<in>set rs. height u \<le> h"
    using height_lead_le [of p ld X rs h] by (simp_all add: f)
  with le h show ?thesis using height_lead_le [of p ld L rs h] by (simp add: f)
qed

lemma height_plug_ctx_mono: "height L \<le> height X \<Longrightarrow> height (plug_ctx fs L) \<le> height (plug_ctx fs X)"
  by (induction fs arbitrary: L X) (simp_all add: height_plug_mono)

lemma height_sub_le:
  assumes "set us \<subseteq> set kts"
  shows "height (TNode p t us) \<le> height (TNode p t kts)"
    and "(k, u) \<in> set kts \<Longrightarrow> height (TNode q u us) \<le> height (TNode p t kts)"
proof -
  obtain h where h: "height (TNode p t kts) = Suc h" by simp
  then have "height t \<le> h" "\<forall>(k, u)\<in>set kts. height u \<le> h" using height_node_le [of p t kts h] by simp_all
  with assms h show "height (TNode p t us) \<le> height (TNode p t kts)"
    and "(k, u) \<in> set kts \<Longrightarrow> height (TNode q u us) \<le> height (TNode p t kts)"
    using height_node_le [of p t us h] height_node_le [of q u us h] by auto
qed

section \<open>Where a separator goes\<close>

lemma Sep_before:
  assumes "ordered (xs @ Sep k # ys)" and "Sep k' \<in> set xs"
  shows "sint k' < sint k"
proof -
  have "2 * sint k' \<in> set (ranks xs)" by (rule rank_of_Sep [OF assms(2)])
  moreover have "\<forall>x\<in>set (ranks xs). x < 2 * sint k" using assms(1) by (auto simp: ordered_append)
  ultimately have "2 * sint k' < 2 * sint k" by blast
  then show ?thesis by simp
qed

lemma Sep_after:
  assumes "ordered (xs @ Sep k # ys)" and "Sep k' \<in> set ys"
  shows "sint k < sint k'"
proof -
  have "2 * sint k' \<in> set (ranks ys)" by (rule rank_of_Sep [OF assms(2)])
  moreover have "\<forall>y\<in>set (ranks ys). 2 * sint k < y" using assms(1) by (auto simp: ordered_append ordered_Sep)
  ultimately have "2 * sint k < 2 * sint k'" by blast
  then show ?thesis by simp
qed

lemma child_keys: "x \<in> set (child_ids rs) \<Longrightarrow> Sep (fst x) \<in> set (sub_blocks rs)"
  by (induction rs) auto

lemma lead_keys: "x \<in> set (lead_child_ids ld l) \<Longrightarrow> Sep (fst x) \<in> set (lead_left ld)"
  by (cases "(ld, l)" rule: lead_root.cases) (auto dest: child_keys)

lemma takeWhile_split:
  assumes "\<And>x. x \<in> set xs \<Longrightarrow> Q x" and "\<And>y. y \<in> set ys \<Longrightarrow> \<not> Q y"
  shows "takeWhile Q (xs @ ys) = xs"
  using assms by (cases ys) simp_all

lemma insert_index:
  assumes "ordered (xs @ Sep k # ys)" and "set (lead_left ld) \<subseteq> set xs" and "set (sub_blocks rs) \<subseteq> set ys"
  shows "takeWhile (\<lambda>p. sint (fst p) \<le> sint k) (lead_child_ids ld l @ child_ids rs) = lead_child_ids ld l"
    and "split_insert_idx (map fst (lead_child_ids ld l @ child_ids rs)) k = length (lead_child_ids ld l)"
proof -
  have 1: "sint (fst x) < sint k" if "x \<in> set (lead_child_ids ld l)" for x
    using Sep_before [OF assms(1)] lead_keys [OF that] assms(2) by blast
  have 2: "sint k < sint (fst x)" if "x \<in> set (child_ids rs)" for x
    using Sep_after [OF assms(1)] child_keys [OF that] assms(3) by blast
  show "takeWhile (\<lambda>p. sint (fst p) \<le> sint k) (lead_child_ids ld l @ child_ids rs) = lead_child_ids ld l"
    by (rule takeWhile_split) (use 1 2 in \<open>auto simp: not_le intro: less_imp_le\<close>)
  have "takeWhile (\<lambda>x. sint (fst x) < sint k) (lead_child_ids ld l @ child_ids rs) = lead_child_ids ld l"
    by (rule takeWhile_split) (use 1 2 in \<open>auto simp: not_less intro: less_imp_le\<close>)
  then show "split_insert_idx (map fst (lead_child_ids ld l @ child_ids rs)) k = length (lead_child_ids ld l)"
    by (simp add: split_insert_idx_def takeWhile_map comp_def del: map_append)
qed

context page_io
begin

definition steps :: "nat set \<Rightarrow> nat \<Rightarrow> 's \<Rightarrow> 's \<Rightarrow> bool" where
  "steps S n s s' \<longleftrightarrow> inv s' \<and> (\<forall>i. i \<notin> S \<longrightarrow> view s' i = view s i)
     \<and> (\<forall>i. view s i \<noteq> None \<longrightarrow> view s' i \<noteq> None) \<and> room s \<le> room s' + n"

lemma steps_refl: "inv s \<Longrightarrow> steps S n s s"
  by (simp add: steps_def)

lemma steps_trans: "steps S n s s' \<Longrightarrow> steps T m s' s'' \<Longrightarrow> steps (S \<union> T) (n + m) s s''"
  by (auto simp: steps_def)

lemma steps_mono: "steps S n s s' \<Longrightarrow> S \<subseteq> T \<Longrightarrow> n \<le> m \<Longrightarrow> steps T m s s'"
  by (auto simp: steps_def)

lemma keeps_steps: "keeps s s' \<Longrightarrow> steps S n s s'"
  by (simp add: keeps_def steps_def)

lemma keeps_fields: "keeps s s' \<Longrightarrow> inv s'" "keeps s s' \<Longrightarrow> view s' = view s" "keeps s s' \<Longrightarrow> room s' = room s"
  by (simp_all add: keeps_def)

lemma steps_inv: "steps S n s s' \<Longrightarrow> inv s'"
  by (simp add: steps_def)

lemma steps_view: "steps S n s s' \<Longrightarrow> i \<notin> S \<Longrightarrow> view s' i = view s i"
  by (simp add: steps_def)

lemma steps_alive: "steps S n s s' \<Longrightarrow> view s i \<noteq> None \<Longrightarrow> view s' i \<noteq> None"
  by (simp add: steps_def)

lemma steps_tree_at: "steps S n s s' \<Longrightarrow> set (ids t) \<inter> S = {} \<Longrightarrow> tree_at (view s') p t = tree_at (view s) p t"
  by (rule tree_at_cong) (auto simp: steps_def)

lemma steps_ctx_at: "steps S n s s' \<Longrightarrow> set (ctx_ids fs) \<inter> S = {} \<Longrightarrow> ctx_at (view s') l fs = ctx_at (view s) l fs"
  by (rule ctx_at_cong) (auto simp: steps_def)

lemma write_steps:
  assumes "inv s" and "view s pid \<noteq> None" and "length x = page_size"
  obtains s' where "po_write P pid x s = (Inr (), s')" and "steps {pid} 0 s s'" and "view s' = (view s)(pid \<mapsto> x)"
  using write_ok [OF assms] that by (auto simp: steps_def)

lemma alloc_steps:
  assumes "inv s" and "0 < room s"
  obtains pid s' where "po_alloc P s = (Inr pid, s')" and "steps {pid} 1 s s'" and "view s pid = None"
    and "pid < 2 ^ 32" and "view s' = (view s)(pid \<mapsto> blank_page)"
  using alloc_ok [OF assms] that by (auto simp: steps_def)

lemma set_parent_ok:
  assumes "inv s" and t: "tree_at (view s) q t" and d: "distinct (ids t)" and par: "par < 2 ^ 32"
  obtains s' where "set_parent_pointer P (root_id t) par s = (Inr (), s')" and "steps {root_id t} 0 s s'"
    and "tree_at (view s') par t"
proof -
  obtain page h where page: "view s (root_id t) = Some page" and h: "deserialize_header page = Inr h" "parent h = q"
    using tree_at_root [OF t] by metis
  obtain s1 where rd: "read_node P (root_id t) s = (Inr (h, page), s1)" and s1: "keeps s s1"
    by (rule read_node_ok [OF assms(1) page h(1)])
  show thesis
  proof (cases "q = par")
    case True
    with rd h s1 t show thesis
      by (intro that [of s1]) (simp_all add: set_parent_pointer_def mbind_def keeps_steps keeps_fields)
  next
    case False
    obtain page' where p': "serialize_header (h\<lparr>parent := par\<rparr>) page = Inr page'" "length page' = page_size"
      "tree_at ((view s)(root_id t \<mapsto> page')) par t"
      by (rule tree_at_reparent [OF t d par page h(1)])
    have "view s1 (root_id t) \<noteq> None" using page s1 by (simp add: keeps_def)
    then obtain s2 where w: "po_write P (root_id t) page' s1 = (Inr (), s2)" "steps {root_id t} 0 s1 s2"
      "view s2 = (view s1)(root_id t \<mapsto> page')"
      by (rule write_steps [OF keeps_fields(1) [OF s1] _ p'(2)])
    have "steps {root_id t} 0 s s2" using steps_trans [OF keeps_steps [OF s1, of "{}" 0] w(2)] by simp
    with rd h False p' w s1 show thesis
      by (intro that [of s2]) (simp_all add: set_parent_pointer_def mbind_def keeps_fields)
  qed
qed

lemma set_parents_ok:
  assumes "inv s" and "\<forall>t\<in>set ts. \<exists>q. tree_at (view s) q t" and "distinct (concat (map ids ts))" and "par < 2 ^ 32"
  shows "\<exists>s'. set_parent_pointers P (map root_id ts) par s = (Inr (), s') \<and> steps (root_id ` set ts) 0 s s'
    \<and> (\<forall>t\<in>set ts. tree_at (view s') par t)"
  using assms(1-3)
proof (induction ts arbitrary: s)
  case Nil
  then show ?case by (simp add: steps_refl)
next
  case (Cons t ts)
  obtain q where q: "tree_at (view s) q t" using Cons.prems(2) by auto
  have d: "distinct (ids t)" "distinct (concat (map ids ts))" "set (ids t) \<inter> set (concat (map ids ts)) = {}"
    using Cons.prems(3) by auto
  obtain s1 where s1: "set_parent_pointer P (root_id t) par s = (Inr (), s1)" "steps {root_id t} 0 s s1"
    "tree_at (view s1) par t"
    by (rule set_parent_ok [OF Cons.prems(1) q d(1) assms(4)])
  have "root_id t \<notin> set (concat (map ids ts))" using d(3) root_id_in_ids by blast
  then have other: "set (ids u) \<inter> {root_id t} = {}" if "u \<in> set ts" for u
    using that by auto
  have "\<forall>u\<in>set ts. \<exists>q. tree_at (view s1) q u"
    using Cons.prems(2) steps_tree_at [OF s1(2) other] by auto
  from Cons.IH [OF steps_inv [OF s1(2)] this d(2)] obtain s2 where
    s2: "set_parent_pointers P (map root_id ts) par s1 = (Inr (), s2)" "steps (root_id ` set ts) 0 s1 s2"
      "\<forall>u\<in>set ts. tree_at (view s2) par u" by blast
  have "set (ids t) \<inter> root_id ` set ts = {}" using d(3) root_id_in_ids by fastforce
  from steps_tree_at [OF s2(2) this] s1(3) have "tree_at (view s2) par t" by simp
  with s1 s2 steps_trans [OF s1(2) s2(2)] show ?case by (simp add: mbind_def)
qed

section \<open>Climbing\<close>

text \<open>What an insertion into the parents starts from and what it ends with.\<close>

definition split_state :: "'s \<Rightarrow> frame list \<Rightarrow> tree \<Rightarrow> i64 \<Rightarrow> tree \<Rightarrow> bool" where
  "split_state s fs L k R \<longleftrightarrow>
     inv s \<and> tree_at (view s) (par_of fs) L \<and> (\<exists>q. tree_at (view s) q R) \<and> ctx_at (view s) (root_id L) fs
     \<and> ids_ok (ctx_ids fs @ ids L @ ids R) \<and> view s 0 \<noteq> None
     \<and> ordered (ctx_left fs @ blocks L @ Sep k # blocks R @ ctx_right fs)"

definition inserted :: "'s \<Rightarrow> 's \<Rightarrow> nat \<Rightarrow> tree \<Rightarrow> block list \<Rightarrow> tree \<Rightarrow> bool" where
  "inserted s s' n t bs t' \<longleftrightarrow>
     tree_at (view s') 0 t' \<and> blocks t' = bs \<and> ids_ok (ids t') \<and> steps (set (ids t')) n s s'
     \<and> (\<forall>i\<in>set (ids t'). i \<in> set (ids t) \<or> view s i = None)"

lemma tree_at_alive: "tree_at v par t \<Longrightarrow> i \<in> set (ids t) \<Longrightarrow> v i \<noteq> None"
proof (induction t arbitrary: par)
  case (TNode p t kts)
  then show ?case by (fastforce simp: sub_ids_def)
qed auto

lemma fresh_not_id: "tree_at (view s) par t \<Longrightarrow> view s i = None \<Longrightarrow> i \<notin> set (ids t)"
  using tree_at_alive by blast

lemma new_root_ok:
  assumes st: "split_state s [] L k R" and room: "0 < room s"
  obtains r s' where "create_new_root P (root_id L) (root_id R) k s = (Inr r, s')"
    and "tree_at (view s') 0 (TNode r L [(k, R)])" and "steps (set (ids (TNode r L [(k, R)]))) 1 s s'"
    and "view s r = None" and "0 < r" and "r < 2 ^ 32"
proof -
  from st obtain q where inv: "inv s" and L: "tree_at (view s) 0 L" and R: "tree_at (view s) q R"
    and ok: "ids_ok (ids L @ ids R)" and z: "view s 0 \<noteq> None"
    by (auto simp: split_state_def)
  obtain r s1 where al: "po_alloc P s = (Inr r, s1)" "steps {r} 1 s s1" "view s r = None" "r < 2 ^ 32"
    "view s1 = (view s)(r \<mapsto> blank_page)"
    by (rule alloc_steps [OF inv room])
  have rn: "r \<notin> set (ids L)" "r \<notin> set (ids R)" "0 < r"
    using fresh_not_id [OF L al(3)] fresh_not_id [OF R al(3)] z al(3) by (auto intro: gr0I)
  have small: "root_id L < 2 ^ 64" "root_id R < 2 ^ 64"
    by (rule ids_ok_root(3) [OF ok], simp)+
  obtain page where page: "rbind (serialize_header ((header_new Internal)\<lparr>num_keys := 1\<rparr>) blank_page)
      (put_internal_body [k] [root_id L, root_id R]) = Inr page" and np: "node_page page 0 (root_id L) [(k, root_id R)]"
    by (rule fresh_node [of "(header_new Internal)\<lparr>num_keys := 1\<rparr>" "[(k, root_id R)]" 0 "root_id L" "[k]"
          "[root_id L, root_id R]"])
      (use small in \<open>simp_all add: header_new_def HEADER_SIZE_def page_size_def blank_page_def\<close>)
  have len: "length page = page_size" using np by (simp add: node_page_def)
  have "view s1 r \<noteq> None" by (simp add: al(5))
  then obtain s2 where w: "po_write P r page s1 = (Inr (), s2)" "steps {r} 0 s1 s2" "view s2 = (view s1)(r \<mapsto> page)"
    by (rule write_steps [OF steps_inv [OF al(2)] _ len])
  have s2: "steps {r} 1 s s2" using steps_trans [OF al(2) w(2)] by simp
  have L2: "tree_at (view s2) 0 L" and R2: "tree_at (view s2) q R"
    using L R rn steps_tree_at [OF s2] by auto
  have d: "distinct (ids L)" "distinct (ids R)" "set (ids L) \<inter> set (ids R) = {}" using ok by (auto simp: ids_ok_def)
  have u32: "as_u32 r = r" using al(4) by (simp add: as_u32_def)
  obtain s3 where p3: "set_parent_pointer P (root_id L) (as_u32 r) s2 = (Inr (), s3)" "steps {root_id L} 0 s2 s3"
    "tree_at (view s3) r L"
    using set_parent_ok [OF steps_inv [OF s2] L2 d(1) al(4)] u32 by metis
  have "tree_at (view s3) q R"
    using R2 root_disjoint [OF d(3)] steps_tree_at [OF p3(2), of R] by auto
  then obtain s4 where p4: "set_parent_pointer P (root_id R) (as_u32 r) s3 = (Inr (), s4)" "steps {root_id R} 0 s3 s4"
    "tree_at (view s4) r R"
    using set_parent_ok [OF steps_inv [OF p3(2)] _ d(2) al(4)] u32 by metis
  have "tree_at (view s4) r L"
    using p3(3) root_disjoint [OF d(3)] steps_tree_at [OF p4(2), of L] by auto
  moreover have st4: "steps ({r} \<union> {root_id L} \<union> {root_id R}) 1 s s4"
    using steps_trans [OF steps_trans [OF s2 p3(2)] p4(2)] by simp
  moreover have "view s4 r = Some page"
  proof -
    have "r \<noteq> root_id L" "r \<noteq> root_id R" using rn root_id_in_ids by metis+
    then show ?thesis using steps_view [OF p3(2), of r] steps_view [OF p4(2), of r] w(3) by simp
  qed
  ultimately have "tree_at (view s4) 0 (TNode r L [(k, R)])" using np p4(3) by simp
  moreover have "create_new_root P (root_id L) (root_id R) k s = (Inr r, s4)"
    using al(1) page w(1) p3(1) p4(1) by (simp add: create_new_root_def mbind_def)
  moreover have "steps (set (ids (TNode r L [(k, R)]))) 1 s s4"
    using st4 by (rule steps_mono) (auto simp del: root_id_in_ids simp: root_id_in_ids)
  ultimately show thesis using al rn by (intro that [of r s4]) simp_all
qed

lemma fresh_sub: "\<forall>(k, u)\<in>set kts. tree_at (view s) p u \<Longrightarrow> view s i = None \<Longrightarrow> i \<notin> set (sub_ids kts)"
  using fresh_not_id by (fastforce simp: sub_ids_def)

lemma ctx_at_alive: "ctx_at v l fs \<Longrightarrow> i \<in> set (ctx_ids fs) \<Longrightarrow> v i \<noteq> None"
proof (induction fs arbitrary: l)
  case (Cons f fs)
  obtain p ld rs where f: "f = Frame p ld rs" by (cases f)
  from Cons.prems(1) have fr: "frame_at v (par_of fs) l (Frame p ld rs)" and cx: "ctx_at v p fs" by (simp_all add: f)
  have "v i \<noteq> None" if "i \<in> set (lead_ids ld)"
    using fr that by (cases "(v, p, ld)" rule: lead_at.cases) (auto simp: sub_ids_def dest: tree_at_alive)
  moreover have "v i \<noteq> None" if "i \<in> set (sub_ids rs)"
    using fr that tree_at_alive by (fastforce simp: sub_ids_def)
  moreover have "v p \<noteq> None" using fr by auto
  ultimately show ?case using Cons.prems(2) Cons.IH [OF cx] by (auto simp: f)
qed simp

text \<open>Splitting a node hands a smaller instance of the same situation to the next level.\<close>

lemma split_node_ok:
  fixes kts :: "(i64 \<times> tree) list"
  defines "j \<equiv> length kts div 2"
  assumes inv: "inv s" and pg: "view s p = Some pg" and np: "node_page pg (par_of fs) c ps"
    and keys: "insert_at (split_insert_idx (map fst ps) k) k (map fst ps) = map fst kts"
    and children: "insert_at (split_insert_idx (map fst ps) k + 1) r (c # map snd ps) = map root_id (c0 # map snd kts)"
    and trees: "tree_at (view s) p c0" "\<forall>(k, u)\<in>set kts. tree_at (view s) p u"
    and ctx: "ctx_at (view s) p fs" and ok: "ids_ok (ctx_ids fs @ p # ids c0 @ sub_ids kts)"
    and ord: "ordered (ctx_left fs @ blocks c0 @ sub_blocks kts @ ctx_right fs)"
    and z: "view s 0 \<noteq> None" and room: "0 < room s" and kts: "kts \<noteq> []"
  obtains sib s' where
    "split_internal_node P (Suc fuel) p r k s = insert_into_parent P fuel p sib (fst (kts ! j)) s'"
    and "split_state s' fs (TNode p c0 (take j kts)) (fst (kts ! j)) (TNode sib (snd (kts ! j)) (drop (Suc j) kts))"
    and "steps (insert p (insert sib (set (sub_ids kts)))) 1 s s'" and "view s sib = None" and "0 < sib" and "sib < 2 ^ 32"
proof -
  have j: "j < length kts" using kts by (simp add: j_def)
  obtain pk pu where ku: "kts ! j = (pk, pu)" by (cases "kts ! j")
  have split: "kts = take j kts @ (pk, pu) # drop (Suc j) kts" using id_take_nth_drop [OF j] ku by simp
  let ?lk = "take j kts" and ?rk = "drop (Suc j) kts"
  have sub: "sub_ids kts = sub_ids ?lk @ ids pu @ sub_ids ?rk" "sub_blocks kts = sub_blocks ?lk @ Sep pk # blocks pu @ sub_blocks ?rk"
    by (subst split, simp)+
  have mem: "(pk, pu) \<in> set kts" using j ku by (metis nth_mem)
  have small: "root_id u < 2 ^ 64" if "set (ids u) \<subseteq> set (ids c0 @ sub_ids kts)" for u
    using ids_ok_root(3) [OF ok, of u] that by auto
  have small_sub: "pairs_ok (child_ids us)" if "set us \<subseteq> set kts" for us
    unfolding pairs_ok_def
  proof
    fix x assume "x \<in> set (child_ids us)"
    then obtain k u where u: "(k, u) \<in> set us" "x = (k, root_id u)" by (auto simp: child_ids_def)
    then have "set (ids u) \<subseteq> set (ids c0 @ sub_ids kts)" using set_sub_ids [of k u kts] that by auto
    from small [OF this] u(2) show "snd x < 2 ^ 64" by simp
  qed
  note b = node_page_bounds [OF np]
  have lk: "length kts = length ps + 1" using arg_cong [OF keys, of length]
    by (simp add: insert_at_def split_insert_idx_def length_takeWhile_le)
  have fits: "HEADER_SIZE + 8 + 16 * length us \<le> page_size" if "length us \<le> length ps" for us :: "(i64 \<times> tree) list"
    using b(1) that by simp
  \<comment> \<open>the new sibling page\<close>
  obtain s1 where rd: "read_node P p s = (Inr (\<lparr>node_type = Internal, num_keys = length ps, parent = par_of fs\<rparr>, pg), s1)"
    and s1: "keeps s s1"
    by (rule read_node_ok [OF inv pg node_page_header [OF np]])
  have i1: "inv s1" and r1: "0 < room s1" and v1: "view s1 = view s" using room s1 by (simp_all add: keeps_def)
  obtain sib s2 where al: "po_alloc P s1 = (Inr sib, s2)" "steps {sib} 1 s1 s2" "view s1 sib = None" "sib < 2 ^ 32"
    "view s2 = (view s1)(sib \<mapsto> blank_page)"
    by (rule alloc_steps [OF i1 r1])
  have sn: "view s sib = None" "0 < sib" using al(3) v1 z by (auto intro: gr0I)
  have fresh: "sib \<notin> set (ids c0)" "sib \<notin> set (sub_ids kts)" "sib \<noteq> p" "sib \<notin> set (ctx_ids fs)"
    using fresh_not_id [OF trees(1) sn(1)] fresh_sub [OF trees(2) sn(1)] pg sn(1) ctx_at_alive [OF ctx, of sib] by auto
  let ?ts = "pu # map snd ?rk"
  have dj: "drop j kts = (pk, pu) # ?rk" using Cons_nth_drop_Suc [OF j] ku by simp
  have code: "drop (j + 1) (map fst kts) = map fst ?rk" "take j (map fst kts) = map fst ?lk"
    "drop (j + 1) (map root_id (c0 # map snd kts)) = map root_id ?ts"
    "take (j + 1) (map root_id (c0 # map snd kts)) = root_id c0 # map snd (child_ids ?lk)"
    "map root_id ?ts = root_id pu # map snd (child_ids ?rk)"
    "length (map fst kts) div 2 = j" "map fst kts ! j = pk"
    using j ku dj by (simp_all add: drop_map take_map child_ids_def comp_def split_def j_def)
  obtain spage where spage: "rbind (serialize_header ((header_new Internal)\<lparr>num_keys := length ?rk\<rparr>) blank_page)
      (put_internal_body (map fst ?rk) (map root_id ?ts)) = Inr spage" and snp: "node_page spage 0 (root_id pu) (child_ids ?rk)"
    by (rule fresh_node [of "(header_new Internal)\<lparr>num_keys := length ?rk\<rparr>" "child_ids ?rk" 0 "root_id pu" "map fst ?rk" "map root_id ?ts"])
      (use small [of pu] small_sub [of ?rk] fits [of ?rk] lk mem set_sub_ids [OF mem] in
        \<open>auto simp: header_new_def blank_page_def code(5) child_ids_def comp_def split_def dest: in_set_dropD\<close>)
  obtain lpage where lpage: "rbind (serialize_header (\<lparr>node_type = Internal, num_keys = length ?lk, parent = par_of fs\<rparr>) blank_page)
      (put_internal_body (map fst ?lk) (root_id c0 # map snd (child_ids ?lk))) = Inr lpage"
    and lnp: "node_page lpage (par_of fs) (root_id c0) (child_ids ?lk)"
    by (rule fresh_node [of "\<lparr>node_type = Internal, num_keys = length ?lk, parent = par_of fs\<rparr>" "child_ids ?lk" "par_of fs" "root_id c0"
          "map fst ?lk" "root_id c0 # map snd (child_ids ?lk)"])
      (use small [of c0] small_sub [of ?lk] fits [of ?lk] lk j np in
        \<open>auto simp: blank_page_def child_ids_def comp_def split_def node_page_def dest: in_set_takeD\<close>)
  have d: "distinct (ids pu @ sub_ids ?rk)" using ok sub(1) by (simp add: ids_ok_def)
  have in_kts: "u \<in> snd ` set kts" if "u \<in> set ?ts" for u
    using that mem by (force dest: in_set_dropD)
  have ts: "\<exists>q. tree_at (view s2) q u" if "u \<in> set ?ts" for u
  proof -
    from in_kts [OF that] obtain k' where k': "(k', u) \<in> set kts" by force
    then have "tree_at (view s1) p u" using trees(2) v1 by auto
    moreover have "sib \<notin> set (ids u)" using set_sub_ids [OF k'] fresh(2) by blast
    ultimately show ?thesis using steps_tree_at [OF al(2), of u p] by auto
  qed
  have "distinct (concat (map ids ?ts))" using d by (simp add: sub_ids_def comp_def split_def)
  with ts obtain s3 where s3: "set_parent_pointers P (map root_id ?ts) sib s2 = (Inr (), s3)" "steps (root_id ` set ?ts) 0 s2 s3"
    "\<forall>u\<in>set ?ts. tree_at (view s3) sib u"
    using set_parents_ok [OF steps_inv [OF al(2)], of ?ts sib] al(4) by auto
  have w4: "view s3 sib \<noteq> None" "length spage = page_size"
    using steps_alive [OF s3(2), of sib] al(5) snp by (simp_all add: node_page_def)
  obtain s4 where s4: "po_write P sib spage s3 = (Inr (), s4)" "steps {sib} 0 s3 s4" "view s4 = (view s3)(sib \<mapsto> spage)"
    by (rule write_steps [OF steps_inv [OF s3(2)] w4])
  have w5: "view s4 p \<noteq> None" "length lpage = page_size"
    using steps_alive [OF s4(2), of p] steps_alive [OF s3(2), of p] steps_alive [OF al(2), of p] pg v1 lnp
    by (simp_all add: node_page_def)
  obtain s5 where s5: "po_write P p lpage s4 = (Inr (), s5)" "steps {p} 0 s4 s5" "view s5 = (view s4)(p \<mapsto> lpage)"
    by (rule write_steps [OF steps_inv [OF s4(2)] w5])
  define rc where "rc = map root_id ?ts"
  define lc where "lc = root_id c0 # map snd (child_ids ?lk)"
  define ac where "ac = map root_id (c0 # map snd kts)"
  define kk where "kk = map fst kts"
  note defs = rc_def [symmetric] lc_def [symmetric] ac_def [symmetric] kk_def [symmetric]
  have u32: "as_u32 sib = sib" using al(4) by (simp add: as_u32_def)
  have lens: "length (map fst ?rk) = length ?rk" "length (map fst ?lk) = length ?lk" by simp_all
  have prog: "split_internal_node P (Suc fuel) p r k s = insert_into_parent P fuel p sib pk s5"
    unfolding split_internal_node.simps Let_def
    using rd node_page_read(3) [OF np] al(1) spage [unfolded defs] s3(1) [unfolded defs] s4(1) lpage [unfolded defs] s5(1)
      keys [unfolded defs] children [unfolded defs] code(1-4,6,7) [unfolded defs] u32
    by (simp add: mbind_def lens del: length_map length_drop length_take)
  let ?S = "insert p (insert sib (root_id ` set ?ts))"
  have st: "steps ?S 1 s s5"
    using steps_trans [OF steps_trans [OF steps_trans [OF steps_trans [OF keeps_steps [OF s1, of "{}" 0] al(2)] s3(2)] s4(2)] s5(2)]
    by (rule steps_mono) auto
  have rts: "root_id ` set ?ts \<subseteq> set (ids pu @ sub_ids ?rk)"
    using roots_in_sub [of ?rk] by auto
  have dist: "distinct (ctx_ids fs @ p # ids c0 @ sub_ids ?lk @ ids pu @ sub_ids ?rk)"
    using ok sub(1) by (simp add: ids_ok_def)
  have fr: "sib \<notin> set (ctx_ids fs @ p # ids c0 @ sub_ids ?lk @ ids pu @ sub_ids ?rk)"
    using fresh sub(1) by auto
  have S: "?S \<subseteq> insert p (insert sib (set (ids pu @ sub_ids ?rk)))" using rts by auto
  have disj1: "set (ids c0 @ sub_ids ?lk) \<inter> ?S = {}"
    by (rule disjoint_mono [OF S]) (use dist fr in auto)
  have disj2: "set (ctx_ids fs) \<inter> ?S = {}"
    by (rule disjoint_mono [OF S]) (use dist fr in auto)
  note disj = disj1 disj2
  have L: "tree_at (view s5) (par_of fs) (TNode p c0 ?lk)"
  proof -
    have "tree_at (view s5) p c0" using trees(1) steps_tree_at [OF st, of c0 p] disj(1) by auto
    moreover have "tree_at (view s5) p u" if "(k', u) \<in> set ?lk" for k' u
    proof -
      have "tree_at (view s) p u" using trees(2) that by (auto dest: in_set_takeD)
      then show ?thesis using steps_tree_at [OF st, of u p] set_sub_ids [OF that] disj(1) by auto
    qed
    ultimately show ?thesis using lnp s5(3) by auto
  qed
  have st35: "steps {p, sib} 0 s3 s5" using steps_trans [OF s4(2) s5(2)] by (rule steps_mono) auto
  have R: "tree_at (view s5) 0 (TNode sib pu ?rk)"
  proof -
    have all: "tree_at (view s5) sib u" if u: "u \<in> set ?ts" for u
    proof -
      have "set (ids u) \<subseteq> set (ids pu @ sub_ids ?rk)" using u ids_in_sub [of u ?rk] by auto
      then have "set (ids u) \<inter> {p, sib} = {}" using dist fr by auto
      then show ?thesis using s3(3) u steps_tree_at [OF st35, of u sib] by auto
    qed
    have "tree_at (view s5) sib pu" by (rule all) simp
    moreover have "tree_at (view s5) sib u" if "(k', u) \<in> set ?rk" for k' u
      by (rule all) (use that in force)
    moreover have "view s5 sib = Some spage" using s5(3) s4(3) fresh(3) by simp
    ultimately show ?thesis using snp by auto
  qed
  have "ctx_at (view s5) p fs" using ctx steps_ctx_at [OF st disj(2)] by simp
  moreover have "ids_ok (ctx_ids fs @ ids (TNode p c0 ?lk) @ ids (TNode sib pu ?rk))"
    using ok dist fr al(4) sn(2) by (auto simp: ids_ok_def sub(1))
  moreover have "view s5 0 \<noteq> None" using steps_alive [OF st z] .
  moreover have "ordered (ctx_left fs @ blocks (TNode p c0 ?lk) @ Sep pk # blocks (TNode sib pu ?rk) @ ctx_right fs)"
    using ord by (simp add: sub(2))
  ultimately have "split_state s5 fs (TNode p c0 ?lk) pk (TNode sib pu ?rk)"
    using steps_inv [OF st] L R unfolding split_state_def root_id.simps by blast
  moreover have "steps (insert p (insert sib (set (sub_ids kts)))) 1 s s5"
    using st by (rule steps_mono) (use rts sub(1) in auto)
  ultimately show thesis
    using that [of sib s5] prog sn al(4) by (simp add: ku)
qed

text \<open>Everything an insertion below the frame leaves for the node of the frame to do.\<close>

lemma frame_children:
  assumes st: "split_state s (Frame p ld rs # fs) L k R"
  obtains s1 pg where "set_parent_pointer P (root_id R) (as_u32 p) s = (Inr (), s1)" and "steps {root_id R} 0 s s1"
    and "view s1 p = Some pg"
    and "node_page pg (par_of fs) (lead_root ld (root_id L)) (lead_child_ids ld (root_id L) @ child_ids rs)"
    and "tree_at (view s1) p (lead_tree ld L)"
    and "\<forall>(k', u)\<in>set (lead_pairs ld L @ (k, R) # rs). tree_at (view s1) p u"
    and "ctx_at (view s1) p fs" and "view s1 0 \<noteq> None"
proof -
  let ?f = "Frame p ld rs"
  from st obtain q where inv: "inv s" and L: "tree_at (view s) p L" and R: "tree_at (view s) q R"
    and fr: "frame_at (view s) (par_of fs) (root_id L) ?f" and cx: "ctx_at (view s) p fs"
    and ok: "ids_ok (ctx_ids (?f # fs) @ ids L @ ids R)" and z: "view s 0 \<noteq> None"
    by (auto simp: split_state_def)
  have p: "p < 2 ^ 32" "0 < p" using ok by (simp_all add: ids_ok_def)
  then have u32: "as_u32 p = p" by (simp add: as_u32_def)
  have d: "distinct (ids R)" using ok by (simp add: ids_ok_def)
  obtain s1 where s1: "set_parent_pointer P (root_id R) p s = (Inr (), s1)" "steps {root_id R} 0 s s1"
    "tree_at (view s1) p R"
    by (rule set_parent_ok [OF inv R d p(1)])
  have r: "root_id R \<in> set (ids R)" by simp
  have dj: "root_id R \<notin> set (ids L)" "root_id R \<noteq> p" "root_id R \<notin> set (lead_ids ld)" "root_id R \<notin> set (sub_ids rs)"
    "root_id R \<notin> set (ctx_ids fs)"
    using ok r by (auto simp: ids_ok_def)
  have L1: "tree_at (view s1) p L" using L steps_tree_at [OF s1(2), of L p] dj(1) by simp
  have "lead_at (view s1) p ld" using fr lead_at_cong [of ld "view s1" "view s" p] steps_view [OF s1(2)] dj(3) by force
  with L1 have lead: "tree_at (view s1) p (lead_tree ld L)" "\<forall>(k, u)\<in>set (lead_pairs ld L). tree_at (view s1) p u"
    using lead_plug(3) [of "view s1" p ld L] by blast+
  have rs1: "\<forall>(k, u)\<in>set rs. tree_at (view s1) p u"
    using fr sub_at_cong [of rs "view s1" "view s" p] steps_view [OF s1(2)] dj(4) by force
  obtain pg where pg: "view s p = Some pg"
    "node_page pg (par_of fs) (lead_root ld (root_id L)) (lead_child_ids ld (root_id L) @ child_ids rs)"
    using fr by auto
  have "view s1 p = Some pg" using pg(1) steps_view [OF s1(2), of p] dj(2) by simp
  moreover have "ctx_at (view s1) p fs" using cx steps_ctx_at [OF s1(2), of fs p] dj(5) by simp
  moreover have "view s1 0 \<noteq> None" using steps_alive [OF s1(2) z] .
  moreover have "\<forall>(k', u)\<in>set (lead_pairs ld L @ (k, R) # rs). tree_at (view s1) p u"
    using lead(2) rs1 s1(3) by auto
  ultimately show thesis using s1 pg(2) lead(1) u32 by (intro that [of s1 pg]) simp_all
qed

lemma frame_ids_ok:
  assumes "ids_ok (ctx_ids (Frame p ld rs # fs) @ ids L @ ids R)"
  shows "ids_ok (ctx_ids fs @ p # ids (lead_tree ld L) @ sub_ids (lead_pairs ld L @ (k, R) # rs))"
    and "set (p # ids (lead_tree ld L) @ sub_ids (lead_pairs ld L @ (k, R) # rs)) =
      set (frame_ids (Frame p ld rs)) \<union> set (ids L) \<union> set (ids R)"
proof -
  have m: "mset (ids (lead_tree ld L)) + mset (sub_ids (lead_pairs ld L)) = mset (lead_ids ld) + mset (ids L)"
    by (rule mset_ids_lead)
  have "mset (ctx_ids fs @ p # ids (lead_tree ld L) @ sub_ids (lead_pairs ld L @ (k, R) # rs)) =
      mset (ctx_ids fs @ [p] @ sub_ids rs @ ids R) + (mset (ids (lead_tree ld L)) + mset (sub_ids (lead_pairs ld L)))"
    by simp
  also have "\<dots> = mset (ctx_ids (Frame p ld rs # fs) @ ids L @ ids R)"
    unfolding m by simp
  finally have e: "mset (ctx_ids fs @ p # ids (lead_tree ld L) @ sub_ids (lead_pairs ld L @ (k, R) # rs)) =
      mset (ctx_ids (Frame p ld rs # fs) @ ids L @ ids R)" .
  from mset_eq_imp_distinct_iff [OF e] mset_eq_setD [OF e] assms
  show "ids_ok (ctx_ids fs @ p # ids (lead_tree ld L) @ sub_ids (lead_pairs ld L @ (k, R) # rs))"
    unfolding ids_ok_def by metis
  have "set_mset (mset (ids (lead_tree ld L)) + mset (sub_ids (lead_pairs ld L))) =
      set_mset (mset (lead_ids ld) + mset (ids L))" by (simp only: m)
  then have "set (ids (lead_tree ld L)) \<union> set (sub_ids (lead_pairs ld L)) = set (lead_ids ld) \<union> set (ids L)"
    by simp
  then show "set (p # ids (lead_tree ld L) @ sub_ids (lead_pairs ld L @ (k, R) # rs)) =
      set (frame_ids (Frame p ld rs)) \<union> set (ids L) \<union> set (ids R)"
    by auto
qed

text \<open>The result of a climb from the context \<open>fs\<close> with \<open>L\<close>, separator \<open>k\<close> and \<open>R\<close> in its hole.\<close>

definition climbed :: "'s \<Rightarrow> frame list \<Rightarrow> tree \<Rightarrow> i64 \<Rightarrow> tree \<Rightarrow> nat option \<Rightarrow> 's \<Rightarrow> tree \<Rightarrow> bool" where
  "climbed s fs L k R res s' t' \<longleftrightarrow>
     tree_at (view s') 0 t' \<and> blocks t' = ctx_left fs @ blocks L @ Sep k # blocks R @ ctx_right fs
     \<and> ids_ok (ids t') \<and> steps (set (ids t')) (Suc (length fs)) s s'
     \<and> (\<forall>i\<in>set (ids t'). i \<in> set (ctx_ids fs @ ids L @ ids R) \<or> view s i = None)
     \<and> set (ctx_ids fs @ ids L @ ids R) \<subseteq> set (ids t')
     \<and> root_id t' = (case res of None \<Rightarrow> root_id (plug_ctx fs L) | Some r \<Rightarrow> r)
     \<and> (\<forall>X. height L \<le> height X \<longrightarrow> height R \<le> height X \<longrightarrow> height t' \<le> Suc (height (plug_ctx fs X)))
     \<and> (\<forall>n. bal n L \<longrightarrow> bal n R \<longrightarrow> ctx_bal n fs \<longrightarrow> balanced t')"

lemma climbed_root:
  assumes st: "split_state s [] L k R" and room: "0 < room s"
  shows "\<exists>res s' t'. insert_into_parent P (Suc fuel) (root_id L) (root_id R) k s = (Inr res, s')
    \<and> climbed s [] L k R res s' t'"
proof -
  from st have inv: "inv s" and L: "tree_at (view s) 0 L" and ok: "ids_ok (ids L @ ids R)"
    by (auto simp: split_state_def)
  obtain page h where page: "view s (root_id L) = Some page" "deserialize_header page = Inr h" "parent h = 0"
    using tree_at_root [OF L] by metis
  obtain s1 where rd: "read_node P (root_id L) s = (Inr (h, page), s1)" and s1: "keeps s s1"
    by (rule read_node_ok [OF inv page(1,2)])
  have st1: "split_state s1 [] L k R" "0 < room s1"
    using st room s1 by (simp_all add: split_state_def keeps_def)
  obtain r s' where cr: "create_new_root P (root_id L) (root_id R) k s1 = (Inr r, s')"
    and t: "tree_at (view s') 0 (TNode r L [(k, R)])" "steps (set (ids (TNode r L [(k, R)]))) 1 s1 s'"
    and r: "view s1 r = None" "0 < r" "r < 2 ^ 32"
    by (rule new_root_ok [OF st1])
  have "insert_into_parent P (Suc fuel) (root_id L) (root_id R) k s = (Inr (Some r), s')"
    using rd page(3) cr by (simp add: mbind_def)
  moreover have "climbed s [] L k R (Some r) s' (TNode r L [(k, R)])"
  proof -
    have "r \<notin> set (ids L)" "r \<notin> set (ids R)"
      using st1(1) r(1) by (auto simp: split_state_def dest: fresh_not_id)
    moreover have "steps (set (ids (TNode r L [(k, R)]))) 1 s s'"
      using steps_trans [OF keeps_steps [OF s1, of "{}" 0] t(2)] by simp
    ultimately show ?thesis
      using t(1) r ok s1 balanced_root [of _ L R r k] by (auto simp: climbed_def ids_ok_def keeps_def)
  qed
  ultimately show ?thesis by blast
qed

lemma root_id_plug_ctx: "root_id A = root_id B \<Longrightarrow> root_id (plug_ctx fs A) = root_id (plug_ctx fs B)"
  by (induction fs arbitrary: A B) simp_all

end

end
