(* ===== verification/BTreeInsert.thy ===== *)
theory BTreeInsert
  imports BTreeSplit
begin

text \<open>
  Insertion into the tree: the climb through the parents for any context, and the insertion into
  a leaf with the splits it causes.
\<close>

context page_io
begin

section \<open>The climb\<close>

text \<open>Up to the point where the node of the frame is either rewritten or split.\<close>

lemma enter_frame:
  fixes L R :: tree
  defines "ps ld rs \<equiv> lead_child_ids ld (root_id L) @ child_ids rs"
  assumes st: "split_state s (Frame p ld rs # fs) L k R"
  obtains s1 pg where
    "insert_into_parent P (Suc (Suc fuel)) (root_id L) (root_id R) k s =
      (if BTREE_ORDER \<le> length (ps ld rs) then split_internal_node P fuel p (root_id R) k s1
       else mbind (mlift (internal_insert \<lparr>node_type = Internal, num_keys = length (ps ld rs), parent = par_of fs\<rparr>
              (length (lead_child_ids ld (root_id L))) k (root_id R) pg))
            (\<lambda>page. mbind (po_write P p page) (\<lambda>_. mret None)) s1)"
    and "steps {root_id R} 0 s s1" and "view s1 p = Some pg"
    and "node_page pg (par_of fs) (lead_root ld (root_id L)) (ps ld rs)"
    and "tree_at (view s1) p (lead_tree ld L)"
    and "\<forall>(k', u)\<in>set (lead_pairs ld L @ (k, R) # rs). tree_at (view s1) p u"
    and "ctx_at (view s1) p fs" and "view s1 0 \<noteq> None"
proof -
  from st have inv: "inv s" and L: "tree_at (view s) p L" and z: "view s 0 \<noteq> None"
    and ok: "ids_ok (ctx_ids (Frame p ld rs # fs) @ ids L @ ids R)"
    and ord: "ordered (ctx_left fs @ lead_left ld @ blocks L @ Sep k # blocks R @ sub_blocks rs @ ctx_right fs)"
    by (auto simp: split_state_def)
  have p: "p \<noteq> 0" using ok by (simp add: ids_ok_def)
  obtain page h where page: "view s (root_id L) = Some page" "deserialize_header page = Inr h" "parent h = p"
    using tree_at_root [OF L] by metis
  obtain s0 where rd: "read_node P (root_id L) s = (Inr (h, page), s0)" and s0: "keeps s s0"
    by (rule read_node_ok [OF inv page(1,2)])
  have st0: "split_state s0 (Frame p ld rs # fs) L k R" using st s0 by (simp add: split_state_def keeps_def)
  obtain s1 pg where s1: "set_parent_pointer P (root_id R) (as_u32 p) s0 = (Inr (), s1)" "steps {root_id R} 0 s0 s1"
    and pg: "view s1 p = Some pg" "node_page pg (par_of fs) (lead_root ld (root_id L)) (ps ld rs)"
    and rest: "tree_at (view s1) p (lead_tree ld L)"
      "\<forall>(k', u)\<in>set (lead_pairs ld L @ (k, R) # rs). tree_at (view s1) p u" "ctx_at (view s1) p fs" "view s1 0 \<noteq> None"
    unfolding ps_def by (rule frame_children [OF st0])
  obtain s2 where rd2: "read_node P p s1 = (Inr (\<lparr>node_type = Internal, num_keys = length (ps ld rs), parent = par_of fs\<rparr>, pg), s2)"
    and s2: "keeps s1 s2"
    by (rule read_node_ok [OF steps_inv [OF s1(2)] pg(1) node_page_header [OF pg(2)]])
  have "takeWhile (\<lambda>q. sint (fst q) \<le> sint k) (ps ld rs) = lead_child_ids ld (root_id L)"
    unfolding ps_def
    by (rule insert_index(1) [of "ctx_left fs @ lead_left ld @ blocks L" k "blocks R @ sub_blocks rs @ ctx_right fs"])
      (use ord in auto)
  with node_page_read(4) [OF pg(2), of k]
  have idx: "internal_insert_idx (length (ps ld rs)) (HEADER_SIZE + 8) pg k = Inr (length (lead_child_ids ld (root_id L)))"
    by simp
  have "insert_into_parent P (Suc (Suc fuel)) (root_id L) (root_id R) k s =
      (if BTREE_ORDER \<le> length (ps ld rs) then split_internal_node P fuel p (root_id R) k s2
       else mbind (mlift (internal_insert \<lparr>node_type = Internal, num_keys = length (ps ld rs), parent = par_of fs\<rparr>
              (length (lead_child_ids ld (root_id L))) k (root_id R) pg))
            (\<lambda>page. mbind (po_write P p page) (\<lambda>_. mret None)) s2)"
    using rd page(3) p s1(1) rd2 idx by (simp add: mbind_def)
  moreover have "steps {root_id R} 0 s s2"
    using steps_trans [OF steps_trans [OF keeps_steps [OF s0, of "{}" 0] s1(2)] keeps_steps [OF s2, of "{}" 0]] by simp
  moreover have "view s2 = view s1" using s2 by (simp add: keeps_def)
  ultimately show thesis using pg rest by (intro that [of s2 pg]) simp_all
qed

lemma grown_blocks:
  "blocks (TNode p (lead_tree ld L) (lead_pairs ld L @ (k, R) # rs)) = lead_left ld @ blocks L @ Sep k # blocks R @ sub_blocks rs"
  using blocks_lead [of ld L] by (simp flip: append_assoc)

lemma climb_fits:
  assumes st: "split_state s (Frame p ld rs # fs) L k R"
    and fits: "length (lead_child_ids ld (root_id L) @ child_ids rs) < BTREE_ORDER"
  shows "\<exists>s' t'. insert_into_parent P (Suc (Suc fuel)) (root_id L) (root_id R) k s = (Inr None, s')
    \<and> climbed s (Frame p ld rs # fs) L k R None s' t'"
proof -
  let ?ps = "lead_child_ids ld (root_id L) @ child_ids rs"
  let ?kts = "lead_pairs ld L @ (k, R) # rs"
  let ?X = "TNode p (lead_tree ld L) ?kts" and ?t = "plug_ctx fs (TNode p (lead_tree ld L) (lead_pairs ld L @ (k, R) # rs))"
  obtain s1 pg where prog: "insert_into_parent P (Suc (Suc fuel)) (root_id L) (root_id R) k s =
      (if BTREE_ORDER \<le> length ?ps then split_internal_node P fuel p (root_id R) k s1
       else mbind (mlift (internal_insert \<lparr>node_type = Internal, num_keys = length ?ps, parent = par_of fs\<rparr>
              (length (lead_child_ids ld (root_id L))) k (root_id R) pg))
            (\<lambda>page. mbind (po_write P p page) (\<lambda>_. mret None)) s1)"
    and s1: "steps {root_id R} 0 s s1" and pg: "view s1 p = Some pg" "node_page pg (par_of fs) (lead_root ld (root_id L)) ?ps"
    and sub: "tree_at (view s1) p (lead_tree ld L)" "\<forall>(k', u)\<in>set ?kts. tree_at (view s1) p u" and cx: "ctx_at (view s1) p fs"
    by (rule enter_frame [OF st])
  from st have ok: "ids_ok (ctx_ids (Frame p ld rs # fs) @ ids L @ ids R)" by (simp add: split_state_def)
  have r: "root_id R < 2 ^ 64" by (rule ids_ok_root(3) [OF ok]) auto
  have fit: "HEADER_SIZE + 8 + 16 * (length ?ps + 1) \<le> page_size"
    using fits by (simp add: HEADER_SIZE_def page_size_def BTREE_ORDER_def)
  obtain pg' where pg': "internal_insert \<lparr>node_type = Internal, num_keys = length ?ps, parent = par_of fs\<rparr>
      (length (lead_child_ids ld (root_id L))) k (root_id R) pg = Inr pg'"
    and np: "node_page pg' (par_of fs) (lead_root ld (root_id L)) (take (length (lead_child_ids ld (root_id L))) ?ps @
      (k, root_id R) # drop (length (lead_child_ids ld (root_id L))) ?ps)"
    by (rule internal_insert_ok [OF pg(2) _ r fit, of "length (lead_child_ids ld (root_id L))" k]) auto
  have alive: "view s1 p \<noteq> None" "length pg' = page_size" using pg(1) np by (simp_all add: node_page_def)
  obtain s2 where w: "po_write P p pg' s1 = (Inr (), s2)" "steps {p} 0 s1 s2" "view s2 = (view s1)(p \<mapsto> pg')"
    by (rule write_steps [OF steps_inv [OF s1] alive])
  have nd: "ids_ok (ctx_ids fs @ ids ?X)" using frame_ids_ok(1) [OF ok, of k] by simp
  have st2: "steps {p, root_id R} 0 s s2" using steps_trans [OF s1 w(2)] by (rule steps_mono) auto
  have pn: "p \<notin> set (ids (lead_tree ld L))" "p \<notin> set (sub_ids ?kts)" "p \<notin> set (ctx_ids fs)"
    using nd by (auto simp: ids_ok_def simp del: sub_ids_simps)
  have "\<forall>(k', u)\<in>set ?kts. tree_at (view s2) p u" unfolding w(3) sub_at_upd_other [OF pn(2)] by (rule sub(2))
  moreover have "tree_at (view s2) p (lead_tree ld L)" unfolding w(3) tree_at_upd_other [OF pn(1)] by (rule sub(1))
  moreover have "node_page pg' (par_of fs) (root_id (lead_tree ld L)) (child_ids ?kts)" using np by (simp add: lead_plug)
  ultimately have "tree_at (view s2) (par_of fs) ?X" unfolding tree_at.simps w(3) by (simp only: fun_upd_same) blast
  moreover have "ctx_at (view s2) p fs" using cx steps_ctx_at [OF w(2), of fs p] pn(3) by simp
  ultimately have t: "tree_at (view s2) 0 ?t" by (simp add: tree_at_plug_ctx)
  have set_ids: "set (ids ?t) = set (ctx_ids (Frame p ld rs # fs) @ ids L @ ids R)"
    using frame_ids_ok(2) [OF ok, of k] by (auto simp: ids_plug_ctx(2))
  have "climbed s (Frame p ld rs # fs) L k R None s2 ?t"
    unfolding climbed_def
  proof (intro conjI)
    show "blocks ?t = ctx_left (Frame p ld rs # fs) @ blocks L @ Sep k # blocks R @ ctx_right (Frame p ld rs # fs)"
      using grown_blocks [of p ld L k R rs] by (simp add: blocks_plug_ctx)
    have "ids_ok (ids ?t) = ids_ok (ctx_ids fs @ ids ?X)" unfolding ids_ok_def ids_plug_ctx by simp
    with nd show "ids_ok (ids ?t)" by simp
    show "steps (set (ids ?t)) (Suc (length (Frame p ld rs # fs))) s s2"
      by (rule steps_mono [OF st2]) (auto simp: set_ids)
    show "root_id ?t = (case None of None \<Rightarrow> root_id (plug_ctx (Frame p ld rs # fs) L) | Some r \<Rightarrow> r)"
      using root_id_plug_ctx [of ?X "plug (Frame p ld rs) L" fs] by simp
    show "\<forall>X. height L \<le> height X \<longrightarrow> height R \<le> height X \<longrightarrow>
        height ?t \<le> Suc (height (plug_ctx (Frame p ld rs # fs) X))"
      using height_plug_ctx_mono [OF height_insert_after] by (metis le_Suc_eq plug_ctx.simps(2))
    show "\<forall>n. bal n L \<longrightarrow> bal n R \<longrightarrow> ctx_bal n (Frame p ld rs # fs) \<longrightarrow> balanced ?t"
      unfolding ctx_bal.simps by (blast intro: balanced_plug_ctx bal_insert_after)
  qed (use t set_ids in auto)
  moreover have "insert_into_parent P (Suc (Suc fuel)) (root_id L) (root_id R) k s = (Inr None, s2)"
    using prog fits pg' w(1) by (simp add: mbind_def)
  ultimately show ?thesis by blast
qed

lemma climbedD:
  assumes "climbed s fs L k R res s' t'"
  shows "tree_at (view s') 0 t'" and "ids_ok (ids t')" and "steps (set (ids t')) (Suc (length fs)) s s'"
    and "blocks t' = ctx_left fs @ blocks L @ Sep k # blocks R @ ctx_right fs"
    and "i \<in> set (ids t') \<Longrightarrow> i \<in> set (ctx_ids fs @ ids L @ ids R) \<or> view s i = None"
    and "set (ctx_ids fs @ ids L @ ids R) \<subseteq> set (ids t')"
    and "root_id t' = (case res of None \<Rightarrow> root_id (plug_ctx fs L) | Some r \<Rightarrow> r)"
    and "height L \<le> height X \<Longrightarrow> height R \<le> height X \<Longrightarrow> height t' \<le> Suc (height (plug_ctx fs X))"
    and "ctx_bal n fs \<Longrightarrow> bal n L \<Longrightarrow> bal n R \<Longrightarrow> balanced t'"
  using assms by (auto simp: climbed_def)

text \<open>A split passes the climb on: what the level above achieves is what this level achieves.\<close>

lemma climbed_up:
  fixes kts :: "(i64 \<times> tree) list"
  assumes ok: "ids_ok (ctx_ids (Frame p ld rs # fs) @ ids L @ ids R)"
    and kts: "kts = lead_pairs ld L @ (k, R) # rs" and j: "0 < j" "Suc j < length kts"
    and s1: "steps {root_id R} 0 s s1" and s2: "steps (insert p (insert sib (set (sub_ids kts)))) 1 s1 s2"
    and sib: "view s1 sib = None"
    and up: "climbed s2 fs (TNode p (lead_tree ld L) (take j kts)) (fst (kts ! j)) (TNode sib (snd (kts ! j)) (drop (Suc j) kts)) res s' t'"
  shows "climbed s (Frame p ld rs # fs) L k R res s' t'"
proof -
  obtain pk pu where ku: "kts ! j = (pk, pu)" by (cases "kts ! j")
  let ?L = "TNode p (lead_tree ld L) (take j kts)" and ?R = "TNode sib pu (drop (Suc j) kts)"
  have split: "kts = take j kts @ (pk, pu) # drop (Suc j) kts" using id_take_nth_drop [of j kts] j ku by simp
  have sub: "sub_ids kts = sub_ids (take j kts) @ ids pu @ sub_ids (drop (Suc j) kts)"
    "sub_blocks kts = sub_blocks (take j kts) @ Sep pk # blocks pu @ sub_blocks (drop (Suc j) kts)"
    by (subst split, simp)+
  note up' = climbedD [OF up [unfolded ku fst_conv snd_conv]]
  have set_ids: "set (ctx_ids fs @ ids ?L @ ids ?R) = insert sib (set (ctx_ids (Frame p ld rs # fs) @ ids L @ ids R))"
  proof -
    have "set (ctx_ids fs @ ids ?L @ ids ?R) = set (ctx_ids fs) \<union> insert sib (set (p # ids (lead_tree ld L) @ sub_ids kts))"
      unfolding sub(1) by auto
    then show ?thesis unfolding frame_ids_ok(2) [OF ok, of k, folded kts] by auto
  qed
  have inside: "insert sib (set (ctx_ids (Frame p ld rs # fs) @ ids L @ ids R)) \<subseteq> set (ids t')"
    using up'(6) unfolding set_ids .
  have subs: "set (sub_ids kts) \<subseteq> set (ctx_ids (Frame p ld rs # fs) @ ids L @ ids R)"
  proof -
    have "set (sub_ids kts) \<subseteq> set (p # ids (lead_tree ld L) @ sub_ids kts)" by auto
    also have "\<dots> = set (frame_ids (Frame p ld rs)) \<union> set (ids L) \<union> set (ids R)"
      by (rule frame_ids_ok(2) [OF ok, of k, folded kts])
    finally show ?thesis by (rule subset_trans) auto
  qed
  have "root_id R \<in> set (ids t')" "p \<in> set (ids t')" "sib \<in> set (ids t')"
    by (rule subsetD [OF inside], simp)+
  moreover have "set (sub_ids kts) \<subseteq> set (ids t')" using inside subs by blast
  ultimately have all_in: "root_id R \<in> set (ids t') \<and> p \<in> set (ids t') \<and> sib \<in> set (ids t') \<and> set (sub_ids kts) \<subseteq> set (ids t')"
    by blast
  show ?thesis
    unfolding climbed_def
  proof (intro conjI allI impI)
    show "blocks t' = ctx_left (Frame p ld rs # fs) @ blocks L @ Sep k # blocks R @ ctx_right (Frame p ld rs # fs)"
      using grown_blocks [of p ld L k R rs, folded kts] by (simp add: up'(4) sub(2))
    from steps_trans [OF steps_trans [OF s1 s2] up'(3)]
    show "steps (set (ids t')) (Suc (length (Frame p ld rs # fs))) s s'"
      by (rule steps_mono) (simp_all add: all_in)
    show "\<forall>i\<in>set (ids t'). i \<in> set (ctx_ids (Frame p ld rs # fs) @ ids L @ ids R) \<or> view s i = None"
    proof
      fix i assume "i \<in> set (ids t')"
      from up'(5) [OF this] consider "i = sib" | "i \<in> set (ctx_ids (Frame p ld rs # fs) @ ids L @ ids R)" | "view s2 i = None"
        unfolding set_ids by (elim disjE insertE)
      then show "i \<in> set (ctx_ids (Frame p ld rs # fs) @ ids L @ ids R) \<or> view s i = None"
      proof cases
        case 1
        then show ?thesis using sib steps_alive [OF s1, of i] by auto
      next
        case 3
        then show ?thesis using steps_alive [OF s1, of i] steps_alive [OF s2, of i] by auto
      qed simp
    qed
    show "root_id t' = (case res of None \<Rightarrow> root_id (plug_ctx (Frame p ld rs # fs) L) | Some r \<Rightarrow> r)"
      using up'(7) root_id_plug_ctx [of ?L "plug (Frame p ld rs) L" fs] by (simp split: option.splits)
    show "balanced t'" if "bal n L" "bal n R" "ctx_bal n (Frame p ld rs # fs)" for n
    proof -
      have "bal (Suc n) (TNode p (lead_tree ld L) kts)" unfolding kts by (rule bal_insert_after) (use that in simp_all)
      from bal_halves [OF this j] that(3) show ?thesis by (intro up'(9) [of "Suc n"]) (simp_all add: ku)
    qed
    fix X assume X: "height L \<le> height X" "height R \<le> height X"
    have "height (TNode p (lead_tree ld L) kts) \<le> height (plug (Frame p ld rs) X)"
      unfolding kts by (rule height_insert_after [OF X])
    moreover have "height ?L \<le> height (TNode p (lead_tree ld L) kts)" by (rule height_sub_le(1)) (rule set_take_subset)
    moreover have "height ?R \<le> height (TNode p (lead_tree ld L) kts)"
      by (rule height_sub_le(2) [OF set_drop_subset, of pk]) (use nth_mem [of j kts] j ku in simp)
    ultimately have "height ?L \<le> height (plug (Frame p ld rs) X)" "height ?R \<le> height (plug (Frame p ld rs) X)" by simp_all
    from up'(8) [OF this] show "height t' \<le> Suc (height (plug_ctx (Frame p ld rs # fs) X))" by simp
  qed (use up'(1,2) inside in auto)
qed

lemma split_lists:
  assumes "ordered (ctx_left fs @ lead_left ld @ blocks L @ Sep k # blocks R @ sub_blocks rs @ ctx_right fs)"
    and kts: "kts = lead_pairs ld L @ (k, R) # rs"
    and ps: "ps = lead_child_ids ld (root_id L) @ child_ids rs"
  shows "insert_at (split_insert_idx (map fst ps) k) k (map fst ps) = map fst kts"
    and "insert_at (split_insert_idx (map fst ps) k + 1) (root_id R) (lead_root ld (root_id L) # map snd ps) =
      map root_id (lead_tree ld L # map snd kts)"
proof -
  have len: "length (lead_child_ids ld (root_id L)) = length (lead_pairs ld L)"
    by (simp only: lead_plug(2) [symmetric] child_ids_simps)
  have idx: "split_insert_idx (map fst ps) k = length (lead_pairs ld L)"
    unfolding ps len [symmetric]
    by (rule insert_index(2) [of "ctx_left fs @ lead_left ld @ blocks L" k "blocks R @ sub_blocks rs @ ctx_right fs"])
      (use assms(1) in auto)
  have ps': "ps = child_ids (lead_pairs ld L) @ child_ids rs" by (simp add: ps lead_plug(2))
  have m: "map fst (child_ids us) = map fst us" "map snd (child_ids us) = map (\<lambda>x. root_id (snd x)) us" for us
    by (simp_all add: child_ids_def comp_def split_def)
  show "insert_at (split_insert_idx (map fst ps) k) k (map fst ps) = map fst kts"
    unfolding idx by (simp add: ps' kts insert_at_def m)
  show "insert_at (split_insert_idx (map fst ps) k + 1) (root_id R) (lead_root ld (root_id L) # map snd ps) =
      map root_id (lead_tree ld L # map snd kts)"
    unfolding idx by (simp add: ps' kts insert_at_def m lead_plug(1) comp_def)
qed

lemma insert_into_parent_ok:
  assumes "split_state s fs L k R" and "length fs < room s" and "3 * length fs < fuel"
  shows "\<exists>res s' t'. insert_into_parent P fuel (root_id L) (root_id R) k s = (Inr res, s')
    \<and> climbed s fs L k R res s' t'"
  using assms
proof (induction fs arbitrary: s L k R fuel)
  case Nil
  then obtain n where "fuel = Suc n" by (cases fuel) auto
  with climbed_root [OF Nil.prems(1)] Nil.prems(2) show ?case by simp
next
  case (Cons f fs)
  obtain p ld rs where f: "f = Frame p ld rs" by (cases f)
  note st = Cons.prems(1) [unfolded f]
  obtain n where fuel: "fuel = Suc (Suc (Suc n))" and n: "3 * length fs < n"
    using Cons.prems(3) by (intro that [of "fuel - 3"]) simp_all
  define ps where "ps = lead_child_ids ld (root_id L) @ child_ids rs"
  define kts where "kts = lead_pairs ld L @ (k, R) # rs"
  let ?j = "length kts div 2"
  show ?case
  proof (cases "length ps < BTREE_ORDER")
    case True
    from climb_fits [OF st this [unfolded ps_def]] show ?thesis unfolding fuel f by blast
  next
    case False
    obtain s1 pg where prog: "insert_into_parent P fuel (root_id L) (root_id R) k s =
        split_internal_node P (Suc n) p (root_id R) k s1"
      and s1: "steps {root_id R} 0 s s1" and pg: "view s1 p = Some pg" "node_page pg (par_of fs) (lead_root ld (root_id L)) ps"
      and sub: "tree_at (view s1) p (lead_tree ld L)" "\<forall>(k', u)\<in>set kts. tree_at (view s1) p u"
      and cx: "ctx_at (view s1) p fs" and z: "view s1 0 \<noteq> None"
      using enter_frame [OF st, of "Suc n"] False unfolding fuel kts_def [symmetric] ps_def [symmetric] by auto
    from st have ok: "ids_ok (ctx_ids (Frame p ld rs # fs) @ ids L @ ids R)"
      and ord: "ordered (ctx_left fs @ lead_left ld @ blocks L @ Sep k # blocks R @ sub_blocks rs @ ctx_right fs)"
      by (simp_all add: split_state_def)
    have ids: "ids_ok (ctx_ids fs @ p # ids (lead_tree ld L) @ sub_ids kts)"
      using frame_ids_ok(1) [OF ok, of k] by (simp add: kts_def)
    have "blocks (lead_tree ld L) @ sub_blocks kts = lead_left ld @ blocks L @ Sep k # blocks R @ sub_blocks rs"
      using grown_blocks [of p ld L k R rs] unfolding kts_def blocks_node .
    from arg_cong [OF this, of "\<lambda>bs. ordered (ctx_left fs @ bs @ ctx_right fs)"] ord
    have ord': "ordered (ctx_left fs @ blocks (lead_tree ld L) @ sub_blocks kts @ ctx_right fs)" by simp
    have room: "0 < room s1" "room s \<le> room s1" using s1 Cons.prems(2) by (auto simp: steps_def)
    obtain sib s2 where sp: "split_internal_node P (Suc n) p (root_id R) k s1 = insert_into_parent P n p sib (fst (kts ! ?j)) s2"
      and st2: "split_state s2 fs (TNode p (lead_tree ld L) (take ?j kts)) (fst (kts ! ?j)) (TNode sib (snd (kts ! ?j)) (drop (Suc ?j) kts))"
      and s2: "steps (insert p (insert sib (set (sub_ids kts)))) 1 s1 s2" and sib: "view s1 sib = None"
      by (rule split_node_ok [OF steps_inv [OF s1] pg split_lists [OF ord kts_def ps_def] sub cx ids ord' z room(1)])
        (simp add: kts_def)
    have "length fs < room s2" using s2 room(2) Cons.prems(2) by (simp add: steps_def)
    from Cons.IH [OF st2 this n] obtain res s' t' where
      up: "insert_into_parent P n p sib (fst (kts ! ?j)) s2 = (Inr res, s')"
        "climbed s2 fs (TNode p (lead_tree ld L) (take ?j kts)) (fst (kts ! ?j)) (TNode sib (snd (kts ! ?j)) (drop (Suc ?j) kts)) res s' t'"
      by auto
    have "length ps = length (lead_pairs ld L @ rs)" by (simp only: ps_def lead_plug(2) [symmetric] child_ids_simps length_append)
    then have "BTREE_ORDER < length kts" using False by (simp add: kts_def)
    then have "0 < ?j" "Suc ?j < length kts" by (simp_all add: BTREE_ORDER_def)
    from climbed_up [OF ok kts_def this s1 s2 sib up(2)] prog sp up(1) show ?thesis unfolding f by auto
  qed
qed

end

end
