(* ===== verification/BTreeLeaf.thy ===== *)
theory BTreeLeaf
  imports BTreeInsert
begin

text \<open>
  Insertion into a leaf: rewriting a leaf that has room, splitting one that has not, and the whole
  insertion when one split makes the room it needs.
\<close>

section \<open>Order\<close>

lemma rank_cases:
  assumes "r \<in> set (ranks bs)"
  obtains (sep) k where "Sep k \<in> set bs" and "r = 2 * sint k"
    | (entry) e where "e \<in> set (entries_of bs)" and "r = 2 * sint (fst e) + 1"
  using assms
proof (induction bs)
  case (Cons b bs)
  then show ?case by (cases b) auto
qed simp

lemma sorted_insert_mid:
  assumes "sorted_wrt (<) (xs @ ys)" and "\<And>a. a \<in> set xs \<Longrightarrow> a < x" and "\<And>b. b \<in> set ys \<Longrightarrow> x < (b :: int)"
  shows "sorted_wrt (<) (xs @ x # ys)"
  using assms by (auto simp: sorted_wrt_append)

lemma takeWhile_all: "(\<And>x. x \<in> set xs \<Longrightarrow> Q x) \<Longrightarrow> takeWhile Q (xs @ ys) = xs @ takeWhile Q ys \<and> dropWhile Q (xs @ ys) = dropWhile Q ys"
  by (induction xs) auto

lemma takeWhile_none: "(\<And>x. x \<in> set zs \<Longrightarrow> \<not> Q x) \<Longrightarrow> takeWhile Q (ys @ zs) = takeWhile Q ys \<and> dropWhile Q (ys @ zs) = dropWhile Q ys @ zs"
  by (induction ys) (cases zs, auto)+

lemma sorted_above:
  assumes "sorted_wrt (<) (map (\<lambda>e. 2 * sint (fst e) + 1) es)" and "e \<in> set (dropWhile (not_above key) es)"
  shows "sint key < sint (fst (e :: i64 \<times> bytes))"
  using assms by (induction es) (auto split: if_splits)

lemma insert_entry_blocks:
  assumes o: "ordered (cl @ Blk p es # cr)" and pl: "place key cl cr"
  shows "entries_of (cl @ Blk p (insert_entry key d es) # cr) = insert_entry key d (entries_of (cl @ Blk p es # cr))"
proof -
  have "not_above key e" if "e \<in> set (entries_of cl)" for e
    using place_left [OF o pl that] by simp
  from takeWhile_all [OF this, where xs = "entries_of cl"] have l: "takeWhile (not_above key) (entries_of cl @ ys) = entries_of cl @ takeWhile (not_above key) ys"
    "dropWhile (not_above key) (entries_of cl @ ys) = dropWhile (not_above key) ys" for ys
    by auto
  have "ordered ((cl @ [Blk p es]) @ cr)" using o by simp
  then have "\<not> not_above key e" if "e \<in> set (entries_of cr)" for e
    using place_right [OF _ pl that] by fastforce
  from takeWhile_none [OF this, where zs = "entries_of cr" and ys = es] l show ?thesis
    by (simp add: insert_entry_def)
qed

lemma ordered_new_key:
  assumes o: "ordered (cl @ Blk p es # cr)" and pl: "place key cl cr" and new: "key \<notin> fst ` set es"
  shows "ordered (cl @ Blk p (insert_entry key d es) # cr)"
proof -
  let ?A = "takeWhile (not_above key) es" and ?B = "dropWhile (not_above key) es"
  let ?f = "\<lambda>e :: i64 \<times> bytes. 2 * sint (fst e) + 1"
  have srt: "sorted_wrt (<) (ranks cl @ map ?f es @ ranks cr)" using o by (simp add: ordered_def)
  have es: "map ?f es = map ?f ?A @ map ?f ?B" by (metis map_append takeWhile_dropWhile_id)
  have below: "sint (fst e) < sint key" if "e \<in> set ?A" for e
  proof -
    have "not_above key e" "e \<in> set es" using that by (auto dest: set_takeWhileD)
    then have "sint (fst e) \<le> sint key" "fst e \<noteq> key" using new by auto
    then show ?thesis by (simp add: le_less)
  qed
  have above: "sint key < sint (fst e)" if "e \<in> set ?B" for e
    by (rule sorted_above [OF _ that]) (use srt in \<open>simp add: sorted_wrt_append\<close>)
  have o2: "ordered ((cl @ [Blk p es]) @ cr)" using o by simp
  have "sorted_wrt (<) ((ranks cl @ map ?f ?A) @ (2 * sint key + 1) # (map ?f ?B @ ranks cr))"
  proof (rule sorted_insert_mid)
    show "sorted_wrt (<) ((ranks cl @ map ?f ?A) @ map ?f ?B @ ranks cr)" using srt es by simp
    fix r assume "r \<in> set (ranks cl @ map ?f ?A)"
    then consider "r \<in> set (ranks cl)" | e where "e \<in> set ?A" "r = ?f e" by auto
    then show "r < 2 * sint key + 1"
    proof cases
      case 1
      then show ?thesis
      proof (cases rule: rank_cases)
        case (sep k)
        then have "sint k \<le> sint key" using pl by (simp add: place_def)
        then show ?thesis using sep(2) by simp
      next
        case (entry e)
        then show ?thesis using place_left [OF o pl entry(1)] by simp
      qed
    next
      case (2 e)
      then show ?thesis using below [of e] by simp
    qed
  next
    fix r assume "r \<in> set (map ?f ?B @ ranks cr)"
    then consider "r \<in> set (ranks cr)" | e where "e \<in> set ?B" "r = ?f e" by auto
    then show "2 * sint key + 1 < r"
    proof cases
      case 1
      then show ?thesis
      proof (cases rule: rank_cases)
        case (sep k)
        then have "sint key < sint k" using pl by (simp add: place_def)
        then show ?thesis using sep(2) by simp
      next
        case (entry e)
        then show ?thesis using place_right [OF o2 pl entry(1)] by simp
      qed
    next
      case (2 e)
      then show ?thesis using above [of e] by simp
    qed
  qed
  then show ?thesis by (simp add: ordered_def insert_entry_def)
qed

lemma ordered_split:
  assumes o: "ordered (cl @ Blk p es # cr)" and i: "i < length es" "0 < i"
  shows "ordered (cl @ Blk p (take i es) # Sep (fst (es ! i)) # Blk q (drop i es) # cr)"
proof -
  let ?f = "\<lambda>e :: i64 \<times> bytes. 2 * sint (fst e) + 1"
  define L where "L = take i es"
  define R where "R = drop (Suc i) es"
  have es: "es = L @ es ! i # R" unfolding L_def R_def by (rule id_take_nth_drop [OF i(1)])
  have d: "drop i es = es ! i # R" unfolding R_def by (rule Cons_nth_drop_Suc [OF i(1), symmetric])
  define m where "m = sint (fst (es ! i))"
  define Z where "Z = map ?f R @ ranks cr"
  have "map ?f es = map ?f L @ (2 * m + 1) # map ?f R" unfolding m_def by (subst es) simp
  moreover have "sorted_wrt (<) (ranks cl @ map ?f es @ ranks cr)" using o by (simp add: ordered_def)
  ultimately have srt: "sorted_wrt (<) (ranks cl @ map ?f L @ (2 * m + 1) # Z)" by (simp add: Z_def)
  have L: "L \<noteq> []" using i by (auto simp: L_def)
  then have hd: "?f (hd L) \<in> set (map ?f L)" by simp
  have odd: "e \<in> set L \<Longrightarrow> ?f e < 2 * m" for e
  proof -
    assume "e \<in> set L"
    then have "?f e < 2 * m + 1" using srt by (auto simp: sorted_wrt_append)
    then show "?f e < 2 * m" by presburger
  qed
  have lt: "a < 2 * m" if "a \<in> set (ranks cl @ map ?f L)" for a
  proof (cases "a \<in> set (ranks cl)")
    case True
    moreover have "\<forall>x\<in>set (ranks cl). \<forall>y\<in>set (map ?f L). x < y" using srt by (auto simp: sorted_wrt_append)
    ultimately have "a < ?f (hd L)" using hd by blast
    also have "\<dots> < 2 * m" by (rule odd) (simp add: L)
    finally show ?thesis .
  next
    case False
    then show ?thesis using that odd by auto
  qed
  have gt: "2 * m < b" if "b \<in> set ((2 * m + 1) # Z)" for b
  proof -
    have "\<forall>z\<in>set Z. 2 * m + 1 < z" using srt by (simp add: sorted_wrt_append)
    then have "2 * m + 1 \<le> b" using that by (auto intro: less_imp_le)
    then show ?thesis by simp
  qed
  have "sorted_wrt (<) ((ranks cl @ map ?f L) @ (2 * m + 1) # Z)" using srt by simp
  from sorted_insert_mid [OF this lt gt] show ?thesis by (simp add: ordered_def d L_def m_def Z_def)
qed

section \<open>When one split is enough\<close>

text \<open>
  \<open>insert_into_leaf\<close> calls itself behind a split and drops the root that inner call may return. The
  tree is right whenever the half that receives the key has room for it, which \<open>one_split\<close> says.
\<close>

definition fits_leaf :: "bytes \<Rightarrow> (i64 \<times> bytes) list \<Rightarrow> bool" where
  "fits_leaf d es \<longleftrightarrow> HEADER_SIZE + entries_len es + (12 + length d) \<le> page_size"

definition one_split :: "i64 \<Rightarrow> bytes \<Rightarrow> (i64 \<times> bytes) list \<Rightarrow> bool" where
  "one_split key d es \<longleftrightarrow> fits_leaf d es
     \<or> 2 \<le> length es \<and> fits_leaf d (if sint key < sint (fst (es ! (length es div 2)))
         then take (length es div 2) es else drop (length es div 2) es)"

lemma place_split:
  assumes "place key cl cr"
  shows "sint key < sint k \<Longrightarrow> place key cl (Sep k # Blk q r # cr)"
    and "\<not> sint key < sint k \<Longrightarrow> place key (cl @ [Blk p l, Sep k]) cr"
  using assms by (auto simp: place_def)

context page_reads
begin

text \<open>The state holds the tree, under the root page.\<close>

definition holds :: "'s \<Rightarrow> tree \<Rightarrow> bool" where
  "holds s t \<longleftrightarrow> inv s \<and> tree_at (view s) 0 t \<and> ids_ok (ids t) \<and> view s 0 \<noteq> None \<and> ordered (blocks t)"

end

context page_io
begin

text \<open>The pages a change of the tree may touch: its own and pages that did not exist.\<close>

definition changed :: "nat \<Rightarrow> 's \<Rightarrow> tree \<Rightarrow> 's \<Rightarrow> tree \<Rightarrow> bool" where
  "changed n s t s' t' \<longleftrightarrow> steps (set (ids t')) n s s' \<and> set (ids t) \<subseteq> set (ids t')
     \<and> (\<forall>i\<in>set (ids t'). i \<in> set (ids t) \<or> view s i = None) \<and> (balanced t \<longrightarrow> balanced t')"

lemma leaf_fits_ok:
  assumes inv: "inv s" and t: "tree_at (view s) 0 t" and ok: "ids_ok (ids t)"
    and b: "blocks t = cl @ Blk p es # cr" and fits: "HEADER_SIZE + entries_len es + (12 + length d) \<le> page_size"
  obtains s' t' where "insert_into_leaf P (Suc fuel) p key d s = (Inr None, s')" and "tree_at (view s') 0 t'"
    and "blocks t' = cl @ Blk p (insert_entry key d es) # cr" and "ids_ok (ids t')" and "set (ids t') = set (ids t)"
    and "root_id t' = root_id t" and "height t' \<le> height t" and "steps {p} 0 s s'" and "balanced t \<longrightarrow> balanced t'"
proof -
  obtain fs where fs: "t = plug_ctx fs (TLeaf p es)" "ctx_left fs = cl" "ctx_right fs = cr"
    by (rule leaf_context [OF b])
  let ?t = "plug_ctx fs (TLeaf p (insert_entry key d es))"
  from t obtain page where page: "view s p = Some page" "leaf_page page (par_of fs) es" and cx: "ctx_at (view s) p fs"
    by (auto simp: fs(1) tree_at_plug_ctx)
  obtain page' where page': "leaf_insert key d page = Inr (Some page')" "leaf_page page' (par_of fs) (insert_entry key d es)"
    by (rule leaf_insert_fits [OF page(2) fits])
  obtain s1 where rd: "po_read P p s = (Inr page, s1)" and s1: "keeps s s1"
    using read_ok [OF inv page(1)] by (auto simp: keeps_def)
  have alive: "view s1 p \<noteq> None" "length page' = page_size" using page(1) page'(2) s1 by (simp_all add: keeps_def leaf_page_def)
  obtain s2 where w: "po_write P p page' s1 = (Inr (), s2)" "steps {p} 0 s1 s2" "view s2 = (view s1)(p \<mapsto> page')"
    by (rule write_steps [OF keeps_fields(1) [OF s1] alive])
  have st: "steps {p} 0 s s2" using steps_trans [OF keeps_steps [OF s1, of "{}" 0] w(2)] by simp
  have ids: "ids_ok (ids ?t)" "set (ids ?t) = set (ids t)"
    using ok unfolding fs(1) ids_ok_def ids_plug_ctx by simp_all
  have "p \<notin> set (ctx_ids fs)" using ok unfolding fs(1) ids_ok_def ids_plug_ctx by simp
  then have "ctx_at (view s2) p fs" using cx steps_ctx_at [OF st, of fs p] by simp
  with page'(2) have "tree_at (view s2) 0 ?t" by (simp add: tree_at_plug_ctx w(3))
  moreover have "insert_into_leaf P (Suc fuel) p key d s = (Inr None, s2)"
    using rd page'(1) w(1) by (simp add: mbind_def)
  moreover have "root_id ?t = root_id t" unfolding fs(1) by (rule root_id_plug_ctx) simp
  moreover have "height ?t \<le> height t" unfolding fs(1) by (rule height_plug_ctx_mono) simp
  moreover have "balanced t \<longrightarrow> balanced ?t" using balanced_leaf(2) by (simp add: fs(1))
  ultimately show thesis using ids st fs(2,3) by (intro that [of s2 ?t]) (simp_all add: blocks_plug_ctx)
qed

lemma leaf_split_ok:
  assumes inv: "inv s" and t: "tree_at (view s) 0 t" and ok: "ids_ok (ids t)" and z: "view s 0 \<noteq> None"
    and ord: "ordered (blocks t)" and fs: "t = plug_ctx fs (TLeaf p es)" and es: "2 \<le> length es" and room: "0 < room s"
  obtains sib s' where "split_leaf_node P p s = (Inr (sib, fst (es ! (length es div 2))), s')"
    and "split_state s' fs (TLeaf p (take (length es div 2) es)) (fst (es ! (length es div 2)))
      (TLeaf sib (drop (length es div 2) es))"
    and "steps {p, sib} 1 s s'" and "view s sib = None"
proof -
  let ?i = "length es div 2" and ?l = "take (length es div 2) es" and ?r = "drop (length es div 2) es"
  have i: "?i < length es" "?i \<noteq> 0" using es by auto
  from t obtain page where page: "view s p = Some page" "leaf_page page (par_of fs) es" and cx: "ctx_at (view s) p fs"
    by (auto simp: fs(1) tree_at_plug_ctx)
  note b = leaf_page_bounds [OF page(2)]
  have "entries_len es = entries_len ?l + entries_len ?r" by (metis append_take_drop_id entries_simps(6))
  with b(1) have size: "HEADER_SIZE + entries_len ?l \<le> page_size" "HEADER_SIZE + entries_len ?r \<le> page_size" by linarith+
  obtain s1 where rd: "read_node P p s = (Inr (\<lparr>node_type = Leaf, num_keys = length es, parent = par_of fs\<rparr>, page), s1)"
    and s1: "keeps s s1"
    by (rule read_node_ok [OF inv page(1) leaf_page_header [OF page(2)]])
  have i1: "inv s1" and r1: "0 < room s1" and v1: "view s1 = view s" using room s1 by (simp_all add: keeps_def)
  obtain sib s2 where al: "po_alloc P s1 = (Inr sib, s2)" "steps {sib} 1 s1 s2" "view s1 sib = None" "sib < 2 ^ 32"
    "view s2 = (view s1)(sib \<mapsto> blank_page)"
    by (rule alloc_steps [OF i1 r1])
  have par: "par_of fs < 2 ^ 32" using page(2) by (simp add: leaf_page_def)
  obtain lpage where lpage: "rbind (fill_leaf HEADER_SIZE ?l blank_page)
      (serialize_header \<lparr>node_type = Leaf, num_keys = length ?l, parent = par_of fs\<rparr>) = Inr lpage" "leaf_page lpage (par_of fs) ?l"
    unfolding blank_page_def by (rule fresh_leaf [OF size(1) par refl])
  obtain rpage where rpage: "rbind (fill_leaf HEADER_SIZE ?r blank_page)
      (serialize_header \<lparr>node_type = Leaf, num_keys = length ?r, parent = 0\<rparr>) = Inr rpage" "leaf_page rpage 0 ?r"
    unfolding blank_page_def by (rule fresh_leaf [OF size(2) zero_less_power [OF zero_less_numeral] refl])
  have len: "length lpage = page_size" "length rpage = page_size" using lpage(2) rpage(2) by (simp_all add: leaf_page_def)
  have "view s2 p \<noteq> None" using page(1) al(5) v1 by simp
  then obtain s3 where s3: "po_write P p lpage s2 = (Inr (), s3)" "steps {p} 0 s2 s3" "view s3 = (view s2)(p \<mapsto> lpage)"
    by (rule write_steps [OF steps_inv [OF al(2)] _ len(1)])
  have "view s3 sib \<noteq> None" using al(5) s3(3) by simp
  then obtain s4 where s4: "po_write P sib rpage s3 = (Inr (), s4)" "steps {sib} 0 s3 s4" "view s4 = (view s3)(sib \<mapsto> rpage)"
    by (rule write_steps [OF steps_inv [OF s3(2)] _ len(2)])
  have st: "steps {p, sib} 1 s s4"
    using steps_trans [OF steps_trans [OF steps_trans [OF keeps_steps [OF s1, of "{}" 0] al(2)] s3(2)] s4(2)]
    by (rule steps_mono) auto
  have sib: "view s sib = None" using al(3) v1 by simp
  have fresh: "sib \<noteq> p" "sib \<notin> set (ctx_ids fs)" "0 < sib"
    using page(1) sib ctx_at_alive [OF cx, of sib] z by (auto intro: gr0I)
  have okc: "ids_ok (ctx_ids fs @ [p])" using ok unfolding fs ids_ok_def ids_plug_ctx by simp
  have "ctx_at (view s4) p fs" using cx steps_ctx_at [OF st, of fs p] okc fresh(2) by (simp add: ids_ok_def)
  moreover have "ids_ok (ctx_ids fs @ [p] @ [sib])" using okc fresh al(4) by (auto simp: ids_ok_def)
  moreover have "ordered (ctx_left fs @ Blk p ?l # Sep (fst (es ! ?i)) # Blk sib ?r # ctx_right fs)"
    by (rule ordered_split [OF _ i(1)]) (use ord i(2) in \<open>simp_all add: fs blocks_plug_ctx\<close>)
  ultimately have "split_state s4 fs (TLeaf p ?l) (fst (es ! ?i)) (TLeaf sib ?r)"
    using steps_inv [OF st] steps_alive [OF st z] lpage(2) rpage(2) fresh(1) s4(3) s3(3)
    by (auto simp: split_state_def)
  moreover have "split_leaf_node P p s = (Inr (sib, fst (es ! ?i)), s4)"
    unfolding split_leaf_node_def using rd leaf_page_read(1) [OF page(2)] i al(1) lpage(1) rpage(1) s3(1) s4(1)
    by (simp add: mbind_def Let_def new_leaf_def header_new_def)
  ultimately show thesis using st sib by (intro that [of sib s4])
qed

text \<open>The leaf has room: one page is rewritten.\<close>

lemma insert_fits:
  assumes st: "holds s t" and b: "blocks t = cl @ Blk p es # cr" and pl: "place key cl cr"
    and new: "key \<notin> fst ` set es" and fits: "fits_leaf d es"
  obtains s' t' where "insert_into_leaf P (Suc fuel) p key d s = (Inr None, s')" and "holds s' t'"
    and "entries t' = insert_entry key d (entries t)" and "root_id t' = root_id t" and "height t' \<le> height t"
    and "changed 0 s t s' t'"
proof -
  from st have inv: "inv s" and t: "tree_at (view s) 0 t" and ok: "ids_ok (ids t)" and z: "view s 0 \<noteq> None"
    and o: "ordered (cl @ Blk p es # cr)"
    by (simp_all add: holds_def b)
  obtain s' t' where r: "insert_into_leaf P (Suc fuel) p key d s = (Inr None, s')" "tree_at (view s') 0 t'"
    "blocks t' = cl @ Blk p (insert_entry key d es) # cr" "ids_ok (ids t')" "set (ids t') = set (ids t)"
    "root_id t' = root_id t" "height t' \<le> height t" and stp: "steps {p} 0 s s'" and bal: "balanced t \<longrightarrow> balanced t'"
    by (rule leaf_fits_ok [OF inv t ok b fits [unfolded fits_leaf_def]])
  obtain fs where "t = plug_ctx fs (TLeaf p es)" by (rule leaf_context [OF b])
  then have "p \<in> set (ids t)" by (simp add: ids_plug_ctx)
  then have "changed 0 s t s' t'" using r(5) bal steps_mono [OF stp, of "set (ids t')" 0] by (simp add: changed_def)
  moreover have "holds s' t'"
    using r(2,4) steps_inv [OF stp] steps_alive [OF stp z] ordered_new_key [OF o pl new, of d] by (simp add: holds_def r(3))
  moreover have "entries t' = insert_entry key d (entries t)"
    using insert_entry_blocks [OF o pl, of d] by (simp add: entries_def r(3) b)
  ultimately show thesis using r(1,6,7) by (intro that [of s' t'])
qed

text \<open>The leaf is full: it is split and the new separator climbs, which leaves the entries as they were.\<close>

lemma insert_split:
  assumes st: "holds s t" and b: "blocks t = cl @ Blk p es # cr" and full: "\<not> fits_leaf d es" and es: "2 \<le> length es"
    and room: "height t < room s" and fuel: "3 * height t \<le> Suc fuel"
  obtains sib res s' t' where
    "insert_into_leaf P (Suc fuel) p key d s =
       mbind (insert_into_leaf P fuel (if sint key < sint (fst (es ! (length es div 2))) then p else sib) key d)
         (\<lambda>_. mret res) s'"
    and "holds s' t'"
    and "blocks t' = cl @ Blk p (take (length es div 2) es) # Sep (fst (es ! (length es div 2))) # Blk sib (drop (length es div 2) es) # cr"
    and "root_id t' = (case res of None \<Rightarrow> root_id t | Some r \<Rightarrow> r)" and "height t' \<le> Suc (height t)"
    and "changed (Suc (height t)) s t s' t'"
proof -
  let ?k = "fst (es ! (length es div 2))" and ?l = "take (length es div 2) es" and ?r = "drop (length es div 2) es"
  from st have inv: "inv s" and t: "tree_at (view s) 0 t" and ok: "ids_ok (ids t)" and z: "view s 0 \<noteq> None"
    and o: "ordered (blocks t)"
    by (simp_all add: holds_def)
  obtain fs where fs: "t = plug_ctx fs (TLeaf p es)" "ctx_left fs = cl" "ctx_right fs = cr" "length fs < height t"
    by (rule leaf_context [OF b])
  from t obtain page where page: "view s p = Some page" "leaf_page page (par_of fs) es"
    by (auto simp: fs(1) tree_at_plug_ctx)
  obtain s1 where rd: "po_read P p s = (Inr page, s1)" and s1: "keeps s s1"
    using read_ok [OF inv page(1)] by (auto simp: keeps_def)
  have no: "leaf_insert key d page = Inr None"
    by (rule leaf_insert_full [OF page(2)]) (use full in \<open>simp add: fits_leaf_def\<close>)
  have k: "inv s1" "tree_at (view s1) 0 t" "view s1 0 \<noteq> None" "0 < room s1" using t z room s1 by (simp_all add: keeps_def)
  obtain sib s2 where sp: "split_leaf_node P p s1 = (Inr (sib, ?k), s2)" and ss: "split_state s2 fs (TLeaf p ?l) ?k (TLeaf sib ?r)"
    and s2: "steps {p, sib} 1 s1 s2" and sib: "view s1 sib = None"
    by (rule leaf_split_ok [OF k(1,2) ok k(3) o fs(1) es k(4)])
  have "length fs < room s2" using s1 s2 room fs(4) by (simp add: steps_def keeps_def)
  moreover have "3 * length fs < fuel" using fuel fs(4) by simp
  ultimately obtain res s3 t' where cl: "insert_into_parent P fuel p sib ?k s2 = (Inr res, s3)"
    "climbed s2 fs (TLeaf p ?l) ?k (TLeaf sib ?r) res s3 t'"
    using insert_into_parent_ok [OF ss, of fuel] by auto
  note c = climbedD [OF cl(2)]
  have stp: "steps {p, sib} 1 s s2" using steps_trans [OF keeps_steps [OF s1, of "{}" 0] s2] by simp
  have blk: "blocks t' = cl @ Blk p ?l # Sep ?k # Blk sib ?r # cr" using c(4) fs(2,3) by simp
  have all: "steps (set (ids t')) (Suc (height t)) s s3"
    using steps_trans [OF stp c(3)] by (rule steps_mono) (use c(6) fs(4) in auto)
  have "holds s3 t'"
    using c(1,2) steps_inv [OF c(3)] steps_alive [OF all z] ss unfolding holds_def blk by (simp add: split_state_def fs(2,3))
  moreover have "changed (Suc (height t)) s t s3 t'"
  proof -
    have "i \<in> set (ids t) \<or> view s i = None" if "i \<in> set (ids t')" for i
      using c(5) [OF that] sib s1 steps_alive [OF stp, of i] by (auto simp: fs(1) ids_plug_ctx keeps_def)
    moreover have "set (ids t) \<subseteq> set (ids t')" using c(6) by (auto simp: fs(1) ids_plug_ctx)
    moreover have "balanced t \<longrightarrow> balanced t'" using balanced_leaf(1) c(9) [of 0] by (auto simp: fs(1))
    ultimately show ?thesis using all by (simp add: changed_def)
  qed
  moreover have "root_id t' = (case res of None \<Rightarrow> root_id t | Some r \<Rightarrow> r)"
    using c(7) root_id_plug_ctx [of "TLeaf p ?l" "TLeaf p es" fs] by (simp add: fs(1) split: option.splits)
  moreover have "height t' \<le> Suc (height t)" using c(8) [of "TLeaf p es"] by (simp add: fs(1))
  moreover have "insert_into_leaf P (Suc fuel) p key d s =
      mbind (insert_into_leaf P fuel (if sint key < sint ?k then p else sib) key d) (\<lambda>_. mret res) s3"
    using rd no sp cl(1) by (simp add: mbind_def)
  ultimately show thesis using blk by (intro that [of sib res s3 t'])
qed

lemma changed_trans:
  assumes "changed n s t s' t'" and "changed m s' t' s'' t''"
  shows "changed (n + m) s t s'' t''"
proof -
  from assms have a: "steps (set (ids t')) n s s'" "steps (set (ids t'')) m s' s''" "set (ids t) \<subseteq> set (ids t')"
    "set (ids t') \<subseteq> set (ids t'')" by (simp_all add: changed_def)
  have "steps (set (ids t'')) (n + m) s s''" using steps_trans [OF a(1,2)] by (rule steps_mono) (use a(4) in auto)
  moreover have "i \<in> set (ids t) \<or> view s i = None" if "i \<in> set (ids t'')" for i
  proof (cases "i \<in> set (ids t')")
    case True
    then show ?thesis using assms(1) by (simp add: changed_def)
  next
    case False
    then have "view s' i = None" using that assms(2) by (auto simp: changed_def)
    then show ?thesis using steps_alive [OF a(1), of i] by auto
  qed
  moreover have "balanced t \<longrightarrow> balanced t''" using assms by (simp add: changed_def)
  ultimately show ?thesis using a(3,4) by (auto simp: changed_def)
qed

lemma insert_into_leaf_ok:
  assumes st: "holds s t" and b: "blocks t = cl @ Blk p es # cr" and pl: "place key cl cr"
    and new: "key \<notin> fst ` set es" and one: "one_split key d es"
    and room: "height t < room s" and fuel: "3 * height t \<le> fuel"
  obtains res s' t' where "insert_into_leaf P fuel p key d s = (Inr res, s')" and "holds s' t'"
    and "entries t' = insert_entry key d (entries t)" and "root_id t' = (case res of None \<Rightarrow> root_id t | Some r \<Rightarrow> r)"
    and "height t' \<le> Suc (height t)" and "changed (Suc (height t)) s t s' t'"
    and "fits_leaf d es \<longrightarrow> height t' \<le> height t"
proof -
  have h: "0 < height t" by (cases t) simp_all
  then obtain f where f: "fuel = Suc (Suc f)" using fuel by (cases fuel rule: nat.exhaust; cases "fuel - 1") auto
  show thesis
  proof (cases "fits_leaf d es")
    case True
    obtain s' t' where r: "insert_into_leaf P fuel p key d s = (Inr None, s')" "holds s' t'"
      "entries t' = insert_entry key d (entries t)" "root_id t' = root_id t" "height t' \<le> height t" "changed 0 s t s' t'"
      unfolding f by (rule insert_fits [OF st b pl new True])
    have "changed (Suc (height t)) s t s' t'" using r(6) by (auto simp: changed_def intro: steps_mono)
    with r show thesis by (intro that [of None s' t']) simp_all
  next
    case False
    with one have es: "2 \<le> length es" and half: "fits_leaf d (if sint key < sint (fst (es ! (length es div 2)))
         then take (length es div 2) es else drop (length es div 2) es)"
      by (simp_all add: one_split_def)
    let ?k = "fst (es ! (length es div 2))" and ?l = "take (length es div 2) es" and ?r = "drop (length es div 2) es"
    obtain sib res s1 t1 where prog: "insert_into_leaf P fuel p key d s =
        mbind (insert_into_leaf P (Suc f) (if sint key < sint ?k then p else sib) key d) (\<lambda>_. mret res) s1"
      and st1: "holds s1 t1" and b1: "blocks t1 = cl @ Blk p ?l # Sep ?k # Blk sib ?r # cr"
      and t1: "root_id t1 = (case res of None \<Rightarrow> root_id t | Some r \<Rightarrow> r)" "height t1 \<le> Suc (height t)"
        "changed (Suc (height t)) s t s1 t1"
      unfolding f by (rule insert_split [OF st b False es room]) (use fuel f in simp)
    have e1: "entries t1 = entries t" unfolding entries_def b b1 by (simp flip: append_assoc)
    have nl: "key \<notin> fst ` set ?l" "key \<notin> fst ` set ?r" using new by (auto dest: in_set_takeD in_set_dropD)
    have "\<exists>s' t'. insert_into_leaf P (Suc f) (if sint key < sint ?k then p else sib) key d s1 = (Inr None, s') \<and> holds s' t'
      \<and> entries t' = insert_entry key d (entries t1) \<and> root_id t' = root_id t1 \<and> height t' \<le> height t1 \<and> changed 0 s1 t1 s' t'"
    proof (cases "sint key < sint ?k")
      case True
      from half True have "fits_leaf d ?l" by simp
      from insert_fits [OF st1 b1 place_split(1) [OF pl True] nl(1) this, of f] show ?thesis unfolding if_P [OF True] by blast
    next
      case False
      have "blocks t1 = (cl @ [Blk p ?l, Sep ?k]) @ Blk sib ?r # cr" using b1 by simp
      from insert_fits [OF st1 this place_split(2) [OF pl False] nl(2) half [unfolded if_not_P [OF False]], of f]
      show ?thesis unfolding if_not_P [OF False] by blast
    qed
    then obtain s' t' where r: "insert_into_leaf P (Suc f) (if sint key < sint ?k then p else sib) key d s1 = (Inr None, s')"
      "holds s' t'" "entries t' = insert_entry key d (entries t)" "root_id t' = root_id t1" "height t' \<le> height t1"
      "changed 0 s1 t1 s' t'"
      using e1 by metis
    have "changed (Suc (height t)) s t s' t'" using changed_trans [OF t1(3) r(6)] by simp
    moreover have "insert_into_leaf P fuel p key d s = (Inr res, s')" using prog r(1) by (simp add: mbind_def)
    ultimately show thesis using r t1 False by (intro that [of res s' t']) simp_all
  qed
qed

end

end
