(* ===== verification/BTreeOps.thy ===== *)
theory BTreeOps
  imports BTreeLeaf
begin

text \<open>
  The public operations of the tree as operations on an ordered map: search, scan, insertion, and
  the part of a deletion that takes the entry out of its leaf.
\<close>

section \<open>The map of a tree\<close>

lemma ordered_distinct: "ordered bs \<Longrightarrow> distinct (map fst (entries_of bs))"
proof -
  have "map (\<lambda>e. 2 * sint (fst e) + 1) (entries_of bs) = filter odd (ranks bs)"
  proof (induction bs)
    case (Cons b bs)
    then show ?case by (cases b) (simp_all add: filter_map comp_def)
  qed simp
  moreover assume "ordered bs"
  then have "distinct (ranks bs)" unfolding ordered_def by (simp add: strict_sorted_iff)
  ultimately have "distinct (map (\<lambda>e. 2 * sint (fst e) + 1) (entries_of bs))" by simp
  then show ?thesis by (auto simp: distinct_map inj_on_def)
qed

lemma map_of_insert_entry:
  assumes "key \<notin> fst ` set es"
  shows "map_of (insert_entry key d es) = (map_of es)(key \<mapsto> d)"
proof -
  let ?A = "takeWhile (not_above key) es" and ?B = "dropWhile (not_above key) es"
  have "es = ?A @ ?B" by simp
  then have "map_of es = map_of ?B ++ map_of ?A" by (metis map_of_append)
  moreover have "key \<notin> dom (map_of ?A)" using assms by (auto simp: dom_map_of_conv_image_fst dest: set_takeWhileD)
  ultimately show ?thesis by (simp add: insert_entry_def map_add_upd_left)
qed

lemma height_one:
  assumes "height t = 1"
  obtains p es where "t = TLeaf p es"
proof (cases t)
  case (TNode p u kts)
  have "0 < height u" by (cases u) simp_all
  with height_first [of u p kts] assms TNode show thesis by simp
qed

definition delete_entry :: "i64 \<Rightarrow> (i64 \<times> bytes) list \<Rightarrow> (i64 \<times> bytes) list" where
  "delete_entry key es = filter (\<lambda>e. fst e \<noteq> key) es"

lemma map_of_delete_entry: "map_of (delete_entry key es) = (map_of es)(key := None)"
  unfolding delete_entry_def by (induction es) (auto simp: fun_eq_iff)

lemma delete_entry_absent: "key \<notin> fst ` set es \<Longrightarrow> delete_entry key es = es"
  by (auto simp: delete_entry_def filter_id_conv)

lemma delete_entry_split:
  "key \<notin> fst ` set xs \<Longrightarrow> key \<notin> fst ` set ys \<Longrightarrow> delete_entry key (xs @ (key, d) # ys) = xs @ ys"
  using delete_entry_absent [of key xs] delete_entry_absent [of key ys] by (simp add: delete_entry_def)

lemma ordered_drop_entry:
  assumes "ordered (cl @ Blk p (xs @ e # ys) # cr)"
  shows "ordered (cl @ Blk p (xs @ ys) # cr)"
  using assms by (simp add: ordered_def sorted_wrt_append)

lemma delete_entry_blocks:
  assumes o: "ordered (cl @ Blk p es # cr)" and pl: "place key cl cr"
  shows "delete_entry key (entries_of (cl @ Blk p es # cr)) = entries_of (cl @ Blk p (delete_entry key es) # cr)"
proof -
  have "ordered ((cl @ [Blk p es]) @ cr)" using o by simp
  then have "key \<notin> fst ` set (entries_of cl)" "key \<notin> fst ` set (entries_of cr)"
    using place_left [OF o pl] place_right [OF _ pl] by fastforce+
  then show ?thesis using delete_entry_absent [of key "entries_of cl"] delete_entry_absent [of key "entries_of cr"]
    by (simp add: delete_entry_def)
qed

text \<open>The leaf a key belongs to, by the blocks around it.\<close>

definition leaf_of :: "tree \<Rightarrow> i64 \<Rightarrow> (i64 \<times> bytes) list \<Rightarrow> bool" where
  "leaf_of t key es \<longleftrightarrow> (\<exists>cl p cr. blocks t = cl @ Blk p es # cr \<and> place key cl cr)"

section \<open>Lookups and scans\<close>

context page_reads
begin

lemma btree_search_ok:
  assumes "holds (bt_pager bt) t" and "root_page bt = root_id t" and "height t \<le> fuel"
  shows "\<exists>s'. btree_search P fuel key bt =
      ((case map_of (entries t) key of None \<Rightarrow> Inr None | Some d \<Rightarrow> rbind (deserialize_row d) (\<lambda>row. Inr (Some row))),
       bt\<lparr>bt_pager := s'\<rparr>) \<and> keeps (bt_pager bt) s'"
proof -
  from assms(1) have "inv (bt_pager bt)" "tree_at (view (bt_pager bt)) 0 t" "ordered (blocks t)"
    by (simp_all add: holds_def)
  from search_ok [OF this(1,2) assms(3) this(3), of key] assms(2) show ?thesis
    by (auto simp: btree_search_def on_pager_def)
qed

lemma btree_scan_ok:
  assumes "holds (bt_pager bt) t" and "root_page bt = root_id t" and "height t \<le> fuel"
    and "list_all2 decodes_to (entries t) rs"
  shows "\<exists>s'. btree_scan P fuel bt = (Inr rs, bt\<lparr>bt_pager := s'\<rparr>) \<and> keeps (bt_pager bt) s'"
proof -
  from assms(1) have "inv (bt_pager bt)" "tree_at (view (bt_pager bt)) 0 t" by (simp_all add: holds_def)
  from scan_node_ok [OF this assms(3,4)] assms(2) show ?thesis by (auto simp: btree_scan_def on_pager_def)
qed

lemma keeps_holds: "keeps s s' \<Longrightarrow> holds s t \<Longrightarrow> holds s' t"
  by (simp add: keeps_def holds_def)

end

section \<open>Insertion\<close>

context page_io
begin

lemma btree_insert_ok:
  assumes h: "holds (bt_pager bt) t" and r: "root_page bt = root_id t" and new: "map_of (entries t) key = None"
    and one: "\<And>es. leaf_of t key es \<Longrightarrow> one_split key (serialize_row row) es"
    and room: "height t < room (bt_pager bt)" and fuel: "3 * height t \<le> fuel"
  shows "\<exists>bt' t'. btree_insert P fuel key row bt = (Inr (), bt') \<and> holds (bt_pager bt') t' \<and> root_page bt' = root_id t'
    \<and> entries t' = insert_entry key (serialize_row row) (entries t) \<and> height t' \<le> Suc (height t)
    \<and> changed (Suc (height t)) (bt_pager bt) t (bt_pager bt') t'
    \<and> ((\<forall>es. leaf_of t key es \<longrightarrow> fits_leaf (serialize_row row) es) \<longrightarrow> height t' \<le> height t)"
proof -
  let ?s = "bt_pager bt" and ?d = "serialize_row row"
  from h have a: "inv ?s" "tree_at (view ?s) 0 t" "ordered (blocks t)" by (simp_all add: holds_def)
  have hf: "height t \<le> fuel" using fuel by simp
  obtain p es cl cr s1 where fl: "find_leaf P fuel (root_id t) key ?s = (Inr p, s1)" and s1: "keeps ?s s1"
    and b: "blocks t = cl @ Blk p es # cr" and pl: "place key cl cr"
    using find_leaf_ok [OF a(1,2) hf a(3)] by blast
  have "map_of (entries t) key = map_of es key" using place_lookup [of cl p es cr key] a(3) b pl by (simp add: entries_def)
  then have "map_of es key = None" using new by simp
  then have nk: "key \<notin> fst ` set es" by (simp add: map_of_eq_None_iff)
  have os: "one_split key ?d es" using one b pl by (auto simp: leaf_of_def)
  have rm: "height t < room s1" using room s1 by (simp add: keeps_def)
  obtain res s' t' where i: "insert_into_leaf P fuel p key ?d s1 = (Inr res, s')" "holds s' t'"
    "entries t' = insert_entry key ?d (entries t)" "root_id t' = (case res of None \<Rightarrow> root_id t | Some r \<Rightarrow> r)"
    "height t' \<le> Suc (height t)" "changed (Suc (height t)) s1 t s' t'" "fits_leaf ?d es \<longrightarrow> height t' \<le> height t"
    by (rule insert_into_leaf_ok [OF keeps_holds [OF s1 h] b pl nk os rm fuel])
  have "changed 0 ?s t s1 t" using s1 by (simp add: changed_def keeps_steps)
  from changed_trans [OF this i(6)] have "changed (Suc (height t)) ?s t s' t'" by simp
  moreover have "btree_insert P fuel key row bt = (Inr (), set_root res (bt\<lparr>bt_pager := s'\<rparr>))"
    using fl i(1) r by (simp add: btree_insert_def mbind_def on_pager_def)
  moreover have "bt_pager (set_root res (bt\<lparr>bt_pager := s'\<rparr>)) = s'" "root_page (set_root res (bt\<lparr>bt_pager := s'\<rparr>)) = root_id t'"
    using i(4) r by (simp_all add: set_root_def split: option.splits)
  moreover have "(\<forall>es. leaf_of t key es \<longrightarrow> fits_leaf ?d es) \<longrightarrow> height t' \<le> height t"
    using i(7) b pl by (auto simp: leaf_of_def)
  ultimately show ?thesis using i(2,3,5) by (intro exI [of _ "set_root res (bt\<lparr>bt_pager := s'\<rparr>)"] exI [of _ t']) simp
qed

section \<open>Deletion\<close>

lemma btree_delete_absent:
  assumes h: "holds (bt_pager bt) t" and r: "root_page bt = root_id t" and new: "map_of (entries t) key = None"
    and fuel: "height t \<le> fuel"
  shows "\<exists>s'. btree_delete P fuel key bt = (Inr False, bt\<lparr>bt_pager := s'\<rparr>) \<and> keeps (bt_pager bt) s'"
proof -
  let ?s = "bt_pager bt"
  from h have a: "inv ?s" "tree_at (view ?s) 0 t" "ordered (blocks t)" by (simp_all add: holds_def)
  obtain p es page q cl cr s1 where fl: "find_leaf P fuel (root_id t) key ?s = (Inr p, s1)" and s1: "keeps ?s s1"
    and page: "view ?s p = Some page" "leaf_page page q es" and b: "blocks t = cl @ Blk p es # cr" and pl: "place key cl cr"
    using find_leaf_ok [OF a(1,2) fuel a(3)] by blast
  have "map_of (entries t) key = map_of es key" using place_lookup [of cl p es cr key] a(3) b pl by (simp add: entries_def)
  then have "map_of es key = None" using new by simp
  then have "key \<notin> fst ` set es" by (simp add: map_of_eq_None_iff)
  then have no: "leaf_delete key page = Inr None" by (rule leaf_delete_absent [OF page(2)])
  have k1: "inv s1" "view s1 p = Some page" using s1 page(1) by (simp_all add: keeps_def)
  obtain s2 where rd: "po_read P p s1 = (Inr page, s2)" and s2: "keeps s1 s2"
    using read_ok [OF k1] by (auto simp: keeps_def)
  have "keeps ?s s2" using s1 s2 by (simp add: keeps_def)
  moreover have "btree_delete P fuel key bt = (Inr False, bt\<lparr>bt_pager := s2\<rparr>)"
    using fl rd no r by (simp add: btree_delete_def mbind_def on_pager_def)
  ultimately show ?thesis by blast
qed

text \<open>The leaf of the key loses its entry; what is left to do is the underflow of that leaf.\<close>

lemma leaf_removed:
  assumes h: "holds (bt_pager bt) t" and r: "root_page bt = root_id t" and key: "map_of (entries t) key = Some d"
    and fuel: "height t \<le> fuel"
  obtains fs p es es' s where "t = plug_ctx fs (TLeaf p es)" and "leaf_of t key es" and "length es = Suc (length es')"
    and "btree_delete P fuel key bt =
      (if p \<noteq> root_id t \<and> length es' < MIN_KEYS
       then mbind (on_pager (handle_leaf_underflow P fuel p (root_id t))) (\<lambda>new_root bt. (Inr True, set_root new_root bt)) (bt\<lparr>bt_pager := s\<rparr>)
       else (Inr True, bt\<lparr>bt_pager := s\<rparr>))"
    and "holds s (plug_ctx fs (TLeaf p es'))" and "entries (plug_ctx fs (TLeaf p es')) = delete_entry key (entries t)"
    and "steps {p} 0 (bt_pager bt) s"
proof -
  let ?s = "bt_pager bt"
  from h have a: "inv ?s" "tree_at (view ?s) 0 t" "ordered (blocks t)" and ok: "ids_ok (ids t)" and z: "view ?s 0 \<noteq> None"
    by (simp_all add: holds_def)
  obtain p es page0 q0 cl cr s1 where fl: "find_leaf P fuel (root_id t) key ?s = (Inr p, s1)" and s1: "keeps ?s s1"
    and b: "blocks t = cl @ Blk p es # cr" and pl: "place key cl cr"
    using find_leaf_ok [OF a(1,2) fuel a(3)] by blast
  have o: "ordered (cl @ Blk p es # cr)" using a(3) b by simp
  obtain fs where fs: "t = plug_ctx fs (TLeaf p es)" "ctx_left fs = cl" "ctx_right fs = cr"
    by (rule leaf_context [OF b])
  have "map_of es key = Some d" using place_lookup [OF o pl] key b by (simp add: entries_def)
  then have "(key, d) \<in> set es" by (rule map_of_SomeD)
  then obtain xs ys where es: "es = xs @ (key, d) # ys" by (auto dest: split_list)
  have "distinct (map fst es)" using ordered_distinct [OF ordered_mid(1) [of cl "[Blk p es]" cr]] o by simp
  then have nk: "key \<notin> fst ` set xs" "key \<notin> fst ` set ys" by (simp_all add: es)
  from a(2) obtain page where page: "view ?s p = Some page" "leaf_page page (par_of fs) es" and cx: "ctx_at (view ?s) p fs"
    by (auto simp: fs(1) tree_at_plug_ctx)
  obtain page' where page': "leaf_page page' (par_of fs) (xs @ ys)" and del: "leaf_delete key page =
      Inr (Some (\<lparr>node_type = Leaf, num_keys = length (xs @ ys), parent = par_of fs\<rparr>, page'))"
    by (rule leaf_delete_present [OF page(2) es nk(1)])
  have k1: "inv s1" "view s1 p = Some page" using s1 page(1) by (simp_all add: keeps_def)
  obtain s2 where rd: "po_read P p s1 = (Inr page, s2)" and s2: "keeps s1 s2"
    using read_ok [OF k1] by (auto simp: keeps_def)
  have k2: "inv s2" "view s2 p \<noteq> None" "length page' = page_size" using s2 k1 page' by (simp_all add: keeps_def leaf_page_def)
  obtain s3 where w: "po_write P p page' s2 = (Inr (), s3)" "steps {p} 0 s2 s3" "view s3 = (view s2)(p \<mapsto> page')"
    by (rule write_steps [OF k2])
  have st: "steps {p} 0 ?s s3"
    using steps_trans [OF steps_trans [OF keeps_steps [OF s1, of "{}" 0] keeps_steps [OF s2, of "{}" 0]] w(2)] by simp
  let ?t = "plug_ctx fs (TLeaf p (xs @ ys))"
  have ids: "ids_ok (ids ?t)" "p \<notin> set (ctx_ids fs)" using ok unfolding fs(1) ids_ok_def ids_plug_ctx by simp_all
  have "ctx_at (view s3) p fs" using cx steps_ctx_at [OF st, of fs p] ids(2) by simp
  with page' have t3: "tree_at (view s3) 0 ?t" by (simp add: tree_at_plug_ctx w(3))
  show thesis
  proof (rule that [OF fs(1)])
    show "leaf_of t key es" using b pl by (auto simp: leaf_of_def)
    show "length es = Suc (length (xs @ ys))" by (simp add: es)
    show "btree_delete P fuel key bt =
      (if p \<noteq> root_id t \<and> length (xs @ ys) < MIN_KEYS
       then mbind (on_pager (handle_leaf_underflow P fuel p (root_id t))) (\<lambda>new_root bt. (Inr True, set_root new_root bt)) (bt\<lparr>bt_pager := s3\<rparr>)
       else (Inr True, bt\<lparr>bt_pager := s3\<rparr>))"
      using fl rd del w(1) r by (auto simp: btree_delete_def mbind_def on_pager_def)
    show "holds s3 ?t"
      using t3 ids(1) steps_inv [OF st] steps_alive [OF st z] ordered_drop_entry [OF o [unfolded es]]
      by (simp add: holds_def blocks_plug_ctx fs(2,3))
    show "entries ?t = delete_entry key (entries t)"
      using delete_entry_blocks [OF o pl] delete_entry_split [OF nk, of d] by (simp add: entries_def b es blocks_plug_ctx fs(2,3))
  qed (rule st)
qed

section \<open>A new tree\<close>

lemma btree_new_ok:
  assumes inv: "inv s" and z: "view s 0 \<noteq> None" and room: "0 < room s"
  shows "\<exists>p s'. btree_new P s = (Inr \<lparr>root_page = p, bt_pager = s'\<rparr>, s') \<and> holds s' (TLeaf p []) \<and> view s p = None
    \<and> steps {p} 1 s s'"
proof -
  obtain p s1 where al: "po_alloc P s = (Inr p, s1)" "steps {p} 1 s s1" "view s p = None" "p < 2 ^ 32"
    "view s1 = (view s)(p \<mapsto> blank_page)"
    by (rule alloc_steps [OF inv room])
  obtain page where page: "rbind (fill_leaf HEADER_SIZE [] (replicate page_size 0)) (serialize_header (header_new Leaf)) = Inr page"
    "leaf_page page 0 []"
    by (rule fresh_leaf [of "[]" 0 "header_new Leaf"]) (simp_all add: header_new_def HEADER_SIZE_def page_size_def)
  have "view s1 p \<noteq> None" "length page = page_size" using al(5) page(2) by (simp_all add: leaf_page_def)
  then obtain s2 where w: "po_write P p page s1 = (Inr (), s2)" "steps {p} 0 s1 s2" "view s2 = (view s1)(p \<mapsto> page)"
    by (rule write_steps [OF steps_inv [OF al(2)]])
  have "0 < p" using z al(3) by (auto intro: gr0I)
  then have "holds s2 (TLeaf p [])"
    using steps_inv [OF w(2)] w(3) al(4) steps_alive [OF al(2) z] steps_alive [OF w(2), of 0] page(2)
    by (simp add: holds_def ids_ok_def ordered_def)
  moreover have "btree_new P s = (Inr \<lparr>root_page = p, bt_pager = s2\<rparr>, s2)"
    using al(1) page(1) w(1) by (simp add: btree_new_def mbind_def blank_page_def)
  moreover have "steps {p} 1 s s2" using steps_trans [OF al(2) w(2)] by simp
  ultimately show ?thesis using al(3) by blast
qed

end

end
