(* ===== verification/PageShrink.thy ===== *)
theory PageShrink
  imports InternalPage BTree
begin

text \<open>
  What the page operations of rebalancing do to well-formed pages: a leaf lends an entry, takes one in or
  takes in all entries of its neighbour; an internal node loses a child or gets a new separator.
\<close>

section \<open>Moving bytes\<close>

lemma close_gap_copy:
  obtains rest where "copy_within (length A + length E) (length A + length E + length Y) (length A) (A @ E @ Y @ pad) = Inr (A @ Y @ rest)"
    and "length rest = length E + length pad"
proof -
  let ?rest = "drop (length Y) (E @ Y @ pad)"
  have "drop (length A + length E) (A @ E @ Y @ pad) = Y @ pad" by simp
  then have "copy_within (length A + length E) (length A + length E + length Y) (length A) (A @ E @ Y @ pad) = Inr (A @ Y @ ?rest)"
    by (simp add: copy_within_def)
  then show thesis by (rule that) simp
qed

lemma open_gap_copy:
  assumes "n = length p1"
  obtains gap where "copy_within (length A) (length A + length B) (length A + n) (A @ B @ p1 @ p2) = Inr (A @ gap @ B @ p2)"
    and "length gap = n"
proof -
  let ?gap = "take n (B @ p1 @ p2)"
  have "drop (length A + (n + length B)) (A @ B @ p1 @ p2) = p2" using assms by (simp add: add.commute)
  then have "copy_within (length A) (length A + length B) (length A + n) (A @ B @ p1 @ p2) = Inr (A @ ?gap @ B @ p2)"
    using assms by (simp add: copy_within_def add.assoc)
  then show thesis by (rule that) (use assms in simp)
qed

section \<open>Leaves\<close>

lemma leaf_page_rebuild:
  assumes "length pre = HEADER_SIZE" and "drop 7 pre = [z]" and "par < 2 ^ 32" and "length (pre @ entries_bytes es @ pad) = page_size"
  obtains page where "serialize_header \<lparr>node_type = Leaf, num_keys = length es, parent = par\<rparr> (pre @ entries_bytes es @ pad) = Inr page"
    and "leaf_page page par es"
proof -
  let ?page = "header_bytes \<lparr>node_type = Leaf, num_keys = length es, parent = par\<rparr> @ z # entries_bytes es @ pad"
  have "serialize_header \<lparr>node_type = Leaf, num_keys = length es, parent = par\<rparr> (pre @ entries_bytes es @ pad) = Inr ?page"
    using assms(1,2) by (subst serialize_header_any) (simp_all add: HEADER_SIZE_def)
  moreover have "leaf_page ?page par es" using assms unfolding leaf_page_def by (auto simp: HEADER_SIZE_def)
  ultimately show thesis by (rule that)
qed

lemma read_entry_mid_at:
  assumes "entries_ok (xs @ (k, d) # ys)"
  shows "read_entry_at_index (pre @ entries_bytes (xs @ (k, d) # ys) @ post) (length pre) (length xs) =
     Inr (k, length d, d, length pre + entries_len xs)"
  using assms
proof (induction xs arbitrary: pre)
  case Nil
  then show ?case using read_entry_mid [of d pre k "entries_bytes ys @ post"] by simp
next
  case (Cons x xs)
  obtain k' d' where x: "x = (k', d')" by (cases x)
  from Cons.IH [of "pre @ entry_bytes (k', d')"] Cons.prems
    read_entry_mid(1,2) [of d' pre k' "entries_bytes (xs @ (k, d) # ys) @ post"]
  show ?case by (simp add: x length_entry_bytes add.assoc)
qed

text \<open>Taking one entry out of a leaf, at the offset \<open>lent_entry\<close> names.\<close>

lemma leaf_cut_out:
  assumes page: "leaf_page page par es" and es: "es = xs @ (k, d) # ys"
  obtains page' mid where "find_data_end \<lparr>node_type = Leaf, num_keys = length es, parent = par\<rparr> page = Inr (HEADER_SIZE + entries_len es)"
    and "copy_within (HEADER_SIZE + entries_len xs + (12 + length d)) (HEADER_SIZE + entries_len es) (HEADER_SIZE + entries_len xs) page = Inr mid"
    and "serialize_header \<lparr>node_type = Leaf, num_keys = length es - 1, parent = par\<rparr> mid = Inr page'" and "leaf_page page' par (xs @ ys)"
proof -
  obtain pre z pad where e: "page = pre @ entries_bytes es @ pad" and pre: "length pre = HEADER_SIZE" and hd: "drop 7 pre = [z]"
    by (rule leaf_page_split [OF page])
  let ?A = "pre @ entries_bytes xs" and ?E = "entry_bytes (k, d)" and ?Y = "entries_bytes ys"
  obtain rest where gap: "copy_within (length ?A + length ?E) (length ?A + length ?E + length ?Y) (length ?A) (?A @ ?E @ ?Y @ pad) =
      Inr (?A @ ?Y @ rest)" and rest: "length rest = length ?E + length pad"
    by (rule close_gap_copy)
  have "page = ?A @ ?E @ ?Y @ pad" by (simp add: e es)
  then have copy: "copy_within (HEADER_SIZE + entries_len xs + (12 + length d)) (HEADER_SIZE + entries_len es) (HEADER_SIZE + entries_len xs) page =
      Inr (pre @ entries_bytes (xs @ ys) @ rest)"
    using gap by (simp add: pre es length_entry_bytes add.assoc)
  have len: "length page = page_size" and par: "par < 2 ^ 32" using page by (simp_all add: leaf_page_def)
  have "length (pre @ entries_bytes (xs @ ys) @ rest) = page_size" using len e rest by (simp add: es length_entry_bytes)
  then obtain page' where "serialize_header \<lparr>node_type = Leaf, num_keys = length (xs @ ys), parent = par\<rparr> (pre @ entries_bytes (xs @ ys) @ rest) = Inr page'"
    "leaf_page page' par (xs @ ys)"
    by (rule leaf_page_rebuild [OF pre hd par])
  moreover have "length (xs @ ys) = length es - 1" by (simp add: es)
  moreover have "find_data_end \<lparr>node_type = Leaf, num_keys = length es, parent = par\<rparr> page = Inr (HEADER_SIZE + entries_len es)"
    using leaf_page_read(3) [OF page] by (simp add: find_data_end_def)
  ultimately show thesis using copy by (intro that) simp_all
qed

lemma lent_entry_last:
  assumes page: "leaf_page page par es" and es: "es = xs @ [(k, d)]"
  shows "lent_entry True \<lparr>node_type = Leaf, num_keys = length es, parent = par\<rparr> page = Inr (HEADER_SIZE + entries_len xs, k, length d, d)"
proof -
  obtain pre z pad where e: "page = pre @ entries_bytes es @ pad" and pre: "length pre = HEADER_SIZE"
    by (rule leaf_page_split [OF page])
  have "entries_ok (xs @ (k, d) # [])" using leaf_page_entries_ok [OF page] by (simp add: es)
  from read_entry_mid_at [OF this, of pre pad] show ?thesis by (simp add: lent_entry_def e es pre)
qed

lemma lent_entry_first:
  assumes page: "leaf_page page par es" and es: "es = (k, d) # ys"
  shows "lent_entry False \<lparr>node_type = Leaf, num_keys = length es, parent = par\<rparr> page = Inr (HEADER_SIZE, k, length d, d)"
    and "read_i64 HEADER_SIZE page = Inr k"
proof -
  obtain pre z pad where e: "page = pre @ entries_bytes es @ pad" and pre: "length pre = HEADER_SIZE"
    by (rule leaf_page_split [OF page])
  have "length d < 2 ^ 32" using leaf_page_entries_ok [OF page] by (simp add: es)
  from read_entry_mid [OF this, of pre k "entries_bytes ys @ pad"]
  show "lent_entry False \<lparr>node_type = Leaf, num_keys = length es, parent = par\<rparr> page = Inr (HEADER_SIZE, k, length d, d)"
    and "read_i64 HEADER_SIZE page = Inr k"
    by (simp_all add: lent_entry_def e es pre)
qed

lemma take_in_fits:
  assumes page: "leaf_page page par es" and fits: "HEADER_SIZE + entries_len es + (12 + length d) \<le> page_size"
  obtains page' where "take_in_entry left k d \<lparr>node_type = Leaf, num_keys = length es, parent = par\<rparr> page = Inr page'"
    and "leaf_page page' par (if left then (k, d) # es else es @ [(k, d)])"
proof -
  let ?h = "\<lparr>node_type = Leaf, num_keys = length es, parent = par\<rparr>"
  let ?es = "if left then (k, d) # es else es @ [(k, d)]"
  obtain pre z pad where e: "page = pre @ entries_bytes es @ pad" and pre: "length pre = HEADER_SIZE" and hd: "drop 7 pre = [z]"
    by (rule leaf_page_split [OF page])
  have len: "length page = page_size" and par: "par < 2 ^ 32" using page by (simp_all add: leaf_page_def)
  let ?n = "12 + length d"
  have n: "?n \<le> length pad" using fits len e pre by simp
  define p1 p2 where "p1 = take ?n pad" and "p2 = drop ?n pad"
  have pad: "pad = p1 @ p2" and p1: "?n = length p1" using n by (simp_all add: p1_def p2_def)
  have "(if left then rbind (copy_within HEADER_SIZE (HEADER_SIZE + entries_len es) (HEADER_SIZE + ?n) page) (write_entry HEADER_SIZE k d)
      else write_entry (HEADER_SIZE + entries_len es) k d page) = Inr (pre @ entries_bytes ?es @ p2)"
  proof (cases left)
    case True
    obtain gap where gap: "copy_within (length pre) (length pre + length (entries_bytes es)) (length pre + ?n) (pre @ entries_bytes es @ p1 @ p2) =
        Inr (pre @ gap @ entries_bytes es @ p2)" "length gap = ?n"
      by (rule open_gap_copy [OF p1])
    have "write_entry (length pre) k d (pre @ gap @ entries_bytes es @ p2) = Inr (pre @ entry_bytes (k, d) @ entries_bytes es @ p2)"
      by (rule write_entry_at [OF gap(2)])
    with gap(1) True show ?thesis by (simp add: e pad pre)
  next
    case False
    have "write_entry (length (pre @ entries_bytes es)) k d ((pre @ entries_bytes es) @ p1 @ p2) = Inr ((pre @ entries_bytes es) @ entry_bytes (k, d) @ p2)"
      by (rule write_entry_at) (simp add: p1)
    with False show ?thesis by (simp add: e pad pre)
  qed
  moreover have "length (pre @ entries_bytes ?es @ p2) = page_size" using len e pad p1 by (simp add: length_entry_bytes)
  then obtain page' where "serialize_header \<lparr>node_type = Leaf, num_keys = length ?es, parent = par\<rparr> (pre @ entries_bytes ?es @ p2) = Inr page'"
    "leaf_page page' par ?es"
    by (rule leaf_page_rebuild [OF pre hd par])
  moreover have "length ?es = length es + 1" by simp
  ultimately show thesis
    using fits leaf_page_read(3) [OF page] by (intro that [of page']) (simp_all add: take_in_entry_def find_data_end_def Let_def)
qed

lemma merge_fits:
  assumes page: "leaf_page page par es" and ok: "entries_ok fs" and fits: "HEADER_SIZE + entries_len (es @ fs) \<le> page_size"
  obtains page' where "rbind (append_entries fs \<lparr>node_type = Leaf, num_keys = length es, parent = par\<rparr> page) (\<lambda>(h, page). serialize_header h page) = Inr page'"
    and "leaf_page page' par (es @ fs)"
proof -
  let ?h = "\<lparr>node_type = Leaf, num_keys = length es, parent = par\<rparr>"
  obtain pre z pad where e: "page = pre @ entries_bytes es @ pad" and pre: "length pre = HEADER_SIZE" and hd: "drop 7 pre = [z]"
    by (rule leaf_page_split [OF page])
  have len: "length page = page_size" and par: "par < 2 ^ 32" using page by (simp_all add: leaf_page_def)
  have "entries_ok (es @ fs)" using leaf_page_entries_ok [OF page] ok by simp
  from append_entries_at [of pre ?h es fs pad] this fits len e pre
  have app: "append_entries fs ?h page = Inr (?h\<lparr>num_keys := length (es @ fs)\<rparr>, pre @ entries_bytes (es @ fs) @ drop (entries_len fs) pad)"
    by simp
  have "entries_len fs \<le> length pad" using fits len e pre by simp
  then have "length (pre @ entries_bytes (es @ fs) @ drop (entries_len fs) pad) = page_size" using len e by simp
  then obtain page' where "serialize_header \<lparr>node_type = Leaf, num_keys = length (es @ fs), parent = par\<rparr>
      (pre @ entries_bytes (es @ fs) @ drop (entries_len fs) pad) = Inr page'" "leaf_page page' par (es @ fs)"
    by (rule leaf_page_rebuild [OF pre hd par])
  then show thesis using app by (intro that [of page']) simp_all
qed

section \<open>Internal nodes\<close>

lemma replace_key_mid:
  assumes "pairs_ok ps" and "k \<notin> fst ` set xs" and "ps = xs @ (k, c) # ys"
  shows "replace_key (length ps) (length pre) k k' (pre @ pairs_bytes ps @ post) = Inr (pre @ pairs_bytes (xs @ (k', c) # ys) @ post)"
  using assms
proof (induction xs arbitrary: pre ps)
  case Nil
  have "put (length pre) (i64_to_le k') (pre @ i64_to_le k @ (le_bytes 8 c @ pairs_bytes ys @ post)) =
      Inr (pre @ i64_to_le k' @ (le_bytes 8 c @ pairs_bytes ys @ post))"
    by (rule put_mid) simp_all
  with Nil read_pair_mid(1) [of c pre k "pairs_bytes ys @ post"] show ?case by (simp add: pair_bytes_def)
next
  case (Cons x xs)
  obtain j c' where x: "x = (j, c')" by (cases x)
  define ps' where "ps' = xs @ (k, c) # ys"
  have ps: "ps = (j, c') # ps'" using Cons.prems(3) by (simp add: x ps'_def)
  have "replace_key (length ps') (length (pre @ pair_bytes (j, c'))) k k' ((pre @ pair_bytes (j, c')) @ pairs_bytes ps' @ post) =
      Inr ((pre @ pair_bytes (j, c')) @ pairs_bytes (xs @ (k', c) # ys) @ post)"
    using Cons.prems by (intro Cons.IH) (auto simp: ps ps'_def)
  moreover have "j \<noteq> k" using Cons.prems(2) by (auto simp: x)
  ultimately show ?case using read_pair_mid(1) [of c' pre j "pairs_bytes ps' @ post"] Cons.prems by (simp add: ps x)
qed

lemma node_page_replace:
  assumes page: "node_page page par c0 ps" and ps: "ps = xs @ (k, c) # ys" and k: "k \<notin> fst ` set xs"
  obtains page' where "replace_key (length ps) (HEADER_SIZE + 8) k k' page = Inr page'" and "node_page page' par c0 (xs @ (k', c) # ys)"
proof -
  obtain z pad where e: "page = header_bytes \<lparr>node_type = Internal, num_keys = length ps, parent = par\<rparr> @ [z] @ le_bytes 8 c0 @ pairs_bytes ps @ pad"
    and len: "length page = page_size" using page by (auto simp: node_page_def)
  let ?pre = "header_bytes \<lparr>node_type = Internal, num_keys = length ps, parent = par\<rparr> @ [z] @ le_bytes 8 c0"
  let ?page = "?pre @ pairs_bytes (xs @ (k', c) # ys) @ pad"
  have "replace_key (length ps) (length ?pre) k k' (?pre @ pairs_bytes ps @ pad) = Inr ?page"
    by (rule replace_key_mid [OF node_page_bounds(3) [OF page] k ps])
  then have "replace_key (length ps) (HEADER_SIZE + 8) k k' page = Inr ?page" by (simp add: e HEADER_SIZE_def)
  moreover have "length ?page = page_size" using len by (simp add: e ps)
  then have "node_page ?page par c0 (xs @ (k', c) # ys)" using page unfolding node_page_def by (auto simp: ps)
  ultimately show thesis by (rule that)
qed

lemma node_page_close_up:
  assumes page: "node_page page par c0 ps" and ps: "ps = xs @ (k, c) # ys" and c: "c \<notin> set (c0 # map snd xs)"
  obtains page' where "child_pair (length ps) (HEADER_SIZE + 8) page c = Inr (Some (HEADER_SIZE + 8 + 16 * length xs))"
    and "close_up \<lparr>node_type = Internal, num_keys = length ps, parent = par\<rparr> (HEADER_SIZE + 8 + 16 * length xs) page =
      Inr (\<lparr>node_type = Internal, num_keys = length (xs @ ys), parent = par\<rparr>, page')"
    and "node_page page' par c0 (xs @ ys)"
proof -
  obtain pre z pad where e: "page = pre @ pairs_bytes ps @ pad" and pre: "length pre = HEADER_SIZE + 8" and z: "drop 7 pre = z # le_bytes 8 c0"
    by (rule node_page_split [OF page])
  note b = node_page_bounds [OF page]
  have "c \<notin> snd ` set xs" using c by (simp add: image_iff)
  then have found: "child_pair (length ps) (HEADER_SIZE + 8) page c = Inr (Some (HEADER_SIZE + 8 + 16 * length xs))"
    using child_pair_mid [OF b(3) _ ps, of pre pad] by (simp add: e pre)
  let ?A = "pre @ pairs_bytes xs" and ?E = "pair_bytes (k, c)" and ?Y = "pairs_bytes ys"
  obtain rest where gap: "copy_within (length ?A + length ?E) (length ?A + length ?E + length ?Y) (length ?A) (?A @ ?E @ ?Y @ pad) =
      Inr (?A @ ?Y @ rest)" and rest: "length rest = length ?E + length pad"
    by (rule close_gap_copy)
  have "page = ?A @ ?E @ ?Y @ pad" by (simp add: e ps)
  then have copy: "copy_within (HEADER_SIZE + 8 + 16 * length xs + 16) (HEADER_SIZE + 8 + length ps * 16) (HEADER_SIZE + 8 + 16 * length xs) page =
      Inr (pre @ pairs_bytes (xs @ ys) @ rest)"
    using gap by (simp add: pre ps algebra_simps)
  have len: "length page = page_size" and par: "par < 2 ^ 32" using page by (simp_all add: node_page_def)
  have l: "length (pre @ pairs_bytes (xs @ ys) @ rest) = page_size" using len e rest by (simp add: ps)
  have "7 \<le> length (pre @ pairs_bytes (xs @ ys) @ rest)" using pre by (simp add: HEADER_SIZE_def)
  then obtain page' where ser: "serialize_header \<lparr>node_type = Internal, num_keys = length (xs @ ys), parent = par\<rparr> (pre @ pairs_bytes (xs @ ys) @ rest) = Inr page'"
    by (simp add: serialize_header_any)
  have ok: "pairs_ok (xs @ ys)" using b(3) by (simp add: ps)
  have np: "node_page page' par c0 (xs @ ys)" by (rule node_pageI [OF ser z l par b(4) ok])
  have "length ps - 1 = length (xs @ ys)" "length ps \<noteq> 0" by (simp_all add: ps)
  with copy ser have "close_up \<lparr>node_type = Internal, num_keys = length ps, parent = par\<rparr> (HEADER_SIZE + 8 + 16 * length xs) page =
      Inr (\<lparr>node_type = Internal, num_keys = length (xs @ ys), parent = par\<rparr>, page')"
    by (simp add: close_up_def Let_def)
  with found np show thesis by (intro that)
qed

end
