(* ===== verification/BTreeShrink.thy ===== *)
theory BTreeShrink
  imports BTreeOps PageShrink
begin

text \<open>
  Rebalancing after a deletion. Two neighbours \<open>L\<close> and \<open>R\<close> with their separator \<open>k\<close> are a frame with \<open>L\<close> in
  its hole and \<open>(k, R)\<close> next to it. A redistribution replaces \<open>L\<close>, \<open>k\<close> and \<open>R\<close>; a merge replaces \<open>L\<close>
  and takes \<open>(k, R)\<close> out of the frame, which may make the node of the frame underflow in turn.
\<close>

section \<open>Neighbours\<close>

text \<open>The frame of a child as the frame of a pair: \<open>left\<close> when the sibling the code chooses is the left one.\<close>

lemma pair_of_frame:
  assumes keys: "0 < frame_keys (Frame q ld rs)" and bal: "frame_bal n (Frame q ld rs)"
  obtains left ld' rs' k L R where "plug (Frame q ld rs) X = plug (Frame q ld' ((k, R) # rs')) L" and "X = (if left then R else L)"
    and "bal n (if left then L else R)" and "frame_bal n (Frame q ld' rs')" and "\<not> left \<Longrightarrow> ld' = None"
    and "frame_keys (Frame q ld rs) = Suc (frame_keys (Frame q ld' rs'))"
proof (cases ld)
  case None
  then obtain k R rs' where "rs = (k, R) # rs'" using keys by (cases rs) auto
  with None bal show thesis by (intro that [of None k R rs' X False]) simp_all
next
  case (Some x)
  obtain t0 ls k where x: "x = (t0, ls, k)" by (cases x)
  show thesis
  proof (cases ls rule: rev_cases)
    case Nil
    with bal show thesis by (intro that [of None k X rs t0 True]) (simp_all add: Some x)
  next
    case (snoc ls' y)
    obtain k' L where "y = (k', L)" by (cases y)
    with snoc bal show thesis by (intro that [of "Some (t0, ls', k')" k X rs L True]) (auto simp: Some x)
  qed
qed

lemma pair_sibling_info:
  assumes page: "node_page pg par (lead_root ld l) (lead_child_ids ld l @ (k, r) # ps)"
    and new: "r \<notin> set (lead_root ld l # map snd (lead_child_ids ld l))"
  shows "find_sibling_info pg \<lparr>node_type = Internal, num_keys = length (lead_child_ids ld l @ (k, r) # ps), parent = par\<rparr> r = Inr (l, k, True)"
    and "ld = None \<Longrightarrow>
      find_sibling_info pg \<lparr>node_type = Internal, num_keys = length (lead_child_ids ld l @ (k, r) # ps), parent = par\<rparr> l = Inr (r, k, False)"
proof -
  have "last (lead_root ld l # map snd (lead_child_ids ld l)) = l" by (cases "(ld, l)" rule: lead_root.cases) simp_all
  with node_page_sibling(2) [OF page refl new] show "find_sibling_info pg
      \<lparr>node_type = Internal, num_keys = length (lead_child_ids ld l @ (k, r) # ps), parent = par\<rparr> r = Inr (l, k, True)"
    by simp
  show "ld = None \<Longrightarrow>
      find_sibling_info pg \<lparr>node_type = Internal, num_keys = length (lead_child_ids ld l @ (k, r) # ps), parent = par\<rparr> l = Inr (r, k, False)"
    using node_page_sibling(1) [OF page] by simp
qed

lemma lead_roots: "set (lead_root ld (root_id L) # map snd (lead_child_ids ld (root_id L))) \<subseteq> set (lead_ids ld @ ids L)"
proof (cases "(ld, root_id L)" rule: lead_root.cases)
  case (2 t0 ls k' l)
  have "set (map snd (child_ids ls)) \<subseteq> set (sub_ids ls)" using roots_in_sub [of ls] by (force simp: child_ids_def)
  with 2 show ?thesis by auto
qed simp

section \<open>Order of leaves\<close>

lemma ordered_merge:
  assumes "ordered (cl @ Blk l es # Sep k # Blk r fs # cr)"
  shows "ordered (cl @ Blk l (es @ fs) # cr)"
  using assms by (auto simp: ordered_def sorted_wrt_append)

lemma ordered_redistribute:
  assumes "ordered (cl @ Blk l es # Sep k # Blk r fs # cr)" and "es @ fs = es' @ e # fs'" and "es' \<noteq> []"
  shows "ordered (cl @ Blk l es' # Sep (fst e) # Blk r (e # fs') # cr)"
proof -
  have "ordered (cl @ Blk l (es' @ e # fs') # cr)" using ordered_merge [OF assms(1)] assms(2) by simp
  from ordered_split [OF this, of "length es'" r] assms(3) show ?thesis by simp
qed

lemma distinct_less: "distinct (xs @ zs) \<Longrightarrow> distinct ys \<Longrightarrow> set ys \<subseteq> set xs \<Longrightarrow> distinct (ys @ zs)"
  by auto

context page_io
begin

section \<open>Rebuilding the pair\<close>

text \<open>What rebalancing does to the pages: it writes pages of the tree only, and may leave some of them unused.\<close>

definition shrunk :: "'s \<Rightarrow> tree \<Rightarrow> 's \<Rightarrow> tree \<Rightarrow> bool" where
  "shrunk s t s' t' \<longleftrightarrow> steps (set (ids t)) 0 s s' \<and> set (ids t') \<subseteq> set (ids t)"

lemma shrunk_trans: "shrunk s t s' t' \<Longrightarrow> shrunk s' t' s'' t'' \<Longrightarrow> shrunk s t s'' t''"
  unfolding shrunk_def using steps_trans [of "set (ids t)" 0 s s' "set (ids t')" 0 s''] by (simp add: Un_absorb2) blast

lemma pair_facts:
  assumes "holds s (plug_ctx (Frame q ld ((k, R) # rs) # fs) L)"
  obtains pg where "view s q = Some pg"
    and "node_page pg (par_of fs) (lead_root ld (root_id L)) (lead_child_ids ld (root_id L) @ (k, root_id R) # child_ids rs)"
    and "tree_at (view s) q L" and "tree_at (view s) q R" and "lead_at (view s) q ld" and "\<forall>(k, u)\<in>set rs. tree_at (view s) q u"
    and "ctx_at (view s) q fs" and "ids_ok (ctx_ids fs @ q # lead_ids ld @ ids L @ ids R @ sub_ids rs)"
    and "ordered (ctx_left fs @ lead_left ld @ blocks L @ Sep k # blocks R @ sub_blocks rs @ ctx_right fs)"
proof -
  let ?t = "plug_ctx (Frame q ld ((k, R) # rs) # fs) L"
  from assms have t: "tree_at (view s) 0 ?t" "ids_ok (ids ?t)" "ordered (blocks ?t)" by (simp_all add: holds_def)
  have m: "mset (ids ?t) = mset (ctx_ids fs @ q # lead_ids ld @ ids L @ ids R @ sub_ids rs)" unfolding mset_ids_plug_ctx by simp
  have 1: "ids_ok (ctx_ids fs @ q # lead_ids ld @ ids L @ ids R @ sub_ids rs)"
    using t(2) unfolding ids_ok_def mset_eq_imp_distinct_iff [OF m] mset_eq_setD [OF m] .
  have 2: "tree_at (view s) q L" "frame_at (view s) (par_of fs) (root_id L) (Frame q ld ((k, R) # rs))" "ctx_at (view s) q fs"
    using t(1) unfolding tree_at_plug_ctx by simp_all
  have 3: "ordered (ctx_left fs @ lead_left ld @ blocks L @ Sep k # blocks R @ sub_blocks rs @ ctx_right fs)"
    using t(3) unfolding blocks_plug_ctx by simp
  from 2(2) obtain pg where "view s q = Some pg"
    "node_page pg (par_of fs) (lead_root ld (root_id L)) (lead_child_ids ld (root_id L) @ (k, root_id R) # child_ids rs)"
    "lead_at (view s) q ld" "tree_at (view s) q R" "\<forall>(k, u)\<in>set rs. tree_at (view s) q u"
    by auto
  from that [OF this(1,2) 2(1) this(4,3,5) 2(3) 1 3] show thesis .
qed

lemma rebuild:
  assumes h: "holds s (plug_ctx (Frame q ld ((k, R) # rs) # fs) L)" and st: "steps S 0 s s'"
    and S: "S \<subseteq> insert q (set (ids L @ ids R))"
    and page: "view s' q = Some pg" "node_page pg (par_of fs) (lead_root ld (root_id L')) (lead_child_ids ld (root_id L') @ child_ids (mid @ rs))"
    and L': "tree_at (view s') q L'" and mid: "\<forall>(k, u)\<in>set mid. tree_at (view s') q u"
    and ids: "distinct (ids L' @ sub_ids mid)" "set (ids L' @ sub_ids mid) \<subseteq> set (ids L @ ids R)"
    and ord: "ordered (ctx_left fs @ lead_left ld @ blocks L' @ sub_blocks mid @ sub_blocks rs @ ctx_right fs)"
  shows "holds s' (plug_ctx (Frame q ld (mid @ rs) # fs) L')"
    and "shrunk s (plug_ctx (Frame q ld ((k, R) # rs) # fs) L) s' (plug_ctx (Frame q ld (mid @ rs) # fs) L')"
proof -
  let ?t = "plug_ctx (Frame q ld ((k, R) # rs) # fs) L" and ?t' = "plug_ctx (Frame q ld (mid @ rs) # fs) L'"
  obtain ok: "ids_ok (ctx_ids fs @ q # lead_ids ld @ ids L @ ids R @ sub_ids rs)"
    and old: "lead_at (view s) q ld" "\<forall>(k, u)\<in>set rs. tree_at (view s) q u" "ctx_at (view s) q fs"
    by (rule pair_facts [OF h])
  have apart: "i \<notin> S" if "i \<in> set (lead_ids ld @ sub_ids rs @ ctx_ids fs)" for i
    using ok S that by (auto simp: ids_ok_def)
  have same: "view s' i = view s i" if "i \<in> set (lead_ids ld @ sub_ids rs @ ctx_ids fs)" for i
    by (rule steps_view [OF st apart [OF that]])
  have "lead_at (view s') q ld" using old(1) lead_at_cong [of ld "view s'" "view s" q] same by simp
  moreover have "\<forall>(k, u)\<in>set rs. tree_at (view s') q u" using old(2) sub_at_cong [of rs "view s'" "view s" q] same by simp
  moreover have cx: "ctx_at (view s') q fs" using old(3) ctx_at_cong [of fs "view s'" "view s" q] same by simp
  ultimately have "frame_at (view s') (par_of fs) (root_id L') (Frame q ld (mid @ rs))" using page mid by auto
  with L' cx have t': "tree_at (view s') 0 ?t'" unfolding tree_at_plug_ctx by simp
  have "mset (ids ?t') = mset ((ids L' @ sub_ids mid) @ ctx_ids fs @ q # lead_ids ld @ sub_ids rs)" unfolding mset_ids_plug_ctx by simp
  note e' = mset_eq_imp_distinct_iff [OF this] mset_eq_setD [OF this]
  have "mset (ids ?t) = mset ((ids L @ ids R) @ ctx_ids fs @ q # lead_ids ld @ sub_ids rs)" unfolding mset_ids_plug_ctx by simp
  note e = mset_eq_imp_distinct_iff [OF this] mset_eq_setD [OF this]
  have okt: "ids_ok (ids ?t)" "view s 0 \<noteq> None" using h by (simp_all add: holds_def)
  have sub: "set (ids ?t') \<subseteq> set (ids ?t)" unfolding e'(2) e(2) using ids(2) by auto
  have "distinct ((ids L @ ids R) @ ctx_ids fs @ q # lead_ids ld @ sub_ids rs)" using okt(1) unfolding ids_ok_def e(1) by blast
  then have "distinct (ids ?t')" unfolding e'(1) by (rule distinct_less [OF _ ids])
  with sub okt(1) have "ids_ok (ids ?t')" by (auto simp: ids_ok_def)
  moreover have "ordered (blocks ?t')" using ord unfolding blocks_plug_ctx by simp
  ultimately show "holds s' ?t'" using t' steps_inv [OF st] steps_alive [OF st okt(2)] by (simp add: holds_def)
  have "S \<subseteq> set (ids ?t)" unfolding e(2) using S by auto
  then show "shrunk s ?t s' ?t'" using steps_mono [OF st] sub by (simp add: shrunk_def)
qed

section \<open>Borrowing between leaves\<close>

lemma update_key_ok:
  assumes inv: "inv s" and pg: "view s q = Some pg" "node_page pg par (lead_root ld l) (lead_child_ids ld l @ (k, r) # ps)"
    and ord: "ordered (xs @ Sep k # ys)" "set (lead_left ld) \<subseteq> set xs"
  obtains s' pg' where "update_parent_key P q k k' s = (Inr (), s')" and "steps {q} 0 s s'" and "view s' = (view s)(q \<mapsto> pg')"
    and "node_page pg' par (lead_root ld l) (lead_child_ids ld l @ (k', r) # ps)"
proof -
  have "sint (fst x) < sint k" if "x \<in> set (lead_child_ids ld l)" for x
    using Sep_before [OF ord(1)] lead_keys [OF that] ord(2) by blast
  then have "k \<notin> fst ` set (lead_child_ids ld l)" by fastforce
  then obtain pg' where pg': "replace_key (length (lead_child_ids ld l @ (k, r) # ps)) (HEADER_SIZE + 8) k k' pg = Inr pg'"
    "node_page pg' par (lead_root ld l) (lead_child_ids ld l @ (k', r) # ps)"
    by (rule node_page_replace [OF pg(2) refl])
  obtain s1 where rd: "read_node P q s = (Inr (\<lparr>node_type = Internal, num_keys = length (lead_child_ids ld l @ (k, r) # ps), parent = par\<rparr>, pg), s1)"
    and s1: "keeps s s1"
    by (rule read_node_ok [OF inv pg(1) node_page_header [OF pg(2)]])
  have "view s1 q \<noteq> None" "length pg' = page_size" using pg(1) s1 pg'(2) by (simp_all add: keeps_def node_page_def)
  then obtain s2 where w: "po_write P q pg' s1 = (Inr (), s2)" "steps {q} 0 s1 s2" "view s2 = (view s1)(q \<mapsto> pg')"
    by (rule write_steps [OF keeps_fields(1) [OF s1]])
  have "steps {q} 0 s s2" using steps_trans [OF keeps_steps [OF s1, of "{}" 0] w(2)] by simp
  moreover have "update_parent_key P q k k' s = (Inr (), s2)" using rd pg'(1) w(1) by (simp add: update_parent_key_def mbind_def)
  ultimately show thesis using w(3) pg'(2) keeps_fields(2) [OF s1] by (intro that [of s2 pg']) simp_all
qed

lemma move_entry_ok:
  assumes inv: "inv s" and sp: "view s sid = Some sp" "leaf_page sp par ey" and pp: "view s pid = Some pp" "leaf_page pp par ex"
    and ne: "sid \<noteq> pid" and ey: "ey = xs @ (sk, sd) # ys"
    and lent: "lent_entry left \<lparr>node_type = Leaf, num_keys = length ey, parent = par\<rparr> sp = Inr (HEADER_SIZE + entries_len xs, sk, length sd, sd)"
    and ex': "ex' = (if left then (sk, sd) # ex else ex @ [(sk, sd)])" and fits: "HEADER_SIZE + entries_len ex + (12 + length sd) \<le> page_size"
    and first: "(if left then ex' else xs @ ys) = (nk, nd) # zs"
  obtains s' sp' pp' where "redistribute_from_sibling P pid sid q k left s = update_parent_key P q k nk s'" and "steps {sid, pid} 0 s s'"
    and "view s' sid = Some sp'" and "leaf_page sp' par (xs @ ys)" and "view s' pid = Some pp'" and "leaf_page pp' par ex'"
proof -
  let ?hs = "\<lparr>node_type = Leaf, num_keys = length ey, parent = par\<rparr>" and ?hp = "\<lparr>node_type = Leaf, num_keys = length ex, parent = par\<rparr>"
  obtain sp' mid where cut: "find_data_end ?hs sp = Inr (HEADER_SIZE + entries_len ey)"
    "copy_within (HEADER_SIZE + entries_len xs + (12 + length sd)) (HEADER_SIZE + entries_len ey) (HEADER_SIZE + entries_len xs) sp = Inr mid"
    "serialize_header \<lparr>node_type = Leaf, num_keys = length ey - 1, parent = par\<rparr> mid = Inr sp'" "leaf_page sp' par (xs @ ys)"
    by (rule leaf_cut_out [OF sp(2) ey])
  obtain pp' where pp': "take_in_entry left sk sd ?hp pp = Inr pp'" "leaf_page pp' par ex'"
    unfolding ex' by (rule take_in_fits [OF pp(2) fits])
  obtain s1 where rd1: "read_node P sid s = (Inr (?hs, sp), s1)" and s1: "keeps s s1"
    by (rule read_node_ok [OF inv sp(1) leaf_page_header [OF sp(2)]])
  have "view s1 sid \<noteq> None" "length sp' = page_size" using sp(1) s1 cut(4) by (simp_all add: keeps_def leaf_page_def)
  then obtain s2 where w2: "po_write P sid sp' s1 = (Inr (), s2)" "steps {sid} 0 s1 s2" "view s2 = (view s1)(sid \<mapsto> sp')"
    by (rule write_steps [OF keeps_fields(1) [OF s1]])
  have "view s2 pid = Some pp" using pp(1) ne s1 by (simp add: w2(3) keeps_def)
  then obtain s3 where rd3: "read_node P pid s2 = (Inr (?hp, pp), s3)" and s3: "keeps s2 s3"
    by (rule read_node_ok [OF steps_inv [OF w2(2)] _ leaf_page_header [OF pp(2)]])
  have "view s3 pid \<noteq> None" "length pp' = page_size" using \<open>view s2 pid = Some pp\<close> s3 pp'(2) by (simp_all add: keeps_def leaf_page_def)
  then obtain s4 where w4: "po_write P pid pp' s3 = (Inr (), s4)" "steps {pid} 0 s3 s4" "view s4 = (view s3)(pid \<mapsto> pp')"
    by (rule write_steps [OF keeps_fields(1) [OF s3]])
  have v4: "view s4 sid = Some sp'" "view s4 pid = Some pp'" using ne s3 by (simp_all add: w4(3) w2(3) keeps_def)
  let ?np = "if left then pp' else sp'" and ?ne = "if left then ex' else xs @ ys"
  have np: "view s4 (if left then pid else sid) = Some ?np" "leaf_page ?np par ?ne" using v4 cut(4) pp'(2) by simp_all
  obtain s5 where rd5: "read_node P (if left then pid else sid) s4 = (Inr (\<lparr>node_type = Leaf, num_keys = length ?ne, parent = par\<rparr>, ?np), s5)"
    and s5: "keeps s4 s5"
    by (rule read_node_ok [OF steps_inv [OF w4(2)] np(1) leaf_page_header [OF np(2)]])
  have nk: "read_i64 HEADER_SIZE ?np = Inr nk" by (rule lent_entry_first(2) [OF np(2) first])
  have st: "steps {sid, pid} 0 s s5"
    using steps_trans [OF steps_trans [OF steps_trans [OF steps_trans [OF keeps_steps [OF s1, of "{}" 0] w2(2)] keeps_steps [OF s3, of "{}" 0]] w4(2)]
        keeps_steps [OF s5, of "{}" 0]]
    by (rule steps_mono) auto
  have ne0: "num_keys ?hs \<noteq> 0" "0 < length ?ne" using ey first by (simp_all del: if_split_asm)
  have "redistribute_from_sibling P pid sid q k left s = update_parent_key P q k nk s5"
    using rd1 lent cut(1,2,3) w2(1) rd3 pp'(1) w4(1) rd5 nk ne0 by (simp add: redistribute_from_sibling_def mbind_def)
  with st show thesis using v4 s5 cut(4) pp'(2) by (intro that [of s5 sp' pp']) (simp_all add: keeps_fields)
qed

text \<open>Both nodes of a pair rewritten, and then the separator.\<close>

lemma pair_rewritten:
  assumes h: "holds s (plug_ctx (Frame q ld ((k, R) # rs) # fs) L)" and st: "steps S 0 s s1" and S: "S \<subseteq> set (ids L @ ids R)"
    and at: "tree_at (view s1) q L'" "tree_at (view s1) q R'" and roots: "root_id L' = root_id L" "root_id R' = root_id R"
    and ids: "distinct (ids L' @ ids R')" "set (ids L' @ ids R') \<subseteq> set (ids L @ ids R)"
    and ord: "ordered (ctx_left fs @ lead_left ld @ blocks L' @ Sep m # blocks R' @ sub_blocks rs @ ctx_right fs)"
  obtains s' where "update_parent_key P q k m s1 = (Inr (), s')" and "holds s' (plug_ctx (Frame q ld ([(m, R')] @ rs) # fs) L')"
    and "shrunk s (plug_ctx (Frame q ld ((k, R) # rs) # fs) L) s' (plug_ctx (Frame q ld ([(m, R')] @ rs) # fs) L')"
proof -
  obtain pg where pg: "view s q = Some pg"
      "node_page pg (par_of fs) (lead_root ld (root_id L)) (lead_child_ids ld (root_id L) @ (k, root_id R) # child_ids rs)"
    and ok: "ids_ok (ctx_ids fs @ q # lead_ids ld @ ids L @ ids R @ sub_ids rs)"
    and o: "ordered (ctx_left fs @ lead_left ld @ blocks L @ Sep k # blocks R @ sub_blocks rs @ ctx_right fs)"
    by (rule pair_facts [OF h])
  have q: "q \<notin> set (ids L @ ids R)" using ok by (auto simp: ids_ok_def)
  then have v1: "view s1 q = Some pg" using pg(1) steps_view [OF st, of q] S by auto
  have o1: "ordered ((ctx_left fs @ lead_left ld @ blocks L) @ Sep k # (blocks R @ sub_blocks rs @ ctx_right fs))" using o by simp
  obtain s' pg' where u: "update_parent_key P q k m s1 = (Inr (), s')" "steps {q} 0 s1 s'" "view s' = (view s1)(q \<mapsto> pg')"
    "node_page pg' (par_of fs) (lead_root ld (root_id L)) (lead_child_ids ld (root_id L) @ (m, root_id R) # child_ids rs)"
    by (rule update_key_ok [OF steps_inv [OF st] v1 pg(2) o1]) auto
  have st': "steps (S \<union> {q}) 0 s s'" using steps_trans [OF st u(2)] by simp
  have q': "q \<notin> set (ids L')" "q \<notin> set (ids R')" using q ids(2) by auto
  have at': "tree_at (view s') q L'" "tree_at (view s') q R'" using at steps_tree_at [OF u(2)] q' by simp_all
  have S': "S \<union> {q} \<subseteq> insert q (set (ids L @ ids R))" "view s' q = Some pg'" using S u(3) by auto
  note rb = rebuild [OF h st' S', where L' = L' and mid = "[(m, R')]"]
  show thesis by (rule that [OF u(1)]; rule rb) (use u(4) at' roots ids ord in simp_all)
qed

lemma leaves_rewritten:
  assumes h: "holds s (plug_ctx (Frame q ld ((k, TLeaf r es2) # rs) # fs) (TLeaf l es1))"
    and st: "steps {l, r} 0 s s1" and l: "view s1 l = Some pl" "leaf_page pl q es1'" and r: "view s1 r = Some pr" "leaf_page pr q (e # fs2)"
    and es: "es1 @ es2 = es1' @ e # fs2" "es1' \<noteq> []"
  obtains s' where "update_parent_key P q k (fst e) s1 = (Inr (), s')"
    and "holds s' (plug_ctx (Frame q ld ([(fst e, TLeaf r (e # fs2))] @ rs) # fs) (TLeaf l es1'))"
    and "shrunk s (plug_ctx (Frame q ld ((k, TLeaf r es2) # rs) # fs) (TLeaf l es1)) s'
      (plug_ctx (Frame q ld ([(fst e, TLeaf r (e # fs2))] @ rs) # fs) (TLeaf l es1'))"
proof -
  obtain ok: "ids_ok (ctx_ids fs @ q # lead_ids ld @ l # r # sub_ids rs)"
    and ord: "ordered (ctx_left fs @ lead_left ld @ Blk l es1 # Sep k # Blk r es2 # sub_blocks rs @ ctx_right fs)"
    by (rule pair_facts [OF h]) simp_all
  have o2: "ordered (ctx_left fs @ lead_left ld @ blocks (TLeaf l es1') @ Sep (fst e) # blocks (TLeaf r (e # fs2)) @ sub_blocks rs @ ctx_right fs)"
    using ordered_redistribute [of "ctx_left fs @ lead_left ld" l es1 k r es2 "sub_blocks rs @ ctx_right fs", OF _ es] ord by simp
  have "l \<noteq> r" using ok by (auto simp: ids_ok_def)
  with l r have 1: "tree_at (view s1) q (TLeaf l es1')" "tree_at (view s1) q (TLeaf r (e # fs2))" "{l, r} \<subseteq> set (ids (TLeaf l es1) @ ids (TLeaf r es2))"
    "root_id (TLeaf l es1') = root_id (TLeaf l es1)" "root_id (TLeaf r (e # fs2)) = root_id (TLeaf r es2)"
    "distinct (ids (TLeaf l es1') @ ids (TLeaf r (e # fs2)))"
    "set (ids (TLeaf l es1') @ ids (TLeaf r (e # fs2))) \<subseteq> set (ids (TLeaf l es1) @ ids (TLeaf r es2))"
    by simp_all
  from pair_rewritten [OF h st 1(3,1,2,4-) o2] that show thesis by blast
qed

lemma borrow_left_ok:
  assumes h: "holds s (plug_ctx (Frame q ld ((k, TLeaf r es2) # rs) # fs) (TLeaf l (es1 @ [e])))" and ne: "es1 \<noteq> []"
    and fits: "HEADER_SIZE + entries_len es2 + (12 + length (snd e)) \<le> page_size"
  obtains s' where "redistribute_from_sibling P r l q k True s = (Inr (), s')"
    and "holds s' (plug_ctx (Frame q ld ([(fst e, TLeaf r (e # es2))] @ rs) # fs) (TLeaf l es1))"
    and "shrunk s (plug_ctx (Frame q ld ((k, TLeaf r es2) # rs) # fs) (TLeaf l (es1 @ [e]))) s'
      (plug_ctx (Frame q ld ([(fst e, TLeaf r (e # es2))] @ rs) # fs) (TLeaf l es1))"
proof -
  obtain sk sd where e: "e = (sk, sd)" by (cases e)
  obtain l: "tree_at (view s) q (TLeaf l (es1 @ [e]))" and r: "tree_at (view s) q (TLeaf r es2)"
    and ok: "ids_ok (ctx_ids fs @ q # lead_ids ld @ l # r # sub_ids rs)"
    by (rule pair_facts [OF h]) simp_all
  from l r obtain pl pr where pl: "view s l = Some pl" "leaf_page pl q (es1 @ [e])" and pr: "view s r = Some pr" "leaf_page pr q es2" by auto
  have inv: "inv s" "l \<noteq> r" using h ok by (auto simp: holds_def ids_ok_def)
  have lent: "lent_entry True \<lparr>node_type = Leaf, num_keys = length (es1 @ [e]), parent = q\<rparr> pl = Inr (HEADER_SIZE + entries_len es1, sk, length sd, sd)"
    using lent_entry_last [OF pl(2)] by (simp add: e)
  have fits': "HEADER_SIZE + entries_len es2 + (12 + length sd) \<le> page_size" using fits by (simp add: e)
  obtain s1 pl' pr' where m: "redistribute_from_sibling P r l q k True s = update_parent_key P q k sk s1" "steps {l, r} 0 s s1"
    "view s1 l = Some pl'" "leaf_page pl' q (es1 @ [])" "view s1 r = Some pr'" "leaf_page pr' q ((sk, sd) # es2)"
    by (rule move_entry_ok [OF inv(1) pl pr inv(2) _ lent _ fits', where ys = "[]" and ex' = "(sk, sd) # es2" and q = q and k = k]) (simp_all add: e)
  have m4: "leaf_page pl' q es1" using m(4) by simp
  have es: "(es1 @ [e]) @ es2 = es1 @ (sk, sd) # es2" by (simp add: e)
  show thesis by (rule leaves_rewritten [OF h m(2,3) m4 m(5,6) es ne]) (use m(1) that in \<open>simp add: e\<close>)
qed

lemma borrow_right_ok:
  assumes h: "holds s (plug_ctx (Frame q ld ((k, TLeaf r (e # e2 # es2)) # rs) # fs) (TLeaf l es1))"
    and fits: "HEADER_SIZE + entries_len es1 + (12 + length (snd e)) \<le> page_size"
  obtains s' where "redistribute_from_sibling P l r q k False s = (Inr (), s')"
    and "holds s' (plug_ctx (Frame q ld ([(fst e2, TLeaf r (e2 # es2))] @ rs) # fs) (TLeaf l (es1 @ [e])))"
    and "shrunk s (plug_ctx (Frame q ld ((k, TLeaf r (e # e2 # es2)) # rs) # fs) (TLeaf l es1)) s'
      (plug_ctx (Frame q ld ([(fst e2, TLeaf r (e2 # es2))] @ rs) # fs) (TLeaf l (es1 @ [e])))"
proof -
  obtain sk sd where e: "e = (sk, sd)" by (cases e)
  obtain nk nd where e2: "e2 = (nk, nd)" by (cases e2)
  obtain l: "tree_at (view s) q (TLeaf l es1)" and r: "tree_at (view s) q (TLeaf r (e # e2 # es2))"
    and ok: "ids_ok (ctx_ids fs @ q # lead_ids ld @ l # r # sub_ids rs)"
    by (rule pair_facts [OF h]) simp_all
  from l r obtain pl pr where pl: "view s l = Some pl" "leaf_page pl q es1" and pr: "view s r = Some pr" "leaf_page pr q (e # e2 # es2)" by auto
  have inv: "inv s" "r \<noteq> l" using h ok by (auto simp: holds_def ids_ok_def)
  have lent: "lent_entry False \<lparr>node_type = Leaf, num_keys = length (e # e2 # es2), parent = q\<rparr> pr = Inr (HEADER_SIZE + entries_len [], sk, length sd, sd)"
    using lent_entry_first(1) [OF pr(2)] by (simp add: e)
  have fits': "HEADER_SIZE + entries_len es1 + (12 + length sd) \<le> page_size" using fits by (simp add: e)
  obtain s1 pr' pl' where m: "redistribute_from_sibling P l r q k False s = update_parent_key P q k nk s1" "steps {r, l} 0 s s1"
    "view s1 r = Some pr'" "leaf_page pr' q ([] @ e2 # es2)" "view s1 l = Some pl'" "leaf_page pl' q (es1 @ [(sk, sd)])"
    by (rule move_entry_ok [OF inv(1) pr pl inv(2) _ lent _ fits', where ys = "e2 # es2" and ex' = "es1 @ [(sk, sd)]" and q = q and k = k])
      (simp_all add: e e2)
  have m2: "steps {l, r} 0 s s1" "leaf_page pr' q (e2 # es2)" using m(2,4) by (simp_all add: insert_commute)
  have es: "es1 @ e # e2 # es2 = (es1 @ [(sk, sd)]) @ e2 # es2" "es1 @ [(sk, sd)] \<noteq> []" by (simp_all add: e)
  show thesis by (rule leaves_rewritten [OF h m2(1) m(5,6,3) m2(2) es]) (use m(1) that in \<open>simp add: e e2\<close>)
qed

section \<open>Merging\<close>

text \<open>Behind a merge the left node holds everything, and the page of the parent still names the right one, \<open>r\<close>.\<close>

definition merged :: "'s \<Rightarrow> nat \<Rightarrow> (tree \<times> (i64 \<times> tree) list \<times> i64) option \<Rightarrow> i64 \<Rightarrow> nat \<Rightarrow> (i64 \<times> tree) list \<Rightarrow> frame list \<Rightarrow> tree \<Rightarrow> bool" where
  "merged s q ld k r rs fs L \<longleftrightarrow> inv s \<and> view s 0 \<noteq> None
     \<and> (\<exists>pg. view s q = Some pg
          \<and> node_page pg (par_of fs) (lead_root ld (root_id L)) (lead_child_ids ld (root_id L) @ (k, r) # child_ids rs))
     \<and> lead_at (view s) q ld \<and> (\<forall>(k, u)\<in>set rs. tree_at (view s) q u) \<and> tree_at (view s) q L \<and> ctx_at (view s) q fs
     \<and> ids_ok (ids (plug_ctx (Frame q ld rs # fs) L)) \<and> r \<notin> set (ids (plug_ctx (Frame q ld rs # fs) L))
     \<and> ordered (blocks (plug_ctx (Frame q ld rs # fs) L))"

lemma mergedI:
  assumes h: "holds s (plug_ctx (Frame q ld ((k, R) # rs) # fs) L)" and st: "steps S 0 s s'" and S: "S \<subseteq> set (ids L @ ids R)"
    and L': "tree_at (view s') q L'" "root_id L' = root_id L" and ids: "distinct (ids L')" "set (ids L') \<subseteq> set (ids L @ ids R) - {root_id R}"
    and ord: "ordered (ctx_left fs @ lead_left ld @ blocks L' @ sub_blocks rs @ ctx_right fs)"
  shows "merged s' q ld k (root_id R) rs fs L'"
    and "shrunk s (plug_ctx (Frame q ld ((k, R) # rs) # fs) L) s' (plug_ctx (Frame q ld rs # fs) L')"
proof -
  let ?t = "plug_ctx (Frame q ld ((k, R) # rs) # fs) L" and ?t' = "plug_ctx (Frame q ld rs # fs) L'"
  obtain pg where pg: "view s q = Some pg"
      "node_page pg (par_of fs) (lead_root ld (root_id L)) (lead_child_ids ld (root_id L) @ (k, root_id R) # child_ids rs)"
    and ok: "ids_ok (ctx_ids fs @ q # lead_ids ld @ ids L @ ids R @ sub_ids rs)"
    and old: "lead_at (view s) q ld" "\<forall>(k, u)\<in>set rs. tree_at (view s) q u" "ctx_at (view s) q fs"
    by (rule pair_facts [OF h])
  have apart: "i \<notin> S" if "i \<in> set (q # lead_ids ld @ sub_ids rs @ ctx_ids fs)" for i
    using ok S that by (auto simp: ids_ok_def)
  have same: "view s' i = view s i" if "i \<in> set (q # lead_ids ld @ sub_ids rs @ ctx_ids fs)" for i
    by (rule steps_view [OF st apart [OF that]])
  have kept: "lead_at (view s') q ld" "\<forall>(k, u)\<in>set rs. tree_at (view s') q u" "ctx_at (view s') q fs" "view s' q = Some pg"
    using old pg(1) same lead_at_cong [of ld "view s'" "view s" q] sub_at_cong [of rs "view s'" "view s" q] ctx_at_cong [of fs "view s'" "view s" q]
    by simp_all
  have m': "mset (ids ?t') = mset (ids L' @ ctx_ids fs @ q # lead_ids ld @ sub_ids rs)" unfolding mset_ids_plug_ctx by simp
  note e' = mset_eq_imp_distinct_iff [OF m'] mset_eq_setD [OF m']
  have m: "mset (ids ?t) = mset ((ids L @ ids R) @ ctx_ids fs @ q # lead_ids ld @ sub_ids rs)" unfolding mset_ids_plug_ctx by simp
  note e = mset_eq_imp_distinct_iff [OF m] mset_eq_setD [OF m]
  have okt: "ids_ok (ids ?t)" "view s 0 \<noteq> None" using h by (simp_all add: holds_def)
  have sub: "set (ids ?t') \<subseteq> set (ids ?t)" unfolding e'(2) e(2) using ids(2) by auto
  have d: "distinct ((ids L @ ids R) @ ctx_ids fs @ q # lead_ids ld @ sub_ids rs)" using okt(1) unfolding ids_ok_def e(1) by blast
  then have "distinct (ids ?t')" unfolding e'(1) by (rule distinct_less) (use ids in auto)
  with sub okt(1) have 1: "ids_ok (ids ?t')" by (auto simp: ids_ok_def)
  have "set (ids R) \<inter> set (ctx_ids fs @ q # lead_ids ld @ sub_ids rs) = {}" using d by auto
  then have "root_id R \<notin> set (ctx_ids fs @ q # lead_ids ld @ sub_ids rs)" using root_id_in_ids [of R] by blast
  then have 2: "root_id R \<notin> set (ids ?t')" unfolding e'(2) using ids(2) by auto
  have 3: "ordered (blocks ?t')" using ord unfolding blocks_plug_ctx by simp
  show "merged s' q ld k (root_id R) rs fs L'"
    unfolding merged_def using kept pg(2) L' 1 2 3 steps_inv [OF st] steps_alive [OF st okt(2)] by (simp only: simp_thms) blast
  have "S \<subseteq> set (ids ?t)" unfolding e(2) using S by auto
  then show "shrunk s ?t s' ?t'" using steps_mono [OF st] sub by (simp add: shrunk_def)
qed

lemma merge_leaves_ok:
  assumes h: "holds s (plug_ctx (Frame q ld ((k, TLeaf r es2) # rs) # fs) (TLeaf l es1))"
    and fits: "HEADER_SIZE + entries_len (es1 @ es2) \<le> page_size" and pid: "(pid, sid) = (if left then (r, l) else (l, r))"
  obtains s' where "merge_leaves P fuel pid sid q root left s = remove_child_from_parent P fuel q r root s'"
    and "merged s' q ld k r rs fs (TLeaf l (es1 @ es2))"
    and "shrunk s (plug_ctx (Frame q ld ((k, TLeaf r es2) # rs) # fs) (TLeaf l es1)) s' (plug_ctx (Frame q ld rs # fs) (TLeaf l (es1 @ es2)))"
proof -
  obtain l: "tree_at (view s) q (TLeaf l es1)" and r: "tree_at (view s) q (TLeaf r es2)"
    and ok: "ids_ok (ctx_ids fs @ q # lead_ids ld @ l # r # sub_ids rs)"
    and ord: "ordered (ctx_left fs @ lead_left ld @ Blk l es1 # Sep k # Blk r es2 # sub_blocks rs @ ctx_right fs)"
    by (rule pair_facts [OF h]) simp_all
  from l r obtain pl pr where pl: "view s l = Some pl" "leaf_page pl q es1" and pr: "view s r = Some pr" "leaf_page pr q es2" by auto
  have inv: "inv s" "l \<noteq> r" using h ok by (auto simp: holds_def ids_ok_def)
  obtain s1 where rd1: "read_node P r s = (Inr (\<lparr>node_type = Leaf, num_keys = length es2, parent = q\<rparr>, pr), s1)" and s1: "keeps s s1"
    by (rule read_node_ok [OF inv(1) pr(1) leaf_page_header [OF pr(2)]])
  have "view s1 l = Some pl" using pl(1) s1 by (simp add: keeps_def)
  then obtain s2 where rd2: "read_node P l s1 = (Inr (\<lparr>node_type = Leaf, num_keys = length es1, parent = q\<rparr>, pl), s2)" and s2: "keeps s1 s2"
    by (rule read_node_ok [OF keeps_fields(1) [OF s1] _ leaf_page_header [OF pl(2)]])
  obtain pl' where pl': "rbind (append_entries es2 \<lparr>node_type = Leaf, num_keys = length es1, parent = q\<rparr> pl) (\<lambda>(h, page). serialize_header h page) = Inr pl'"
    "leaf_page pl' q (es1 @ es2)"
    by (rule merge_fits [OF pl(2) leaf_page_entries_ok [OF pr(2)] fits])
  have "view s2 l \<noteq> None" "length pl' = page_size" using \<open>view s1 l = Some pl\<close> s2 pl'(2) by (simp_all add: keeps_def leaf_page_def)
  then obtain s3 where w: "po_write P l pl' s2 = (Inr (), s3)" "steps {l} 0 s2 s3" "view s3 = (view s2)(l \<mapsto> pl')"
    by (rule write_steps [OF keeps_fields(1) [OF s2]])
  have st: "steps {l} 0 s s3"
    using steps_trans [OF steps_trans [OF keeps_steps [OF s1, of "{}" 0] keeps_steps [OF s2, of "{}" 0]] w(2)] by simp
  have o2: "ordered (ctx_left fs @ lead_left ld @ Blk l (es1 @ es2) # sub_blocks rs @ ctx_right fs)"
    using ordered_merge [of "ctx_left fs @ lead_left ld"] ord by simp
  have e: "(if left then (sid, pid) else (pid, sid)) = (l, r)" using pid by (cases left) simp_all
  have prog: "merge_leaves P fuel pid sid q root left s = remove_child_from_parent P fuel q r root s3"
    unfolding merge_leaves_def e using rd1 leaf_page_read(1) [OF pr(2)] rd2 pl'(1) w(1) by (simp add: mbind_def)
  have "merged s3 q ld k (root_id (TLeaf r es2)) rs fs (TLeaf l (es1 @ es2))"
    "shrunk s (plug_ctx (Frame q ld ((k, TLeaf r es2) # rs) # fs) (TLeaf l es1)) s3 (plug_ctx (Frame q ld rs # fs) (TLeaf l (es1 @ es2)))"
    by (rule mergedI [OF h st]; use w(3) pl'(2) inv(2) o2 in simp)+
  with prog show thesis by (intro that) simp_all
qed

lemma frame_keys_ids: "length (lead_child_ids ld l @ child_ids rs) = frame_keys (Frame q ld rs)"
  by (cases "(ld, l)" rule: lead_root.cases) simp_all

text \<open>The parent loses the child; when it is left with too few keys, it underflows in turn.\<close>

lemma remove_child_step:
  assumes m: "merged s q ld k r rs fs L" and root: "q = root \<Longrightarrow> 0 < frame_keys (Frame q ld rs)"
  obtains s' where "remove_child_from_parent P (Suc fuel) q r root s =
      (if q \<noteq> root \<and> frame_keys (Frame q ld rs) < MIN_KEYS then handle_internal_underflow P fuel q root s' else (Inr None, s'))"
    and "holds s' (plug_ctx (Frame q ld rs # fs) L)" and "steps {q} 0 s s'"
proof -
  let ?f = "Frame q ld rs" and ?l = "root_id L" and ?ps = "lead_child_ids ld (root_id L)"
  let ?t = "plug_ctx (Frame q ld rs # fs) L"
  from m obtain pg where inv: "inv s" and z: "view s 0 \<noteq> None" and pg: "view s q = Some pg"
      "node_page pg (par_of fs) (lead_root ld ?l) (?ps @ (k, r) # child_ids rs)"
    and at: "lead_at (view s) q ld" "\<forall>(k, u)\<in>set rs. tree_at (view s) q u" "tree_at (view s) q L" "ctx_at (view s) q fs"
    and ok: "ids_ok (ids ?t)" and r: "r \<notin> set (ids ?t)" and ord: "ordered (blocks ?t)"
    unfolding merged_def by blast
  have mset: "mset (ids ?t) = mset (ctx_ids fs @ q # lead_ids ld @ ids L @ sub_ids rs)" unfolding mset_ids_plug_ctx by simp
  have d: "distinct (ctx_ids fs @ q # lead_ids ld @ ids L @ sub_ids rs)" using ok unfolding ids_ok_def mset_eq_imp_distinct_iff [OF mset] by blast
  have "set (lead_root ld ?l # map snd ?ps) \<subseteq> set (lead_ids ld @ ids L)" by (rule lead_roots)
  then have new: "r \<notin> set (lead_root ld ?l # map snd ?ps)" using r unfolding mset_eq_setD [OF mset] by auto
  obtain pg' where close: "child_pair (length (?ps @ (k, r) # child_ids rs)) (HEADER_SIZE + 8) pg r = Inr (Some (HEADER_SIZE + 8 + 16 * length ?ps))"
    "close_up \<lparr>node_type = Internal, num_keys = length (?ps @ (k, r) # child_ids rs), parent = par_of fs\<rparr> (HEADER_SIZE + 8 + 16 * length ?ps) pg =
      Inr (\<lparr>node_type = Internal, num_keys = length (?ps @ child_ids rs), parent = par_of fs\<rparr>, pg')"
    "node_page pg' (par_of fs) (lead_root ld ?l) (?ps @ child_ids rs)"
    by (rule node_page_close_up [OF pg(2) refl new])
  obtain s1 where rd: "read_node P q s = (Inr (\<lparr>node_type = Internal, num_keys = length (?ps @ (k, r) # child_ids rs), parent = par_of fs\<rparr>, pg), s1)"
    and s1: "keeps s s1"
    by (rule read_node_ok [OF inv pg(1) node_page_header [OF pg(2)]])
  have "view s1 q \<noteq> None" "length pg' = page_size" using pg(1) s1 close(3) by (simp_all add: keeps_def node_page_def)
  then obtain s2 where w: "po_write P q pg' s1 = (Inr (), s2)" "steps {q} 0 s1 s2" "view s2 = (view s1)(q \<mapsto> pg')"
    by (rule write_steps [OF keeps_fields(1) [OF s1]])
  have st: "steps {q} 0 s s2" using steps_trans [OF keeps_steps [OF s1, of "{}" 0] w(2)] by simp
  have same: "view s2 i = view s i" if "i \<in> set (ctx_ids fs @ lead_ids ld @ ids L @ sub_ids rs)" for i
    by (rule steps_view [OF st]) (use d that in auto)
  have "lead_at (view s2) q ld" "\<forall>(k, u)\<in>set rs. tree_at (view s2) q u" "tree_at (view s2) q L" "ctx_at (view s2) q fs"
    using at same lead_at_cong [of ld "view s2" "view s" q] sub_at_cong [of rs "view s2" "view s" q] tree_at_cong [of L "view s2" "view s" q]
      ctx_at_cong [of fs "view s2" "view s" q] by simp_all
  with close(3) have "tree_at (view s2) 0 ?t" unfolding tree_at_plug_ctx by (auto simp: w(3))
  then have "holds s2 ?t" using ok ord steps_inv [OF st] steps_alive [OF st z] by (simp add: holds_def)
  moreover have "remove_child_from_parent P (Suc fuel) q r root s =
      (if q \<noteq> root \<and> frame_keys ?f < MIN_KEYS then handle_internal_underflow P fuel q root s2 else (Inr None, s2))"
  proof -
    have "read_u64 HEADER_SIZE pg = Inr (lead_root ld ?l)" "lead_root ld ?l \<noteq> r" using node_page_read(1) [OF pg(2)] new by auto
    moreover define n m where "n = length (?ps @ (k, r) # child_ids rs)" and "m = frame_keys ?f"
    moreover have "length (?ps @ child_ids rs) = m" unfolding m_def by (rule frame_keys_ids)
    ultimately show ?thesis
      using rd close(1,2) w(1) root unfolding n_def [symmetric] m_def [symmetric] by (auto simp: mbind_def)
  qed
  ultimately show thesis using st by (intro that)
qed

end

end
