(* ===== verification/BTreeUnderflow.thy ===== *)
theory BTreeUnderflow
  imports BTreeShrink
begin

text \<open>
  Underflow of internal nodes: borrowing a child from a sibling, merging with it, and the climb of merges towards
  the root.
\<close>

lemma child_ids_map: "map fst (child_ids kts) = map fst kts" "map snd (child_ids kts) = map root_id (map snd kts)"
  by (simp_all add: child_ids_def comp_def split_def)

lemma pairs_ok_children: "ids_ok is \<Longrightarrow> set (sub_ids kts) \<subseteq> set is \<Longrightarrow> pairs_ok (child_ids kts)"
proof -
  assume ok: "ids_ok is" and sub: "set (sub_ids kts) \<subseteq> set is"
  have "root_id u < 2 ^ 64" if "(k, u) \<in> set kts" for k u
    by (rule ids_ok_root(3) [OF ok]) (use set_sub_ids [OF that] sub in blast)
  then show "pairs_ok (child_ids kts)" by (auto simp: pairs_ok_def child_ids_def)
qed

lemma distinct_concat_rev: "distinct (concat (map ids (rev ts))) \<longleftrightarrow> distinct (concat (map ids ts))"
proof -
  have "mset (concat (map ids (rev ts))) = mset (concat (map ids ts))" by (induction ts) (simp_all add: add.commute)
  then show ?thesis by (rule mset_eq_imp_distinct_iff)
qed

fun node_count :: "tree \<Rightarrow> nat" where
  "node_count (TLeaf p es) = length es"
| "node_count (TNode p t kts) = length kts"

lemma root_header:
  assumes "tree_at v par t"
  obtains page h where "v (root_id t) = Some page" and "deserialize_header page = Inr h" and "parent h = par" and "num_keys h = node_count t"
proof (cases t)
  case (TLeaf p es)
  with assms obtain page where "v p = Some page" "leaf_page page par es" by auto
  with TLeaf that leaf_page_header [of page par es] show thesis by simp
next
  case (TNode p u kts)
  with assms obtain page where "v p = Some page" "node_page page par (root_id u) (child_ids kts)" by auto
  with TNode that node_page_header [of page par "root_id u" "child_ids kts"] show thesis by simp
qed

context page_io
begin

section \<open>Reading and writing internal nodes\<close>

lemma read_internal_ok:
  assumes "inv s" and "view s p = Some pg" and "node_page pg par c ps"
  obtains s' where "read_internal P p s = (Inr (\<lparr>node_type = Internal, num_keys = length ps, parent = par\<rparr>, map fst ps, c # map snd ps), s')"
    and "keeps s s'"
proof -
  obtain s' where "read_node P p s = (Inr (\<lparr>node_type = Internal, num_keys = length ps, parent = par\<rparr>, pg), s')" "keeps s s'"
    by (rule read_node_ok [OF assms(1,2) node_page_header [OF assms(3)]])
  with node_page_read(3) [OF assms(3)] show thesis by (intro that [of s']) (simp_all add: read_internal_def mbind_def)
qed

lemma write_internal_ok:
  assumes "inv s" and "view s p \<noteq> None" and "HEADER_SIZE + 8 + 16 * length ps \<le> page_size" and "par < 2 ^ 32" and "c < 2 ^ 64" and "pairs_ok ps"
  obtains s' pg where "write_internal P p \<lparr>node_type = Internal, num_keys = n, parent = par\<rparr> (map fst ps) (c # map snd ps) s = (Inr (), s')"
    and "steps {p} 0 s s'" and "view s' = (view s)(p \<mapsto> pg)" and "node_page pg par c ps"
proof -
  obtain pg where pg: "rbind (serialize_header \<lparr>node_type = Internal, num_keys = length ps, parent = par\<rparr> (replicate page_size 0))
      (write_internal_body (map fst ps) (c # map snd ps)) = Inr pg" "node_page pg par c ps"
    by (rule fresh_node [OF refl assms(3-6) refl refl])
  have "length pg = page_size" using pg(2) by (simp add: node_page_def)
  then obtain s' where "po_write P p pg s = (Inr (), s')" "steps {p} 0 s s'" "view s' = (view s)(p \<mapsto> pg)"
    by (rule write_steps [OF assms(1,2)])
  with pg show thesis by (intro that [of s' pg]) (simp_all add: write_internal_def mbind_def blank_page_def)
qed

section \<open>Borrowing a child\<close>

lemma rotate_ok:
  assumes inv: "inv s" and sp: "view s sid = Some sp" "node_page sp q sc sps" and pp: "view s pid = Some pp" "node_page pp q pc pps"
    and rot: "rotate_internal left k (map fst sps) (sc # map snd sps) (map fst pps) (pc # map snd pps) =
      Inr (map fst ps1, c1 # map snd ps1, map fst ps2, c2 # map snd ps2, m, root_id w)"
    and n1: "HEADER_SIZE + 8 + 16 * length ps1 \<le> page_size" "c1 < 2 ^ 64" "pairs_ok ps1"
    and n2: "HEADER_SIZE + 8 + 16 * length ps2 \<le> page_size" "c2 < 2 ^ 64" "pairs_ok ps2"
    and w: "tree_at (view s) sid w" "distinct (ids w)" "sid \<notin> set (ids w)" "pid \<notin> set (ids w)" and ne: "sid \<noteq> pid" "pid < 2 ^ 32"
  obtains s' sp' pp' where "redistribute_internal P pid sid q k left s = update_parent_key P q k m s'"
    and "steps {sid, pid, root_id w} 0 s s'" and "view s' sid = Some sp'" and "node_page sp' q c1 ps1"
    and "view s' pid = Some pp'" and "node_page pp' q c2 ps2" and "tree_at (view s') pid w"
proof -
  have q: "q < 2 ^ 32" using sp(2) by (simp add: node_page_def)
  obtain s1 where rd1: "read_internal P sid s = (Inr (\<lparr>node_type = Internal, num_keys = length sps, parent = q\<rparr>, map fst sps, sc # map snd sps), s1)"
    and s1: "keeps s s1" by (rule read_internal_ok [OF inv sp])
  have "view s1 pid = Some pp" using pp(1) s1 by (simp add: keeps_def)
  then obtain s2 where rd2: "read_internal P pid s1 = (Inr (\<lparr>node_type = Internal, num_keys = length pps, parent = q\<rparr>, map fst pps, pc # map snd pps), s2)"
    and s2: "keeps s1 s2" by (rule read_internal_ok [OF keeps_fields(1) [OF s1] _ pp(2)])
  have v2: "view s2 = view s" using s1 s2 by (simp add: keeps_def)
  then have "view s2 sid \<noteq> None" using sp(1) by simp
  then obtain s3 sp' where w3: "write_internal P sid \<lparr>node_type = Internal, num_keys = length sps, parent = q\<rparr> (map fst ps1) (c1 # map snd ps1) s2 = (Inr (), s3)"
    "steps {sid} 0 s2 s3" "view s3 = (view s2)(sid \<mapsto> sp')" "node_page sp' q c1 ps1"
    by (rule write_internal_ok [OF keeps_fields(1) [OF s2] _ n1(1) q n1(2,3)])
  have "view s3 pid \<noteq> None" using pp(1) v2 by (simp add: w3(3))
  then obtain s4 pp' where w4: "write_internal P pid \<lparr>node_type = Internal, num_keys = length pps, parent = q\<rparr> (map fst ps2) (c2 # map snd ps2) s3 = (Inr (), s4)"
    "steps {pid} 0 s3 s4" "view s4 = (view s3)(pid \<mapsto> pp')" "node_page pp' q c2 ps2"
    by (rule write_internal_ok [OF steps_inv [OF w3(2)] _ n2(1) q n2(2,3)])
  have st4: "steps {sid, pid} 0 s s4"
    using steps_trans [OF steps_trans [OF steps_trans [OF keeps_steps [OF s1, of "{}" 0] keeps_steps [OF s2, of "{}" 0]] w3(2)] w4(2)]
    by (rule steps_mono) auto
  have "tree_at (view s4) sid w" using w(1) steps_tree_at [OF st4, of w sid] w(3,4) by simp
  then obtain s5 where s5: "set_parent_pointer P (root_id w) pid s4 = (Inr (), s5)" "steps {root_id w} 0 s4 s5" "tree_at (view s5) pid w"
    by (rule set_parent_ok [OF steps_inv [OF st4] _ w(2) ne(2)])
  have "root_id w \<noteq> sid" "root_id w \<noteq> pid" using w(3,4) root_id_in_ids [of w] by auto
  then have v5: "view s5 sid = Some sp'" "view s5 pid = Some pp'"
    using steps_view [OF s5(2), of sid] steps_view [OF s5(2), of pid] ne(1) by (simp_all add: w4(3) w3(3))
  have "steps {sid, pid, root_id w} 0 s s5" using steps_trans [OF st4 s5(2)] by (rule steps_mono) auto
  moreover have "redistribute_internal P pid sid q k left s = update_parent_key P q k m s5"
    using rd1 rd2 rot w3(1) w4(1) s5(1) ne(2) by (simp add: redistribute_internal_def mbind_def as_u32_def)
  ultimately show thesis using v5 w3(4) w4(4) s5(3) by (intro that)
qed

lemma node_facts:
  assumes "tree_at v q (TNode p t kts)"
  obtains pg where "v p = Some pg" and "node_page pg q (root_id t) (child_ids kts)" and "tree_at v p t" and "\<forall>(k, u)\<in>set kts. tree_at v p u"
    and "HEADER_SIZE + 8 + 16 * length kts \<le> page_size"
proof -
  from assms obtain pg where pg: "v p = Some pg" "node_page pg q (root_id t) (child_ids kts)" and at: "tree_at v p t" "\<forall>(k, u)\<in>set kts. tree_at v p u"
    by auto
  have "HEADER_SIZE + 8 + 16 * length kts \<le> page_size" using node_page_bounds(1) [OF pg(2)] by simp
  then show thesis by (rule that [OF pg at])
qed

lemma node_pages: "MIN_KEYS = 32" "HEADER_SIZE = 8" "page_size = 4096"
  by (simp_all add: MIN_KEYS_def BTREE_ORDER_def HEADER_SIZE_def page_size_def)

lemma borrow_child_left:
  assumes h: "holds s (plug_ctx (Frame q ld ((k, TNode r b bs) # rs) # fs) (TNode l a (as @ [(m, u)])))" and bs: "length bs < MIN_KEYS"
  obtains s' where "redistribute_internal P r l q k True s = (Inr (), s')"
    and "holds s' (plug_ctx (Frame q ld ([(m, TNode r u ((k, b) # bs))] @ rs) # fs) (TNode l a as))"
    and "shrunk s (plug_ctx (Frame q ld ((k, TNode r b bs) # rs) # fs) (TNode l a (as @ [(m, u)]))) s'
      (plug_ctx (Frame q ld ([(m, TNode r u ((k, b) # bs))] @ rs) # fs) (TNode l a as))"
proof -
  let ?L = "TNode l a (as @ [(m, u)])" and ?R = "TNode r b bs" and ?L' = "TNode l a as" and ?R' = "TNode r u ((k, b) # bs)"
  obtain L: "tree_at (view s) q ?L" and R: "tree_at (view s) q ?R"
    and ok: "ids_ok (ctx_ids fs @ q # lead_ids ld @ ids ?L @ ids ?R @ sub_ids rs)"
    and ord: "ordered (ctx_left fs @ lead_left ld @ blocks ?L @ Sep k # blocks ?R @ sub_blocks rs @ ctx_right fs)"
    by (rule pair_facts [OF h])
  obtain pl where pl: "view s l = Some pl" "node_page pl q (root_id a) (child_ids (as @ [(m, u)]))"
    and a: "tree_at (view s) l a" "\<forall>(k, u)\<in>set (as @ [(m, u)]). tree_at (view s) l u" "HEADER_SIZE + 8 + 16 * length (as @ [(m, u)]) \<le> page_size"
    by (rule node_facts [OF L])
  obtain pr where pr: "view s r = Some pr" "node_page pr q (root_id b) (child_ids bs)"
    and b: "tree_at (view s) r b" "\<forall>(k, u)\<in>set bs. tree_at (view s) r u"
    by (rule node_facts [OF R])
  have d: "distinct (l # ids a @ sub_ids as @ ids u @ r # ids b @ sub_ids bs)" and r32: "r < 2 ^ 32"
    using ok by (simp_all add: ids_ok_def Int_Un_distrib)
  have inv: "inv s" using h by (simp add: holds_def)
  note small = ids_ok_root(3) [OF ok] and pok = pairs_ok_children [OF ok]
  have rot: "rotate_internal True k (map fst (child_ids (as @ [(m, u)]))) (root_id a # map snd (child_ids (as @ [(m, u)])))
      (map fst (child_ids bs)) (root_id b # map snd (child_ids bs)) =
    Inr (map fst (child_ids as), root_id a # map snd (child_ids as), map fst ((k, root_id b) # child_ids bs),
      root_id u # map snd ((k, root_id b) # child_ids bs), m, root_id u)"
    by (simp add: rotate_internal_def)
  obtain s1 pl' pr' where m: "redistribute_internal P r l q k True s = update_parent_key P q k m s1"
    "steps {l, r, root_id u} 0 s s1" "view s1 l = Some pl'" "node_page pl' q (root_id a) (child_ids as)"
    "view s1 r = Some pr'" "node_page pr' q (root_id u) ((k, root_id b) # child_ids bs)" "tree_at (view s1) r u"
  proof (rule rotate_ok [OF inv pl pr rot])
    show "HEADER_SIZE + 8 + 16 * length (child_ids as) \<le> page_size" using a(3) by simp
    show "HEADER_SIZE + 8 + 16 * length ((k, root_id b) # child_ids bs) \<le> page_size" using bs by (simp add: node_pages)
    show "root_id a < 2 ^ 64" by (rule small) auto
    show "root_id u < 2 ^ 64" by (rule small) auto
    have "root_id b < 2 ^ 64" by (rule small) auto
    moreover have "pairs_ok (child_ids bs)" by (rule pok) auto
    ultimately show "pairs_ok ((k, root_id b) # child_ids bs)" by simp
    show "pairs_ok (child_ids as)" by (rule pok) auto
    show "tree_at (view s) l u" using a(2) by simp
  qed (use d r32 in auto)
  have u: "root_id u \<in> set (ids u)" by (rule root_id_in_ids)
  let ?S = "{l, r, root_id u}"
  have dj: "set (ids a) \<inter> ?S = {}" "set (sub_ids as) \<inter> ?S = {}" "set (ids b) \<inter> ?S = {}" "set (sub_ids bs) \<inter> ?S = {}"
    using d u by (auto simp del: root_id_in_ids)
  have sub: "\<forall>(k, w)\<in>set kts. tree_at (view s1) p w" if "\<forall>(k, w)\<in>set kts. tree_at (view s) p w" "set (sub_ids kts) \<inter> ?S = {}" for kts p
    using that sub_at_cong [of kts "view s1" "view s" p] steps_view [OF m(2)] by (metis disjoint_iff)
  have "\<forall>(k, w)\<in>set as. tree_at (view s1) l w" using a(2) by (intro sub [OF _ dj(2)]) simp
  then have L': "tree_at (view s1) q ?L'" using m(3,4) a(1) steps_tree_at [OF m(2) dj(1), of l] by simp
  have "\<forall>(k, w)\<in>set bs. tree_at (view s1) r w" by (rule sub [OF b(2) dj(4)])
  then have R': "tree_at (view s1) q ?R'" using m(5,6,7) b(1) steps_tree_at [OF m(2) dj(3), of r] by simp
  have 1: "?S \<subseteq> set (ids ?L @ ids ?R)" using u by (auto simp del: root_id_in_ids)
  have 2: "distinct (ids ?L' @ ids ?R')" "set (ids ?L' @ ids ?R') \<subseteq> set (ids ?L @ ids ?R)" using d by auto
  have o2: "ordered (ctx_left fs @ lead_left ld @ blocks ?L' @ Sep m # blocks ?R' @ sub_blocks rs @ ctx_right fs)" using ord by simp
  have roots: "root_id ?L' = root_id ?L" "root_id ?R' = root_id ?R" by simp_all
  obtain s' where "update_parent_key P q k m s1 = (Inr (), s')" "holds s' (plug_ctx (Frame q ld ([(m, ?R')] @ rs) # fs) ?L')"
    "shrunk s (plug_ctx (Frame q ld ((k, ?R) # rs) # fs) ?L) s' (plug_ctx (Frame q ld ([(m, ?R')] @ rs) # fs) ?L')"
    by (rule pair_rewritten [OF h m(2) 1 L' R' roots 2 o2])
  with m(1) show thesis by (intro that) simp_all
qed

lemma borrow_child_right:
  assumes h: "holds s (plug_ctx (Frame q ld ((k, TNode r b ((m, u) # bs)) # rs) # fs) (TNode l a as))" and as: "length as < MIN_KEYS"
  obtains s' where "redistribute_internal P l r q k False s = (Inr (), s')"
    and "holds s' (plug_ctx (Frame q ld ([(m, TNode r u bs)] @ rs) # fs) (TNode l a (as @ [(k, b)])))"
    and "shrunk s (plug_ctx (Frame q ld ((k, TNode r b ((m, u) # bs)) # rs) # fs) (TNode l a as)) s'
      (plug_ctx (Frame q ld ([(m, TNode r u bs)] @ rs) # fs) (TNode l a (as @ [(k, b)])))"
proof -
  let ?L = "TNode l a as" and ?R = "TNode r b ((m, u) # bs)" and ?L' = "TNode l a (as @ [(k, b)])" and ?R' = "TNode r u bs"
  obtain L: "tree_at (view s) q ?L" and R: "tree_at (view s) q ?R"
    and ok: "ids_ok (ctx_ids fs @ q # lead_ids ld @ ids ?L @ ids ?R @ sub_ids rs)"
    and ord: "ordered (ctx_left fs @ lead_left ld @ blocks ?L @ Sep k # blocks ?R @ sub_blocks rs @ ctx_right fs)"
    by (rule pair_facts [OF h])
  obtain pl where pl: "view s l = Some pl" "node_page pl q (root_id a) (child_ids as)"
    and a: "tree_at (view s) l a" "\<forall>(k, u)\<in>set as. tree_at (view s) l u"
    by (rule node_facts [OF L])
  obtain pr where pr: "view s r = Some pr" "node_page pr q (root_id b) (child_ids ((m, u) # bs))"
    and b: "tree_at (view s) r b" "\<forall>(k, u)\<in>set ((m, u) # bs). tree_at (view s) r u" "HEADER_SIZE + 8 + 16 * length ((m, u) # bs) \<le> page_size"
    by (rule node_facts [OF R])
  have d: "distinct (l # ids a @ sub_ids as @ r # ids b @ ids u @ sub_ids bs)" and l32: "l < 2 ^ 32"
    using ok by (simp_all add: ids_ok_def Int_Un_distrib)
  have inv: "inv s" using h by (simp add: holds_def)
  note small = ids_ok_root(3) [OF ok] and pok = pairs_ok_children [OF ok]
  have rot: "rotate_internal False k (map fst (child_ids ((m, u) # bs))) (root_id b # map snd (child_ids ((m, u) # bs)))
      (map fst (child_ids as)) (root_id a # map snd (child_ids as)) =
    Inr (map fst (child_ids bs), root_id u # map snd (child_ids bs), map fst (child_ids as @ [(k, root_id b)]),
      root_id a # map snd (child_ids as @ [(k, root_id b)]), m, root_id b)"
    by (simp add: rotate_internal_def)
  obtain s1 pr' pl' where m: "redistribute_internal P l r q k False s = update_parent_key P q k m s1"
    "steps {r, l, root_id b} 0 s s1" "view s1 r = Some pr'" "node_page pr' q (root_id u) (child_ids bs)"
    "view s1 l = Some pl'" "node_page pl' q (root_id a) (child_ids as @ [(k, root_id b)])" "tree_at (view s1) l b"
  proof (rule rotate_ok [OF inv pr pl rot])
    show "HEADER_SIZE + 8 + 16 * length (child_ids bs) \<le> page_size" using b(3) by simp
    show "HEADER_SIZE + 8 + 16 * length (child_ids as @ [(k, root_id b)]) \<le> page_size" using as by (simp add: node_pages)
    show "root_id a < 2 ^ 64" by (rule small) auto
    show "root_id u < 2 ^ 64" by (rule small) auto
    have "root_id b < 2 ^ 64" by (rule small) auto
    moreover have "pairs_ok (child_ids as)" by (rule pok) auto
    ultimately show "pairs_ok (child_ids as @ [(k, root_id b)])" by simp
    show "pairs_ok (child_ids bs)" by (rule pok) auto
  qed (use d l32 b(1) in auto)
  have u: "root_id b \<in> set (ids b)" by (rule root_id_in_ids)
  let ?S = "{r, l, root_id b}"
  have dj: "set (ids a) \<inter> ?S = {}" "set (sub_ids as) \<inter> ?S = {}" "set (ids u) \<inter> ?S = {}" "set (sub_ids bs) \<inter> ?S = {}"
    using d u by (auto simp del: root_id_in_ids)
  have sub: "\<forall>(k, w)\<in>set kts. tree_at (view s1) p w" if "\<forall>(k, w)\<in>set kts. tree_at (view s) p w" "set (sub_ids kts) \<inter> ?S = {}" for kts p
    using that sub_at_cong [of kts "view s1" "view s" p] steps_view [OF m(2)] by (metis disjoint_iff)
  have "\<forall>(k, w)\<in>set bs. tree_at (view s1) r w" using b(2) by (intro sub [OF _ dj(4)]) simp
  then have R': "tree_at (view s1) q ?R'" using m(3,4) b(2) steps_tree_at [OF m(2) dj(3), of r] by simp
  have "\<forall>(k, w)\<in>set as. tree_at (view s1) l w" by (rule sub [OF a(2) dj(2)])
  then have L': "tree_at (view s1) q ?L'" using m(5,6,7) a(1) steps_tree_at [OF m(2) dj(1), of l] by auto
  have 1: "?S \<subseteq> set (ids ?L @ ids ?R)" using u by (auto simp del: root_id_in_ids)
  have 2: "distinct (ids ?L' @ ids ?R')" "set (ids ?L' @ ids ?R') \<subseteq> set (ids ?L @ ids ?R)" using d by auto
  have o2: "ordered (ctx_left fs @ lead_left ld @ blocks ?L' @ Sep m # blocks ?R' @ sub_blocks rs @ ctx_right fs)" using ord by simp
  have roots: "root_id ?L' = root_id ?L" "root_id ?R' = root_id ?R" by simp_all
  obtain s' where "update_parent_key P q k m s1 = (Inr (), s')" "holds s' (plug_ctx (Frame q ld ([(m, ?R')] @ rs) # fs) ?L')"
    "shrunk s (plug_ctx (Frame q ld ((k, ?R) # rs) # fs) ?L) s' (plug_ctx (Frame q ld ([(m, ?R')] @ rs) # fs) ?L')"
    by (rule pair_rewritten [OF h m(2) 1 L' R' roots 2 o2])
  with m(1) show thesis by (intro that) simp_all
qed

section \<open>Merging internal nodes\<close>

lemma merge_internal_ok:
  assumes h: "holds s (plug_ctx (Frame q ld ((k, TNode r b bs) # rs) # fs) (TNode l a as))"
    and fits: "HEADER_SIZE + 8 + 16 * length (as @ (k, b) # bs) \<le> page_size" and pid: "(pid, sid) = (if left then (r, l) else (l, r))"
  obtains s' where "merge_internal P (Suc fuel) pid sid q k root left s = remove_child_from_parent P fuel q r root s'"
    and "merged s' q ld k r rs fs (TNode l a (as @ (k, b) # bs))"
    and "shrunk s (plug_ctx (Frame q ld ((k, TNode r b bs) # rs) # fs) (TNode l a as)) s' (plug_ctx (Frame q ld rs # fs) (TNode l a (as @ (k, b) # bs)))"
proof -
  let ?L = "TNode l a as" and ?R = "TNode r b bs" and ?L' = "TNode l a (as @ (k, b) # bs)" and ?ts = "rev (b # map snd bs)"
  obtain L: "tree_at (view s) q ?L" and R: "tree_at (view s) q ?R"
    and ok: "ids_ok (ctx_ids fs @ q # lead_ids ld @ ids ?L @ ids ?R @ sub_ids rs)"
    and ord: "ordered (ctx_left fs @ lead_left ld @ blocks ?L @ Sep k # blocks ?R @ sub_blocks rs @ ctx_right fs)"
    by (rule pair_facts [OF h])
  obtain pl where pl: "view s l = Some pl" "node_page pl q (root_id a) (child_ids as)" and a: "tree_at (view s) l a" "\<forall>(k, u)\<in>set as. tree_at (view s) l u"
    by (rule node_facts [OF L])
  obtain pr where pr: "view s r = Some pr" "node_page pr q (root_id b) (child_ids bs)" and b: "tree_at (view s) r b" "\<forall>(k, u)\<in>set bs. tree_at (view s) r u"
    by (rule node_facts [OF R])
  have d: "distinct (l # ids a @ sub_ids as @ r # ids b @ sub_ids bs)" and l32: "l < 2 ^ 32"
    using ok by (simp_all add: ids_ok_def Int_Un_distrib)
  have inv: "inv s" and q32: "q < 2 ^ 32" using h pl(2) by (simp_all add: holds_def node_page_def)
  obtain s1 where rd1: "read_internal P l s = (Inr (\<lparr>node_type = Internal, num_keys = length (child_ids as), parent = q\<rparr>,
      map fst (child_ids as), root_id a # map snd (child_ids as)), s1)" and s1: "keeps s s1"
    by (rule read_internal_ok [OF inv pl])
  have "view s1 r = Some pr" using pr(1) s1 by (simp add: keeps_def)
  then obtain s2 where rd2: "read_internal P r s1 = (Inr (\<lparr>node_type = Internal, num_keys = length (child_ids bs), parent = q\<rparr>,
      map fst (child_ids bs), root_id b # map snd (child_ids bs)), s2)" and s2: "keeps s1 s2"
    by (rule read_internal_ok [OF keeps_fields(1) [OF s1] _ pr(2)])
  have v2: "view s2 = view s" using s1 s2 by (simp add: keeps_def)
  have in_R: "set (ids u) \<subseteq> set (ids b @ sub_ids bs)" if "u \<in> set ?ts" for u
    using that ids_in_sub [of u bs] by auto
  have "tree_at (view s2) r u" if "u \<in> set ?ts" for u using that b by (auto simp: v2)
  then have "\<forall>u\<in>set ?ts. \<exists>q. tree_at (view s2) q u" by blast
  moreover have "distinct (concat (map ids ?ts))" unfolding distinct_concat_rev using d by (simp add: sub_ids_def comp_def split_def)
  ultimately obtain s3 where s3: "set_parent_pointers P (map root_id ?ts) l s2 = (Inr (), s3)" "steps (root_id ` set ?ts) 0 s2 s3"
    "\<forall>u\<in>set ?ts. tree_at (view s3) l u"
    using set_parents_ok [OF keeps_fields(1) [OF s2] _ _ l32] by blast
  have roots: "root_id ` set ?ts \<subseteq> set (ids b @ sub_ids bs)" using in_R root_id_in_ids by blast
  then have "view s3 l = view s2 l" by (intro steps_view [OF s3(2)]) (use d in auto)
  then have "view s3 l \<noteq> None" using pl(1) v2 by simp
  moreover have "HEADER_SIZE + 8 + 16 * length (child_ids (as @ (k, b) # bs)) \<le> page_size" using fits by simp
  moreover have "root_id a < 2 ^ 64" by (rule ids_ok_root(3) [OF ok]) auto
  moreover have "pairs_ok (child_ids (as @ (k, b) # bs))" by (rule pairs_ok_children [OF ok]) auto
  ultimately obtain s4 pl' where w: "write_internal P l \<lparr>node_type = Internal, num_keys = length (child_ids as), parent = q\<rparr>
      (map fst (child_ids (as @ (k, b) # bs))) (root_id a # map snd (child_ids (as @ (k, b) # bs))) s3 = (Inr (), s4)"
    "steps {l} 0 s3 s4" "view s4 = (view s3)(l \<mapsto> pl')" "node_page pl' q (root_id a) (child_ids (as @ (k, b) # bs))"
    by (rule write_internal_ok [OF steps_inv [OF s3(2)] _ _ q32])
  let ?S = "insert l (root_id ` set ?ts)"
  have st: "steps ?S 0 s s4"
    using steps_trans [OF steps_trans [OF steps_trans [OF keeps_steps [OF s1, of "{}" 0] keeps_steps [OF s2, of "{}" 0]] s3(2)] w(2)]
    by (rule steps_mono) auto
  have S: "?S \<subseteq> insert l (set (ids b @ sub_ids bs))" using roots by blast
  have dj: "set (ids a) \<inter> ?S = {}" "set (sub_ids as) \<inter> ?S = {}" by (rule disjoint_mono [OF S]; use d in auto)+
  have at: "tree_at (view s4) l u" if "u \<in> set ?ts" for u
  proof -
    have "l \<notin> set (ids u)" using in_R [OF that] d by auto
    then show ?thesis using s3(3) that steps_tree_at [OF w(2), of u l] by auto
  qed
  have "tree_at (view s4) l a" using a(1) steps_tree_at [OF st dj(1)] by simp
  moreover have "\<forall>(k, u)\<in>set as. tree_at (view s4) l u"
    using a(2) sub_at_cong [of as "view s4" "view s" l] steps_view [OF st] dj(2) by (metis disjoint_iff)
  moreover have "tree_at (view s4) l b" by (rule at) simp
  moreover have "tree_at (view s4) l u" if "(k, u) \<in> set bs" for k u by (rule at) (use that in force)
  ultimately have L': "tree_at (view s4) q ?L'" using w(3,4) by auto
  have S': "?S \<subseteq> set (ids ?L @ ids ?R)" using S by auto
  have ids: "distinct (ids ?L')" "set (ids ?L') \<subseteq> set (ids ?L @ ids ?R) - {root_id ?R}" using d by auto
  have o2: "ordered (ctx_left fs @ lead_left ld @ blocks ?L' @ sub_blocks rs @ ctx_right fs)" using ord by simp
  have root: "root_id ?L' = root_id ?L" by simp
  have e: "(if left then (sid, pid) else (pid, sid)) = (l, r)" using pid by (cases left) simp_all
  have rev: "take (length (child_ids bs) + 1) (rev ((root_id a # map snd (child_ids as)) @ root_id b # map snd (child_ids bs))) = map root_id ?ts"
    by (simp add: child_ids_map rev_map)
  have prog: "merge_internal P (Suc fuel) pid sid q k root left s = remove_child_from_parent P fuel q r root s4"
    unfolding merge_internal.simps e Let_def prod.case using rd1 rd2 s3(1) w(1) l32 fits
    by (simp add: mbind_def as_u32_def rev [simplified] mult.commute)
  show thesis using that [OF prog] mergedI [OF h st S' L' root ids o2] by simp
qed

section \<open>Choosing what to do\<close>

text \<open>Both underflow handlers read the node, its parent and the sibling, and then borrow or merge.\<close>

lemma underflow_prefix:
  assumes h: "holds s (plug_ctx (Frame q ld ((k, R) # rs) # fs) L)" and first: "\<not> left \<Longrightarrow> ld = None"
    and X: "X = (if left then R else L)" and Y: "Y = (if left then L else R)"
  obtains s' where "keeps s s'"
    and "handle_leaf_underflow P fuel (root_id X) root s =
      (if MIN_KEYS < node_count Y then mbind (redistribute_from_sibling P (root_id X) (root_id Y) q k left) (\<lambda>_. mret None) s'
       else merge_leaves P fuel (root_id X) (root_id Y) q root left s')"
    and "root_id X \<noteq> root \<Longrightarrow> handle_internal_underflow P (Suc fuel) (root_id X) root s =
      (if MIN_KEYS < node_count Y then mbind (redistribute_internal P (root_id X) (root_id Y) q k left) (\<lambda>_. mret None) s'
       else merge_internal P fuel (root_id X) (root_id Y) q k root left s')"
proof -
  let ?ps = "lead_child_ids ld (root_id L) @ (k, root_id R) # child_ids rs"
  obtain pg where pg: "view s q = Some pg" "node_page pg (par_of fs) (lead_root ld (root_id L)) ?ps"
    and at: "tree_at (view s) q L" "tree_at (view s) q R"
    and ok: "ids_ok (ctx_ids fs @ q # lead_ids ld @ ids L @ ids R @ sub_ids rs)"
    by (rule pair_facts [OF h])
  have inv: "inv s" using h by (simp add: holds_def)
  have q: "0 < q" using ok by (simp add: ids_ok_def)
  have Xat: "tree_at (view s) q X" and Yat: "tree_at (view s) q Y" using at X Y by simp_all
  have Y0: "0 < root_id Y" by (rule ids_ok_root(1) [OF ok]) (use Y in auto)
  have new: "root_id R \<notin> set (lead_root ld (root_id L) # map snd (lead_child_ids ld (root_id L)))"
  proof -
    have "set (lead_root ld (root_id L) # map snd (lead_child_ids ld (root_id L))) \<subseteq> set (lead_ids ld @ ids L)" by (rule lead_roots)
    moreover have "set (ids R) \<inter> set (lead_ids ld @ ids L) = {}" using ok by (auto simp: ids_ok_def)
    ultimately show ?thesis using root_id_in_ids [of R] by blast
  qed
  have sib: "find_sibling_info pg \<lparr>node_type = Internal, num_keys = length ?ps, parent = par_of fs\<rparr> (root_id X) = Inr (root_id Y, k, left)"
    using pair_sibling_info [OF pg(2) new] first X Y by (cases left) simp_all
  obtain xp xh where x: "view s (root_id X) = Some xp" "deserialize_header xp = Inr xh" "parent xh = q" by (rule root_header [OF Xat])
  obtain yp yh where y: "view s (root_id Y) = Some yp" "deserialize_header yp = Inr yh" "num_keys yh = node_count Y" by (rule root_header [OF Yat])
  obtain s1 where rd1: "read_node P (root_id X) s = (Inr (xh, xp), s1)" and s1: "keeps s s1" by (rule read_node_ok [OF inv x(1,2)])
  have "view s1 q = Some pg" using pg(1) s1 by (simp add: keeps_def)
  then obtain s2 where rd2: "read_node P q s1 = (Inr (\<lparr>node_type = Internal, num_keys = length ?ps, parent = par_of fs\<rparr>, pg), s2)" and s2: "keeps s1 s2"
    by (rule read_node_ok [OF keeps_fields(1) [OF s1] _ node_page_header [OF pg(2)]])
  have "view s2 (root_id Y) = Some yp" using y(1) s1 s2 by (simp add: keeps_def)
  then obtain s3 where rd3: "read_node P (root_id Y) s2 = (Inr (yh, yp), s3)" and s3: "keeps s2 s3"
    by (rule read_node_ok [OF keeps_fields(1) [OF s2] _ y(2)])
  have "keeps s s3" using s1 s2 s3 by (simp add: keeps_def)
  moreover have "handle_leaf_underflow P fuel (root_id X) root s =
      (if MIN_KEYS < node_count Y then mbind (redistribute_from_sibling P (root_id X) (root_id Y) q k left) (\<lambda>_. mret None) s3
       else merge_leaves P fuel (root_id X) (root_id Y) q root left s3)"
    using rd1 x(3) q rd2 sib Y0 rd3 y(3) unfolding handle_leaf_underflow_def by (simp add: mbind_def)
  moreover have "root_id X \<noteq> root \<Longrightarrow> handle_internal_underflow P (Suc fuel) (root_id X) root s =
      (if MIN_KEYS < node_count Y then mbind (redistribute_internal P (root_id X) (root_id Y) q k left) (\<lambda>_. mret None) s3
       else merge_internal P fuel (root_id X) (root_id Y) q k root left s3)"
    using rd1 x(3) q rd2 sib Y0 rd3 y(3) by (simp add: mbind_def)
  ultimately show thesis by (intro that)
qed

end

end
