(* ===== verification/BTreeRebalance.thy ===== *)
theory BTreeRebalance
  imports BTreeUnderflow
begin

text \<open>
  The whole of rebalancing: what happens to one underflowing node, the climb of merges, and the deletion of a key from
  a balanced tree whose root keeps a separator.
\<close>

lemma entries_pair:
  "entries (plug_ctx (Frame q ld ((k, R) # rs) # fs) L) =
     entries_of (ctx_left fs) @ entries_of (lead_left ld) @ entries L @ entries R @ entries_of (sub_blocks rs) @ entries_of (ctx_right fs)"
  by (simp add: entries_def blocks_plug_ctx del: plug_ctx.simps)

lemma entries_single:
  "entries (plug_ctx (Frame q ld rs # fs) L) =
     entries_of (ctx_left fs) @ entries_of (lead_left ld) @ entries L @ entries_of (sub_blocks rs) @ entries_of (ctx_right fs)"
  by (simp add: entries_def blocks_plug_ctx del: plug_ctx.simps)

lemma entries_node: "entries (TNode p t kts) = entries t @ entries_of (sub_blocks kts)"
  by (simp add: entries_def)

lemma entries_leaf: "entries (TLeaf p es) = es"
  by (simp add: entries_def)

text \<open>
  A tree that can always be repaired: the root keeps a separator when it loses one, and two leaves that have to merge
  fit on one page.
\<close>

definition repairable :: "tree \<Rightarrow> bool" where
  "repairable t \<longleftrightarrow> balanced t \<and> 2 \<le> root_keys t \<and> (\<forall>e\<in>set (entries t). length (snd e) \<le> 52)"

context page_io
begin

lemma root_id_frame: "root_id (plug_ctx (Frame q ld rs # fs) L) = root_id (plug_ctx (Frame q ld' rs' # fs) L')"
  unfolding plug_ctx.simps by (rule root_id_plug_ctx) simp

text \<open>
  The tree was repaired: the entries, the root and the depth stay, the pages come from the old tree, and the root lost at
  most \<open>j\<close> separators.
\<close>

definition rebalanced :: "nat \<Rightarrow> nat \<Rightarrow> 's \<Rightarrow> tree \<Rightarrow> 's \<Rightarrow> tree \<Rightarrow> bool" where
  "rebalanced m j s t s' t' \<longleftrightarrow> holds s' t' \<and> entries t' = entries t \<and> shrunk s t s' t' \<and> bal m t' \<and> root_id t' = root_id t
     \<and> root_keys t \<le> root_keys t' + j"

lemma root_keys_pair:
  "root_keys (plug_ctx (Frame q ld ((k, R) # rs) # gs) L) = root_keys (plug_ctx (Frame q ld rs # gs) L') + (if gs = [] then 1 else 0)"
  unfolding root_keys_plug_ctx by (simp split: option.split)

lemma rebalanced_pair:
  assumes "holds s' (plug_ctx (Frame q ld ([(m, R')] @ rs) # gs) L')"
    and "shrunk s (plug_ctx (Frame q ld ((k, R) # rs) # gs) L) s' (plug_ctx (Frame q ld ([(m, R')] @ rs) # gs) L')"
    and "entries L' @ entries R' = entries L @ entries R" and "bal n L'" and "bal n R'"
    and "frame_bal n (Frame q ld rs)" and "ctx_bal (Suc n) gs"
  shows "rebalanced (Suc n + length gs) j s (plug_ctx (Frame q ld ((k, R) # rs) # gs) L) s' (plug_ctx (Frame q ld ([(m, R')] @ rs) # gs) L')"
proof -
  have "ctx_bal n (Frame q ld ((m, R') # rs) # gs)" using assms(5-7) by simp
  from bal_plug_ctx [OF this assms(4)] have b: "bal (Suc n + length gs) (plug_ctx (Frame q ld ((m, R') # rs) # gs) L')" by simp
  have e: "entries (plug_ctx (Frame q ld ((m, R') # rs) # gs) L') = entries (plug_ctx (Frame q ld ((k, R) # rs) # gs) L)"
    unfolding entries_pair using assms(3) by (metis append.assoc)
  have "root_keys (plug_ctx (Frame q ld ((k, R) # rs) # gs) L) = root_keys (plug_ctx (Frame q ld ((m, R') # rs) # gs) L')"
    unfolding root_keys_pair [of q ld k R rs gs L L] root_keys_pair [of q ld m R' rs gs L' L] ..
  with assms(1,2) b e root_id_frame show ?thesis unfolding rebalanced_def append_Cons append_Nil by (metis le_add1)
qed

text \<open>An underflowing internal node borrows a child, or a merge passes the problem to its parent.\<close>

lemma internal_pair_step:
  assumes h: "holds s (plug_ctx (Frame q ld ((k, TNode r b bs) # rs) # gs) (TNode l a as))" and first: "\<not> left \<Longrightarrow> ld = None"
    and few: "length (if left then bs else as) < MIN_KEYS" and sib: "(if left then as else bs) \<noteq> []"
    and bal: "bal n a" "\<forall>(k, u)\<in>set as. bal n u" "bal n b" "\<forall>(k, u)\<in>set bs. bal n u"
    and fb: "frame_bal (Suc n) (Frame q ld rs)" and cb: "ctx_bal (Suc (Suc n)) gs" and root: "(if left then r else l) \<noteq> root"
  obtains (borrowed) s' t' where "handle_internal_underflow P (Suc (Suc fuel)) (if left then r else l) root s = (Inr None, s')"
      and "rebalanced (Suc (Suc n) + length gs) 1 s (plug_ctx (Frame q ld ((k, TNode r b bs) # rs) # gs) (TNode l a as)) s' t'"
    | (merged) s' L' where "handle_internal_underflow P (Suc (Suc fuel)) (if left then r else l) root s = remove_child_from_parent P fuel q r root s'"
      and "merged s' q ld k r rs gs L'" and "bal (Suc n) L'"
      and "shrunk s (plug_ctx (Frame q ld ((k, TNode r b bs) # rs) # gs) (TNode l a as)) s' (plug_ctx (Frame q ld rs # gs) L')"
      and "entries (plug_ctx (Frame q ld rs # gs) L') = entries (plug_ctx (Frame q ld ((k, TNode r b bs) # rs) # gs) (TNode l a as))"
proof -
  let ?L = "TNode l a as" and ?R = "TNode r b bs"
  let ?t = "plug_ctx (Frame q ld ((k, ?R) # rs) # gs) ?L"
  define X Y where "X = (if left then ?R else ?L)" and "Y = (if left then ?L else ?R)"
  have X: "root_id X \<noteq> root" using root by (cases left) (simp_all add: X_def)
  obtain s1 where s1: "keeps s s1" and prog: "handle_internal_underflow P (Suc (Suc fuel)) (root_id X) root s =
      (if MIN_KEYS < node_count Y then mbind (redistribute_internal P (root_id X) (root_id Y) q k left) (\<lambda>_. mret None) s1
       else merge_internal P (Suc fuel) (root_id X) (root_id Y) q k root left s1)"
  proof (rule underflow_prefix [OF h first X_def Y_def])
    fix s1 assume k: "keeps s s1" and p: "root_id X \<noteq> root \<Longrightarrow> handle_internal_underflow P (Suc (Suc fuel)) (root_id X) root s =
      (if MIN_KEYS < node_count Y then mbind (redistribute_internal P (root_id X) (root_id Y) q k left) (\<lambda>_. mret None) s1
       else merge_internal P (Suc fuel) (root_id X) (root_id Y) q k root left s1)"
    show thesis by (rule that [OF k p [OF X]])
  qed
  have ids: "root_id X = (if left then r else l)" "root_id Y = (if left then l else r)" "node_count Y = length (if left then as else bs)"
    by (simp_all add: X_def Y_def)
  note prog = prog [unfolded ids]
  have h1: "holds s1 ?t" by (rule keeps_holds [OF s1 h])
  have sh: "shrunk s ?t s' t'" if "shrunk s1 ?t s' t'" for s' t'
    using that steps_trans [OF keeps_steps [OF s1, of "{}" 0]] by (simp add: shrunk_def)
  show thesis
  proof (cases "MIN_KEYS < length (if left then as else bs)")
    case True
    show thesis
    proof (cases left)
      case l: True
      then obtain as' m u where as: "as = as' @ [(m, u)]" using sib by (cases as rule: rev_cases) auto
      have ne: "as' \<noteq> []" using True l by (auto simp: as node_pages)
      have bs: "length bs < MIN_KEYS" using few l by simp
      obtain s' where s': "redistribute_internal P r l q k True s1 = (Inr (), s')"
        "holds s' (plug_ctx (Frame q ld ([(m, TNode r u ((k, b) # bs))] @ rs) # gs) (TNode l a as'))"
        "shrunk s1 ?t s' (plug_ctx (Frame q ld ([(m, TNode r u ((k, b) # bs))] @ rs) # gs) (TNode l a as'))"
        unfolding as by (rule borrow_child_left [OF h1 [unfolded as] bs])
      have "handle_internal_underflow P (Suc (Suc fuel)) (if left then r else l) root s = (Inr None, s')"
        unfolding prog using True s'(1) l by (simp add: mbind_def mret_def)
      moreover have "rebalanced (Suc (Suc n) + length gs) 1 s ?t s' (plug_ctx (Frame q ld ([(m, TNode r u ((k, b) # bs))] @ rs) # gs) (TNode l a as'))"
        by (rule rebalanced_pair [OF s'(2) sh [OF s'(3)] _ _ _ fb cb]) (use bal ne in \<open>auto simp: as entries_node entries_def\<close>)
      ultimately show thesis by (rule borrowed)
    next
      case l: False
      then obtain m u bs' where bs: "bs = (m, u) # bs'" using sib by (cases bs) auto
      have ne: "bs' \<noteq> []" using True l by (auto simp: bs node_pages)
      have as: "length as < MIN_KEYS" using few l by simp
      obtain s' where s': "redistribute_internal P l r q k False s1 = (Inr (), s')"
        "holds s' (plug_ctx (Frame q ld ([(m, TNode r u bs')] @ rs) # gs) (TNode l a (as @ [(k, b)])))"
        "shrunk s1 ?t s' (plug_ctx (Frame q ld ([(m, TNode r u bs')] @ rs) # gs) (TNode l a (as @ [(k, b)])))"
        unfolding bs by (rule borrow_child_right [OF h1 [unfolded bs] as])
      have "handle_internal_underflow P (Suc (Suc fuel)) (if left then r else l) root s = (Inr None, s')"
        unfolding prog using True s'(1) l by (simp add: mbind_def mret_def)
      moreover have "rebalanced (Suc (Suc n) + length gs) 1 s ?t s' (plug_ctx (Frame q ld ([(m, TNode r u bs')] @ rs) # gs) (TNode l a (as @ [(k, b)])))"
        by (rule rebalanced_pair [OF s'(2) sh [OF s'(3)] _ _ _ fb cb]) (use bal ne in \<open>auto simp: bs entries_node entries_def\<close>)
      ultimately show thesis by (rule borrowed)
    qed
  next
    case False
    let ?L' = "TNode l a (as @ (k, b) # bs)"
    have fits: "HEADER_SIZE + 8 + 16 * length (as @ (k, b) # bs) \<le> page_size" using False few by (cases left) (simp_all add: node_pages)
    have pid: "(if left then r else l, if left then l else r) = (if left then (r, l) else (l, r))" by simp
    obtain s' where s': "merge_internal P (Suc fuel) (if left then r else l) (if left then l else r) q k root left s1 = remove_child_from_parent P fuel q r root s'"
      "merged s' q ld k r rs gs ?L'" "shrunk s1 ?t s' (plug_ctx (Frame q ld rs # gs) ?L')"
      by (rule merge_internal_ok [OF h1 fits pid])
    show thesis
    proof (rule merged)
      show "handle_internal_underflow P (Suc (Suc fuel)) (if left then r else l) root s = remove_child_from_parent P fuel q r root s'"
        unfolding prog using False s'(1) by simp
      show "bal (Suc n) ?L'" using bal by auto
      show "entries (plug_ctx (Frame q ld rs # gs) ?L') = entries ?t" unfolding entries_pair entries_single by (simp add: entries_def)
    qed (use s'(2) sh [OF s'(3)] in auto)
  qed
qed

section \<open>The climb\<close>

lemma root_id_last: "root_id (plug_ctx (f # fs) L) = frame_id (last (f # fs))"
  by (induction fs arbitrary: f L) simp_all

lemma frame_id_in_ctx: "fs \<noteq> [] \<Longrightarrow> frame_id (last fs) \<in> set (ctx_ids fs)"
proof (induction fs)
  case (Cons f fs)
  then show ?case by (cases f; cases fs) auto
qed simp

lemma merged_not_root:
  assumes "merged s q ld k r rs fs L"
  shows "q = root_id (plug_ctx (Frame q ld rs # fs) L) \<longleftrightarrow> fs = []"
proof -
  have m: "mset (ids (plug_ctx (Frame q ld rs # fs) L)) = mset (ctx_ids fs @ q # lead_ids ld @ ids L @ sub_ids rs)" unfolding mset_ids_plug_ctx by simp
  have "distinct (ids (plug_ctx (Frame q ld rs # fs) L))" using assms by (simp add: merged_def ids_ok_def)
  then have "q \<notin> set (ctx_ids fs)" unfolding mset_eq_imp_distinct_iff [OF m] by simp
  then show ?thesis unfolding root_id_last using frame_id_in_ctx [of fs] by (cases "fs = []") auto
qed

lemma rebalanced_after:
  assumes "steps {q} 0 s s1" and "q \<in> set (ids t)" and "rebalanced m j s1 t s' t'"
  shows "rebalanced m j s t s' t'"
  using assms steps_trans [OF assms(1), of "set (ids t)" 0 s'] by (auto simp: rebalanced_def shrunk_def insert_absorb)

lemma rebalanced_trans:
  assumes "shrunk s t s1 t1" and "entries t1 = entries t" and "root_id t1 = root_id t" and "root_keys t = root_keys t1 + i"
    and "rebalanced m j s1 t1 s' t'"
  shows "rebalanced m (i + j) s t s' t'"
  using assms shrunk_trans [OF assms(1), of s' t'] by (simp add: rebalanced_def)

lemma remove_child_ok:
  assumes "merged s q ld k r rs fs L" and "bal n L" and "frame_bal n (Frame q ld rs)" and "ctx_bal (Suc n) fs"
    and "root = root_id (plug_ctx (Frame q ld rs # fs) L)"
    and "if fs = [] then 0 < frame_keys (Frame q ld rs) else 2 \<le> frame_keys (last fs)" and "3 * length fs < fuel"
  shows "\<exists>s' t'. remove_child_from_parent P fuel q r root s = (Inr None, s')
    \<and> rebalanced (Suc n + length fs) (if fs = [] then 0 else 1) s (plug_ctx (Frame q ld rs # fs) L) s' t'"
  using assms
proof (induction fs arbitrary: s q ld k r rs L n fuel)
  case Nil
  let ?t = "plug_ctx (Frame q ld rs # []) L"
  obtain f where f: "fuel = Suc f" using Nil.prems(7) by (cases fuel) auto
  have "q = root" using Nil.prems(5) by simp
  then obtain s' where "remove_child_from_parent P fuel q r root s = (Inr None, s')" "holds s' ?t" "steps {q} 0 s s'"
    using remove_child_step [OF Nil.prems(1), of root f] Nil.prems(6) unfolding f by auto
  moreover have "ctx_bal n (Frame q ld rs # [])" using Nil.prems(3,6) by simp
  from bal_plug_ctx [OF this Nil.prems(2)] have "bal (Suc n) ?t" by simp
  ultimately show ?case by (auto simp: rebalanced_def shrunk_def intro: steps_mono)
next
  case (Cons g gs)
  let ?f = "Frame q ld rs" and ?X = "plug (Frame q ld rs) L"
  let ?t = "plug_ctx (Frame q ld rs # g # gs) L"
  obtain f where f: "fuel = Suc (Suc (Suc f))" and f': "3 * length gs < f" using Cons.prems(7) by (intro that [of "fuel - 3"]) simp_all
  have q: "q \<noteq> root" using merged_not_root [OF Cons.prems(1)] Cons.prems(5) by simp
  then obtain s1 where s1: "remove_child_from_parent P fuel q r root s =
      (if q \<noteq> root \<and> frame_keys ?f < MIN_KEYS then handle_internal_underflow P (Suc (Suc f)) q root s1 else (Inr None, s1))"
    and h1: "holds s1 ?t" and st1: "steps {q} 0 s s1"
    using remove_child_step [OF Cons.prems(1), of root "Suc (Suc f)"] unfolding f by blast
  have q_in: "q \<in> set (ids ?t)" unfolding ids_plug_ctx by simp
  show ?case
  proof (cases "frame_keys ?f < MIN_KEYS")
    case False
    then have "0 < frame_keys ?f" by (simp add: node_pages del: frame_keys.simps)
    then have "ctx_bal n (?f # g # gs)" using Cons.prems(3,4) by (simp del: frame_keys.simps)
    from bal_plug_ctx [OF this Cons.prems(2)] have b: "bal (Suc n + length (g # gs)) ?t" by simp
    have "shrunk s1 ?t s1 ?t" using h1 by (simp add: shrunk_def holds_def steps_refl)
    then have "rebalanced (Suc n + length (g # gs)) 1 s1 ?t s1 ?t" using h1 b by (simp add: rebalanced_def del: plug_ctx.simps)
    from rebalanced_after [OF st1 q_in this] s1 False show ?thesis by auto
  next
    case True
    obtain a as where X: "?X = TNode q a as" by simp
    have as: "length as < MIN_KEYS" using True arg_cong [OF X, of root_keys] by (simp del: frame_keys.simps plug.simps)
    have bX: "bal n a" "\<forall>(k, u)\<in>set as. bal n u"
      using Cons.prems(2,3) lead_bal_plug [of n ld L] X by auto
    obtain q' ld0 rs0 where g: "g = Frame q' ld0 rs0" by (cases g)
    have gb: "frame_bal (Suc n) (Frame q' ld0 rs0)" "0 < frame_keys (Frame q' ld0 rs0)" "ctx_bal (Suc (Suc n)) gs"
      using Cons.prems(4) by (simp_all add: g)
    obtain left ld' rs' k' L2 R2 where pair: "plug (Frame q' ld0 rs0) ?X = plug (Frame q' ld' ((k', R2) # rs')) L2" "?X = (if left then R2 else L2)"
      "bal (Suc n) (if left then L2 else R2)" "frame_bal (Suc n) (Frame q' ld' rs')" "\<not> left \<Longrightarrow> ld' = None"
      "frame_keys (Frame q' ld0 rs0) = Suc (frame_keys (Frame q' ld' rs'))"
      by (rule pair_of_frame [OF gb(2,1), of ?X]) (rule that, blast+)
    obtain y c cs where Y: "(if left then L2 else R2) = TNode y c cs" "cs \<noteq> []" "bal n c" "\<forall>(k, w)\<in>set cs. bal n w" by (rule bal_Suc [OF pair(3)])
    define l a2 as2 where "l = (if left then y else q)" and "a2 = (if left then c else a)" and "as2 = (if left then cs else as)"
    define r2 b2 bs2 where "r2 = (if left then q else y)" and "b2 = (if left then a else c)" and "bs2 = (if left then as else cs)"
    note defs = l_def a2_def as2_def r2_def b2_def bs2_def
    have L2: "L2 = TNode l a2 as2" and R2: "R2 = TNode r2 b2 bs2" using pair(2) X Y(1) by (cases left; simp add: defs)+
    have t: "?t = plug_ctx (Frame q' ld' ((k', TNode r2 b2 bs2) # rs') # gs) (TNode l a2 as2)"
      using pair(1) by (simp only: plug_ctx.simps g L2 R2)
    have 2: "length (if left then bs2 else as2) < MIN_KEYS" "(if left then as2 else bs2) \<noteq> []" "bal n a2" "\<forall>(k, u)\<in>set as2. bal n u" "bal n b2"
      "\<forall>(k, u)\<in>set bs2. bal n u" "(if left then r2 else l) \<noteq> root"
      using as Y bX q by (cases left; simp add: defs)+
    have ql: "(if left then r2 else l) = q" by (simp add: defs)
    have prog: "remove_child_from_parent P fuel q r root s = handle_internal_underflow P (Suc (Suc f)) (if left then r2 else l) root s1"
      using s1 True q by (simp add: ql)
    show ?thesis
    proof (rule internal_pair_step [OF h1 [unfolded t] pair(5) 2(1-6) pair(4) gb(3) 2(7), where fuel = f])
      fix s' t' assume "handle_internal_underflow P (Suc (Suc f)) (if left then r2 else l) root s1 = (Inr None, s')"
        "rebalanced (Suc (Suc n) + length gs) 1 s1 (plug_ctx (Frame q' ld' ((k', TNode r2 b2 bs2) # rs') # gs) (TNode l a2 as2)) s' t'"
      then have "rebalanced (Suc n + length (g # gs)) 1 s ?t s' t'" using rebalanced_after [OF st1 q_in] unfolding t by simp
      with \<open>handle_internal_underflow _ _ _ _ _ = _\<close> show ?thesis using prog by auto
    next
      fix s' L' assume m: "handle_internal_underflow P (Suc (Suc f)) (if left then r2 else l) root s1 = remove_child_from_parent P f q' r2 root s'"
        "merged s' q' ld' k' r2 rs' gs L'" "bal (Suc n) L'"
        "shrunk s1 (plug_ctx (Frame q' ld' ((k', TNode r2 b2 bs2) # rs') # gs) (TNode l a2 as2)) s' (plug_ctx (Frame q' ld' rs' # gs) L')"
        "entries (plug_ctx (Frame q' ld' rs' # gs) L') = entries (plug_ctx (Frame q' ld' ((k', TNode r2 b2 bs2) # rs') # gs) (TNode l a2 as2))"
      have same: "root_id (plug_ctx (Frame q' ld' rs' # gs) L') = root_id ?t" unfolding t by (rule root_id_frame)
      have root: "root = root_id (plug_ctx (Frame q' ld' rs' # gs) L')" unfolding same by (rule Cons.prems(5))
      have wide: "if gs = [] then 0 < frame_keys (Frame q' ld' rs') else 2 \<le> frame_keys (last gs)"
        using Cons.prems(6) pair(6) by (simp add: g del: frame_keys.simps split: if_splits)
      from Cons.IH [OF m(2,3) pair(4) gb(3) root wide f'] obtain s'' t'' where
        up: "remove_child_from_parent P f q' r2 root s' = (Inr None, s'')"
          "rebalanced (Suc (Suc n) + length gs) (if gs = [] then 0 else 1) s' (plug_ctx (Frame q' ld' rs' # gs) L') s'' t''"
        by blast
      have keys: "root_keys ?t = root_keys (plug_ctx (Frame q' ld' rs' # gs) L') + (if gs = [] then 1 else 0)"
        unfolding t by (rule root_keys_pair)
      have "rebalanced (Suc (Suc n) + length gs) ((if gs = [] then 1 else 0) + (if gs = [] then 0 else 1)) s1 ?t s'' t''"
        by (rule rebalanced_trans [OF _ _ same keys up(2)]) (use m(4,5) in \<open>simp_all only: t\<close>)
      from rebalanced_after [OF st1 q_in this] prog m(1) up(1) show ?thesis by (cases "gs = []") auto
    qed
  qed
qed

section \<open>An underflowing leaf\<close>

lemma entries_len_le: "\<forall>e\<in>set es. length (snd e) \<le> b \<Longrightarrow> entries_len es \<le> (12 + b) * length es"
  by (induction es) auto

text \<open>With 52 bytes of data at most, two leaves that have to merge fit on one page.\<close>

lemma leaf_pair_step:
  assumes h: "holds s (plug_ctx (Frame q ld ((k, TLeaf r es2) # rs) # gs) (TLeaf l es1))" and first: "\<not> left \<Longrightarrow> ld = None"
    and few: "length (if left then es2 else es1) < MIN_KEYS"
    and small: "\<forall>e\<in>set (es1 @ es2). length (snd e) \<le> 52"
    and fb: "frame_bal 0 (Frame q ld rs)" and cb: "ctx_bal 1 gs"
  obtains (borrowed) s' t' where "handle_leaf_underflow P fuel (if left then r else l) root s = (Inr None, s')"
      and "rebalanced (Suc (length gs)) 1 s (plug_ctx (Frame q ld ((k, TLeaf r es2) # rs) # gs) (TLeaf l es1)) s' t'"
    | (merged) s' L' where "handle_leaf_underflow P fuel (if left then r else l) root s = remove_child_from_parent P fuel q r root s'"
      and "merged s' q ld k r rs gs L'" and "bal 0 L'"
      and "shrunk s (plug_ctx (Frame q ld ((k, TLeaf r es2) # rs) # gs) (TLeaf l es1)) s' (plug_ctx (Frame q ld rs # gs) L')"
      and "entries (plug_ctx (Frame q ld rs # gs) L') = entries (plug_ctx (Frame q ld ((k, TLeaf r es2) # rs) # gs) (TLeaf l es1))"
proof -
  let ?L = "TLeaf l es1" and ?R = "TLeaf r es2"
  let ?t = "plug_ctx (Frame q ld ((k, ?R) # rs) # gs) ?L"
  define X Y where "X = (if left then ?R else ?L)" and "Y = (if left then ?L else ?R)"
  obtain s1 where s1: "keeps s s1" and prog: "handle_leaf_underflow P fuel (root_id X) root s =
      (if MIN_KEYS < node_count Y then mbind (redistribute_from_sibling P (root_id X) (root_id Y) q k left) (\<lambda>_. mret None) s1
       else merge_leaves P fuel (root_id X) (root_id Y) q root left s1)"
    by (rule underflow_prefix [OF h first X_def Y_def, where fuel = fuel and root = root]) (assumption, rule that)
  have ids: "root_id X = (if left then r else l)" "root_id Y = (if left then l else r)" "node_count Y = length (if left then es1 else es2)"
    by (simp_all add: X_def Y_def)
  note prog = prog [unfolded ids]
  have h1: "holds s1 ?t" by (rule keeps_holds [OF s1 h])
  have sh: "shrunk s ?t s' t'" if "shrunk s1 ?t s' t'" for s' t'
    using that steps_trans [OF keeps_steps [OF s1, of "{}" 0]] by (simp add: shrunk_def)
  have len: "entries_len es1 \<le> 64 * length es1" "entries_len es2 \<le> 64 * length es2"
    using entries_len_le [of es1 52] entries_len_le [of es2 52] small by simp_all
  show thesis
  proof (cases "MIN_KEYS < length (if left then es1 else es2)")
    case True
    show thesis
    proof (cases left)
      case l: True
      then obtain xs e where es: "es1 = xs @ [e]" using True by (cases es1 rule: rev_cases) auto
      have ne: "xs \<noteq> []" using True l by (auto simp: es node_pages)
      have fits: "HEADER_SIZE + entries_len es2 + (12 + length (snd e)) \<le> page_size"
        using len(2) few small l by (simp add: es node_pages)
      obtain s' where s': "redistribute_from_sibling P r l q k True s1 = (Inr (), s')"
        "holds s' (plug_ctx (Frame q ld ([(fst e, TLeaf r (e # es2))] @ rs) # gs) (TLeaf l xs))"
        "shrunk s1 ?t s' (plug_ctx (Frame q ld ([(fst e, TLeaf r (e # es2))] @ rs) # gs) (TLeaf l xs))"
        unfolding es by (rule borrow_left_ok [OF h1 [unfolded es] ne fits])
      have "handle_leaf_underflow P fuel (if left then r else l) root s = (Inr None, s')"
        unfolding prog using True s'(1) l by (simp add: mbind_def mret_def)
      moreover have "rebalanced (Suc 0 + length gs) 1 s ?t s' (plug_ctx (Frame q ld ([(fst e, TLeaf r (e # es2))] @ rs) # gs) (TLeaf l xs))"
        by (rule rebalanced_pair [OF s'(2) sh [OF s'(3)] _ _ _ fb cb [unfolded One_nat_def]]) (simp_all add: es entries_leaf)
      ultimately show thesis by (intro borrowed) simp_all
    next
      case l: False
      then obtain e e2 xs where es: "es2 = e # e2 # xs" using True by (cases es2 rule: remdups_adj.cases) (auto simp: node_pages)
      have fits: "HEADER_SIZE + entries_len es1 + (12 + length (snd e)) \<le> page_size"
        using len(1) few small l by (simp add: es node_pages)
      obtain s' where s': "redistribute_from_sibling P l r q k False s1 = (Inr (), s')"
        "holds s' (plug_ctx (Frame q ld ([(fst e2, TLeaf r (e2 # xs))] @ rs) # gs) (TLeaf l (es1 @ [e])))"
        "shrunk s1 ?t s' (plug_ctx (Frame q ld ([(fst e2, TLeaf r (e2 # xs))] @ rs) # gs) (TLeaf l (es1 @ [e])))"
        unfolding es by (rule borrow_right_ok [OF h1 [unfolded es] fits])
      have "handle_leaf_underflow P fuel (if left then r else l) root s = (Inr None, s')"
        unfolding prog using True s'(1) l by (simp add: mbind_def mret_def)
      moreover have "rebalanced (Suc 0 + length gs) 1 s ?t s' (plug_ctx (Frame q ld ([(fst e2, TLeaf r (e2 # xs))] @ rs) # gs) (TLeaf l (es1 @ [e])))"
        by (rule rebalanced_pair [OF s'(2) sh [OF s'(3)] _ _ _ fb cb [unfolded One_nat_def]]) (simp_all add: es entries_leaf)
      ultimately show thesis by (intro borrowed) simp_all
    qed
  next
    case False
    have fits: "HEADER_SIZE + entries_len (es1 @ es2) \<le> page_size" using False few len by (cases left) (simp_all add: node_pages)
    have pid: "(if left then r else l, if left then l else r) = (if left then (r, l) else (l, r))" by simp
    obtain s' where s': "merge_leaves P fuel (if left then r else l) (if left then l else r) q root left s1 = remove_child_from_parent P fuel q r root s'"
      "merged s' q ld k r rs gs (TLeaf l (es1 @ es2))" "shrunk s1 ?t s' (plug_ctx (Frame q ld rs # gs) (TLeaf l (es1 @ es2)))"
      by (rule merge_leaves_ok [OF h1 fits pid])
    show thesis
    proof (rule merged)
      show "handle_leaf_underflow P fuel (if left then r else l) root s = remove_child_from_parent P fuel q r root s'"
        unfolding prog using False s'(1) by simp
      show "entries (plug_ctx (Frame q ld rs # gs) (TLeaf l (es1 @ es2))) = entries ?t" unfolding entries_pair entries_single by (simp add: entries_leaf)
    qed (use s'(2) sh [OF s'(3)] in auto)
  qed
qed

lemma leaf_underflow_ok:
  assumes h: "holds s (plug_ctx (g # fs) (TLeaf p es))" and few: "length es < MIN_KEYS" and b: "bal m (plug_ctx (g # fs) (TLeaf p es))"
    and small: "\<forall>e\<in>set (entries (plug_ctx (g # fs) (TLeaf p es))). length (snd e) \<le> 52"
    and wide: "2 \<le> root_keys (plug_ctx (g # fs) (TLeaf p es))" and fuel: "3 * length fs < fuel"
  shows "\<exists>s' t'. handle_leaf_underflow P fuel p (root_id (plug_ctx (g # fs) (TLeaf p es))) s = (Inr None, s')
    \<and> rebalanced m 1 s (plug_ctx (g # fs) (TLeaf p es)) s' t'"
proof -
  let ?t = "plug_ctx (g # fs) (TLeaf p es)"
  obtain q ld0 rs0 where g: "g = Frame q ld0 rs0" by (cases g)
  obtain n where n: "m = n + length (g # fs)" "bal n (TLeaf p es)" "ctx_bal n (g # fs)" by (rule bal_split_ctx [OF b])
  have cb: "frame_bal 0 (Frame q ld0 rs0)" "0 < frame_keys (Frame q ld0 rs0)" "ctx_bal 1 fs" and m: "m = Suc (length fs)"
    using n by (simp_all add: g)
  obtain left ld rs k L R where pair: "plug (Frame q ld0 rs0) (TLeaf p es) = plug (Frame q ld ((k, R) # rs)) L" "TLeaf p es = (if left then R else L)"
    "bal 0 (if left then L else R)" "frame_bal 0 (Frame q ld rs)" "\<not> left \<Longrightarrow> ld = None"
    "frame_keys (Frame q ld0 rs0) = Suc (frame_keys (Frame q ld rs))"
    by (rule pair_of_frame [OF cb(2,1), of "TLeaf p es"]) (rule that, blast+)
  obtain y es' where Y: "(if left then L else R) = TLeaf y es'" by (rule bal_zero [OF pair(3)])
  define l es1 r es2 where "l = (if left then y else p)" and "es1 = (if left then es' else es)"
    and "r = (if left then p else y)" and "es2 = (if left then es else es')"
  note defs = l_def es1_def r_def es2_def
  have L: "L = TLeaf l es1" and R: "R = TLeaf r es2" using pair(2) Y by (cases left; simp add: defs)+
  have t: "?t = plug_ctx (Frame q ld ((k, TLeaf r es2) # rs) # fs) (TLeaf l es1)" using pair(1) by (simp only: plug_ctx.simps g L R)
  have few': "length (if left then es2 else es1) < MIN_KEYS" using few by (simp add: defs)
  have small': "\<forall>e\<in>set (es1 @ es2). length (snd e) \<le> 52" using small unfolding t entries_pair by (auto simp: entries_leaf)
  have pid: "(if left then r else l) = p" by (simp add: defs)
  show ?thesis
  proof (rule leaf_pair_step [OF h [unfolded t] pair(5) few' small' pair(4) cb(3), where fuel = fuel and root = "root_id ?t"])
    fix s' t' assume "handle_leaf_underflow P fuel (if left then r else l) (root_id ?t) s = (Inr None, s')"
      "rebalanced (Suc (length fs)) 1 s (plug_ctx (Frame q ld ((k, TLeaf r es2) # rs) # fs) (TLeaf l es1)) s' t'"
    then show ?thesis unfolding pid m t by blast
  next
    fix s' L' assume st: "handle_leaf_underflow P fuel (if left then r else l) (root_id ?t) s = remove_child_from_parent P fuel q r (root_id ?t) s'"
      "merged s' q ld k r rs fs L'" "bal 0 L'"
      "shrunk s (plug_ctx (Frame q ld ((k, TLeaf r es2) # rs) # fs) (TLeaf l es1)) s' (plug_ctx (Frame q ld rs # fs) L')"
      "entries (plug_ctx (Frame q ld rs # fs) L') = entries (plug_ctx (Frame q ld ((k, TLeaf r es2) # rs) # fs) (TLeaf l es1))"
    have same: "root_id (plug_ctx (Frame q ld rs # fs) L') = root_id ?t" unfolding t by (rule root_id_frame)
    have keys: "if fs = [] then 0 < frame_keys (Frame q ld rs) else 2 \<le> frame_keys (last fs)"
      using wide pair(6) unfolding root_keys_plug_ctx by (simp add: g del: frame_keys.simps split: if_splits)
    from remove_child_ok [OF st(2,3) pair(4) _ same [symmetric] keys fuel] cb(3) obtain s'' t'' where
      up: "remove_child_from_parent P fuel q r (root_id ?t) s' = (Inr None, s'')"
        "rebalanced (Suc 0 + length fs) (if fs = [] then 0 else 1) s' (plug_ctx (Frame q ld rs # fs) L') s'' t''"
      by auto
    have rk: "root_keys ?t = root_keys (plug_ctx (Frame q ld rs # fs) L') + (if fs = [] then 1 else 0)"
      unfolding t by (rule root_keys_pair)
    have "rebalanced (Suc 0 + length fs) ((if fs = [] then 1 else 0) + (if fs = [] then 0 else 1)) s ?t s'' t''"
      by (rule rebalanced_trans [OF _ _ same rk up(2)]) (use st(4,5) in \<open>simp_all only: t\<close>)
    then have "rebalanced m 1 s ?t s'' t''" unfolding m by (cases "fs = []") simp_all
    with st(1) up(1) show ?thesis unfolding pid by auto
  qed
qed

section \<open>Deletion\<close>

lemma btree_delete_ok:
  assumes h: "holds (bt_pager bt) t" and r: "root_page bt = root_id t" and key: "map_of (entries t) key = Some d"
    and fuel: "3 * height t \<le> fuel"
    and full: "\<And>es. leaf_of t key es \<Longrightarrow> height t = 1 \<or> MIN_KEYS < length es \<or> repairable t"
  shows "\<exists>bt' t'. btree_delete P fuel key bt = (Inr True, bt') \<and> holds (bt_pager bt') t' \<and> root_page bt' = root_id t'
    \<and> root_id t' = root_id t \<and> entries t' = delete_entry key (entries t) \<and> height t' \<le> height t
    \<and> (balanced t \<longrightarrow> balanced t') \<and> root_keys t \<le> Suc (root_keys t') \<and> shrunk (bt_pager bt) t (bt_pager bt') t'"
proof -
  let ?s = "bt_pager bt"
  obtain fs p es es' s where t: "t = plug_ctx fs (TLeaf p es)" and leaf: "leaf_of t key es" and len: "length es = Suc (length es')"
    and prog: "btree_delete P fuel key bt =
      (if p \<noteq> root_id t \<and> length es' < MIN_KEYS
       then mbind (on_pager (handle_leaf_underflow P fuel p (root_id t))) (\<lambda>new_root bt. (Inr True, set_root new_root bt)) (bt\<lparr>bt_pager := s\<rparr>)
       else (Inr True, bt\<lparr>bt_pager := s\<rparr>))"
    and s: "holds s (plug_ctx fs (TLeaf p es'))" and e: "entries (plug_ctx fs (TLeaf p es')) = delete_entry key (entries t)"
    and st: "steps {p} 0 ?s s"
    by (rule leaf_removed [OF h r key, of fuel]) (use fuel in simp)
  let ?t = "plug_ctx fs (TLeaf p es')"
  have root: "root_id ?t = root_id t" unfolding t by (rule root_id_plug_ctx) simp
  have ids: "set (ids ?t) = set (ids t)" "p \<in> set (ids t)" unfolding t ids_plug_ctx by simp_all
  have sh: "shrunk ?s t s ?t" using ids steps_mono [OF st] by (simp add: shrunk_def)
  have keys: "root_keys ?t = root_keys t"
    unfolding t by (cases fs) (simp_all add: root_keys_plug_ctx del: plug_ctx.simps(2))
  have bal: "balanced t \<longrightarrow> balanced ?t" using balanced_leaf(2) by (simp add: t)
  show ?thesis
  proof (cases "p \<noteq> root_id t \<and> length es' < MIN_KEYS")
    case False
    have "height ?t \<le> height t" unfolding t by (rule height_plug_ctx_mono) simp
    moreover have "btree_delete P fuel key bt = (Inr True, bt\<lparr>bt_pager := s\<rparr>)" unfolding prog if_not_P [OF False] by (rule refl)
    ultimately show ?thesis using s e sh bal root r keys by (intro exI [of _ "bt\<lparr>bt_pager := s\<rparr>"] exI [of _ ?t]) simp
  next
    case True
    then have fs: "fs \<noteq> []" by (auto simp: t)
    then obtain g gs where g: "fs = g # gs" by (cases fs) auto
    have "height t \<noteq> 1"
    proof
      assume "height t = 1"
      then obtain q xs where "t = TLeaf q xs" by (rule height_one)
      with ids(2) True show False by simp
    qed
    moreover have "\<not> MIN_KEYS < length es" using True len by simp
    ultimately have rep: "repairable t" using full [OF leaf] by blast
    from rep bal obtain n where n: "bal n ?t" by (auto simp: repairable_def balanced_def)
    obtain m where m: "n = m + length fs" "bal m (TLeaf p es')" "ctx_bal m fs" by (rule bal_split_ctx [OF n])
    have "bal n t" using bal_plug_ctx [OF m(3), of "TLeaf p es"] m(1,2) by (simp add: t)
    then have ht: "height t = Suc (length fs)" using height_bal m(1,2) by simp
    have wide: "2 \<le> root_keys ?t" using rep unfolding repairable_def t g root_keys_plug_ctx by simp
    have small: "\<forall>e\<in>set (entries ?t). length (snd e) \<le> 52" using rep unfolding e by (auto simp: repairable_def delete_entry_def)
    have "3 * length gs < fuel" using fuel ht by (simp add: g)
    with leaf_underflow_ok [OF s [unfolded g] _ n [unfolded g] small [unfolded g] wide [unfolded g]] True obtain s' t' where
      u: "handle_leaf_underflow P fuel p (root_id t) s = (Inr None, s')" and reb: "rebalanced n 1 s ?t s' t'"
      unfolding g [symmetric] root by blast
    have "btree_delete P fuel key bt = (Inr True, bt\<lparr>bt_pager := s'\<rparr>)"
      using prog True u by (simp add: mbind_def on_pager_def set_root_def)
    moreover have "height t' = height t" using reb height_bal \<open>bal n t\<close> by (simp add: rebalanced_def)
    moreover have "balanced t'" using reb by (auto simp: rebalanced_def balanced_def)
    moreover have "shrunk ?s t s' t'" by (rule shrunk_trans [OF sh]) (use reb in \<open>simp add: rebalanced_def\<close>)
    ultimately show ?thesis using reb e root r keys
      by (intro exI [of _ "bt\<lparr>bt_pager := s'\<rparr>"] exI [of _ t']) (simp add: rebalanced_def)
  qed
qed

end

end
