(* ===== verification/BTreePager.thy ===== *)
theory BTreePager
  imports BTreeRebalance PagerSpec
begin

text \<open>
  The tree on the pager: inside a write group the pager meets the laws of \<open>page_io\<close>, so the tree
  lemmas hold for the pages the pager shows, caching and buffering included.
\<close>

definition pager_ops ::
    "(bytes \<Rightarrow> 32 word) \<Rightarrow> ((nat, bytes) fmap \<Rightarrow> nat option) \<Rightarrow> io_env \<Rightarrow> pager page_ops" where
  "pager_ops crc pick io =
     \<lparr>po_read = read_page pick, po_write = write_page crc pick io, po_alloc = allocate_page crc pick io\<rparr>"

definition page_room :: "pager \<Rightarrow> nat" where
  "page_room p = 2 ^ 32 - num_pages p"

definition writing :: "(bytes \<Rightarrow> 32 word) \<Rightarrow> pager \<Rightarrow> bool" where
  "writing crc p \<longleftrightarrow> pager_inv crc p \<and> active_group p \<noteq> None"

lemma abs_pager_view: "abs_pager p = abs_pager q \<Longrightarrow> page_view p = page_view q"
  by (simp add: abs_pager_def)

lemma buffer_page_count: "num_pages (buffer_page pick pid x p) = (if num_pages p \<le> pid then pid + 1 else num_pages p)"
  by (simp add: buffer_page_fields)

lemma buffer_page_writing:
  assumes "writing crc p" and "pid \<le> num_pages p" and "length x = page_size"
  shows "writing crc (buffer_page pick pid x p)" and "page_view (buffer_page pick pid x p) = (page_view p)(pid \<mapsto> x)"
  using assms buffer_page_inv [of crc p _ pid x pick] buffer_page_views(1) [of p _ pid pick x]
  by (auto simp: writing_def buffer_page_fields)

lemma pager_reads:
  assumes inv: "pager_inv crc p" and x: "page_view p pid = Some x"
  shows "\<exists>s'. po_read (pager_ops crc pick io) pid p = (Inr x, s') \<and> pager_inv crc s' \<and> page_view s' = page_view p
      \<and> page_room s' = page_room p \<and> active_group s' = active_group p"
proof -
  note r = read_page_inv [OF inv, of pick pid]
  have "fst (read_page pick pid p) = Inr x" using read_page_result [OF inv, of pick pid] x by simp
  then show ?thesis
    using r abs_pager_view [OF r(2)]
    by (intro exI [of _ "snd (read_page pick pid p)"]) (auto simp: pager_ops_def page_room_def prod_eq_iff)
qed

text \<open>Reads work in a group and outside one.\<close>

definition at_group :: "(bytes \<Rightarrow> 32 word) \<Rightarrow> nat option \<Rightarrow> pager \<Rightarrow> bool" where
  "at_group crc g p \<longleftrightarrow> pager_inv crc p \<and> active_group p = g"

interpretation rio: page_reads "pager_ops crc pick io" page_view page_room "at_group crc g" for crc pick io g
  using pager_reads by unfold_locales (fastforce simp: at_group_def)

interpretation pio: page_io "pager_ops crc pick io" page_view page_room "writing crc" for crc pick io
proof
  fix p pid x
  assume "writing crc p" and "page_view p pid = Some x"
  with pager_reads [of crc p pid x pick io]
  show "\<exists>s'. po_read (pager_ops crc pick io) pid p = (Inr x, s') \<and> writing crc s' \<and> page_view s' = page_view p
      \<and> page_room s' = page_room p"
    by (auto simp: writing_def)
next
  fix p pid x
  assume w: "writing crc p" and pid: "page_view p pid \<noteq> None" and x: "length (x :: bytes) = page_size"
  then obtain g where g: "active_group p = Some g" by (auto simp: writing_def)
  have lt: "pid < num_pages p" using w pid by (auto simp: writing_def pager_inv_def view_ok_def)
  with buffer_page_writing [OF w _ x, of pid pick] write_page_in_group [OF g]
  show "\<exists>s'. po_write (pager_ops crc pick io) pid x p = (Inr (), s') \<and> writing crc s' \<and> page_view s' = (page_view p)(pid \<mapsto> x)
      \<and> page_room s' = page_room p"
    by (auto simp: pager_ops_def page_room_def buffer_page_count)
next
  fix p
  assume w: "writing crc p" and rm: "0 < page_room p"
  then obtain g where g: "active_group p = Some g" by (auto simp: writing_def)
  let ?q = "buffer_page pick (num_pages p) page_new p"
  have len: "length page_new = page_size" by (simp add: page_new_def)
  have "allocate_page crc pick io p = (Inr (num_pages p), ?q)"
    by (simp add: allocate_page_def mbind_def write_page_in_group [OF g])
  moreover have "page_view p (num_pages p) = None" using w by (auto simp: writing_def pager_inv_def view_ok_def)
  moreover have "page_new = blank_page" by (simp add: page_new_def blank_page_def)
  moreover have "num_pages p < 2 ^ 32" "page_room p = Suc (page_room ?q)" using rm by (simp_all add: page_room_def buffer_page_count)
  ultimately show "\<exists>pid s'. po_alloc (pager_ops crc pick io) p = (Inr pid, s') \<and> writing crc s' \<and> page_view p pid = None
      \<and> pid < 2 ^ 32 \<and> page_view s' = (page_view p)(pid \<mapsto> blank_page) \<and> page_room p = Suc (page_room s')"
    using buffer_page_writing [OF w _ len, of "num_pages p" pick] by (auto simp: pager_ops_def)
qed

end
