(* ===== verification/BTreeTheorems.thy ===== *)
theory BTreeTheorems
  imports BTreePager PagerTheorems
begin

text \<open>
  Properties of the B+tree on the pager. \<open>table_rep crc bt h rows\<close> says that the pages the pager
  shows hold a balanced tree of height \<open>h\<close> under the root of \<open>bt\<close> whose leaves, from left to right, are the rows
  \<open>rows\<close>; the operations are then operations on that list.
\<close>

section \<open>Tables\<close>

definition encode_entry :: "i64 \<times> row \<Rightarrow> i64 \<times> bytes" where
  "encode_entry e = (fst e, serialize_row (snd e))"

definition table_rep :: "(bytes \<Rightarrow> 32 word) \<Rightarrow> pager btree \<Rightarrow> nat \<Rightarrow> (i64 \<times> row) list \<Rightarrow> bool" where
  "table_rep crc bt h rows \<longleftrightarrow>
     (\<exists>t. pio.holds crc (bt_pager bt) t \<and> root_page bt = root_id t \<and> height t = h \<and> balanced t
        \<and> entries t = map encode_entry rows \<and> list_all (\<lambda>r. row_ok (snd r)) rows)"

text \<open>Rows as the format returns them: a \<open>Real\<close> comes back as a \<open>Float\<close>.\<close>

definition as_stored :: "i64 \<times> row \<Rightarrow> i64 \<times> row" where
  "as_stored e = (fst e, stored_row (snd e))"

definition insert_row :: "i64 \<Rightarrow> row \<Rightarrow> (i64 \<times> row) list \<Rightarrow> (i64 \<times> row) list" where
  "insert_row key row rows = takeWhile (\<lambda>r. sint (fst r) \<le> sint key) rows @ (key, row) #
     dropWhile (\<lambda>r. sint (fst r) \<le> sint key) rows"

definition delete_row :: "i64 \<Rightarrow> (i64 \<times> row) list \<Rightarrow> (i64 \<times> row) list" where
  "delete_row key rows = filter (\<lambda>r. fst r \<noteq> key) rows"

lemma encode_insert: "insert_entry key (serialize_row row) (map encode_entry rows) = map encode_entry (insert_row key row rows)"
  by (simp add: insert_entry_def insert_row_def takeWhile_map dropWhile_map comp_def encode_entry_def)

lemma encode_delete: "delete_entry key (map encode_entry rows) = map encode_entry (delete_row key rows)"
  by (simp add: delete_entry_def delete_row_def filter_map comp_def encode_entry_def)

lemma encode_lookup: "map_of (map encode_entry rows) key = map_option serialize_row (map_of rows key)"
  by (induction rows) (auto simp: encode_entry_def)

lemma decode_entries:
  "list_all (\<lambda>r. row_ok (snd r)) rows \<Longrightarrow> list_all2 decodes_to (map encode_entry rows) (map as_stored rows)"
  by (induction rows) (auto simp: decodes_to_def encode_entry_def as_stored_def deserialize_serialize_row)

lemma row_ok_insert:
  assumes "list_all (\<lambda>r. row_ok (snd r)) rows" and "row_ok row"
  shows "list_all (\<lambda>r. row_ok (snd r)) (insert_row key row rows)"
  using assms by (auto simp: list_all_iff insert_row_def dest: set_takeWhileD set_dropWhileD)

lemma row_ok_delete: "list_all (\<lambda>r. row_ok (snd r)) rows \<Longrightarrow> list_all (\<lambda>r. row_ok (snd r)) (delete_row key rows)"
  by (auto simp: list_all_iff delete_row_def)

text \<open>The leaf of the key stays above the minimum when it loses an entry, so no rebalancing starts.\<close>

definition leaf_keeps_min :: "(bytes \<Rightarrow> 32 word) \<Rightarrow> pager btree \<Rightarrow> i64 \<Rightarrow> bool" where
  "leaf_keeps_min crc bt key \<longleftrightarrow> (\<forall>t es. pio.holds crc (bt_pager bt) t \<and> root_page bt = root_id t \<and> leaf_of t key es \<longrightarrow>
     MIN_KEYS < length es)"

text \<open>The separators of the root page; a root that is a leaf has none.\<close>

definition root_separators :: "pager btree \<Rightarrow> nat" where
  "root_separators bt = (case page_view (bt_pager bt) (root_page bt) of
     Some page \<Rightarrow> (case deserialize_header page of Inr h \<Rightarrow> if node_type h = Internal then num_keys h else 0 | Inl _ \<Rightarrow> 0)
   | None \<Rightarrow> 0)"

lemma root_separators_tree:
  assumes "tree_at (page_view (bt_pager bt)) 0 t" and "root_page bt = root_id t"
  shows "root_separators bt = root_keys t"
proof (cases t)
  case (TLeaf p es)
  then obtain page where "page_view (bt_pager bt) p = Some page" "leaf_page page 0 es" using assms(1) by auto
  from this(1) leaf_page_header [OF this(2)] assms(2) TLeaf show ?thesis by (simp add: root_separators_def)
next
  case (TNode p u kts)
  then obtain page where "page_view (bt_pager bt) p = Some page" "node_page page 0 (root_id u) (child_ids kts)"
    using assms(1) by auto
  from this(1) node_page_header [OF this(2)] assms(2) TNode show ?thesis by (simp add: root_separators_def)
qed

lemma single_leaf:
  assumes "table_rep crc bt 1 rows"
  shows "root_separators bt = 0"
proof -
  from assms obtain t where t: "pio.holds crc (bt_pager bt) t" "root_page bt = root_id t" "height t = 1" by (auto simp: table_rep_def)
  from t(1) have "tree_at (page_view (bt_pager bt)) 0 t" by (simp add: pio.holds_def)
  from root_separators_tree [OF this t(2)] height_one [OF t(3)] show ?thesis by (metis root_keys.simps(1))
qed

lemma no_separators:
  assumes "balanced t" and "root_keys t = 0"
  shows "height t = 1"
  using assms by (cases t) (auto simp: balanced_def)

section \<open>Small rows need one split\<close>

text \<open>With 164 bytes of data at most, both halves of a full leaf have room for another entry.\<close>

lemma entries_len_bounds:
  assumes "\<forall>e\<in>set es. 4 \<le> length (snd e) \<and> length (snd e) \<le> 164"
  shows "16 * length es \<le> entries_len es" and "entries_len es \<le> 176 * length es"
  using assms by (induction es) auto

lemma small_one_split:
  assumes small: "\<forall>e\<in>set es. 4 \<le> length (snd e) \<and> length (snd e) \<le> 164" and d: "length d \<le> 164"
    and page: "HEADER_SIZE + entries_len es \<le> page_size"
  shows "one_split key d es"
proof (cases "fits_leaf d es")
  case False
  let ?i = "length es div 2"
  have parts: "entries_len es = entries_len (take ?i es) + entries_len (drop ?i es)"
    by (metis append_take_drop_id entries_simps(6))
  have lo: "16 * length (take ?i es) \<le> entries_len (take ?i es)" "16 * length (drop ?i es) \<le> entries_len (drop ?i es)"
    by (rule entries_len_bounds(1); use small in \<open>auto dest: in_set_takeD in_set_dropD\<close>)+
  have "3912 < entries_len es" using False d by (simp add: fits_leaf_def HEADER_SIZE_def page_size_def)
  with entries_len_bounds(2) [OF small] have n: "23 \<le> length es" by simp
  then have "11 \<le> ?i" "12 \<le> length es - ?i" by auto
  with lo have "176 \<le> entries_len (take ?i es)" "192 \<le> entries_len (drop ?i es)" by simp_all
  with parts page d have "fits_leaf d (take ?i es)" "fits_leaf d (drop ?i es)"
    by (simp_all add: fits_leaf_def HEADER_SIZE_def page_size_def)
  with n show ?thesis by (simp add: one_split_def)
qed (simp add: one_split_def)

lemma leaf_of_entries:
  assumes "leaf_of t key es" and "tree_at v par t"
  shows "set es \<subseteq> set (entries t)" and "HEADER_SIZE + entries_len es \<le> page_size"
proof -
  from assms(1) obtain cl p cr where b: "blocks t = cl @ Blk p es # cr" by (auto simp: leaf_of_def)
  then show "set es \<subseteq> set (entries t)" by (auto simp: entries_def)
  obtain fs where fs: "t = plug_ctx fs (TLeaf p es)" by (rule leaf_context [OF b])
  have "tree_at v par t \<Longrightarrow> \<exists>page q. leaf_page page q es" using b
  proof (induction t arbitrary: par cl cr)
    case (TNode q u kts)
    from TNode.prems(2) consider (first) xr where "blocks u = cl @ Blk p es # xr"
      | (later) xl where "sub_blocks kts = xl @ Blk p es # cr"
      by (auto simp: append_eq_append_conv2 append_eq_Cons_conv Cons_eq_append_conv)
    then show ?case
    proof cases
      case first
      then show ?thesis using TNode.IH(1) TNode.prems(1) by auto
    next
      case later
      obtain ls k w rs xl' xr where kts: "kts = ls @ (k, w) # rs" and w: "blocks w = xl' @ Blk p es # xr"
        by (rule split_blocks_child [OF later])
      have "(k, w) \<in> set kts" "w \<in> Basic_BNFs.snds (k, w)" by (simp_all add: kts)
      from TNode.IH(2) [OF this _ w, of q] TNode.prems(1) kts show ?thesis by auto
    qed
  qed (auto simp: append_eq_Cons_conv Cons_eq_append_conv)
  with assms(2) leaf_page_bounds(1) show "HEADER_SIZE + entries_len es \<le> page_size" by blast
qed

section \<open>Operations on tables\<close>

lemma table_insert_ok:
  assumes rep: "table_rep crc bt h rows" and new: "key \<notin> fst ` set rows" and ok: "row_ok row"
    and small: "list_all (\<lambda>r. length (serialize_row (snd r)) \<le> 164) ((key, row) # rows)"
    and room: "h < page_room (bt_pager bt)" and fuel: "3 * h \<le> fuel"
  shows "\<exists>bt' h'. btree_insert (pager_ops crc pick io) fuel key row bt = (Inr (), bt') \<and> h' \<le> Suc h
    \<and> table_rep crc bt' h' (insert_row key row rows) \<and> page_room (bt_pager bt) \<le> page_room (bt_pager bt') + Suc h"
proof -
  from rep obtain t where t: "pio.holds crc (bt_pager bt) t" "root_page bt = root_id t" "height t = h"
    "entries t = map encode_entry rows" "balanced t" and rows: "list_all (\<lambda>r. row_ok (snd r)) rows"
    by (auto simp: table_rep_def)
  have look: "map_of (entries t) key = None" using new by (simp add: t(4) encode_lookup map_of_eq_None_iff)
  have at: "tree_at (page_view (bt_pager bt)) 0 t" using t(1) by (simp add: pio.holds_def)
  have one: "one_split key (serialize_row row) es" if "leaf_of t key es" for es
  proof (rule small_one_split)
    show "\<forall>e\<in>set es. 4 \<le> length (snd e) \<and> length (snd e) \<le> 164"
      using leaf_of_entries(1) [OF that at] small
      by (fastforce simp: t(4) encode_entry_def list_all_iff length_serialize_row)
    show "HEADER_SIZE + entries_len es \<le> page_size" by (rule leaf_of_entries(2) [OF that at])
  qed (use small in simp)
  from pio.btree_insert_ok [OF t(1,2) look one, of fuel pick io] room fuel obtain bt' t' where
    r: "btree_insert (pager_ops crc pick io) fuel key row bt = (Inr (), bt')" "pio.holds crc (bt_pager bt') t'"
      "root_page bt' = root_id t'" "entries t' = insert_entry key (serialize_row row) (entries t)" "height t' \<le> Suc h"
    and ch: "pio.changed crc (Suc h) (bt_pager bt) t (bt_pager bt') t'"
    by (auto simp: t(3))
  have "page_room (bt_pager bt) \<le> page_room (bt_pager bt') + Suc h" using ch by (simp add: pio.changed_def pio.steps_def)
  moreover have rep': "table_rep crc bt' (height t') (insert_row key row rows)"
    using r(2-4) ch t(5) row_ok_insert [OF rows ok] unfolding table_rep_def pio.changed_def by (auto simp: t(4) encode_insert)
  ultimately show ?thesis using r(1,5) by blast
qed

lemma table_sorted:
  assumes "table_rep crc bt h rows"
  shows "sorted_wrt (\<lambda>a b. sint (fst a) < sint (fst b)) rows"
proof -
  from assms obtain t where t: "ordered (blocks t)" "entries t = map encode_entry rows"
    by (auto simp: table_rep_def pio.holds_def)
  have "sorted_wrt (<) (map (\<lambda>e. 2 * sint (fst e) + 1) (entries_of bs))" if "ordered bs" for bs
    using that
  proof (induction bs)
    case (Cons b bs)
    have "ordered bs" using Cons.prems by (simp add: ordered_def sorted_wrt_append)
    note IH = Cons.IH [OF this]
    show ?case
    proof (cases b)
      case (Blk p es)
      then show ?thesis using IH Cons.prems rank_of_entry [of _ bs]
        by (fastforce simp: ordered_def sorted_wrt_append)
    next
      case (Sep k)
      then show ?thesis using IH by simp
    qed
  qed simp
  from this [OF t(1)] have "sorted_wrt (\<lambda>a b. 2 * sint (fst a) + 1 < 2 * sint (fst b) + 1) rows"
    by (simp add: t(2) sorted_wrt_map encode_entry_def flip: entries_def)
  then show ?thesis by (rule sorted_wrt_mono_rel [rotated]) simp
qed

lemma table_search_ok:
  assumes "table_rep crc bt h rows" and "h \<le> fuel"
  shows "fst (btree_search (pager_ops crc pick io) fuel key bt) = Inr (map_option stored_row (map_of rows key))
    \<and> table_rep crc (snd (btree_search (pager_ops crc pick io) fuel key bt)) h rows"
proof -
  from assms(1) obtain t where t: "pio.holds crc (bt_pager bt) t" "root_page bt = root_id t" "height t = h"
    "entries t = map encode_entry rows" "balanced t" and rows: "list_all (\<lambda>r. row_ok (snd r)) rows"
    by (auto simp: table_rep_def)
  from pio.btree_search_ok [OF t(1,2), of fuel pick io key] assms(2) obtain s' where
    s: "btree_search (pager_ops crc pick io) fuel key bt = ((case map_of (entries t) key of None \<Rightarrow> Inr None
        | Some d \<Rightarrow> rbind (deserialize_row d) (\<lambda>row. Inr (Some row))), bt\<lparr>bt_pager := s'\<rparr>)" "pio.keeps crc (bt_pager bt) s'"
    by (auto simp: t(3))
  have "deserialize_row (serialize_row r) = Inr (stored_row r)" if "map_of rows key = Some r" for r
    using rows map_of_SomeD [OF that] by (intro deserialize_serialize_row) (force simp: list_all_iff)
  then have "fst (btree_search (pager_ops crc pick io) fuel key bt) = Inr (map_option stored_row (map_of rows key))"
    by (simp add: s(1) t(4) encode_lookup split: option.split)
  moreover have "table_rep crc (bt\<lparr>bt_pager := s'\<rparr>) h rows"
    using t rows pio.keeps_holds [OF s(2) t(1)] by (auto simp: table_rep_def)
  ultimately show ?thesis by (simp add: s(1))
qed

lemma table_scan_ok:
  assumes "table_rep crc bt h rows" and "h \<le> fuel"
  shows "fst (btree_scan (pager_ops crc pick io) fuel bt) = Inr (map as_stored rows)
    \<and> sorted_wrt (\<lambda>a b. sint (fst a) < sint (fst b)) rows
    \<and> table_rep crc (snd (btree_scan (pager_ops crc pick io) fuel bt)) h rows"
proof -
  from assms(1) obtain t where t: "pio.holds crc (bt_pager bt) t" "root_page bt = root_id t" "height t = h"
    "entries t = map encode_entry rows" "balanced t" and rows: "list_all (\<lambda>r. row_ok (snd r)) rows"
    by (auto simp: table_rep_def)
  have "list_all2 decodes_to (entries t) (map as_stored rows)" using decode_entries [OF rows] by (simp add: t(4))
  with pio.btree_scan_ok [OF t(1,2), of fuel _ pick io] assms(2) obtain s' where
    s: "btree_scan (pager_ops crc pick io) fuel bt = (Inr (map as_stored rows), bt\<lparr>bt_pager := s'\<rparr>)"
      "pio.keeps crc (bt_pager bt) s'"
    by (auto simp: t(3))
  moreover have "table_rep crc (bt\<lparr>bt_pager := s'\<rparr>) h rows"
    using t rows pio.keeps_holds [OF s(2) t(1)] by (auto simp: table_rep_def)
  ultimately show ?thesis using table_sorted [OF assms(1)] by simp
qed

lemma table_delete_ok:
  assumes rep: "table_rep crc bt h rows" and fuel: "3 * h \<le> fuel"
    and keep: "key \<in> fst ` set rows \<Longrightarrow> root_separators bt = 0 \<or> leaf_keeps_min crc bt key
      \<or> 2 \<le> root_separators bt \<and> list_all (\<lambda>r. length (serialize_row (snd r)) \<le> 52) rows"
  shows "\<exists>bt' h'. btree_delete (pager_ops crc pick io) fuel key bt = (Inr (key \<in> fst ` set rows), bt') \<and> h' \<le> h
    \<and> root_page bt' = root_page bt \<and> root_separators bt \<le> Suc (root_separators bt') \<and> table_rep crc bt' h' (delete_row key rows)"
proof -
  from rep obtain t where t: "pio.holds crc (bt_pager bt) t" "root_page bt = root_id t" "height t = h"
    "entries t = map encode_entry rows" "balanced t" and rows: "list_all (\<lambda>r. row_ok (snd r)) rows"
    by (auto simp: table_rep_def)
  have hf: "height t \<le> fuel" "3 * height t \<le> fuel" using fuel t(3) by simp_all
  show ?thesis
  proof (cases "map_of rows key")
    case None
    then have nk: "key \<notin> fst ` set rows" by (simp add: map_of_eq_None_iff)
    then have same: "delete_row key rows = rows" by (auto simp: delete_row_def filter_id_conv)
    have "map_of (entries t) key = None" using None by (simp add: t(4) encode_lookup)
    from pio.btree_delete_absent [OF t(1,2) this hf(1), of pick io] obtain s' where
      s: "btree_delete (pager_ops crc pick io) fuel key bt = (Inr False, bt\<lparr>bt_pager := s'\<rparr>)" "pio.keeps crc (bt_pager bt) s'"
      by blast
    have "table_rep crc (bt\<lparr>bt_pager := s'\<rparr>) h rows"
      using t rows pio.keeps_holds [OF s(2) t(1)] by (auto simp: table_rep_def)
    moreover have "root_separators (bt\<lparr>bt_pager := s'\<rparr>) = root_separators bt" using s(2) by (simp add: root_separators_def pio.keeps_def)
    ultimately show ?thesis using s(1) nk same by auto
  next
    case (Some r)
    then have k: "key \<in> fst ` set rows" by (force dest: map_of_SomeD)
    have d: "map_of (entries t) key = Some (serialize_row r)" using Some by (simp add: t(4) encode_lookup)
    have at: "tree_at (page_view (bt_pager bt)) 0 t" using t(1) by (simp add: pio.holds_def)
    note sep = root_separators_tree [OF at t(2)]
    have "height t = 1 \<or> MIN_KEYS < length es \<or> repairable t" if "leaf_of t key es" for es
      using keep [OF k]
    proof (elim disjE conjE)
      assume "2 \<le> root_separators bt" "list_all (\<lambda>r. length (serialize_row (snd r)) \<le> 52) rows"
      with sep t(4,5) show ?thesis by (auto simp: repairable_def encode_entry_def list_all_iff)
    qed (use that t(1,2) no_separators [OF t(5)] sep in \<open>auto simp: leaf_keeps_min_def\<close>)
    from pio.btree_delete_ok [OF t(1,2) d hf(2) this, of pick io] t(5) obtain bt' t' where
      b: "btree_delete (pager_ops crc pick io) fuel key bt = (Inr True, bt')" "pio.holds crc (bt_pager bt') t'"
        "root_page bt' = root_id t'" "root_id t' = root_id t" "entries t' = delete_entry key (entries t)" "height t' \<le> height t" "balanced t'" "root_keys t \<le> Suc (root_keys t')"
      by blast
    have "root_separators bt' = root_keys t'" by (rule root_separators_tree) (use b(2,3) in \<open>simp_all add: pio.holds_def\<close>)
    then have keys: "root_separators bt \<le> Suc (root_separators bt')" using b(8) sep by simp
    have "table_rep crc bt' (height t') (delete_row key rows)"
      using b(2,3,5,7) row_ok_delete [OF rows] unfolding table_rep_def by (auto simp: t(4) encode_delete)
    with b(1,3,4,6) k t(2,3) keys show ?thesis by auto
  qed
qed

section \<open>A sample table\<close>

abbreviation sample_ops :: "pager page_ops" where
  "sample_ops \<equiv> pager_ops sample_crc (\<lambda>_. None) io_ok"

definition sample_table :: "pager btree" where
  "sample_table = (case btree_new sample_ops sample_written of
     (Inr bt, _) \<Rightarrow> bt | (Inl _, p) \<Rightarrow> \<lparr>root_page = 0, bt_pager = p\<rparr>)"

definition sample_full :: "pager btree" where
  "sample_full = snd (btree_insert sample_ops 3 5 [VInteger 7] sample_table)"

lemma sample_table_rep: "table_rep sample_crc sample_table 1 []" "4 < page_room (bt_pager sample_table)"
proof -
  have w: "writing sample_crc sample_written" using sample_written_facts by (simp add: writing_def)
  have v: "page_view sample_written 0 \<noteq> None"
    using sample_written_facts(1) [of sample_crc] sample_written_facts(3) by (simp add: pager_inv_def view_ok_def)
  have "0 < page_room sample_written" by (simp add: page_room_def sample_written_facts)
  from pio.btree_new_ok [OF w v this, of "\<lambda>_. None" io_ok] obtain p s where
    n: "btree_new sample_ops sample_written = (Inr \<lparr>root_page = p, bt_pager = s\<rparr>, s)" and h: "pio.holds sample_crc s (TLeaf p [])"
    and st: "pio.steps sample_crc {p} 1 sample_written s"
    by auto
  show "table_rep sample_crc sample_table 1 []"
    using h by (auto simp: table_rep_def sample_table_def n entries_def intro!: exI [of _ "TLeaf p []"])
  show "4 < page_room (bt_pager sample_table)"
    using st by (simp add: sample_table_def n pio.steps_def page_room_def sample_written_facts)
qed

lemma sample_full_rep:
  "table_rep sample_crc sample_full 1 [(5, [VInteger 7])]" "1 < page_room (bt_pager sample_full)"
proof -
  obtain t where t: "pio.holds sample_crc (bt_pager sample_table) t" "root_page sample_table = root_id t" "height t = 1"
    "entries t = []" "balanced t"
    using sample_table_rep(1) by (auto simp: table_rep_def)
  obtain q es where tl: "t = TLeaf q es" by (rule height_one [OF t(3)])
  then have es: "es = []" using t(4) by (simp add: entries_def)
  have leaf: "fs = []" if "leaf_of t 5 fs" for fs
    using that by (auto simp: leaf_of_def tl es append_eq_Cons_conv Cons_eq_append_conv)
  have len: "length (serialize_row [VInteger 7]) = 13" by (simp add: length_serialize_row size_bytes_def)
  have fits: "fits_leaf (serialize_row [VInteger 7]) fs" if "leaf_of t 5 fs" for fs
    using leaf [OF that] by (simp add: fits_leaf_def len HEADER_SIZE_def page_size_def)
  then have one: "one_split 5 (serialize_row [VInteger 7]) fs" if "leaf_of t 5 fs" for fs
    using that by (simp add: one_split_def)
  have "map_of (entries t) 5 = None" using t(4) by simp
  from pio.btree_insert_ok [OF t(1,2) this one, of 3 "\<lambda>_. None" io_ok] sample_table_rep(2) fits obtain bt' t' where
    r: "btree_insert sample_ops 3 5 [VInteger 7] sample_table = (Inr (), bt')" "pio.holds sample_crc (bt_pager bt') t'"
      "root_page bt' = root_id t'" "entries t' = insert_entry 5 (serialize_row [VInteger 7]) []" "height t' \<le> 1"
      "pio.changed sample_crc (Suc 1) (bt_pager sample_table) t (bt_pager bt') t'"
    by (auto simp: t(3,4))
  have "height t' = 1" using r(5) by (cases t') simp_all
  then show "table_rep sample_crc sample_full 1 [(5, [VInteger 7])]"
    using r(1-4,6) t(5) by (auto simp: table_rep_def sample_full_def insert_entry_def encode_entry_def row_ok_def value_ok_def pio.changed_def)
  show "1 < page_room (bt_pager sample_full)"
    using r(1,6) sample_table_rep(2) by (simp add: sample_full_def pio.changed_def pio.steps_def)
qed

text \<open>A tree with a wide root, whose leaves are below the minimum fill.\<close>

lemma sample_wide: "\<exists>bt. table_rep sample_crc bt 2 [(1, [VNull]), (2, [VNull]), (3, [VNull])] \<and> root_separators bt = 2"
proof -
  let ?v = "page_view :: pager \<Rightarrow> nat \<Rightarrow> bytes option" and ?steps = "pio.steps sample_crc"
  let ?e = "\<lambda>k. encode_entry (k, [VNull])"
  have w: "writing sample_crc sample_written" using sample_written_facts by (simp add: writing_def)
  have z: "?v sample_written 0 \<noteq> None"
    using sample_written_facts(1) [of sample_crc] sample_written_facts(3) by (simp add: pager_inv_def view_ok_def)
  have room: "4 < page_room sample_written" by (simp add: page_room_def sample_written_facts)
  have new: "\<exists>p s'. ?v s p = None \<and> p < 2 ^ 32 \<and> ?steps {p} 1 s s' \<and> ?v s' = (?v s)(p \<mapsto> blank_page)"
    if "writing sample_crc s" "0 < page_room s" for s
    using pio.alloc_steps [OF that, of "\<lambda>_. None" io_ok] by blast
  obtain r s1 where 1: "?v sample_written r = None" "r < 2 ^ 32" "?steps {r} 1 sample_written s1" "?v s1 = (?v sample_written)(r \<mapsto> blank_page)"
    using new [OF w] room by auto
  obtain a s2 where 2: "?v s1 a = None" "a < 2 ^ 32" "?steps {a} 1 s1 s2" "?v s2 = (?v s1)(a \<mapsto> blank_page)"
    using new [of s1] pio.steps_inv [OF 1(3)] 1(3) room by (auto simp: pio.steps_def)
  obtain b s3 where 3: "?v s2 b = None" "b < 2 ^ 32" "?steps {b} 1 s2 s3" "?v s3 = (?v s2)(b \<mapsto> blank_page)"
    using new [of s2] pio.steps_inv [OF 2(3)] 1(3) 2(3) room by (auto simp: pio.steps_def)
  obtain c s4 where 4: "?v s3 c = None" "c < 2 ^ 32" "?steps {c} 1 s3 s4" "?v s4 = (?v s3)(c \<mapsto> blank_page)"
    using new [of s3] pio.steps_inv [OF 3(3)] 1(3) 2(3) 3(3) room by (auto simp: pio.steps_def)
  have d: "distinct [0, r, a, b, c]" using z 1(1,4) 2(1,4) 3(1,4) 4(1) by (auto split: if_splits intro!: gr0I)
  have len: "length (serialize_row [VNull]) \<le> 52" by (simp add: length_serialize_row size_bytes_def)
  have leaf: "\<exists>page. leaf_page page r [?e k]" for k
    by (rule fresh_leaf [of "[?e k]" r, OF _ 1(2) refl]) (use len in \<open>auto simp: encode_entry_def HEADER_SIZE_def page_size_def\<close>)
  then obtain pa pb pc where leaves: "leaf_page pa r [?e 1]" "leaf_page pb r [?e 2]" "leaf_page pc r [?e 3]" by metis
  obtain pr where root: "node_page pr 0 a [(2, b), (3, c)]"
    by (rule fresh_node [of _ "[(2, b), (3, c)]" 0 a, OF refl _ _ _ _ refl refl])
      (use 2(2) 3(2) 4(2) u32_u64 in \<open>auto simp: HEADER_SIZE_def page_size_def pairs_ok_def\<close>)
  have put: "\<exists>s'. ?steps {p} 0 s s' \<and> ?v s' = (?v s)(p \<mapsto> x)" if "writing sample_crc s" "?v s p \<noteq> None" "length x = page_size" for s p and x :: bytes
    using pio.write_steps [OF that, of "\<lambda>_. None" io_ok] by blast
  have lens: "length pr = page_size" "length pa = page_size" "length pb = page_size" "length pc = page_size"
    using leaves root by (simp_all add: leaf_page_def node_page_def)
  have alive: "?v s4 r \<noteq> None" "?v s4 a \<noteq> None" "?v s4 b \<noteq> None" "?v s4 c \<noteq> None"
    by (simp_all add: 1(4) 2(4) 3(4) 4(4))
  obtain s5 where 5: "?steps {r} 0 s4 s5" "?v s5 = (?v s4)(r \<mapsto> pr)"
    using put [OF pio.steps_inv [OF 4(3)] alive(1) lens(1)] by blast
  obtain s6 where 6: "?steps {a} 0 s5 s6" "?v s6 = (?v s5)(a \<mapsto> pa)"
    using put [OF pio.steps_inv [OF 5(1)] pio.steps_alive [OF 5(1) alive(2)] lens(2)] by blast
  note 56 = pio.steps_trans [OF 5(1) 6(1)]
  obtain s7 where 7: "?steps {b} 0 s6 s7" "?v s7 = (?v s6)(b \<mapsto> pb)"
    using put [OF pio.steps_inv [OF 56] pio.steps_alive [OF 56 alive(3)] lens(3)] by blast
  note 57 = pio.steps_trans [OF 56 7(1)]
  obtain s8 where 8: "?steps {c} 0 s7 s8" "?v s8 = (?v s7)(c \<mapsto> pc)"
    using put [OF pio.steps_inv [OF 57] pio.steps_alive [OF 57 alive(4)] lens(4)] by blast
  let ?t = "TNode r (TLeaf a [?e 1]) [(2, TLeaf b [?e 2]), (3, TLeaf c [?e 3])]"
  have v: "?v s8 r = Some pr" "?v s8 a = Some pa" "?v s8 b = Some pb" "?v s8 c = Some pc" "?v s8 0 \<noteq> None"
    using d z by (auto simp: 8(2) 7(2) 6(2) 5(2) 4(4) 3(4) 2(4) 1(4))
  have at: "tree_at (?v s8) 0 ?t" using v(1-4) leaves root by (simp add: child_ids_def)
  have ord: "ordered (blocks ?t)" by (simp add: ordered_def encode_entry_def sub_blocks_def)
  have "ids_ok (ids ?t)" using d 1(2) 2(2) 3(2) 4(2) by (auto simp: ids_ok_def)
  then have h: "pio.holds sample_crc s8 ?t"
    using at ord v(5) pio.steps_inv [OF 8(1)] by (simp add: pio.holds_def)
  have "balanced ?t" unfolding balanced_def by (intro exI [of _ 1]) simp
  with h have "table_rep sample_crc \<lparr>root_page = r, bt_pager = s8\<rparr> 2 [(1, [VNull]), (2, [VNull]), (3, [VNull])]"
    unfolding table_rep_def by (intro exI [of _ ?t]) (simp add: entries_def sub_blocks_def row_ok_def value_ok_def)
  moreover have "root_separators \<lparr>root_page = r, bt_pager = s8\<rparr> = 2"
    using node_page_header [OF root] by (simp add: root_separators_def v(1))
  ultimately show ?thesis by blast
qed

section \<open>Properties\<close>

text \<open>
  C13: Inserting a row under a new key succeeds and leaves a well-formed tree that holds exactly the
  old rows and the new one, at its place in key order, for rows of at most 164 serialized bytes
  each, whatever splits of leaves and inner nodes and new root the insertion causes, as long as the
  page numbers do not run out; the tree grows by one level and uses a page per level and one more at
  most.
\<close>

theorem btree_insert_refines:
  assumes "table_rep crc bt h rows" and "key \<notin> fst ` set rows" and "row_ok row"
    and "list_all (\<lambda>r. length (serialize_row (snd r)) \<le> 164) ((key, row) # rows)"
    and "h < page_room (bt_pager bt)" and "3 * h \<le> fuel"
  shows "\<exists>bt' h'. btree_insert (pager_ops crc pick io) fuel key row bt = (Inr (), bt') \<and> h' \<le> Suc h
    \<and> table_rep crc bt' h' (insert_row key row rows) \<and> page_room (bt_pager bt) \<le> page_room (bt_pager bt') + Suc h"
  by (rule table_insert_ok [OF assms])

theorem btree_insert_refines_witness:
  "\<exists>bt' h'. btree_insert sample_ops 3 9 [VNull] sample_full = (Inr (), bt') \<and> h' \<le> 2
    \<and> table_rep sample_crc bt' h' [(5, [VInteger 7]), (9, [VNull])]"
proof -
  have "\<exists>bt' h'. btree_insert sample_ops 3 9 [VNull] sample_full = (Inr (), bt') \<and> h' \<le> Suc 1
      \<and> table_rep sample_crc bt' h' (insert_row 9 [VNull] [(5, [VInteger 7])])
      \<and> page_room (bt_pager sample_full) \<le> page_room (bt_pager bt') + Suc 1"
    by (rule btree_insert_refines [OF sample_full_rep(1) _ _ _ sample_full_rep(2)])
      (simp_all add: row_ok_def value_ok_def length_serialize_row size_bytes_def)
  then obtain bt' h' where r: "btree_insert sample_ops 3 9 [VNull] sample_full = (Inr (), bt')" "h' \<le> Suc 1"
    "table_rep sample_crc bt' h' (insert_row 9 [VNull] [(5, [VInteger 7])])"
    by blast
  then show ?thesis by (auto simp: insert_row_def numeral_2_eq_2)
qed

text \<open>
  C14: A search returns the row stored under the key, as the row format returns it, and nothing for
  a key that is not in the table; the table does not change.
\<close>

theorem btree_search_refines:
  assumes "table_rep crc bt h rows" and "h \<le> fuel"
  shows "fst (btree_search (pager_ops crc pick io) fuel key bt) = Inr (map_option stored_row (map_of rows key))
    \<and> table_rep crc (snd (btree_search (pager_ops crc pick io) fuel key bt)) h rows"
  by (rule table_search_ok [OF assms])

theorem btree_search_refines_witness:
  "fst (btree_search sample_ops 2 5 sample_full) = Inr (Some [VInteger 7])"
  using btree_search_refines [OF sample_full_rep(1), of 2 "\<lambda>_. None" io_ok 5] by (simp add: stored_value_def)

text \<open>
  C15: A scan returns every row of the table once, in ascending order of the keys, and does not
  change the table.
\<close>

theorem btree_scan_refines:
  assumes "table_rep crc bt h rows" and "h \<le> fuel"
  shows "fst (btree_scan (pager_ops crc pick io) fuel bt) = Inr (map as_stored rows)
    \<and> sorted_wrt (\<lambda>a b. sint (fst a) < sint (fst b)) rows
    \<and> table_rep crc (snd (btree_scan (pager_ops crc pick io) fuel bt)) h rows"
  by (rule table_scan_ok [OF assms])

theorem btree_scan_refines_witness:
  "fst (btree_scan sample_ops 2 sample_full) = Inr [(5, [VInteger 7])]"
  using btree_scan_refines [OF sample_full_rep(1), of 2 "\<lambda>_. None" io_ok] by (simp add: as_stored_def stored_value_def)

text \<open>
  C16: Deleting a key answers whether it was there and removes exactly its row, and leaves a balanced
  tree under the same root: when the tree is a single leaf, when the leaf of the key stays at its
  minimum fill, and when the root page has two separators and rows take at most 52 serialized bytes each,
  whatever borrowing from siblings, merging and climbing of merges the deletion causes; the root
  loses one separator at most.
\<close>

theorem btree_delete_refines:
  assumes "table_rep crc bt h rows" and "3 * h \<le> fuel"
    and "key \<in> fst ` set rows \<Longrightarrow> root_separators bt = 0 \<or> leaf_keeps_min crc bt key
      \<or> 2 \<le> root_separators bt \<and> list_all (\<lambda>r. length (serialize_row (snd r)) \<le> 52) rows"
  shows "\<exists>bt' h'. btree_delete (pager_ops crc pick io) fuel key bt = (Inr (key \<in> fst ` set rows), bt') \<and> h' \<le> h
    \<and> root_page bt' = root_page bt \<and> root_separators bt \<le> Suc (root_separators bt') \<and> table_rep crc bt' h' (delete_row key rows)"
  by (rule table_delete_ok [OF assms])

theorem btree_delete_refines_witness:
  "(\<exists>bt' h'. btree_delete sample_ops 3 5 sample_full = (Inr True, bt') \<and> h' \<le> 1 \<and> table_rep sample_crc bt' h' [])
   \<and> (\<exists>bt bt' h'. table_rep sample_crc bt 2 [(1, [VNull]), (2, [VNull]), (3, [VNull])] \<and> root_separators bt = 2
        \<and> btree_delete sample_ops 6 2 bt = (Inr True, bt') \<and> h' \<le> 2
        \<and> table_rep sample_crc bt' h' [(1, [VNull]), (3, [VNull])])"
proof
  show "\<exists>bt' h'. btree_delete sample_ops 3 5 sample_full = (Inr True, bt') \<and> h' \<le> 1 \<and> table_rep sample_crc bt' h' []"
    using btree_delete_refines [OF sample_full_rep(1), of 3 5 "\<lambda>_. None" io_ok] single_leaf [OF sample_full_rep(1)]
    by (auto simp: delete_row_def)
  obtain bt where bt: "table_rep sample_crc bt 2 [(1, [VNull]), (2, [VNull]), (3, [VNull])]" "root_separators bt = 2"
    using sample_wide by blast
  then show "\<exists>bt bt' h'. table_rep sample_crc bt 2 [(1, [VNull]), (2, [VNull]), (3, [VNull])] \<and> root_separators bt = 2
      \<and> btree_delete sample_ops 6 2 bt = (Inr True, bt') \<and> h' \<le> 2
      \<and> table_rep sample_crc bt' h' [(1, [VNull]), (3, [VNull])]"
    using btree_delete_refines [OF bt(1), of 6 2 "\<lambda>_. None" io_ok]
    by (auto simp: delete_row_def length_serialize_row size_bytes_def)
qed

end
