(* ===== verification/Schema.thy ===== *)
theory Schema
  imports BTreePager
begin

text \<open>
  The schema of \<open>src/storage.rs\<close>: the table map, its encoding into the chain of schema pages that
  starts at page 1 (\<open>save_schema\<close>), and the loader that rebuilds the table map and the roots of the
  trees from those pages (\<open>load_schema\<close>).

  A \<open>HashMap\<close> is an \<open>fmap\<close>; where the code iterates over one, the order it meets the keys in is an
  argument (\<open>ord\<close>). A \<open>BTree\<close> handle is its root page, since all of them share the pager.
\<close>

section \<open>Tables\<close>

record table_schema =
  ts_name :: string
  ts_columns :: "column list"
  ts_root_page :: nat

type_synonym schema = "(string, table_schema) fmap"

definition schema_new :: schema where
  "schema_new = fmempty"

definition create_table :: "table_schema \<Rightarrow> schema \<Rightarrow> unit result \<times> schema" where
  "create_table table sc =
     (if ts_name table |\<in>| fmdom sc then (Inl (Error ConstraintViolation), sc)
      else (Inr (), fmupd (ts_name table) table sc))"

definition get_table :: "string \<Rightarrow> schema \<Rightarrow> table_schema result" where
  "get_table name sc = (case fmlookup sc name of None \<Rightarrow> Inl (Error NotFound) | Some t \<Rightarrow> Inr t)"

definition drop_table :: "string \<Rightarrow> schema \<Rightarrow> unit result \<times> schema" where
  "drop_table name sc =
     (if name |\<in>| fmdom sc then (Inr (), fmdrop name sc) else (Inl (Error NotFound), sc))"

definition list_tables :: "(string fset \<Rightarrow> string list) \<Rightarrow> schema \<Rightarrow> string list" where
  "list_tables ord sc = ord (fmdom sc)"

section \<open>Encoding\<close>

definition type_bytes :: "data_type \<Rightarrow> bytes" where
  "type_bytes t =
     (case t of DtInteger \<Rightarrow> [0] | DtReal \<Rightarrow> [1] | DtText \<Rightarrow> [2] | DtBlob \<Rightarrow> [3] | DtNull \<Rightarrow> [4]
      | DtVector dim \<Rightarrow> 5 # le_bytes 4 dim)"

definition column_flags :: "column \<Rightarrow> u8" where
  "column_flags c =
     or (or (if col_primary_key c then 1 else 0) (if col_not_null c then 2 else 0)) (if col_unique c then 4 else 0)"

definition encode_column :: "nat \<Rightarrow> column \<Rightarrow> bytes" where
  "encode_column rp c =
     le_bytes 4 (length (col_name c)) @ str_bytes (col_name c) @ type_bytes (col_data_type c)
     @ [column_flags c] @ le_bytes 8 rp"

definition encode_table :: "(string, nat) fmap \<Rightarrow> string \<Rightarrow> table_schema \<Rightarrow> bytes" where
  "encode_table btrees name t =
     (let rp = (case fmlookup btrees name of Some rp \<Rightarrow> rp | None \<Rightarrow> 0) in
      le_bytes 4 (length name) @ str_bytes name @ le_bytes 4 (length (ts_columns t))
      @ concat (map (encode_column rp) (ts_columns t)))"

definition encode_schema :: "(string fset \<Rightarrow> string list) \<Rightarrow> schema \<Rightarrow> (string, nat) fmap \<Rightarrow> bytes" where
  "encode_schema ord sc btrees =
     (let tables = list_tables ord sc in
      le_bytes 4 (length tables)
      @ concat (map (\<lambda>name. case get_table name sc of Inl _ \<Rightarrow> [] | Inr t \<Rightarrow> encode_table btrees name t) tables))"

definition usable_size :: nat where
  "usable_size = page_size - 4"

definition schema_pages_needed :: "bytes \<Rightarrow> nat" where
  "schema_pages_needed buffer =
     (if buffer = [] then 1 else (length buffer + usable_size - 1) div usable_size)"

text \<open>The page of one chunk: its length, its bytes, zeros.\<close>

definition chunk_page :: "bytes \<Rightarrow> nat \<Rightarrow> bytes result" where
  "chunk_page buffer page_idx =
     (let start = page_idx * usable_size; stop = min (start + usable_size) (length buffer) in
      rbind (slice start stop buffer) (\<lambda>chunk.
      rbind (put 0 (le_bytes 4 (length chunk)) page_new) (\<lambda>page.
        put 4 chunk page)))"

fun write_chunks :: "pager page_ops \<Rightarrow> bytes \<Rightarrow> nat list \<Rightarrow> (pager, unit) op" where
  "write_chunks P buffer [] = mret ()"
| "write_chunks P buffer (i # is) =
     mbind (mlift (chunk_page buffer i)) (\<lambda>page.
     mbind (po_write P (1 + i) page) (\<lambda>_. write_chunks P buffer is))"

text \<open>\<open>while pager.num_pages() < 1 + num_pages_needed\<close>: every allocation adds one page, so the loop
  runs as often as pages are missing.\<close>

fun allocate_pages :: "pager page_ops \<Rightarrow> nat \<Rightarrow> (pager, unit) op" where
  "allocate_pages P 0 = mret ()"
| "allocate_pages P (Suc n) = mbind (po_alloc P) (\<lambda>_. allocate_pages P n)"

definition save_pages :: "pager page_ops \<Rightarrow> bytes \<Rightarrow> (pager, unit) op" where
  "save_pages P buffer p =
     (let n = schema_pages_needed buffer in
      mbind (allocate_pages P (1 + n - num_pages p)) (\<lambda>_. write_chunks P buffer [0..<n]) p)"

section \<open>Decoding\<close>

text \<open>The chunks of the pages from 1 on, up to the first one that is not full.\<close>

fun read_chunks :: "pager page_ops \<Rightarrow> nat list \<Rightarrow> (pager, bytes) op" where
  "read_chunks P [] = mret []"
| "read_chunks P (schema_page # pages) =
     mbind (po_read P schema_page) (\<lambda>page_data.
       if length page_data < 4 then mret []
       else
         let chunk_len = le_nat (take 4 page_data);
             chunk = take (min (4 + chunk_len) (length page_data) - 4) (drop 4 page_data)
         in if chunk_len < page_size - 4 then mret chunk
            else mbind (read_chunks P pages) (\<lambda>rest. mret (chunk @ rest)))"

definition decode_type :: "nat \<Rightarrow> bytes \<Rightarrow> (data_type \<times> nat) result" where
  "decode_type offset data =
     rbind (byte_at offset data) (\<lambda>data_type_byte. let offset = offset + 1 in
       if data_type_byte = 0 then Inr (DtInteger, offset)
       else if data_type_byte = 1 then Inr (DtReal, offset)
       else if data_type_byte = 2 then Inr (DtText, offset)
       else if data_type_byte = 3 then Inr (DtBlob, offset)
       else if data_type_byte = 5 then
         (if length data < offset + 4 then Inl (Error Corruption)
          else rbind (read_u32 offset data) (\<lambda>dim. Inr (DtVector dim, offset + 4)))
       else Inl (Error Corruption))"

text \<open>One column: the column, its root page field and the offset behind it.\<close>

definition decode_column :: "nat \<Rightarrow> bytes \<Rightarrow> (column \<times> nat \<times> nat) result" where
  "decode_column offset data =
     (if length data < offset + 4 then Inl (Error Corruption)
      else
        rbind (read_u32 offset data) (\<lambda>col_name_len. let offset = offset + 4 in
        if length data < offset + col_name_len + 10 then Inl (Error Corruption)
        else
          rbind (rbind (slice offset (offset + col_name_len) data) from_utf8) (\<lambda>cname.
          rbind (decode_type (offset + col_name_len) data) (\<lambda>(data_type, offset).
          if length data < offset + 9 then Inl (Error Corruption)
          else
            rbind (byte_at offset data) (\<lambda>flags.
            rbind (read_u64 (offset + 1) data) (\<lambda>rp.
              Inr (\<lparr>col_name = cname, col_data_type = data_type, col_primary_key = bit flags 0,
                    col_not_null = bit flags 1, col_unique = bit flags 2\<rparr>, rp, offset + 9)))))))"

fun decode_columns :: "nat \<Rightarrow> nat \<Rightarrow> bytes \<Rightarrow> nat \<Rightarrow> (column list \<times> nat \<times> nat) result" where
  "decode_columns 0 offset data table_root_page = Inr ([], table_root_page, offset)"
| "decode_columns (Suc n) offset data table_root_page =
     rbind (decode_column offset data) (\<lambda>(c, rp, offset).
     rbind (decode_columns n offset data
              (if table_root_page = 0 \<and> rp \<noteq> 0 then rp else table_root_page))
       (\<lambda>(cs, root, offset). Inr (c # cs, root, offset)))"

definition decode_table :: "nat \<Rightarrow> bytes \<Rightarrow> (string \<times> column list \<times> nat \<times> nat) result" where
  "decode_table offset data =
     (if length data < offset + 4 then Inl (Error Corruption)
      else
        rbind (read_u32 offset data) (\<lambda>name_len. let offset = offset + 4 in
        if length data < offset + name_len then Inl (Error Corruption)
        else
          rbind (rbind (slice offset (offset + name_len) data) from_utf8) (\<lambda>table_name.
          let offset = offset + name_len in
          if length data < offset + 4 then Inl (Error Corruption)
          else
            rbind (read_u32 offset data) (\<lambda>num_cols.
            rbind (decode_columns num_cols (offset + 4) data 0) (\<lambda>(columns, root, offset).
              Inr (table_name, columns, root, offset))))))"

section \<open>Loading\<close>

text \<open>The part of the database the schema functions work on.\<close>

record catalog =
  ct_pager :: pager
  ct_schema :: schema
  ct_btrees :: "(string, nat) fmap"

definition on_ct_pager :: "(pager, 'a) op \<Rightarrow> (catalog, 'a) op" where
  "on_ct_pager m c = (case m (ct_pager c) of (r, p) \<Rightarrow> (r, c\<lparr>ct_pager := p\<rparr>))"

text \<open>A table without a root page is given a fresh empty leaf, in a group of its own if none is open.\<close>

definition fresh_root :: "pager page_ops \<Rightarrow> (pager, nat) op" where
  "fresh_root P =
     mbind (po_alloc P) (\<lambda>new_root_page.
     mbind (mlift (serialize_header new_leaf page_new)) (\<lambda>page.
     mbind (po_write P new_root_page page) (\<lambda>_. mret new_root_page)))"

definition repair_root :: "(bytes \<Rightarrow> 32 word) \<Rightarrow> io_env \<Rightarrow> pager page_ops \<Rightarrow> (pager, nat) op" where
  "repair_root crc io P p =
     (if in_group p then fresh_root P p
      else
        mbind begin_group (\<lambda>_ p1.
          case fresh_root P p1 of
            (Inr root, p2) \<Rightarrow> mbind (commit_group crc io) (\<lambda>_. mret root) p2
          | (Inl e, p2) \<Rightarrow> (Inl e, snd (abort_group p2))) p)"

fun load_tables ::
    "(bytes \<Rightarrow> 32 word) \<Rightarrow> io_env \<Rightarrow> pager page_ops \<Rightarrow> nat \<Rightarrow> nat \<Rightarrow> bytes \<Rightarrow> (catalog, unit) op" where
  "load_tables crc io P 0 offset data = mret ()"
| "load_tables crc io P (Suc n) offset data =
     mbind (mlift (decode_table offset data)) (\<lambda>(name, columns, table_root_page, offset).
     mbind (if table_root_page = 0 then on_ct_pager (repair_root crc io P) else mret table_root_page) (\<lambda>btree_root.
     mbind (\<lambda>c. (Inr (), c\<lparr>ct_btrees := fmupd name btree_root (ct_btrees c)\<rparr>)) (\<lambda>_.
     mbind (\<lambda>c. case create_table \<lparr>ts_name = name, ts_columns = columns, ts_root_page = btree_root\<rparr> (ct_schema c) of
               (r, sc) \<Rightarrow> (r, c\<lparr>ct_schema := sc\<rparr>)) (\<lambda>_.
       load_tables crc io P n offset data))))"

definition load_schema :: "(bytes \<Rightarrow> 32 word) \<Rightarrow> io_env \<Rightarrow> pager page_ops \<Rightarrow> (catalog, unit) op" where
  "load_schema crc io P c =
     mbind (on_ct_pager (read_chunks P [1..<num_pages (ct_pager c)])) (\<lambda>data.
       if length data < 4 then mret ()
       else mbind (mlift (read_u32 0 data)) (\<lambda>num_tables. load_tables crc io P num_tables 4 data)) c"

definition reload_schema :: "(bytes \<Rightarrow> 32 word) \<Rightarrow> io_env \<Rightarrow> pager page_ops \<Rightarrow> (catalog, unit) op" where
  "reload_schema crc io P c = load_schema crc io P (c\<lparr>ct_schema := schema_new, ct_btrees := fmempty\<rparr>)"

definition save_schema :: "(string fset \<Rightarrow> string list) \<Rightarrow> pager page_ops \<Rightarrow> (catalog, unit) op" where
  "save_schema ord P c = on_ct_pager (save_pages P (encode_schema ord (ct_schema c) (ct_btrees c))) c"

section \<open>Decoding what was encoded\<close>

definition type_ok :: "data_type \<Rightarrow> bool" where
  "type_ok t = (case t of DtNull \<Rightarrow> False | DtVector dim \<Rightarrow> dim < 2 ^ 32 | _ \<Rightarrow> True)"

definition column_ok :: "column \<Rightarrow> bool" where
  "column_ok c \<longleftrightarrow> length (col_name c) < 2 ^ 32 \<and> str_ok (col_name c) \<and> type_ok (col_data_type c)"

definition table_ok :: "table_schema \<Rightarrow> bool" where
  "table_ok t \<longleftrightarrow> length (ts_name t) < 2 ^ 32 \<and> str_ok (ts_name t) \<and> ts_columns t \<noteq> []
     \<and> length (ts_columns t) < 2 ^ 32 \<and> list_all column_ok (ts_columns t)
     \<and> 0 < ts_root_page t \<and> ts_root_page t < 2 ^ 64"

lemma column_flags_bits:
  "bit (column_flags c) 0 = col_primary_key c" "bit (column_flags c) 1 = col_not_null c" "bit (column_flags c) 2 = col_unique c"
  unfolding column_flags_def by (simp_all add: bit_or_iff bit_1_iff bit_numeral_simps)

lemma decode_type_mid:
  assumes "off = length pre" and "type_ok t"
  shows "decode_type off (pre @ type_bytes t @ post) = Inr (t, off + length (type_bytes t))"
proof (cases t)
  case (DtVector dim)
  have "read_u32 (Suc off) ((pre @ [5]) @ le_bytes 4 dim @ post) = Inr dim"
    by (rule read_u32_mid) (use assms DtVector in \<open>simp_all add: type_ok_def\<close>)
  with assms(1) DtVector show ?thesis
    by (simp add: decode_type_def type_bytes_def byte_at_def nth_append)
qed (use assms in \<open>simp_all add: decode_type_def type_bytes_def byte_at_def nth_append type_ok_def\<close>)

lemma length_type_bytes: "1 \<le> length (type_bytes t)"
  by (cases t) (simp_all add: type_bytes_def)

lemma decode_column_mid:
  assumes off: "off = length pre" and c: "column_ok c" and rp: "rp < 2 ^ 64"
  shows "decode_column off (pre @ encode_column rp c @ post) = Inr (c, rp, off + length (encode_column rp c))"
proof -
  let ?n = "str_bytes (col_name c)" and ?t = "type_bytes (col_data_type c)" and ?f = "column_flags c"
  let ?l = "le_bytes 4 (length (col_name c))" and ?r = "le_bytes 8 rp"
  let ?d = "pre @ encode_column rp c @ post"
  have d1: "?d = pre @ ?l @ (?n @ ?t @ [?f] @ ?r @ post)" and d2: "?d = (pre @ ?l) @ ?n @ (?t @ [?f] @ ?r @ post)"
    and d3: "?d = (pre @ ?l @ ?n) @ ?t @ ([?f] @ ?r @ post)" and d4: "?d = (pre @ ?l @ ?n @ ?t) @ ?f # (?r @ post)"
    and d5: "?d = (pre @ ?l @ ?n @ ?t @ [?f]) @ ?r @ post"
    by (simp_all add: encode_column_def)
  have ok: "length (col_name c) < 2 ^ 32" "str_ok (col_name c)" "type_ok (col_data_type c)" using c by (simp_all add: column_ok_def)
  have 1: "read_u32 off ?d = Inr (length (col_name c))" unfolding d1 by (rule read_u32_mid) (use off ok in simp_all)
  have 2: "slice (off + 4) (off + 4 + length (col_name c)) ?d = Inr ?n" unfolding d2 by (rule slice_mid) (use off in simp_all)
  have 3: "decode_type (off + 4 + length (col_name c)) ?d = Inr (col_data_type c, off + 4 + length (col_name c) + length ?t)"
    unfolding d3 by (rule decode_type_mid) (use off ok in simp_all)
  have 4: "byte_at (off + 4 + length (col_name c) + length ?t) ?d = Inr ?f" unfolding d4 by (rule byte_at_mid) (use off in simp)
  have 5: "read_u64 (off + 4 + length (col_name c) + length ?t + 1) ?d = Inr rp"
    unfolding d5 by (rule read_u64_mid) (use off rp in simp_all)
  have len: "length ?d = off + 4 + length (col_name c) + length ?t + 9 + length post" by (simp add: d1 off)
  have big: "\<not> length ?d < off + 4" "\<not> length ?d < off + 4 + length (col_name c) + 10"
    "\<not> length ?d < off + 4 + length (col_name c) + length ?t + 9"
    using length_type_bytes [of "col_data_type c"] unfolding len by linarith+
  have "decode_column off ?d = Inr (\<lparr>col_name = col_name c, col_data_type = col_data_type c, col_primary_key = bit ?f 0,
      col_not_null = bit ?f 1, col_unique = bit ?f 2\<rparr>, rp, off + 4 + length (col_name c) + length ?t + 9)"
    unfolding decode_column_def
    by (simp only: big if_False 1 2 3 4 5 rbind_Inr Let_def from_utf8_str_bytes [OF ok(2)] prod.case)
  also have "\<dots> = Inr (c, rp, off + length (encode_column rp c))"
    by (simp add: column_flags_bits [unfolded One_nat_def] encode_column_def)
  finally show ?thesis .
qed

lemma decode_columns_mid:
  assumes "off = length pre" and "list_all column_ok cs" and "rp < 2 ^ 64" and "0 < rp"
  shows "decode_columns (length cs) off (pre @ concat (map (encode_column rp) cs) @ post) r0 =
     Inr (cs, if r0 = 0 \<and> cs \<noteq> [] then rp else r0, off + length (concat (map (encode_column rp) cs)))"
  using assms(1,2)
proof (induction cs arbitrary: off pre r0)
  case (Cons c cs)
  let ?e = "encode_column rp c" and ?rest = "concat (map (encode_column rp) cs)"
  have 1: "decode_column off (pre @ ?e @ ?rest @ post) = Inr (c, rp, off + length ?e)"
    by (rule decode_column_mid) (use Cons.prems assms(3) in simp_all)
  have 2: "decode_columns (length cs) (off + length ?e) ((pre @ ?e) @ ?rest @ post) r =
      Inr (cs, if r = 0 \<and> cs \<noteq> [] then rp else r, off + length ?e + length ?rest)" for r
    by (rule Cons.IH) (use Cons.prems in simp_all)
  from 1 2 assms(4) show ?case by simp
qed simp

lemma decode_table_mid:
  assumes off: "off = length pre" and t: "table_ok t" and b: "fmlookup btrees (ts_name t) = Some (ts_root_page t)"
  shows "decode_table off (pre @ encode_table btrees (ts_name t) t @ post) =
     Inr (ts_name t, ts_columns t, ts_root_page t, off + length (encode_table btrees (ts_name t) t))"
proof -
  let ?n = "str_bytes (ts_name t)" and ?l = "le_bytes 4 (length (ts_name t))" and ?m = "le_bytes 4 (length (ts_columns t))"
  let ?c = "concat (map (encode_column (ts_root_page t)) (ts_columns t))"
  let ?d = "pre @ encode_table btrees (ts_name t) t @ post"
  have enc: "encode_table btrees (ts_name t) t = ?l @ ?n @ ?m @ ?c" by (simp add: encode_table_def b)
  have d1: "?d = pre @ ?l @ (?n @ ?m @ ?c @ post)" and d2: "?d = (pre @ ?l) @ ?n @ (?m @ ?c @ post)"
    and d3: "?d = (pre @ ?l @ ?n) @ ?m @ (?c @ post)" and d4: "?d = (pre @ ?l @ ?n @ ?m) @ ?c @ post"
    by (simp_all add: enc)
  have ok: "length (ts_name t) < 2 ^ 32" "str_ok (ts_name t)" "ts_columns t \<noteq> []" "length (ts_columns t) < 2 ^ 32"
    "list_all column_ok (ts_columns t)" "0 < ts_root_page t" "ts_root_page t < 2 ^ 64"
    using t by (simp_all add: table_ok_def)
  have 1: "read_u32 off ?d = Inr (length (ts_name t))" unfolding d1 by (rule read_u32_mid) (use off ok in simp_all)
  have 2: "slice (off + 4) (off + 4 + length (ts_name t)) ?d = Inr ?n" unfolding d2 by (rule slice_mid) (use off in simp_all)
  have 3: "read_u32 (off + 4 + length (ts_name t)) ?d = Inr (length (ts_columns t))"
    unfolding d3 by (rule read_u32_mid) (use off ok in simp_all)
  have 4: "decode_columns (length (ts_columns t)) (off + 4 + length (ts_name t) + 4) ?d 0 =
      Inr (ts_columns t, if (0::nat) = 0 \<and> ts_columns t \<noteq> [] then ts_root_page t else 0, off + 4 + length (ts_name t) + 4 + length ?c)"
    unfolding d4 by (rule decode_columns_mid) (use off ok in simp_all)
  have len: "length ?d = off + 4 + length (ts_name t) + 4 + length ?c + length post" by (simp add: d1 off)
  have big: "\<not> length ?d < off + 4" "\<not> length ?d < off + 4 + length (ts_name t)" "\<not> length ?d < off + 4 + length (ts_name t) + 4"
    unfolding len by simp_all
  have "decode_table off ?d = Inr (ts_name t, ts_columns t, if (0::nat) = 0 \<and> ts_columns t \<noteq> [] then ts_root_page t else 0,
      off + 4 + length (ts_name t) + 4 + length ?c)"
    unfolding decode_table_def
    by (simp only: big if_False 1 2 3 4 rbind_Inr Let_def from_utf8_str_bytes [OF ok(2)] prod.case)
  with ok(3) show ?thesis by (simp add: enc)
qed

end
