(* ===== verification/SchemaStore.thy ===== *)
theory SchemaStore
  imports Schema
begin

text \<open>
  Saving and loading the schema through the pager, for a schema that fits the schema page.
\<close>

section \<open>Rebuilding the table map\<close>

definition hash_order :: "(string fset \<Rightarrow> string list) \<Rightarrow> bool" where
  "hash_order ord \<longleftrightarrow> (\<forall>S. distinct (ord S) \<and> set (ord S) = fset S)"

text \<open>A table with the root of its tree, which is what the pages record.\<close>

definition synced :: "(string, nat) fmap \<Rightarrow> string \<Rightarrow> table_schema \<Rightarrow> table_schema" where
  "synced btrees name t = t\<lparr>ts_name := name, ts_root_page := (case fmlookup btrees name of Some rp \<Rightarrow> rp | None \<Rightarrow> 0)\<rparr>"

definition catalog_ok :: "schema \<Rightarrow> (string, nat) fmap \<Rightarrow> bool" where
  "catalog_ok sc btrees \<longleftrightarrow> fmdom btrees = fmdom sc
     \<and> (\<forall>name t. fmlookup sc name = Some t \<longrightarrow> table_ok (synced btrees name t))"

definition encode_named :: "schema \<Rightarrow> (string, nat) fmap \<Rightarrow> string \<Rightarrow> bytes" where
  "encode_named sc btrees name = (case get_table name sc of Inl _ \<Rightarrow> [] | Inr t \<Rightarrow> encode_table btrees name t)"

lemma encode_synced: "encode_table btrees name (synced btrees name t) = encode_table btrees name t"
  by (simp add: encode_table_def synced_def)

definition load_one :: "schema \<Rightarrow> (string, nat) fmap \<Rightarrow> string \<Rightarrow> catalog \<Rightarrow> catalog" where
  "load_one sc btrees name c = (case fmlookup sc name of None \<Rightarrow> c | Some t \<Rightarrow>
     c\<lparr>ct_btrees := fmupd name (ts_root_page (synced btrees name t)) (ct_btrees c),
       ct_schema := fmupd name (synced btrees name t) (ct_schema c)\<rparr>)"

lemma load_tables_mid:
  assumes ok: "catalog_ok sc btrees" and "distinct names" and "set names \<subseteq> fset (fmdom sc)"
    and "set names \<inter> fset (fmdom (ct_schema c)) = {}" and "off = length pre"
  shows "load_tables crc io P (length names) off (pre @ concat (map (encode_named sc btrees) names) @ post) c =
     (Inr (), fold (load_one sc btrees) names c)"
  using assms(2-)
proof (induction names arbitrary: c off pre)
  case (Cons name names)
  have "name |\<in>| fmdom sc" using Cons.prems(2) by simp
  then obtain t where t: "fmlookup sc name = Some t" by (auto simp: fmlookup_dom_iff)
  let ?t = "synced btrees name t"
  have tok: "table_ok ?t" using ok t by (simp add: catalog_ok_def)
  obtain rp where rp: "fmlookup btrees name = Some rp" using ok t by (metis catalog_ok_def fmdomI fmlookup_dom_iff)
  have nm: "ts_name ?t = name" "ts_root_page ?t = rp" by (simp_all add: synced_def rp)
  have enc: "encode_named sc btrees name = encode_table btrees (ts_name ?t) ?t"
    by (simp add: encode_named_def get_table_def t nm(1) encode_synced)
  let ?e = "encode_named sc btrees name" and ?rest = "concat (map (encode_named sc btrees) names)"
  have d: "decode_table off (pre @ ?e @ ?rest @ post) = Inr (name, ts_columns ?t, rp, off + length ?e)"
    unfolding enc using decode_table_mid [OF Cons.prems(4) tok, of btrees "?rest @ post"] by (simp add: nm rp)
  have "rp \<noteq> 0" using tok by (simp add: table_ok_def nm)
  have fresh: "\<not> name |\<in>| fmdom (ct_schema c)" using Cons.prems(3) by auto
  let ?c = "load_one sc btrees name c"
  have c1: "?c = c\<lparr>ct_btrees := fmupd name rp (ct_btrees c), ct_schema := fmupd name ?t (ct_schema c)\<rparr>"
    by (simp add: load_one_def t nm)
  have tt: "\<lparr>ts_name = name, ts_columns = ts_columns ?t, ts_root_page = rp\<rparr> = ?t" by (simp add: synced_def rp)
  have IH: "load_tables crc io P (length names) (off + length ?e) ((pre @ ?e) @ ?rest @ post) ?c = (Inr (), fold (load_one sc btrees) names ?c)"
    by (rule Cons.IH) (use Cons.prems in \<open>auto simp: c1\<close>)
  show ?case
    using d IH \<open>rp \<noteq> 0\<close> fresh by (simp add: mbind_def create_table_def tt nm(1) c1)
qed simp

lemma fold_load_one:
  "distinct names \<Longrightarrow> set names \<subseteq> fset (fmdom sc) \<Longrightarrow>
   ct_pager (fold (load_one sc btrees) names c) = ct_pager c
   \<and> fmlookup (ct_schema (fold (load_one sc btrees) names c)) n =
       (if n \<in> set names then map_option (synced btrees n) (fmlookup sc n) else fmlookup (ct_schema c) n)
   \<and> fmlookup (ct_btrees (fold (load_one sc btrees) names c)) n =
       (if n \<in> set names then map_option (\<lambda>t. ts_root_page (synced btrees n t)) (fmlookup sc n) else fmlookup (ct_btrees c) n)"
proof (induction names arbitrary: c)
  case (Cons name names)
  have "name |\<in>| fmdom sc" using Cons.prems(2) by simp
  then obtain t where t: "fmlookup sc name = Some t" by (auto simp: fmlookup_dom_iff)
  from Cons.IH [of "load_one sc btrees name c"] Cons.prems t show ?case by (auto simp: load_one_def)
qed simp

lemma load_all:
  assumes ok: "catalog_ok sc btrees" and ord: "hash_order ord"
  shows "fold (load_one sc btrees) (ord (fmdom sc)) (c\<lparr>ct_schema := fmempty, ct_btrees := fmempty\<rparr>) =
     c\<lparr>ct_schema := fmmap_keys (synced btrees) sc, ct_btrees := btrees\<rparr>"
proof -
  let ?names = "ord (fmdom sc)" and ?c = "c\<lparr>ct_schema := fmempty, ct_btrees := fmempty\<rparr>"
  let ?f = "fold (load_one sc btrees) ?names ?c"
  have names: "distinct ?names" "set ?names = fset (fmdom sc)" using ord by (simp_all add: hash_order_def)
  note F = fold_load_one [OF names(1), of sc btrees ?c]
  have "ct_schema ?f = fmmap_keys (synced btrees) sc"
    by (rule fmap_ext) (use F names in \<open>auto simp: fmlookup_dom_iff split: option.splits\<close>)
  moreover have "ct_btrees ?f = btrees"
  proof (rule fmap_ext)
    fix n
    show "fmlookup (ct_btrees ?f) n = fmlookup btrees n"
    proof (cases "fmlookup sc n")
      case None
      then have "fmlookup btrees n = None" using ok by (metis catalog_ok_def fmdom_notD fmdom_notI)
      with None F [of n] names show ?thesis by (auto simp: fmlookup_dom_iff)
    next
      case (Some t)
      then obtain rp where "fmlookup btrees n = Some rp" using ok by (metis catalog_ok_def fmdomI fmlookup_dom_iff)
      with Some F [of n] names show ?thesis by (auto simp: synced_def fmlookup_dom_iff)
    qed
  qed
  moreover have "ct_pager ?f = ct_pager c" using F names by simp
  ultimately show ?thesis by simp
qed

section \<open>The schema page\<close>

definition schema_page :: "bytes \<Rightarrow> bytes" where
  "schema_page buffer = le_bytes 4 (length buffer) @ buffer @ replicate (page_size - 4 - length buffer) 0"

lemma chunk_page_single:
  assumes "length buffer \<le> usable_size"
  shows "chunk_page buffer 0 = Inr (schema_page buffer)"
proof -
  have new: "page_new = replicate 4 0 @ replicate (length buffer) 0 @ replicate (page_size - 4 - length buffer) 0"
    using assms by (simp add: page_new_def usable_size_def page_size_def flip: replicate_add)
  have 1: "put 0 (le_bytes 4 (length buffer)) page_new =
      Inr (le_bytes 4 (length buffer) @ replicate (length buffer) 0 @ replicate (page_size - 4 - length buffer) 0)"
    unfolding new using put_mid [of 0 "[]" "le_bytes 4 (length buffer)" "replicate 4 0"] by simp
  have 2: "put 4 buffer (le_bytes 4 (length buffer) @ replicate (length buffer) 0 @ replicate (page_size - 4 - length buffer) 0) =
      Inr (schema_page buffer)"
    unfolding schema_page_def by (rule put_mid) simp_all
  have "slice 0 (min usable_size (length buffer)) buffer = Inr buffer" using assms by (simp add: slice_def)
  with 1 2 show ?thesis by (simp add: chunk_page_def)
qed

lemma length_schema_page: "length buffer \<le> usable_size \<Longrightarrow> length (schema_page buffer) = page_size"
  by (simp add: schema_page_def usable_size_def page_size_def)

lemma schema_pages_single:
  assumes "0 < length buffer" and "length buffer \<le> usable_size"
  shows "schema_pages_needed buffer = 1"
proof -
  have "(length buffer + usable_size - 1) div usable_size = 1"
    by (rule div_nat_eqI) (use assms in \<open>simp_all add: usable_size_def page_size_def Suc_le_eq\<close>)
  then show ?thesis using assms(1) by (simp add: schema_pages_needed_def)
qed

lemma save_pages_single:
  assumes w: "writing crc p" and n: "2 \<le> num_pages p" and b: "0 < length buffer" "length buffer \<le> usable_size"
  obtains p' where "save_pages (pager_ops crc pick io) buffer p = (Inr (), p')" and "writing crc p'"
    and "page_view p' = (page_view p)(1 \<mapsto> schema_page buffer)" and "num_pages p' = num_pages p"
proof -
  have v: "page_view p 1 \<noteq> None" using w n by (simp add: writing_def pager_inv_def view_ok_def)
  obtain p' where p': "po_write (pager_ops crc pick io) 1 (schema_page buffer) p = (Inr (), p')" "writing crc p'"
    "page_view p' = (page_view p)(1 \<mapsto> schema_page buffer)"
    using pio.write_ok [OF w v length_schema_page [OF b(2)], of pick io] by blast
  have "num_pages p' = num_pages p"
  proof -
    have "view_ok (page_view p') (num_pages p')" "view_ok (page_view p) (num_pages p)"
      using w p'(2) by (simp_all add: writing_def pager_inv_def)
    moreover have "view_ok ((page_view p)(1 \<mapsto> schema_page buffer)) (num_pages p)"
      using view_ok_upd [OF calculation(2) length_schema_page [OF b(2)], of 1] n by (simp split: if_splits)
    ultimately show ?thesis using p'(3) view_ok_unique by metis
  qed
  moreover have "1 + 1 - num_pages p = 0" using n by simp
  ultimately show thesis
    using that [of p'] p' by (simp add: save_pages_def schema_pages_single [OF b] chunk_page_single [OF b(2)] mbind_def)
qed

lemma read_chunks_single:
  assumes inv: "pager_inv crc p" and v: "page_view p 1 = Some (schema_page buffer)" and b: "length buffer < usable_size"
  obtains p' where "read_chunks (pager_ops crc pick io) [1..<num_pages p] p = (Inr buffer, p')" and "pager_inv crc p'"
    and "abs_pager p' = abs_pager p" and "active_group p' = active_group p" and "num_pages p' = num_pages p"
proof -
  let ?p = "snd (read_page pick 1 p)"
  have rd: "po_read (pager_ops crc pick io) 1 p = (Inr (schema_page buffer), ?p)"
    using read_page_result [OF inv, of pick 1] v by (simp add: pager_ops_def prod_eq_iff)
  have n: "1 < num_pages p" using inv v by (auto simp: pager_inv_def view_ok_def)
  have up: "[1..<num_pages p] = 1 # [2..<num_pages p]" using n by (simp add: upt_conv_Cons numeral_2_eq_2)
  have len: "length (schema_page buffer) = page_size" using length_schema_page b by simp
  have "le_nat (take 4 (schema_page buffer)) = length buffer"
    using b by (simp add: schema_page_def le_nat_le_bytes_id usable_size_def page_size_def)
  moreover have "take (length buffer) (drop 4 (schema_page buffer)) = buffer" by (simp add: schema_page_def)
  moreover have "length buffer < page_size - 4" using b by (simp add: usable_size_def)
  ultimately have "read_chunks (pager_ops crc pick io) [1..<num_pages p] p = (Inr buffer, ?p)"
    unfolding up using rd len by (simp add: mbind_def Let_def page_size_def)
  then show thesis using read_page_inv [OF inv, of pick 1] by (intro that)
qed

section \<open>Saving and loading\<close>

lemma encode_schema_named:
  "encode_schema ord sc btrees =
     le_bytes 4 (length (ord (fmdom sc))) @ concat (map (encode_named sc btrees) (ord (fmdom sc)))"
  by (simp add: encode_schema_def list_tables_def encode_named_def [abs_def] Let_def)

lemma encode_named_length:
  assumes "name |\<in>| fmdom sc"
  shows "1 \<le> length (encode_named sc btrees name)"
proof -
  obtain t where "fmlookup sc name = Some t" using assms by (auto simp: fmlookup_dom_iff)
  then show ?thesis by (simp add: encode_named_def get_table_def encode_table_def Let_def)
qed

lemma length_concat_ge: "(\<And>x. x \<in> set xs \<Longrightarrow> 1 \<le> length (f x)) \<Longrightarrow> length xs \<le> length (concat (map f xs))"
proof (induction xs)
  case (Cons x xs)
  then show ?case using Cons.prems [of x] by fastforce
qed simp

text \<open>The schema page records the tables \<open>sc\<close> with the roots \<open>bt\<close>; a database without one has a blank page.\<close>

definition stored_schema :: "(nat \<Rightarrow> bytes option) \<Rightarrow> schema \<Rightarrow> (string, nat) fmap \<Rightarrow> bool" where
  "stored_schema v sc bt \<longleftrightarrow> (\<exists>buf. v 1 = Some (schema_page buf) \<and>
     (buf = [] \<and> sc = fmempty \<and> bt = fmempty
      \<or> (\<exists>ord. hash_order ord \<and> buf = encode_schema ord sc bt) \<and> length buf < usable_size \<and> catalog_ok sc bt))"

lemma load_encoded:
  assumes ok: "catalog_ok sc bt" and ord: "hash_order ord" and size: "length (encode_schema ord sc bt) < usable_size"
  shows "mbind (mlift (read_u32 0 (encode_schema ord sc bt)))
      (\<lambda>n. load_tables crc io P n 4 (encode_schema ord sc bt)) (c\<lparr>ct_schema := fmempty, ct_btrees := fmempty\<rparr>) =
    (Inr (), c\<lparr>ct_schema := fmmap_keys (synced bt) sc, ct_btrees := bt\<rparr>)"
proof -
  let ?names = "ord (fmdom sc)" and ?buf = "encode_schema ord sc bt" and ?c0 = "c\<lparr>ct_schema := fmempty, ct_btrees := fmempty\<rparr>"
  have names: "distinct ?names" "set ?names = fset (fmdom sc)" using ord by (simp_all add: hash_order_def)
  have count: "length ?names < 2 ^ 32"
  proof -
    have "length ?names \<le> length (concat (map (encode_named sc bt) ?names))"
      by (rule length_concat_ge) (use names encode_named_length in auto)
    then show ?thesis using size by (simp add: encode_schema_named usable_size_def page_size_def)
  qed
  have rd: "read_u32 0 ?buf = Inr (length ?names)"
    unfolding encode_schema_named using read_u32_mid [of 0 "[]" "length ?names"] count by simp
  have "load_tables crc io P (length ?names) 4 (le_bytes 4 (length ?names) @ concat (map (encode_named sc bt) ?names) @ []) ?c0 =
      (Inr (), fold (load_one sc bt) ?names ?c0)"
    by (rule load_tables_mid [OF ok names(1)]) (use names in auto)
  then show ?thesis using rd load_all [OF ok ord] by (simp add: encode_schema_named)
qed

lemma reload_stored:
  assumes inv: "pager_inv crc (ct_pager c)" and st: "stored_schema (page_view (ct_pager c)) sc bt"
  obtains p' where "reload_schema crc io (pager_ops crc pick io) c =
      (Inr (), c\<lparr>ct_pager := p', ct_schema := fmmap_keys (synced bt) sc, ct_btrees := bt\<rparr>)"
    and "pager_inv crc p'" and "abs_pager p' = abs_pager (ct_pager c)" and "active_group p' = active_group (ct_pager c)"
    and "num_pages p' = num_pages (ct_pager c)"
proof -
  let ?P = "pager_ops crc pick io"
  from st obtain buf where v: "page_view (ct_pager c) 1 = Some (schema_page buf)"
    and buf: "buf = [] \<and> sc = fmempty \<and> bt = fmempty
      \<or> (\<exists>ord. hash_order ord \<and> buf = encode_schema ord sc bt) \<and> length buf < usable_size \<and> catalog_ok sc bt"
    by (auto simp: stored_schema_def)
  have size: "length buf < usable_size" using buf by (auto simp: usable_size_def page_size_def)
  obtain p' where p': "read_chunks ?P [1..<num_pages (ct_pager c)] (ct_pager c) = (Inr buf, p')" "pager_inv crc p'"
    "abs_pager p' = abs_pager (ct_pager c)" "active_group p' = active_group (ct_pager c)" "num_pages p' = num_pages (ct_pager c)"
    by (rule read_chunks_single [OF inv v size])
  have swap: "c\<lparr>ct_schema := s, ct_btrees := b, ct_pager := p'\<rparr> = c\<lparr>ct_pager := p', ct_schema := s, ct_btrees := b\<rparr>" for s b
    by (cases c) simp
  have "reload_schema crc io ?P c = (Inr (), c\<lparr>ct_pager := p', ct_schema := fmmap_keys (synced bt) sc, ct_btrees := bt\<rparr>)"
  proof (cases "buf = []")
    case True
    have "encode_schema ord sc bt \<noteq> []" for ord by (simp add: encode_schema_named flip: length_0_conv)
    with True buf have e: "sc = fmempty" "bt = fmempty" by metis+
    have "fmmap_keys (synced bt) sc = fmempty" by (rule fmap_ext) (simp add: e)
    with True p'(1) e show ?thesis by (simp add: reload_schema_def load_schema_def schema_new_def mbind_def on_ct_pager_def swap)
  next
    case False
    with buf obtain ord where b: "buf = encode_schema ord sc bt" "catalog_ok sc bt" and ord: "hash_order ord" by auto
    have "\<not> length buf < 4" by (simp add: b(1) encode_schema_named)
    with p'(1) load_encoded [OF b(2) ord size [unfolded b(1)], of crc io ?P "c\<lparr>ct_pager := p'\<rparr>"] show ?thesis
      by (simp add: reload_schema_def load_schema_def schema_new_def mbind_def on_ct_pager_def swap b(1))
  qed
  with p' show thesis by (intro that)
qed

lemma save_stored:
  assumes w: "writing crc (ct_pager c)" and n: "2 \<le> num_pages (ct_pager c)"
    and ok: "catalog_ok (ct_schema c) (ct_btrees c)" and ord: "hash_order ord"
    and size: "length (encode_schema ord (ct_schema c) (ct_btrees c)) < usable_size"
  obtains p' where "save_schema ord (pager_ops crc pick io) c = (Inr (), c\<lparr>ct_pager := p'\<rparr>)" and "writing crc p'"
    and "page_view p' = (page_view (ct_pager c))(1 \<mapsto> schema_page (encode_schema ord (ct_schema c) (ct_btrees c)))"
    and "stored_schema (page_view p') (ct_schema c) (ct_btrees c)" and "num_pages p' = num_pages (ct_pager c)"
proof -
  let ?buf = "encode_schema ord (ct_schema c) (ct_btrees c)"
  have pos: "0 < length ?buf" "length ?buf \<le> usable_size" using size by (simp_all add: encode_schema_named)
  obtain p' where p': "save_pages (pager_ops crc pick io) ?buf (ct_pager c) = (Inr (), p')" "writing crc p'"
    "page_view p' = (page_view (ct_pager c))(1 \<mapsto> schema_page ?buf)" "num_pages p' = num_pages (ct_pager c)"
    by (rule save_pages_single [OF w n pos])
  show thesis
  proof (rule that [OF _ p'(2,3) _ p'(4)])
    show "stored_schema (page_view p') (ct_schema c) (ct_btrees c)"
      unfolding stored_schema_def p'(3) using ok size ord by (intro exI [of _ ?buf]) auto
  qed (use p'(1) in \<open>simp add: save_schema_def on_ct_pager_def\<close>)
qed

section \<open>A schema that outgrows its page\<close>

lemma chunk_page_at:
  assumes "i * usable_size < length buffer"
  obtains page where "chunk_page buffer i = Inr page" and "length page = page_size"
    and "take 4 page = le_bytes 4 (min usable_size (length buffer - i * usable_size))"
    and "take (min usable_size (length buffer - i * usable_size)) (drop 4 page) = take usable_size (drop (i * usable_size) buffer)"
proof -
  let ?n = "min usable_size (length buffer - i * usable_size)"
  let ?chunk = "take usable_size (drop (i * usable_size) buffer)"
  have len: "length ?chunk = ?n" by simp
  have u: "?n \<le> usable_size" "usable_size + 4 = page_size" by (simp_all add: usable_size_def page_size_def)
  have sl: "slice (i * usable_size) (min (i * usable_size + usable_size) (length buffer)) buffer = Inr ?chunk"
    using assms by (auto simp: slice_def min_def)
  have new: "page_new = [] @ replicate 4 0 @ replicate (page_size - 4) 0"
    by (simp add: page_new_def page_size_def flip: replicate_add)
  have "replicate (page_size - 4) 0 = replicate ?n (0 :: u8) @ replicate (page_size - 4 - ?n) 0"
    using u by (simp flip: replicate_add)
  then have 1: "put 0 (le_bytes 4 ?n) page_new = Inr (le_bytes 4 ?n @ replicate ?n 0 @ replicate (page_size - 4 - ?n) 0)"
    unfolding new by (subst put_mid) simp_all
  have 2: "put 4 ?chunk (le_bytes 4 ?n @ replicate ?n 0 @ replicate (page_size - 4 - ?n) 0) =
      Inr (le_bytes 4 ?n @ ?chunk @ replicate (page_size - 4 - ?n) 0)"
    by (rule put_mid) (simp_all only: len length_replicate length_le_bytes)
  have "chunk_page buffer i = Inr (le_bytes 4 ?n @ ?chunk @ replicate (page_size - 4 - ?n) 0)"
    using sl 1 2 len by (simp add: chunk_page_def Let_def del: length_take length_drop)
  then show thesis
  proof (rule that)
    let ?page = "le_bytes 4 ?n @ ?chunk @ replicate (page_size - 4 - ?n) 0"
    show "length ?page = page_size"
      unfolding length_append len length_replicate length_le_bytes using u by linarith
    show "take 4 ?page = le_bytes 4 ?n" by simp
    have "drop 4 ?page = ?chunk @ replicate (page_size - 4 - ?n) 0" by simp
    then show "take ?n (drop 4 ?page) = ?chunk"
      using len by (metis append_eq_conv_conj)
  qed
qed

lemma save_pages_double:
  assumes w: "writing crc p" and n: "3 \<le> num_pages p" and b: "usable_size < length buffer" "length buffer \<le> 2 * usable_size"
  obtains p' page where "save_pages (pager_ops crc pick io) buffer p = (Inr (), p')" and "page_view p' 2 = Some page"
    and "take 4 page = le_bytes 4 (length buffer - usable_size)"
    and "take (length buffer - usable_size) (drop 4 page) = drop usable_size buffer" and "writing crc p'"
proof -
  let ?P = "pager_ops crc pick io"
  have alive: "page_view p 1 \<noteq> None" "page_view p 2 \<noteq> None" using w n by (simp_all add: writing_def pager_inv_def view_ok_def)
  have need: "schema_pages_needed buffer = 2"
  proof -
    have "(length buffer + usable_size - 1) div usable_size = 2"
      by (rule div_nat_eqI) (use b in \<open>simp_all add: usable_size_def page_size_def\<close>)
    then show ?thesis using b(1) by (auto simp: schema_pages_needed_def)
  qed
  obtain g0 where g0: "chunk_page buffer 0 = Inr g0" "length g0 = page_size" by (rule chunk_page_at [of 0 buffer]) (use b(1) in \<open>auto simp: usable_size_def page_size_def\<close>)
  have one: "1 * usable_size < length buffer" using b(1) by simp
  obtain g1 where g1: "chunk_page buffer 1 = Inr g1" "length g1 = page_size"
    "take 4 g1 = le_bytes 4 (min usable_size (length buffer - 1 * usable_size))"
    "take (min usable_size (length buffer - 1 * usable_size)) (drop 4 g1) = take usable_size (drop (1 * usable_size) buffer)"
    by (rule chunk_page_at [OF one])
  obtain p1 where p1: "po_write ?P 1 g0 p = (Inr (), p1)" "writing crc p1" "page_view p1 = (page_view p)(1 \<mapsto> g0)"
    using pio.write_ok [OF w alive(1) g0(2), of pick io] by blast
  have a2: "page_view p1 2 \<noteq> None" using alive(2) p1(3) by simp
  obtain p2 where p2: "po_write ?P 2 g1 p1 = (Inr (), p2)" "writing crc p2" "page_view p2 = (page_view p1)(2 \<mapsto> g1)"
    using pio.write_ok [OF p1(2) a2 g1(2), of pick io] by blast
  have "save_pages ?P buffer p = (Inr (), p2)"
    using n p1(1) p2(1) g0(1) g1(1) by (simp add: save_pages_def need mbind_def upt_rec numeral_2_eq_2)
  moreover have "min usable_size (length buffer - 1 * usable_size) = length buffer - usable_size"
    "take usable_size (drop (1 * usable_size) buffer) = drop usable_size buffer"
    using b(2) by simp_all
  ultimately show thesis using g1(3,4) p2(2,3) by (intro that [of p2 g1]) simp_all
qed

end
