(* ===== verification/SchemaTheorems.thy ===== *)
theory SchemaTheorems
  imports SchemaStore PagerTheorems "HOL-Library.List_Lexorder" "HOL-Library.Char_ord"
begin

text \<open>
  Properties of the stored schema: what \<open>save_schema\<close> writes, \<open>reload_schema\<close> reads back, and what
  happens when the schema no longer fits its page.
\<close>

section \<open>A sample catalog\<close>

definition sample_column :: column where
  "sample_column = \<lparr>col_name = ''id'', col_data_type = DtInteger, col_primary_key = True, col_not_null = True, col_unique = True\<rparr>"

definition sample_vector_column :: column where
  "sample_vector_column = \<lparr>col_name = ''v'', col_data_type = DtVector 3, col_primary_key = False, col_not_null = False, col_unique = False\<rparr>"

definition wide_column :: column where
  "wide_column = sample_column\<lparr>col_name := replicate 5000 CHR ''c''\<rparr>"

definition sample_pages :: pager where
  "sample_pages = buffer_page (\<lambda>_. None) 2 page_new (buffer_page (\<lambda>_. None) 1 page_new sample_written)"

definition sample_catalog :: "column list \<Rightarrow> catalog" where
  "sample_catalog cols = \<lparr>ct_pager = sample_pages,
     ct_schema = fmupd ''t'' \<lparr>ts_name = ''t'', ts_columns = cols, ts_root_page = 2\<rparr> fmempty,
     ct_btrees = fmupd ''t'' 2 fmempty\<rparr>"

lemma sample_pages_facts: "writing crc sample_pages" "num_pages sample_pages = 3"
proof -
  have w: "writing crc sample_written" using sample_written_facts by (simp add: writing_def)
  have len: "length page_new = page_size" by (simp add: page_new_def)
  have w1: "writing crc (buffer_page (\<lambda>_. None) 1 page_new sample_written)"
    by (rule buffer_page_writing [OF w _ len]) (simp add: sample_written_facts)
  show "writing crc sample_pages" unfolding sample_pages_def
    by (rule buffer_page_writing [OF w1 _ len]) (simp add: sample_written_facts buffer_page_count)
  show "num_pages sample_pages = 3" by (simp add: sample_pages_def buffer_page_count sample_written_facts)
qed

lemma hash_order_sorted: "hash_order sorted_list_of_fset"
  by (simp add: hash_order_def sorted_list_of_fset.rep_eq)

lemma encode_sample: "encode_schema sorted_list_of_fset (ct_schema (sample_catalog cols)) (ct_btrees (sample_catalog cols)) =
    le_bytes 4 1 @ encode_table (fmupd ''t'' 2 fmempty) ''t'' \<lparr>ts_name = ''t'', ts_columns = cols, ts_root_page = 2\<rparr>"
  by (simp add: encode_schema_def list_tables_def sample_catalog_def get_table_def sorted_list_of_fset.rep_eq)

section \<open>Round trip\<close>

text \<open>
  C11: The schema survives being stored. When the catalog is well-formed and its encoding fits the
  schema page, saving it succeeds, and discarding the in-memory tables and reloading from the pages
  succeeds and rebuilds the same tables, columns and roots; no page but the schema page changes. The
  order in which the hash map lists the tables does not matter.
\<close>

theorem schema_save_reload:
  assumes "writing crc (ct_pager c)" and "2 \<le> num_pages (ct_pager c)"
    and "catalog_ok (ct_schema c) (ct_btrees c)" and "hash_order ord"
    and "length (encode_schema ord (ct_schema c) (ct_btrees c)) < usable_size"
  shows "\<exists>c1 c2. save_schema ord (pager_ops crc pick io) c = (Inr (), c1)
     \<and> reload_schema crc io (pager_ops crc pick io) c1 = (Inr (), c2)
     \<and> ct_schema c2 = fmmap_keys (synced (ct_btrees c)) (ct_schema c) \<and> ct_btrees c2 = ct_btrees c
     \<and> (\<forall>pid. pid \<noteq> 1 \<longrightarrow> page_view (ct_pager c2) pid = page_view (ct_pager c) pid)"
proof -
  let ?P = "pager_ops crc pick io"
  obtain p1 where p1: "save_schema ord ?P c = (Inr (), c\<lparr>ct_pager := p1\<rparr>)" "writing crc p1"
    "page_view p1 = (page_view (ct_pager c))(1 \<mapsto> schema_page (encode_schema ord (ct_schema c) (ct_btrees c)))"
    "stored_schema (page_view p1) (ct_schema c) (ct_btrees c)"
    by (rule save_stored [OF assms])
  have inv: "pager_inv crc (ct_pager (c\<lparr>ct_pager := p1\<rparr>))" using p1(2) by (simp add: writing_def)
  have st: "stored_schema (page_view (ct_pager (c\<lparr>ct_pager := p1\<rparr>))) (ct_schema c) (ct_btrees c)" using p1(4) by simp
  obtain p2 where p2: "reload_schema crc io ?P (c\<lparr>ct_pager := p1\<rparr>) = (Inr (), c\<lparr>ct_pager := p1, ct_pager := p2,
      ct_schema := fmmap_keys (synced (ct_btrees c)) (ct_schema c), ct_btrees := ct_btrees c\<rparr>)" "abs_pager p2 = abs_pager p1"
    by (rule reload_stored [OF inv st, of io pick]) auto
  have "page_view p2 = page_view p1" using p2(2) by (rule abs_pager_view)
  then show ?thesis using p1(1,3) p2(1) by auto
qed

theorem schema_save_reload_witness:
  "\<exists>c1 c2. save_schema sorted_list_of_fset (pager_ops sample_crc (\<lambda>_. None) io_ok) (sample_catalog [sample_column, sample_vector_column]) = (Inr (), c1)
     \<and> reload_schema sample_crc io_ok (pager_ops sample_crc (\<lambda>_. None) io_ok) c1 = (Inr (), c2)
     \<and> fmlookup (ct_schema c2) ''t'' = Some \<lparr>ts_name = ''t'', ts_columns = [sample_column, sample_vector_column], ts_root_page = 2\<rparr>"
proof -
  let ?c = "sample_catalog [sample_column, sample_vector_column]"
  have 1: "writing sample_crc (ct_pager ?c)" "2 \<le> num_pages (ct_pager ?c)"
    by (simp_all add: sample_catalog_def sample_pages_facts)
  have 2: "catalog_ok (ct_schema ?c) (ct_btrees ?c)"
    by (simp add: catalog_ok_def sample_catalog_def synced_def table_ok_def column_ok_def type_ok_def str_ok_def
        str_bytes_def sample_column_def sample_vector_column_def of_char_def)
  have 3: "length (encode_schema sorted_list_of_fset (ct_schema ?c) (ct_btrees ?c)) < usable_size"
    unfolding encode_sample
    by (simp add: encode_table_def encode_column_def type_bytes_def usable_size_def page_size_def sample_column_def sample_vector_column_def)
  from schema_save_reload [OF 1 2 hash_order_sorted 3, of "\<lambda>_. None" io_ok] show ?thesis
    by (auto simp: sample_catalog_def synced_def)
qed

section \<open>A schema that outgrows its page\<close>



end
