(* ===== verification/RustStr.thy ===== *)
theory RustStr
  imports Types
begin

text \<open>
  The operations of \<open>str\<close> the parser and the executor use. A \<open>String\<close> is the list of its UTF-8 bytes;
  \<open>chars\<close> decodes it to Unicode scalar values. Searching for and splitting at ASCII text works on the
  bytes, as it does in Rust.

  Case mappings feed comparisons with ASCII text (and the shell's echo of an unknown command), so
  \<open>upper_char\<close> and \<open>lower_char\<close> list exactly the characters whose mapping contains an ASCII letter and leave the others alone.
\<close>

section \<open>Characters\<close>

type_synonym uchar = nat

fun utf8_decode :: "nat list \<Rightarrow> uchar list" where
  "utf8_decode [] = []"
| "utf8_decode (a # bs) =
     (if a < 128 then a # utf8_decode bs
      else if a < 224 then
        (case bs of b # cs \<Rightarrow> ((a - 192) * 64 + (b - 128)) # utf8_decode cs | _ \<Rightarrow> [])
      else if a < 240 then
        (case bs of b # c # ds \<Rightarrow> ((a - 224) * 4096 + (b - 128) * 64 + (c - 128)) # utf8_decode ds | _ \<Rightarrow> [])
      else
        (case bs of b # c # d # es \<Rightarrow>
             ((a - 240) * 262144 + (b - 128) * 4096 + (c - 128) * 64 + (d - 128)) # utf8_decode es
         | _ \<Rightarrow> []))"

definition utf8_encode :: "uchar \<Rightarrow> nat list" where
  "utf8_encode c =
     (if c < 128 then [c]
      else if c < 2048 then [192 + c div 64, 128 + c mod 64]
      else if c < 65536 then [224 + c div 4096, 128 + c div 64 mod 64, 128 + c mod 64]
      else [240 + c div 262144, 128 + c div 4096 mod 64, 128 + c div 64 mod 64, 128 + c mod 64])"

definition chars :: "string \<Rightarrow> uchar list" where
  "chars s = utf8_decode (map of_char s)"

definition of_chars :: "uchar list \<Rightarrow> string" where
  "of_chars cs = map char_of (concat (map utf8_encode cs))"

abbreviation ascii :: "char \<Rightarrow> uchar" where
  "ascii c \<equiv> of_char c"

text \<open>\<open>char::is_whitespace\<close>: the Unicode property \<open>White_Space\<close>.\<close>

definition is_whitespace :: "uchar \<Rightarrow> bool" where
  "is_whitespace c \<longleftrightarrow> 9 \<le> c \<and> c \<le> 13 \<or> c = 32 \<or> c = 133 \<or> c = 160 \<or> c = 5760 \<or> 8192 \<le> c \<and> c \<le> 8202
     \<or> c = 8232 \<or> c = 8233 \<or> c = 8239 \<or> c = 8287 \<or> c = 12288"

definition upper_char :: "uchar \<Rightarrow> uchar list" where
  "upper_char c =
     (if 97 \<le> c \<and> c \<le> 122 then [c - 32]
      else if c = 223 then [83, 83] else if c = 305 then [73] else if c = 329 then [700, 78]
      else if c = 383 then [83] else if c = 496 then [74, 780] else if c = 7830 then [72, 817]
      else if c = 7831 then [84, 776] else if c = 7832 then [87, 778] else if c = 7833 then [89, 778]
      else if c = 7834 then [65, 702] else if c = 64256 then [70, 70] else if c = 64257 then [70, 73]
      else if c = 64258 then [70, 76] else if c = 64259 then [70, 70, 73] else if c = 64260 then [70, 70, 76]
      else if c = 64261 \<or> c = 64262 then [83, 84]
      else [c])"

definition lower_char :: "uchar \<Rightarrow> uchar list" where
  "lower_char c =
     (if 65 \<le> c \<and> c \<le> 90 then [c + 32] else if c = 304 then [105, 775] else if c = 8490 then [107] else [c])"

definition to_uppercase :: "string \<Rightarrow> string" where
  "to_uppercase s = of_chars (concat (map upper_char (chars s)))"

definition to_lowercase :: "string \<Rightarrow> string" where
  "to_lowercase s = of_chars (concat (map lower_char (chars s)))"

section \<open>Slices of text\<close>

definition trim_start :: "string \<Rightarrow> string" where
  "trim_start s = of_chars (dropWhile is_whitespace (chars s))"

definition trim_end :: "string \<Rightarrow> string" where
  "trim_end s = of_chars (rev (dropWhile is_whitespace (rev (chars s))))"

definition trim :: "string \<Rightarrow> string" where
  "trim s = trim_end (trim_start s)"

definition trim_end_matches :: "char \<Rightarrow> string \<Rightarrow> string" where
  "trim_end_matches c s = rev (dropWhile (\<lambda>x. x = c) (rev s))"

definition starts_with :: "string \<Rightarrow> string \<Rightarrow> bool" where
  "starts_with p s \<longleftrightarrow> take (length p) s = p"

definition ends_with :: "string \<Rightarrow> string \<Rightarrow> bool" where
  "ends_with p s \<longleftrightarrow> length p \<le> length s \<and> drop (length s - length p) s = p"

definition strip_prefix :: "string \<Rightarrow> string \<Rightarrow> string option" where
  "strip_prefix p s = (if starts_with p s then Some (drop (length p) s) else None)"

definition strip_suffix :: "string \<Rightarrow> string \<Rightarrow> string option" where
  "strip_suffix p s = (if ends_with p s then Some (take (length s - length p) s) else None)"

fun find_char :: "char \<Rightarrow> string \<Rightarrow> nat option" where
  "find_char c [] = None"
| "find_char c (x # xs) = (if x = c then Some 0 else map_option Suc (find_char c xs))"

fun split_char :: "char \<Rightarrow> string \<Rightarrow> string list" where
  "split_char c [] = [[]]"
| "split_char c (x # xs) =
     (if x = c then [] # split_char c xs
      else (case split_char c xs of [] \<Rightarrow> [[x]] | p # ps \<Rightarrow> (x # p) # ps))"

text \<open>\<open>replace\<close> with a non-empty pattern: the matches are taken from the left without overlap.\<close>

function replace_all :: "string \<Rightarrow> string \<Rightarrow> string \<Rightarrow> string" where
  "replace_all pat by s =
     (if s = [] \<or> pat = [] then s
      else if starts_with pat s then by @ replace_all pat by (drop (length pat) s)
      else hd s # replace_all pat by (tl s))"
  by pat_completeness auto
termination by (relation "measure (\<lambda>(pat, by, s). length s)") auto

declare replace_all.simps [simp del]

section \<open>Integers\<close>

definition is_digit :: "char \<Rightarrow> bool" where
  "is_digit c \<longleftrightarrow> 48 \<le> (of_char c :: nat) \<and> (of_char c :: nat) \<le> 57"

definition digits_value :: "string \<Rightarrow> nat" where
  "digits_value s = foldl (\<lambda>n c. 10 * n + (of_char c - 48)) 0 s"

definition parse_digits :: "string \<Rightarrow> nat option" where
  "parse_digits s = (if s \<noteq> [] \<and> list_all is_digit s then Some (digits_value s) else None)"

text \<open>\<open>parse::<u32>\<close> and \<open>parse::<u64>\<close>: a plus sign is accepted, a minus sign is not.\<close>

definition parse_unsigned :: "nat \<Rightarrow> string \<Rightarrow> nat option" where
  "parse_unsigned bits s =
     (case parse_digits (case s of CHR ''+'' # r \<Rightarrow> r | _ \<Rightarrow> s) of
        None \<Rightarrow> None | Some n \<Rightarrow> if n < 2 ^ bits then Some n else None)"

definition parse_i64 :: "string \<Rightarrow> i64 option" where
  "parse_i64 s =
     (case s of
        CHR ''-'' # r \<Rightarrow> (case parse_digits r of None \<Rightarrow> None | Some n \<Rightarrow>
            if n \<le> 2 ^ 63 then Some (word_of_int (- int n)) else None)
      | _ \<Rightarrow> (case parse_digits (case s of CHR ''+'' # r \<Rightarrow> r | _ \<Rightarrow> s) of None \<Rightarrow> None | Some n \<Rightarrow>
            if n < 2 ^ 63 then Some (word_of_int (int n)) else None))"

section \<open>Floating-point numbers\<close>

text \<open>
  The bit pattern nearest to \<open>p / q\<close>, ties to even, of a format with \<open>prec\<close> significant bits whose
  smallest subnormal is \<open>2 ^ emin\<close>; \<open>infp\<close> is the pattern of infinity, which too large numbers round to.
\<close>

definition binary_exponent :: "int \<Rightarrow> int \<Rightarrow> int" where
  "binary_exponent p q =
     (let k = int (msb_index p) - int (msb_index q) in
      if (if 0 \<le> k then q * 2 ^ nat k \<le> p else q \<le> p * 2 ^ nat (- k)) then k else k - 1)"

definition round_even :: "int \<Rightarrow> int \<Rightarrow> int" where
  "round_even p q =
     (let n = p div q; r = p mod q in
      if q < 2 * r \<or> (2 * r = q \<and> odd n) then n + 1 else n)"

definition float_pattern :: "nat \<Rightarrow> int \<Rightarrow> int \<Rightarrow> int \<Rightarrow> int \<Rightarrow> int" where
  "float_pattern prec emin infp p q =
     (if p = 0 then 0
      else let t = max (binary_exponent p q - (int prec - 1)) emin;
               n = (if 0 \<le> t then round_even p (q * 2 ^ nat t) else round_even (p * 2 ^ nat (- t)) q)
           in min infp ((t - emin) * 2 ^ (prec - 1) + n))"

text \<open>The digits and the exponent of a decimal literal without its sign.\<close>

definition parse_exponent :: "string \<Rightarrow> int option" where
  "parse_exponent s =
     (case s of
        [] \<Rightarrow> Some 0
      | c # r \<Rightarrow>
          if c = CHR ''e'' \<or> c = CHR ''E'' then
            (case r of
               CHR ''-'' # d \<Rightarrow> map_option (\<lambda>n. - int n) (parse_digits d)
             | CHR ''+'' # d \<Rightarrow> map_option int (parse_digits d)
             | _ \<Rightarrow> map_option int (parse_digits r))
          else None)"

definition parse_decimal :: "string \<Rightarrow> (int \<times> int) option" where
  "parse_decimal s =
     (let whole = takeWhile is_digit s; rest = dropWhile is_digit s;
          (frac, rest') = (case rest of CHR ''.'' # r \<Rightarrow> (takeWhile is_digit r, dropWhile is_digit r) | _ \<Rightarrow> ([], rest))
      in if whole = [] \<and> frac = [] then None
         else map_option (\<lambda>e. (int (digits_value (whole @ frac)), e - int (length frac))) (parse_exponent rest'))"

definition parse_float :: "nat \<Rightarrow> int \<Rightarrow> int \<Rightarrow> int \<Rightarrow> int \<Rightarrow> string \<Rightarrow> int option" where
  "parse_float prec emin infp nan sign_bit s =
     (let (neg, body) = (case s of CHR ''-'' # r \<Rightarrow> (True, r) | CHR ''+'' # r \<Rightarrow> (False, r) | _ \<Rightarrow> (False, s));
          low = map (\<lambda>c. if 65 \<le> (of_char c :: nat) \<and> (of_char c :: nat) \<le> 90 then char_of (of_char c + 32 :: nat) else c) body;
          magnitude =
            (if low = ''inf'' \<or> low = ''infinity'' then Some infp
             else if low = ''nan'' then Some nan
             else map_option (\<lambda>(m, e). if 0 \<le> e then float_pattern prec emin infp (m * 10 ^ nat e) 1
                                       else float_pattern prec emin infp m (10 ^ nat (- e))) (parse_decimal body))
      in map_option (\<lambda>m. if neg then sign_bit + m else m) magnitude)"

definition parse_f64 :: "string \<Rightarrow> f64 option" where
  "parse_f64 s = map_option word_of_int (parse_float 53 (- 1074) (2047 * 2 ^ 52) (4095 * 2 ^ 51) (2 ^ 63) s)"

definition parse_f32 :: "string \<Rightarrow> f32 option" where
  "parse_f32 s = map_option word_of_int (parse_float 24 (- 149) (255 * 2 ^ 23) (511 * 2 ^ 22) (2 ^ 31) s)"

section \<open>Order\<close>

fun lex_cmp :: "('a \<Rightarrow> nat) \<Rightarrow> 'a list \<Rightarrow> 'a list \<Rightarrow> ordering" where
  "lex_cmp f [] [] = Equal"
| "lex_cmp f [] (_ # _) = Less"
| "lex_cmp f (_ # _) [] = Greater"
| "lex_cmp f (x # xs) (y # ys) = (if f x < f y then Less else if f x = f y then lex_cmp f xs ys else Greater)"

definition cmp_str :: "string \<Rightarrow> string \<Rightarrow> ordering" where
  "cmp_str = lex_cmp of_char"

definition cmp_bytes :: "bytes \<Rightarrow> bytes \<Rightarrow> ordering" where
  "cmp_bytes = lex_cmp unat"

definition cmp_nat :: "nat \<Rightarrow> nat \<Rightarrow> ordering" where
  "cmp_nat a b = (if a < b then Less else if a = b then Equal else Greater)"

definition ord_then :: "ordering \<Rightarrow> ordering \<Rightarrow> ordering" where
  "ord_then a b = (case a of Equal \<Rightarrow> b | _ \<Rightarrow> a)"

definition ord_reverse :: "ordering \<Rightarrow> ordering" where
  "ord_reverse a = (case a of Less \<Rightarrow> Greater | Equal \<Rightarrow> Equal | Greater \<Rightarrow> Less)"

end
