(* ===== verification/Sql.thy ===== *)
theory Sql
  imports RustStr
begin

text \<open>
  The statements of \<open>src/parser.rs\<close> and the comparison operators of WHERE clauses. The \<open>regex\<close> crate is
  the argument \<open>rx\<close>: compiling a pattern yields a matcher or nothing. An UPDATE keeps its assignments in
  a \<open>HashMap\<close>; here they are listed in the order the map iterates them.
\<close>

section \<open>Statements\<close>

datatype operator = OpEqual | OpNotEqual | OpGreaterThan | OpLessThan | OpGreaterThanOrEqual | OpLessThanOrEqual | OpLike

record condition =
  cond_column :: string
  cond_operator :: operator
  cond_value :: "sql_value"

type_synonym where_clause = "condition list"

record order_by =
  ob_column :: string
  ob_ascending :: bool

datatype alter_action =
    RenameTable string
  | RenameColumn string string
  | AddColumn column
  | DropColumn string

datatype statement =
    CreateTable string "column list"
  | DropTable string
  | AlterTable string alter_action
  | InsertInto string "string list option" "sql_value list"
  | Select string "string list" "where_clause option" "order_by option" "nat option"
  | UpdateSet string "(string \<times> sql_value) list" "where_clause option"
  | DeleteFrom string "where_clause option"
  | BeginTransaction
  | CommitTransaction
  | RollbackTransaction

section \<open>Operators\<close>

type_synonym regex = "string \<Rightarrow> (string \<Rightarrow> bool) option"

definition operator_from_str :: "string \<Rightarrow> operator result" where
  "operator_from_str s =
     (if s = ''='' then Inr OpEqual
      else if s = ''!='' \<or> s = ''<>'' then Inr OpNotEqual
      else if s = ''>'' then Inr OpGreaterThan
      else if s = ''<'' then Inr OpLessThan
      else if s = ''>='' then Inr OpGreaterThanOrEqual
      else if s = ''<='' then Inr OpLessThanOrEqual
      else if s = ''LIKE'' then Inr OpLike
      else Inl (Error ParseError))"

definition is_integer :: "sql_value \<Rightarrow> bool" where
  "is_integer v = (case v of VInteger _ \<Rightarrow> True | _ \<Rightarrow> False)"

definition is_numeric :: "sql_value \<Rightarrow> bool" where
  "is_numeric v = (case v of VInteger _ \<Rightarrow> True | VFloat _ \<Rightarrow> True | VReal _ \<Rightarrow> True | _ \<Rightarrow> False)"

text \<open>What an ordering operator answers, given how the operands compare; \<open>None\<close> if they do not.\<close>

definition operator_holds :: "operator \<Rightarrow> ordering option \<Rightarrow> bool" where
  "operator_holds op c =
     (case op of
        OpEqual \<Rightarrow> c = Some Equal
      | OpNotEqual \<Rightarrow> c \<noteq> Some Equal
      | OpGreaterThan \<Rightarrow> c = Some Greater
      | OpLessThan \<Rightarrow> c = Some Less
      | OpGreaterThanOrEqual \<Rightarrow> c = Some Greater \<or> c = Some Equal
      | OpLessThanOrEqual \<Rightarrow> c = Some Less \<or> c = Some Equal
      | OpLike \<Rightarrow> False)"

text \<open>The metacharacters are ASCII, so the pattern is built byte by byte.\<close>

definition like_char :: "char \<Rightarrow> string" where
  "like_char ch =
     (if ch = CHR ''%'' then ''.*''
      else if ch = CHR ''_'' then ''.''
      else if ch \<in> set ''.+*?()[]{}|^$'' \<or> ch = CHR 0x5C then [CHR 0x5C, ch]
      else [ch])"

definition like_pattern :: "string \<Rightarrow> string" where
  "like_pattern pattern = ''^'' @ concat (map like_char pattern) @ ''$''"

definition evaluate :: "regex \<Rightarrow> operator \<Rightarrow> sql_value \<Rightarrow> sql_value \<Rightarrow> bool result" where
  "evaluate rx op left right =
     (if left = VNull \<or> right = VNull then Inr False
      else case (left, right) of
        (VInteger a, VInteger b) \<Rightarrow>
          if op = OpLike then Inl (Error TypeMismatch)
          else Inr (operator_holds op (Some (cmp_int (sint a) (sint b))))
      | (VText a, VText b) \<Rightarrow>
          if op = OpLike then
            (case rx (like_pattern b) of None \<Rightarrow> Inl (Error ParseError) | Some is_match \<Rightarrow> Inr (is_match a))
          else Inr (operator_holds op (Some (cmp_str a b)))
      | _ \<Rightarrow>
          if is_numeric left \<and> is_numeric right then
            rbind (as_float left) (\<lambda>a. rbind (as_float right) (\<lambda>b.
              if op = OpLike then Inl (Error ParseError)
              else Inr (operator_holds op (f64_partial_cmp a b))))
          else Inl (Error TypeMismatch))"

section \<open>Ordering values\<close>

text \<open>
  \<open>compare_values\<close> of \<open>src/executor.rs\<close>. Values of different kinds that are not both numbers are ordered
  by their \<open>Debug\<close> text, which starts with the name of the kind; two vectors by the text of their
  components, printed by \<open>fmt\<close>.
\<close>

definition debug_text :: "(f32 list \<Rightarrow> string) \<Rightarrow> sql_value \<Rightarrow> string" where
  "debug_text fmt v =
     (case v of VNull \<Rightarrow> ''Null'' | VInteger _ \<Rightarrow> ''Integer('' | VFloat _ \<Rightarrow> ''Float('' | VReal _ \<Rightarrow> ''Real(''
      | VText _ \<Rightarrow> ''Text('' | VBlob _ \<Rightarrow> ''Blob('' | VVector xs \<Rightarrow> ''Vector('' @ fmt xs @ '')'')"

definition compare_values :: "(f32 list \<Rightarrow> string) \<Rightarrow> sql_value \<Rightarrow> sql_value \<Rightarrow> ordering" where
  "compare_values fmt a b =
     (case (a, b) of
        (VNull, VNull) \<Rightarrow> Equal
      | (VNull, _) \<Rightarrow> Greater
      | (_, VNull) \<Rightarrow> Less
      | (VInteger x, VInteger y) \<Rightarrow> cmp_int (sint x) (sint y)
      | (VText x, VText y) \<Rightarrow> cmp_str x y
      | (VBlob x, VBlob y) \<Rightarrow> cmp_bytes x y
      | _ \<Rightarrow>
          if is_numeric a \<and> is_numeric b then
            (case (as_float a, as_float b) of
               (Inr lf, Inr rf) \<Rightarrow> (case f64_partial_cmp lf rf of None \<Rightarrow> Equal | Some c \<Rightarrow> c)
             | _ \<Rightarrow> Equal)
          else cmp_str (debug_text fmt a) (debug_text fmt b))"

text \<open>\<open>sort_by\<close>, a stable sort: each element is inserted before the later ones it does not exceed.\<close>

fun insert_by :: "('a \<Rightarrow> 'a \<Rightarrow> ordering) \<Rightarrow> 'a \<Rightarrow> 'a list \<Rightarrow> 'a list" where
  "insert_by cmp x [] = [x]"
| "insert_by cmp x (y # ys) = (if cmp x y = Greater then y # insert_by cmp x ys else x # y # ys)"

definition sort_by :: "('a \<Rightarrow> 'a \<Rightarrow> ordering) \<Rightarrow> 'a list \<Rightarrow> 'a list" where
  "sort_by cmp xs = foldr (insert_by cmp) xs []"

end
