(* ===== verification/Vector.thy ===== *)
theory Vector
  imports Sql
begin

text \<open>
  Vector search, \<open>src/vector.rs\<close>: vector literals and distance expressions, the distance metrics and the
  exact nearest-neighbour search.

  The IEEE-754 arithmetic the metrics use is the record \<open>float_ops\<close> of operations on bit patterns.
  The parallel variants (\<open>rayon\<close>) compute the same lists and are not told apart.
\<close>

section \<open>Metrics\<close>

datatype distance_metric = Cosine | Euclidean | Dot

record float_ops =
  fo_widen :: "f32 \<Rightarrow> f64"
  fo_add :: "f64 \<Rightarrow> f64 \<Rightarrow> f64"
  fo_sub :: "f64 \<Rightarrow> f64 \<Rightarrow> f64"
  fo_mul :: "f64 \<Rightarrow> f64 \<Rightarrow> f64"
  fo_div :: "f64 \<Rightarrow> f64 \<Rightarrow> f64"
  fo_neg :: "f64 \<Rightarrow> f64"
  fo_sqrt :: "f64 \<Rightarrow> f64"
  fo_sum :: "f64 list \<Rightarrow> f64"

definition f64_zero :: f64 where "f64_zero = 0"

definition f64_one :: f64 where "f64_one = f64_of_int 1"

definition f64_infinity :: f64 where "f64_infinity = word_of_int (2047 * 2 ^ 52)"

definition from_function_name :: "string \<Rightarrow> distance_metric option" where
  "from_function_name name =
     (let n = to_lowercase name in
      if n = ''vector_distance_cos'' then Some Cosine
      else if n = ''vector_distance_l2'' \<or> n = ''vector_distance_euclidean'' then Some Euclidean
      else if n = ''vector_distance_dot'' then Some Dot
      else None)"

definition dot_product :: "float_ops \<Rightarrow> f32 list \<Rightarrow> f32 list \<Rightarrow> f64" where
  "dot_product F a b = fo_sum F (map (\<lambda>(x, y). fo_mul F (fo_widen F x) (fo_widen F y)) (zip a b))"

definition cosine_distance :: "float_ops \<Rightarrow> f32 list \<Rightarrow> f32 list \<Rightarrow> f64" where
  "cosine_distance F a b =
     (let (dot, norm_a, norm_b) =
        foldl (\<lambda>(d, na, nb) (x, y).
          let x = fo_widen F x; y = fo_widen F y in
          (fo_add F d (fo_mul F x y), fo_add F na (fo_mul F x x), fo_add F nb (fo_mul F y y)))
          (f64_zero, f64_zero, f64_zero) (zip a b);
          denom = fo_mul F (fo_sqrt F norm_a) (fo_sqrt F norm_b)
      in if f64_partial_cmp denom f64_zero = Some Equal then f64_one
         else fo_sub F f64_one (fo_div F dot denom))"

definition euclidean_distance :: "float_ops \<Rightarrow> f32 list \<Rightarrow> f32 list \<Rightarrow> f64" where
  "euclidean_distance F a b =
     fo_sqrt F (fo_sum F (map (\<lambda>(x, y). let d = fo_sub F (fo_widen F x) (fo_widen F y) in fo_mul F d d) (zip a b)))"

definition distance :: "float_ops \<Rightarrow> distance_metric \<Rightarrow> f32 list \<Rightarrow> f32 list \<Rightarrow> f64 result" where
  "distance F metric a b =
     (if length a \<noteq> length b then Inl (Error TypeMismatch)
      else Inr (case metric of
        Cosine \<Rightarrow> cosine_distance F a b
      | Euclidean \<Rightarrow> euclidean_distance F a b
      | Dot \<Rightarrow> fo_neg F (dot_product F a b)))"

section \<open>Literals and expressions\<close>

fun parse_components :: "string list \<Rightarrow> f32 list result" where
  "parse_components [] = Inr []"
| "parse_components (p # ps) =
     (case parse_f32 (trim p) of
        None \<Rightarrow> Inl (Error ParseError)
      | Some x \<Rightarrow> rbind (parse_components ps) (\<lambda>xs. Inr (x # xs)))"

definition parse_vector_literal :: "string \<Rightarrow> f32 list result" where
  "parse_vector_literal s =
     (case Option.bind (strip_prefix ''['' (trim s)) (strip_suffix '']'') of
        None \<Rightarrow> Inl (Error ParseError)
      | Some inner \<Rightarrow>
          if trim inner = [] then Inr [] else parse_components (split_char CHR '','' (trim inner)))"

definition unquote :: "string \<Rightarrow> string option" where
  "unquote s =
     (case Option.bind (strip_prefix [CHR 0x27] s) (strip_suffix [CHR 0x27]) of
        Some r \<Rightarrow> Some r
      | None \<Rightarrow> Option.bind (strip_prefix ''\"'' s) (strip_suffix ''\"''))"

fun vector_call :: "string list \<Rightarrow> string \<Rightarrow> string \<Rightarrow> f32 list result option" where
  "vector_call [] lower s = None"
| "vector_call (prefix # prefixes) lower s =
     (if starts_with prefix lower \<and> ends_with '')'' s then
        Some (rbind (slice (length prefix) (length s - 1) s) (\<lambda>inner.
          let inner = trim inner in
          parse_vector_literal (case unquote inner of Some u \<Rightarrow> u | None \<Rightarrow> inner)))
      else vector_call prefixes lower s)"

definition parse_vector_constructor :: "string \<Rightarrow> f32 list result option" where
  "parse_vector_constructor s0 =
     (let s = trim s0 in
      if starts_with ''['' s then Some (parse_vector_literal s)
      else case unquote s of
        Some unquoted \<Rightarrow>
          if starts_with ''['' (trim_start unquoted) then Some (parse_vector_literal unquoted)
          else vector_call [''vector32('', ''vector64('', ''vector(''] (to_lowercase s) s
      | None \<Rightarrow> vector_call [''vector32('', ''vector64('', ''vector(''] (to_lowercase s) s)"

record distance_expr =
  de_metric :: distance_metric
  de_column :: string
  de_query :: "f32 list"

text \<open>One character of a scan that keeps the nesting depth and the open quote.\<close>

definition scan_char :: "char \<Rightarrow> nat \<times> char option \<Rightarrow> nat \<times> char option" where
  "scan_char ch st =
     (case st of
        (depth, Some q) \<Rightarrow> (depth, if ch = q then None else Some q)
      | (depth, None) \<Rightarrow>
          if ch = CHR 0x27 \<or> ch = CHR ''\"'' then (depth, Some ch)
          else if ch = CHR ''('' \<or> ch = CHR ''['' then (depth + 1, None)
          else if ch = CHR '')'' \<or> ch = CHR '']'' then (depth - 1, None)
          else (depth, None))"

text \<open>The first comma outside quotes, parentheses and brackets.\<close>

fun top_comma :: "string \<Rightarrow> nat \<Rightarrow> nat \<times> char option \<Rightarrow> nat option" where
  "top_comma [] i st = None"
| "top_comma (ch # cs) i st =
     (if st = (0, None) \<and> ch = CHR '','' then Some i else top_comma cs (i + 1) (scan_char ch st))"

definition parse_distance_expr :: "string \<Rightarrow> distance_expr result option" where
  "parse_distance_expr s0 =
     (let s = trim s0 in
      case find_char CHR ''('' s of
        None \<Rightarrow> None
      | Some open_at \<Rightarrow>
          (case from_function_name (trim (take open_at s)) of
             None \<Rightarrow> None
           | Some metric \<Rightarrow>
               if \<not> ends_with '')'' s then Some (Inl (Error ParseError))
               else Some (rbind (slice (open_at + 1) (length s - 1) s) (\<lambda>args.
                 case top_comma args 0 (0, None) of
                   None \<Rightarrow> Inl (Error ParseError)
                 | Some split_at \<Rightarrow>
                     (case parse_vector_constructor (trim (drop (split_at + 1) args)) of
                        None \<Rightarrow> Inl (Error ParseError)
                      | Some (Inl e) \<Rightarrow> Inl e
                      | Some (Inr q) \<Rightarrow>
                          Inr \<lparr>de_metric = metric, de_column = trim (take split_at args), de_query = q\<rparr>)))))"

section \<open>Nearest neighbours\<close>

fun f32_chunks :: "bytes \<Rightarrow> f32 list" where
  "f32_chunks (a # b # c # d # bs) = word_of_nat (le_nat [a, b, c, d]) # f32_chunks bs"
| "f32_chunks _ = []"

definition value_as_vector :: "sql_value \<Rightarrow> f32 list result" where
  "value_as_vector v =
     (case v of
        VVector xs \<Rightarrow> Inr xs
      | VBlob b \<Rightarrow> if length b mod 4 = 0 then Inr (f32_chunks b) else Inl (Error TypeMismatch)
      | _ \<Rightarrow> Inl (Error TypeMismatch))"

definition distance_of :: "float_ops \<Rightarrow> nat \<Rightarrow> f32 list \<Rightarrow> distance_metric \<Rightarrow> row \<Rightarrow> f64" where
  "distance_of F col_index q metric row =
     (if length row \<le> col_index then f64_infinity
      else case value_as_vector (row ! col_index) of
        Inl _ \<Rightarrow> f64_infinity
      | Inr v \<Rightarrow> (case distance F metric v q of Inl _ \<Rightarrow> f64_infinity | Inr d \<Rightarrow> d))"

definition compute_distances ::
    "float_ops \<Rightarrow> (i64 \<times> row) list \<Rightarrow> nat \<Rightarrow> f32 list \<Rightarrow> distance_metric \<Rightarrow> f64 list" where
  "compute_distances F rows col_index q metric = map (\<lambda>(_, row). distance_of F col_index q metric row) rows"

definition scored_rows ::
    "float_ops \<Rightarrow> (i64 \<times> row) list \<Rightarrow> nat \<Rightarrow> f32 list \<Rightarrow> distance_metric \<Rightarrow> (f64 \<times> i64 \<times> row) list" where
  "scored_rows F rows col_index q metric =
     map (\<lambda>((key, row), d). (d, key, row)) (zip rows (compute_distances F rows col_index q metric))"

definition cmp_scored :: "f64 \<times> i64 \<times> row \<Rightarrow> f64 \<times> i64 \<times> row \<Rightarrow> ordering" where
  "cmp_scored a b =
     ord_then (case f64_partial_cmp (fst a) (fst b) of None \<Rightarrow> Equal | Some c \<Rightarrow> c)
       (cmp_int (sint (fst (snd a))) (sint (fst (snd b))))"

text \<open>
  \<open>select_nth_unstable_by\<close> leaves the order inside the two parts open: it is the argument \<open>sel\<close>.
\<close>

type_synonym 'a selection = "nat \<Rightarrow> ('a \<Rightarrow> 'a \<Rightarrow> ordering) \<Rightarrow> 'a list \<Rightarrow> 'a list"

definition knn ::
    "(f64 \<times> i64 \<times> row) selection \<Rightarrow> float_ops \<Rightarrow> (i64 \<times> row) list \<Rightarrow> nat \<Rightarrow> f32 list \<Rightarrow> distance_metric \<Rightarrow> nat \<Rightarrow>
     (f64 \<times> i64 \<times> row) list" where
  "knn sel F rows col_index q metric k =
     (if k = 0 then []
      else let scored = scored_rows F rows col_index q metric;
               kept = (if k < length scored then take k (sel (k - 1) cmp_scored scored) else scored)
           in sort_by cmp_scored kept)"

end
