(* ===== verification/Executor.thy ===== *)
theory Executor
  imports SchemaStore Transaction Cdc Vector
begin

text \<open>
  The executor, \<open>src/executor.rs\<close>: statements of the syntax tree run against the table map, the trees,
  the lock manager and the change log.

  \<open>database\<close> is the state a \<open>Database\<close> shares with its executor. What the code takes from outside is the
  record \<open>env\<close>: the CRC, the cache's choice of a victim, the outcomes of file operations, fuel for
  following page pointers, the order a hash map lists its keys in, the \<open>regex\<close> crate, float formatting
  and arithmetic, the selection of \<open>select_nth_unstable_by\<close>, and the clock and the other threads of the
  lock retry loop.
\<close>

section \<open>State\<close>

record database =
  db_catalog :: catalog
  db_txns :: txn_manager
  db_cdc :: cdc
  ex_locks :: lock_manager
  ex_active :: "nat option"

record env =
  en_crc :: "bytes \<Rightarrow> 32 word"
  en_pick :: "(nat, bytes) fmap \<Rightarrow> nat option"
  en_io :: io_env
  en_fuel :: nat
  en_order :: "string fset \<Rightarrow> string list"
  en_rx :: regex
  en_fmt :: "f32 list \<Rightarrow> string"
  en_float :: float_ops
  en_select :: "(f64 \<times> i64 \<times> row) selection"
  en_lock_fuel :: nat
  en_elapsed :: "nat \<Rightarrow> nat"
  en_other :: "nat \<Rightarrow> lock_manager \<Rightarrow> lock_manager"
  en_timeout :: nat
  en_keys :: "lock_manager \<Rightarrow> string list"

abbreviation en_ops :: "env \<Rightarrow> pager page_ops" where
  "en_ops en \<equiv> pager_ops (en_crc en) (en_pick en) (en_io en)"

definition on_catalog :: "(catalog, 'a) op \<Rightarrow> (database, 'a) op" where
  "on_catalog m db = (case m (db_catalog db) of (r, c) \<Rightarrow> (r, db\<lparr>db_catalog := c\<rparr>))"

definition on_db_pager :: "(pager, 'a) op \<Rightarrow> (database, 'a) op" where
  "on_db_pager m = on_catalog (on_ct_pager m)"

definition on_schema :: "(schema \<Rightarrow> 'a result \<times> schema) \<Rightarrow> (database, 'a) op" where
  "on_schema m = on_catalog (\<lambda>c. case m (ct_schema c) of (r, sc) \<Rightarrow> (r, c\<lparr>ct_schema := sc\<rparr>))"

definition modify :: "('s \<Rightarrow> 's) \<Rightarrow> ('s, unit) op" where
  "modify f s = (Inr (), f s)"

definition read_schema :: "(schema \<Rightarrow> 'a result) \<Rightarrow> (database, 'a) op" where
  "read_schema f db = (f (ct_schema (db_catalog db)), db)"

text \<open>Work on the tree of one table under its lock; the handle keeps the root the work ends with.\<close>

definition on_btree :: "string \<Rightarrow> (pager btree, 'a) op \<Rightarrow> (database, 'a) op" where
  "on_btree table m = on_catalog (\<lambda>c.
     case fmlookup (ct_btrees c) table of
       None \<Rightarrow> (Inl (Error NotFound), c)
     | Some root \<Rightarrow>
         (case m \<lparr>root_page = root, bt_pager = ct_pager c\<rparr> of
            (r, t) \<Rightarrow> (r, c\<lparr>ct_pager := bt_pager t, ct_btrees := fmupd table (root_page t) (ct_btrees c)\<rparr>)))"

fun position :: "('a \<Rightarrow> bool) \<Rightarrow> 'a list \<Rightarrow> nat option" where
  "position P [] = None"
| "position P (x # xs) = (if P x then Some 0 else map_option Suc (position P xs))"

definition column_index :: "table_schema \<Rightarrow> string \<Rightarrow> nat option" where
  "column_index ts name = position (\<lambda>c. col_name c = name) (ts_columns ts)"

definition index_or :: "veloci_error \<Rightarrow> nat option \<Rightarrow> nat result" where
  "index_or e i = (case i of None \<Rightarrow> Inl (Error e) | Some n \<Rightarrow> Inr n)"

section \<open>Transactions and locks\<close>

definition acquire_lock :: "env \<Rightarrow> string \<Rightarrow> nat \<Rightarrow> lock_type \<Rightarrow> (database, unit) op" where
  "acquire_lock en table txn ty db =
     (case acquire_loop (en_lock_fuel en) 0 (en_elapsed en) (en_other en) (en_timeout en) table txn ty (ex_locks db) of
        None \<Rightarrow> (Inl OutOfFuel, db)
      | Some (r, lm) \<Rightarrow> (r, db\<lparr>ex_locks := lm\<rparr>))"

definition db_txn_begin :: "(database, nat) op" where
  "db_txn_begin db = (case txn_begin (db_txns db) of (t, m) \<Rightarrow> (Inr t, db\<lparr>db_txns := m\<rparr>))"

definition db_txn_end :: "transaction_state \<Rightarrow> nat \<Rightarrow> (database, unit) op" where
  "db_txn_end target txn db = (case txn_end target txn (db_txns db) of (r, m) \<Rightarrow> (r, db\<lparr>db_txns := m\<rparr>))"

definition release_locks :: "env \<Rightarrow> nat \<Rightarrow> database \<Rightarrow> database" where
  "release_locks en txn db = db\<lparr>ex_locks := release_all_locks (en_keys en (ex_locks db)) txn (ex_locks db)\<rparr>"

text \<open>A panic unwinds through the caller: no transaction is ended, no lock released.\<close>

definition with_table_lock :: "env \<Rightarrow> string \<Rightarrow> lock_type \<Rightarrow> (database, 'a) op \<Rightarrow> (database, 'a) op" where
  "with_table_lock en table ty f db =
     (case ex_active db of
        Some txn \<Rightarrow> mbind (acquire_lock en table txn ty) (\<lambda>_. f) db
      | None \<Rightarrow>
          mbind db_txn_begin (\<lambda>txn db1.
            case acquire_lock en table txn ty db1 of
              (Inl (Error e), db2) \<Rightarrow> (Inl (Error e), snd (db_txn_end Aborted txn db2))
            | (Inl e, db2) \<Rightarrow> (Inl e, db2)
            | (Inr _, db2) \<Rightarrow>
                (case f db2 of
                   (Inl (Error e), db3) \<Rightarrow> (Inl (Error e), release_locks en txn (snd (db_txn_end Aborted txn db3)))
                 | (Inl e, db3) \<Rightarrow> (Inl e, db3)
                 | (Inr x, db3) \<Rightarrow>
                     (case db_txn_end Committed txn db3 of
                        (Inl e, db4) \<Rightarrow> (Inl e, release_locks en txn db4)
                      | (Inr _, db4) \<Rightarrow> (Inr x, release_locks en txn db4)))) db)"

definition in_transaction :: "database \<Rightarrow> bool" where
  "in_transaction db \<longleftrightarrow> ex_active db \<noteq> None"

definition begin_transaction :: "(database, unit) op" where
  "begin_transaction db =
     (if in_transaction db then (Inl (Error TransactionError), db)
      else mbind db_txn_begin (\<lambda>txn. modify (\<lambda>db. db\<lparr>ex_active := Some txn\<rparr>)) db)"

definition end_transaction :: "env \<Rightarrow> transaction_state \<Rightarrow> (database, unit) op" where
  "end_transaction en target db =
     (case ex_active db of
        None \<Rightarrow> (Inl (Error TransactionError), db)
      | Some txn \<Rightarrow>
          mbind (modify (\<lambda>db. db\<lparr>ex_active := None\<rparr>)) (\<lambda>_.
          mbind (db_txn_end target txn) (\<lambda>_. modify (release_locks en txn))) db)"

definition commit_transaction :: "env \<Rightarrow> (database, unit) op" where
  "commit_transaction en = end_transaction en Committed"

definition rollback_transaction :: "env \<Rightarrow> (database, unit) op" where
  "rollback_transaction en = end_transaction en Aborted"

section \<open>Tables\<close>

definition execute_create_table :: "env \<Rightarrow> string \<Rightarrow> column list \<Rightarrow> (database, unit) op" where
  "execute_create_table en name columns =
     mbind (on_db_pager (fresh_root (en_ops en))) (\<lambda>root.
     mbind (on_schema (create_table \<lparr>ts_name = name, ts_columns = columns, ts_root_page = root\<rparr>)) (\<lambda>_.
       on_catalog (modify (\<lambda>c. c\<lparr>ct_btrees := fmupd name root (ct_btrees c)\<rparr>))))"

definition execute_drop_table :: "string \<Rightarrow> (database, unit) op" where
  "execute_drop_table name =
     mbind (on_schema (drop_table name)) (\<lambda>_.
       on_catalog (modify (\<lambda>c. c\<lparr>ct_btrees := fmdrop name (ct_btrees c)\<rparr>)))"

fun rewrite_rows :: "pager page_ops \<Rightarrow> nat \<Rightarrow> (row \<Rightarrow> row) \<Rightarrow> (i64 \<times> row) list \<Rightarrow> (pager btree, unit) op" where
  "rewrite_rows P fuel f [] = mret ()"
| "rewrite_rows P fuel f ((key, row) # rows) =
     mbind (btree_delete P fuel key) (\<lambda>_.
     mbind (btree_insert P fuel key (f row)) (\<lambda>_. rewrite_rows P fuel f rows))"

definition rewrite_table :: "env \<Rightarrow> string \<Rightarrow> (row \<Rightarrow> row) \<Rightarrow> (database, unit) op" where
  "rewrite_table en table f =
     on_btree table (mbind (btree_scan (en_ops en) (en_fuel en)) (\<lambda>all_rows.
       rewrite_rows (en_ops en) (en_fuel en) f all_rows))"

definition remove_at :: "nat \<Rightarrow> 'a list \<Rightarrow> 'a list" where
  "remove_at i xs = take i xs @ drop (Suc i) xs"

definition get_table_mut :: "string \<Rightarrow> (table_schema \<Rightarrow> table_schema result) \<Rightarrow> schema \<Rightarrow> unit result \<times> schema" where
  "get_table_mut name f sc =
     (case rbind (get_table name sc) f of
        Inl e \<Rightarrow> (Inl e, sc)
      | Inr t \<Rightarrow> (Inr (), fmupd name t sc))"

definition rename_table :: "string \<Rightarrow> string \<Rightarrow> (database, unit) op" where
  "rename_table table new_name =
     mbind (on_schema (\<lambda>sc. if is_ok (get_table new_name sc) then (Inl (Error ConstraintViolation), sc) else (Inr (), sc))) (\<lambda>_.
     mbind (read_schema (get_table table)) (\<lambda>ts.
     mbind (on_schema (drop_table table)) (\<lambda>_.
     mbind (on_schema (create_table (ts\<lparr>ts_name := new_name\<rparr>))) (\<lambda>_.
       on_catalog (modify (\<lambda>c.
         case fmlookup (ct_btrees c) table of
           None \<Rightarrow> c
         | Some bt \<Rightarrow> c\<lparr>ct_btrees := fmupd new_name bt (fmdrop table (ct_btrees c))\<rparr>))))))"

definition renamed_column :: "string \<Rightarrow> string \<Rightarrow> table_schema \<Rightarrow> table_schema result" where
  "renamed_column old_name new_name ts =
     (if list_ex (\<lambda>c. col_name c = new_name) (ts_columns ts) then Inl (Error ConstraintViolation)
      else case column_index ts old_name of
        None \<Rightarrow> Inl (Error NotFound)
      | Some i \<Rightarrow> Inr (ts\<lparr>ts_columns := (ts_columns ts)[i := (ts_columns ts ! i)\<lparr>col_name := new_name\<rparr>]\<rparr>))"

definition droppable_column :: "string \<Rightarrow> table_schema \<Rightarrow> nat result" where
  "droppable_column name ts =
     rbind (index_or NotFound (column_index ts name)) (\<lambda>idx.
       if col_primary_key (ts_columns ts ! idx) then Inl (Error ConstraintViolation) else Inr idx)"

definition execute_alter_table :: "env \<Rightarrow> string \<Rightarrow> alter_action \<Rightarrow> (database, unit) op" where
  "execute_alter_table en table action =
     (case action of
        RenameTable new_name \<Rightarrow> rename_table table new_name
      | RenameColumn old_name new_name \<Rightarrow> on_schema (get_table_mut table (renamed_column old_name new_name))
      | AddColumn column \<Rightarrow>
          mbind (read_schema (\<lambda>sc. rbind (get_table table sc) (\<lambda>ts.
            if list_ex (\<lambda>c. col_name c = col_name column) (ts_columns ts)
            then Inl (Error ConstraintViolation) else Inr ()))) (\<lambda>_.
          mbind (rewrite_table en table (\<lambda>row. row @ [VNull])) (\<lambda>_.
            on_schema (get_table_mut table (\<lambda>ts. Inr (ts\<lparr>ts_columns := ts_columns ts @ [column]\<rparr>)))))
      | DropColumn name \<Rightarrow>
          mbind (read_schema (\<lambda>sc. rbind (get_table table sc) (droppable_column name))) (\<lambda>col_index.
          mbind (rewrite_table en table (\<lambda>row. if col_index < length row then remove_at col_index row else row)) (\<lambda>_.
            on_schema (get_table_mut table (\<lambda>ts.
              if col_index < length (ts_columns ts) then Inr (ts\<lparr>ts_columns := remove_at col_index (ts_columns ts)\<rparr>)
              else Inl Panic)))))"

section \<open>WHERE and UNIQUE\<close>

fun evaluate_where_clause :: "regex \<Rightarrow> table_schema \<Rightarrow> row \<Rightarrow> where_clause \<Rightarrow> bool result" where
  "evaluate_where_clause rx ts row [] = Inr True"
| "evaluate_where_clause rx ts row (c # cs) =
     rbind (index_or NotFound (column_index ts (cond_column c))) (\<lambda>col_index.
       if length row \<le> col_index then Inl Panic
       else rbind (evaluate rx (cond_operator c) (row ! col_index) (cond_value c)) (\<lambda>holds.
         if \<not> holds then Inr False else evaluate_where_clause rx ts row cs))"

text \<open>A row whose clause cannot be evaluated is left out (\<open>unwrap_or(false)\<close>).\<close>

fun filter_rows :: "regex \<Rightarrow> table_schema \<Rightarrow> where_clause \<Rightarrow> (i64 \<times> row) list \<Rightarrow> (i64 \<times> row) list result" where
  "filter_rows rx ts wc [] = Inr []"
| "filter_rows rx ts wc ((key, row) # rows) =
     (case evaluate_where_clause rx ts row wc of
        Inl (Error _) \<Rightarrow> filter_rows rx ts wc rows
      | Inl e \<Rightarrow> Inl e
      | Inr b \<Rightarrow> rbind (filter_rows rx ts wc rows) (\<lambda>kept. Inr (if b then (key, row) # kept else kept)))"

definition matching_rows :: "regex \<Rightarrow> table_schema \<Rightarrow> where_clause option \<Rightarrow> (i64 \<times> row) list \<Rightarrow> (i64 \<times> row) list result" where
  "matching_rows rx ts wc rows = (case wc of None \<Rightarrow> Inr rows | Some cs \<Rightarrow> filter_rows rx ts cs rows)"

fun pk_condition :: "string \<Rightarrow> where_clause \<Rightarrow> i64 option" where
  "pk_condition pk [] = None"
| "pk_condition pk (c # cs) =
     (case cond_value c of
        VInteger key \<Rightarrow>
          if cond_operator c = OpEqual \<and> cond_column c = pk then Some key else pk_condition pk cs
      | _ \<Rightarrow> pk_condition pk cs)"

definition primary_key_name :: "table_schema \<Rightarrow> string option" where
  "primary_key_name ts = map_option col_name (List.find col_primary_key (ts_columns ts))"

definition candidate_rows :: "pager page_ops \<Rightarrow> nat \<Rightarrow> where_clause option \<Rightarrow> table_schema \<Rightarrow> (pager btree, (i64 \<times> row) list) op" where
  "candidate_rows P fuel wc ts =
     (case Option.bind wc (\<lambda>cs. Option.bind (primary_key_name ts) (\<lambda>pk. pk_condition pk cs)) of
        Some key \<Rightarrow> mbind (btree_search P fuel key) (\<lambda>r. mret (case r of None \<Rightarrow> [] | Some row \<Rightarrow> [(key, row)]))
      | None \<Rightarrow> btree_scan P fuel)"

definition unique_columns :: "table_schema \<Rightarrow> nat list" where
  "unique_columns ts =
     filter (\<lambda>i. col_unique (ts_columns ts ! i) \<and> \<not> col_primary_key (ts_columns ts ! i)) [0..<length (ts_columns ts)]"

definition get_value :: "row \<Rightarrow> nat \<Rightarrow> sql_value option" where
  "get_value row i = (if i < length row then Some (row ! i) else None)"

definition clashes :: "(f32 list \<Rightarrow> string) \<Rightarrow> row \<Rightarrow> row \<Rightarrow> nat \<Rightarrow> bool" where
  "clashes fmt row existing ci =
     (case get_value existing ci of
        None \<Rightarrow> False
      | Some v \<Rightarrow> v \<noteq> VNull \<and> compare_values fmt v (row ! ci) = Equal)"

definition check_insert_unique :: "env \<Rightarrow> table_schema \<Rightarrow> row \<Rightarrow> (pager btree, unit) op" where
  "check_insert_unique en ts row =
     (let cols = filter (\<lambda>ci. get_value row ci \<noteq> None \<and> get_value row ci \<noteq> Some VNull) (unique_columns ts) in
      if cols = [] then mret ()
      else mbind (btree_scan (en_ops en) (en_fuel en)) (\<lambda>rows.
        if list_ex (\<lambda>(_, existing). list_ex (clashes (en_fmt en) row existing) cols) rows
        then mfail (Error ConstraintViolation) else mret ()))"

text \<open>Equal neighbours in a list (\<open>windows(2)\<close>).\<close>

fun adjacent :: "('a \<Rightarrow> 'a \<Rightarrow> bool) \<Rightarrow> 'a list \<Rightarrow> bool" where
  "adjacent P (x # y # ys) = (P x y \<or> adjacent P (y # ys))"
| "adjacent P _ = False"

definition column_values :: "nat \<Rightarrow> row list \<Rightarrow> sql_value list" where
  "column_values ci rows = filter (\<lambda>v. v \<noteq> VNull) (List.map_filter (\<lambda>r. get_value r ci) rows)"

definition check_unique :: "(f32 list \<Rightarrow> string) \<Rightarrow> nat list \<Rightarrow> row list \<Rightarrow> unit result" where
  "check_unique fmt cols rows =
     (if list_ex (\<lambda>ci. adjacent (\<lambda>a b. compare_values fmt a b = Equal)
                       (sort_by (compare_values fmt) (column_values ci rows))) cols
      then Inl (Error ConstraintViolation) else Inr ())"

section \<open>INSERT\<close>

fun check_values :: "table_schema \<Rightarrow> (string \<times> sql_value) list \<Rightarrow> unit result" where
  "check_values ts [] = Inr ()"
| "check_values ts ((name, v) # nvs) =
     (case List.find (\<lambda>c. col_name c = name) (ts_columns ts) of
        None \<Rightarrow> check_values ts nvs
      | Some col \<Rightarrow>
          if col_not_null col \<and> v = VNull then Inl (Error ConstraintViolation)
          else (case (col_data_type col, v) of
             (DtVector dim, VNull) \<Rightarrow> check_values ts nvs
           | (DtVector dim, VVector xs) \<Rightarrow>
               if length xs = dim then check_values ts nvs else Inl (Error ConstraintViolation)
           | (DtVector dim, _) \<Rightarrow> Inl (Error TypeMismatch)
           | _ \<Rightarrow> check_values ts nvs))"

definition build_row :: "table_schema \<Rightarrow> (string \<times> sql_value) list \<Rightarrow> row" where
  "build_row ts nvs =
     fold (\<lambda>(name, v) row. case column_index ts name of None \<Rightarrow> row | Some i \<Rightarrow> row[i := v]) nvs
       (replicate (length (ts_columns ts)) VNull)"

text \<open>The checks in front of the tree: the key and the row to insert.\<close>

definition insert_row_for :: "table_schema \<Rightarrow> string list option \<Rightarrow> sql_value list \<Rightarrow> (i64 \<times> row) result" where
  "insert_row_for ts columns values =
     (let column_names = (case columns of Some cols \<Rightarrow> cols | None \<Rightarrow> map col_name (ts_columns ts)) in
      if length column_names \<noteq> length values then Inl (Error ConstraintViolation)
      else
        rbind (index_or ConstraintViolation (position col_primary_key (ts_columns ts))) (\<lambda>pk_index.
        rbind (index_or ConstraintViolation
                 (position (\<lambda>c. c = col_name (ts_columns ts ! pk_index)) column_names)) (\<lambda>pk_value_index.
        rbind (as_integer (values ! pk_value_index)) (\<lambda>pk_value.
        rbind (check_values ts (zip column_names values)) (\<lambda>_.
          Inr (pk_value, build_row ts (zip column_names values)))))))"

definition insert_checked :: "env \<Rightarrow> table_schema \<Rightarrow> i64 \<Rightarrow> row \<Rightarrow> (pager btree, unit) op" where
  "insert_checked en ts pk_value row =
     mbind (btree_search (en_ops en) (en_fuel en) pk_value) (\<lambda>found.
       if found \<noteq> None then mfail (Error ConstraintViolation)
       else mbind (check_insert_unique en ts row) (\<lambda>_. btree_insert (en_ops en) (en_fuel en) pk_value row))"

definition stage :: "string \<Rightarrow> change_op \<Rightarrow> i64 \<Rightarrow> row option \<Rightarrow> row option \<Rightarrow> database \<Rightarrow> database" where
  "stage table op rowid before after db =
     db\<lparr>db_cdc := cdc_stage \<lparr>ch_table = table, ch_op = op, ch_rowid = rowid, ch_before = before, ch_after = after\<rparr> (db_cdc db)\<rparr>"

definition execute_insert :: "env \<Rightarrow> string \<Rightarrow> string list option \<Rightarrow> sql_value list \<Rightarrow> (database, unit) op" where
  "execute_insert en table columns values =
     mbind (read_schema (get_table table)) (\<lambda>ts.
     mbind (mlift (insert_row_for ts columns values)) (\<lambda>(pk_value, row).
     mbind (on_btree table (insert_checked en ts pk_value row)) (\<lambda>_.
       modify (stage table Insert pk_value None (Some row)))))"

section \<open>UPDATE and DELETE\<close>

text \<open>The updated row, its key and whether the key was assigned.\<close>

fun apply_assignments ::
    "table_schema \<Rightarrow> nat \<Rightarrow> (string \<times> sql_value) list \<Rightarrow> row \<times> i64 \<times> bool \<Rightarrow> (row \<times> i64 \<times> bool) result" where
  "apply_assignments ts pk_index [] acc = Inr acc"
| "apply_assignments ts pk_index ((name, v) # as) (row, new_pk, updated) =
     (case column_index ts name of
        None \<Rightarrow> apply_assignments ts pk_index as (row, new_pk, updated)
      | Some ci \<Rightarrow>
          if col_not_null (ts_columns ts ! ci) \<and> v = VNull then Inl (Error ConstraintViolation)
          else if length row \<le> ci then Inl Panic
          else if ci = pk_index then
            rbind (as_integer v) (\<lambda>k. apply_assignments ts pk_index as (row[ci := v], k, True))
          else apply_assignments ts pk_index as (row[ci := v], new_pk, updated))"

fun plan_updates ::
    "env \<Rightarrow> table_schema \<Rightarrow> nat \<Rightarrow> (string \<times> sql_value) list \<Rightarrow> (i64 \<times> row) list \<Rightarrow>
     (pager btree, (i64 \<times> i64 \<times> row \<times> row) list) op" where
  "plan_updates en ts pk_index as [] = mret []"
| "plan_updates en ts pk_index as ((key, row) # rows) =
     mbind (mlift (apply_assignments ts pk_index as (row, key, False))) (\<lambda>(updated_row, new_pk, pk_updated).
     mbind (if pk_updated \<and> new_pk \<noteq> key
            then mbind (btree_search (en_ops en) (en_fuel en) new_pk) (\<lambda>r. mret (r \<noteq> None))
            else mret False) (\<lambda>exists.
       if exists then mfail (Error ConstraintViolation)
       else mbind (plan_updates en ts pk_index as rows) (\<lambda>more. mret ((key, new_pk, row, updated_row) # more))))"

fun run_updates :: "env \<Rightarrow> (i64 \<times> i64 \<times> row \<times> row) list \<Rightarrow> (pager btree, unit) op" where
  "run_updates en [] = mret ()"
| "run_updates en ((key, new_pk, row, updated_row) # us) =
     mbind (btree_delete (en_ops en) (en_fuel en) key) (\<lambda>_.
     mbind (btree_insert (en_ops en) (en_fuel en) new_pk updated_row) (\<lambda>_. run_updates en us))"

definition check_update_unique ::
    "env \<Rightarrow> table_schema \<Rightarrow> (string \<times> sql_value) list \<Rightarrow> (i64 \<times> i64 \<times> row \<times> row) list \<Rightarrow> (pager btree, unit) op" where
  "check_update_unique en ts as updates =
     (let touched = filter (\<lambda>ci. col_name (ts_columns ts ! ci) \<in> fst ` set as) (unique_columns ts) in
      if touched = [] \<or> updates = [] then mret ()
      else mbind (btree_scan (en_ops en) (en_fuel en)) (\<lambda>untouched.
        mlift (check_unique (en_fmt en) touched
          (map snd (filter (\<lambda>(key, _). key \<notin> fst ` set updates) untouched) @ map (\<lambda>(_, _, _, u). u) updates))))"

definition update_rows ::
    "env \<Rightarrow> table_schema \<Rightarrow> (string \<times> sql_value) list \<Rightarrow> where_clause option \<Rightarrow>
     (pager btree, (i64 \<times> i64 \<times> row \<times> row) list) op" where
  "update_rows en ts as wc =
     mbind (candidate_rows (en_ops en) (en_fuel en) wc ts) (\<lambda>all_rows.
     mbind (mlift (matching_rows (en_rx en) ts wc all_rows)) (\<lambda>rows_to_update.
     mbind (mlift (index_or ConstraintViolation (position col_primary_key (ts_columns ts)))) (\<lambda>pk_index.
     mbind (plan_updates en ts pk_index as rows_to_update) (\<lambda>updates.
     mbind (check_update_unique en ts as updates) (\<lambda>_.
     mbind (run_updates en updates) (\<lambda>_. mret updates))))))"

definition stage_all :: "('a \<Rightarrow> database \<Rightarrow> database) \<Rightarrow> 'a list \<Rightarrow> (database, unit) op" where
  "stage_all f xs = modify (\<lambda>db. if cdc_enabled (db_cdc db) then fold f xs db else db)"

definition execute_update :: "env \<Rightarrow> string \<Rightarrow> (string \<times> sql_value) list \<Rightarrow> where_clause option \<Rightarrow> (database, unit) op" where
  "execute_update en table assignments wc =
     mbind (read_schema (get_table table)) (\<lambda>ts.
     mbind (on_btree table (update_rows en ts assignments wc)) (\<lambda>updates.
       stage_all (\<lambda>(key, _, before, after). stage table Update key (Some before) (Some after)) updates))"

fun delete_rows :: "env \<Rightarrow> (i64 \<times> row) list \<Rightarrow> (pager btree, unit) op" where
  "delete_rows en [] = mret ()"
| "delete_rows en ((key, row) # rows) =
     mbind (btree_delete (en_ops en) (en_fuel en) key) (\<lambda>_. delete_rows en rows)"

definition execute_delete :: "env \<Rightarrow> string \<Rightarrow> where_clause option \<Rightarrow> (database, unit) op" where
  "execute_delete en table wc =
     mbind (read_schema (get_table table)) (\<lambda>ts.
     mbind (on_btree table
       (mbind (candidate_rows (en_ops en) (en_fuel en) wc ts) (\<lambda>all_rows.
        mbind (mlift (matching_rows (en_rx en) ts wc all_rows)) (\<lambda>rows_to_delete.
        mbind (delete_rows en rows_to_delete) (\<lambda>_. mret rows_to_delete))))) (\<lambda>deleted.
       stage_all (\<lambda>(key, before). stage table Delete key (Some before) None) deleted))"

section \<open>SELECT\<close>

definition cmp_rows :: "(f32 list \<Rightarrow> string) \<Rightarrow> nat \<Rightarrow> bool \<Rightarrow> i64 \<times> row \<Rightarrow> i64 \<times> row \<Rightarrow> ordering" where
  "cmp_rows fmt col_index ascending a b =
     (let av = (case get_value (snd a) col_index of None \<Rightarrow> VNull | Some v \<Rightarrow> v);
          bv = (case get_value (snd b) col_index of None \<Rightarrow> VNull | Some v \<Rightarrow> v);
          combined = ord_then (compare_values fmt av bv) (cmp_int (sint (fst a)) (sint (fst b)))
      in if ascending then combined else ord_reverse combined)"

definition cmp_scored_desc :: "f64 \<times> i64 \<times> row \<Rightarrow> f64 \<times> i64 \<times> row \<Rightarrow> ordering" where
  "cmp_scored_desc a b =
     ord_then (case f64_partial_cmp (fst b) (fst a) of None \<Rightarrow> Equal | Some c \<Rightarrow> c)
       (cmp_int (sint (fst (snd a))) (sint (fst (snd b))))"

definition order_rows ::
    "env \<Rightarrow> table_schema \<Rightarrow> order_by option \<Rightarrow> nat option \<Rightarrow> (i64 \<times> row) list \<Rightarrow> (i64 \<times> row) list result" where
  "order_rows en ts order limit rows =
     (case order of
        None \<Rightarrow> Inr rows
      | Some ob \<Rightarrow>
          (case parse_distance_expr (ob_column ob) of
             Some parsed \<Rightarrow>
               rbind parsed (\<lambda>expr.
               rbind (index_or NotFound (column_index ts (de_column expr))) (\<lambda>col_index.
                 if ob_ascending ob then
                   let k = (case limit of Some n \<Rightarrow> min n (length rows) | None \<Rightarrow> length rows) in
                   Inr (map snd (knn (en_select en) (en_float en) rows col_index (de_query expr) (de_metric expr) k))
                 else
                   Inr (map snd (sort_by cmp_scored_desc
                     (scored_rows (en_float en) rows col_index (de_query expr) (de_metric expr))))))
           | None \<Rightarrow>
               rbind (index_or NotFound (column_index ts (ob_column ob))) (\<lambda>col_index.
                 Inr (sort_by (cmp_rows (en_fmt en) col_index (ob_ascending ob)) rows))))"

datatype proj_item = ProjStar | ProjCol nat | ProjDistance nat distance_metric "f32 list"

fun proj_items :: "table_schema \<Rightarrow> string list \<Rightarrow> (string \<times> proj_item) list result" where
  "proj_items ts [] = Inr []"
| "proj_items ts (name # names) =
     rbind (if name = ''*'' then Inr ProjStar
            else case column_index ts name of
              Some idx \<Rightarrow> Inr (ProjCol idx)
            | None \<Rightarrow>
                (case parse_distance_expr name of
                   Some parsed \<Rightarrow>
                     rbind parsed (\<lambda>expr.
                     rbind (index_or NotFound (column_index ts (de_column expr))) (\<lambda>ci.
                       Inr (ProjDistance ci (de_metric expr) (de_query expr))))
                 | None \<Rightarrow> Inl (Error NotFound))) (\<lambda>item.
       rbind (proj_items ts names) (\<lambda>items. Inr ((name, item) # items)))"

definition computed_column :: "string \<Rightarrow> data_type \<Rightarrow> bool \<Rightarrow> column" where
  "computed_column name dt not_null =
     \<lparr>col_name = name, col_data_type = dt, col_primary_key = False, col_not_null = not_null, col_unique = False\<rparr>"

definition proj_columns :: "table_schema \<Rightarrow> string \<times> proj_item \<Rightarrow> column list" where
  "proj_columns ts ni =
     (case snd ni of
        ProjStar \<Rightarrow> ts_columns ts
      | ProjCol idx \<Rightarrow> [ts_columns ts ! idx]
      | ProjDistance _ _ _ \<Rightarrow> [computed_column (fst ni) DtReal False])"

definition proj_values :: "float_ops \<Rightarrow> row \<Rightarrow> string \<times> proj_item \<Rightarrow> sql_value list" where
  "proj_values F row ni =
     (case snd ni of
        ProjStar \<Rightarrow> row
      | ProjCol idx \<Rightarrow> [case get_value row idx of None \<Rightarrow> VNull | Some v \<Rightarrow> v]
      | ProjDistance ci metric q \<Rightarrow>
          [case get_value row ci of
             None \<Rightarrow> VNull
           | Some v \<Rightarrow> (case rbind (value_as_vector v) (\<lambda>xs. distance F metric xs q) of Inl _ \<Rightarrow> VNull | Inr d \<Rightarrow> VFloat d)])"

definition project :: "env \<Rightarrow> table_schema \<Rightarrow> string list \<Rightarrow> (i64 \<times> row) list \<Rightarrow> query_result result" where
  "project en ts columns rows =
     (if length columns = 1 \<and> starts_with ''COUNT('' (to_uppercase (columns ! 0)) then
        Inr \<lparr>qr_columns = [computed_column (columns ! 0) DtInteger True],
             qr_rows = [[VInteger (word_of_nat (length rows))]]\<rparr>
      else rbind (proj_items ts columns) (\<lambda>items.
        Inr \<lparr>qr_columns = concat (map (proj_columns ts) items),
             qr_rows = map (\<lambda>(_, row). concat (map (proj_values (en_float en) row) items)) rows\<rparr>))"

definition select_rows ::
    "env \<Rightarrow> table_schema \<Rightarrow> string list \<Rightarrow> where_clause option \<Rightarrow> order_by option \<Rightarrow> nat option \<Rightarrow>
     (i64 \<times> row) list \<Rightarrow> query_result result" where
  "select_rows en ts columns wc order limit all_rows =
     rbind (matching_rows (en_rx en) ts wc all_rows) (\<lambda>filtered.
     rbind (order_rows en ts order limit filtered) (\<lambda>ordered.
       project en ts columns (case limit of None \<Rightarrow> ordered | Some n \<Rightarrow> take n ordered)))"

definition execute_select ::
    "env \<Rightarrow> string \<Rightarrow> string list \<Rightarrow> where_clause option \<Rightarrow> order_by option \<Rightarrow> nat option \<Rightarrow> (database, query_result) op" where
  "execute_select en table columns wc order limit =
     mbind (read_schema (get_table table)) (\<lambda>ts.
     mbind (on_btree table (candidate_rows (en_ops en) (en_fuel en) wc ts)) (\<lambda>all_rows.
       mlift (select_rows en ts columns wc order limit all_rows)))"

section \<open>Statements\<close>

definition execute_statement :: "env \<Rightarrow> statement \<Rightarrow> (database, unit) op" where
  "execute_statement en st =
     (case st of
        CreateTable name columns \<Rightarrow> execute_create_table en name columns
      | DropTable name \<Rightarrow> execute_drop_table name
      | AlterTable table action \<Rightarrow> execute_alter_table en table action
      | InsertInto table columns values \<Rightarrow> with_table_lock en table Exclusive (execute_insert en table columns values)
      | UpdateSet table assignments wc \<Rightarrow> with_table_lock en table Exclusive (execute_update en table assignments wc)
      | DeleteFrom table wc \<Rightarrow> with_table_lock en table Exclusive (execute_delete en table wc)
      | BeginTransaction \<Rightarrow> begin_transaction
      | CommitTransaction \<Rightarrow> commit_transaction en
      | RollbackTransaction \<Rightarrow> rollback_transaction en
      | Select _ _ _ _ _ \<Rightarrow> mfail (Error ParseError))"

definition query_statement :: "env \<Rightarrow> statement \<Rightarrow> (database, query_result) op" where
  "query_statement en st =
     (case st of
        Select table columns wc order limit \<Rightarrow>
          with_table_lock en table Shared (execute_select en table columns wc order limit)
      | _ \<Rightarrow> mfail (Error ParseError))"

end
