(* ===== verification/Database.thy ===== *)
theory Database
  imports Executor
begin

text \<open>
  \<open>Database\<close> of \<open>src/storage.rs\<close>: opening, running a statement in its own write group or under a savepoint
  of the open transaction, BEGIN, COMMIT, ROLLBACK, queries and closing.

  The executor is created on first use; here it is part of the state from the start, which nothing can
  tell apart. A panic inside a statement unwinds past the clean-up, so those results pass through.
\<close>

section \<open>Opening\<close>

definition initialize_pages :: "env \<Rightarrow> (pager, unit) op" where
  "initialize_pages en p =
     (if num_pages p = 0 then
        mbind begin_group (\<lambda>_ p1.
          case mbind (po_alloc (en_ops en)) (\<lambda>_. mbind (po_alloc (en_ops en)) (\<lambda>_. mret ())) p1 of
            (Inr _, p2) \<Rightarrow> commit_group (en_crc en) (en_io en) p2
          | (Inl e, p2) \<Rightarrow> (Inl e, snd (abort_group p2))) p
      else (Inr (), p))"

definition initialize :: "env \<Rightarrow> (database, unit) op" where
  "initialize en =
     mbind (on_db_pager (initialize_pages en)) (\<lambda>_ db.
       if 0 < num_pages (ct_pager (db_catalog db))
       then on_catalog (load_schema (en_crc en) (en_io en) (en_ops en)) db else (Inr (), db))"

definition database_new :: "pager \<Rightarrow> database" where
  "database_new p =
     \<lparr>db_catalog = \<lparr>ct_pager = p, ct_schema = schema_new, ct_btrees = fmempty\<rparr>, db_txns = txn_manager_new,
      db_cdc = cdc_new, ex_locks = lock_manager_new, ex_active = None\<rparr>"

definition open_database :: "env \<Rightarrow> bytes \<Rightarrow> bytes \<Rightarrow> database result" where
  "open_database en f wal_bytes =
     (case pager_new (en_crc en) (en_io en) f wal_bytes of
        Inl e \<Rightarrow> Inl e
      | Inr p \<Rightarrow> (case initialize en (database_new p) of (Inl e, _) \<Rightarrow> Inl e | (Inr _, db) \<Rightarrow> Inr db))"

section \<open>Running a statement\<close>

definition snapshot_roots :: "database \<Rightarrow> (string, nat) fmap" where
  "snapshot_roots db = ct_btrees (db_catalog db)"

definition needs_schema_save :: "statement \<Rightarrow> bool" where
  "needs_schema_save st =
     (case st of CreateTable _ _ \<Rightarrow> True | DropTable _ \<Rightarrow> True | AlterTable _ _ \<Rightarrow> True | _ \<Rightarrow> False)"

definition db_reload :: "env \<Rightarrow> (database, unit) op" where
  "db_reload en = on_catalog (reload_schema (en_crc en) (en_io en) (en_ops en))"

definition discard_changes :: "nat \<Rightarrow> (database, unit) op" where
  "discard_changes mark = modify (\<lambda>db. db\<lparr>db_cdc := discard_staged_from mark (db_cdc db)\<rparr>)"

definition publish_changes :: "(database, unit) op" where
  "publish_changes = modify (\<lambda>db. db\<lparr>db_cdc := publish_staged (db_cdc db)\<rparr>)"

text \<open>The statement and, when a table or a root changed, the schema.\<close>

definition statement_work :: "env \<Rightarrow> statement \<Rightarrow> (database, unit) op" where
  "statement_work en st db =
     mbind (execute_statement en st) (\<lambda>_ db1.
       if needs_schema_save st \<or> snapshot_roots db \<noteq> snapshot_roots db1
       then on_catalog (save_schema (en_order en) (en_ops en)) db1 else (Inr (), db1)) db"

definition finish_statement :: "env \<Rightarrow> bool \<Rightarrow> nat \<Rightarrow> (database, unit) op" where
  "finish_statement en in_txn mark db =
     (if in_txn then on_db_pager (modify release_savepoint) db
      else case on_db_pager (commit_group (en_crc en) (en_io en)) db of
        (Inr _, db1) \<Rightarrow> publish_changes db1
      | (Inl e, db1) \<Rightarrow>
          mbind (discard_changes mark) (\<lambda>_. mbind (db_reload en) (\<lambda>_. mfail e)) db1)"

definition undo_statement :: "env \<Rightarrow> bool \<Rightarrow> nat \<Rightarrow> veloci_error \<Rightarrow> (database, unit) op" where
  "undo_statement en in_txn mark e =
     mbind (on_db_pager (if in_txn then rollback_to_savepoint else abort_group)) (\<lambda>_.
     mbind (discard_changes mark) (\<lambda>_.
     mbind (db_reload en) (\<lambda>_. mfail (Error e))))"

definition run_statement :: "env \<Rightarrow> statement \<Rightarrow> (database, unit) op" where
  "run_statement en st db =
     (let in_txn = in_transaction db; mark = staged_mark (db_cdc db) in
      mbind (on_db_pager (if in_txn then begin_savepoint else mbind begin_group (\<lambda>_. mret ()))) (\<lambda>_ db1.
        case statement_work en st db1 of
          (Inr _, db2) \<Rightarrow> finish_statement en in_txn mark db2
        | (Inl (Error e), db2) \<Rightarrow> undo_statement en in_txn mark e db2
        | (Inl f, db2) \<Rightarrow> (Inl f, db2)) db)"

section \<open>Transactions\<close>

definition db_begin :: "env \<Rightarrow> (database, unit) op" where
  "db_begin en =
     mbind begin_transaction (\<lambda>_ db.
       case on_db_pager begin_group db of
         (Inr _, db1) \<Rightarrow> (Inr (), db1)
       | (Inl e, db1) \<Rightarrow> (Inl e, snd (rollback_transaction en db1)))"

definition db_commit :: "env \<Rightarrow> (database, unit) op" where
  "db_commit en db =
     (if \<not> in_transaction db then (Inl (Error TransactionError), db)
      else case on_db_pager (commit_group (en_crc en) (en_io en)) db of
        (Inr _, db1) \<Rightarrow> mbind publish_changes (\<lambda>_. commit_transaction en) db1
      | (Inl e, db1) \<Rightarrow>
          mbind (discard_changes 0) (\<lambda>_ db2.
            mbind (db_reload en) (\<lambda>_. mfail e) (snd (rollback_transaction en db2))) db1)"

definition db_rollback :: "env \<Rightarrow> (database, unit) op" where
  "db_rollback en db =
     (if \<not> in_transaction db then (Inl (Error TransactionError), db)
      else
        mbind (on_db_pager abort_group) (\<lambda>_.
        mbind (discard_changes 0) (\<lambda>_.
        mbind (db_reload en) (\<lambda>_. rollback_transaction en))) db)"

text \<open>\<open>execute\<close> and \<open>query\<close> behind the parser.\<close>

definition execute_parsed :: "env \<Rightarrow> statement \<Rightarrow> (database, unit) op" where
  "execute_parsed en st =
     (case st of
        BeginTransaction \<Rightarrow> db_begin en
      | CommitTransaction \<Rightarrow> db_commit en
      | RollbackTransaction \<Rightarrow> db_rollback en
      | _ \<Rightarrow> run_statement en st)"

definition db_close :: "env \<Rightarrow> (database, unit) op" where
  "db_close en = on_db_pager (flush (en_io en))"

definition vector_search ::
    "env \<Rightarrow> string \<Rightarrow> string \<Rightarrow> f32 list \<Rightarrow> nat \<Rightarrow> distance_metric \<Rightarrow> (database, (f64 \<times> row) list) op" where
  "vector_search en table column q k metric =
     mbind (read_schema (get_table table)) (\<lambda>ts.
     mbind (mlift (index_or NotFound (column_index ts column))) (\<lambda>col_index.
       case col_data_type (ts_columns ts ! col_index) of
         DtVector dim \<Rightarrow>
           if dim \<noteq> length q then mfail (Error TypeMismatch)
           else mbind (on_btree table (btree_scan (en_ops en) (en_fuel en))) (\<lambda>all_rows.
             mret (map (\<lambda>(d, _, row). (d, row)) (knn (en_select en) (en_float en) all_rows col_index q metric k)))
       | _ \<Rightarrow>
           mbind (on_btree table (btree_scan (en_ops en) (en_fuel en))) (\<lambda>all_rows.
             mret (map (\<lambda>(d, _, row). (d, row)) (knn (en_select en) (en_float en) all_rows col_index q metric k)))))"

fun decimal :: "nat \<Rightarrow> string" where
  "decimal n = (if n < 10 then [char_of (48 + n)] else decimal (n div 10) @ [char_of (48 + n mod 10)])"

declare decimal.simps [simp del]

definition type_str :: "data_type \<Rightarrow> string" where
  "type_str t =
     (case t of DtInteger \<Rightarrow> ''INTEGER'' | DtReal \<Rightarrow> ''REAL'' | DtText \<Rightarrow> ''TEXT'' | DtBlob \<Rightarrow> ''BLOB''
      | DtNull \<Rightarrow> ''NULL'' | DtVector dim \<Rightarrow> ''F32_BLOB('' @ decimal dim @ '')'')"

definition describe_column :: "column \<Rightarrow> string" where
  "describe_column col =
     col_name col @ '' '' @ type_str (col_data_type col)
     @ (if col_primary_key col then '' PRIMARY KEY'' else [])
     @ (if col_not_null col \<and> \<not> col_primary_key col then '' NOT NULL'' else [])
     @ (if col_unique col \<and> \<not> col_primary_key col then '' UNIQUE'' else [])"

fun comma_separated :: "string list \<Rightarrow> string" where
  "comma_separated [] = []"
| "comma_separated [s] = s"
| "comma_separated (s # t # ss) = s @ '', '' @ comma_separated (t # ss)"

definition describe_table :: "string \<Rightarrow> (database, string) op" where
  "describe_table name =
     mbind (read_schema (get_table name)) (\<lambda>t.
       mret (''CREATE TABLE '' @ ts_name t @ '' ('' @ comma_separated (map describe_column (ts_columns t)) @ '')''))"

end
