(* ===== verification/Stable.thy ===== *)
theory Stable
  imports BTree
begin

text \<open>
  What every run of an operation keeps, whether it succeeds or fails. \<open>stable I m\<close> says that \<open>m\<close> keeps \<open>I\<close>
  from any state; the rules follow the shape of the programs. The locale collects the three page calls of
  the tree: whatever they keep, all tree operations keep, including rebalancing and runs cut short by an
  error anywhere.
\<close>

named_theorems stable_intros \<open>which programs keep an invariant\<close>

definition stable :: "('s \<Rightarrow> bool) \<Rightarrow> ('s, 'a) op \<Rightarrow> bool" where
  "stable I m \<longleftrightarrow> (\<forall>s. I s \<longrightarrow> I (snd (m s)))"

lemma stableI: "(\<And>s. I s \<Longrightarrow> I (snd (m s))) \<Longrightarrow> stable I m"
  by (simp add: stable_def)

lemma stableD: "stable I m \<Longrightarrow> I s \<Longrightarrow> I (snd (m s))"
  by (simp add: stable_def)

lemma stable_result: "stable I m \<Longrightarrow> I s \<Longrightarrow> m s = (r, s') \<Longrightarrow> I s'"
  using stableD [of I m s] by simp

lemma stable_basic [stable_intros]: "stable I (mret x)" "stable I (mfail e)" "stable I (mlift r)"
  by (simp_all add: stable_def)

lemma stable_mbind [stable_intros]:
  assumes "stable I m" and "\<And>x. stable I (f x)"
  shows "stable I (mbind m f)"
proof (rule stableI)
  fix s assume "I s"
  with assms(1) have "I (snd (m s))" by (rule stableD)
  with assms(2) show "I (snd (mbind m f s))" by (auto simp: mbind_def stable_def split: prod.split sum.split)
qed

lemma stable_if [stable_intros]: "stable I m \<Longrightarrow> stable I n \<Longrightarrow> stable I (if b then m else n)"
  by simp

lemma stable_prod [stable_intros]: "(\<And>a b. stable I (f a b)) \<Longrightarrow> stable I (case x of (a, b) \<Rightarrow> f a b)"
  by (cases x) simp

lemma stable_option [stable_intros]:
  "stable I m \<Longrightarrow> (\<And>a. stable I (f a)) \<Longrightarrow> stable I (case x of None \<Rightarrow> m | Some a \<Rightarrow> f a)"
  by (cases x) simp_all

lemma stable_Let [stable_intros]: "(\<And>a. stable I (f a)) \<Longrightarrow> stable I (Let v f)"
  by (simp add: Let_def)

lemma stable_apply: "(\<And>t. stable J (m t)) \<Longrightarrow> stable J (\<lambda>t. m t t)"
  by (simp add: stable_def)

locale stable_pages =
  fixes P :: "'s page_ops" and I :: "'s \<Rightarrow> bool"
  assumes stable_read: "stable I (po_read P pid)"
    and stable_write: "stable I (po_write P pid page)"
    and stable_alloc: "stable I (po_alloc P)"
begin

lemmas page_intros = stable_intros stable_read stable_write stable_alloc

lemma stable_read_node: "stable I (read_node P pid)"
  unfolding read_node_def by (intro page_intros)

lemmas node_intros = page_intros stable_read_node

lemma stable_find_leaf: "stable I (find_leaf P fuel pid key)"
proof (induction fuel arbitrary: pid)
  case (Suc fuel)
  show ?case unfolding find_leaf.simps by (intro node_intros Suc.IH)
qed (simp add: stable_basic)

lemma stable_search: "stable I (search P fuel root key)"
  unfolding search_def by (intro node_intros stable_find_leaf)

lemma stable_scan_node: "stable I (scan_node P fuel pid)"
proof (induction fuel arbitrary: pid)
  case (Suc fuel)
  have pairs: "stable I (scan_pairs P fuel n offset page)" for n offset page
  proof (induction n arbitrary: offset)
    case (Suc n)
    show ?case unfolding scan_pairs.simps by (intro node_intros Suc.IH \<open>\<And>pid. stable I (scan_node P fuel pid)\<close>)
  qed (simp add: stable_basic)
  show ?case unfolding scan_node.simps by (intro node_intros Suc.IH pairs)
qed (simp add: stable_basic)

lemma stable_split_leaf: "stable I (split_leaf_node P pid)"
  unfolding split_leaf_node_def by (intro node_intros)

lemma stable_set_parent: "stable I (set_parent_pointer P pid par)"
  unfolding set_parent_pointer_def by (intro node_intros)

lemma stable_set_parents: "stable I (set_parent_pointers P cs par)"
proof (induction cs)
  case (Cons c cs)
  show ?case unfolding set_parent_pointers.simps by (intro node_intros stable_set_parent Cons.IH)
qed (simp only: set_parent_pointers.simps stable_basic)

lemma stable_new_root: "stable I (create_new_root P l r k)"
  unfolding create_new_root_def by (intro node_intros stable_set_parent)

lemma stable_parents:
  "stable I (insert_into_parent P fuel l r k)"
  "stable I (insert_into_internal P fuel pid r k)"
  "stable I (split_internal_node P fuel pid r k)"
proof (induction fuel arbitrary: l r k pid)
  case (Suc fuel)
  note intros = node_intros stable_set_parent stable_set_parents stable_new_root Suc.IH
  { case 1 show ?case unfolding insert_into_parent.simps by (intro intros) }
  { case 2 show ?case unfolding insert_into_internal.simps by (intro intros) }
  { case 3 show ?case unfolding split_internal_node.simps by (intro intros) }
qed (simp_all add: stable_basic)

lemma stable_insert_leaf: "stable I (insert_into_leaf P fuel pid key d)"
proof (induction fuel arbitrary: pid)
  case (Suc fuel)
  show ?case unfolding insert_into_leaf.simps by (intro node_intros stable_split_leaf stable_parents Suc.IH)
qed (simp add: stable_basic)

lemma stable_update_parent_key: "stable I (update_parent_key P pid old new)"
  unfolding update_parent_key_def by (intro node_intros)

lemma stable_redistribute: "stable I (redistribute_from_sibling P pid sib par k b)"
  unfolding redistribute_from_sibling_def by (intro node_intros stable_update_parent_key)

lemma stable_read_internal: "stable I (read_internal P pid)"
  unfolding read_internal_def by (intro node_intros)

lemma stable_write_internal: "stable I (write_internal P pid h ks cs)"
  unfolding write_internal_def by (intro node_intros)

lemma stable_redistribute_internal: "stable I (redistribute_internal P pid sib par k b)"
  unfolding redistribute_internal_def
  by (intro node_intros stable_read_internal stable_write_internal stable_set_parent stable_update_parent_key)

lemma stable_removals:
  "stable I (remove_child_from_parent P fuel par child root)"
  "stable I (handle_internal_underflow P fuel pid root)"
  "stable I (merge_internal P fuel pid sib par k root b)"
proof (induction fuel arbitrary: par child root pid sib k b)
  case (Suc fuel)
  note intros = node_intros stable_read_internal stable_write_internal stable_set_parents stable_redistribute_internal Suc.IH
  { case 1 show ?case unfolding remove_child_from_parent.simps by (intro intros) }
  { case 2 show ?case unfolding handle_internal_underflow.simps by (intro intros) }
  { case 3 show ?case unfolding merge_internal.simps by (intro intros) }
qed (simp_all add: stable_basic)

lemma stable_merge_leaves: "stable I (merge_leaves P fuel pid sib par root b)"
  unfolding merge_leaves_def by (intro node_intros stable_removals)

lemma stable_leaf_underflow: "stable I (handle_leaf_underflow P fuel pid root)"
  unfolding handle_leaf_underflow_def by (intro node_intros stable_redistribute stable_merge_leaves)

text \<open>The same for the tree handle, whose pager is the state.\<close>

definition tree_inv :: "'s btree \<Rightarrow> bool" where
  "tree_inv t \<longleftrightarrow> I (bt_pager t)"

lemma stable_on_pager: "stable I m \<Longrightarrow> stable tree_inv (on_pager m)"
  by (auto simp: stable_def tree_inv_def on_pager_def split: prod.split)

lemma stable_on_pager_app: "(\<And>t. stable I (m t)) \<Longrightarrow> stable tree_inv (\<lambda>t. on_pager (m t) t)"
  by (rule stableI) (blast intro: stableD stable_on_pager)

lemma stable_set_root: "stable tree_inv (\<lambda>t. (Inr x, set_root r t))"
  by (auto simp: stable_def tree_inv_def set_root_def split: option.split)

lemma stable_btree_search: "stable tree_inv (btree_search P fuel key)"
  unfolding btree_search_def [abs_def] by (rule stable_on_pager_app) (rule stable_search)

lemma stable_btree_scan: "stable tree_inv (btree_scan P fuel)"
  unfolding btree_scan_def [abs_def] by (rule stable_on_pager_app) (rule stable_scan_node)

lemma stable_btree_insert: "stable tree_inv (btree_insert P fuel key row)"
  unfolding btree_insert_def [abs_def]
  by (rule stable_apply) (intro stable_intros stable_on_pager stable_find_leaf stable_insert_leaf stable_set_root)

lemma stable_btree_delete: "stable tree_inv (btree_delete P fuel key)"
  unfolding btree_delete_def [abs_def] Let_def
  by (rule stable_apply) (intro stable_intros stable_on_pager stable_find_leaf stable_leaf_underflow
      stable_read stable_write stable_set_root)

lemmas btree_intros = stable_btree_search stable_btree_scan stable_btree_insert stable_btree_delete

end

end
