(* ===== verification/PagerUndo.thy ===== *)
theory PagerUndo
  imports BTreePager Stable
begin

text \<open>
  Undoing whatever a statement did to the pager. \<open>undoable p0 p\<close> relates the pager \<open>p0\<close> at the start of a
  statement to the pager \<open>p\<close> after any page calls, with no condition on the pages called or the data
  written; rolling back to the savepoint, or aborting the statement's own group, then restores \<open>p0\<close> but for
  the contents of the cache.
\<close>

section \<open>Page calls inside a group\<close>

text \<open>The page a read finds, without the bound on the page number.\<close>

definition seen :: "pager \<Rightarrow> nat \<Rightarrow> bytes option" where
  "seen p pid = (case fmlookup (pending p) pid of Some y \<Rightarrow> Some y | None \<Rightarrow> stored p pid)"

definition cached_ok :: "pager \<Rightarrow> bool" where
  "cached_ok p \<longleftrightarrow> cache_size p = fcard (fmdom (cache p)) \<and> cache_ok (seen p) (cache p)"

definition undoable :: "pager \<Rightarrow> pager \<Rightarrow> bool" where
  "undoable p0 p \<longleftrightarrow>
     pg_file p = pg_file p0 \<and> committed p = committed p0 \<and> pg_wal p = pg_wal p0 \<and> active_group p = active_group p0
     \<and> active_group p0 \<noteq> None \<and> group_start_pages p = group_start_pages p0 \<and> max_cache_size p = max_cache_size p0
     \<and> cached_ok p"

definition in_statement :: "pager \<Rightarrow> pager \<Rightarrow> bool" where
  "in_statement p0 p \<longleftrightarrow> undoable p0 p
     \<and> (\<exists>sp. pg_savepoint p = Some sp \<and> sp_num_pages sp = num_pages p0 \<and> undone sp (pending p) = fmlookup (pending p0))"

definition in_own_group :: "pager \<Rightarrow> pager \<Rightarrow> bool" where
  "in_own_group p0 p \<longleftrightarrow> undoable p0 p \<and> pg_savepoint p = None"

lemma cached_ok_inv:
  assumes "pager_inv crc p"
  shows "cached_ok p"
  using assms pager_inv_views [OF assms] by (simp add: cached_ok_def pager_inv_def cache_ok_def seen_def)

lemma seen_set_cache [simp]: "seen (set_cache cs p) = seen p" "seen (p\<lparr>pg_savepoint := sp\<rparr>) = seen p"
  by (simp_all add: seen_def stored_def fun_eq_iff cong: option.case_cong)

lemma seen_buffer: "seen (buffer_page pick pid x p) = (seen p)(pid \<mapsto> x)"
  by (auto simp: seen_def stored_def fun_eq_iff buffer_page_fields split: option.split)

lemma cached_ok_set_cache:
  assumes c: "cached_ok p" and ins: "seen p pid = Some x"
  shows "cached_ok (set_cache (cache_insert pid x (evict_until pick keep mx (cache p, cache_size p))) p)"
  using assms by (simp add: cached_ok_def cache_insert_ok evict_until_ok cache_insert_size evict_until_size)

lemma read_page_cases:
  assumes "cached_ok p"
  obtains "snd (read_page pick pid p) = p"
  | x where "snd (read_page pick pid p) =
      set_cache (cache_insert pid x (evict_until pick None (max_cache_size p) (cache p, cache_size p))) p"
    and "seen p pid = Some x"
proof (cases "fmlookup (pending p) pid = None \<and> fmlookup (cache p) pid = None")
  case False
  then show thesis using that(1) by (auto simp: read_page_def split: option.splits)
next
  case True
  show thesis
  proof (cases "fmlookup (committed p) pid")
    case (Some x)
    with True show thesis using that(2) [of x] by (simp add: read_page_def seen_def stored_def)
  next
    case None
    show thesis
    proof (cases "num_pages p \<le> pid \<or> file_page (pg_file p) pid = None")
      case True
      with None \<open>fmlookup (pending p) pid = None \<and> _\<close> show thesis using that(1) by (auto simp: read_page_def Let_def)
    next
      case False
      then obtain x where "file_page (pg_file p) pid = Some x" "\<not> num_pages p \<le> pid" by auto
      with None True show thesis using that(2) [of x] by (simp add: read_page_def seen_def stored_def Let_def)
    qed
  qed
qed

lemma undoable_set_cache:
  assumes u: "undoable p0 p" and c: "cached_ok (set_cache cs p)"
  shows "undoable p0 (set_cache cs p)"
  using assms by (simp add: undoable_def)

lemma undoable_read:
  assumes u: "undoable p0 p"
  shows "undoable p0 (snd (read_page pick pid p))" and "pg_savepoint (snd (read_page pick pid p)) = pg_savepoint p"
    and "pending (snd (read_page pick pid p)) = pending p"
proof -
  have c: "cached_ok p" using u by (simp add: undoable_def)
  show "undoable p0 (snd (read_page pick pid p))" "pg_savepoint (snd (read_page pick pid p)) = pg_savepoint p"
    "pending (snd (read_page pick pid p)) = pending p"
    using read_page_cases [OF c, of pick pid] u undoable_set_cache [OF u cached_ok_set_cache [OF c]]
    by (metis set_cache_fields(7,10))+
qed

lemma undoable_buffer:
  assumes u: "undoable p0 p"
  shows "undoable p0 (buffer_page pick pid x p)"
proof -
  let ?e = "evict_until pick (Some pid) (max_cache_size p) (cache p, cache_size p)"
  have c: "cached_ok p" using u by (simp add: undoable_def)
  then have "snd (cache_insert pid x ?e) = fcard (fmdom (fst (cache_insert pid x ?e)))"
    by (intro cache_insert_size evict_until_size) (simp add: cached_ok_def)
  then have "cached_ok (buffer_page pick pid x p)"
    using buffer_page_cache_ok [of "seen p" p pid x pick] c by (simp add: cached_ok_def seen_buffer buffer_page_fields)
  then show ?thesis using u by (simp add: undoable_def buffer_page_fields)
qed

lemma undoable_in_group: "undoable p0 p \<Longrightarrow> \<exists>g. active_group p = Some g"
  by (auto simp: undoable_def)

lemma in_statement_buffer:
  assumes "in_statement p0 p"
  shows "in_statement p0 (buffer_page pick pid x p)"
proof -
  from assms obtain sp where u: "undoable p0 p" and sp: "pg_savepoint p = Some sp" "sp_num_pages sp = num_pages p0"
    "undone sp (pending p) = fmlookup (pending p0)"
    by (auto simp: in_statement_def)
  obtain sp' where "pg_savepoint (record_undo pid p) = Some sp'" "sp_num_pages sp' = sp_num_pages sp"
    "undone sp' (fmupd pid x (pending p)) = undone sp (pending p)"
    by (rule record_undo_undone [OF sp(1)])
  with sp undoable_buffer [OF u] show ?thesis by (simp add: in_statement_def buffer_page_fields)
qed

lemma in_own_group_buffer: "in_own_group p0 p \<Longrightarrow> in_own_group p0 (buffer_page pick pid x p)"
  by (simp add: in_own_group_def undoable_buffer buffer_page_no_savepoint)

lemma group_calls:
  assumes g: "active_group p = Some g"
  shows "snd (write_page crc pick io pid x p) = buffer_page pick pid x p"
    and "snd (allocate_page crc pick io p) = buffer_page pick (num_pages p) page_new p"
  by (simp_all add: write_page_in_group [OF g] allocate_page_def mbind_def)

interpretation stm: stable_pages "pager_ops crc pick io" "in_statement p0" for crc pick io p0
proof
  show "stable (in_statement p0) (po_read (pager_ops crc pick io) pid)" for pid
    by (rule stableI) (auto simp: pager_ops_def in_statement_def undoable_read)
  show "stable (in_statement p0) (po_write (pager_ops crc pick io) pid page)" for pid page
    by (rule stableI) (use group_calls in_statement_buffer undoable_in_group in \<open>fastforce simp: pager_ops_def in_statement_def\<close>)
  show "stable (in_statement p0) (po_alloc (pager_ops crc pick io))"
    by (rule stableI) (use group_calls in_statement_buffer undoable_in_group in \<open>fastforce simp: pager_ops_def in_statement_def\<close>)
qed

interpretation own: stable_pages "pager_ops crc pick io" "in_own_group p0" for crc pick io p0
proof
  show "stable (in_own_group p0) (po_read (pager_ops crc pick io) pid)" for pid
    by (rule stableI) (auto simp: pager_ops_def in_own_group_def undoable_read)
  show "stable (in_own_group p0) (po_write (pager_ops crc pick io) pid page)" for pid page
    by (rule stableI) (use group_calls in_own_group_buffer undoable_in_group in \<open>fastforce simp: pager_ops_def in_own_group_def\<close>)
  show "stable (in_own_group p0) (po_alloc (pager_ops crc pick io))"
    by (rule stableI) (use group_calls in_own_group_buffer undoable_in_group in \<open>fastforce simp: pager_ops_def in_own_group_def\<close>)
qed

section \<open>Undoing\<close>

text \<open>Two pagers that differ at most in what the cache holds.\<close>

definition recached :: "(bytes \<Rightarrow> 32 word) \<Rightarrow> pager \<Rightarrow> pager \<Rightarrow> bool" where
  "recached crc p q \<longleftrightarrow> (\<exists>cs. q = set_cache cs p) \<and> pager_inv crc q"

lemma recached_views: "recached crc p q \<Longrightarrow> abs_pager q = abs_pager p \<and> page_view q = page_view p \<and> num_pages q = num_pages p
    \<and> active_group q = active_group p \<and> pg_savepoint q = pg_savepoint p"
  by (auto simp: recached_def)

lemma begin_statement:
  assumes inv: "pager_inv crc p" and g: "active_group p \<noteq> None" and s: "pg_savepoint p = None"
  shows "fst (begin_savepoint p) = Inr ()" and "in_statement p (snd (begin_savepoint p))"
proof -
  have e: "begin_savepoint p = (Inr (), p\<lparr>pg_savepoint := Some \<lparr>sp_undo = fmempty, sp_num_pages = num_pages p\<rparr>\<rparr>)"
    using g s by (simp add: begin_savepoint_def)
  show "fst (begin_savepoint p) = Inr ()" by (simp add: e)
  have "cached_ok (p\<lparr>pg_savepoint := Some \<lparr>sp_undo = fmempty, sp_num_pages = num_pages p\<rparr>\<rparr>)"
    using cached_ok_inv [OF inv] by (simp add: cached_ok_def)
  then show "in_statement p (snd (begin_savepoint p))" using g by (simp add: e in_statement_def undoable_def undone_def fun_eq_iff)
qed

lemma rollback_statement:
  assumes inv: "pager_inv crc p0" and s: "pg_savepoint p0 = None" and st: "in_statement p0 p"
  obtains q where "rollback_to_savepoint p = (Inr (), q)" and "recached crc p0 q"
proof -
  from st obtain sp where u: "undoable p0 p" and sp: "pg_savepoint p = Some sp" "sp_num_pages sp = num_pages p0"
    "undone sp (pending p) = fmlookup (pending p0)"
    by (auto simp: in_statement_def)
  let ?p1 = "p\<lparr>pg_savepoint := None\<rparr>" and ?pids = "sorted_list_of_fset (fmdom (sp_undo sp))"
  have size: "cache_size p = fcard (fmdom (cache p))" using u by (simp add: undoable_def cached_ok_def)
  from fold_undo_page [of sp ?pids ?p1] size obtain m c sz where
    f: "fold (undo_page sp) ?pids ?p1 = set_cache (c, sz) (?p1\<lparr>pending := m\<rparr>)"
    and m: "\<forall>pid. fmlookup m pid = (if pid |\<in>| fmdom (sp_undo sp) then undone sp (pending p) pid else fmlookup (pending p) pid)"
    and c: "\<forall>pid. fmlookup c pid = (if pid |\<in>| fmdom (sp_undo sp) then None else fmlookup (cache p) pid)"
    and sz: "sz = fcard (fmdom c)"
    by auto
  have "fmlookup m = undone sp (pending p)" using m by (auto simp: undone_def fun_eq_iff fmdom_notD)
  then have "fmlookup m = fmlookup (pending p0)" by (simp add: sp(3))
  then have mp: "m = pending p0" by (intro fmap_ext) simp
  have r: "rollback_to_savepoint p = (Inr (), set_cache (c, sz) p0)"
    using u s sp(1,2) f mp
    by (cases p0, cases p) (simp add: rollback_to_savepoint_def Let_def set_cache_def undoable_def)
  have "cache_ok (page_view p0) c"
    unfolding cache_ok_def
  proof (intro allI impI)
    fix pid x assume "fmlookup c pid = Some x"
    then have n: "fmlookup (sp_undo sp) pid = None" and x: "fmlookup (cache p) pid = Some x"
      using c by (auto simp: fmdom_notD split: if_splits)
    have "fmlookup (pending p0) pid = fmlookup (pending p) pid"
      using fun_cong [OF sp(3), of pid] n by (simp add: undone_def)
    moreover have "stored p pid = stored p0 pid" using u by (simp add: undoable_def stored_def split: option.split)
    moreover have "seen p pid = Some x"
      using u x by (auto simp: undoable_def cached_ok_def cache_ok_def)
    ultimately show "page_view p0 pid = Some x" by (simp add: pager_inv_views [OF inv] seen_def split: option.splits)
  qed
  with set_cache_inv [OF inv, of "(c, sz)"] sz show thesis
    using that [OF r] by (auto simp: recached_def)
qed

text \<open>Aborting a group of its own leads back to the pager before \<open>begin_group\<close>, up to the group counter.\<close>

definition regrouped :: "(bytes \<Rightarrow> 32 word) \<Rightarrow> pager \<Rightarrow> pager \<Rightarrow> bool" where
  "regrouped crc p q \<longleftrightarrow> (\<exists>cs w n. q = set_cache cs (p\<lparr>pg_wal := w, group_start_pages := n\<rparr>)
     \<and> wal_file w = wal_file (pg_wal p)) \<and> pager_inv crc q"

lemma regrouped_views:
  assumes "regrouped crc p q" and "active_group p = None"
  shows "abs_pager q = abs_pager p" "page_view q = page_view p" "num_pages q = num_pages p" "active_group q = None"
    "pg_savepoint q = pg_savepoint p" "pg_file q = pg_file p" "wal_file (pg_wal q) = wal_file (pg_wal p)"
  using assms by (auto simp: regrouped_def abs_pager_def view_defs in_group_def)

lemma begin_own_group:
  assumes inv: "pager_inv crc p" and g: "active_group p = None"
  shows "\<exists>gid. begin_group p = (Inr gid, snd (begin_group p))" and "in_own_group (snd (begin_group p)) (snd (begin_group p))"
    and "pager_inv crc (snd (begin_group p))"
    and "active_group (snd (begin_group p)) \<noteq> None" and "page_view (snd (begin_group p)) = page_view p"
    and "num_pages (snd (begin_group p)) = num_pages p"
proof -
  have s: "pg_savepoint p = None" using inv g by (simp add: pager_inv_def group_inv_def)
  show i: "pager_inv crc (snd (begin_group p))" by (rule begin_group_inv [OF inv g])
  show "\<exists>gid. begin_group p = (Inr gid, snd (begin_group p))" by (simp add: begin_group_def g allocate_group_id_def)
  show a: "active_group (snd (begin_group p)) \<noteq> None" by (simp add: begin_group_def g allocate_group_id_def)
  show "page_view (snd (begin_group p)) = page_view p" "num_pages (snd (begin_group p)) = num_pages p"
    by (simp_all add: begin_group_def g allocate_group_id_def view_defs)
  have "pg_savepoint (snd (begin_group p)) = None" using s by (simp add: begin_group_def g allocate_group_id_def)
  with a cached_ok_inv [OF i] show "in_own_group (snd (begin_group p)) (snd (begin_group p))"
    by (simp add: in_own_group_def undoable_def)
qed

lemma abort_own_group:
  assumes inv: "pager_inv crc p" and g: "active_group p = None" and st: "in_own_group (snd (begin_group p)) q"
  obtains q' where "abort_group q = (Inr (), q')" and "regrouped crc p q'"
proof -
  let ?p0 = "snd (begin_group p)"
  obtain gid w where p0: "?p0 = p\<lparr>pg_wal := w, active_group := Some gid, group_start_pages := num_pages p\<rparr>"
    and w: "wal_file w = wal_file (pg_wal p)"
    by (cases "allocate_group_id (pg_wal p)") (auto simp: begin_group_def g allocate_group_id_def)
  have inv0: "pager_inv crc ?p0" by (rule begin_group_inv [OF inv g])
  have pend: "pending p = fmempty" "pg_savepoint p = None" using inv g by (simp_all add: pager_inv_def group_inv_def)
  from st have u: "undoable ?p0 q" and s: "pg_savepoint q = None" by (simp_all add: in_own_group_def)
  obtain g' where g': "active_group q = Some g'" using undoable_in_group [OF u] by blast
  have size: "cache_size q = fcard (fmdom (cache q))" using u by (simp add: undoable_def cached_ok_def)
  obtain c sz where a: "abort_group q = (Inr (), set_cache (c, sz) (q\<lparr>active_group := None, pg_savepoint := None,
      pending := fmempty, num_pages := group_start_pages q\<rparr>))"
    and c: "\<And>pid. fmlookup c pid = (if fmlookup (pending q) pid = None then fmlookup (cache q) pid else None)"
    and sz: "sz = fcard (fmdom c)"
    using abort_group_fields [OF g' size] by blast
  let ?q = "p\<lparr>pg_wal := w, group_start_pages := num_pages p\<rparr>"
  have eq: "set_cache (c, sz) (q\<lparr>active_group := None, pg_savepoint := None, pending := fmempty, num_pages := group_start_pages q\<rparr>) =
      set_cache (c, sz) ?q"
    using u g pend unfolding p0 by (cases p, cases q) (simp add: undoable_def set_cache_def)
  have inv1: "pager_inv crc ?q"
  proof -
    have "?q = ?p0\<lparr>active_group := None\<rparr>" unfolding p0 using g by (cases p) simp
    moreover have "pager_inv crc (?p0\<lparr>active_group := None\<rparr>)"
      using inv inv0 g pend unfolding p0 by (simp add: pager_inv_defs view_defs)
    ultimately show ?thesis by simp
  qed
  have "cache_ok (page_view ?q) c"
    unfolding cache_ok_def
  proof (intro allI impI)
    fix pid x assume "fmlookup c pid = Some x"
    then have n: "fmlookup (pending q) pid = None" and x: "fmlookup (cache q) pid = Some x"
      by (auto simp: c split: if_splits)
    have "seen q pid = Some x" using u x by (auto simp: undoable_def cached_ok_def cache_ok_def)
    moreover have "stored q pid = stored ?q pid" using u unfolding p0 by (simp add: undoable_def stored_def split: option.split)
    ultimately show "page_view ?q pid = Some x" using n pend by (simp add: pager_inv_views [OF inv1] seen_def split: option.splits)
  qed
  with set_cache_inv [OF inv1, of "(c, sz)"] sz w show thesis
    using that [OF a [unfolded eq]] by (auto simp: regrouped_def)
qed

text \<open>A commit that fails and can cut the log back ends as an abort does.\<close>

lemma append_failure_keeps:
  assumes "append_group crc out gid pages w = (Inl e, w')" and "wal_len w = length (wal_file w)" and "\<forall>k. out \<noteq> WriteFails k False"
  shows "w' = w"
proof (cases "encode_pages crc gid pages")
  case (Inr recs)
  then obtain k where out: "out = WriteFails k True"
    using assms(1,3) by (cases out) (auto simp: append_group_def Let_def)
  have "set_len (wal_len w) (write_at (wal_len w) xs (wal_file w)) = wal_file w" for xs
    by (simp add: assms(2) set_len_def write_at_def)
  with Inr out assms(1) show ?thesis by (simp add: append_group_def Let_def)
qed (use assms(1) in \<open>simp add: append_group_def\<close>)

lemma failed_commit_own_group:
  assumes inv: "pager_inv crc p" and g: "active_group p = None" and st: "in_own_group (snd (begin_group p)) q"
    and out: "\<forall>k. io_append io \<noteq> WriteFails k False" and c: "commit_group crc io q = (Inl e, q')"
  shows "regrouped crc p q'"
proof -
  from st have u: "undoable (snd (begin_group p)) q" and s: "pg_savepoint q = None" by (simp_all add: in_own_group_def)
  obtain gid where g': "active_group q = Some gid" using undoable_in_group [OF u] by blast
  have q: "q\<lparr>pg_savepoint := None\<rparr> = q" using s by (cases q) simp
  obtain e' w where ap: "append_group crc (io_append io) gid (sorted_pages (pending q)) (pg_wal q) = (Inl e', w)"
    using c g' by (cases "append_group crc (io_append io) gid (sorted_pages (pending q)) (pg_wal q)"; cases "fst (append_group crc (io_append io) gid (sorted_pages (pending q)) (pg_wal q))")
      (auto simp: commit_group_def Let_def q split: if_splits)
  have "pager_inv crc (snd (begin_group p))" by (rule begin_group_inv [OF inv g])
  then have "wal_len (pg_wal q) = length (wal_file (pg_wal q))" using u by (simp add: undoable_def pager_inv_def wal_inv_def)
  from append_failure_keeps [OF ap this out] have "w = pg_wal q" .
  then have "q\<lparr>pg_wal := w\<rparr> = q" by simp
  then have "q' = snd (abort_group q)" using c g' ap by (simp add: commit_group_def Let_def q split: if_splits)
  with abort_own_group [OF inv g st] show ?thesis by (metis snd_conv)
qed

end
