(* ===== verification/Atomicity.thy ===== *)
theory Atomicity
  imports Database PagerUndo
begin

text \<open>
  A statement that fails leaves no trace. Inside a statement the pager only moves by page calls and the
  change log only grows its staging buffer, whatever the statement does and wherever it stops; the locale
  proves this once for every operation of the executor, and is interpreted for a statement under a
  savepoint and for a statement in a group of its own.
\<close>

section \<open>What a statement may change\<close>

definition staged_on :: "cdc \<Rightarrow> cdc \<Rightarrow> bool" where
  "staged_on c0 c \<longleftrightarrow> (\<exists>xs. c = c0\<lparr>staged := staged c0 @ xs\<rparr>)"

lemma staged_on_refl [simp]: "staged_on c c"
  by (auto simp: staged_on_def intro: exI [of _ "[]"])

lemma staged_on_stage: "staged_on c0 c \<Longrightarrow> staged_on c0 (cdc_stage ch c)"
  by (auto simp: staged_on_def cdc_stage_def)

lemma staged_on_discard: "staged_on c0 c \<Longrightarrow> discard_staged_from (staged_mark c0) c = c0"
  by (auto simp: staged_on_def discard_staged_from_def staged_mark_def)

definition db_inv :: "(pager \<Rightarrow> bool) \<Rightarrow> cdc \<Rightarrow> nat option \<Rightarrow> txn_manager \<Rightarrow> database \<Rightarrow> bool" where
  "db_inv J c0 a0 t0 db \<longleftrightarrow> J (ct_pager (db_catalog db)) \<and> staged_on c0 (db_cdc db) \<and> ex_active db = a0
     \<and> (a0 \<noteq> None \<longrightarrow> db_txns db = t0)"

definition ct_inv :: "(pager \<Rightarrow> bool) \<Rightarrow> catalog \<Rightarrow> bool" where
  "ct_inv J c \<longleftrightarrow> J (ct_pager c)"

locale statement_pages = stable_pages "en_ops en" J for en :: env and J :: "pager \<Rightarrow> bool"
begin

lemma stable_on_ct: "stable J m \<Longrightarrow> stable (ct_inv J) (on_ct_pager m)"
  by (auto simp: stable_def ct_inv_def on_ct_pager_def split: prod.split)

lemma stable_on_catalog: "stable (ct_inv J) m \<Longrightarrow> stable (db_inv J c0 a0 t0) (on_catalog m)"
  by (auto simp: stable_def ct_inv_def db_inv_def on_catalog_def split: prod.split)

lemma stable_on_db_pager: "stable J m \<Longrightarrow> stable (db_inv J c0 a0 t0) (on_db_pager m)"
  unfolding on_db_pager_def by (intro stable_on_catalog stable_on_ct)

lemma stable_on_schema: "stable (db_inv J c0 a0 t0) (on_schema m)"
  unfolding on_schema_def by (rule stable_on_catalog) (auto simp: stable_def ct_inv_def split: prod.split)

lemma stable_read_schema: "stable (db_inv J c0 a0 t0) (read_schema f)"
  by (simp add: stable_def read_schema_def)

lemma stable_handles: "(\<And>c. ct_pager (f c) = ct_pager c) \<Longrightarrow> stable (db_inv J c0 a0 t0) (on_catalog (modify f))"
  by (rule stable_on_catalog) (simp add: stable_def ct_inv_def modify_def)

lemma stable_on_btree:
  assumes "stable tree_inv m"
  shows "stable (db_inv J c0 a0 t0) (on_btree table m)"
proof -
  have "tree_inv (snd (m \<lparr>root_page = r, bt_pager = p\<rparr>))" if "J p" for r p
    by (rule stableD [OF assms]) (use that in \<open>simp add: tree_inv_def\<close>)
  then have *: "m \<lparr>root_page = r, bt_pager = p\<rparr> = (x, t) \<Longrightarrow> J p \<Longrightarrow> J (bt_pager t)" for r p x t
    by (metis snd_conv tree_inv_def)
  show ?thesis unfolding on_btree_def
    by (intro stable_on_catalog stableI) (auto simp: ct_inv_def dest: * split: option.split prod.split)
qed

lemma db_inv_locks: "(db_inv J c0 a0 t0) (db\<lparr>ex_locks := l\<rparr>) = (db_inv J c0 a0 t0) db" "(db_inv J c0 None t0) (db\<lparr>db_txns := t\<rparr>) = (db_inv J c0 None t0) db"
  by (simp_all add: db_inv_def)

lemma stable_acquire: "stable (db_inv J c0 a0 t0) (acquire_lock en table txn ty)"
  by (auto simp: stable_def acquire_lock_def db_inv_locks split: option.split)

lemma stable_txns: "stable (db_inv J c0 None t0) db_txn_begin" "stable (db_inv J c0 None t0) (db_txn_end target txn)"
  by (auto simp: stable_def db_txn_begin_def db_txn_end_def db_inv_locks split: prod.split)

lemma db_inv_release: "(db_inv J c0 a0 t0) (release_locks en txn db) = (db_inv J c0 a0 t0) db"
  by (simp add: release_locks_def db_inv_locks)

lemma stable_with_lock:
  assumes f: "stable (db_inv J c0 a0 t0) f"
  shows "stable (db_inv J c0 a0 t0) (with_table_lock en table ty f)"
proof (rule stableI)
  fix db assume i: "(db_inv J c0 a0 t0) db"
  show "(db_inv J c0 a0 t0) (snd (with_table_lock en table ty f db))"
  proof (cases "ex_active db")
    case (Some txn)
    have "stable (db_inv J c0 a0 t0) (mbind (acquire_lock en table txn ty) (\<lambda>_. f))" by (intro stable_mbind stable_acquire f)
    with i Some show ?thesis by (simp add: with_table_lock_def stableD)
  next
    case None
    then have a0: "a0 = None" using i by (simp add: db_inv_def)
    note i = i [unfolded a0] and f = f [unfolded a0]
    obtain txn db1 where b: "db_txn_begin db = (Inr txn, db1)"
      by (cases "txn_begin (db_txns db)") (simp add: db_txn_begin_def)
    obtain r2 db2 where a: "acquire_lock en table txn ty db1 = (r2, db2)" by fastforce
    obtain r3 db3 where w: "f db2 = (r3, db3)" by fastforce
    obtain r4 db4 where e: "db_txn_end Committed txn db3 = (r4, db4)" by fastforce
    have i1: "db_inv J c0 None t0 db1" by (rule stable_result [OF stable_txns(1) i b])
    have i2: "db_inv J c0 None t0 db2" by (rule stable_result [OF stable_acquire i1 a])
    have i3: "db_inv J c0 None t0 db3" by (rule stable_result [OF f i2 w])
    have i4: "db_inv J c0 None t0 db4" by (rule stable_result [OF stable_txns(2) i3 e])
    have "db_inv J c0 None t0 (snd (db_txn_end Aborted txn db2))" "db_inv J c0 None t0 (snd (db_txn_end Aborted txn db3))"
      using stableD [OF stable_txns(2)] i2 i3 by simp_all
    with None b a w e i2 i3 i4 show ?thesis unfolding a0
      by (auto simp: with_table_lock_def mbind_def db_inv_release split: sum.split fault.split)
  qed
qed

section \<open>The operations of the executor\<close>

lemma db_inv_stage: "(db_inv J c0 a0 t0) db \<Longrightarrow> (db_inv J c0 a0 t0) (stage table op rowid before after db)"
  by (simp add: db_inv_def stage_def staged_on_stage)

lemma stable_stage_one: "stable (db_inv J c0 a0 t0) (modify (stage table op rowid before after))"
  by (simp add: stable_def modify_def db_inv_stage)

lemma stable_stage_all: "(\<And>x db. (db_inv J c0 a0 t0) db \<Longrightarrow> (db_inv J c0 a0 t0) (f x db)) \<Longrightarrow> stable (db_inv J c0 a0 t0) (stage_all f xs)"
proof -
  assume f: "\<And>x db. (db_inv J c0 a0 t0) db \<Longrightarrow> (db_inv J c0 a0 t0) (f x db)"
  have "(db_inv J c0 a0 t0) db \<Longrightarrow> (db_inv J c0 a0 t0) (fold f xs db)" for db by (induction xs arbitrary: db) (simp_all add: f)
  then show ?thesis by (simp add: stable_def stage_all_def modify_def)
qed

lemmas tree_intros = stable_intros btree_intros

lemma stable_rewrite_rows: "stable tree_inv (rewrite_rows (en_ops en) fuel f rows)"
proof (induction rows)
  case (Cons r rows)
  show ?case by (cases r) (simp only: rewrite_rows.simps, intro tree_intros Cons.IH)
qed (simp only: rewrite_rows.simps stable_basic)

lemma stable_rewrite_table: "stable (db_inv J c0 a0 t0) (rewrite_table en table f)"
  unfolding rewrite_table_def by (intro stable_on_btree tree_intros stable_rewrite_rows)

lemma stable_fresh_root: "stable J (fresh_root (en_ops en))"
  unfolding fresh_root_def by (intro page_intros)

lemmas db_intros = stable_intros stable_on_schema stable_read_schema stable_on_btree stable_rewrite_table stable_on_db_pager

lemma stable_create: "stable (db_inv J c0 a0 t0) (execute_create_table en name cols)"
  unfolding execute_create_table_def by (intro db_intros stable_fresh_root stable_handles) simp

lemma stable_drop: "stable (db_inv J c0 a0 t0) (execute_drop_table name)"
  unfolding execute_drop_table_def by (intro db_intros stable_handles) simp

lemma stable_rename: "stable (db_inv J c0 a0 t0) (rename_table table new_name)"
  unfolding rename_table_def by (intro db_intros stable_handles) (simp split: option.split)

lemma stable_alter: "stable (db_inv J c0 a0 t0) (execute_alter_table en table action)"
  unfolding execute_alter_table_def by (cases action) (simp_all, (intro db_intros stable_rename)+)

lemma stable_candidates: "stable tree_inv (candidate_rows (en_ops en) fuel wc ts)"
  unfolding candidate_rows_def by (intro tree_intros)

lemma stable_check_insert: "stable tree_inv (check_insert_unique en ts row)"
  unfolding check_insert_unique_def by (intro tree_intros)

lemma stable_insert_checked: "stable tree_inv (insert_checked en ts pk row)"
  unfolding insert_checked_def by (intro tree_intros stable_check_insert)

lemma stable_insert: "stable (db_inv J c0 a0 t0) (execute_insert en table columns values)"
  unfolding execute_insert_def by (intro db_intros stable_insert_checked stable_stage_one)

lemma stable_plan: "stable tree_inv (plan_updates en ts pk as rows)"
proof (induction rows)
  case (Cons r rows)
  show ?case by (cases r) (simp only: plan_updates.simps, intro tree_intros Cons.IH)
qed (simp only: plan_updates.simps stable_basic)

lemma stable_run_updates: "stable tree_inv (run_updates en us)"
proof (induction us)
  case (Cons u us)
  obtain k n r v where u: "u = (k, n, r, v)" by (cases u) auto
  show ?case unfolding u run_updates.simps by (intro tree_intros Cons.IH)
qed (simp only: run_updates.simps stable_basic)

lemma stable_update_unique: "stable tree_inv (check_update_unique en ts as updates)"
  unfolding check_update_unique_def by (intro tree_intros)

lemma stable_update_rows: "stable tree_inv (update_rows en ts as wc)"
  unfolding update_rows_def by (intro tree_intros stable_candidates stable_plan stable_update_unique stable_run_updates)

lemma stable_update: "stable (db_inv J c0 a0 t0) (execute_update en table as wc)"
  unfolding execute_update_def
  by (intro db_intros stable_update_rows stable_stage_all) (auto simp: db_inv_stage split: prod.split)

lemma stable_delete_rows: "stable tree_inv (delete_rows en rows)"
proof (induction rows)
  case (Cons r rows)
  show ?case by (cases r) (simp only: delete_rows.simps, intro tree_intros Cons.IH)
qed (simp only: delete_rows.simps stable_basic)

lemma stable_delete: "stable (db_inv J c0 a0 t0) (execute_delete en table wc)"
  unfolding execute_delete_def
  by (intro db_intros tree_intros stable_candidates stable_delete_rows stable_stage_all) (auto simp: db_inv_stage split: prod.split)

lemma stable_statement:
  assumes "st \<notin> {BeginTransaction, CommitTransaction, RollbackTransaction}"
  shows "stable (db_inv J c0 a0 t0) (execute_statement en st)"
  using assms unfolding execute_statement_def
  by (cases st) (simp_all add: stable_create stable_drop stable_alter stable_with_lock stable_insert stable_update stable_delete
      stable_basic(2) [unfolded mfail_def] stable_basic del: mfail_apply)

lemma stable_allocate_pages: "stable J (allocate_pages (en_ops en) n)"
proof (induction n)
  case (Suc n)
  show ?case unfolding allocate_pages.simps by (intro page_intros Suc.IH)
qed (simp only: allocate_pages.simps stable_basic)

lemma stable_write_chunks: "stable J (write_chunks (en_ops en) buf is)"
proof (induction "is")
  case (Cons i "is")
  show ?case unfolding write_chunks.simps by (intro page_intros Cons.IH)
qed (simp only: write_chunks.simps stable_basic)

lemma stable_save_schema: "stable (ct_inv J) (save_schema ord (en_ops en))"
proof -
  have save: "stable J (save_pages (en_ops en) buf)" for buf
    unfolding save_pages_def [abs_def] Let_def
    by (rule stable_apply) (intro stable_intros stable_allocate_pages stable_write_chunks)
  show ?thesis unfolding save_schema_def [abs_def] by (rule stable_apply) (intro stable_on_ct save)
qed

lemma stable_work:
  assumes "st \<notin> {BeginTransaction, CommitTransaction, RollbackTransaction}"
  shows "stable (db_inv J c0 a0 t0) (statement_work en st)"
proof -
  have save: "stable (db_inv J c0 a0 t0) (\<lambda>db1. if needs_schema_save st \<or> snapshot_roots db \<noteq> snapshot_roots db1
      then on_catalog (save_schema (en_order en) (en_ops en)) db1 else (Inr (), db1))" for db
    using stable_on_catalog [OF stable_save_schema] by (simp add: stable_def)
  show ?thesis unfolding statement_work_def [abs_def]
    by (rule stable_apply) (intro stable_mbind stable_statement [OF assms] save)
qed

end

interpretation sts: statement_pages en "in_statement p0" for en p0
  by unfold_locales

interpretation gst: statement_pages en "in_own_group p0" for en p0
  by unfold_locales

section \<open>Undoing a statement\<close>

text \<open>Between statements: a healthy pager, no savepoint left, and a schema page that records the catalog.\<close>

definition db_ok :: "env \<Rightarrow> database \<Rightarrow> bool" where
  "db_ok en db \<longleftrightarrow> pager_inv (en_crc en) (ct_pager (db_catalog db)) \<and> pg_savepoint (ct_pager (db_catalog db)) = None
     \<and> stored_schema (page_view (ct_pager (db_catalog db))) (ct_schema (db_catalog db)) (ct_btrees (db_catalog db))
     \<and> (ex_active db \<noteq> None \<longleftrightarrow> active_group (ct_pager (db_catalog db)) \<noteq> None)"

text \<open>
  The same database: pages as the pager shows and keeps them, tables with the roots of their trees, change
  log and open transaction. Table locks and the transaction counter may have moved.
\<close>

definition same_content :: "database \<Rightarrow> database \<Rightarrow> bool" where
  "same_content db db' \<longleftrightarrow>
     abs_pager (ct_pager (db_catalog db')) = abs_pager (ct_pager (db_catalog db))
     \<and> num_pages (ct_pager (db_catalog db')) = num_pages (ct_pager (db_catalog db))
     \<and> ct_btrees (db_catalog db') = ct_btrees (db_catalog db)
     \<and> ct_schema (db_catalog db') = fmmap_keys (synced (ct_btrees (db_catalog db))) (ct_schema (db_catalog db))
     \<and> db_cdc db' = db_cdc db \<and> ex_active db' = ex_active db"

lemma reload_same:
  assumes q: "pager_inv (en_crc en) q" "abs_pager q = abs_pager (ct_pager (db_catalog db))" "num_pages q = num_pages (ct_pager (db_catalog db))"
    and cdc: "db_cdc db1 = db_cdc db" "ex_active db1 = ex_active db" "ct_pager (db_catalog db1) = q"
    and st: "stored_schema (page_view (ct_pager (db_catalog db))) (ct_schema (db_catalog db)) (ct_btrees (db_catalog db))"
  obtains db' where "db_reload en db1 = (Inr (), db')" and "same_content db db'"
    and "pager_inv (en_crc en) (ct_pager (db_catalog db'))"
proof -
  have "page_view q = page_view (ct_pager (db_catalog db))" using q(2) by (rule abs_pager_view)
  then have st': "stored_schema (page_view (ct_pager (db_catalog db1))) (ct_schema (db_catalog db)) (ct_btrees (db_catalog db))"
    using st by (simp add: cdc(3))
  have inv: "pager_inv (en_crc en) (ct_pager (db_catalog db1))" by (simp add: cdc(3) q(1))
  obtain p' where r: "reload_schema (en_crc en) (en_io en) (en_ops en) (db_catalog db1) =
      (Inr (), (db_catalog db1)\<lparr>ct_pager := p', ct_schema := fmmap_keys (synced (ct_btrees (db_catalog db))) (ct_schema (db_catalog db)),
        ct_btrees := ct_btrees (db_catalog db)\<rparr>)" "pager_inv (en_crc en) p'" "abs_pager p' = abs_pager (ct_pager (db_catalog db1))"
      "num_pages p' = num_pages (ct_pager (db_catalog db1))"
    by (rule reload_stored [OF inv st', of "en_io en" "en_pick en"]) auto
  let ?db = "db1\<lparr>db_catalog := (db_catalog db1)\<lparr>ct_pager := p', ct_schema := fmmap_keys (synced (ct_btrees (db_catalog db))) (ct_schema (db_catalog db)),
        ct_btrees := ct_btrees (db_catalog db)\<rparr>\<rparr>"
  have "db_reload en db1 = (Inr (), ?db)" by (simp add: db_reload_def on_catalog_def r(1))
  moreover have "same_content db ?db" using r(3,4) cdc q by (simp add: same_content_def)
  moreover have "pager_inv (en_crc en) (ct_pager (db_catalog ?db))" using r(2) by simp
  ultimately show thesis by (rule that)
qed

lemma undo_in_transaction:
  assumes ok: "db_ok en db"
    and i: "db_inv (in_statement (ct_pager (db_catalog db))) (db_cdc db) (ex_active db) (db_txns db) db2"
  obtains db' where "undo_statement en True (staged_mark (db_cdc db)) e db2 = (Inl (Error e), db')" and "same_content db db'"
    and "pager_inv (en_crc en) (ct_pager (db_catalog db'))"
proof -
  let ?p = "ct_pager (db_catalog db)"
  have inv: "pager_inv (en_crc en) ?p" "pg_savepoint ?p = None" using ok by (simp_all add: db_ok_def)
  from i have st: "in_statement ?p (ct_pager (db_catalog db2))" "staged_on (db_cdc db) (db_cdc db2)" "ex_active db2 = ex_active db"
    by (simp_all add: db_inv_def)
  obtain q where q: "rollback_to_savepoint (ct_pager (db_catalog db2)) = (Inr (), q)" "recached (en_crc en) ?p q"
    by (rule rollback_statement [OF inv st(1)])
  let ?db3 = "db2\<lparr>db_catalog := (db_catalog db2)\<lparr>ct_pager := q\<rparr>, db_cdc := db_cdc db\<rparr>"
  obtain db' where r: "db_reload en ?db3 = (Inr (), db')" "same_content db db'" "pager_inv (en_crc en) (ct_pager (db_catalog db'))"
  proof (rule reload_same [of en q db ?db3])
    show "pager_inv (en_crc en) q" "abs_pager q = abs_pager ?p" "num_pages q = num_pages ?p"
      using q(2) recached_views [OF q(2)] by (simp_all add: recached_def)
  qed (use ok st in \<open>simp_all add: db_ok_def\<close>)
  have "undo_statement en True (staged_mark (db_cdc db)) e db2 = (Inl (Error e), db')"
    using q(1) r(1) by (simp add: undo_statement_def mbind_def on_db_pager_def on_catalog_def on_ct_pager_def discard_changes_def
        modify_def staged_on_discard [OF st(2)])
  then show thesis using r(2,3) by (rule that)
qed

lemma undo_own_group:
  assumes ok: "db_ok en db" and a: "ex_active db = None"
    and i: "db_inv (in_own_group (snd (begin_group (ct_pager (db_catalog db))))) (db_cdc db) (ex_active db) (db_txns db) db2"
  obtains db' where "undo_statement en False (staged_mark (db_cdc db)) e db2 = (Inl (Error e), db')" and "same_content db db'"
    and "pager_inv (en_crc en) (ct_pager (db_catalog db'))"
proof -
  let ?p = "ct_pager (db_catalog db)"
  have inv: "pager_inv (en_crc en) ?p" "active_group ?p = None" using ok a by (simp_all add: db_ok_def)
  from i have st: "in_own_group (snd (begin_group ?p)) (ct_pager (db_catalog db2))" "staged_on (db_cdc db) (db_cdc db2)" "ex_active db2 = ex_active db"
    by (simp_all add: db_inv_def)
  obtain q where q: "abort_group (ct_pager (db_catalog db2)) = (Inr (), q)" "regrouped (en_crc en) ?p q"
    by (rule abort_own_group [OF inv st(1)])
  let ?db3 = "db2\<lparr>db_catalog := (db_catalog db2)\<lparr>ct_pager := q\<rparr>, db_cdc := db_cdc db\<rparr>"
  obtain db' where r: "db_reload en ?db3 = (Inr (), db')" "same_content db db'" "pager_inv (en_crc en) (ct_pager (db_catalog db'))"
  proof (rule reload_same [of en q db ?db3])
    show "pager_inv (en_crc en) q" "abs_pager q = abs_pager ?p" "num_pages q = num_pages ?p"
      using q(2) regrouped_views [OF q(2) inv(2)] by (simp_all add: regrouped_def)
  qed (use ok st in \<open>simp_all add: db_ok_def\<close>)
  have "undo_statement en False (staged_mark (db_cdc db)) e db2 = (Inl (Error e), db')"
    using q(1) r(1) by (simp add: undo_statement_def mbind_def on_db_pager_def on_catalog_def on_ct_pager_def discard_changes_def
        modify_def staged_on_discard [OF st(2)])
  then show thesis using r(2,3) by (rule that)
qed

lemma undo_failed_commit:
  assumes ok: "db_ok en db" and a: "ex_active db = None"
    and i: "db_inv (in_own_group (snd (begin_group (ct_pager (db_catalog db))))) (db_cdc db) (ex_active db) (db_txns db) db2"
    and out: "\<forall>k. io_append (en_io en) \<noteq> WriteFails k False"
    and fail: "finish_statement en False (staged_mark (db_cdc db)) db2 = (Inl e, db')"
  shows "same_content db db'" and "pager_inv (en_crc en) (ct_pager (db_catalog db'))"
proof -
  let ?p = "ct_pager (db_catalog db)" and ?q = "ct_pager (db_catalog db2)"
  have inv: "pager_inv (en_crc en) ?p" "active_group ?p = None" using ok a by (simp_all add: db_ok_def)
  from i have st: "in_own_group (snd (begin_group ?p)) ?q" "staged_on (db_cdc db) (db_cdc db2)" "ex_active db2 = ex_active db"
    by (simp_all add: db_inv_def)
  obtain r q where c: "commit_group (en_crc en) (en_io en) ?q = (r, q)" by fastforce
  obtain e' where r: "r = Inl e'"
    using fail c by (cases r) (auto simp: finish_statement_def on_db_pager_def on_catalog_def on_ct_pager_def publish_changes_def modify_def)
  have q: "regrouped (en_crc en) ?p q" by (rule failed_commit_own_group [OF inv st(1) out c [unfolded r]])
  let ?db3 = "db2\<lparr>db_catalog := (db_catalog db2)\<lparr>ct_pager := q\<rparr>, db_cdc := db_cdc db\<rparr>"
  obtain db'' where d: "db_reload en ?db3 = (Inr (), db'')" "same_content db db''" "pager_inv (en_crc en) (ct_pager (db_catalog db''))"
  proof (rule reload_same [of en q db ?db3])
    show "pager_inv (en_crc en) q" "abs_pager q = abs_pager ?p" "num_pages q = num_pages ?p"
      using q regrouped_views [OF q inv(2)] by (simp_all add: regrouped_def)
  qed (use ok st in \<open>simp_all add: db_ok_def\<close>)
  have "finish_statement en False (staged_mark (db_cdc db)) db2 = (Inl e', db'')"
    using c r d(1) by (simp add: finish_statement_def mbind_def on_db_pager_def on_catalog_def on_ct_pager_def discard_changes_def
        modify_def staged_on_discard [OF st(2)])
  with fail d show "same_content db db'" "pager_inv (en_crc en) (ct_pager (db_catalog db'))" by simp_all
qed

lemma statement_fails:
  assumes ok: "db_ok en db"
    and st: "st \<notin> {BeginTransaction, CommitTransaction, RollbackTransaction}"
    and out: "\<forall>k. io_append (en_io en) \<noteq> WriteFails k False"
    and fail: "run_statement en st db = (Inl (Error e), db')"
  shows "same_content db db' \<and> pager_inv (en_crc en) (ct_pager (db_catalog db'))"
proof (cases "ex_active db = None")
  case False
  let ?p = "ct_pager (db_catalog db)"
  have inv: "pager_inv (en_crc en) ?p" "active_group ?p \<noteq> None" "pg_savepoint ?p = None" using ok False by (simp_all add: db_ok_def)
  have t: "in_transaction db = True" using False by (simp add: in_transaction_def)
  let ?db1 = "db\<lparr>db_catalog := (db_catalog db)\<lparr>ct_pager := snd (begin_savepoint ?p)\<rparr>\<rparr>"
  note b = begin_statement [OF inv]
  have b1: "on_db_pager begin_savepoint db = (Inr (), ?db1)"
    using b(1) by (cases "begin_savepoint ?p") (simp add: on_db_pager_def on_catalog_def on_ct_pager_def)
  have i1: "db_inv (in_statement ?p) (db_cdc db) (ex_active db) (db_txns db) ?db1" using b(2) by (simp add: db_inv_def)
  obtain r db2 where w: "statement_work en st ?db1 = (r, db2)" by fastforce
  have i2: "db_inv (in_statement ?p) (db_cdc db) (ex_active db) (db_txns db) db2" by (rule stable_result [OF sts.stable_work [OF st] i1 w])
  have run: "run_statement en st db = (case statement_work en st ?db1 of
      (Inr _, db2) \<Rightarrow> finish_statement en True (staged_mark (db_cdc db)) db2
    | (Inl (Error e), db2) \<Rightarrow> undo_statement en True (staged_mark (db_cdc db)) e db2
    | (Inl f, db2) \<Rightarrow> (Inl f, db2))"
    unfolding run_statement_def Let_def t using b1 by (simp add: mbind_def)
  obtain e2 where "r = Inl (Error e2)"
    using fail run w by (cases r; cases "projl r")
      (auto simp: finish_statement_def on_db_pager_def on_catalog_def on_ct_pager_def modify_def)
  with run w have u: "run_statement en st db = undo_statement en True (staged_mark (db_cdc db)) e2 db2" by simp
  obtain d where "undo_statement en True (staged_mark (db_cdc db)) e2 db2 = (Inl (Error e2), d)" "same_content db d"
    "pager_inv (en_crc en) (ct_pager (db_catalog d))"
    by (rule undo_in_transaction [OF ok i2])
  with fail u show ?thesis by simp
next
  case True
  let ?p = "ct_pager (db_catalog db)"
  have inv: "pager_inv (en_crc en) ?p" "active_group ?p = None" using ok True by (simp_all add: db_ok_def)
  have t: "in_transaction db = False" using True by (simp add: in_transaction_def)
  let ?db1 = "db\<lparr>db_catalog := (db_catalog db)\<lparr>ct_pager := snd (begin_group ?p)\<rparr>\<rparr>"
  obtain gid where b: "begin_group ?p = (Inr gid, snd (begin_group ?p))" "in_own_group (snd (begin_group ?p)) (snd (begin_group ?p))"
    using begin_own_group [OF inv] by blast
  have b1: "on_db_pager (mbind begin_group (\<lambda>_. mret ())) db = (Inr (), ?db1)"
    by (subst on_db_pager_def, simp add: on_catalog_def on_ct_pager_def mbind_def, subst b(1), simp)
  have i1: "db_inv (in_own_group (snd (begin_group ?p))) (db_cdc db) (ex_active db) (db_txns db) ?db1" using b(2) by (simp add: db_inv_def)
  obtain r db2 where w: "statement_work en st ?db1 = (r, db2)" by fastforce
  have i2: "db_inv (in_own_group (snd (begin_group ?p))) (db_cdc db) (ex_active db) (db_txns db) db2"
    by (rule stable_result [OF gst.stable_work [OF st] i1 w])
  have run: "run_statement en st db = (case statement_work en st ?db1 of
      (Inr _, db2) \<Rightarrow> finish_statement en False (staged_mark (db_cdc db)) db2
    | (Inl (Error e), db2) \<Rightarrow> undo_statement en False (staged_mark (db_cdc db)) e db2
    | (Inl f, db2) \<Rightarrow> (Inl f, db2))"
    unfolding run_statement_def Let_def t using b1 by (simp add: mbind_def)
  show ?thesis
  proof (cases r)
    case (Inr u)
    then have "finish_statement en False (staged_mark (db_cdc db)) db2 = (Inl (Error e), db')" using fail run w by simp
    from undo_failed_commit [OF ok True i2 out this] show ?thesis by blast
  next
    case (Inl f)
    then obtain e2 where e2: "r = Inl (Error e2)" using fail run w by (cases f) auto
    obtain d where "undo_statement en False (staged_mark (db_cdc db)) e2 db2 = (Inl (Error e2), d)" "same_content db d"
      "pager_inv (en_crc en) (ct_pager (db_catalog d))"
      by (rule undo_own_group [OF ok True i2])
    with fail run w e2 show ?thesis by simp
  qed
qed

end
