(* ===== verification/Rollback.thy ===== *)
theory Rollback
  imports Atomicity
begin

text \<open>
  ROLLBACK undoes a whole transaction: any statements between BEGIN and ROLLBACK, successful or failed,
  keep the relation to the pager at BEGIN, and aborting the group restores it.
\<close>

section \<open>Statements inside a transaction\<close>

lemma undoable_calls:
  assumes u: "undoable p0 p"
  shows "undoable p0 (snd (write_page crc pick io pid x p))" and "undoable p0 (snd (allocate_page crc pick io p))"
proof -
  obtain g where "active_group p = Some g" using undoable_in_group [OF u] by blast
  then show "undoable p0 (snd (write_page crc pick io pid x p))" "undoable p0 (snd (allocate_page crc pick io p))"
    by (simp_all add: group_calls undoable_buffer [OF u])
qed

interpretation und: stable_pages "pager_ops crc pick io" "undoable p0" for crc pick io p0
  by unfold_locales (auto intro!: stableI simp: pager_ops_def undoable_read undoable_calls)

interpretation udb: statement_pages en "undoable p0" for en p0
  by unfold_locales

lemma undoable_savepoint: "undoable p0 (p\<lparr>pg_savepoint := sp\<rparr>) = undoable p0 p"
  by (simp add: undoable_def cached_ok_def)

lemma seen_pages: "seen (p\<lparr>num_pages := n\<rparr>) = seen p"
  by (auto simp: seen_def stored_def fun_eq_iff split: option.split)

lemma stable_begin_savepoint: "stable (undoable p0) begin_savepoint"
  by (rule stableI) (simp add: begin_savepoint_def undoable_savepoint)

lemma stable_release: "stable (undoable p0) (modify release_savepoint)"
  by (rule stableI) (simp add: modify_def release_savepoint_def undoable_savepoint)

lemma undoable_undo_page:
  assumes u: "undoable p0 p"
  shows "undoable p0 (undo_page sp pid p)"
proof -
  let ?q = "undo_page sp pid p"
  have f: "pg_file ?q = pg_file p" "committed ?q = committed p" "pg_wal ?q = pg_wal p" "active_group ?q = active_group p"
    "group_start_pages ?q = group_start_pages p" "max_cache_size ?q = max_cache_size p"
    by (auto simp: undo_page_def evict_def split: option.split)
  have c: "cached_ok p" using u by (simp add: undoable_def)
  have look: "fmlookup (cache ?q) q = (if q = pid then None else fmlookup (cache p) q)" for q
    by (auto simp: undo_page_def evict_def fmdom_notD split: option.split)
  have pend: "q \<noteq> pid \<Longrightarrow> fmlookup (pending ?q) q = fmlookup (pending p) q" for q
    by (auto simp: undo_page_def evict_def split: option.split)
  have "q \<noteq> pid \<Longrightarrow> seen ?q q = seen p q" for q using f(1,2) pend by (simp add: seen_def stored_def split: option.split)
  moreover have "cache_size ?q = fcard (fmdom (cache ?q))"
    using c by (auto simp: undo_page_def evict_def fcard_drop cached_ok_def split: option.split)
  ultimately have "cached_ok ?q" using c by (auto simp: cached_ok_def cache_ok_def look split: if_splits)
  with u f show ?thesis by (simp add: undoable_def)
qed

lemma stable_rollback_savepoint: "stable (undoable p0) rollback_to_savepoint"
proof (rule stableI)
  fix p assume u: "undoable p0 p"
  have "undoable p0 (fold (undo_page sp) pids q)" if "undoable p0 q" for sp pids q
    using that by (induction pids arbitrary: q) (simp_all add: undoable_undo_page)
  moreover have "undoable p0 (q\<lparr>num_pages := n\<rparr>) = undoable p0 q" for q n
    by (simp add: undoable_def cached_ok_def seen_pages)
  ultimately show "undoable p0 (snd (rollback_to_savepoint p))"
    using u by (simp add: rollback_to_savepoint_def Let_def undoable_savepoint split: option.split)
qed

section \<open>Reloading inside a transaction\<close>

lemma stable_repair: "stable (undoable p0) (repair_root crc io (pager_ops crc pick io))"
proof (rule stableI)
  fix p assume u: "undoable p0 p"
  have "in_group p" using undoable_in_group [OF u] by (auto simp: in_group_def)
  then have "repair_root crc io (pager_ops crc pick io) p = fresh_root (pager_ops crc pick io) p" by (simp add: repair_root_def)
  moreover have "stable (undoable p0) (fresh_root (pager_ops crc pick io))"
    unfolding fresh_root_def by (intro und.page_intros)
  ultimately show "undoable p0 (snd (repair_root crc io (pager_ops crc pick io) p))" using u by (simp add: stableD)
qed

lemma stable_ct_field:
  "(\<And>c. ct_pager (f c) = ct_pager c) \<Longrightarrow> stable (ct_inv J) (\<lambda>c. (r c, f c))"
  by (simp add: stable_def ct_inv_def)

lemma stable_load_tables: "stable (ct_inv (undoable p0)) (load_tables crc io (pager_ops crc pick io) n off data)"
proof (induction n arbitrary: off)
  case (Suc n)
  have create: "stable (ct_inv (undoable p0)) (\<lambda>c. case create_table t (ct_schema c) of (r, sc) \<Rightarrow> (r, c\<lparr>ct_schema := sc\<rparr>))" for t
    by (auto simp: stable_def ct_inv_def split: prod.split)
  have ct: "stable J m \<Longrightarrow> stable (ct_inv J) (on_ct_pager m)" for J and m :: "(pager, nat) op"
    by (auto simp: stable_def ct_inv_def on_ct_pager_def split: prod.split)
  have roots: "stable (ct_inv (undoable p0)) (\<lambda>c. (Inr (), c\<lparr>ct_btrees := fmupd name r (ct_btrees c)\<rparr>))" for name r
    by (simp add: stable_def ct_inv_def)
  show ?case unfolding load_tables.simps
    by (intro stable_intros create roots ct stable_repair Suc.IH)
qed (simp only: load_tables.simps stable_basic)

lemma stable_read_chunks: "stable (undoable p0) (read_chunks (pager_ops crc pick io) pages)"
proof (induction pages)
  case (Cons p pages)
  show ?case unfolding read_chunks.simps by (intro und.page_intros Cons.IH)
qed (simp only: read_chunks.simps stable_basic)

lemma stable_reload: "stable (db_inv (undoable p0) c0 a0 t0) (db_reload en)"
proof -
  have read: "stable (ct_inv (undoable p0)) (on_ct_pager (read_chunks (en_ops en) pages))" for pages
    by (rule udb.stable_on_ct [OF stable_read_chunks])
  have load: "stable (ct_inv (undoable p0)) (load_schema (en_crc en) (en_io en) (en_ops en))"
    unfolding load_schema_def [abs_def] by (rule stable_apply) (intro stable_intros read stable_load_tables)
  have "stable (ct_inv (undoable p0)) (reload_schema (en_crc en) (en_io en) (en_ops en))"
  proof (rule stableI)
    fix c assume "ct_inv (undoable p0) c"
    then have "ct_inv (undoable p0) (c\<lparr>ct_schema := schema_new, ct_btrees := fmempty\<rparr>)" by (simp add: ct_inv_def)
    then show "ct_inv (undoable p0) (snd (reload_schema (en_crc en) (en_io en) (en_ops en) c))"
      using stableD [OF load] by (simp add: reload_schema_def)
  qed
  then show ?thesis unfolding db_reload_def by (rule udb.stable_on_catalog)
qed

section \<open>Whole transactions\<close>

lemma discard_keeps:
  assumes "db_inv J c0 a0 t0 db" and "staged_mark c0 \<le> mark"
  shows "db_inv J c0 a0 t0 (snd (discard_changes mark db))"
proof -
  obtain xs where "db_cdc db = c0\<lparr>staged := staged c0 @ xs\<rparr>" using assms(1) by (auto simp: db_inv_def staged_on_def)
  then have "staged_on c0 (discard_staged_from mark (db_cdc db))"
    using assms(2) by (auto simp: staged_on_def discard_staged_from_def staged_mark_def)
  with assms(1) show ?thesis by (simp add: db_inv_def discard_changes_def modify_def)
qed

lemma stable_undo:
  assumes m: "staged_mark c0 \<le> mark"
  shows "stable (db_inv (undoable p0) c0 a0 t0) (undo_statement en True mark e)"
proof -
  have "stable (db_inv (undoable p0) c0 a0 t0) (discard_changes mark)" by (rule stableI) (rule discard_keeps [OF _ m])
  then show ?thesis unfolding undo_statement_def if_True
    by (intro stable_intros udb.stable_on_db_pager stable_rollback_savepoint stable_reload)
qed

lemma stable_run_in_transaction:
  assumes st: "st \<notin> {BeginTransaction, CommitTransaction, RollbackTransaction}" and a: "a0 \<noteq> None"
  shows "stable (db_inv (undoable p0) c0 a0 t0) (run_statement en st)"
proof (rule stableI)
  fix db assume i: "db_inv (undoable p0) c0 a0 t0 db"
  let ?I = "db_inv (undoable p0) c0 a0 t0" and ?m = "staged_mark (db_cdc db)"
  have t: "in_transaction db = True" using i a by (simp add: in_transaction_def db_inv_def)
  have m: "staged_mark c0 \<le> ?m" using i by (auto simp: db_inv_def staged_on_def staged_mark_def)
  have fin: "stable ?I (finish_statement en True ?m)"
    unfolding finish_statement_def [abs_def] if_True by (rule udb.stable_on_db_pager [OF stable_release])
  have body: "stable ?I (\<lambda>db1. case statement_work en st db1 of
      (Inr _, db2) \<Rightarrow> finish_statement en True ?m db2
    | (Inl (Error e), db2) \<Rightarrow> undo_statement en True ?m e db2
    | (Inl f, db2) \<Rightarrow> (Inl f, db2))"
  proof (rule stableI)
    fix db1 assume i1: "?I db1"
    obtain r db2 where w: "statement_work en st db1 = (r, db2)" by fastforce
    have i2: "?I db2" by (rule stable_result [OF udb.stable_work [OF st] i1 w])
    show "?I (snd (case statement_work en st db1 of
        (Inr _, db2) \<Rightarrow> finish_statement en True ?m db2
      | (Inl (Error e), db2) \<Rightarrow> undo_statement en True ?m e db2
      | (Inl f, db2) \<Rightarrow> (Inl f, db2)))"
      using i2 stableD [OF fin i2] stableD [OF stable_undo [OF m] i2] w
      by (auto split: sum.split fault.split)
  qed
  have "stable ?I (mbind (on_db_pager begin_savepoint) (\<lambda>_ db1. case statement_work en st db1 of
      (Inr _, db2) \<Rightarrow> finish_statement en True ?m db2
    | (Inl (Error e), db2) \<Rightarrow> undo_statement en True ?m e db2
    | (Inl f, db2) \<Rightarrow> (Inl f, db2)))"
    by (intro stable_mbind body udb.stable_on_db_pager stable_begin_savepoint)
  from stableD [OF this i] show "?I (snd (run_statement en st db))"
    unfolding run_statement_def Let_def t by simp
qed

fun run_all :: "env \<Rightarrow> statement list \<Rightarrow> database \<Rightarrow> database" where
  "run_all en [] db = db"
| "run_all en (st # sts) db = run_all en sts (snd (execute_parsed en st db))"

definition plain :: "statement \<Rightarrow> bool" where
  "plain st \<longleftrightarrow> st \<notin> {BeginTransaction, CommitTransaction, RollbackTransaction}"

lemma execute_plain: "plain st \<Longrightarrow> execute_parsed en st = run_statement en st"
  by (cases st) (simp_all add: plain_def execute_parsed_def)

lemma run_all_keeps:
  assumes "list_all plain sts" and "a0 \<noteq> None" and "db_inv (undoable p0) c0 a0 t0 db"
  shows "db_inv (undoable p0) c0 a0 t0 (run_all en sts db)"
  using assms
proof (induction sts arbitrary: db)
  case (Cons st sts)
  have "db_inv (undoable p0) c0 a0 t0 (snd (execute_parsed en st db))"
    using Cons.prems stableD [OF stable_run_in_transaction [of st a0 p0 c0 t0 en]] by (simp add: execute_plain plain_def)
  with Cons show ?case by simp
qed simp

lemma abort_transaction:
  assumes inv: "pager_inv crc p" and g: "active_group p = None" and u: "undoable (snd (begin_group p)) q"
  obtains q' where "abort_group q = (Inr (), q')" and "regrouped crc p q'"
proof -
  have "in_own_group (snd (begin_group p)) (q\<lparr>pg_savepoint := None\<rparr>)" using u by (simp add: in_own_group_def undoable_savepoint)
  from abort_own_group [OF inv g this] obtain q' where "abort_group (q\<lparr>pg_savepoint := None\<rparr>) = (Inr (), q')" "regrouped crc p q'" by blast
  moreover have "abort_group (q\<lparr>pg_savepoint := None\<rparr>) = abort_group q"
    using undoable_in_group [OF u] by (auto simp: abort_group_def Let_def)
  ultimately show thesis by (intro that) simp_all
qed

definition txn_active :: "nat \<Rightarrow> txn_manager \<Rightarrow> bool" where
  "txn_active t m \<longleftrightarrow> txn_states m t = Some Active"

lemma begin_facts:
  assumes ok: "db_ok en db" and a: "ex_active db = None"
  obtains db1 t where "db_begin en db = (Inr (), db1)" and "ex_active db1 = Some t" and "txn_active t (db_txns db1)"
    and "db_inv (undoable (snd (begin_group (ct_pager (db_catalog db))))) (db_cdc db) (Some t) (db_txns db1) db1"
proof -
  let ?p = "ct_pager (db_catalog db)" and ?t = "next_txn_id (db_txns db)"
  have inv: "pager_inv (en_crc en) ?p" "active_group ?p = None" using ok a by (simp_all add: db_ok_def)
  obtain gid where b: "begin_group ?p = (Inr gid, snd (begin_group ?p))" "in_own_group (snd (begin_group ?p)) (snd (begin_group ?p))"
    using begin_own_group [OF inv] by blast
  let ?db1 = "db\<lparr>db_txns := snd (txn_begin (db_txns db)), ex_active := Some ?t,
      db_catalog := (db_catalog db)\<lparr>ct_pager := snd (begin_group ?p)\<rparr>\<rparr>"
  have bt: "begin_transaction db = (Inr (), db\<lparr>db_txns := snd (txn_begin (db_txns db)), ex_active := Some ?t\<rparr>)"
    using a by (simp add: begin_transaction_def in_transaction_def mbind_def db_txn_begin_def txn_begin_def modify_def Let_def)
  have "on_db_pager begin_group (db\<lparr>db_txns := snd (txn_begin (db_txns db)), ex_active := Some ?t\<rparr>) = (Inr gid, ?db1)"
    by (simp add: on_db_pager_def on_catalog_def on_ct_pager_def, subst b(1), simp)
  with bt have "db_begin en db = (Inr (), ?db1)" by (simp add: db_begin_def mbind_def)
  moreover have "txn_active ?t (db_txns ?db1)" by (simp add: txn_active_def txn_begin_def Let_def)
  moreover have "db_inv (undoable (snd (begin_group ?p))) (db_cdc db) (Some ?t) (db_txns ?db1) ?db1"
    using b(2) by (simp add: db_inv_def in_own_group_def)
  ultimately show thesis by (intro that [of ?db1 ?t]) simp_all
qed

lemma rollback_restores:
  assumes ok: "db_ok en db" and a: "ex_active db = None" and c: "staged (db_cdc db) = []"
    and plain: "list_all plain sts"
  shows "\<exists>db1 db'. db_begin en db = (Inr (), db1) \<and> db_rollback en (run_all en sts db1) = (Inr (), db')
     \<and> same_content db db' \<and> pager_inv (en_crc en) (ct_pager (db_catalog db'))"
proof -
  let ?p = "ct_pager (db_catalog db)"
  have inv: "pager_inv (en_crc en) ?p" "active_group ?p = None" using ok a by (simp_all add: db_ok_def)
  obtain db1 t where b: "db_begin en db = (Inr (), db1)" "txn_active t (db_txns db1)"
    "db_inv (undoable (snd (begin_group ?p))) (db_cdc db) (Some t) (db_txns db1) db1"
    using begin_facts [OF ok a] by metis
  let ?db2 = "run_all en sts db1"
  have i: "db_inv (undoable (snd (begin_group ?p))) (db_cdc db) (Some t) (db_txns db1) ?db2"
    by (rule run_all_keeps [OF plain _ b(3)]) simp
  then have d: "undoable (snd (begin_group ?p)) (ct_pager (db_catalog ?db2))" "staged_on (db_cdc db) (db_cdc ?db2)"
    "ex_active ?db2 = Some t" "db_txns ?db2 = db_txns db1"
    by (simp_all add: db_inv_def)
  obtain q where q: "abort_group (ct_pager (db_catalog ?db2)) = (Inr (), q)" "regrouped (en_crc en) ?p q"
    by (rule abort_transaction [OF inv d(1)])
  let ?db3 = "?db2\<lparr>db_catalog := (db_catalog ?db2)\<lparr>ct_pager := q\<rparr>, db_cdc := db_cdc db\<rparr>"
  have cdc: "discard_staged_from 0 (db_cdc ?db2) = db_cdc db"
    using staged_on_discard [OF d(2)] c by (simp add: staged_mark_def)
  obtain db4 where r: "reload_schema (en_crc en) (en_io en) (en_ops en) (db_catalog ?db3) = (Inr (), db4)"
    "same_content db (db\<lparr>db_catalog := db4\<rparr>)" "pager_inv (en_crc en) (ct_pager db4)"
  proof -
    let ?db = "?db3\<lparr>ex_active := None\<rparr>"
    obtain db' where *: "db_reload en ?db = (Inr (), db')" "same_content db db'" "pager_inv (en_crc en) (ct_pager (db_catalog db'))"
    proof (rule reload_same [of en q db ?db])
      show "pager_inv (en_crc en) q" "abs_pager q = abs_pager ?p" "num_pages q = num_pages ?p"
        using q(2) regrouped_views [OF q(2) inv(2)] by (simp_all add: regrouped_def)
    qed (use ok a in \<open>simp_all add: db_ok_def\<close>)
    from *(1) obtain c4 where "reload_schema (en_crc en) (en_io en) (en_ops en) (db_catalog ?db3) = (Inr (), c4)" "db_catalog db' = c4"
      by (auto simp: db_reload_def on_catalog_def split: prod.splits)
    with *(2,3) show thesis by (intro that [of c4]) (simp_all add: same_content_def)
  qed
  let ?db5 = "?db3\<lparr>db_catalog := db4\<rparr>"
  obtain m where m: "txn_end Aborted t (db_txns ?db5) = (Inr (), m)"
    using b(2) d(4) by (simp add: txn_end_def txn_active_def txn_transition_def)
  let ?db' = "release_locks en t (?db5\<lparr>ex_active := None, db_txns := m\<rparr>)"
  have "db_rollback en ?db2 = (Inr (), ?db')"
    using q(1) r(1) d(3) m by (simp add: db_rollback_def in_transaction_def mbind_def on_db_pager_def on_catalog_def on_ct_pager_def
        discard_changes_def modify_def cdc db_reload_def rollback_transaction_def end_transaction_def db_txn_end_def)
  moreover have "same_content db ?db'" using r(2) a by (simp add: same_content_def release_locks_def)
  moreover have "pager_inv (en_crc en) (ct_pager (db_catalog ?db'))" using r(3) by (simp add: release_locks_def)
  ultimately show ?thesis using b(1) by blast
qed

end
