(* ===== verification/DatabaseTheorems.thy ===== *)
theory DatabaseTheorems
  imports Rollback SchemaTheorems
begin

text \<open>
  Properties of statements and transactions as a whole.
\<close>

section \<open>A sample database\<close>

definition sample_floats :: float_ops where
  "sample_floats = \<lparr>fo_widen = (\<lambda>_. 0), fo_add = (+), fo_sub = (-), fo_mul = (\<lambda>_ _. 0), fo_div = (\<lambda>_ _. 0), fo_neg = (\<lambda>x. x),
     fo_sqrt = (\<lambda>x. x), fo_sum = (\<lambda>_. 0)\<rparr>"

definition sample_env :: env where
  "sample_env = \<lparr>en_crc = sample_crc, en_pick = (\<lambda>_. None), en_io = io_ok, en_fuel = 3, en_order = sorted_list_of_fset,
     en_rx = (\<lambda>_. None), en_fmt = (\<lambda>_. []), en_float = sample_floats, en_select = (\<lambda>_ cmp xs. sort_by cmp xs),
     en_lock_fuel = 1, en_elapsed = (\<lambda>_. 0), en_other = (\<lambda>_ lm. lm), en_timeout = 0, en_keys = (\<lambda>_. [''t''])\<rparr>"

definition sample_db :: database where
  "sample_db = database_new (promoted sample_crc 1 sample_pages)"

lemma sample_pages_schema: "page_view sample_pages 1 = Some (schema_page [])"
proof -
  have w: "writing sample_crc sample_written" using sample_written_facts by (simp add: writing_def)
  have len: "length page_new = page_size" by (simp add: page_new_def)
  have le: "1 \<le> num_pages sample_written" by (simp add: sample_written_facts)
  note w1 = buffer_page_writing [OF w le len, of "\<lambda>_. None"]
  have "2 \<le> num_pages (buffer_page (\<lambda>_. None) 1 page_new sample_written)" by (simp add: buffer_page_count sample_written_facts)
  from buffer_page_writing(2) [OF w1(1) this len, of "\<lambda>_. None"] w1(2)
  have v: "page_view sample_pages 1 = Some page_new" by (simp add: sample_pages_def)
  have "le_bytes k 0 = replicate k 0" for k by (induction k) simp_all
  then have "schema_page [] = replicate 4 0 @ replicate 4092 0"
    unfolding schema_page_def page_size_def by (simp only: list.size append_Nil) simp
  also have "\<dots> = replicate (4 + 4092) 0" by (rule replicate_add [symmetric])
  finally have "page_new = schema_page []" by (simp only: page_new_def page_size_def) simp
  with v show ?thesis by simp
qed

lemma sample_pages_group: "active_group sample_pages = Some 1" "pager_inv sample_crc sample_pages" "pg_savepoint sample_pages = None"
proof -
  show "active_group sample_pages = Some 1" by (simp add: sample_pages_def buffer_page_fields sample_written_facts)
  show "pager_inv sample_crc sample_pages" using sample_pages_facts(1) [of sample_crc] by (simp add: writing_def)
  have "pg_savepoint sample_written = None"
    unfolding sample_written_def by (rule buffer_page_no_savepoint) (rule sample_open_facts)
  then show "pg_savepoint sample_pages = None" unfolding sample_pages_def by (intro buffer_page_no_savepoint)
qed

lemma sample_db_ok: "db_ok sample_env sample_db" "ex_active sample_db = None" "staged (db_cdc sample_db) = []"
  "hash_order (en_order sample_env)"
proof -
  have "pager_inv sample_crc (promoted sample_crc 1 sample_pages)"
    by (rule promoted_inv [OF sample_pages_group(2,1)]) (simp add: sample_pages_facts)
  moreover have "stored_schema (page_view sample_pages) fmempty fmempty"
    unfolding stored_schema_def using sample_pages_schema by (intro exI [of _ "[]"]) simp
  moreover have "pg_savepoint (promoted sample_crc 1 sample_pages) = None" by (simp add: promoted_def)
  ultimately show "db_ok sample_env sample_db"
    by (simp add: db_ok_def sample_db_def sample_env_def database_new_def promoted_views schema_new_def)
  show "ex_active sample_db = None" "staged (db_cdc sample_db) = []"
    by (simp_all add: sample_db_def database_new_def cdc_new_def cdc_with_capacity_def)
  show "hash_order (en_order sample_env)" by (simp add: sample_env_def hash_order_sorted)
qed

section \<open>Failed statements and rolled-back transactions\<close>


lemma sample_drop_fails: "\<exists>db'. run_statement sample_env (DropTable ''t'') sample_db = (Inl (Error NotFound), db')"
proof -
  let ?p = "ct_pager (db_catalog sample_db)"
  let ?db1 = "sample_db\<lparr>db_catalog := (db_catalog sample_db)\<lparr>ct_pager := snd (begin_group ?p)\<rparr>\<rparr>"
  have inv: "pager_inv (en_crc sample_env) ?p" "active_group ?p = None" using sample_db_ok(1,2) by (simp_all add: db_ok_def)
  obtain gid where b: "begin_group ?p = (Inr gid, snd (begin_group ?p))" "in_own_group (snd (begin_group ?p)) (snd (begin_group ?p))"
    using begin_own_group [OF inv] by blast
  have t: "in_transaction sample_db = False" using sample_db_ok(2) by (simp add: in_transaction_def)
  have b1: "on_db_pager (mbind begin_group (\<lambda>_. mret ())) sample_db = (Inr (), ?db1)"
    by (subst on_db_pager_def, simp add: on_catalog_def on_ct_pager_def mbind_def, subst b(1), simp)
  have w: "statement_work sample_env (DropTable ''t'') ?db1 = (Inl (Error NotFound), ?db1)"
    by (simp add: statement_work_def execute_statement_def execute_drop_table_def mbind_def on_schema_def on_catalog_def
        drop_table_def sample_db_def database_new_def schema_new_def)
  have "db_inv (in_own_group (snd (begin_group ?p))) (db_cdc sample_db) (ex_active sample_db) (db_txns sample_db) ?db1"
    using b(2) by (simp add: db_inv_def)
  from undo_own_group [OF sample_db_ok(1,2) this, of NotFound] obtain db' where
    "undo_statement sample_env False (staged_mark (db_cdc sample_db)) NotFound ?db1 = (Inl (Error NotFound), db')" by blast
  moreover have "run_statement sample_env (DropTable ''t'') sample_db = undo_statement sample_env False (staged_mark (db_cdc sample_db)) NotFound ?db1"
    unfolding run_statement_def Let_def t using b1 w by (simp add: mbind_def)
  ultimately show ?thesis by auto
qed


text \<open>
  C3: ROLLBACK undoes the whole transaction. After BEGIN, any statements, whether each succeeds, fails or
  panics, and ROLLBACK, both transaction commands succeed and the pages, the tables with their roots and
  the change log are those before BEGIN, with no transaction open.
\<close>

theorem transaction_rollback_exact:
  assumes "db_ok en db" and "ex_active db = None" and "staged (db_cdc db) = []"
    and "list_all plain sts"
  shows "\<exists>db1 db'. db_begin en db = (Inr (), db1) \<and> db_rollback en (run_all en sts db1) = (Inr (), db')
     \<and> same_content db db' \<and> pager_inv (en_crc en) (ct_pager (db_catalog db'))"
  by (rule rollback_restores [OF assms])

theorem transaction_rollback_exact_witness:
  "\<exists>db1 db'. db_begin sample_env sample_db = (Inr (), db1)
     \<and> db_rollback sample_env (run_all sample_env [CreateTable ''t'' [sample_column], InsertInto ''t'' None [VInteger 1], DropTable ''u''] db1) = (Inr (), db')
     \<and> same_content sample_db db' \<and> pager_inv (en_crc sample_env) (ct_pager (db_catalog db'))"
  by (rule transaction_rollback_exact) (simp_all add: sample_db_ok plain_def)

section \<open>Commit\<close>

text \<open>
  C4: COMMIT makes the transaction durable and visible to consumers. When the log append succeeds, COMMIT
  succeeds, a database reopened on the files shows the transaction's pages, a consumer polling from the
  latest sequence number receives the staged changes in order (the last ones, if there are more than the
  change log retains), the staging buffer is empty and no
  transaction is open.
\<close>

theorem commit_publishes_durably:
  assumes "pager_inv (en_crc en) (ct_pager (db_catalog db))" and "in_group (ct_pager (db_catalog db))"
    and "num_pages (ct_pager (db_catalog db)) \<le> 2 ^ 64" and "io_append (en_io en) = WriteOk"
    and "ex_active db = Some t" and "txn_active t (db_txns db)"
    and "cdc_inv (db_cdc db)" and "cdc_enabled (db_cdc db)"
  shows "\<exists>db'. db_commit en db = (Inr (), db')
     \<and> reopens_as (en_crc en) (pg_file (ct_pager (db_catalog db'))) (wal_file (pg_wal (ct_pager (db_catalog db'))))
         (page_view (ct_pager (db_catalog db)))
     \<and> map ev_change (changes_since (latest_seq (db_cdc db)) (db_cdc db')) = keep_last (max 1 (capacity (db_cdc db))) (staged (db_cdc db))
     \<and> staged (db_cdc db') = [] \<and> ex_active db' = None"
proof -
  let ?p = "ct_pager (db_catalog db)"
  obtain gid where g: "active_group ?p = Some gid" using assms(2) by (auto simp: in_group_def)
  obtain q where c: "commit_group (en_crc en) (en_io en) ?p = (Inr (), q)"
    and d: "reopens_as (en_crc en) (pg_file q) (wal_file (pg_wal q)) (page_view ?p)"
    using commit_reopens [OF assms(1) g assms(3,4)] by (cases "commit_group (en_crc en) (en_io en) ?p") auto
  obtain m where m: "txn_end Committed t (db_txns db) = (Inr (), m)"
    using assms(6) by (simp add: txn_end_def txn_active_def txn_transition_def)
  let ?db' = "release_locks en t (db\<lparr>db_catalog := (db_catalog db)\<lparr>ct_pager := q\<rparr>, db_cdc := publish_staged (db_cdc db),
      ex_active := None, db_txns := m\<rparr>)"
  have "db_commit en db = (Inr (), ?db')"
    using c m assms(5) by (simp add: db_commit_def in_transaction_def mbind_def on_db_pager_def on_catalog_def on_ct_pager_def
        publish_changes_def modify_def commit_transaction_def end_transaction_def db_txn_end_def)
  with d publish_staged_changes [OF assms(7,8)] show ?thesis
    by (intro exI [of _ ?db']) (simp add: release_locks_def map_keep_last publish_staged_def)
qed

definition sample_session :: database where
  "sample_session = sample_db\<lparr>db_catalog := (db_catalog sample_db)\<lparr>ct_pager := sample_pages\<rparr>,
     db_txns := snd (txn_begin txn_manager_new), db_cdc := sample_cdc, ex_active := Some 1\<rparr>"

theorem commit_publishes_durably_witness:
  "\<exists>db'. db_commit sample_env sample_session = (Inr (), db')
     \<and> reopens_as sample_crc (pg_file (ct_pager (db_catalog db'))) (wal_file (pg_wal (ct_pager (db_catalog db'))))
         (page_view sample_pages)
     \<and> map ev_change (changes_since 3 (db_cdc db')) = [sample_change 2, sample_change 3]"
proof -
  have cdc: "cdc_inv sample_cdc" "cdc_enabled sample_cdc" "latest_seq sample_cdc = 3" "capacity sample_cdc = 2"
    "staged sample_cdc = [sample_change 2, sample_change 3]"
    using cdc_reachable_inv [OF sample_cdc_reachable]
    by (simp_all add: sample_cdc_def cdc_stage_def cdc_record_def cdc_enable_def latest_seq_def cdc_with_capacity_def Let_def)
  have "\<exists>db'. db_commit sample_env sample_session = (Inr (), db')
     \<and> reopens_as (en_crc sample_env) (pg_file (ct_pager (db_catalog db'))) (wal_file (pg_wal (ct_pager (db_catalog db'))))
         (page_view (ct_pager (db_catalog sample_session)))
     \<and> map ev_change (changes_since (latest_seq (db_cdc sample_session)) (db_cdc db')) =
         keep_last (max 1 (capacity (db_cdc sample_session))) (staged (db_cdc sample_session))
     \<and> staged (db_cdc db') = [] \<and> ex_active db' = None"
    by (rule commit_publishes_durably [where t = 1])
      (simp_all add: sample_session_def sample_env_def sample_pages_group sample_pages_facts in_group_def io_ok_def cdc(1,2)
        txn_active_def txn_begin_def txn_manager_new_def Let_def)
  then show ?thesis by (auto simp: sample_session_def sample_env_def cdc keep_last_def)
qed

end
