(* ===== verification/ValueOrder.thy ===== *)
theory ValueOrder
  imports Sql "HOL-Library.Multiset" "HOL-Library.Product_Lexorder" "HOL-Library.List_Lexorder"
begin

text \<open>
  Orders given by a comparison function, as \<open>sort_by\<close> takes them: the contract a comparison has to meet, what
  sorting with it guarantees, and the comparison of values as an instance.
\<close>

section \<open>Comparisons\<close>

definition cmp_lin :: "'a :: linorder \<Rightarrow> 'a \<Rightarrow> ordering" where
  "cmp_lin a b = (if a < b then Less else if a = b then Equal else Greater)"

lemma cmp_lin_simps [simp]:
  "cmp_lin a b = Less \<longleftrightarrow> a < b" "cmp_lin a b = Equal \<longleftrightarrow> a = b" "cmp_lin a b = Greater \<longleftrightarrow> b < a"
  by (auto simp: cmp_lin_def)

lemma cmp_int_lin: "cmp_int = cmp_lin"
  by (simp add: cmp_int_def cmp_lin_def fun_eq_iff)

lemma ord_reverse_simps [simp]:
  "ord_reverse a = Less \<longleftrightarrow> a = Greater" "ord_reverse a = Equal \<longleftrightarrow> a = Equal" "ord_reverse a = Greater \<longleftrightarrow> a = Less"
  by (cases a; simp add: ord_reverse_def)+

lemma cmp_lin_reverse: "ord_reverse (cmp_lin a b) = cmp_lin b a"
  by (auto simp: cmp_lin_def ord_reverse_def)

lemma ord_then_lin: "ord_then (cmp_lin a b) (cmp_lin c d) = cmp_lin (a, c) (b, d)"
  by (auto simp: cmp_lin_def ord_then_def less_prod_def)

lemma lex_cmp_lin: "lex_cmp f xs ys = cmp_lin (map f xs) (map f ys)"
  by (induction f xs ys rule: lex_cmp.induct) (auto simp: cmp_lin_def)

lemma mset_insert_by: "mset (insert_by cmp x xs) = add_mset x (mset xs)"
  by (induction xs) auto

lemma mset_sort_by [simp]: "mset (sort_by cmp xs) = mset xs"
proof -
  have "mset (foldr (insert_by cmp) xs []) = mset xs" by (induction xs) (simp_all add: mset_insert_by)
  then show ?thesis by (simp add: sort_by_def)
qed

lemma set_sort_by [simp]: "set (sort_by cmp xs) = set xs"
  by (metis mset_sort_by set_mset_mset)

lemma length_sort_by [simp]: "length (sort_by cmp xs) = length xs"
  by (metis mset_sort_by size_mset)

text \<open>A comparison that is a total preorder on the elements of \<open>S\<close>.\<close>

locale comparison =
  fixes cmp :: "'a \<Rightarrow> 'a \<Rightarrow> ordering" and S :: "'a set"
  assumes reverse: "x \<in> S \<Longrightarrow> y \<in> S \<Longrightarrow> cmp y x = ord_reverse (cmp x y)"
    and le_trans: "x \<in> S \<Longrightarrow> y \<in> S \<Longrightarrow> z \<in> S \<Longrightarrow> cmp x y \<noteq> Greater \<Longrightarrow> cmp y z \<noteq> Greater \<Longrightarrow> cmp x z \<noteq> Greater"
begin

definition ascending :: "'a list \<Rightarrow> bool" where
  "ascending xs \<longleftrightarrow> sorted_wrt (\<lambda>x y. cmp x y \<noteq> Greater) xs"

lemma not_greater_sym: "x \<in> S \<Longrightarrow> y \<in> S \<Longrightarrow> cmp x y = Greater \<Longrightarrow> cmp y x \<noteq> Greater"
  using reverse [of x y] by simp

lemma ascending_insert:
  assumes "set ys \<subseteq> S" and "x \<in> S" and "ascending ys"
  shows "ascending (insert_by cmp x ys)"
  using assms
proof (induction ys)
  case (Cons y ys)
  show ?case
  proof (cases "cmp x y = Greater")
    case True
    then have "cmp y x \<noteq> Greater" using Cons.prems not_greater_sym by simp
    moreover have "set (insert_by cmp x ys) = insert x (set ys)"
      by (metis mset_insert_by set_mset_add_mset_insert set_mset_mset)
    ultimately show ?thesis using Cons True by (auto simp: ascending_def)
  next
    case False
    have "\<forall>z \<in> set ys. cmp x z \<noteq> Greater"
      using Cons.prems False le_trans [of x y] by (auto simp: ascending_def)
    with Cons.prems False show ?thesis by (auto simp: ascending_def)
  qed
qed (simp add: ascending_def)

lemma ascending_sort: "set xs \<subseteq> S \<Longrightarrow> ascending (sort_by cmp xs)"
proof (induction xs)
  case (Cons x xs)
  then have "ascending (insert_by cmp x (sort_by cmp xs))" by (intro ascending_insert) simp_all
  then show ?case by (simp add: sort_by_def)
qed (simp add: sort_by_def ascending_def)

lemma equal_between:
  assumes "x \<in> S" "y \<in> S" "z \<in> S" and "cmp x y \<noteq> Greater" and "cmp y z \<noteq> Greater" and "cmp x z = Equal"
  shows "cmp x y = Equal"
proof (rule ccontr)
  assume "cmp x y \<noteq> Equal"
  with assms(4) have "cmp y x = Greater" using reverse [OF assms(1,2)] by (cases "cmp x y") simp_all
  moreover have "cmp z x \<noteq> Greater" using reverse [OF assms(1,3)] assms(6) by (simp add: ord_reverse_def)
  ultimately show False using le_trans [OF assms(2,3,1)] assms(5) by blast
qed

lemma sorted_unique:
  assumes strict: "\<And>x y. x \<in> S \<Longrightarrow> y \<in> S \<Longrightarrow> cmp x y = Equal \<Longrightarrow> x = y"
    and "mset xs = mset ys" and "set xs \<subseteq> S" and "ascending xs" and "ascending ys"
  shows "xs = ys"
  using assms(2-)
proof (induction xs arbitrary: ys)
  case (Cons x xs)
  then obtain y ys' where ys: "ys = y # ys'" by (cases ys) auto
  have S: "set ys \<subseteq> S" using Cons.prems(1,2) by (metis set_mset_mset)
  have "y \<in> set (x # xs)" "x \<in> set (y # ys')" using Cons.prems(1) ys by (metis list.set_intros(1) set_mset_mset)+
  then have "x = y \<or> (cmp x y \<noteq> Greater \<and> cmp y x \<noteq> Greater)"
    using Cons.prems(3,4) ys by (auto simp: ascending_def)
  moreover have "x \<in> S" "y \<in> S" using Cons.prems(2) S ys by auto
  ultimately have "x = y" using strict [of x y] reverse [of x y] by (cases "cmp x y") auto
  moreover have "xs = ys'" using Cons.prems ys \<open>x = y\<close> by (intro Cons.IH) (auto simp: ascending_def)
  ultimately show ?case using ys by simp
qed simp

end

lemma comparison_cmp_lin: "comparison (\<lambda>x y. cmp_lin (f x) (f y)) S"
  by unfold_locales (auto simp: cmp_lin_reverse)

lemma comparison_cong:
  assumes "comparison cmp S" and eq: "\<And>x y. x \<in> S \<Longrightarrow> y \<in> S \<Longrightarrow> cmp' x y = cmp x y"
  shows "comparison cmp' S"
proof (rule comparison.intro)
  show "cmp' y x = ord_reverse (cmp' x y)" if "x \<in> S" "y \<in> S" for x y
    using comparison.reverse [OF assms(1) that] eq that by simp
  show "cmp' x z \<noteq> Greater" if "x \<in> S" "y \<in> S" "z \<in> S" "cmp' x y \<noteq> Greater" "cmp' y z \<noteq> Greater" for x y z
    using comparison.le_trans [OF assms(1) that(1-3)] that by (simp add: eq)
qed

section \<open>Numbers\<close>

text \<open>Up to \<open>2 ^ 53\<close> the conversion of an integer to \<open>f64\<close> is exact and keeps the order.\<close>

lemma msb_bounds: "0 < m \<Longrightarrow> 2 ^ msb_index m \<le> m \<and> m < 2 ^ Suc (msb_index m)"
proof (induction m rule: msb_index.induct)
  case (1 n)
  show ?case
  proof (cases "n < 2")
    case True
    with "1.prems" have "n = 1" by simp
    then show ?thesis by (simp add: msb_index.simps)
  next
    case False
    then have "0 < n div 2" by simp
    with "1.IH" [OF False] have "2 ^ msb_index (n div 2) \<le> n div 2" "n div 2 < 2 ^ Suc (msb_index (n div 2))" by simp_all
    moreover have e: "msb_index n = Suc (msb_index (n div 2))" using False by (simp add: msb_index.simps)
    moreover have "2 * (n div 2) \<le> n" "n < 2 * (n div 2) + 2" by presburger+
    ultimately show ?thesis unfolding e power_Suc by linarith
  qed
qed

definition exact_magnitude :: "int \<Rightarrow> int" where
  "exact_magnitude m = (if m = 0 then 0 else (1022 + int (msb_index m)) * 2 ^ 52 + m * 2 ^ (52 - msb_index m))"

lemma msb_le:
  assumes "0 < m" and "m \<le> 2 ^ k"
  shows "msb_index m \<le> k"
proof -
  have "(2 :: int) ^ msb_index m \<le> 2 ^ k" using msb_bounds [OF assms(1)] assms(2) by linarith
  then show ?thesis by simp
qed

lemma magnitude_exact:
  assumes "0 \<le> m" and "m \<le> 2 ^ 52"
  shows "f64_magnitude m = exact_magnitude m"
proof (cases "m = 0")
  case False
  then have "msb_index m \<le> 52" using assms by (intro msb_le) simp_all
  then show ?thesis using False by (simp add: f64_magnitude_def exact_magnitude_def Let_def algebra_simps)
qed (simp add: f64_magnitude_def exact_magnitude_def)

lemma exact_magnitude_bounds:
  assumes "0 < m" and "m \<le> 2 ^ 52"
  shows "(1023 + int (msb_index m)) * 2 ^ 52 \<le> exact_magnitude m"
    and "exact_magnitude m < (1024 + int (msb_index m)) * 2 ^ 52"
proof -
  let ?e = "msb_index m"
  have e: "?e \<le> 52" using assms by (intro msb_le)
  note b = msb_bounds [OF assms(1)]
  have p: "(2 :: int) ^ 52 = 2 ^ ?e * 2 ^ (52 - ?e)" using e by (simp flip: power_add)
  have "2 ^ ?e * 2 ^ (52 - ?e) \<le> m * 2 ^ (52 - ?e)" using b by (intro mult_right_mono) simp_all
  then have 1: "2 ^ 52 \<le> m * 2 ^ (52 - ?e)" unfolding p .
  have "m * 2 ^ (52 - ?e) < 2 ^ Suc ?e * 2 ^ (52 - ?e)" using b by (intro mult_strict_right_mono) simp_all
  also have "\<dots> = 2 * 2 ^ 52" unfolding p by simp
  finally have 2: "m * 2 ^ (52 - ?e) < 2 * 2 ^ 52" .
  from 1 2 assms(1) show "(1023 + int ?e) * 2 ^ 52 \<le> exact_magnitude m" "exact_magnitude m < (1024 + int ?e) * 2 ^ 52"
    by (simp_all add: exact_magnitude_def algebra_simps)
qed

lemma exact_magnitude_mono:
  assumes "0 \<le> m" and "m < n" and "n \<le> 2 ^ 52"
  shows "exact_magnitude m < exact_magnitude n"
proof (cases "m = 0")
  case True
  have "(1023 + int (msb_index n)) * 2 ^ 52 \<le> exact_magnitude n" by (rule exact_magnitude_bounds) (use assms in simp_all)
  moreover have "0 < (1023 + int (msb_index n)) * 2 ^ 52" by simp
  ultimately have "0 < exact_magnitude n" by linarith
  with True show ?thesis by (simp add: exact_magnitude_def)
next
  case False
  let ?e = "msb_index m" and ?f = "msb_index n"
  have m: "0 < m" "m \<le> 2 ^ 52" and n: "0 < n" using assms False by simp_all
  have "(2 :: int) ^ ?e < 2 ^ Suc ?f" using msb_bounds [OF m(1)] msb_bounds [OF n] assms(2) by linarith
  then have "?e < Suc ?f" by (rule power_less_imp_less_exp [rotated]) simp
  then have le: "?e \<le> ?f" by simp
  show ?thesis
  proof (cases "?e = ?f")
    case True
    have "m * 2 ^ (52 - ?e) < n * 2 ^ (52 - ?e)" using assms(2) by (intro mult_strict_right_mono) simp_all
    with True m n show ?thesis by (simp add: exact_magnitude_def)
  next
    case False
    with le have "1024 + int ?e \<le> 1023 + int ?f" by simp
    then have "(1024 + int ?e) * 2 ^ 52 \<le> (1023 + int ?f) * 2 ^ 52" by (intro mult_right_mono) simp_all
    with exact_magnitude_bounds(2) [OF m] exact_magnitude_bounds(1) [OF n assms(3)] show ?thesis by linarith
  qed
qed

text \<open>The sort key of an integer's float, when the integer is at most \<open>2 ^ 52\<close> in size.\<close>

definition int_key :: "int \<Rightarrow> int" where
  "int_key i = (if i < 0 then - exact_magnitude (- i) else exact_magnitude i)"

lemma exact_magnitude_range:
  assumes "0 \<le> m" and "m \<le> 2 ^ 52"
  shows "0 \<le> exact_magnitude m" and "exact_magnitude m < 2 ^ 63"
proof -
  have "0 \<le> exact_magnitude m \<and> exact_magnitude m < 2 ^ 63"
  proof (cases "m = 0")
    case False
    then have m: "0 < m" using assms(1) by simp
    have "msb_index m \<le> 52" using assms m by (intro msb_le)
    then have "(1024 + int (msb_index m)) * 2 ^ 52 \<le> 1076 * 2 ^ 52" by (intro mult_right_mono) simp_all
    moreover have "0 < (1023 + int (msb_index m)) * 2 ^ 52" by simp
    ultimately show ?thesis using exact_magnitude_bounds [OF m assms(2)] by simp
  qed (simp add: exact_magnitude_def)
  then show "0 \<le> exact_magnitude m" "exact_magnitude m < 2 ^ 63" by simp_all
qed

lemma f64_key_of_int:
  assumes "- (2 ^ 52) \<le> i" and "i \<le> 2 ^ 52"
  shows "f64_key (f64_of_int i) = int_key i" and "\<not> f64_is_nan (f64_of_int i)"
proof -
  have u: "uint (word_of_int k :: f64) = k" if "0 \<le> k" "k < 2 ^ 64" for k
    using that by (simp add: uint_word_of_int take_bit_eq_mod)
  have 1: "f64_key (f64_of_int i) = int_key i \<and> \<not> f64_is_nan (f64_of_int i)"
  proof (cases "i < 0")
    case True
    then have m: "0 \<le> - i" "- i \<le> 2 ^ 52" "0 < - i" using assms by simp_all
    note r = exact_magnitude_range [OF m(1,2)]
    have pos: "0 < exact_magnitude (- i)" using exact_magnitude_mono [of 0 "- i"] m by (simp add: exact_magnitude_def)
    have w: "uint (f64_of_int i) = 2 ^ 63 + exact_magnitude (- i)"
      unfolding f64_of_int_def if_P [OF True] magnitude_exact [OF m(1,2)] using r by (intro u) simp_all
    have le: "exact_magnitude (- i) \<le> 2047 * 2 ^ 52"
      using exact_magnitude_bounds(2) [OF m(3,2)] msb_le [OF m(3,2)] by (simp add: algebra_simps)
    have "(2 ^ 63 + exact_magnitude (- i)) mod 2 ^ 63 = exact_magnitude (- i)" using r by simp
    with le pos r True show ?thesis by (simp add: f64_key_def w int_key_def f64_is_nan_def)
  next
    case False
    then have m: "0 \<le> i" by simp
    note r = exact_magnitude_range [OF m assms(2)]
    have w: "uint (f64_of_int i) = exact_magnitude i"
      unfolding f64_of_int_def if_not_P [OF False] magnitude_exact [OF m assms(2)] using r by (intro u) simp_all
    have le: "exact_magnitude i \<le> 2047 * 2 ^ 52"
    proof (cases "i = 0")
      case False
      with m have i: "0 < i" by simp
      show ?thesis using exact_magnitude_bounds(2) [OF i assms(2)] msb_le [OF i assms(2)] by (simp add: algebra_simps)
    qed (simp add: exact_magnitude_def)
    with r False show ?thesis by (simp add: f64_key_def w int_key_def f64_is_nan_def)
  qed
  then show "f64_key (f64_of_int i) = int_key i" "\<not> f64_is_nan (f64_of_int i)" by simp_all
qed

lemma int_key_mono:
  assumes "- (2 ^ 52) \<le> i" and "i < j" and "j \<le> 2 ^ 52"
  shows "int_key i < int_key j"
proof -
  have pos: "0 < m \<Longrightarrow> m \<le> 2 ^ 52 \<Longrightarrow> 0 < exact_magnitude m" for m
    using exact_magnitude_mono [of 0 m] by (simp add: exact_magnitude_def)
  consider "i < 0" "j < 0" | "i < 0" "0 \<le> j" | "0 \<le> i" by linarith
  then show ?thesis
  proof cases
    case 1
    then show ?thesis using assms exact_magnitude_mono [of "- j" "- i"] by (simp add: int_key_def)
  next
    case 2
    then show ?thesis using assms pos [of "- i"] exact_magnitude_range(1) [of j] by (simp add: int_key_def)
  next
    case 3
    then show ?thesis using assms exact_magnitude_mono [of i j] by (simp add: int_key_def)
  qed
qed

section \<open>Values\<close>

text \<open>Values on which the comparison is consistent: no NaN, no integer beyond \<open>2 ^ 52\<close>.\<close>

definition ordinary :: "sql_value \<Rightarrow> bool" where
  "ordinary v = (case v of
     VInteger i \<Rightarrow> - (2 ^ 52) \<le> sint i \<and> sint i \<le> 2 ^ 52 | VFloat f \<Rightarrow> \<not> f64_is_nan f | VReal f \<Rightarrow> \<not> f64_is_nan f | _ \<Rightarrow> True)"

definition value_key :: "(f32 list \<Rightarrow> string) \<Rightarrow> sql_value \<Rightarrow> nat \<times> int \<times> nat list" where
  "value_key fmt v =
     (case v of
        VBlob b \<Rightarrow> (0, 0, map unat b)
      | VInteger i \<Rightarrow> (1, int_key (sint i), [])
      | VFloat f \<Rightarrow> (1, f64_key f, [])
      | VReal f \<Rightarrow> (1, f64_key f, [])
      | VText s \<Rightarrow> (2, 0, map of_char s)
      | VVector xs \<Rightarrow> (3, 0, map of_char (debug_text fmt v))
      | VNull \<Rightarrow> (4, 0, []))"

lemma cmp_int_key:
  assumes "- (2 ^ 52) \<le> i" "i \<le> 2 ^ 52" "- (2 ^ 52) \<le> j" "j \<le> 2 ^ 52"
  shows "cmp_int i j = cmp_lin (int_key i) (int_key j)"
proof (cases i j rule: linorder_cases)
  case less
  then show ?thesis using int_key_mono [of i j] assms by (simp add: cmp_int_def cmp_lin_def)
next
  case greater
  then show ?thesis using int_key_mono [of j i] assms by (simp add: cmp_int_def cmp_lin_def)
qed (simp add: cmp_lin_def)

lemma cmp_lin_same_kind: "cmp_lin (k, a, b) (k, c, d) = cmp_lin (a, b) (c, d)"
  by (auto simp: cmp_lin_def)

definition num_key :: "sql_value \<Rightarrow> int" where
  "num_key v = fst (snd (value_key (\<lambda>_. []) v))"

lemma numeric_key: "is_numeric v \<Longrightarrow> value_key fmt v = (1, num_key v, [])"
  by (cases v) (simp_all add: is_numeric_def value_key_def num_key_def)

lemma numeric_float:
  assumes "is_numeric v" and "ordinary v"
  obtains f where "as_float v = Inr f" and "f64_key f = num_key v" and "\<not> f64_is_nan f"
proof (cases v)
  case (VInteger i)
  then have "- (2 ^ 52) \<le> sint i" "sint i \<le> 2 ^ 52" using assms(2) by (simp_all add: ordinary_def)
  from f64_key_of_int [OF this] VInteger show ?thesis
    by (intro that [of "f64_of_int (sint i)"]) (simp_all add: as_float_def num_key_def value_key_def)
qed (use assms in \<open>auto simp: is_numeric_def ordinary_def as_float_def num_key_def value_key_def intro: that\<close>)

lemma compare_numeric:
  assumes "is_numeric a" "ordinary a" "is_numeric b" "ordinary b"
  shows "compare_values fmt a b = cmp_lin (num_key a) (num_key b)"
proof (cases "is_integer a \<and> is_integer b")
  case True
  then obtain i j where ij: "a = VInteger i" "b = VInteger j" by (auto simp: is_integer_def split: sql_value.splits)
  then have "compare_values fmt a b = cmp_int (sint i) (sint j)" by (simp add: compare_values_def)
  also have "\<dots> = cmp_lin (int_key (sint i)) (int_key (sint j))"
    by (rule cmp_int_key) (use assms(2,4) ij in \<open>simp_all add: ordinary_def\<close>)
  finally show ?thesis by (simp add: ij num_key_def value_key_def)
next
  case False
  obtain f where f: "as_float a = Inr f" "f64_key f = num_key a" "\<not> f64_is_nan f" by (rule numeric_float [OF assms(1,2)])
  obtain g where g: "as_float b = Inr g" "f64_key g = num_key b" "\<not> f64_is_nan g" by (rule numeric_float [OF assms(3,4)])
  have "compare_values fmt a b = (case f64_partial_cmp f g of None \<Rightarrow> Equal | Some c \<Rightarrow> c)"
    using False assms(1,3) f(1) g(1) by (cases a; cases b) (simp_all add: compare_values_def is_integer_def is_numeric_def)
  with f(2,3) g(2,3) show ?thesis by (simp add: f64_partial_cmp_def cmp_int_lin)
qed

lemma compare_kinds:
  assumes "\<not> (is_numeric a \<and> is_numeric b)"
  shows "compare_values fmt a b = cmp_lin (value_key fmt a) (value_key fmt b)"
  using assms
  by (cases a; cases b)
    (simp_all add: compare_values_def value_key_def is_numeric_def cmp_str_def cmp_bytes_def lex_cmp_lin debug_text_def cmp_lin_def)

lemma compare_values_key:
  assumes "ordinary a" and "ordinary b"
  shows "compare_values fmt a b = cmp_lin (value_key fmt a) (value_key fmt b)"
proof (cases "is_numeric a \<and> is_numeric b")
  case True
  then show ?thesis using compare_numeric [of a b] assms by (simp add: numeric_key cmp_lin_def)
qed (rule compare_kinds)

interpretation vals: comparison "compare_values fmt" "Collect ordinary" for fmt
  by (rule comparison_cong [OF comparison_cmp_lin [of "value_key fmt"]]) (simp add: compare_values_key)

end
