(* ===== verification/VectorTheorems.thy ===== *)
theory VectorTheorems
  imports Vector ValueOrder
begin

text \<open>
  The nearest-neighbour search returns the first \<open>k\<close> rows of the full sort, although it only selects.
\<close>

section \<open>Selecting before sorting\<close>

text \<open>
  What \<open>select_nth_unstable_by\<close> documents: the elements are reordered so that none before position \<open>n\<close>
  exceeds the one there and none behind it is smaller.
\<close>

definition selects :: "'a selection \<Rightarrow> ('a \<Rightarrow> 'a \<Rightarrow> ordering) \<Rightarrow> 'a set \<Rightarrow> bool" where
  "selects sel cmp S \<longleftrightarrow> (\<forall>n xs. n < length xs \<and> set xs \<subseteq> S \<longrightarrow> mset (sel n cmp xs) = mset xs
     \<and> (\<forall>i < n. cmp (sel n cmp xs ! i) (sel n cmp xs ! n) \<noteq> Greater)
     \<and> (\<forall>i. n < i \<and> i < length xs \<longrightarrow> cmp (sel n cmp xs ! n) (sel n cmp xs ! i) \<noteq> Greater))"

context comparison
begin

lemma ascending_append:
  "ascending (xs @ ys) \<longleftrightarrow> ascending xs \<and> ascending ys \<and> (\<forall>x \<in> set xs. \<forall>y \<in> set ys. cmp x y \<noteq> Greater)"
  by (simp add: ascending_def sorted_wrt_append)

lemma selected_prefix:
  assumes strict: "\<And>x y. x \<in> S \<Longrightarrow> y \<in> S \<Longrightarrow> cmp x y = Equal \<Longrightarrow> x = y"
    and sel: "selects sel cmp S" and S: "set xs \<subseteq> S" and k: "0 < k" "k < length xs"
  shows "sort_by cmp (take k (sel (k - 1) cmp xs)) = take k (sort_by cmp xs)"
proof -
  let ?ys = "sel (k - 1) cmp xs" and ?p = "k - 1"
  have n: "?p < length xs" using k by simp
  from sel n S have perm: "mset ?ys = mset xs"
    and low: "\<And>i. i < ?p \<Longrightarrow> cmp (?ys ! i) (?ys ! ?p) \<noteq> Greater"
    and high: "\<And>i. ?p < i \<Longrightarrow> i < length xs \<Longrightarrow> cmp (?ys ! ?p) (?ys ! i) \<noteq> Greater"
    by (auto simp: selects_def)
  have len: "length ?ys = length xs" using perm by (metis size_mset)
  have yS: "set ?ys \<subseteq> S" using perm S by (metis set_mset_mset)
  have "?ys ! ?p \<in> set ?ys" using n len by (intro nth_mem) simp
  with yS have pS: "?ys ! ?p \<in> S" by blast
  have A: "set (take k ?ys) \<subseteq> S" and B: "set (drop k ?ys) \<subseteq> S"
    using yS set_take_subset [of k ?ys] set_drop_subset [of k ?ys] by (meson subset_trans)+
  have "cmp a b \<noteq> Greater" if a: "a \<in> set (take k ?ys)" and b: "b \<in> set (drop k ?ys)" for a b
  proof -
    obtain i where i: "i < k" "a = ?ys ! i" using a k len by (auto simp: in_set_conv_nth)
    obtain j where "j < length (drop k ?ys)" "b = drop k ?ys ! j" using b by (metis in_set_conv_nth)
    then have j: "k + j < length xs" "b = ?ys ! (k + j)" using len by simp_all
    have "cmp a (?ys ! ?p) \<noteq> Greater"
    proof (cases "i = ?p")
      case True
      then show ?thesis using i reverse [OF pS pS] by (cases "cmp a (?ys ! ?p)") (auto simp: ord_reverse_def)
    qed (use low i in auto)
    moreover have "cmp (?ys ! ?p) b \<noteq> Greater" using high [of "k + j"] j k by simp
    moreover have "a \<in> S" "b \<in> S" using A B a b by blast+
    ultimately show ?thesis using le_trans [of a "?ys ! ?p" b] pS by blast
  qed
  then have "ascending (sort_by cmp (take k ?ys) @ sort_by cmp (drop k ?ys))"
    using ascending_sort [OF A] ascending_sort [OF B] by (simp add: ascending_append)
  moreover have "mset (sort_by cmp xs) = mset (sort_by cmp (take k ?ys) @ sort_by cmp (drop k ?ys))"
    using perm by (metis append_take_drop_id mset_append mset_sort_by)
  ultimately have "sort_by cmp xs = sort_by cmp (take k ?ys) @ sort_by cmp (drop k ?ys)"
    using ascending_sort [OF S] S by (intro sorted_unique [OF strict]) simp_all
  then show ?thesis using len k by simp
qed

end

section \<open>Scored rows\<close>

definition no_nan :: "(f64 \<times> i64 \<times> row) set" where
  "no_nan = {x. \<not> f64_is_nan (fst x)}"

lemma cmp_scored_key:
  assumes "a \<in> no_nan" and "b \<in> no_nan"
  shows "cmp_scored a b = cmp_lin (f64_key (fst a), sint (fst (snd a))) (f64_key (fst b), sint (fst (snd b)))"
  using assms by (simp add: cmp_scored_def no_nan_def f64_partial_cmp_def cmp_int_lin ord_then_lin)

lemma cmp_scored_comparison: "S \<subseteq> no_nan \<Longrightarrow> comparison cmp_scored S"
  by (rule comparison_cong [OF comparison_cmp_lin [of "\<lambda>a. (f64_key (fst a), sint (fst (snd a)))"]])
    (auto simp: cmp_scored_key subset_iff)

interpretation scored: comparison cmp_scored no_nan
  by (rule cmp_scored_comparison) simp

lemma selects_subset: "selects sel cmp S \<Longrightarrow> T \<subseteq> S \<Longrightarrow> selects sel cmp T"
  unfolding selects_def by (meson subset_trans)

lemma scored_rows_map: "scored_rows F rows ci q metric = map (\<lambda>(key, row). (distance_of F ci q metric row, key, row)) rows"
  unfolding scored_rows_def compute_distances_def by (induction rows) auto

lemma scored_keys: "map (\<lambda>x. fst (snd x)) (scored_rows F rows ci q metric) = map fst rows"
  unfolding scored_rows_map by (induction rows) auto

lemma knn_prefix:
  assumes sel: "selects sel cmp_scored no_nan" and d: "distinct (map fst rows)"
    and nan: "set (scored_rows F rows ci q metric) \<subseteq> no_nan"
  shows "knn sel F rows ci q metric k = take k (sort_by cmp_scored (scored_rows F rows ci q metric))"
proof (cases "k = 0 \<or> length (scored_rows F rows ci q metric) \<le> k")
  case True
  then show ?thesis by (auto simp: knn_def Let_def)
next
  case False
  let ?xs = "scored_rows F rows ci q metric"
  have dk: "distinct (map (\<lambda>x. fst (snd x)) ?xs)" by (simp add: scored_keys d)
  have strict: "x = y" if "x \<in> set ?xs" "y \<in> set ?xs" "cmp_scored x y = Equal" for x y
  proof -
    have "x \<in> no_nan" "y \<in> no_nan" using that nan by blast+
    from cmp_scored_key [OF this] that(3) have "cmp_lin (f64_key (fst x), sint (fst (snd x))) (f64_key (fst y), sint (fst (snd y))) = Equal"
      by simp
    then have "fst (snd x) = fst (snd y)" by (auto intro: signed_word_eqI)
    then show ?thesis using dk that(1,2) by (simp add: distinct_map inj_on_def)
  qed
  have c: "comparison cmp_scored (set ?xs)" by (rule cmp_scored_comparison [OF nan])
  have "sort_by cmp_scored (take k (sel (k - 1) cmp_scored ?xs)) = take k (sort_by cmp_scored ?xs)"
    by (rule comparison.selected_prefix [OF c strict selects_subset [OF sel nan]]) (use False in auto)
  with False show ?thesis by (simp add: knn_def Let_def)
qed

text \<open>Sorting is one way to select.\<close>

lemma sort_selects: "selects (\<lambda>_. sort_by) cmp_scored no_nan"
  unfolding selects_def
proof (intro allI impI)
  fix n and xs :: "(f64 \<times> i64 \<times> row) list"
  assume a: "n < length xs \<and> set xs \<subseteq> no_nan"
  then have "sorted_wrt (\<lambda>x y. cmp_scored x y \<noteq> Greater) (sort_by cmp_scored xs)"
    using scored.ascending_sort [of xs] by (simp add: scored.ascending_def)
  then show "mset (sort_by cmp_scored xs) = mset xs
     \<and> (\<forall>i < n. cmp_scored (sort_by cmp_scored xs ! i) (sort_by cmp_scored xs ! n) \<noteq> Greater)
     \<and> (\<forall>i. n < i \<and> i < length xs \<longrightarrow> cmp_scored (sort_by cmp_scored xs ! n) (sort_by cmp_scored xs ! i) \<noteq> Greater)"
    using a by (auto simp: sorted_wrt_iff_nth_less)
qed

section \<open>Property\<close>

text \<open>
  C30: The top-k search is the full sort cut after \<open>k\<close> rows. When the keys of the rows differ and no distance
  is NaN, selecting the \<open>k\<close> nearest with \<open>select_nth_unstable_by\<close>, whatever order it leaves them in, and
  sorting those gives exactly the first \<open>k\<close> of all rows sorted by distance and key.
\<close>

theorem knn_is_sorted_prefix:
  assumes "selects sel cmp_scored no_nan" and "distinct (map fst rows)"
    and "list_all (\<lambda>(_, row). \<not> f64_is_nan (distance_of F ci q metric row)) rows"
  shows "knn sel F rows ci q metric k = take k (sort_by cmp_scored (scored_rows F rows ci q metric))"
proof (rule knn_prefix [OF assms(1,2)])
  show "set (scored_rows F rows ci q metric) \<subseteq> no_nan"
    using assms(3) by (fastforce simp: no_nan_def scored_rows_map list_all_iff)
qed

definition sample_points :: "(i64 \<times> row) list" where
  "sample_points = [(3, [VVector []]), (1, [VNull]), (2, [VVector []])]"

definition flat_floats :: float_ops where
  "flat_floats = \<lparr>fo_widen = (\<lambda>_. 0), fo_add = (+), fo_sub = (-), fo_mul = (*), fo_div = (div), fo_neg = (\<lambda>x. x),
     fo_sqrt = (\<lambda>x. x), fo_sum = (\<lambda>_. 0)\<rparr>"

theorem knn_is_sorted_prefix_witness:
  "knn (\<lambda>_. sort_by) flat_floats sample_points 0 [] Euclidean 2 = [(0, 2, [VVector []]), (0, 3, [VVector []])]"
proof -
  have inf: "\<not> f64_is_nan f64_infinity" "f64_key f64_infinity = 2047 * 2 ^ 52"
    by (simp_all add: f64_is_nan_def f64_infinity_def f64_key_def)
  have d: "distance_of flat_floats 0 [] Euclidean [VVector []] = 0" "distance_of flat_floats 0 [] Euclidean [VNull] = f64_infinity"
    by (simp_all add: distance_of_def value_as_vector_def distance_def euclidean_distance_def flat_floats_def)
  have z: "\<not> f64_is_nan 0" "f64_key 0 = 0" by (simp_all add: f64_is_nan_def f64_key_def)
  have s: "scored_rows flat_floats sample_points 0 [] Euclidean = [(0, 3, [VVector []]), (f64_infinity, 1, [VNull]), (0, 2, [VVector []])]"
    by (simp add: scored_rows_def compute_distances_def sample_points_def d)
  have "knn (\<lambda>_. sort_by) flat_floats sample_points 0 [] Euclidean 2 =
      take 2 (sort_by cmp_scored (scored_rows flat_floats sample_points 0 [] Euclidean))"
    by (rule knn_is_sorted_prefix [OF sort_selects]) (simp_all add: sample_points_def d inf z)
  also have "\<dots> = [(0, 2, [VVector []]), (0, 3, [VVector []])]"
    unfolding s by (simp add: sort_by_def cmp_scored_key no_nan_def inf z cmp_lin_def less_prod_def numeral_2_eq_2)
  finally show ?thesis .
qed

end
