(* ===== verification/RowChecks.thy ===== *)
theory RowChecks
  imports Executor ValueOrder
begin

text \<open>
  The executor's checks on rows, without storage: WHERE filtering, UNIQUE checking, the row an INSERT builds.
\<close>

section \<open>Lists\<close>

lemma position_Some: "position P xs = Some i \<Longrightarrow> i < length xs \<and> P (xs ! i) \<and> (\<forall>j < i. \<not> P (xs ! j))"
  by (induction xs arbitrary: i) (auto split: if_splits simp: less_Suc_eq_0_disj)

lemma position_None: "position P xs = None \<longleftrightarrow> (\<forall>x \<in> set xs. \<not> P x)"
  by (induction xs) auto

lemma position_find: "position P xs = Some i \<Longrightarrow> List.find P xs = Some (xs ! i)"
  by (induction xs arbitrary: i) (auto split: if_splits)

lemma adjacent_sorted:
  fixes ks :: "'a :: linorder list"
  assumes "sorted ks"
  shows "adjacent (=) ks \<longleftrightarrow> \<not> distinct ks"
  using assms
proof (induction "(=) :: 'a \<Rightarrow> 'a \<Rightarrow> bool" ks rule: adjacent.induct)
  case (1 x y ys)
  show ?case
  proof (cases "x = y")
    case False
    with "1.prems" have "x < y" by auto
    with "1.prems" have "x \<notin> set (y # ys)" by fastforce
    with False 1 show ?thesis by auto
  qed simp
qed simp_all

lemma adjacent_map: "adjacent (\<lambda>a b. P (f a) (f b)) xs = adjacent P (map f xs)"
  by (induction "\<lambda>a b. P (f a) (f b)" xs rule: adjacent.induct) simp_all

lemma adjacent_cong: "(\<And>a b. a \<in> set xs \<Longrightarrow> b \<in> set xs \<Longrightarrow> P a b = Q a b) \<Longrightarrow> adjacent P xs = adjacent Q xs"
  by (induction P xs rule: adjacent.induct) auto

section \<open>UNIQUE\<close>

lemma values_distinct:
  assumes "set xs \<subseteq> Collect ordinary"
  shows "sorted_wrt (\<lambda>a b. compare_values fmt a b \<noteq> Equal) xs \<longleftrightarrow> distinct (map (value_key fmt) xs)"
  using assms by (induction xs) (auto simp: compare_values_key subset_iff)

lemma adjacent_values:
  assumes "set xs \<subseteq> Collect ordinary"
  shows "adjacent (\<lambda>a b. compare_values fmt a b = Equal) (sort_by (compare_values fmt) xs) \<longleftrightarrow>
     \<not> sorted_wrt (\<lambda>a b. compare_values fmt a b \<noteq> Equal) xs"
proof -
  let ?ys = "sort_by (compare_values fmt) xs" and ?k = "value_key fmt"
  have S: "set ?ys \<subseteq> Collect ordinary" using assms by simp
  have "sorted_wrt (\<lambda>x y. compare_values fmt x y \<noteq> Greater) ?ys"
    using vals.ascending_sort [OF assms, of fmt] by (simp add: vals.ascending_def)
  then have "sorted_wrt (\<lambda>x y. ?k x \<le> ?k y) ?ys"
    by (rule sorted_wrt_mono_rel [rotated]) (use S in \<open>auto simp: compare_values_key subset_iff not_less\<close>)
  then have sorted: "sorted (map ?k ?ys)" by (simp add: sorted_wrt_map)
  have "adjacent (\<lambda>a b. compare_values fmt a b = Equal) ?ys = adjacent (\<lambda>a b. ?k a = ?k b) ?ys"
    by (rule adjacent_cong) (use S in \<open>auto simp: compare_values_key subset_iff\<close>)
  also have "\<dots> = adjacent (=) (map ?k ?ys)" by (rule adjacent_map)
  also have "\<dots> \<longleftrightarrow> \<not> distinct (map ?k ?ys)" by (rule adjacent_sorted [OF sorted])
  also have "distinct (map ?k ?ys) = distinct (map ?k xs)"
    by (metis mset_eq_imp_distinct_iff mset_map mset_sort_by)
  finally show ?thesis by (simp add: values_distinct [OF assms])
qed

section \<open>WHERE\<close>

text \<open>A row is wide enough for a clause when every column it names has a value.\<close>

definition wide_enough :: "table_schema \<Rightarrow> row \<Rightarrow> bool" where
  "wide_enough ts row \<longleftrightarrow> length (ts_columns ts) \<le> length row"

lemma column_index_bound: "column_index ts name = Some i \<Longrightarrow> i < length (ts_columns ts) \<and> col_name (ts_columns ts ! i) = name"
  unfolding column_index_def using position_Some by fastforce

lemma evaluate_no_panic: "evaluate rx op a b = Inl e \<Longrightarrow> \<exists>v. e = Error v"
  by (cases a; cases b)
    (auto simp: evaluate_def is_numeric_def as_float_def rbind_def split: if_splits option.splits)

lemma where_no_panic:
  assumes "wide_enough ts row" and "evaluate_where_clause rx ts row wc = Inl e"
  shows "\<exists>v. e = Error v"
  using assms(2)
proof (induction wc)
  case (Cons c cs)
  show ?case
  proof (cases "column_index ts (cond_column c)")
    case (Some i)
    then have "i < length row" using column_index_bound assms(1) by (fastforce simp: wide_enough_def)
    with Some Cons show ?thesis
      by (auto simp: index_or_def rbind_def dest: evaluate_no_panic split: sum.splits if_splits)
  qed (use Cons in \<open>auto simp: index_or_def\<close>)
qed simp

lemma filter_rows_spec:
  assumes "\<forall>(k, row) \<in> set rows. wide_enough ts row"
  shows "filter_rows rx ts wc rows = Inr (filter (\<lambda>(k, row). evaluate_where_clause rx ts row wc = Inr True) rows)"
  using assms
proof (induction rows)
  case (Cons r rows)
  obtain key row where r: "r = (key, row)" by fastforce
  have w: "wide_enough ts row" using Cons.prems r by auto
  have IH: "filter_rows rx ts wc rows = Inr (filter (\<lambda>(k, row). evaluate_where_clause rx ts row wc = Inr True) rows)"
    using Cons by auto
  show ?case
  proof (cases "evaluate_where_clause rx ts row wc")
    case (Inl e)
    then obtain v where "e = Error v" using where_no_panic [OF w] by blast
    with Inl IH r show ?thesis by simp
  next
    case (Inr b)
    with IH r show ?thesis by simp
  qed
qed simp

text \<open>A matching row satisfies every condition of the clause.\<close>

lemma where_condition:
  assumes "evaluate_where_clause rx ts row wc = Inr True" and "c \<in> set wc"
  obtains i where "column_index ts (cond_column c) = Some i" and "i < length row"
    and "evaluate rx (cond_operator c) (row ! i) (cond_value c) = Inr True"
  using assms
proof (induction wc)
  case (Cons d ds)
  show ?case
  proof (cases "c = d")
    case True
    with Cons.prems(2) obtain i where "column_index ts (cond_column c) = Some i" "i < length row"
      "evaluate rx (cond_operator c) (row ! i) (cond_value c) = Inr True"
      by (auto simp: rbind_def index_or_def split: sum.splits option.splits if_splits)
    then show ?thesis by (rule Cons.prems(1))
  next
    case False
    then have "evaluate_where_clause rx ts row ds = Inr True" "c \<in> set ds"
      using Cons.prems(2,3) by (auto simp: rbind_def index_or_def split: sum.splits option.splits if_splits)
    with Cons.IH Cons.prems(1) show ?thesis by blast
  qed
qed simp

section \<open>The row of an INSERT\<close>

lemma build_row_fold:
  "length (fold (\<lambda>(name, v) row. case column_index ts name of None \<Rightarrow> row | Some i \<Rightarrow> row[i := v]) nvs row) = length row"
  by (induction nvs arbitrary: row) (auto split: option.splits)

lemma length_build_row: "length (build_row ts nvs) = length (ts_columns ts)"
  by (simp add: build_row_def build_row_fold)

abbreviation put_value :: "table_schema \<Rightarrow> string \<times> sql_value \<Rightarrow> row \<Rightarrow> row" where
  "put_value ts \<equiv> \<lambda>(name, v) row. case column_index ts name of None \<Rightarrow> row | Some i \<Rightarrow> row[i := v]"

lemma fold_put_other:
  assumes "column_index ts name = Some i" and "name \<notin> fst ` set nvs"
  shows "fold (put_value ts) nvs row ! i = row ! i"
  using assms(2)
proof (induction nvs arbitrary: row)
  case (Cons nv nvs)
  obtain n v where nv: "nv = (n, v)" by fastforce
  have "put_value ts nv row ! i = row ! i"
  proof (cases "column_index ts n")
    case (Some j)
    then have "j \<noteq> i" using Cons.prems nv column_index_bound [OF assms(1)] column_index_bound [OF Some] by auto
    with Some nv show ?thesis by simp
  qed (simp add: nv)
  with Cons nv show ?case by simp
qed simp

lemma build_row_nth:
  assumes "distinct (map fst nvs)" and "(name, v) \<in> set nvs" and i: "column_index ts name = Some i"
  shows "build_row ts nvs ! i = v"
proof -
  have "i < length row \<Longrightarrow> fold (put_value ts) nvs row ! i = v" for row
    using assms(1,2)
  proof (induction nvs arbitrary: row)
    case (Cons nv nvs)
    obtain n w where nv: "nv = (n, w)" by fastforce
    show ?case
    proof (cases "(name, v) = nv")
      case True
      then have "name \<notin> fst ` set nvs" using Cons.prems(2) nv by auto
      from fold_put_other [OF i this] True Cons.prems(1) nv i show ?thesis by simp
    next
      case False
      have "i < length (put_value ts nv row)" using Cons.prems(1) nv by (simp split: option.split)
      moreover have "(name, v) \<in> set nvs" "distinct (map fst nvs)" using Cons.prems False by auto
      ultimately have "fold (put_value ts) nvs (put_value ts nv row) ! i = v" by (intro Cons.IH)
      then show ?thesis by simp
    qed
  qed simp
  moreover have "i < length (ts_columns ts)" using column_index_bound [OF i] by simp
  ultimately show ?thesis by (simp add: build_row_def)
qed

definition value_fits :: "column \<Rightarrow> sql_value \<Rightarrow> bool" where
  "value_fits col v \<longleftrightarrow> (col_not_null col \<longrightarrow> v \<noteq> VNull) \<and>
     (case col_data_type col of DtVector dim \<Rightarrow> v = VNull \<or> (\<exists>xs. v = VVector xs \<and> length xs = dim) | _ \<Rightarrow> True)"

lemma find_column: "column_index ts name = Some i \<Longrightarrow> List.find (\<lambda>c. col_name c = name) (ts_columns ts) = Some (ts_columns ts ! i)"
  unfolding column_index_def by (rule position_find)

lemma check_values_fits:
  assumes "check_values ts nvs = Inr ()" and "(name, v) \<in> set nvs" and "column_index ts name = Some i"
  shows "value_fits (ts_columns ts ! i) v"
  using assms(1,2)
proof (induction nvs)
  case (Cons nv nvs)
  obtain n w where nv: "nv = (n, w)" by fastforce
  have rest: "check_values ts nvs = Inr ()"
    using Cons.prems(1) nv by (auto split: option.splits if_splits data_type.splits sql_value.splits)
  show ?case
  proof (cases "(name, v) = nv")
    case True
    with Cons.prems(1) nv find_column [OF assms(3)] show ?thesis
      by (auto simp: value_fits_def split: if_splits data_type.splits sql_value.splits)
  next
    case False
    with Cons rest show ?thesis by auto
  qed
qed simp

lemma insert_row_parts:
  assumes "insert_row_for ts columns values = Inr (key, row)"
  defines "names \<equiv> case columns of Some cols \<Rightarrow> cols | None \<Rightarrow> map col_name (ts_columns ts)"
  obtains pk j where "length names = length values" and "position col_primary_key (ts_columns ts) = Some pk"
    and "position (\<lambda>c. c = col_name (ts_columns ts ! pk)) names = Some j" and "values ! j = VInteger key"
    and "check_values ts (zip names values) = Inr ()" and "row = build_row ts (zip names values)"
  using assms(1) unfolding insert_row_for_def names_def [symmetric] Let_def
  by (auto simp: rbind_eq_Inr index_or_def as_integer_def split: if_splits option.splits sql_value.splits intro: that)

lemma insert_row_typed:
  assumes ins: "insert_row_for ts columns values = Inr (key, row)" and d: "distinct (map col_name (ts_columns ts))"
  defines "names \<equiv> case columns of Some cols \<Rightarrow> cols | None \<Rightarrow> map col_name (ts_columns ts)"
  assumes dn: "distinct names"
  shows "length row = length (ts_columns ts)"
    and "\<exists>pk. position col_primary_key (ts_columns ts) = Some pk \<and> row ! pk = VInteger key"
    and "\<And>name i. name \<in> set names \<Longrightarrow> column_index ts name = Some i \<Longrightarrow> value_fits (ts_columns ts ! i) (row ! i)"
proof -
  obtain pk j where p: "length names = length values" "position col_primary_key (ts_columns ts) = Some pk"
    "position (\<lambda>c. c = col_name (ts_columns ts ! pk)) names = Some j" "values ! j = VInteger key"
    "check_values ts (zip names values) = Inr ()" "row = build_row ts (zip names values)"
    using insert_row_parts [OF ins] unfolding names_def by metis
  let ?nvs = "zip names values"
  have dz: "distinct (map fst ?nvs)" using dn p(1) by simp
  show "length row = length (ts_columns ts)" by (simp add: p(6) length_build_row)
  have pk: "pk < length (ts_columns ts)" using position_Some [OF p(2)] by simp
  have j: "j < length names" "names ! j = col_name (ts_columns ts ! pk)" using position_Some [OF p(3)] by simp_all
  have ci: "column_index ts (names ! j) = Some pk"
  proof -
    obtain i where i: "column_index ts (names ! j) = Some i"
      using pk j(2) by (cases "column_index ts (names ! j)") (auto simp: column_index_def position_None)
    from column_index_bound [OF i] j(2) pk d have "i = pk" by (metis length_map nth_eq_iff_index_eq nth_map)
    with i show ?thesis by simp
  qed
  have "(names ! j, VInteger key) \<in> set ?nvs" using j(1) p(1,4) by (metis in_set_zip fst_conv snd_conv)
  from build_row_nth [OF dz this ci] p(2,6) show "\<exists>pk. position col_primary_key (ts_columns ts) = Some pk \<and> row ! pk = VInteger key" by auto
  fix name i assume n: "name \<in> set names" and i: "column_index ts name = Some i"
  then obtain v where v: "(name, v) \<in> set ?nvs" using p(1) by (metis in_set_impl_in_set_zip1)
  from build_row_nth [OF dz v i] check_values_fits [OF p(5) v i] show "value_fits (ts_columns ts ! i) (row ! i)" by (simp add: p(6))
qed

end
