(* ===== verification/TableStore.thy ===== *)
theory TableStore
  imports BTreeTheorems Database RowChecks
begin

text \<open>
  The tables of a database as lists of rows. \<open>store\<close> says that the trees of all tables stand on pages of
  their own and hold the given rows; it is what an operation on one table keeps of all the others.
\<close>

section \<open>Trees of one page view\<close>

definition tree_shown :: "(nat \<Rightarrow> bytes option) \<Rightarrow> nat \<Rightarrow> tree \<Rightarrow> nat \<Rightarrow> (i64 \<times> row) list \<Rightarrow> bool" where
  "tree_shown v root t h rows \<longleftrightarrow>
     tree_at v 0 t \<and> ids_ok (ids t) \<and> ordered (blocks t) \<and> root = root_id t \<and> height t \<le> h \<and> balanced t
     \<and> entries t = map encode_entry rows \<and> list_all (\<lambda>r. row_ok (snd r)) rows"

definition store ::
    "(nat \<Rightarrow> bytes option) \<Rightarrow> (string, nat) fmap \<Rightarrow> (string \<Rightarrow> tree) \<Rightarrow> nat \<Rightarrow> (string, (i64 \<times> row) list) fmap \<Rightarrow> bool" where
  "store v roots T h data \<longleftrightarrow> v 0 \<noteq> None \<and> v 1 \<noteq> None \<and> fmdom roots = fmdom data
     \<and> (\<forall>n root rows. fmlookup roots n = Some root \<longrightarrow> fmlookup data n = Some rows \<longrightarrow>
          tree_shown v root (T n) h rows \<and> 1 \<notin> set (ids (T n)))
     \<and> (\<forall>n m. n |\<in>| fmdom data \<longrightarrow> m |\<in>| fmdom data \<longrightarrow> n \<noteq> m \<longrightarrow> set (ids (T n)) \<inter> set (ids (T m)) = {})"

lemma tree_shown_mono: "tree_shown v root t h rows \<Longrightarrow> h \<le> h' \<Longrightarrow> tree_shown v root t h' rows"
  by (simp add: tree_shown_def)

lemma tree_shown_cong:
  "(\<And>i. i \<in> set (ids t) \<Longrightarrow> v i = w i) \<Longrightarrow> tree_shown v root t h rows = tree_shown w root t h rows"
  using tree_at_cong [of t v w 0] by (simp add: tree_shown_def)

lemma tree_shown_pages: "tree_shown v root t h rows \<Longrightarrow> i \<in> set (ids t) \<Longrightarrow> v i \<noteq> None"
proof -
  have "tree_at v par t \<Longrightarrow> i \<in> set (ids t) \<Longrightarrow> v i \<noteq> None" for par
  proof (induction t arbitrary: par)
    case (TNode p u kts)
    from TNode.prems(2) consider "i = p" | "i \<in> set (ids u)" | k w where "(k, w) \<in> set kts" "i \<in> set (ids w)"
      by (auto simp: sub_ids_def)
    then show ?case using TNode.prems(1) TNode.IH by cases fastforce+
  qed auto
  then show "tree_shown v root t h rows \<Longrightarrow> i \<in> set (ids t) \<Longrightarrow> ?thesis" unfolding tree_shown_def by blast
qed

lemma storeD:
  assumes "store v roots T h data" and "fmlookup data n = Some rows"
  obtains root where "fmlookup roots n = Some root" and "tree_shown v root (T n) h rows" and "1 \<notin> set (ids (T n))"
proof -
  have "n |\<in>| fmdom roots" using assms by (auto simp: store_def fmdomI)
  then obtain root where "fmlookup roots n = Some root" by (meson fmdomE)
  with assms show ?thesis by (auto simp: store_def intro: that)
qed

text \<open>One table changes, on its own pages and new ones; the others stay.\<close>

lemma store_update:
  assumes st: "store v roots T h data" and n: "fmlookup data n = Some rows" and h: "h \<le> h'"
    and new: "tree_shown v' root' t' h' rows'"
    and touch: "\<And>i. i \<in> set (ids t') \<Longrightarrow> i \<in> set (ids (T n)) \<or> v i = None"
    and same: "\<And>i. i \<notin> set (ids t') \<Longrightarrow> i \<notin> set (ids (T n)) \<Longrightarrow> v i \<noteq> None \<Longrightarrow> v' i = v i" and ex: "\<And>i. v i \<noteq> None \<Longrightarrow> v' i \<noteq> None"
  shows "store v' (fmupd n root' roots) (T(n := t')) h' (fmupd n rows' data)"
proof -
  have disj: "set (ids t') \<inter> set (ids (T m)) = {}" if m: "fmlookup data m = Some ws" "m \<noteq> n" for m ws
  proof -
    obtain root where "tree_shown v root (T m) h ws" by (rule storeD [OF st m(1)])
    then have "v i \<noteq> None" if "i \<in> set (ids (T m))" for i using that by (rule tree_shown_pages)
    moreover have "set (ids (T n)) \<inter> set (ids (T m)) = {}" using st m n by (auto simp: store_def fmdomI)
    ultimately show ?thesis using touch by fastforce
  qed
  have others: "tree_shown v' root (T m) h' ws" if m: "fmlookup data m = Some ws" "m \<noteq> n" "fmlookup roots m = Some root" for m ws root
  proof -
    have "tree_shown v root (T m) h ws" using st m by (simp add: store_def)
    moreover have "set (ids (T n)) \<inter> set (ids (T m)) = {}" using st m n by (auto simp: store_def fmdomI)
    then have "v i = v' i" if "i \<in> set (ids (T m))" for i
      using same [of i] disj [OF m(1,2)] that tree_shown_pages [OF \<open>tree_shown v root (T m) h ws\<close> that] by (metis disjoint_iff)
    ultimately show ?thesis using tree_shown_cong [of "T m" v v'] tree_shown_mono [OF _ h] by blast
  qed
  have one: "1 \<notin> set (ids t')"
  proof
    assume "1 \<in> set (ids t')"
    moreover have "v 1 \<noteq> None" using st by (simp add: store_def)
    moreover obtain root where "1 \<notin> set (ids (T n))" by (rule storeD [OF st n])
    ultimately show False using touch [of 1] by metis
  qed
  have dis: "set (ids ((T(n := t')) a)) \<inter> set (ids ((T(n := t')) b)) = {}"
    if ab: "a |\<in>| fmdom (fmupd n rows' data)" "b |\<in>| fmdom (fmupd n rows' data)" "a \<noteq> b" for a b
  proof -
    have dom: "fmdom (fmupd n rows' data) = fmdom data" using n by (auto simp: fmdomI)
    from ab(1,2)[unfolded dom] obtain ra rb where r: "fmlookup data a = Some ra" "fmlookup data b = Some rb" by (meson fmdomE)
    have "set (ids (T a)) \<inter> set (ids (T b)) = {}" using st ab(3) ab(1,2)[unfolded dom] by (simp add: store_def)
    consider "a = n" | "b = n" | "a \<noteq> n" "b \<noteq> n" by blast
    then show ?thesis
    proof cases
      case 1
      then show ?thesis using disj [OF r(2)] ab(3) by simp
    next
      case 2
      then show ?thesis using disj [OF r(1)] ab(3) by (simp add: Int_commute)
    qed (simp add: \<open>set (ids (T a)) \<inter> set (ids (T b)) = {}\<close>)
  qed
  have base: "v' 0 \<noteq> None" "v' 1 \<noteq> None" "fmdom roots = fmdom data" using st ex by (auto simp: store_def)
  have shown: "tree_shown v' root ((T(n := t')) m) h' ws \<and> 1 \<notin> set (ids ((T(n := t')) m))"
    if "fmlookup (fmupd n root' roots) m = Some root" "fmlookup (fmupd n rows' data) m = Some ws" for m root ws
  proof (cases "m = n")
    case False
    then have "fmlookup roots m = Some root" "fmlookup data m = Some ws" using that by simp_all
    with False others [of m ws root] st show ?thesis by (simp add: store_def)
  qed (use that new one in simp)
  show ?thesis unfolding store_def using base shown dis by simp
qed

lemma store_same_pages: "store v roots T h data \<Longrightarrow> w = v \<Longrightarrow> h \<le> h' \<Longrightarrow> store w roots T h' data"
  using tree_shown_mono by (fastforce simp: store_def)

lemma store_page_one:
  assumes "store v roots T h data"
  shows "store (v(1 \<mapsto> x)) roots T h data"
proof -
  have "tree_shown (v(1 \<mapsto> x)) root t h rows" if "tree_shown v root t h rows" "1 \<notin> set (ids t)" for root t rows
  proof -
    have "(v(1 \<mapsto> x)) i = v i" if "i \<in> set (ids t)" for i using that \<open>1 \<notin> set (ids t)\<close> by (metis fun_upd_apply)
    then have "tree_shown (v(1 \<mapsto> x)) root t h rows = tree_shown v root t h rows" by (rule tree_shown_cong)
    with that(1) show ?thesis by blast
  qed
  with assms show ?thesis by (auto simp: store_def)
qed

section \<open>Work on one tree\<close>

text \<open>\<open>kept\<close>: only the cache changed.\<close>

definition kept :: "(bytes \<Rightarrow> 32 word) \<Rightarrow> pager btree \<Rightarrow> pager btree \<Rightarrow> bool" where
  "kept crc bt bt' \<longleftrightarrow> root_page bt' = root_page bt \<and> at_group crc (active_group (bt_pager bt)) (bt_pager bt')
     \<and> page_view (bt_pager bt') = page_view (bt_pager bt) \<and> page_room (bt_pager bt') = page_room (bt_pager bt)"

definition table_at :: "(bytes \<Rightarrow> 32 word) \<Rightarrow> pager btree \<Rightarrow> tree \<Rightarrow> nat \<Rightarrow> (i64 \<times> row) list \<Rightarrow> bool" where
  "table_at crc bt t h rows \<longleftrightarrow> pager_inv crc (bt_pager bt) \<and> page_view (bt_pager bt) 0 \<noteq> None
     \<and> tree_shown (page_view (bt_pager bt)) (root_page bt) t h rows"

lemma kept_refl: "pager_inv crc (bt_pager bt) \<Longrightarrow> kept crc bt bt"
  by (simp add: kept_def at_group_def)

lemma kept_trans: "kept crc a b \<Longrightarrow> kept crc b c \<Longrightarrow> kept crc a c"
  by (auto simp: kept_def at_group_def)

lemma kept_table: "kept crc bt bt' \<Longrightarrow> table_at crc bt t h rows \<Longrightarrow> table_at crc bt' t h rows"
  by (simp add: kept_def table_at_def at_group_def)

lemma table_at_holds:
  assumes "table_at crc bt t h rows"
  shows "rio.holds crc (active_group (bt_pager bt)) (bt_pager bt) t" and "root_page bt = root_id t" and "height t \<le> h"
    and "entries t = map encode_entry rows" and "list_all (\<lambda>r. row_ok (snd r)) rows" and "balanced t"
  using assms by (simp_all add: table_at_def tree_shown_def rio.holds_def at_group_def)

lemma search_at:
  assumes at: "table_at crc bt t h rows" and "h \<le> fuel"
  obtains bt' where "btree_search (pager_ops crc pick io) fuel key bt = (Inr (map_option stored_row (map_of rows key)), bt')"
    and "kept crc bt bt'"
proof -
  note t = table_at_holds [OF at]
  have hf: "height t \<le> fuel" using t(3) assms(2) by simp
  from rio.btree_search_ok [OF t(1,2) hf, of pick io key] obtain s' where
    s: "btree_search (pager_ops crc pick io) fuel key bt = ((case map_of (entries t) key of None \<Rightarrow> Inr None
        | Some d \<Rightarrow> rbind (deserialize_row d) (\<lambda>row. Inr (Some row))), bt\<lparr>bt_pager := s'\<rparr>)"
      "rio.keeps crc (active_group (bt_pager bt)) (bt_pager bt) s'"
    by blast
  have "deserialize_row (serialize_row r) = Inr (stored_row r)" if "map_of rows key = Some r" for r
    using t(5) map_of_SomeD [OF that] by (intro deserialize_serialize_row) (force simp: list_all_iff)
  then have "btree_search (pager_ops crc pick io) fuel key bt = (Inr (map_option stored_row (map_of rows key)), bt\<lparr>bt_pager := s'\<rparr>)"
    by (simp add: s(1) t(4) encode_lookup split: option.split)
  moreover have "kept crc bt (bt\<lparr>bt_pager := s'\<rparr>)" using s(2) by (simp add: kept_def rio.keeps_def)
  ultimately show thesis by (rule that)
qed

lemma scan_at:
  assumes at: "table_at crc bt t h rows" and "h \<le> fuel"
  obtains bt' where "btree_scan (pager_ops crc pick io) fuel bt = (Inr (map as_stored rows), bt')" and "kept crc bt bt'"
proof -
  note t = table_at_holds [OF at]
  have hf: "height t \<le> fuel" using t(3) assms(2) by simp
  have "list_all2 decodes_to (entries t) (map as_stored rows)" using decode_entries [OF t(5)] by (simp add: t(4))
  from rio.btree_scan_ok [OF t(1,2) hf this, of pick io] obtain s' where
    s: "btree_scan (pager_ops crc pick io) fuel bt = (Inr (map as_stored rows), bt\<lparr>bt_pager := s'\<rparr>)"
      "rio.keeps crc (active_group (bt_pager bt)) (bt_pager bt) s'"
    by blast
  have "kept crc bt (bt\<lparr>bt_pager := s'\<rparr>)" using s(2) by (simp add: kept_def rio.keeps_def)
  with s(1) show thesis by (rule that)
qed

text \<open>\<open>reshaped bt t bt' t'\<close>: the tree became \<open>t'\<close>, on its own pages and on pages that did not exist;
  no other page that existed changed.\<close>

definition reshaped :: "nat \<Rightarrow> pager btree \<Rightarrow> tree \<Rightarrow> pager btree \<Rightarrow> tree \<Rightarrow> bool" where
  "reshaped n bt t bt' t' \<longleftrightarrow>
     (\<forall>i\<in>set (ids t'). i \<in> set (ids t) \<or> page_view (bt_pager bt) i = None)
     \<and> (\<forall>i. i \<notin> set (ids t') \<longrightarrow> i \<notin> set (ids t) \<longrightarrow> page_view (bt_pager bt) i \<noteq> None \<longrightarrow>
          page_view (bt_pager bt') i = page_view (bt_pager bt) i)
     \<and> (\<forall>i. page_view (bt_pager bt) i \<noteq> None \<longrightarrow> page_view (bt_pager bt') i \<noteq> None)
     \<and> page_room (bt_pager bt) \<le> page_room (bt_pager bt') + n"

lemma small_leaf:
  assumes "tree_at v par t" and "entries t = map encode_entry rows" and "leaf_of t key es"
    and small: "list_all (\<lambda>r. length (serialize_row (snd r)) \<le> 164) ((key, row) # rows)"
  shows "one_split key (serialize_row row) es"
proof (rule small_one_split)
  show "\<forall>e\<in>set es. 4 \<le> length (snd e) \<and> length (snd e) \<le> 164"
    using leaf_of_entries(1) [OF assms(3,1)] small by (fastforce simp: assms(2) encode_entry_def list_all_iff length_serialize_row)
  show "HEADER_SIZE + entries_len es \<le> page_size" by (rule leaf_of_entries(2) [OF assms(3,1)])
qed (use small in simp)

text \<open>A tree of one leaf stays one as long as the new row fits on its page.\<close>

definition grown_height :: "nat \<Rightarrow> (i64 \<times> row) list \<Rightarrow> row \<Rightarrow> nat" where
  "grown_height h rows row = (if h = 1 \<and> fits_leaf (serialize_row row) (map encode_entry rows) then 1 else Suc h)"

lemma grown_height_ge: "h \<le> grown_height h rows row"
  by (simp add: grown_height_def)

lemma insert_at:
  assumes at: "table_at crc bt t h rows" and g: "active_group (bt_pager bt) \<noteq> None"
    and new: "key \<notin> fst ` set rows" and ok: "row_ok row"
    and small: "list_all (\<lambda>r. length (serialize_row (snd r)) \<le> 164) ((key, row) # rows)"
    and room: "h < page_room (bt_pager bt)" and fuel: "3 * h \<le> fuel"
  obtains bt' t' where "btree_insert (pager_ops crc pick io) fuel key row bt = (Inr (), bt')"
    and "table_at crc bt' t' (grown_height h rows row) (insert_row key row rows)" and "active_group (bt_pager bt') \<noteq> None"
    and "reshaped (Suc h) bt t bt' t'"
proof -
  note t = table_at_holds [OF at]
  have holds: "pio.holds crc (bt_pager bt) t" using t(1) g by (simp add: rio.holds_def pio.holds_def at_group_def writing_def)
  have look: "map_of (entries t) key = None" using new by (simp add: t(4) encode_lookup map_of_eq_None_iff)
  have tat: "tree_at (page_view (bt_pager bt)) 0 t" using holds by (simp add: pio.holds_def)
  have one: "one_split key (serialize_row row) es" if "leaf_of t key es" for es
    by (rule small_leaf [OF tat t(4) that small])
  have b: "height t < page_room (bt_pager bt)" "3 * height t \<le> fuel" using t(3) room fuel by simp_all
  from pio.btree_insert_ok [OF holds t(2) look one b, of pick io] obtain bt' t' where
    r: "btree_insert (pager_ops crc pick io) fuel key row bt = (Inr (), bt')" "pio.holds crc (bt_pager bt') t'"
      "root_page bt' = root_id t'" "entries t' = insert_entry key (serialize_row row) (entries t)" "height t' \<le> Suc (height t)"
    and ch: "pio.changed crc (Suc (height t)) (bt_pager bt) t (bt_pager bt') t'"
    and flat: "(\<forall>es. leaf_of t key es \<longrightarrow> fits_leaf (serialize_row row) es) \<longrightarrow> height t' \<le> height t"
    by blast
  have ht: "height t' \<le> grown_height h rows row"
  proof (cases "h = 1 \<and> fits_leaf (serialize_row row) (map encode_entry rows)")
    case True
    have "0 < height t" by (cases t) simp_all
    then have one: "height t = 1" using True t(3) by simp
    then obtain q es where "t = TLeaf q es" by (rule height_one)
    then have "es' = map encode_entry rows" if "leaf_of t key es'" for es'
      using that t(4) by (auto simp: leaf_of_def entries_def append_eq_Cons_conv Cons_eq_append_conv)
    then have "\<forall>es. leaf_of t key es \<longrightarrow> fits_leaf (serialize_row row) es" using True by blast
    with flat True one show ?thesis by (simp add: grown_height_def)
  qed (use r(5) t(3) in \<open>auto simp: grown_height_def\<close>)
  have "table_at crc bt' t' (grown_height h rows row) (insert_row key row rows)"
    using r(2-4) ht t(6) ch row_ok_insert [OF t(5) ok]
    by (simp add: table_at_def tree_shown_def pio.holds_def pio.changed_def writing_def t(4) encode_insert)
  moreover have "active_group (bt_pager bt') \<noteq> None" using r(2) by (simp add: pio.holds_def writing_def)
  moreover have "reshaped (Suc h) bt t bt' t'" using ch t(3) by (simp add: pio.changed_def pio.steps_def reshaped_def)
  ultimately show thesis using r(1) by (intro that)
qed

end
