(* ===== verification/TableOps.thy ===== *)
theory TableOps
  imports TableStore
begin

text \<open>
  The statements' work on one table: the rows a WHERE clause selects, whether looked up by primary key or
  scanned, and the checked insertion.
\<close>

section \<open>Rows under their primary key\<close>

definition keyed :: "table_schema \<Rightarrow> (i64 \<times> row) list \<Rightarrow> bool" where
  "keyed ts rows \<longleftrightarrow> distinct (map fst rows) \<and> (\<exists>pk. position col_primary_key (ts_columns ts) = Some pk
     \<and> (\<forall>(k, row)\<in>set rows. length row = length (ts_columns ts) \<and> row ! pk = VInteger k))"

lemma keyed_wide: "keyed ts rows \<Longrightarrow> \<forall>(k, row)\<in>set rows. wide_enough ts row"
  by (auto simp: keyed_def wide_enough_def)

lemma keyed_stored: "keyed ts rows \<Longrightarrow> keyed ts (map as_stored rows)"
proof -
  assume "keyed ts rows"
  then obtain pk where d: "distinct (map fst rows)" and pk: "position col_primary_key (ts_columns ts) = Some pk"
    and all: "\<And>k row. (k, row) \<in> set rows \<Longrightarrow> length row = length (ts_columns ts) \<and> row ! pk = VInteger k"
    by (auto simp: keyed_def)
  have "pk < length (ts_columns ts)" using position_Some [OF pk] by simp
  then have "length (stored_row row) = length (ts_columns ts) \<and> stored_row row ! pk = VInteger k" if "(k, row) \<in> set rows" for k row
    using all [OF that] by (simp add: stored_value_def)
  then show "keyed ts (map as_stored rows)"
    using d pk by (auto simp: keyed_def as_stored_def comp_def)
qed

lemma map_of_stored: "map_of (map as_stored rows) key = map_option stored_row (map_of rows key)"
  by (induction rows) (auto simp: as_stored_def)

section \<open>Lookup by primary key\<close>

definition candidates :: "where_clause option \<Rightarrow> table_schema \<Rightarrow> (i64 \<times> row) list \<Rightarrow> (i64 \<times> row) list" where
  "candidates wc ts rows =
     (case Option.bind wc (\<lambda>cs. Option.bind (primary_key_name ts) (\<lambda>pk. pk_condition pk cs)) of
        Some key \<Rightarrow> (case map_of rows key of None \<Rightarrow> [] | Some row \<Rightarrow> [(key, row)])
      | None \<Rightarrow> rows)"

lemma pk_condition_Some:
  "pk_condition pk cs = Some key \<Longrightarrow> \<exists>c\<in>set cs. cond_operator c = OpEqual \<and> cond_column c = pk \<and> cond_value c = VInteger key"
  by (induction cs) (auto split: sql_value.splits if_splits)

lemma filter_key:
  assumes "distinct (map fst rows)" and "\<And>r. r \<in> set rows \<Longrightarrow> P r \<Longrightarrow> fst r = key"
  shows "filter P rows = filter P (case map_of rows key of None \<Rightarrow> [] | Some row \<Rightarrow> [(key, row)])"
  using assms
proof (induction rows)
  case (Cons r rows)
  obtain k row where r: "r = (k, row)" by fastforce
  show ?case
  proof (cases "k = key")
    case True
    then have "\<not> P s" if "s \<in> set rows" for s using Cons.prems that r by (metis distinct.simps(2) fst_conv image_eqI list.set_intros(2) list.simps(9) set_map)
    then have "filter P rows = []" by (simp add: filter_empty_conv)
    with True r show ?thesis by simp
  next
    case False
    then have "\<not> P r" using Cons.prems(2) [of r] r by auto
    with False r Cons show ?thesis by simp
  qed
qed simp

lemma candidates_matching:
  assumes k: "keyed ts rows" and d: "distinct (map col_name (ts_columns ts))"
  shows "matching_rows rx ts wc (candidates wc ts rows) = matching_rows rx ts wc rows"
proof (cases "Option.bind wc (\<lambda>cs. Option.bind (primary_key_name ts) (\<lambda>pk. pk_condition pk cs))")
  case (Some key)
  from k obtain pk where dk: "distinct (map fst rows)" and pk: "position col_primary_key (ts_columns ts) = Some pk"
    and row_pk: "\<And>k row. (k, row) \<in> set rows \<Longrightarrow> row ! pk = VInteger k"
    by (auto simp: keyed_def)
  have "primary_key_name ts = Some (col_name (ts_columns ts ! pk))"
    by (simp add: primary_key_name_def position_find [OF pk])
  with Some obtain cs where wc: "wc = Some cs" and "pk_condition (col_name (ts_columns ts ! pk)) cs = Some key"
    by (auto split: bind_splits)
  then obtain c where c: "c \<in> set cs" "cond_operator c = OpEqual" "cond_column c = col_name (ts_columns ts ! pk)"
    "cond_value c = VInteger key"
    using pk_condition_Some by blast
  let ?P = "\<lambda>(k, row). evaluate_where_clause rx ts row cs = Inr True"
  have only: "fst r = key" if r: "r \<in> set rows" "?P r" for r
  proof -
    obtain k row where kr: "r = (k, row)" by fastforce
    then have "evaluate_where_clause rx ts row cs = Inr True" using r(2) by simp
    then obtain i where i: "column_index ts (cond_column c) = Some i"
      "evaluate rx (cond_operator c) (row ! i) (cond_value c) = Inr True"
      by (rule where_condition [OF _ c(1)])
    from column_index_bound [OF i(1)] c(3) d position_Some [OF pk] have "i = pk"
      by (metis length_map nth_eq_iff_index_eq nth_map)
    then have "row ! i = VInteger k" using row_pk r(1) kr by simp
    with i(2) c(2,4) kr show ?thesis by (simp add: evaluate_def operator_holds_def cmp_int_def split: if_splits)
  qed
  have sub: "set (candidates wc ts rows) \<subseteq> set rows"
    using Some map_of_SomeD [of rows key] by (cases "map_of rows key") (simp_all add: candidates_def)
  have w: "\<forall>(k, row)\<in>set rows. wide_enough ts row" "\<forall>(k, row)\<in>set (candidates wc ts rows). wide_enough ts row"
    using keyed_wide [OF k] sub by auto
  have "filter ?P (candidates wc ts rows) = filter ?P rows"
    using filter_key [OF dk only, where P = ?P] Some by (simp add: candidates_def)
  with filter_rows_spec [OF w(1)] filter_rows_spec [OF w(2)] wc show ?thesis by (simp add: matching_rows_def)
qed (simp add: candidates_def)

lemma candidate_rows_at:
  assumes at: "table_at crc bt t h rows" and "h \<le> fuel"
  obtains bt' where "candidate_rows (pager_ops crc pick io) fuel wc ts bt = (Inr (candidates wc ts (map as_stored rows)), bt')"
    and "kept crc bt bt'"
proof (cases "Option.bind wc (\<lambda>cs. Option.bind (primary_key_name ts) (\<lambda>pk. pk_condition pk cs))")
  case None
  obtain bt' where "btree_scan (pager_ops crc pick io) fuel bt = (Inr (map as_stored rows), bt')" "kept crc bt bt'"
    by (rule scan_at [OF assms])
  with None show thesis by (intro that) (simp_all add: candidate_rows_def candidates_def)
next
  case (Some key)
  obtain bt' where "btree_search (pager_ops crc pick io) fuel key bt = (Inr (map_option stored_row (map_of rows key)), bt')" "kept crc bt bt'"
    by (rule search_at [OF assms])
  with Some show thesis
    by (intro that) (simp_all add: candidate_rows_def candidates_def mbind_def mret_def map_of_stored option.case_eq_if option.map_sel)
qed

section \<open>Checked insertion\<close>

text \<open>Another row has the same value, not NULL, in a UNIQUE column.\<close>

definition unique_clash :: "(f32 list \<Rightarrow> string) \<Rightarrow> table_schema \<Rightarrow> row \<Rightarrow> (i64 \<times> row) list \<Rightarrow> bool" where
  "unique_clash fmt ts row rows \<longleftrightarrow> (\<exists>(k, old)\<in>set rows. \<exists>ci\<in>set (unique_columns ts). ci < length row \<and> ci < length old
     \<and> row ! ci \<noteq> VNull \<and> old ! ci \<noteq> VNull \<and> compare_values fmt (old ! ci) (row ! ci) = Equal)"

lemma check_insert_unique_at:
  assumes at: "table_at (en_crc en) bt t h rows" and "h \<le> en_fuel en"
  obtains bt' where "check_insert_unique en ts row bt =
      (if unique_clash (en_fmt en) ts row (map as_stored rows) then Inl (Error ConstraintViolation) else Inr (), bt')"
    and "kept (en_crc en) bt bt'"
proof -
  let ?cols = "filter (\<lambda>ci. get_value row ci \<noteq> None \<and> get_value row ci \<noteq> Some VNull) (unique_columns ts)"
  let ?rows = "map as_stored rows"
  have cols: "ci \<in> set ?cols \<longleftrightarrow> ci \<in> set (unique_columns ts) \<and> ci < length row \<and> row ! ci \<noteq> VNull" for ci
    by (auto simp: get_value_def)
  have clash: "list_ex (\<lambda>(_, existing). list_ex (clashes (en_fmt en) row existing) ?cols) ?rows \<longleftrightarrow> unique_clash (en_fmt en) ts row ?rows"
  proof -
    have "list_ex (clashes (en_fmt en) row old) ?cols \<longleftrightarrow> (\<exists>ci\<in>set (unique_columns ts). ci < length row \<and> ci < length old
        \<and> row ! ci \<noteq> VNull \<and> old ! ci \<noteq> VNull \<and> compare_values (en_fmt en) (old ! ci) (row ! ci) = Equal)" for old
      unfolding list_ex_iff Bex_def cols by (auto simp: clashes_def get_value_def)
    then show ?thesis by (simp add: list_ex_iff unique_clash_def)
  qed
  show thesis
  proof (cases "?cols = []")
    case True
    then have "\<not> unique_clash (en_fmt en) ts row ?rows" using cols unfolding unique_clash_def by fastforce
    moreover have "kept (en_crc en) bt bt" using at by (intro kept_refl) (simp add: table_at_def)
    ultimately show thesis using True by (intro that [of bt]) (simp_all add: check_insert_unique_def Let_def mret_def)
  next
    case False
    obtain bt' where s: "btree_scan (en_ops en) (en_fuel en) bt = (Inr ?rows, bt')" "kept (en_crc en) bt bt'"
      by (rule scan_at [OF assms])
    have "check_insert_unique en ts row bt =
        (if unique_clash (en_fmt en) ts row ?rows then Inl (Error ConstraintViolation) else Inr (), bt')"
      unfolding check_insert_unique_def Let_def if_not_P [OF False] by (simp only: mbind_def s(1) prod.case sum.case clash) (simp add: mfail_def mret_def)
    then show thesis using s(2) by (rule that)
  qed
qed

lemma insert_checked_refuses:
  assumes at: "table_at (en_crc en) bt t h rows" and "h \<le> en_fuel en"
    and bad: "key \<in> fst ` set rows \<or> unique_clash (en_fmt en) ts row (map as_stored rows)"
  obtains bt' where "insert_checked en ts key row bt = (Inl (Error ConstraintViolation), bt')" and "kept (en_crc en) bt bt'"
proof -
  obtain bt1 where s: "btree_search (en_ops en) (en_fuel en) key bt = (Inr (map_option stored_row (map_of rows key)), bt1)"
    "kept (en_crc en) bt bt1"
    by (rule search_at [OF assms(1,2)])
  show thesis
  proof (cases "map_of rows key")
    case (Some r)
    then show thesis using s by (intro that [of bt1]) (simp_all add: insert_checked_def mbind_def mfail_def)
  next
    case None
    then have clash: "unique_clash (en_fmt en) ts row (map as_stored rows)" using bad by (simp add: map_of_eq_None_iff)
    obtain bt2 where "check_insert_unique en ts row bt1 =
        (if unique_clash (en_fmt en) ts row (map as_stored rows) then Inl (Error ConstraintViolation) else Inr (), bt2)" "kept (en_crc en) bt1 bt2"
      by (rule check_insert_unique_at [OF kept_table [OF s(2) at] assms(2)])
    with clash None s kept_trans [OF s(2)] show thesis by (intro that [of bt2]) (simp_all add: insert_checked_def mbind_def)
  qed
qed

lemma reshaped_kept: "kept crc a b \<Longrightarrow> reshaped n b t c t' \<Longrightarrow> reshaped n a t c t'"
  by (simp add: reshaped_def kept_def)

lemma reshaped_trans:
  assumes "reshaped n a t b u" and "reshaped m b u c w"
  shows "reshaped (n + m) a t c w"
  using assms unfolding reshaped_def by (intro conjI) (metis, metis, metis, linarith)

lemma insert_checked_ok:
  assumes at: "table_at (en_crc en) bt t h rows" and g: "active_group (bt_pager bt) \<noteq> None"
    and new: "key \<notin> fst ` set rows" and uniq: "\<not> unique_clash (en_fmt en) ts row (map as_stored rows)" and ok: "row_ok row"
    and small: "list_all (\<lambda>r. length (serialize_row (snd r)) \<le> 164) ((key, row) # rows)"
    and room: "h < page_room (bt_pager bt)" and fuel: "3 * h \<le> en_fuel en"
  obtains bt' t' where "insert_checked en ts key row bt = (Inr (), bt')"
    and "table_at (en_crc en) bt' t' (grown_height h rows row) (insert_row key row rows)" and "active_group (bt_pager bt') \<noteq> None"
    and "reshaped (Suc h) bt t bt' t'"
proof -
  have hf: "h \<le> en_fuel en" using fuel by simp
  obtain bt1 where s: "btree_search (en_ops en) (en_fuel en) key bt = (Inr (map_option stored_row (map_of rows key)), bt1)"
    "kept (en_crc en) bt bt1"
    by (rule search_at [OF at hf])
  obtain bt2 where u: "check_insert_unique en ts row bt1 =
      (if unique_clash (en_fmt en) ts row (map as_stored rows) then Inl (Error ConstraintViolation) else Inr (), bt2)" "kept (en_crc en) bt1 bt2"
    by (rule check_insert_unique_at [OF kept_table [OF s(2) at] hf])
  note k = kept_trans [OF s(2) u(2)]
  have g2: "active_group (bt_pager bt2) \<noteq> None" "h < page_room (bt_pager bt2)" using k g room by (simp_all add: kept_def at_group_def)
  obtain bt' t' where i: "btree_insert (en_ops en) (en_fuel en) key row bt2 = (Inr (), bt')"
    "table_at (en_crc en) bt' t' (grown_height h rows row) (insert_row key row rows)" "active_group (bt_pager bt') \<noteq> None" "reshaped (Suc h) bt2 t bt' t'"
    by (rule insert_at [OF kept_table [OF k at] g2(1) new ok small g2(2) fuel])
  have "map_of rows key = None" using new by (simp add: map_of_eq_None_iff)
  then have "insert_checked en ts key row bt = (Inr (), bt')" using s u uniq i(1) by (simp add: insert_checked_def mbind_def)
  then show thesis using i(2,3) reshaped_kept [OF k i(4)] by (rule that)
qed

end
