(* ===== verification/TableSpec.thy ===== *)
theory TableSpec
  imports TableOps
begin

text \<open>
  Statements as operations on the rows of the tables. \<open>tables_ok en db h data\<close> says that the trees of the
  database, of height \<open>h\<close> at most, hold the rows \<open>data\<close>.
\<close>

section \<open>The tables of a database\<close>

definition tables_ok :: "env \<Rightarrow> database \<Rightarrow> nat \<Rightarrow> (string, (i64 \<times> row) list) fmap \<Rightarrow> bool" where
  "tables_ok en db h data \<longleftrightarrow> pager_inv (en_crc en) (ct_pager (db_catalog db))
     \<and> (\<exists>T. store (page_view (ct_pager (db_catalog db))) (ct_btrees (db_catalog db)) T h data)"

abbreviation db_pager :: "database \<Rightarrow> pager" where
  "db_pager db \<equiv> ct_pager (db_catalog db)"

definition with_pager :: "pager \<Rightarrow> database \<Rightarrow> database" where
  "with_pager q db = db\<lparr>db_catalog := (db_catalog db)\<lparr>ct_pager := q\<rparr>\<rparr>"

lemma with_pager_fields [simp]:
  "db_pager (with_pager q db) = q" "ct_btrees (db_catalog (with_pager q db)) = ct_btrees (db_catalog db)"
  "ct_schema (db_catalog (with_pager q db)) = ct_schema (db_catalog db)" "db_cdc (with_pager q db) = db_cdc db"
  "db_txns (with_pager q db) = db_txns db" "ex_locks (with_pager q db) = ex_locks db" "ex_active (with_pager q db) = ex_active db"
  by (simp_all add: with_pager_def)

definition only_read :: "env \<Rightarrow> database \<Rightarrow> database \<Rightarrow> bool" where
  "only_read en db db' \<longleftrightarrow> (\<exists>q. db' = with_pager q db \<and> at_group (en_crc en) (active_group (db_pager db)) q
     \<and> page_view q = page_view (db_pager db) \<and> page_room q = page_room (db_pager db))"

lemma only_read_tables: "only_read en db db' \<Longrightarrow> tables_ok en db h data \<Longrightarrow> tables_ok en db' h data"
  by (auto simp: only_read_def tables_ok_def at_group_def)

lemma fmupd_id: "fmlookup m k = Some v \<Longrightarrow> fmupd k v m = m"
  by (rule fmap_ext) auto

text \<open>Work on the tree of a table of the database.\<close>

lemma table_tree:
  assumes ok: "tables_ok en db h data" and rows: "fmlookup data table = Some rows"
  obtains root T where "fmlookup (ct_btrees (db_catalog db)) table = Some root"
    and "store (page_view (db_pager db)) (ct_btrees (db_catalog db)) T h data"
    and "table_at (en_crc en) \<lparr>root_page = root, bt_pager = db_pager db\<rparr> (T table) h rows"
proof -
  from ok obtain T where inv: "pager_inv (en_crc en) (db_pager db)" and st: "store (page_view (db_pager db)) (ct_btrees (db_catalog db)) T h data"
    by (auto simp: tables_ok_def)
  obtain root where r: "fmlookup (ct_btrees (db_catalog db)) table = Some root"
    "tree_shown (page_view (db_pager db)) root (T table) h rows"
    by (rule storeD [OF st rows])
  have "page_view (db_pager db) 0 \<noteq> None" using st by (simp add: store_def)
  with inv r(2) have "table_at (en_crc en) \<lparr>root_page = root, bt_pager = db_pager db\<rparr> (T table) h rows"
    by (simp add: table_at_def)
  with r(1) st show thesis by (rule that)
qed

lemma on_btree_reads:
  assumes root: "fmlookup (ct_btrees (db_catalog db)) table = Some root"
    and m: "m \<lparr>root_page = root, bt_pager = db_pager db\<rparr> = (r, bt')"
    and k: "kept (en_crc en) \<lparr>root_page = root, bt_pager = db_pager db\<rparr> bt'"
  obtains db' where "on_btree table m db = (r, db')" and "only_read en db db'"
proof -
  have "root_page bt' = root" using k by (simp add: kept_def)
  then have "on_btree table m db = (r, with_pager (bt_pager bt') db)"
    using root m by (cases "db_catalog db") (simp add: on_btree_def on_catalog_def fmupd_id with_pager_def)
  moreover have "only_read en db (with_pager (bt_pager bt') db)" using k unfolding only_read_def by (auto simp: kept_def)
  ultimately show thesis by (rule that)
qed

lemma on_btree_grows:
  assumes st: "store (page_view (db_pager db)) (ct_btrees (db_catalog db)) T h data" and rows: "fmlookup data table = Some rows"
    and root: "fmlookup (ct_btrees (db_catalog db)) table = Some root"
    and m: "m \<lparr>root_page = root, bt_pager = db_pager db\<rparr> = (r, bt')"
    and at: "table_at (en_crc en) bt' t' h' rows'" and h: "h \<le> h'"
    and gr: "reshaped n \<lparr>root_page = root, bt_pager = db_pager db\<rparr> (T table) bt' t'"
  shows "\<exists>db'. on_btree table m db = (r, db') \<and> tables_ok en db' h' (fmupd table rows' data)
     \<and> db_pager db' = bt_pager bt' \<and> ct_btrees (db_catalog db') = fmupd table (root_page bt') (ct_btrees (db_catalog db))
     \<and> page_view (db_pager db') 1 = page_view (db_pager db) 1 \<and> 0 < root_page bt' \<and> root_page bt' < 2 ^ 32
     \<and> ct_schema (db_catalog db') = ct_schema (db_catalog db) \<and> db_cdc db' = db_cdc db \<and> db_txns db' = db_txns db
     \<and> ex_locks db' = ex_locks db \<and> ex_active db' = ex_active db"
proof -
  let ?c = "(db_catalog db)\<lparr>ct_pager := bt_pager bt', ct_btrees := fmupd table (root_page bt') (ct_btrees (db_catalog db))\<rparr>"
  have st': "store (page_view (bt_pager bt')) (fmupd table (root_page bt') (ct_btrees (db_catalog db))) (T(table := t')) h' (fmupd table rows' data)"
    by (rule store_update [OF st rows h]) (use at gr in \<open>auto simp: table_at_def reshaped_def\<close>)
  have "fmlookup (fmupd table rows' data) table = Some rows'" by simp
  then have "1 \<notin> set (ids ((T(table := t')) table))" by (rule storeD [OF st'])
  moreover have "1 \<notin> set (ids (T table))" by (rule storeD [OF st rows])
  moreover have "i \<notin> set (ids t') \<Longrightarrow> i \<notin> set (ids (T table)) \<Longrightarrow> page_view (db_pager db) i \<noteq> None \<Longrightarrow>
      page_view (bt_pager bt') i = page_view (db_pager db) i" for i
    using gr by (simp add: reshaped_def)
  moreover have "page_view (db_pager db) 1 \<noteq> None" using st by (simp add: store_def)
  ultimately have "page_view (bt_pager bt') 1 = page_view (db_pager db) 1" by (simp only: fun_upd_same)
  moreover have "0 < root_page bt'" "root_page bt' < 2 ^ 32"
    using at root_id_in_ids [of t'] by (auto simp: table_at_def tree_shown_def ids_ok_def)
  moreover from st' have "tables_ok en (db\<lparr>db_catalog := ?c\<rparr>) h' (fmupd table rows' data)"
    using at by (auto simp: tables_ok_def table_at_def)
  moreover have "on_btree table m db = (r, db\<lparr>db_catalog := ?c\<rparr>)"
    using root m by (simp add: on_btree_def on_catalog_def)
  ultimately show ?thesis by (intro exI [of _ "db\<lparr>db_catalog := ?c\<rparr>"]) simp
qed

section \<open>SELECT\<close>

lemma select_on_rows:
  assumes ok: "tables_ok en db h data" and rows: "fmlookup data table = Some rows"
    and ts: "fmlookup (ct_schema (db_catalog db)) table = Some ts"
    and k: "keyed ts rows" and d: "distinct (map col_name (ts_columns ts))" and fuel: "h \<le> en_fuel en"
  shows "\<exists>db'. execute_select en table columns wc order limit db =
     (select_rows en ts columns wc order limit (map as_stored rows), db') \<and> only_read en db db'"
proof -
  obtain root T where r: "fmlookup (ct_btrees (db_catalog db)) table = Some root"
    "table_at (en_crc en) \<lparr>root_page = root, bt_pager = db_pager db\<rparr> (T table) h rows"
    by (rule table_tree [OF ok rows])
  obtain bt' where c: "candidate_rows (en_ops en) (en_fuel en) wc ts \<lparr>root_page = root, bt_pager = db_pager db\<rparr> =
      (Inr (candidates wc ts (map as_stored rows)), bt')" "kept (en_crc en) \<lparr>root_page = root, bt_pager = db_pager db\<rparr> bt'"
    by (rule candidate_rows_at [OF r(2) fuel])
  obtain db' where b: "on_btree table (candidate_rows (en_ops en) (en_fuel en) wc ts) db = (Inr (candidates wc ts (map as_stored rows)), db')"
    "only_read en db db'"
    by (rule on_btree_reads [where m = "candidate_rows (en_ops en) (en_fuel en) wc ts", OF r(1) c])
  have "select_rows en ts columns wc order limit (candidates wc ts (map as_stored rows)) =
      select_rows en ts columns wc order limit (map as_stored rows)"
    by (simp add: select_rows_def candidates_matching [OF keyed_stored [OF k] d])
  with b(1) ts have "execute_select en table columns wc order limit db = (select_rows en ts columns wc order limit (map as_stored rows), db')"
    by (simp add: execute_select_def mbind_def read_schema_def get_table_def mlift_def)
  with b(2) show ?thesis by blast
qed

section \<open>INSERT\<close>

text \<open>What an INSERT is to do: the key and the row, or the error.\<close>

definition insert_outcome ::
    "env \<Rightarrow> table_schema \<Rightarrow> (i64 \<times> row) list \<Rightarrow> string list option \<Rightarrow> sql_value list \<Rightarrow> (i64 \<times> row) result" where
  "insert_outcome en ts rows columns values =
     rbind (insert_row_for ts columns values) (\<lambda>(key, row).
       if key \<in> fst ` set rows \<or> unique_clash (en_fmt en) ts row (map as_stored rows)
       then Inl (Error ConstraintViolation) else Inr (key, row))"

lemma insert_refused:
  assumes ok: "tables_ok en db h data" and rows: "fmlookup data table = Some rows"
    and ts: "fmlookup (ct_schema (db_catalog db)) table = Some ts"
    and out: "insert_outcome en ts rows columns values = Inl e" and fuel: "h \<le> en_fuel en"
  shows "\<exists>db'. execute_insert en table columns values db = (Inl e, db') \<and> only_read en db db'"
proof (cases "insert_row_for ts columns values")
  case (Inl e')
  have "only_read en db db" using ok by (auto simp: only_read_def with_pager_def tables_ok_def at_group_def intro!: exI [of _ "db_pager db"])
  with Inl ts out show ?thesis
    by (auto simp: execute_insert_def mbind_def read_schema_def get_table_def mlift_def insert_outcome_def rbind_def)
next
  case (Inr kr)
  obtain key row where kr: "kr = (key, row)" by fastforce
  from out Inr kr have bad: "key \<in> fst ` set rows \<or> unique_clash (en_fmt en) ts row (map as_stored rows)"
    and e: "e = Error ConstraintViolation"
    by (auto simp: insert_outcome_def rbind_def split: if_splits)
  obtain root T where r: "fmlookup (ct_btrees (db_catalog db)) table = Some root"
    "table_at (en_crc en) \<lparr>root_page = root, bt_pager = db_pager db\<rparr> (T table) h rows"
    by (rule table_tree [OF ok rows])
  obtain bt' where c: "insert_checked en ts key row \<lparr>root_page = root, bt_pager = db_pager db\<rparr> =
      (Inl (Error ConstraintViolation), bt')" "kept (en_crc en) \<lparr>root_page = root, bt_pager = db_pager db\<rparr> bt'"
    by (rule insert_checked_refuses [OF r(2) fuel bad])
  obtain db' where b: "on_btree table (insert_checked en ts key row) db = (Inl (Error ConstraintViolation), db')" "only_read en db db'"
    by (rule on_btree_reads [where m = "insert_checked en ts key row", OF r(1) c])
  with Inr kr ts e show ?thesis
    by (simp add: execute_insert_def mbind_def read_schema_def get_table_def mlift_def)
qed

lemma insert_done:
  assumes ok: "tables_ok en db h data" and rows: "fmlookup data table = Some rows"
    and ts: "fmlookup (ct_schema (db_catalog db)) table = Some ts"
    and out: "insert_outcome en ts rows columns values = Inr (key, row)" and rok: "row_ok row"
    and small: "list_all (\<lambda>r. length (serialize_row (snd r)) \<le> 164) ((key, row) # rows)"
    and g: "active_group (db_pager db) \<noteq> None" and room: "h < page_room (db_pager db)" and fuel: "3 * h \<le> en_fuel en"
  shows "\<exists>db'. execute_insert en table columns values db = (Inr (), db')
     \<and> tables_ok en db' (grown_height h rows row) (fmupd table (insert_row key row rows) data)
     \<and> ct_schema (db_catalog db') = ct_schema (db_catalog db)
     \<and> db_cdc db' = cdc_stage \<lparr>ch_table = table, ch_op = Insert, ch_rowid = key, ch_before = None, ch_after = Some row\<rparr> (db_cdc db)
     \<and> active_group (db_pager db') \<noteq> None \<and> page_room (db_pager db) \<le> page_room (db_pager db') + Suc h
     \<and> page_view (db_pager db') 1 = page_view (db_pager db) 1
     \<and> (\<exists>root'. 0 < root' \<and> root' < 2 ^ 32 \<and> ct_btrees (db_catalog db') = fmupd table root' (ct_btrees (db_catalog db)))
     \<and> db_txns db' = db_txns db \<and> ex_locks db' = ex_locks db \<and> ex_active db' = ex_active db"
proof -
  from out have ins: "insert_row_for ts columns values = Inr (key, row)" and new: "key \<notin> fst ` set rows"
    and uniq: "\<not> unique_clash (en_fmt en) ts row (map as_stored rows)"
    by (auto simp: insert_outcome_def rbind_eq_Inr split: if_splits)
  obtain root T where r: "fmlookup (ct_btrees (db_catalog db)) table = Some root"
    "store (page_view (db_pager db)) (ct_btrees (db_catalog db)) T h data"
    "table_at (en_crc en) \<lparr>root_page = root, bt_pager = db_pager db\<rparr> (T table) h rows"
    by (rule table_tree [OF ok rows])
  have gr: "active_group (bt_pager \<lparr>root_page = root, bt_pager = db_pager db\<rparr>) \<noteq> None"
    "h < page_room (bt_pager \<lparr>root_page = root, bt_pager = db_pager db\<rparr>)" using g room by simp_all
  obtain bt' t' where i: "insert_checked en ts key row \<lparr>root_page = root, bt_pager = db_pager db\<rparr> = (Inr (), bt')"
    "table_at (en_crc en) bt' t' (grown_height h rows row) (insert_row key row rows)" "active_group (bt_pager bt') \<noteq> None"
    "reshaped (Suc h) \<lparr>root_page = root, bt_pager = db_pager db\<rparr> (T table) bt' t'"
    by (rule insert_checked_ok [OF r(3) gr(1) new uniq rok small gr(2) fuel])
  from on_btree_grows [where m = "insert_checked en ts key row", OF r(2) rows r(1) i(1,2) grown_height_ge i(4)] obtain db1 where
    b: "on_btree table (insert_checked en ts key row) db = (Inr (), db1)"
      "tables_ok en db1 (grown_height h rows row) (fmupd table (insert_row key row rows) data)" "db_pager db1 = bt_pager bt'"
      "ct_schema (db_catalog db1) = ct_schema (db_catalog db)" "db_cdc db1 = db_cdc db" "db_txns db1 = db_txns db"
      "ex_locks db1 = ex_locks db" "ex_active db1 = ex_active db" "page_view (db_pager db1) 1 = page_view (db_pager db) 1"
      "0 < root_page bt'" "root_page bt' < 2 ^ 32" "ct_btrees (db_catalog db1) = fmupd table (root_page bt') (ct_btrees (db_catalog db))"
    by auto
  have "execute_insert en table columns values db = (Inr (), stage table Insert key None (Some row) db1)"
    using ins ts b(1) by (simp add: execute_insert_def mbind_def read_schema_def get_table_def mlift_def modify_def)
  moreover have "page_room (db_pager db) \<le> page_room (bt_pager bt') + Suc h" using i(4) by (simp add: reshaped_def)
  ultimately show ?thesis using b i(3)
    by (intro exI [of _ "stage table Insert key None (Some row) db1"]) (auto simp: stage_def tables_ok_def)
qed

lemma keyed_insert:
  assumes k: "keyed ts rows" and out: "insert_outcome en ts rows columns values = Inr (key, row)"
    and d: "distinct (map col_name (ts_columns ts))"
    and dc: "distinct (case columns of Some cols \<Rightarrow> cols | None \<Rightarrow> map col_name (ts_columns ts))"
  shows "keyed ts (insert_row key row rows)"
proof -
  from out have ins: "insert_row_for ts columns values = Inr (key, row)" and new: "key \<notin> fst ` set rows"
    by (auto simp: insert_outcome_def rbind_eq_Inr split: if_splits)
  note typed = insert_row_typed [OF ins d dc]
  from k obtain pk where dk: "distinct (map fst rows)" and pk: "position col_primary_key (ts_columns ts) = Some pk"
    and all: "\<forall>(k, row)\<in>set rows. length row = length (ts_columns ts) \<and> row ! pk = VInteger k"
    by (auto simp: keyed_def)
  let ?le = "\<lambda>r. sint (fst r) \<le> sint key"
  have "mset (insert_row key row rows) = add_mset (key, row) (mset (takeWhile ?le rows @ dropWhile ?le rows))"
    by (simp add: insert_row_def del: takeWhile_dropWhile_id)
  then have ms: "mset (insert_row key row rows) = add_mset (key, row) (mset rows)" unfolding takeWhile_dropWhile_id .
  then have set: "set (insert_row key row rows) = insert (key, row) (set rows)" by (metis set_mset_add_mset_insert set_mset_mset)
  have "mset (map fst (insert_row key row rows)) = mset (map fst ((key, row) # rows))" using ms by simp
  then have "distinct (map fst (insert_row key row rows))" using dk new by (metis distinct.simps(2) fst_conv list.simps(9) mset_eq_imp_distinct_iff set_map)
  with typed(1,2) pk all set show ?thesis by (auto simp: keyed_def)
qed

end
