(* ===== verification/Durable.thy ===== *)
theory Durable
  imports TableSpec Rollback
begin

text \<open>
  An INSERT from the statement to the disk: the table lock, the row, the schema page when the root of the tree
  moved, the commit of the group and the published change.
\<close>

section \<open>The table lock\<close>

lemma lock_granted:
  assumes "entries_of (ex_locks db) table = []" and "0 < en_lock_fuel en"
  shows "acquire_lock en table txn ty db = (Inr (), db\<lparr>ex_locks := (ex_locks db)(table \<mapsto> [\<lparr>le_txn = txn, le_type = ty\<rparr>])\<rparr>)"
proof -
  obtain f where "en_lock_fuel en = Suc f" using assms(2) by (cases "en_lock_fuel en") simp_all
  then show ?thesis using assms(1) by (simp add: acquire_lock_def try_acquire_lock_once_def)
qed

definition locked :: "string \<Rightarrow> lock_type \<Rightarrow> database \<Rightarrow> database" where
  "locked table ty db = db\<lparr>db_txns := snd (txn_begin (db_txns db)),
     ex_locks := (ex_locks db)(table \<mapsto> [\<lparr>le_txn = fst (txn_begin (db_txns db)), le_type = ty\<rparr>])\<rparr>"

lemma with_lock_ok:
  assumes a: "ex_active db = None" and free: "entries_of (ex_locks db) table = []" and lf: "0 < en_lock_fuel en"
    and f: "f (locked table ty db) = (Inr x, db3)" and m: "db_txns db3 = db_txns (locked table ty db)"
  shows "\<exists>m' txn. with_table_lock en table ty f db = (Inr x, release_locks en txn (db3\<lparr>db_txns := m'\<rparr>))"
proof -
  let ?t = "fst (txn_begin (db_txns db))" and ?m = "snd (txn_begin (db_txns db))"
  have b: "db_txn_begin db = (Inr ?t, db\<lparr>db_txns := ?m\<rparr>)" by (simp add: db_txn_begin_def case_prod_unfold)
  have "entries_of (ex_locks (db\<lparr>db_txns := ?m\<rparr>)) table = []" using free by simp
  from lock_granted [OF this lf, of ?t ty]
  have l: "acquire_lock en table ?t ty (db\<lparr>db_txns := ?m\<rparr>) = (Inr (), locked table ty db)" by (simp add: locked_def)
  have "txn_states ?m ?t = Some Active" by (simp add: txn_begin_def Let_def)
  then obtain m' where "txn_end Committed ?t ?m = (Inr (), m')" by (simp add: txn_end_def txn_transition_def)
  then have "db_txn_end Committed ?t db3 = (Inr (), db3\<lparr>db_txns := m'\<rparr>)" by (simp add: db_txn_end_def m locked_def)
  with a b l f show ?thesis
    by (auto simp: with_table_lock_def mbind_def)
qed

section \<open>The schema page\<close>

lemma length_encode_named: "length (encode_named sc bt n) = length (encode_named sc bt' n)"
proof -
  have "length (encode_column r c) = length (encode_column r' c)" for r r' c by (simp add: encode_column_def)
  then have "length (concat (map (encode_column r) cs)) = length (concat (map (encode_column r') cs))" for r r' cs
    by (induction cs) auto
  then show ?thesis by (simp add: encode_named_def encode_table_def Let_def split: sum.split)
qed

lemma length_encode_sum:
  assumes "hash_order ord"
  shows "length (encode_schema ord sc bt) = 4 + (\<Sum>n\<in>fset (fmdom sc). length (encode_named sc bt n))"
proof -
  have "distinct (ord (fmdom sc))" "set (ord (fmdom sc)) = fset (fmdom sc)" using assms by (simp_all add: hash_order_def)
  then show ?thesis by (simp add: encode_schema_named length_concat comp_def sum_list_distinct_conv_sum_set)
qed

lemma length_encode_schema:
  assumes "hash_order ord" and "hash_order ord'"
  shows "length (encode_schema ord sc bt) = length (encode_schema ord' sc bt')"
  using assms length_encode_named [of sc bt _ bt'] by (simp add: length_encode_sum)

lemma catalog_new_root:
  assumes "catalog_ok sc bt" and "fmlookup sc table = Some ts" and "0 < root" and "root < 2 ^ 32"
  shows "catalog_ok sc (fmupd table root bt)"
proof -
  have "fmdom (fmupd table root bt) = fmdom sc" using assms(1,2) by (auto simp: catalog_ok_def fmdomI)
  moreover have "table_ok (synced (fmupd table root bt) n t)" if "fmlookup sc n = Some t" for n t
    using assms that by (auto simp: catalog_ok_def table_ok_def synced_def)
  ultimately show ?thesis by (simp add: catalog_ok_def)
qed

lemma tables_page_one:
  assumes "tables_ok en db h data" and "pager_inv (en_crc en) q" and "page_view q = (page_view (db_pager db))(1 \<mapsto> x)"
  shows "tables_ok en (with_pager q db) h data"
proof -
  from assms(1) obtain T where "store (page_view (db_pager db)) (ct_btrees (db_catalog db)) T h data" by (auto simp: tables_ok_def)
  then have "store (page_view q) (ct_btrees (db_catalog db)) T h data" unfolding assms(3) by (rule store_page_one)
  with assms(2) show ?thesis by (auto simp: tables_ok_def)
qed

section \<open>The whole statement\<close>

text \<open>After the statement itself the schema page is written, when it has to be: the stored schema is the new one.\<close>

lemma work_saved:
  assumes e: "execute_statement en st db = (Inr (), db1)" and t: "tables_ok en db1 h data" and g: "active_group (db_pager db1) \<noteq> None"
    and cat: "catalog_ok (ct_schema (db_catalog db1)) (ct_btrees (db_catalog db1))"
    and size: "length (encode_schema (en_order en) (ct_schema (db_catalog db1)) (ct_btrees (db_catalog db1))) < usable_size"
    and ord: "hash_order (en_order en)"
    and old: "needs_schema_save st \<or> stored_schema (page_view (db_pager db1)) (ct_schema (db_catalog db1)) (ct_btrees (db_catalog db))"
  obtains q where "statement_work en st db = (Inr (), with_pager q db1)" and "tables_ok en (with_pager q db1) h data"
    and "stored_schema (page_view q) (ct_schema (db_catalog db1)) (ct_btrees (db_catalog db1))" and "num_pages q = num_pages (db_pager db1)"
proof (cases "needs_schema_save st \<or> snapshot_roots db \<noteq> snapshot_roots db1")
  case True
  have wr: "writing (en_crc en) (db_pager db1)" using t g by (simp add: writing_def tables_ok_def)
  have "page_view (db_pager db1) 1 \<noteq> None" using t by (auto simp: tables_ok_def store_def)
  then have n: "2 \<le> num_pages (db_pager db1)" using t by (simp add: tables_ok_def pager_inv_def view_ok_def numeral_2_eq_2 Suc_le_eq)
  obtain q where s: "save_schema (en_order en) (en_ops en) (db_catalog db1) = (Inr (), (db_catalog db1)\<lparr>ct_pager := q\<rparr>)" "writing (en_crc en) q"
    "page_view q = (page_view (db_pager db1))(1 \<mapsto> schema_page (encode_schema (en_order en) (ct_schema (db_catalog db1)) (ct_btrees (db_catalog db1))))"
    "stored_schema (page_view q) (ct_schema (db_catalog db1)) (ct_btrees (db_catalog db1))" "num_pages q = num_pages (db_pager db1)"
    by (rule save_stored [OF wr n cat ord size])
  have "statement_work en st db = (Inr (), with_pager q db1)"
    using e True s(1) by (simp add: statement_work_def mbind_def on_catalog_def with_pager_def)
  moreover have "tables_ok en (with_pager q db1) h data" by (rule tables_page_one [OF t]) (use s(2,3) in \<open>simp_all add: writing_def\<close>)
  ultimately show thesis using s(4,5) by (rule that)
next
  case False
  have "with_pager (db_pager db1) db1 = db1" by (simp add: with_pager_def)
  with False e t old show thesis
    by (intro that [of "db_pager db1"]) (simp_all add: statement_work_def mbind_def snapshot_roots_def tables_ok_def)
qed

text \<open>A statement that works on one table under its exclusive lock.\<close>

lemma locked_work:
  assumes e: "execute_statement en stm db = with_table_lock en table Exclusive f db"
    and f: "f (locked table Exclusive db) = (Inr (), db3)" "db_txns db3 = db_txns (locked table Exclusive db)"
    and ok: "tables_ok en db3 h data" "active_group (db_pager db3) \<noteq> None"
    and sc: "ct_schema (db_catalog db3) = ct_schema (db_catalog db)"
    and one: "page_view (db_pager db3) 1 = page_view (db_pager db) 1"
    and root: "0 < root'" "root' < 2 ^ 32" "ct_btrees (db_catalog db3) = fmupd table root' (ct_btrees (db_catalog db))"
    and ts: "fmlookup (ct_schema (db_catalog db)) table = Some ts"
    and a: "ex_active db = None" and free: "entries_of (ex_locks db) table = []" and lf: "0 < en_lock_fuel en" and ord: "hash_order (en_order en)"
    and st: "stored_schema (page_view (db_pager db)) (ct_schema (db_catalog db)) (ct_btrees (db_catalog db))"
  obtains db' where "statement_work en stm db = (Inr (), db')" and "tables_ok en db' h data"
    and "ct_schema (db_catalog db') = ct_schema (db_catalog db)" and "db_cdc db' = db_cdc db3"
    and "stored_schema (page_view (db_pager db')) (ct_schema (db_catalog db')) (ct_btrees (db_catalog db'))"
    and "num_pages (db_pager db') = num_pages (db_pager db3)"
proof -
  obtain m' txn where w: "with_table_lock en table Exclusive f db = (Inr (), release_locks en txn (db3\<lparr>db_txns := m'\<rparr>))"
    using with_lock_ok [where f = f, OF a free lf f] by blast
  let ?db4 = "release_locks en txn (db3\<lparr>db_txns := m'\<rparr>)"
  have 4: "db_catalog ?db4 = db_catalog db3" "db_cdc ?db4 = db_cdc db3" by (simp_all add: release_locks_def)
  from st ts obtain ord' where c: "catalog_ok (ct_schema (db_catalog db)) (ct_btrees (db_catalog db))" and ord': "hash_order ord'"
    and size: "length (encode_schema ord' (ct_schema (db_catalog db)) (ct_btrees (db_catalog db))) < usable_size"
    by (auto simp: stored_schema_def)
  have 5: "execute_statement en stm db = (Inr (), ?db4)" "tables_ok en ?db4 h data" "active_group (db_pager ?db4) \<noteq> None"
    "catalog_ok (ct_schema (db_catalog ?db4)) (ct_btrees (db_catalog ?db4))"
    using e w ok catalog_new_root [OF c ts root(1,2)] by (simp_all add: tables_ok_def 4 sc root(3))
  have 6: "length (encode_schema (en_order en) (ct_schema (db_catalog ?db4)) (ct_btrees (db_catalog ?db4))) < usable_size"
    using size length_encode_schema [OF ord ord'] by (metis 4(1) sc)
  have 7: "needs_schema_save stm
      \<or> stored_schema (page_view (db_pager ?db4)) (ct_schema (db_catalog ?db4)) (ct_btrees (db_catalog db))"
    using st one by (simp add: 4 sc stored_schema_def)
  obtain q where "statement_work en stm db = (Inr (), with_pager q ?db4)" "tables_ok en (with_pager q ?db4) h data"
    "stored_schema (page_view q) (ct_schema (db_catalog ?db4)) (ct_btrees (db_catalog ?db4))" "num_pages q = num_pages (db_pager ?db4)"
    by (rule work_saved [OF 5 6 ord 7])
  then show thesis using sc by (intro that [of "with_pager q ?db4"]) (simp_all add: 4)
qed

text \<open>The frame of every statement outside a transaction: its own group, the work, the commit.\<close>

lemma statement_commits:
  assumes ok: "db_ok en db" and a: "ex_active db = None" and st: "st \<notin> {BeginTransaction, CommitTransaction, RollbackTransaction}"
    and io: "io_append (en_io en) = WriteOk" "io_truncate (en_io en) \<noteq> TruncateSyncFails"
    and w: "statement_work en st (with_pager (snd (begin_group (db_pager db))) db) = (Inr (), db2)"
    and tables: "tables_ok en db2 h data"
    and sc: "stored_schema (page_view (db_pager db2)) (ct_schema (db_catalog db2)) (ct_btrees (db_catalog db2))"
    and n: "num_pages (db_pager db2) \<le> 2 ^ 32"
  obtains db' where "run_statement en st db = (Inr (), db')" and "db_ok en db'" and "tables_ok en db' h data"
    and "ct_schema (db_catalog db') = ct_schema (db_catalog db2)" and "ct_btrees (db_catalog db') = ct_btrees (db_catalog db2)"
    and "ex_active db' = None" and "ex_locks db' = ex_locks db2" and "db_cdc db' = publish_staged (db_cdc db2)"
    and "num_pages (db_pager db') = num_pages (db_pager db2)" and "page_view (db_pager db') = page_view (db_pager db2)"
    and "reopens_as (en_crc en) (pg_file (db_pager db')) (wal_file (pg_wal (db_pager db'))) (page_view (db_pager db'))"
proof -
  let ?p = "db_pager db"
  have inv: "pager_inv (en_crc en) ?p" "active_group ?p = None" using ok a by (simp_all add: db_ok_def)
  note b = begin_own_group [OF inv]
  let ?p1 = "snd (begin_group ?p)" and ?db1 = "with_pager (snd (begin_group ?p)) db"
  obtain gid where bg: "begin_group ?p = (Inr gid, ?p1)" using b(1) by blast
  have b1: "on_db_pager (mbind begin_group (\<lambda>_. mret ())) db = (Inr (), ?db1)"
    by (subst on_db_pager_def, simp add: on_catalog_def on_ct_pager_def mbind_def with_pager_def, subst bg, simp)
  have i1: "db_inv (in_own_group ?p1) (db_cdc db) None (db_txns db) ?db1" using b(2) a by (simp add: db_inv_def)
  from stableD [OF gst.stable_work [OF st, of _ _ _ _ en] i1] have "db_inv (in_own_group ?p1) (db_cdc db) None (db_txns db) db2"
    unfolding w by simp
  then have own: "in_own_group ?p1 (db_pager db2)" and a2: "ex_active db2 = None" by (simp_all add: db_inv_def)
  then obtain gid where g: "active_group (db_pager db2) = Some gid" by (auto simp: in_own_group_def undoable_def)
  have inv2: "pager_inv (en_crc en) (db_pager db2)" "num_pages (db_pager db2) \<le> 2 ^ 64" using tables n by (simp_all add: tables_ok_def)
  obtain q where cq: "commit_group (en_crc en) (en_io en) (db_pager db2) = (Inr (), q)"
    using commit_group_ok(1) [OF inv2(1) g inv2(2) io(1)] by (metis prod.collapse)
  have c: "abs_pager q = \<lparr>st_durable = page_view (db_pager db2), st_current = page_view (db_pager db2), st_active = False, st_saved = None\<rparr>"
    "pager_inv (en_crc en) q" "reopens_as (en_crc en) (pg_file q) (wal_file (pg_wal q)) (page_view (db_pager db2))"
    using commit_group_ok(2,3) [OF inv2(1) g inv2(2) io(1)] commit_reopens [OF inv2(1) g inv2(2) io(1)] io(2) by (simp_all add: cq)
  let ?db' = "(with_pager q db2)\<lparr>db_cdc := publish_staged (db_cdc db2)\<rparr>"
  have fin: "finish_statement en False mark db2 = (Inr (), ?db')" for mark
    by (simp add: finish_statement_def on_db_pager_def on_catalog_def on_ct_pager_def publish_changes_def modify_def with_pager_def cq)
  have q: "page_view q = page_view (db_pager db2)" "pg_savepoint q = None" "active_group q = None"
    using c(1) by (simp_all add: abs_pager_def in_group_def)
  have nt: "in_transaction db = False" using a by (simp add: in_transaction_def)
  have "run_statement en st db = (Inr (), ?db')"
    unfolding run_statement_def Let_def nt using b1 w fin by (simp add: mbind_def)
  moreover have "num_pages q = num_pages (db_pager db2)"
    using c(2) inv2(1) q(1) view_ok_unique by (metis pager_inv_def)
  moreover have "db_ok en ?db'" using c(2) q sc a2 by (simp add: db_ok_def)
  moreover have "tables_ok en ?db' h data" using tables c(2) q(1) by (simp add: tables_ok_def)
  ultimately show thesis using a2 c(3) q(1) n by (intro that [of ?db']) simp_all
qed

text \<open>The database when the work on a table begins: in a group of its own, with the table locked.\<close>

definition started :: "string \<Rightarrow> database \<Rightarrow> database" where
  "started table db = locked table Exclusive (with_pager (snd (begin_group (db_pager db))) db)"

lemma started_facts:
  assumes "db_ok en db" and "ex_active db = None"
  shows "tables_ok en db h data \<Longrightarrow> tables_ok en (started table db) h data" and "active_group (db_pager (started table db)) \<noteq> None"
    and "ct_schema (db_catalog (started table db)) = ct_schema (db_catalog db)" and "ct_btrees (db_catalog (started table db)) = ct_btrees (db_catalog db)"
    and "page_view (db_pager (started table db)) = page_view (db_pager db)" and "num_pages (db_pager (started table db)) = num_pages (db_pager db)"
    and "page_room (db_pager (started table db)) = page_room (db_pager db)" and "db_cdc (started table db) = db_cdc db"
proof -
  have "pager_inv (en_crc en) (db_pager db)" "active_group (db_pager db) = None" using assms by (simp_all add: db_ok_def)
  note b = begin_own_group [OF this]
  show "tables_ok en db h data \<Longrightarrow> tables_ok en (started table db) h data" and "active_group (db_pager (started table db)) \<noteq> None"
    and "ct_schema (db_catalog (started table db)) = ct_schema (db_catalog db)" and "ct_btrees (db_catalog (started table db)) = ct_btrees (db_catalog db)"
    and "page_view (db_pager (started table db)) = page_view (db_pager db)" and "num_pages (db_pager (started table db)) = num_pages (db_pager db)"
    and "page_room (db_pager (started table db)) = page_room (db_pager db)" and "db_cdc (started table db) = db_cdc db"
    using b by (auto simp: started_def locked_def tables_ok_def page_room_def)
qed

text \<open>What the work on one table achieved is committed: pages on disk, rows in the tables, the changes in the log.\<close>

lemma locked_statement_done:
  assumes ok: "db_ok en db" and a: "ex_active db = None" and st: "stm \<notin> {BeginTransaction, CommitTransaction, RollbackTransaction}"
    and e: "\<And>db. execute_statement en stm db = with_table_lock en table Exclusive f db"
    and f: "f (started table db) = (Inr (), db3)" "db_txns db3 = db_txns (started table db)"
    and t: "tables_ok en db3 h data" "active_group (db_pager db3) \<noteq> None"
    and sc: "ct_schema (db_catalog db3) = ct_schema (db_catalog (started table db))"
    and one: "page_view (db_pager db3) 1 = page_view (db_pager (started table db)) 1"
    and root: "0 < root'" "root' < 2 ^ 32" "ct_btrees (db_catalog db3) = fmupd table root' (ct_btrees (db_catalog (started table db)))"
    and n: "num_pages (db_pager db3) \<le> 2 ^ 32" and ts: "fmlookup (ct_schema (db_catalog db)) table = Some ts"
    and free: "entries_of (ex_locks db) table = []" and lf: "0 < en_lock_fuel en" and ord: "hash_order (en_order en)"
    and io: "io_append (en_io en) = WriteOk" "io_truncate (en_io en) \<noteq> TruncateSyncFails"
  obtains db' where "run_statement en stm db = (Inr (), db')" and "db_ok en db'" and "tables_ok en db' h data"
    and "ct_schema (db_catalog db') = ct_schema (db_catalog db)" and "ex_active db' = None"
    and "reopens_as (en_crc en) (pg_file (db_pager db')) (wal_file (pg_wal (db_pager db'))) (page_view (db_pager db'))"
    and "db_cdc db' = publish_staged (db_cdc db3)" and "num_pages (db_pager db') = num_pages (db_pager db3)"
proof -
  have inv: "pager_inv (en_crc en) (db_pager db)" "active_group (db_pager db) = None" using ok a by (simp_all add: db_ok_def)
  note b = begin_own_group [OF inv] and s = started_facts [OF ok a]
  let ?db1 = "with_pager (snd (begin_group (db_pager db))) db"
  have 1: "fmlookup (ct_schema (db_catalog ?db1)) table = Some ts" "ex_active ?db1 = None" "entries_of (ex_locks ?db1) table = []"
      "stored_schema (page_view (db_pager ?db1)) (ct_schema (db_catalog ?db1)) (ct_btrees (db_catalog ?db1))"
    using b ts a free ok by (auto simp: db_ok_def)
  have 2: "ct_schema (db_catalog db3) = ct_schema (db_catalog ?db1)" "page_view (db_pager db3) 1 = page_view (db_pager ?db1) 1"
    "ct_btrees (db_catalog db3) = fmupd table root' (ct_btrees (db_catalog ?db1))"
    using sc one root(3) b by (simp_all add: s)
  obtain db4 where w: "statement_work en stm ?db1 = (Inr (), db4)" "tables_ok en db4 h data"
    "ct_schema (db_catalog db4) = ct_schema (db_catalog ?db1)" "db_cdc db4 = db_cdc db3"
    "stored_schema (page_view (db_pager db4)) (ct_schema (db_catalog db4)) (ct_btrees (db_catalog db4))"
    "num_pages (db_pager db4) = num_pages (db_pager db3)"
    by (rule locked_work [where f = f, OF e f [unfolded started_def] t 2(1,2) root(1,2) 2(3) 1(1,2,3) lf ord 1(4)])
  have n4: "num_pages (db_pager db4) \<le> 2 ^ 32" using w(6) n by simp
  show thesis
    by (rule statement_commits [OF ok a st io w(1,2,5) n4]) (use w(3,4,6) in \<open>auto intro: that\<close>)
qed

text \<open>The acknowledged INSERT: pages on disk, rows in the tables, the change in the log.\<close>

lemma insert_statement_done:
  assumes ok: "db_ok en db" and a: "ex_active db = None" and tables: "tables_ok en db h data" and rows: "fmlookup data table = Some rows"
    and ts: "fmlookup (ct_schema (db_catalog db)) table = Some ts"
    and out: "insert_outcome en ts rows columns values = Inr (key, row)" and rok: "row_ok row"
    and small: "list_all (\<lambda>r. length (serialize_row (snd r)) \<le> 164) ((key, row) # rows)"
    and room: "Suc h < page_room (db_pager db)" and fuel: "3 * h \<le> en_fuel en"
    and free: "entries_of (ex_locks db) table = []" and lf: "0 < en_lock_fuel en" and ord: "hash_order (en_order en)"
    and io: "io_append (en_io en) = WriteOk" "io_truncate (en_io en) \<noteq> TruncateSyncFails"
  obtains db' where "run_statement en (InsertInto table columns values) db = (Inr (), db')" and "db_ok en db'"
    and "tables_ok en db' (grown_height h rows row) (fmupd table (insert_row key row rows) data)"
    and "ct_schema (db_catalog db') = ct_schema (db_catalog db)" and "ex_active db' = None"
    and "reopens_as (en_crc en) (pg_file (db_pager db')) (wal_file (pg_wal (db_pager db'))) (page_view (db_pager db'))"
    and "db_cdc db' = publish_staged
         (cdc_stage \<lparr>ch_table = table, ch_op = Insert, ch_rowid = key, ch_before = None, ch_after = Some row\<rparr> (db_cdc db))"
    and "page_room (db_pager db) \<le> page_room (db_pager db') + Suc h"
proof -
  note s = started_facts [OF ok a]
  have 2: "tables_ok en (started table db) h data" "fmlookup (ct_schema (db_catalog (started table db))) table = Some ts"
    "h < page_room (db_pager (started table db))" using s(1) [OF tables] ts room by (simp_all add: s)
  obtain db3 root' where d: "execute_insert en table columns values (started table db) = (Inr (), db3)"
      "tables_ok en db3 (grown_height h rows row) (fmupd table (insert_row key row rows) data)"
      "ct_schema (db_catalog db3) = ct_schema (db_catalog (started table db))"
      "db_cdc db3 = cdc_stage \<lparr>ch_table = table, ch_op = Insert, ch_rowid = key, ch_before = None, ch_after = Some row\<rparr> (db_cdc (started table db))"
      "active_group (db_pager db3) \<noteq> None" "page_room (db_pager (started table db)) \<le> page_room (db_pager db3) + Suc h"
      "page_view (db_pager db3) 1 = page_view (db_pager (started table db)) 1" "0 < root'" "root' < 2 ^ 32"
      "ct_btrees (db_catalog db3) = fmupd table root' (ct_btrees (db_catalog (started table db)))" "db_txns db3 = db_txns (started table db)"
    using insert_done [OF 2(1) rows 2(2) out rok small s(2) 2(3) fuel] by blast
  have n: "num_pages (db_pager db3) \<le> 2 ^ 32" using d(6) room by (simp add: s page_room_def)
  have ex: "execute_statement en (InsertInto table columns values) db =
      with_table_lock en table Exclusive (execute_insert en table columns values) db" for db
    by (simp add: execute_statement_def)
  have st: "InsertInto table columns values \<notin> {BeginTransaction, CommitTransaction, RollbackTransaction}" by simp
  show thesis
    by (rule locked_statement_done [where f = "execute_insert en table columns values", OF ok a st ex d(1,11,2,5,3,7-10) n ts free lf ord io])
      (use d(4,6) in \<open>auto simp: s page_room_def intro: that\<close>)
qed

section \<open>Reopening\<close>

lemma stored_synced:
  assumes "stored_schema v sc bt"
  shows "stored_schema v (fmmap_keys (synced bt) sc) bt"
proof -
  have dom: "fmdom (fmmap_keys (synced bt) sc) = fmdom sc" by simp
  have "encode_named (fmmap_keys (synced bt) sc) bt = encode_named sc bt"
    by (rule ext) (simp add: encode_named_def get_table_def encode_synced split: option.split)
  then have e: "encode_schema ord (fmmap_keys (synced bt) sc) bt = encode_schema ord sc bt" for ord
    by (simp add: encode_schema_named dom)
  have "synced bt n (synced bt n t) = synced bt n t" for n t by (simp add: synced_def)
  then have "catalog_ok sc bt \<Longrightarrow> catalog_ok (fmmap_keys (synced bt) sc) bt" by (auto simp: catalog_ok_def)
  moreover have "fmmap_keys (synced bt) fmempty = fmempty" by (rule fmap_ext) simp
  ultimately show ?thesis using assms unfolding stored_schema_def e by fastforce
qed

text \<open>A database opened on the files of another has its tables.\<close>

lemma reopen_tables:
  assumes re: "reopens_as (en_crc en) f wal v" and io: "en_io en = io_ok"
    and st: "stored_schema v sc bt" and tables: "store v bt T h data"
  obtains db where "open_database en f wal = Inr db" and "db_ok en db" and "tables_ok en db h data" and "ex_active db = None"
    and "ct_schema (db_catalog db) = fmmap_keys (synced bt) sc" and "ex_locks db = lock_manager_new" and "page_view (db_pager db) = v"
proof -
  from re obtain q where q: "pager_new (en_crc en) io_ok f wal = Inr q" "pager_inv (en_crc en) q" "active_group q = None" "page_view q = v"
    by (auto simp: reopens_as_def)
  let ?c = "\<lparr>ct_pager = q, ct_schema = schema_new, ct_btrees = fmempty\<rparr>"
  have "v 0 \<noteq> None" using tables by (simp add: store_def)
  then have n: "0 < num_pages q" using q(2,4) by (auto simp: pager_inv_def view_ok_def)
  have inv: "pager_inv (en_crc en) (ct_pager ?c)" "stored_schema (page_view (ct_pager ?c)) sc bt" using q(2,4) st by simp_all
  obtain p' where r: "reload_schema (en_crc en) io_ok (pager_ops (en_crc en) (en_pick en) io_ok) ?c =
      (Inr (), ?c\<lparr>ct_pager := p', ct_schema := fmmap_keys (synced bt) sc, ct_btrees := bt\<rparr>)"
    "pager_inv (en_crc en) p'" "abs_pager p' = abs_pager q" "active_group p' = active_group q"
    by (rule reload_stored [OF inv, of io_ok "en_pick en"]) simp
  let ?db = "(database_new q)\<lparr>db_catalog := \<lparr>ct_pager = p', ct_schema = fmmap_keys (synced bt) sc, ct_btrees = bt\<rparr>\<rparr>"
  have load: "load_schema (en_crc en) io_ok (pager_ops (en_crc en) (en_pick en) io_ok) ?c = (Inr (), db_catalog ?db)"
    using r(1) by (simp add: reload_schema_def)
  have "initialize en (database_new q) = (Inr (), ?db)"
    using n load by (simp add: initialize_def mbind_def on_db_pager_def on_catalog_def on_ct_pager_def initialize_pages_def database_new_def io)
  then have "open_database en f wal = Inr ?db" using q(1) by (simp add: open_database_def io)
  moreover have v: "page_view p' = v" using r(3) q(4) abs_pager_view by metis
  moreover have "pg_savepoint p' = None"
  proof -
    have "pg_savepoint q = None" using q(2,3) by (simp add: pager_inv_defs)
    then show ?thesis using r(3) by (simp add: abs_pager_def)
  qed
  then have "db_ok en ?db" using r(2,4) q(3) stored_synced [OF st] v by (simp add: db_ok_def database_new_def)
  moreover have "tables_ok en ?db h data" using r(2) tables v by (auto simp: tables_ok_def)
  ultimately show thesis by (intro that [of ?db]) (simp_all add: database_new_def)
qed

text \<open>What a committed statement left is what the next start finds.\<close>

lemma reopen_committed:
  assumes ok: "db_ok en db" and t: "tables_ok en db h data"
    and re: "reopens_as (en_crc en) (pg_file (db_pager db)) (wal_file (pg_wal (db_pager db))) (page_view (db_pager db))"
  obtains db' where "open_database (en\<lparr>en_io := io_ok\<rparr>) (pg_file (db_pager db)) (wal_file (pg_wal (db_pager db))) = Inr db'"
    and "tables_ok en db' h data"
    and "ct_schema (db_catalog db') = fmmap_keys (synced (ct_btrees (db_catalog db))) (ct_schema (db_catalog db))"
    and "db_ok en db'" and "ex_active db' = None" and "ex_locks db' = lock_manager_new" and "page_view (db_pager db') = page_view (db_pager db)"
proof -
  let ?en = "en\<lparr>en_io := io_ok\<rparr>"
  from t obtain T where T: "store (page_view (db_pager db)) (ct_btrees (db_catalog db)) T h data" by (auto simp: tables_ok_def)
  have st: "stored_schema (page_view (db_pager db)) (ct_schema (db_catalog db)) (ct_btrees (db_catalog db))" using ok by (simp add: db_ok_def)
  obtain db' where "open_database ?en (pg_file (db_pager db)) (wal_file (pg_wal (db_pager db))) = Inr db'" "tables_ok ?en db' h data"
    "db_ok ?en db'" "ex_active db' = None" "ex_locks db' = lock_manager_new" "page_view (db_pager db') = page_view (db_pager db)"
    "ct_schema (db_catalog db') = fmmap_keys (synced (ct_btrees (db_catalog db))) (ct_schema (db_catalog db))"
    by (rule reopen_tables [OF _ _ st T, of ?en]) (use re in simp_all)
  then show thesis by (intro that [of db']) (simp_all add: tables_ok_def db_ok_def)
qed

end
