(* ===== verification/TableCreate.thy ===== *)
theory TableCreate
  imports Durable
begin

text \<open>
  CREATE TABLE from the statement to the disk: a fresh root page, the schema entry, the schema page.
\<close>

section \<open>A new table in the store\<close>

lemma store_add:
  assumes st: "store v roots T h data" and n: "n |\<notin>| fmdom data" and h: "h \<le> h'"
    and new: "tree_shown v' root' t' h' rows'" and fresh: "\<And>i. i \<in> set (ids t') \<Longrightarrow> v i = None"
    and same: "\<And>i. i \<notin> set (ids t') \<Longrightarrow> v' i = v i"
  shows "store v' (fmupd n root' roots) (T(n := t')) h' (fmupd n rows' data)"
proof -
  have alive: "v' i = v i" if "v i \<noteq> None" for i using same fresh that by metis
  have old: "v i \<noteq> None" if m: "fmlookup data m = Some ws" "i \<in> set (ids (T m))" for m ws i
  proof -
    obtain root where "tree_shown v root (T m) h ws" by (rule storeD [OF st m(1)])
    then show ?thesis using m(2) by (rule tree_shown_pages)
  qed
  have disj: "set (ids t') \<inter> set (ids (T m)) = {}" if "fmlookup data m = Some ws" for m ws
    using old [OF that] fresh by (metis disjoint_iff)
  have others: "tree_shown v' root (T m) h' ws" if m: "fmlookup data m = Some ws" "fmlookup roots m = Some root" for m ws root
  proof -
    have "tree_shown v root (T m) h ws" using st m by (simp add: store_def)
    moreover have "tree_shown v root (T m) h ws = tree_shown v' root (T m) h ws"
      by (rule tree_shown_cong) (use alive old [OF m(1)] in simp)
    ultimately show ?thesis using tree_shown_mono [OF _ h] by blast
  qed
  have first: "v 0 \<noteq> None" "v 1 \<noteq> None" using st by (simp_all add: store_def)
  then have base: "v' 0 \<noteq> None" "v' 1 \<noteq> None" using alive by metis+
  have one: "1 \<notin> set (ids t')" using fresh [of 1] first(2) by metis
  have dis: "set (ids ((T(n := t')) a)) \<inter> set (ids ((T(n := t')) b)) = {}"
    if ab: "a |\<in>| fmdom (fmupd n rows' data)" "b |\<in>| fmdom (fmupd n rows' data)" "a \<noteq> b" for a b
  proof -
    consider "a = n" "b |\<in>| fmdom data" | "b = n" "a |\<in>| fmdom data" | "a \<noteq> n" "b \<noteq> n" "a |\<in>| fmdom data" "b |\<in>| fmdom data"
      using ab by auto
    then show ?thesis
    proof cases
      case 1
      then obtain ws where "fmlookup data b = Some ws" by (meson fmdomE)
      with 1 ab(3) disj show ?thesis by simp
    next
      case 2
      then obtain ws where "fmlookup data a = Some ws" by (meson fmdomE)
      with 2 ab(3) disj show ?thesis by (simp add: Int_commute)
    next
      case 3
      then show ?thesis using st ab(3) by (simp add: store_def)
    qed
  qed
  have shown: "tree_shown v' root ((T(n := t')) m) h' ws \<and> 1 \<notin> set (ids ((T(n := t')) m))"
    if "fmlookup (fmupd n root' roots) m = Some root" "fmlookup (fmupd n rows' data) m = Some ws" for m root ws
  proof (cases "m = n")
    case False
    then have "fmlookup roots m = Some root" "fmlookup data m = Some ws" using that by simp_all
    with False others [of m ws root] st show ?thesis by (simp add: store_def)
  qed (use that new one in simp)
  have "fmdom roots = fmdom data" using st by (simp add: store_def)
  then show ?thesis unfolding store_def using base shown dis by simp
qed

lemma fresh_root_new: "btree_new P s = (Inr bt, s') \<Longrightarrow> fresh_root P s = (Inr (root_page bt), s')"
  by (auto simp: btree_new_def fresh_root_def mbind_def mlift_def mret_def new_leaf_def page_new_def blank_page_def
      split: prod.splits sum.splits)

lemma fresh_root_ok:
  assumes w: "writing crc p" and z: "page_view p 0 \<noteq> None" and room: "0 < page_room p"
  obtains root q where "fresh_root (pager_ops crc pick io) p = (Inr root, q)" and "writing crc q"
    and "page_view p root = None" and "\<forall>i. i \<noteq> root \<longrightarrow> page_view q i = page_view p i" and "page_room p \<le> page_room q + 1"
    and "0 < root" and "root < 2 ^ 32" and "tree_shown (page_view q) root (TLeaf root []) 1 []"
proof -
  from pio.btree_new_ok [OF w z room, of pick io] obtain r q where
    b: "btree_new (pager_ops crc pick io) p = (Inr \<lparr>root_page = r, bt_pager = q\<rparr>, q)" "pio.holds crc q (TLeaf r [])" "page_view p r = None"
      "pio.steps crc {r} 1 p q"
    by blast
  from fresh_root_new [OF b(1)] have "fresh_root (pager_ops crc pick io) p = (Inr r, q)" by simp
  moreover have "tree_shown (page_view q) r (TLeaf r []) 1 []"
    using b(2) by (simp add: tree_shown_def pio.holds_def entries_def)
  ultimately show thesis using b(2-4) by (intro that) (auto simp: pio.holds_def pio.steps_def ids_ok_def)
qed

section \<open>The statement\<close>

lemma create_work:
  assumes ok: "tables_ok en db h data" and h: "0 < h" and g: "active_group (db_pager db) \<noteq> None" and room: "1 < page_room (db_pager db)"
    and new: "fmlookup (ct_schema (db_catalog db)) table = None" and ord: "hash_order (en_order en)"
    and cat: "fmdom (ct_btrees (db_catalog db)) = fmdom (ct_schema (db_catalog db))"
      "\<And>root. 0 < root \<Longrightarrow> root < 2 ^ 32 \<Longrightarrow>
        catalog_ok (fmupd table \<lparr>ts_name = table, ts_columns = columns, ts_root_page = root\<rparr> (ct_schema (db_catalog db)))
          (fmupd table root (ct_btrees (db_catalog db)))"
    and size: "\<And>root. length (encode_schema (en_order en)
        (fmupd table \<lparr>ts_name = table, ts_columns = columns, ts_root_page = root\<rparr> (ct_schema (db_catalog db)))
        (fmupd table root (ct_btrees (db_catalog db)))) < usable_size"
  obtains db' root where "statement_work en (CreateTable table columns) db = (Inr (), db')"
    and "tables_ok en db' h (fmupd table [] data)"
    and "ct_schema (db_catalog db') = fmupd table \<lparr>ts_name = table, ts_columns = columns, ts_root_page = root\<rparr> (ct_schema (db_catalog db))"
    and "ct_btrees (db_catalog db') = fmupd table root (ct_btrees (db_catalog db))"
    and "db_cdc db' = db_cdc db" and "ex_locks db' = ex_locks db"
    and "stored_schema (page_view (db_pager db')) (ct_schema (db_catalog db')) (ct_btrees (db_catalog db'))"
    and "num_pages (db_pager db') \<le> 2 ^ 32" and "page_room (db_pager db) \<le> page_room (db_pager db') + 1"
proof -
  let ?c = "db_catalog db"
  from ok obtain T where st: "store (page_view (db_pager db)) (ct_btrees ?c) T h data" and inv: "pager_inv (en_crc en) (db_pager db)"
    by (auto simp: tables_ok_def)
  have wr: "writing (en_crc en) (db_pager db)" "page_view (db_pager db) 0 \<noteq> None" "0 < page_room (db_pager db)"
    using inv g st room by (auto simp: writing_def store_def)
  obtain root q where f: "fresh_root (en_ops en) (db_pager db) = (Inr root, q)" "writing (en_crc en) q" "page_view (db_pager db) root = None"
    "\<forall>i. i \<noteq> root \<longrightarrow> page_view q i = page_view (db_pager db) i" "page_room (db_pager db) \<le> page_room q + 1" "0 < root" "root < 2 ^ 32"
    "tree_shown (page_view q) root (TLeaf root []) 1 []"
    by (rule fresh_root_ok [OF wr, of "en_pick en" "en_io en"])
  let ?ts = "\<lparr>ts_name = table, ts_columns = columns, ts_root_page = root\<rparr>"
  let ?c1 = "?c\<lparr>ct_pager := q, ct_schema := fmupd table ?ts (ct_schema ?c), ct_btrees := fmupd table root (ct_btrees ?c)\<rparr>"
  let ?db1 = "db\<lparr>db_catalog := ?c1\<rparr>"
  have nd: "table |\<notin>| fmdom (ct_schema ?c)" using new by (simp add: fmdom_notI)
  have "fmdom data = fmdom (ct_btrees ?c)" using st by (simp add: store_def)
  then have nd': "table |\<notin>| fmdom data" using nd cat(1) by simp
  have "store (page_view q) (fmupd table root (ct_btrees ?c)) (T(table := TLeaf root [])) h (fmupd table [] data)"
  proof (rule store_add [OF st nd' le_refl])
    show "tree_shown (page_view q) root (TLeaf root []) h []" by (rule tree_shown_mono [OF f(8)]) (use h in simp)
  qed (use f(3,4) in auto)
  then have t1: "tables_ok en ?db1 h (fmupd table [] data)" using f(2) by (auto simp: tables_ok_def writing_def)
  have x: "execute_create_table en table columns db = (Inr (), ?db1)"
    using f(1) nd by (cases ?c) (simp add: execute_create_table_def mbind_def on_db_pager_def on_catalog_def on_ct_pager_def on_schema_def
        create_table_def modify_def)
  have 2: "execute_statement en (CreateTable table columns) db = (Inr (), ?db1)" "active_group (db_pager ?db1) \<noteq> None"
    "catalog_ok (ct_schema (db_catalog ?db1)) (ct_btrees (db_catalog ?db1))"
    using x f(2) cat(2) [OF f(6,7)] by (simp_all add: execute_statement_def writing_def)
  have 3: "length (encode_schema (en_order en) (ct_schema (db_catalog ?db1)) (ct_btrees (db_catalog ?db1))) < usable_size" using size by simp
  obtain p' where s: "statement_work en (CreateTable table columns) db = (Inr (), with_pager p' ?db1)"
    "tables_ok en (with_pager p' ?db1) h (fmupd table [] data)"
    "stored_schema (page_view p') (ct_schema (db_catalog ?db1)) (ct_btrees (db_catalog ?db1))" "num_pages p' = num_pages (db_pager ?db1)"
    by (rule work_saved [OF 2(1) t1 2(2,3) 3 ord]) (simp add: needs_schema_save_def)
  moreover have "num_pages q < 2 ^ 32" using f(5) room by (simp add: page_room_def)
  ultimately show thesis using f(5) by (intro that [of "with_pager p' ?db1" root]) (simp_all add: page_room_def)
qed

lemma create_statement_done:
  assumes ok: "db_ok en db" and a: "ex_active db = None" and tables: "tables_ok en db h data" and h: "0 < h"
    and new: "fmlookup (ct_schema (db_catalog db)) table = None" and cols: "columns \<noteq> []" "list_all column_ok columns"
      "length columns < 2 ^ 32" "length table < 2 ^ 32" "str_ok table"
    and size: "\<And>root. length (encode_schema (en_order en)
        (fmupd table \<lparr>ts_name = table, ts_columns = columns, ts_root_page = root\<rparr> (ct_schema (db_catalog db)))
        (fmupd table root (ct_btrees (db_catalog db)))) < usable_size"
    and room: "1 < page_room (db_pager db)" and ord: "hash_order (en_order en)"
    and io: "io_append (en_io en) = WriteOk" "io_truncate (en_io en) \<noteq> TruncateSyncFails"
  obtains db' root where "run_statement en (CreateTable table columns) db = (Inr (), db')" and "db_ok en db'"
    and "tables_ok en db' h (fmupd table [] data)"
    and "ct_schema (db_catalog db') = fmupd table \<lparr>ts_name = table, ts_columns = columns, ts_root_page = root\<rparr> (ct_schema (db_catalog db))"
    and "ex_active db' = None" and "ex_locks db' = ex_locks db" and "page_room (db_pager db) \<le> page_room (db_pager db') + 1"
    and "reopens_as (en_crc en) (pg_file (db_pager db')) (wal_file (pg_wal (db_pager db'))) (page_view (db_pager db'))"
proof -
  let ?p = "db_pager db" and ?st = "CreateTable table columns" and ?sc = "ct_schema (db_catalog db)" and ?bt = "ct_btrees (db_catalog db)"
  have inv: "pager_inv (en_crc en) ?p" "active_group ?p = None" using ok a by (simp_all add: db_ok_def)
  note b = begin_own_group [OF inv]
  let ?db1 = "with_pager (snd (begin_group ?p)) db"
  from ok have c: "?sc = fmempty \<and> ?bt = fmempty \<or> catalog_ok ?sc ?bt" by (auto simp: db_ok_def stored_schema_def)
  then have dom: "fmdom ?bt = fmdom ?sc" by (auto simp: catalog_ok_def)
  have cat: "catalog_ok (fmupd table \<lparr>ts_name = table, ts_columns = columns, ts_root_page = root\<rparr> ?sc) (fmupd table root ?bt)"
    if "0 < root" "root < 2 ^ 32" for root
    using c that cols dom by (auto simp: catalog_ok_def table_ok_def synced_def)
  have 1: "tables_ok en ?db1 h data" "active_group (db_pager ?db1) \<noteq> None" "1 < page_room (db_pager ?db1)"
      "fmlookup (ct_schema (db_catalog ?db1)) table = None" "fmdom (ct_btrees (db_catalog ?db1)) = fmdom (ct_schema (db_catalog ?db1))"
    using tables b room new dom by (auto simp: tables_ok_def page_room_def)
  obtain db2 root where w: "statement_work en ?st ?db1 = (Inr (), db2)" "tables_ok en db2 h (fmupd table [] data)"
    "ct_schema (db_catalog db2) = fmupd table \<lparr>ts_name = table, ts_columns = columns, ts_root_page = root\<rparr> ?sc"
    "ex_locks db2 = ex_locks db" "stored_schema (page_view (db_pager db2)) (ct_schema (db_catalog db2)) (ct_btrees (db_catalog db2))"
    "num_pages (db_pager db2) \<le> 2 ^ 32" "page_room (db_pager ?db1) \<le> page_room (db_pager db2) + 1"
    by (rule create_work [OF 1(1) h 1(2,3,4) ord 1(5)]) (use cat size in auto)
  have st: "?st \<notin> {BeginTransaction, CommitTransaction, RollbackTransaction}" by simp
  obtain db' where d: "run_statement en ?st db = (Inr (), db')" "db_ok en db'" "tables_ok en db' h (fmupd table [] data)"
    "ct_schema (db_catalog db') = ct_schema (db_catalog db2)" "ex_active db' = None" "ex_locks db' = ex_locks db2"
    "page_view (db_pager db') = page_view (db_pager db2)"
    "reopens_as (en_crc en) (pg_file (db_pager db')) (wal_file (pg_wal (db_pager db'))) (page_view (db_pager db'))"
    by (rule statement_commits [OF ok a st io w(1,2,5,6)])
  have "num_pages (db_pager db') = num_pages (db_pager db2)"
    using d(2,7) w(2) view_ok_unique by (metis db_ok_def pager_inv_def tables_ok_def)
  then have "page_room (db_pager db) \<le> page_room (db_pager db') + 1" using w(7) b by (simp add: page_room_def)
  then show thesis using d w(3,4) by (intro that [of db' root]) simp_all
qed

end
