(* ===== verification/TableDrop.thy ===== *)
theory TableDrop
  imports TableCreate
begin

text \<open>
  DROP TABLE and ALTER TABLE ... RENAME TO from the statement to the disk: the catalog changes, the pages of
  the trees stay, and the schema page is written.
\<close>

section \<open>The store without a table, and with one renamed\<close>

lemma store_drop: "store v roots T h data \<Longrightarrow> store v (fmdrop n roots) T h (fmdrop n data)"
  by (simp add: store_def)

lemma store_rename:
  assumes st: "store v roots T h data" and rows: "fmlookup data n = Some rows" and root: "fmlookup roots n = Some root"
    and new: "m |\<notin>| fmdom data"
  shows "store v (fmupd m root (fmdrop n roots)) (T(m := T n)) h (fmupd m rows (fmdrop n data))"
proof -
  have dom: "fmdom roots = fmdom data" and n: "n |\<in>| fmdom data" using st rows by (simp_all add: store_def fmdomI)
  then have "m \<noteq> n" using new by blast
  have apart: "set (ids (T n)) \<inter> set (ids (T k)) = {}" if "k |\<in>| fmdom data" "k \<noteq> n" for k
    using st n that by (simp add: store_def)
  have shown: "tree_shown v r ((T(m := T n)) k) h ws \<and> 1 \<notin> set (ids ((T(m := T n)) k))"
    if "fmlookup (fmupd m root (fmdrop n roots)) k = Some r" "fmlookup (fmupd m rows (fmdrop n data)) k = Some ws" for k r ws
    using that st rows root by (cases "k = m") (auto simp: store_def split: if_splits)
  have dis: "set (ids ((T(m := T n)) a)) \<inter> set (ids ((T(m := T n)) b)) = {}"
    if ab: "a |\<in>| fmdom (fmupd m rows (fmdrop n data))" "b |\<in>| fmdom (fmupd m rows (fmdrop n data))" "a \<noteq> b" for a b
  proof -
    have "a = m \<or> a |\<in>| fmdom data \<and> a \<noteq> n" "b = m \<or> b |\<in>| fmdom data \<and> b \<noteq> n" using ab(1,2) by auto
    then consider "a = m" "b \<noteq> m" "b |\<in>| fmdom data" "b \<noteq> n" | "b = m" "a \<noteq> m" "a |\<in>| fmdom data" "a \<noteq> n"
      | "a \<noteq> m" "b \<noteq> m" "a |\<in>| fmdom data" "b |\<in>| fmdom data" using ab(3) by blast
    then show ?thesis
    proof cases
      case 1
      then show ?thesis using apart [of b] by simp
    next
      case 2
      then show ?thesis using apart [of a] by (simp add: Int_commute)
    next
      case 3
      then show ?thesis using st ab(3) by (simp add: store_def)
    qed
  qed
  have "v 0 \<noteq> None" "v 1 \<noteq> None" using st by (simp_all add: store_def)
  then show ?thesis unfolding store_def using shown dis dom by simp
qed

section \<open>A smaller schema still fits\<close>

lemma length_encode_drop:
  assumes "hash_order ord" and "hash_order ord'"
  shows "length (encode_schema ord (fmdrop n sc) bt) \<le> length (encode_schema ord' sc bt')"
proof -
  have "length (encode_named (fmdrop n sc) bt m) = length (encode_named sc bt' m)" if "m \<noteq> n" for m
    using that length_encode_named [of sc bt m bt'] by (simp add: encode_named_def get_table_def)
  then have "(\<Sum>m\<in>fset (fmdom sc) - {n}. length (encode_named (fmdrop n sc) bt m)) = (\<Sum>m\<in>fset (fmdom sc) - {n}. length (encode_named sc bt' m))"
    by (intro sum.cong) auto
  also have "\<dots> \<le> (\<Sum>m\<in>fset (fmdom sc). length (encode_named sc bt' m))" by (intro sum_mono2) auto
  finally show ?thesis using assms by (simp add: length_encode_sum)
qed

section \<open>Statements that change the catalog only\<close>

type_synonym catalog_spec = "schema \<times> (string, nat) fmap \<times> (string, (i64 \<times> row) list) fmap"

text \<open>What DROP TABLE and the two renamings do to the schema, the roots and the rows.\<close>

fun ddl_outcome :: "statement \<Rightarrow> catalog_spec \<Rightarrow> catalog_spec result" where
  "ddl_outcome (DropTable n) (sc, bt, data) =
     (if n |\<in>| fmdom sc then Inr (fmdrop n sc, fmdrop n bt, fmdrop n data) else Inl (Error NotFound))"
| "ddl_outcome (AlterTable n (RenameTable m)) (sc, bt, data) =
     (if m |\<in>| fmdom sc then Inl (Error ConstraintViolation)
      else case (fmlookup sc n, fmlookup bt n, fmlookup data n) of
        (Some ts, Some root, Some rows) \<Rightarrow>
          Inr (fmupd m (ts\<lparr>ts_name := m\<rparr>) (fmdrop n sc), fmupd m root (fmdrop n bt), fmupd m rows (fmdrop n data))
      | _ \<Rightarrow> Inl (Error NotFound))"
| "ddl_outcome (AlterTable n (RenameColumn old_name new_name)) (sc, bt, data) =
     rbind (rbind (get_table n sc) (renamed_column old_name new_name)) (\<lambda>ts. Inr (fmupd n ts sc, bt, data))"
| "ddl_outcome _ _ = Inl (Error NotImplemented)"

definition with_tables :: "schema \<Rightarrow> (string, nat) fmap \<Rightarrow> database \<Rightarrow> database" where
  "with_tables sc bt db = db\<lparr>db_catalog := (db_catalog db)\<lparr>ct_schema := sc, ct_btrees := bt\<rparr>\<rparr>"

lemma with_tables_fields [simp]:
  "ct_schema (db_catalog (with_tables sc bt db)) = sc" "ct_btrees (db_catalog (with_tables sc bt db)) = bt"
  "db_pager (with_tables sc bt db) = db_pager db" "db_cdc (with_tables sc bt db) = db_cdc db"
  by (simp_all add: with_tables_def)

lemmas catalog_ops = mbind_def mret_def mlift_def modify_def on_schema_def read_schema_def on_catalog_def with_tables_def
  create_table_def drop_table_def get_table_def get_table_mut_def

lemma ddl_executes:
  assumes "ddl_outcome st (ct_schema (db_catalog db), ct_btrees (db_catalog db), data) = Inr (sc', bt', data')"
  shows "execute_statement en st db = (Inr (), with_tables sc' bt' db)" and "needs_schema_save st"
proof -
  have "execute_statement en st db = (Inr (), with_tables sc' bt' db) \<and> needs_schema_save st"
    using assms
  proof (cases rule: ddl_outcome.cases [of "(st, ct_schema (db_catalog db), ct_btrees (db_catalog db), data)"])
    case (1 n sc bt d)
    with assms show ?thesis
      by (auto simp: execute_statement_def execute_drop_table_def catalog_ops needs_schema_save_def split: if_splits)
  next
    case (2 n m sc bt d)
    with assms show ?thesis
      by (auto simp: execute_statement_def execute_alter_table_def rename_table_def catalog_ops needs_schema_save_def is_ok_def
          split: if_splits option.splits)
  next
    case (3 n a b sc bt d)
    with assms show ?thesis
      by (auto simp: execute_statement_def execute_alter_table_def catalog_ops needs_schema_save_def split: sum.splits option.splits)
  qed simp_all
  then show "execute_statement en st db = (Inr (), with_tables sc' bt' db)" and "needs_schema_save st" by blast+
qed

lemma ddl_store:
  assumes "ddl_outcome st (sc, bt, data) = Inr (sc', bt', data')" and st: "store v bt T h data" and dom: "fmdom bt = fmdom sc"
  obtains T' where "store v bt' T' h data'"
proof (cases rule: ddl_outcome.cases [of "(st, sc, bt, data)"])
  case (1 n)
  with assms(1) show thesis using store_drop [OF st, of n] by (intro that [of T]) (auto split: if_splits)
next
  case (2 n m)
  then obtain ts root rows where "fmlookup sc n = Some ts" "fmlookup bt n = Some root" "fmlookup data n = Some rows" "m |\<notin>| fmdom sc"
    and e: "bt' = fmupd m root (fmdrop n bt)" "data' = fmupd m rows (fmdrop n data)"
    using assms(1) by (auto split: if_splits option.splits)
  moreover have "fmdom data = fmdom sc" using st dom by (simp add: store_def)
  ultimately show thesis using store_rename [OF st] by (intro that [of "T(m := T n)"]) simp
next
  case (3 n a b)
  with assms(1) st show thesis by (intro that [of T]) (auto simp: rbind_def split: sum.splits)
qed (use assms(1) in simp_all)

lemma ddl_fits:
  assumes "ddl_outcome (DropTable n) (sc, bt, data) = Inr (sc', bt', data')" and "stored_schema v sc bt" and "hash_order ord"
  shows "catalog_ok sc' bt'" and "length (encode_schema ord sc' bt') < usable_size"
proof -
  have e: "sc' = fmdrop n sc" "bt' = fmdrop n bt" "n |\<in>| fmdom sc" using assms(1) by (simp_all split: if_splits)
  then have "sc \<noteq> fmempty" by auto
  with assms(2) obtain ord' where c: "catalog_ok sc bt" "hash_order ord'" "length (encode_schema ord' sc bt) < usable_size"
    by (auto simp: stored_schema_def)
  have "synced (fmdrop n bt) k t = synced bt k t" if "k \<noteq> n" for k t using that by (simp add: synced_def)
  then show "catalog_ok sc' bt'" using c(1) by (simp add: e catalog_ok_def)
  show "length (encode_schema ord sc' bt') < usable_size"
    using c(3) length_encode_drop [OF assms(3) c(2), of n sc "fmdrop n bt" bt] by (simp add: e)
qed

lemma ddl_statement_done:
  assumes ok: "db_ok en db" and a: "ex_active db = None" and tables: "tables_ok en db h data"
    and out: "ddl_outcome st (ct_schema (db_catalog db), ct_btrees (db_catalog db), data) = Inr (sc', bt', data')"
    and fits: "(\<exists>n. st = DropTable n) \<or> catalog_ok sc' bt' \<and> length (encode_schema (en_order en) sc' bt') < usable_size"
    and n: "num_pages (db_pager db) \<le> 2 ^ 32" and ord: "hash_order (en_order en)"
    and io: "io_append (en_io en) = WriteOk" "io_truncate (en_io en) \<noteq> TruncateSyncFails"
  obtains db' where "run_statement en st db = (Inr (), db')" and "db_ok en db'" and "tables_ok en db' h data'"
    and "ct_schema (db_catalog db') = sc'" and "ct_btrees (db_catalog db') = bt'" and "ex_active db' = None"
    and "reopens_as (en_crc en) (pg_file (db_pager db')) (wal_file (pg_wal (db_pager db'))) (page_view (db_pager db'))"
proof -
  let ?p = "db_pager db" and ?sc = "ct_schema (db_catalog db)" and ?bt = "ct_btrees (db_catalog db)"
  have inv: "pager_inv (en_crc en) ?p" "active_group ?p = None" using ok a by (simp_all add: db_ok_def)
  note b = begin_own_group [OF inv]
  let ?db1 = "with_pager (snd (begin_group ?p)) db"
  have stored: "stored_schema (page_view ?p) ?sc ?bt" using ok by (simp add: db_ok_def)
  then have dom: "fmdom ?bt = fmdom ?sc" by (auto simp: stored_schema_def catalog_ok_def)
  from tables obtain T where T: "store (page_view ?p) ?bt T h data" by (auto simp: tables_ok_def)
  obtain T' where T': "store (page_view ?p) bt' T' h data'" by (rule ddl_store [OF out T dom])
  have fit: "catalog_ok sc' bt'" "length (encode_schema (en_order en) sc' bt') < usable_size"
    using fits ddl_fits [OF _ stored ord] out by blast+
  have out1: "ddl_outcome st (ct_schema (db_catalog ?db1), ct_btrees (db_catalog ?db1), data) = Inr (sc', bt', data')" using out by simp
  let ?db2 = "with_tables sc' bt' ?db1"
  have 2: "tables_ok en ?db2 h data'" "active_group (db_pager ?db2) \<noteq> None" "num_pages (db_pager ?db2) \<le> 2 ^ 32"
    "catalog_ok (ct_schema (db_catalog ?db2)) (ct_btrees (db_catalog ?db2))"
    "length (encode_schema (en_order en) (ct_schema (db_catalog ?db2)) (ct_btrees (db_catalog ?db2))) < usable_size"
    using T' b n fit by (auto simp: tables_ok_def)
  obtain q where w: "statement_work en st ?db1 = (Inr (), with_pager q ?db2)" "tables_ok en (with_pager q ?db2) h data'"
    "stored_schema (page_view q) (ct_schema (db_catalog ?db2)) (ct_btrees (db_catalog ?db2))" "num_pages q = num_pages (db_pager ?db2)"
    by (rule work_saved [OF ddl_executes(1) [OF out1] 2(1,2,4,5) ord]) (simp add: ddl_executes(2) [OF out1])
  have st: "st \<notin> {BeginTransaction, CommitTransaction, RollbackTransaction}" using ddl_executes(2) [OF out1] by (auto simp: needs_schema_save_def)
  have 3: "stored_schema (page_view (db_pager (with_pager q ?db2))) (ct_schema (db_catalog (with_pager q ?db2))) (ct_btrees (db_catalog (with_pager q ?db2)))"
    "num_pages (db_pager (with_pager q ?db2)) \<le> 2 ^ 32"
    using w(3,4) 2(3) by simp_all
  show thesis by (rule statement_commits [OF ok a st io w(1,2) 3]) (auto intro: that)
qed

end
