(* ===== verification/TableDelete.thy ===== *)
theory TableDelete
  imports TableDrop
begin

text \<open>
  DELETE from the statement to the disk: the selected rows leave their tree one by one, whatever rebalancing
  that takes; the root page stays where it is and all other tables stay as they are.
\<close>

section \<open>Deleting from one tree\<close>

text \<open>The tree became \<open>t'\<close> on pages of its own, under the same root.\<close>

definition shrunk_at :: "pager btree \<Rightarrow> tree \<Rightarrow> pager btree \<Rightarrow> tree \<Rightarrow> bool" where
  "shrunk_at bt t bt' t' \<longleftrightarrow> root_page bt' = root_page bt \<and> set (ids t') \<subseteq> set (ids t)
     \<and> (\<forall>i. i \<notin> set (ids t) \<longrightarrow> page_view (bt_pager bt') i = page_view (bt_pager bt) i)
     \<and> (\<forall>i. page_view (bt_pager bt') i = None \<longleftrightarrow> page_view (bt_pager bt) i = None)
     \<and> page_room (bt_pager bt) \<le> page_room (bt_pager bt')"

lemma shrunk_at_trans: "shrunk_at a t b u \<Longrightarrow> shrunk_at b u c w \<Longrightarrow> shrunk_at a t c w"
  unfolding shrunk_at_def by (metis (no_types, lifting) order_trans subsetD)

lemma shrunk_reshaped: "shrunk_at bt t bt' t' \<Longrightarrow> reshaped 0 bt t bt' t'"
  by (auto simp: shrunk_at_def reshaped_def)

abbreviation small_rows :: "(i64 \<times> row) list \<Rightarrow> bool" where
  "small_rows rows \<equiv> list_all (\<lambda>r. length (serialize_row (snd r)) \<le> 52) rows"

lemma delete_at:
  assumes at: "table_at crc bt t h rows" and g: "active_group (bt_pager bt) \<noteq> None" and fuel: "3 * h \<le> fuel"
    and room: "root_keys t = 0 \<or> 2 \<le> root_keys t \<and> small_rows rows"
  obtains bt' t' where "btree_delete (pager_ops crc pick io) fuel key bt = (Inr (key \<in> fst ` set rows), bt')"
    and "table_at crc bt' t' h (delete_row key rows)" and "active_group (bt_pager bt') \<noteq> None" and "shrunk_at bt t bt' t'"
    and "root_keys t \<le> Suc (root_keys t')" and "root_keys t = 0 \<longrightarrow> root_keys t' = 0"
proof -
  note t = table_at_holds [OF at]
  have holds: "pio.holds crc (bt_pager bt) t" using t(1) g by (simp add: rio.holds_def pio.holds_def at_group_def writing_def)
  have hf: "height t \<le> fuel" "3 * height t \<le> fuel" using t(3) fuel by simp_all
  show thesis
  proof (cases "map_of rows key")
    case None
    then have nk: "key \<notin> fst ` set rows" by (simp add: map_of_eq_None_iff)
    then have same: "delete_row key rows = rows" by (auto simp: delete_row_def filter_id_conv)
    have "map_of (entries t) key = None" using None by (simp add: t(4) encode_lookup)
    from pio.btree_delete_absent [OF holds t(2) this hf(1), of pick io] obtain s' where
      s: "btree_delete (pager_ops crc pick io) fuel key bt = (Inr False, bt\<lparr>bt_pager := s'\<rparr>)" "pio.keeps crc (bt_pager bt) s'"
      by blast
    show thesis
      by (rule that [of "bt\<lparr>bt_pager := s'\<rparr>" t])
        (use s nk same at in \<open>auto simp: table_at_def shrunk_at_def pio.keeps_def writing_def\<close>)
  next
    case (Some r)
    then have k: "key \<in> fst ` set rows" by (force dest: map_of_SomeD)
    have d: "map_of (entries t) key = Some (serialize_row r)" using Some by (simp add: t(4) encode_lookup)
    have "height t = 1 \<or> MIN_KEYS < length es \<or> repairable t" for es
      using room no_separators [OF t(6)] t(6) by (auto simp: repairable_def t(4) encode_entry_def list_all_iff)
    from pio.btree_delete_ok [OF holds t(2) d hf(2) this, of pick io] t(6) obtain bt' t' where
      b: "btree_delete (pager_ops crc pick io) fuel key bt = (Inr True, bt')" "pio.holds crc (bt_pager bt') t'"
        "root_page bt' = root_id t'" "root_id t' = root_id t" "entries t' = delete_entry key (entries t)" "height t' \<le> height t" "balanced t'"
        "root_keys t \<le> Suc (root_keys t')" "pio.shrunk crc (bt_pager bt) t (bt_pager bt') t'"
      by blast
    have leaf: "root_keys t' = 0" if "root_keys t = 0"
    proof -
      have "0 < height t'" by (cases t') simp_all
      then have "height t' = 1" using no_separators [OF t(6) that] b(6) by simp
      then show ?thesis using height_one by (metis root_keys.simps(1))
    qed
    have at': "table_at crc bt' t' h (delete_row key rows)"
      using b(2,3,5-7) t(3) row_ok_delete [OF t(5), of key]
      by (simp add: table_at_def tree_shown_def pio.holds_def writing_def t(4) encode_delete)
    have "page_view (bt_pager bt) i \<noteq> None" if "i \<in> set (ids t)" for i
      using at that tree_shown_pages by (simp add: table_at_def) blast
    then have sh: "shrunk_at bt t bt' t'" using b(3,4,9) t(2) unfolding shrunk_at_def pio.shrunk_def pio.steps_def by (metis add_0_right)
    have g': "active_group (bt_pager bt') \<noteq> None" using b(2) by (simp add: pio.holds_def writing_def)
    show thesis by (rule that [OF _ at' g' sh b(8)]) (use b(1) k leaf in simp_all)
  qed
qed

lemma delete_rows_at:
  assumes "table_at (en_crc en) bt t h rows" and "active_group (bt_pager bt) \<noteq> None" and "3 * h \<le> en_fuel en"
    and "root_keys t = 0 \<or> length ds < root_keys t \<and> small_rows rows"
  shows "\<exists>bt' t'. delete_rows en ds bt = (Inr (), bt') \<and> active_group (bt_pager bt') \<noteq> None \<and> shrunk_at bt t bt' t'
    \<and> table_at (en_crc en) bt' t' h (filter (\<lambda>r. fst r \<notin> fst ` set ds) rows)"
  using assms
proof (induction ds arbitrary: bt t rows)
  case Nil
  then have "shrunk_at bt t bt t" by (simp add: shrunk_at_def)
  with Nil show ?case by (intro exI [of _ bt] exI [of _ t]) (simp add: mret_def)
next
  case (Cons d ds)
  obtain key row where d: "d = (key, row)" by (cases d)
  have "root_keys t = 0 \<or> 2 \<le> root_keys t \<and> small_rows rows" using Cons.prems(4) by auto
  then obtain bt1 t1 where 1: "btree_delete (en_ops en) (en_fuel en) key bt = (Inr (key \<in> fst ` set rows), bt1)"
    "table_at (en_crc en) bt1 t1 h (delete_row key rows)" "active_group (bt_pager bt1) \<noteq> None" "shrunk_at bt t bt1 t1"
    "root_keys t \<le> Suc (root_keys t1)" "root_keys t = 0 \<longrightarrow> root_keys t1 = 0"
    by (rule delete_at [OF Cons.prems(1-3)])
  have "root_keys t1 = 0 \<or> length ds < root_keys t1 \<and> small_rows (delete_row key rows)"
    using Cons.prems(4) 1(5,6) by (auto simp: list_all_iff delete_row_def)
  from Cons.IH [OF 1(2,3) Cons.prems(3) this] obtain bt' t' where
    2: "delete_rows en ds bt1 = (Inr (), bt')" "active_group (bt_pager bt') \<noteq> None" "shrunk_at bt1 t1 bt' t'"
      "table_at (en_crc en) bt' t' h (filter (\<lambda>r. fst r \<notin> fst ` set ds) (delete_row key rows))"
    by blast
  have "filter (\<lambda>r. fst r \<notin> fst ` set ds) (delete_row key rows) = filter (\<lambda>r. fst r \<notin> fst ` set (d # ds)) rows"
    by (auto simp: delete_row_def d intro!: filter_cong)
  with 1(1) 2 shrunk_at_trans [OF 1(4) 2(3)] show ?case by (auto simp: d mbind_def)
qed

section \<open>The rows a clause selects\<close>

definition selected :: "env \<Rightarrow> table_schema \<Rightarrow> where_clause option \<Rightarrow> i64 \<times> row \<Rightarrow> bool" where
  "selected en ts wc r \<longleftrightarrow>
     (case wc of None \<Rightarrow> True | Some cs \<Rightarrow> evaluate_where_clause (en_rx en) ts (stored_row (snd r)) cs = Inr True)"

lemma matching_selected:
  assumes "keyed ts rows"
  shows "matching_rows (en_rx en) ts wc (map as_stored rows) = Inr (map as_stored (filter (selected en ts wc) rows))"
proof (cases wc)
  case (Some cs)
  have eq: "((\<lambda>(k, row). evaluate_where_clause (en_rx en) ts row cs = Inr True) \<circ> as_stored) = selected en ts wc"
    by (rule ext) (simp add: as_stored_def selected_def Some)
  from filter_rows_spec [OF keyed_wide [OF keyed_stored [OF assms]], of "en_rx en" cs] Some show ?thesis
    by (simp add: matching_rows_def filter_map eq)
qed (simp add: matching_rows_def selected_def)

lemma kept_rows:
  assumes "keyed ts rows"
  shows "filter (\<lambda>r. fst r \<notin> fst ` set (map as_stored (filter P rows))) rows = filter (\<lambda>r. \<not> P r) rows"
proof (rule filter_cong [OF refl])
  fix r assume r: "r \<in> set rows"
  have "inj_on fst (set rows)" using assms by (simp add: keyed_def distinct_map)
  then have "fst r \<in> fst ` set (filter P rows) \<longleftrightarrow> P r" using r by (auto dest: inj_onD)
  moreover have "fst ` set (map as_stored (filter P rows)) = fst ` set (filter P rows)" by (auto simp: as_stored_def image_image)
  ultimately show "(fst r \<notin> fst ` set (map as_stored (filter P rows))) = (\<not> P r)" by simp
qed

section \<open>The statement\<close>

definition deletion :: "string \<Rightarrow> i64 \<times> row \<Rightarrow> change" where
  "deletion table r = \<lparr>ch_table = table, ch_op = Delete, ch_rowid = fst r, ch_before = Some (stored_row (snd r)), ch_after = None\<rparr>"

lemma stage_all_log:
  assumes "\<And>x db. f x db = db\<lparr>db_cdc := cdc_stage (g x) (db_cdc db)\<rparr>"
  shows "stage_all f xs db = (Inr (), db\<lparr>db_cdc := fold (\<lambda>x. cdc_stage (g x)) xs (db_cdc db)\<rparr>)"
proof -
  have f: "fold f xs db = db\<lparr>db_cdc := fold (\<lambda>x. cdc_stage (g x)) xs (db_cdc db)\<rparr>" for db
    by (induction xs arbitrary: db) (simp_all add: assms)
  have "fold (\<lambda>x. cdc_stage (g x)) xs c = c" if "\<not> cdc_enabled c" for c
    using that by (induction xs) (simp_all add: cdc_stage_def)
  then show ?thesis by (simp add: stage_all_def modify_def f)
qed

lemma stage_deletions:
  "stage_all (\<lambda>(key, before). stage table Delete key (Some before) None) (map as_stored rs) db =
     (Inr (), db\<lparr>db_cdc := fold (\<lambda>r. cdc_stage (deletion table r)) rs (db_cdc db)\<rparr>)"
proof -
  have "stage_all (\<lambda>(key, before). stage table Delete key (Some before) None) (map as_stored rs) db =
      (Inr (), db\<lparr>db_cdc := fold (\<lambda>(key, before). cdc_stage
        \<lparr>ch_table = table, ch_op = Delete, ch_rowid = key, ch_before = Some before, ch_after = None\<rparr>) (map as_stored rs) (db_cdc db)\<rparr>)"
    unfolding case_prod_unfold by (rule stage_all_log) (simp add: stage_def)
  then show ?thesis by (simp add: fold_map comp_def as_stored_def deletion_def)
qed

definition table_separators :: "database \<Rightarrow> string \<Rightarrow> nat" where
  "table_separators db table = (case fmlookup (ct_btrees (db_catalog db)) table of
     None \<Rightarrow> 0 | Some root \<Rightarrow> root_separators \<lparr>root_page = root, bt_pager = db_pager db\<rparr>)"

text \<open>The tree is a single leaf, or small rows leave a root with more separators than rows go.\<close>

definition can_delete :: "env \<Rightarrow> database \<Rightarrow> string \<Rightarrow> table_schema \<Rightarrow> where_clause option \<Rightarrow> (i64 \<times> row) list \<Rightarrow> bool" where
  "can_delete en db table ts wc rows \<longleftrightarrow> table_separators db table = 0
     \<or> length (filter (selected en ts wc) rows) < table_separators db table \<and> small_rows rows"

lemma can_delete_cong:
  assumes "ct_btrees (db_catalog db') = ct_btrees (db_catalog db)" and "page_view (db_pager db') = page_view (db_pager db)"
  shows "can_delete en db' table ts wc rows = can_delete en db table ts wc rows"
proof -
  have "table_separators db' table = table_separators db table"
    using assms by (simp add: table_separators_def root_separators_def split: option.split)
  then show ?thesis by (simp add: can_delete_def)
qed

lemma delete_done:
  assumes ok: "tables_ok en db h data" and rows: "fmlookup data table = Some rows"
    and ts: "fmlookup (ct_schema (db_catalog db)) table = Some ts"
    and k: "keyed ts rows" and dn: "distinct (map col_name (ts_columns ts))" and can: "can_delete en db table ts wc rows"
    and g: "active_group (db_pager db) \<noteq> None" and fuel: "3 * h \<le> en_fuel en"
  shows "\<exists>db' root. execute_delete en table wc db = (Inr (), db')
     \<and> tables_ok en db' h (fmupd table (filter (\<lambda>r. \<not> selected en ts wc r) rows) data)
     \<and> ct_schema (db_catalog db') = ct_schema (db_catalog db)
     \<and> db_cdc db' = fold (\<lambda>r. cdc_stage (deletion table r)) (filter (selected en ts wc) rows) (db_cdc db)
     \<and> active_group (db_pager db') \<noteq> None \<and> num_pages (db_pager db') = num_pages (db_pager db)
     \<and> page_view (db_pager db') 1 = page_view (db_pager db) 1
     \<and> 0 < root \<and> root < 2 ^ 32 \<and> ct_btrees (db_catalog db') = fmupd table root (ct_btrees (db_catalog db))
     \<and> db_txns db' = db_txns db"
proof -
  let ?ds = "map as_stored (filter (selected en ts wc) rows)" and ?rest = "filter (\<lambda>r. \<not> selected en ts wc r) rows"
  obtain root T where r: "fmlookup (ct_btrees (db_catalog db)) table = Some root"
    "store (page_view (db_pager db)) (ct_btrees (db_catalog db)) T h data"
    "table_at (en_crc en) \<lparr>root_page = root, bt_pager = db_pager db\<rparr> (T table) h rows"
    by (rule table_tree [OF ok rows])
  let ?bt = "\<lparr>root_page = root, bt_pager = db_pager db\<rparr>"
  have hf: "h \<le> en_fuel en" using fuel by simp
  obtain bt1 where c: "candidate_rows (en_ops en) (en_fuel en) wc ts ?bt = (Inr (candidates wc ts (map as_stored rows)), bt1)"
    and kept: "kept (en_crc en) ?bt bt1"
    by (rule candidate_rows_at [OF r(3) hf])
  have m: "matching_rows (en_rx en) ts wc (candidates wc ts (map as_stored rows)) = Inr ?ds"
    using candidates_matching [OF keyed_stored [OF k] dn] matching_selected [OF k] by simp
  have g1: "active_group (bt_pager bt1) \<noteq> None" using kept g by (simp add: kept_def at_group_def)
  have tat: "tree_at (page_view (bt_pager ?bt)) 0 (T table)" "root_page ?bt = root_id (T table)"
    using r(3) by (simp_all add: table_at_def tree_shown_def)
  have "table_separators db table = root_keys (T table)" using root_separators_tree [OF tat] by (simp add: table_separators_def r(1))
  then have room: "root_keys (T table) = 0 \<or> length ?ds < root_keys (T table) \<and> small_rows rows" using can by (simp add: can_delete_def)
  from delete_rows_at [OF kept_table [OF kept r(3)] g1 fuel room] kept_rows [OF k] obtain bt' t' where
    d: "delete_rows en ?ds bt1 = (Inr (), bt')" "active_group (bt_pager bt') \<noteq> None" "shrunk_at bt1 (T table) bt' t'"
      "table_at (en_crc en) bt' t' h ?rest"
    by metis
  let ?m = "mbind (candidate_rows (en_ops en) (en_fuel en) wc ts) (\<lambda>all_rows.
      mbind (mlift (matching_rows (en_rx en) ts wc all_rows)) (\<lambda>rows_to_delete.
      mbind (delete_rows en rows_to_delete) (\<lambda>_. mret rows_to_delete)))"
  have run: "?m ?bt = (Inr ?ds, bt')" using c m d(1) by (simp add: mbind_def mlift_def mret_def)
  have rs: "reshaped 0 ?bt (T table) bt' t'" by (rule reshaped_kept [OF kept shrunk_reshaped [OF d(3)]])
  from on_btree_grows [where m = ?m, OF r(2) rows r(1) run d(4) order_refl rs] obtain db1 where
    b: "on_btree table ?m db = (Inr ?ds, db1)" "tables_ok en db1 h (fmupd table ?rest data)" "db_pager db1 = bt_pager bt'"
      "ct_schema (db_catalog db1) = ct_schema (db_catalog db)" "db_cdc db1 = db_cdc db" "db_txns db1 = db_txns db"
      "page_view (db_pager db1) 1 = page_view (db_pager db) 1"
      "0 < root_page bt'" "root_page bt' < 2 ^ 32" "ct_btrees (db_catalog db1) = fmupd table (root_page bt') (ct_btrees (db_catalog db))"
    by auto
  have "execute_delete en table wc db = stage_all (\<lambda>(key, before). stage table Delete key (Some before) None) ?ds db1"
    using ts b(1) by (simp add: execute_delete_def mbind_def read_schema_def get_table_def mlift_def)
  note e = this [unfolded stage_deletions]
  have inv: "view_ok (page_view (db_pager db)) (num_pages (db_pager db))" "view_ok (page_view (bt_pager bt')) (num_pages (bt_pager bt'))"
    using r(3) d(4) by (simp_all add: table_at_def pager_inv_def)
  have "(page_view (bt_pager bt') i = None) = (page_view (db_pager db) i = None)" for i
    using d(3) kept by (simp add: shrunk_at_def kept_def)
  then have "num_pages (bt_pager bt') = num_pages (db_pager db)" using inv unfolding view_ok_def by (metis less_irrefl linorder_less_linear)
  with b d(2) show ?thesis unfolding e
    by (intro exI [of _ "db1\<lparr>db_cdc := fold (\<lambda>r. cdc_stage (deletion table r)) (filter (selected en ts wc) rows) (db_cdc db1)\<rparr>"]
        exI [of _ "root_page bt'"]) (auto simp: tables_ok_def)
qed

lemma delete_statement_done:
  assumes ok: "db_ok en db" and a: "ex_active db = None" and tables: "tables_ok en db h data" and rows: "fmlookup data table = Some rows"
    and ts: "fmlookup (ct_schema (db_catalog db)) table = Some ts"
    and k: "keyed ts rows" and dn: "distinct (map col_name (ts_columns ts))" and can: "can_delete en db table ts wc rows"
    and n: "num_pages (db_pager db) \<le> 2 ^ 32" and fuel: "3 * h \<le> en_fuel en"
    and free: "entries_of (ex_locks db) table = []" and lf: "0 < en_lock_fuel en" and ord: "hash_order (en_order en)"
    and io: "io_append (en_io en) = WriteOk" "io_truncate (en_io en) \<noteq> TruncateSyncFails"
  obtains db' where "run_statement en (DeleteFrom table wc) db = (Inr (), db')" and "db_ok en db'"
    and "tables_ok en db' h (fmupd table (filter (\<lambda>r. \<not> selected en ts wc r) rows) data)"
    and "ct_schema (db_catalog db') = ct_schema (db_catalog db)" and "ex_active db' = None"
    and "reopens_as (en_crc en) (pg_file (db_pager db')) (wal_file (pg_wal (db_pager db'))) (page_view (db_pager db'))"
    and "db_cdc db' = publish_staged (fold (\<lambda>r. cdc_stage (deletion table r)) (filter (selected en ts wc) rows) (db_cdc db))"
proof -
  note s = started_facts [OF ok a]
  have 2: "tables_ok en (started table db) h data" "fmlookup (ct_schema (db_catalog (started table db))) table = Some ts"
    using s(1) [OF tables] ts by (simp_all add: s)
  have can': "can_delete en (started table db) table ts wc rows" using can can_delete_cong [OF s(4,5)] by simp
  from delete_done [OF 2(1) rows 2(2) k dn can' s(2) fuel] obtain db3 root where d: "execute_delete en table wc (started table db) = (Inr (), db3)"
      "tables_ok en db3 h (fmupd table (filter (\<lambda>r. \<not> selected en ts wc r) rows) data)"
      "db_cdc db3 = fold (\<lambda>r. cdc_stage (deletion table r)) (filter (selected en ts wc) rows) (db_cdc (started table db))"
      "ct_schema (db_catalog db3) = ct_schema (db_catalog (started table db))"
      "active_group (db_pager db3) \<noteq> None" "num_pages (db_pager db3) = num_pages (db_pager (started table db))"
      "page_view (db_pager db3) 1 = page_view (db_pager (started table db)) 1" "0 < root" "root < 2 ^ 32"
      "ct_btrees (db_catalog db3) = fmupd table root (ct_btrees (db_catalog (started table db)))" "db_txns db3 = db_txns (started table db)"
    by blast
  have n3: "num_pages (db_pager db3) \<le> 2 ^ 32" using d(6) n by (simp add: s)
  have ex: "execute_statement en (DeleteFrom table wc) db = with_table_lock en table Exclusive (execute_delete en table wc) db" for db
    by (simp add: execute_statement_def)
  have st: "DeleteFrom table wc \<notin> {BeginTransaction, CommitTransaction, RollbackTransaction}" by simp
  show thesis
    by (rule locked_statement_done [where f = "execute_delete en table wc", OF ok a st ex d(1,11,2,5,4,7-10) n3 ts free lf ord io])
      (use d(3) in \<open>auto simp: s intro: that\<close>)
qed

end
