(* ===== verification/TableUpdate.thy ===== *)
theory TableUpdate
  imports TableDelete
begin

text \<open>
  UPDATE from the statement to the disk: the new rows are computed and checked against the table first, and then
  every old row leaves the tree and its successor enters it.
\<close>

section \<open>The plan\<close>

text \<open>An update as the code lists it: the old key, the new key, the old row and the new row.\<close>

type_synonym row_update = "i64 \<times> i64 \<times> row \<times> row"

definition upd_key :: "row_update \<Rightarrow> i64" where
  "upd_key u = (case u of (key, new_pk, row, updated) \<Rightarrow> key)"

definition upd_entry :: "row_update \<Rightarrow> i64 \<times> row" where
  "upd_entry u = (case u of (key, new_pk, row, updated) \<Rightarrow> (new_pk, updated))"

lemmas upd_defs = upd_key_def upd_entry_def

text \<open>What the loop over the selected rows computes, given the keys of the table.\<close>

fun planned :: "table_schema \<Rightarrow> nat \<Rightarrow> (string \<times> sql_value) list \<Rightarrow> i64 set \<Rightarrow> (i64 \<times> row) list \<Rightarrow> row_update list result" where
  "planned ts pk as taken [] = Inr []"
| "planned ts pk as taken ((key, row) # rows) =
     rbind (apply_assignments ts pk as (row, key, False)) (\<lambda>(updated, new_pk, pk_updated).
       if pk_updated \<and> new_pk \<noteq> key \<and> new_pk \<in> taken then Inl (Error ConstraintViolation)
       else rbind (planned ts pk as taken rows) (\<lambda>us. Inr ((key, new_pk, row, updated) # us)))"

lemma plan_updates_at:
  assumes "table_at (en_crc en) bt t h rows" and "h \<le> en_fuel en"
  shows "\<exists>bt'. plan_updates en ts pk as rs bt = (planned ts pk as (fst ` set rows) rs, bt') \<and> kept (en_crc en) bt bt'"
  using assms(1)
proof (induction rs arbitrary: bt)
  case Nil
  then show ?case by (auto simp: mret_def table_at_def intro: kept_refl)
next
  case (Cons r rs)
  obtain key row where r: "r = (key, row)" by (cases r)
  have self: "kept (en_crc en) bt bt" using Cons.prems by (intro kept_refl) (simp add: table_at_def)
  show ?case
  proof (cases "apply_assignments ts pk as (row, key, False)")
    case (Inl e)
    then show ?thesis using self by (auto simp: r mbind_def mlift_def rbind_def)
  next
    case (Inr a)
    obtain updated new_pk upd where a: "a = (updated, new_pk, upd)" by (cases a)
    let ?test = "if upd \<and> new_pk \<noteq> key then mbind (btree_search (en_ops en) (en_fuel en) new_pk) (\<lambda>r. mret (r \<noteq> None)) else mret False"
    obtain bt1 where 1: "?test bt = (Inr (upd \<and> new_pk \<noteq> key \<and> new_pk \<in> fst ` set rows), bt1)" "kept (en_crc en) bt bt1"
    proof (cases "upd \<and> new_pk \<noteq> key")
      case True
      obtain bt1 where s: "btree_search (en_ops en) (en_fuel en) new_pk bt = (Inr (map_option stored_row (map_of rows new_pk)), bt1)"
        "kept (en_crc en) bt bt1"
        by (rule search_at [OF Cons.prems assms(2)])
      have "map_of rows new_pk \<noteq> None \<longleftrightarrow> new_pk \<in> fst ` set rows" by (simp add: map_of_eq_None_iff)
      with True s show thesis by (intro that [of bt1]) (simp_all add: mbind_def mret_def)
    next
      case False
      then show thesis using self by (intro that [of bt]) (auto simp: mret_def)
    qed
    obtain bt2 where 2: "plan_updates en ts pk as rs bt1 = (planned ts pk as (fst ` set rows) rs, bt2)" "kept (en_crc en) bt1 bt2"
      using Cons.IH [OF kept_table [OF 1(2) Cons.prems]] by blast
    have p: "plan_updates en ts pk as (r # rs) bt = mbind ?test (\<lambda>exists. if exists then mfail (Error ConstraintViolation)
        else mbind (plan_updates en ts pk as rs) (\<lambda>more. mret ((key, new_pk, row, updated) # more))) bt"
      by (simp add: r Inr a mbind_def [of "mlift _"] mlift_def)
    show ?thesis
    proof (cases "upd \<and> new_pk \<noteq> key \<and> new_pk \<in> fst ` set rows")
      case True
      then have "plan_updates en ts pk as (r # rs) bt = (planned ts pk as (fst ` set rows) (r # rs), bt1)"
        unfolding p mbind_def 1(1) by (simp add: r Inr a rbind_def mfail_def)
      with 1(2) show ?thesis by blast
    next
      case False
      have "plan_updates en ts pk as (r # rs) bt = (planned ts pk as (fst ` set rows) (r # rs), bt2)"
        unfolding p mbind_def 1(1) using False 2(1) by (auto simp: r Inr a rbind_def mret_def split: sum.split)
      with kept_trans [OF 1(2) 2(2)] show ?thesis by blast
    qed
  qed
qed

text \<open>A key that is not assigned stays; an assigned one is free.\<close>

lemma assigned_key:
  "apply_assignments ts pk as (row, key, u) = Inr (row', key', u') \<Longrightarrow> (u \<longrightarrow> u') \<and> (\<not> u' \<longrightarrow> key' = key)"
proof (induction as arbitrary: row key u)
  case (Cons a as)
  obtain name v where "a = (name, v)" by (cases a)
  with Cons show ?case by (fastforce simp: rbind_eq_Inr split: option.splits if_splits)
qed simp

lemma planned_keys:
  assumes "planned ts pk as taken rs = Inr us"
  shows "map upd_key us = map fst rs" and "\<forall>u\<in>set us. fst (upd_entry u) \<in> taken \<longrightarrow> fst (upd_entry u) = upd_key u"
proof -
  have "map upd_key us = map fst rs \<and> (\<forall>u\<in>set us. fst (upd_entry u) \<in> taken \<longrightarrow> fst (upd_entry u) = upd_key u)"
    using assms
  proof (induction rs arbitrary: us)
    case (Cons r rs)
    obtain key row where r: "r = (key, row)" by (cases r)
    from Cons.prems obtain updated new_pk upd us' where
      a: "apply_assignments ts pk as (row, key, False) = Inr (updated, new_pk, upd)" "\<not> (upd \<and> new_pk \<noteq> key \<and> new_pk \<in> taken)"
        "planned ts pk as taken rs = Inr us'" "us = (key, new_pk, row, updated) # us'"
      by (auto simp: r rbind_eq_Inr split: if_splits)
    from Cons.IH [OF a(3)] a(2,4) assigned_key [OF a(1)] show ?case by (auto simp: r upd_defs)
  qed simp
  then show "map upd_key us = map fst rs" and "\<forall>u\<in>set us. fst (upd_entry u) \<in> taken \<longrightarrow> fst (upd_entry u) = upd_key u" by blast+
qed

section \<open>The UNIQUE check\<close>

definition update_unique :: "env \<Rightarrow> table_schema \<Rightarrow> (string \<times> sql_value) list \<Rightarrow> (i64 \<times> row) list \<Rightarrow> row_update list \<Rightarrow> unit result" where
  "update_unique en ts as rows us =
     (let touched = filter (\<lambda>ci. col_name (ts_columns ts ! ci) \<in> fst ` set as) (unique_columns ts) in
      if touched = [] \<or> us = [] then Inr ()
      else check_unique (en_fmt en) touched
        (map snd (filter (\<lambda>r. fst r \<notin> upd_key ` set us) rows) @ map (\<lambda>u. snd (upd_entry u)) us))"

lemma upd_fst: "upd_key u = fst u" "snd (upd_entry u) = snd (snd (snd u))" "fst (upd_entry u) = fst (snd u)"
  by (cases u; simp add: upd_defs)+

lemma check_update_at:
  assumes at: "table_at (en_crc en) bt t h rows" and "h \<le> en_fuel en"
  obtains bt' where "check_update_unique en ts as us bt = (update_unique en ts as (map as_stored rows) us, bt')"
    and "kept (en_crc en) bt bt'"
proof (cases "filter (\<lambda>ci. col_name (ts_columns ts ! ci) \<in> fst ` set as) (unique_columns ts) = [] \<or> us = []")
  case True
  have "kept (en_crc en) bt bt" using at by (intro kept_refl) (simp add: table_at_def)
  with True show thesis by (intro that [of bt]) (auto simp: check_update_unique_def update_unique_def Let_def mret_def)
next
  case False
  obtain bt' where s: "btree_scan (en_ops en) (en_fuel en) bt = (Inr (map as_stored rows), bt')" "kept (en_crc en) bt bt'"
    by (rule scan_at [OF assms])
  with False show thesis
    by (intro that [of bt']) (simp_all add: check_update_unique_def update_unique_def Let_def mbind_def mlift_def case_prod_unfold upd_fst)
qed

section \<open>The rows after the updates\<close>

definition update_row :: "row_update \<Rightarrow> (i64 \<times> row) list \<Rightarrow> (i64 \<times> row) list" where
  "update_row u rows = insert_row (fst (upd_entry u)) (snd (upd_entry u)) (delete_row (upd_key u) rows)"

lemma set_insert_row: "set (insert_row k r rows) = insert (k, r) (set rows)"
proof -
  have "set (takeWhile P rows) \<union> set (dropWhile P rows) = set rows" for P by (metis set_append takeWhile_dropWhile_id)
  then show ?thesis by (simp add: insert_row_def)
qed

lemma set_update_row: "set (update_row u rows) = insert (upd_entry u) {r \<in> set rows. fst r \<noteq> upd_key u}"
  by (auto simp: update_row_def set_insert_row delete_row_def)

text \<open>No new key meets another row, among the old ones and the new ones.\<close>

definition fresh_keys :: "i64 set \<Rightarrow> row_update list \<Rightarrow> bool" where
  "fresh_keys taken us \<longleftrightarrow> distinct (map upd_key us) \<and> upd_key ` set us \<subseteq> taken \<and> distinct (map (fst \<circ> upd_entry) us)
     \<and> (\<forall>u\<in>set us. fst (upd_entry u) \<in> taken \<longrightarrow> fst (upd_entry u) = upd_key u)"

lemma fresh_keys_step:
  assumes "fresh_keys (fst ` set rows) (u # us)"
  shows "fst (upd_entry u) \<notin> fst ` set (delete_row (upd_key u) rows)" and "fresh_keys (fst ` set (update_row u rows)) us"
proof -
  show "fst (upd_entry u) \<notin> fst ` set (delete_row (upd_key u) rows)" using assms by (auto simp: fresh_keys_def delete_row_def)
  have k: "fst ` set (update_row u rows) = insert (fst (upd_entry u)) (fst ` set rows - {upd_key u})" by (auto simp: set_update_row)
  have "upd_key u \<notin> upd_key ` set us" "upd_key ` set us \<subseteq> fst ` set rows" using assms by (simp_all add: fresh_keys_def)
  then have "upd_key ` set us \<subseteq> fst ` set rows - {upd_key u}" by blast
  then have "upd_key ` set us \<subseteq> fst ` set (update_row u rows)" unfolding k by blast
  moreover have "fst (upd_entry v) = upd_key v" if v: "v \<in> set us" "fst (upd_entry v) \<in> fst ` set (update_row u rows)" for v
  proof -
    have "fst (upd_entry u) \<notin> (\<lambda>w. fst (upd_entry w)) ` set us" using assms by (simp add: fresh_keys_def comp_def)
    then have "fst (upd_entry v) \<noteq> fst (upd_entry u)" using v(1) by (metis imageI)
    then have "fst (upd_entry v) \<in> fst ` set rows" using v(2) unfolding k by blast
    then show ?thesis using assms v(1) by (simp add: fresh_keys_def)
  qed
  ultimately show "fresh_keys (fst ` set (update_row u rows)) us" using assms by (simp add: fresh_keys_def)
qed

lemma set_updates:
  assumes "fresh_keys (fst ` set rows) us"
  shows "set (fold update_row us rows) = {r \<in> set rows. fst r \<notin> upd_key ` set us} \<union> upd_entry ` set us"
  using assms
proof (induction us arbitrary: rows)
  case (Cons u us)
  have n: "fst (upd_entry u) \<notin> upd_key ` set us"
    using Cons.prems by (auto simp: fresh_keys_def)
  show ?case using Cons.IH [OF fresh_keys_step(2) [OF Cons.prems]] n by (auto simp: set_update_row)
qed simp

section \<open>Running the updates\<close>

lemma update_at:
  assumes at: "table_at (en_crc en) bt t h rows" and g: "active_group (bt_pager bt) \<noteq> None"
    and new: "fst (upd_entry u) \<notin> fst ` set (delete_row (upd_key u) rows)" and ok: "row_ok (snd (upd_entry u))"
    and small: "list_all (\<lambda>r. length (serialize_row (snd r)) \<le> 164) (upd_entry u # rows)"
    and room: "h < page_room (bt_pager bt)" and fuel: "3 * h \<le> en_fuel en"
    and keys: "root_keys t = 0 \<or> 2 \<le> root_keys t \<and> small_rows rows"
  obtains bt' t' where "run_updates en (u # us) bt = run_updates en us bt'"
    and "table_at (en_crc en) bt' t' (grown_height h (delete_row (upd_key u) rows) (snd (upd_entry u))) (update_row u rows)"
    and "active_group (bt_pager bt') \<noteq> None" and "reshaped (Suc h) bt t bt' t'"
proof -
  obtain key n row updated where u: "u = (key, n, row, updated)" by (cases u)
  obtain bt1 t1 where 1: "btree_delete (en_ops en) (en_fuel en) key bt = (Inr (key \<in> fst ` set rows), bt1)"
    "table_at (en_crc en) bt1 t1 h (delete_row key rows)" "active_group (bt_pager bt1) \<noteq> None" "shrunk_at bt t bt1 t1"
    by (rule delete_at [OF at g fuel keys])
  have 2: "n \<notin> fst ` set (delete_row key rows)" "row_ok updated"
    "list_all (\<lambda>r. length (serialize_row (snd r)) \<le> 164) ((n, updated) # delete_row key rows)" "h < page_room (bt_pager bt1)"
    using new ok small room 1(4) by (auto simp: u upd_defs list_all_iff delete_row_def shrunk_at_def)
  obtain bt2 t2 where 3: "btree_insert (en_ops en) (en_fuel en) n updated bt1 = (Inr (), bt2)"
    "table_at (en_crc en) bt2 t2 (grown_height h (delete_row key rows) updated) (insert_row n updated (delete_row key rows))"
    "active_group (bt_pager bt2) \<noteq> None" "reshaped (Suc h) bt1 t1 bt2 t2"
    by (rule insert_at [OF 1(2,3) 2 fuel])
  have "run_updates en (u # us) bt = run_updates en us bt2" using 1(1) 3(1) by (simp add: u mbind_def)
  moreover have "reshaped (Suc h) bt t bt2 t2" using reshaped_trans [OF shrunk_reshaped [OF 1(4)] 3(4)] by simp
  ultimately show thesis using 3(2,3) by (intro that [of bt2 t2]) (simp_all add: u upd_defs update_row_def)
qed

text \<open>The rows of a single leaf, with all old and all new ones on the page at once.\<close>

definition leaf_room :: "(i64 \<times> row) list \<Rightarrow> row_update list \<Rightarrow> bool" where
  "leaf_room rows us \<longleftrightarrow> HEADER_SIZE + entries_len (map encode_entry rows) + entries_len (map encode_entry (map upd_entry us)) \<le> page_size"

lemma entries_len_filter: "entries_len (map encode_entry (filter P rows)) \<le> entries_len (map encode_entry rows)"
  by (induction rows) auto

lemma entries_len_insert: "entries_len (map encode_entry (insert_row k r rows)) = 12 + length (serialize_row r) + entries_len (map encode_entry rows)"
proof -
  have "entries_len (map encode_entry rows) = entries_len (map encode_entry (takeWhile P rows)) + entries_len (map encode_entry (dropWhile P rows))" for P
    by (metis entries_simps(6) map_append takeWhile_dropWhile_id)
  from this [of "\<lambda>r. sint (fst r) \<le> sint k"] show ?thesis by (simp add: insert_row_def encode_entry_def)
qed

lemma leaf_room_step:
  assumes "leaf_room rows (u # us)"
  shows "grown_height 1 (delete_row (upd_key u) rows) (snd (upd_entry u)) = 1" and "leaf_room (update_row u rows) us"
  using assms entries_len_filter [of "\<lambda>r. fst r \<noteq> upd_key u" rows]
  by (simp_all add: leaf_room_def grown_height_def fits_leaf_def update_row_def entries_len_insert delete_row_def encode_entry_def)

lemma leaf_updates:
  assumes "table_at (en_crc en) bt t 1 rows" and "active_group (bt_pager bt) \<noteq> None" and "fresh_keys (fst ` set rows) us"
    and "list_all (\<lambda>u. row_ok (snd (upd_entry u))) us"
    and "list_all (\<lambda>r. length (serialize_row (snd r)) \<le> 164) (map upd_entry us @ rows)"
    and "2 * length us < page_room (bt_pager bt)" and "3 \<le> en_fuel en" and "leaf_room rows us"
  shows "\<exists>bt' t'. run_updates en us bt = (Inr (), bt') \<and> table_at (en_crc en) bt' t' 1 (fold update_row us rows)
    \<and> active_group (bt_pager bt') \<noteq> None \<and> reshaped (2 * length us) bt t bt' t'"
  using assms
proof (induction us arbitrary: bt t rows)
  case Nil
  then show ?case by (auto simp: mret_def reshaped_def)
next
  case (Cons u us)
  have "0 < height t" by (cases t) simp_all
  then have "height t = 1" using Cons.prems(1) by (simp add: table_at_def tree_shown_def)
  then have k: "root_keys t = 0" by (metis height_one root_keys.simps(1))
  note f = fresh_keys_step [OF Cons.prems(3)] and l = leaf_room_step [OF Cons.prems(8)]
  obtain bt1 t1 where 1: "run_updates en (u # us) bt = run_updates en us bt1"
    "table_at (en_crc en) bt1 t1 (grown_height 1 (delete_row (upd_key u) rows) (snd (upd_entry u))) (update_row u rows)"
    "active_group (bt_pager bt1) \<noteq> None" "reshaped (Suc 1) bt t bt1 t1"
    by (rule update_at [OF Cons.prems(1,2) f(1)]) (use Cons.prems k in auto)
  have room: "2 * length us < page_room (bt_pager bt1)" using 1(4) Cons.prems(6) by (simp add: reshaped_def)
  have small: "list_all (\<lambda>r. length (serialize_row (snd r)) \<le> 164) (map upd_entry us @ update_row u rows)"
    using Cons.prems(5) by (auto simp: list_all_iff set_update_row)
  have ok: "list_all (\<lambda>u. row_ok (snd (upd_entry u))) us" using Cons.prems(4) by simp
  from Cons.IH [OF 1(2) [unfolded l(1)] 1(3) f(2) ok small room Cons.prems(7) l(2)] obtain bt' t' where
    2: "run_updates en us bt1 = (Inr (), bt')" "table_at (en_crc en) bt' t' 1 (fold update_row us (update_row u rows))"
      "active_group (bt_pager bt') \<noteq> None" "reshaped (2 * length us) bt1 t1 bt' t'"
    by blast
  from reshaped_trans [OF 1(4) 2(4)] have "reshaped (2 * length (u # us)) bt t bt' t'" by simp
  with 1(1) 2 show ?case by auto
qed

definition update_room :: "nat \<Rightarrow> (i64 \<times> row) list \<Rightarrow> row_update list \<Rightarrow> bool" where
  "update_room k rows us \<longleftrightarrow> us = [] \<or> length us = 1 \<and> (k = 0 \<or> 2 \<le> k \<and> small_rows rows) \<or> k = 0 \<and> leaf_room rows us"

lemma run_updates_at:
  assumes at: "table_at (en_crc en) bt t h rows" and g: "active_group (bt_pager bt) \<noteq> None" and fresh: "fresh_keys (fst ` set rows) us"
    and ok: "list_all (\<lambda>u. row_ok (snd (upd_entry u))) us"
    and small: "list_all (\<lambda>r. length (serialize_row (snd r)) \<le> 164) (map upd_entry us @ rows)"
    and room: "Suc h * length us < page_room (bt_pager bt)" and fuel: "3 * h \<le> en_fuel en" and can: "update_room (root_keys t) rows us"
  shows "\<exists>bt' t'. run_updates en us bt = (Inr (), bt') \<and> table_at (en_crc en) bt' t' (Suc h) (fold update_row us rows)
    \<and> active_group (bt_pager bt') \<noteq> None \<and> reshaped (Suc h * length us) bt t bt' t'"
proof -
  have mono: "table_at (en_crc en) b w (Suc h) ws" if "table_at (en_crc en) b w h' ws" "h' \<le> Suc h" for b w h' ws
    using that by (auto simp: table_at_def intro: tree_shown_mono)
  have h: "0 < height t" "height t \<le> h" using table_at_holds(3) [OF at] by (cases t; simp)+
  from can consider "us = []" | u where "us = [u]" "root_keys t = 0 \<or> 2 \<le> root_keys t \<and> small_rows rows" | "root_keys t = 0" "leaf_room rows us"
    unfolding update_room_def by (cases us) auto
  then show ?thesis
  proof cases
    case 1
    then show ?thesis using mono [OF at] g by (auto simp: mret_def reshaped_def)
  next
    case (2 u)
    obtain bt' t' where r: "run_updates en (u # []) bt = run_updates en [] bt'"
      "table_at (en_crc en) bt' t' (grown_height h (delete_row (upd_key u) rows) (snd (upd_entry u))) (update_row u rows)"
      "active_group (bt_pager bt') \<noteq> None" "reshaped (Suc h) bt t bt' t'"
      by (rule update_at [OF at g fresh_keys_step(1) [OF fresh [unfolded 2(1)]], where us = "[]"]) (use ok small room fuel 2 in auto)
    have "grown_height h (delete_row (upd_key u) rows) (snd (upd_entry u)) \<le> Suc h" by (simp add: grown_height_def)
    from mono [OF r(2) this] r(1,3,4) show ?thesis by (auto simp: 2(1) mret_def)
  next
    case 3
    have "height t = 1" using no_separators [OF table_at_holds(6) [OF at] 3(1)] .
    then have at1: "table_at (en_crc en) bt t 1 rows" using at by (simp add: table_at_def tree_shown_def)
    have "2 * length us \<le> Suc h * length us" using h by (intro mult_le_mono1) simp
    then have room': "2 * length us < page_room (bt_pager bt)" using room by linarith
    have fuel': "3 \<le> en_fuel en" using fuel h by simp
    from leaf_updates [OF at1 g fresh ok small room' fuel' 3(2)] obtain bt' t' where
      r: "run_updates en us bt = (Inr (), bt')" "table_at (en_crc en) bt' t' 1 (fold update_row us rows)"
        "active_group (bt_pager bt') \<noteq> None" "reshaped (2 * length us) bt t bt' t'"
      by blast
    have "reshaped (Suc h * length us) bt t bt' t'" using r(4) \<open>2 * length us \<le> _\<close> unfolding reshaped_def by (meson add_left_mono order_trans)
    moreover have "table_at (en_crc en) bt' t' (Suc h) (fold update_row us rows)" by (rule mono [OF r(2)]) simp
    ultimately show ?thesis using r(1,3) by blast
  qed
qed

section \<open>The statement\<close>

text \<open>What an UPDATE is to do: the list of its updates, or the error.\<close>

definition update_outcome ::
    "env \<Rightarrow> table_schema \<Rightarrow> (i64 \<times> row) list \<Rightarrow> (string \<times> sql_value) list \<Rightarrow> where_clause option \<Rightarrow> row_update list result" where
  "update_outcome en ts rows as wc =
     rbind (index_or ConstraintViolation (position col_primary_key (ts_columns ts))) (\<lambda>pk.
     rbind (planned ts pk as (fst ` set rows) (map as_stored (filter (selected en ts wc) rows))) (\<lambda>us.
     rbind (update_unique en ts as (map as_stored rows) us) (\<lambda>_. Inr us)))"

definition modification :: "string \<Rightarrow> row_update \<Rightarrow> change" where
  "modification table u = (case u of (key, new_pk, before, after) \<Rightarrow>
     \<lparr>ch_table = table, ch_op = Update, ch_rowid = key, ch_before = Some before, ch_after = Some after\<rparr>)"

lemma stage_updates:
  "stage_all (\<lambda>(key, _, before, after). stage table Update key (Some before) (Some after)) us db =
     (Inr (), db\<lparr>db_cdc := fold (\<lambda>u. cdc_stage (modification table u)) us (db_cdc db)\<rparr>)"
  by (rule stage_all_log) (simp add: stage_def modification_def case_prod_unfold)

text \<open>Planning and checking read the table only.\<close>

lemma update_rows_at:
  assumes at: "table_at (en_crc en) bt t h rows" and hf: "h \<le> en_fuel en"
    and k: "keyed ts rows" and dn: "distinct (map col_name (ts_columns ts))"
  shows "\<exists>bt'. kept (en_crc en) bt bt' \<and> update_rows en ts as wc bt =
    (case update_outcome en ts rows as wc of Inl e \<Rightarrow> (Inl e, bt') | Inr us \<Rightarrow> mbind (run_updates en us) (\<lambda>_. mret us) bt')"
proof -
  let ?rs = "map as_stored (filter (selected en ts wc) rows)"
  obtain bt1 where c: "candidate_rows (en_ops en) (en_fuel en) wc ts bt = (Inr (candidates wc ts (map as_stored rows)), bt1)"
    and k1: "kept (en_crc en) bt bt1"
    by (rule candidate_rows_at [OF at hf])
  have m: "matching_rows (en_rx en) ts wc (candidates wc ts (map as_stored rows)) = Inr ?rs"
    using candidates_matching [OF keyed_stored [OF k] dn] matching_selected [OF k] by simp
  obtain pk where pk: "position col_primary_key (ts_columns ts) = Some pk" using k by (auto simp: keyed_def)
  have at1: "table_at (en_crc en) bt1 t h rows" by (rule kept_table [OF k1 at])
  obtain bt2 where p: "plan_updates en ts pk as ?rs bt1 = (planned ts pk as (fst ` set rows) ?rs, bt2)" and k2: "kept (en_crc en) bt1 bt2"
    using plan_updates_at [OF at1 hf] by blast
  have pre: "update_rows en ts as wc bt = mbind (plan_updates en ts pk as ?rs) (\<lambda>updates.
      mbind (check_update_unique en ts as updates) (\<lambda>_. mbind (run_updates en updates) (\<lambda>_. mret updates))) bt1"
    using c m pk by (simp add: update_rows_def mbind_def mlift_def index_or_def)
  show ?thesis
  proof (cases "planned ts pk as (fst ` set rows) ?rs")
    case (Inl e)
    with p pre kept_trans [OF k1 k2] show ?thesis
      by (intro exI [of _ bt2]) (simp add: mbind_def update_outcome_def pk index_or_def rbind_def)
  next
    case (Inr us)
    have at2: "table_at (en_crc en) bt2 t h rows" by (rule kept_table [OF k2 at1])
    obtain bt3 where u: "check_update_unique en ts as us bt2 = (update_unique en ts as (map as_stored rows) us, bt3)" "kept (en_crc en) bt2 bt3"
      by (rule check_update_at [OF at2 hf])
    with Inr p pre kept_trans [OF kept_trans [OF k1 k2] u(2)] show ?thesis
      by (intro exI [of _ bt3]) (simp add: mbind_def update_outcome_def pk index_or_def rbind_def split: sum.split)
  qed
qed

definition can_update :: "env \<Rightarrow> database \<Rightarrow> string \<Rightarrow> (i64 \<times> row) list \<Rightarrow> row_update list \<Rightarrow> bool" where
  "can_update en db table rows us \<longleftrightarrow> distinct (map (fst \<circ> upd_entry) us) \<and> list_all (\<lambda>u. row_ok (snd (upd_entry u))) us
     \<and> list_all (\<lambda>r. length (serialize_row (snd r)) \<le> 164) (map upd_entry us @ rows) \<and> update_room (table_separators db table) rows us"

lemma can_update_cong:
  assumes "ct_btrees (db_catalog db') = ct_btrees (db_catalog db)" and "page_view (db_pager db') = page_view (db_pager db)"
  shows "can_update en db' table rows us = can_update en db table rows us"
proof -
  have "table_separators db' table = table_separators db table"
    using assms by (simp add: table_separators_def root_separators_def split: option.split)
  then show ?thesis by (simp add: can_update_def)
qed

lemma outcome_fresh:
  assumes "update_outcome en ts rows as wc = Inr us" and "keyed ts rows" and "distinct (map (fst \<circ> upd_entry) us)"
  shows "fresh_keys (fst ` set rows) us"
proof -
  from assms(1) obtain pk where p: "planned ts pk as (fst ` set rows) (map as_stored (filter (selected en ts wc) rows)) = Inr us"
    by (auto simp: update_outcome_def rbind_eq_Inr)
  have "map upd_key us = map fst (filter (selected en ts wc) rows)" using planned_keys(1) [OF p] by (simp add: comp_def as_stored_def)
  moreover from this have "upd_key ` set us = fst ` set (filter (selected en ts wc) rows)" by (metis set_map)
  moreover have "distinct (map fst (filter (selected en ts wc) rows))" using assms(2) by (simp add: keyed_def distinct_map_filter)
  ultimately show ?thesis using planned_keys(2) [OF p] assms(3) by (auto simp: fresh_keys_def)
qed

lemma update_done:
  assumes ok: "tables_ok en db h data" and rows: "fmlookup data table = Some rows"
    and ts: "fmlookup (ct_schema (db_catalog db)) table = Some ts"
    and k: "keyed ts rows" and dn: "distinct (map col_name (ts_columns ts))"
    and out: "update_outcome en ts rows as wc = Inr us" and can: "can_update en db table rows us"
    and g: "active_group (db_pager db) \<noteq> None" and room: "Suc h * length us < page_room (db_pager db)" and fuel: "3 * h \<le> en_fuel en"
  shows "\<exists>db' root. execute_update en table as wc db = (Inr (), db')
     \<and> tables_ok en db' (Suc h) (fmupd table (fold update_row us rows) data)
     \<and> ct_schema (db_catalog db') = ct_schema (db_catalog db)
     \<and> db_cdc db' = fold (\<lambda>u. cdc_stage (modification table u)) us (db_cdc db)
     \<and> active_group (db_pager db') \<noteq> None \<and> num_pages (db_pager db') \<le> 2 ^ 32
     \<and> page_view (db_pager db') 1 = page_view (db_pager db) 1
     \<and> 0 < root \<and> root < 2 ^ 32 \<and> ct_btrees (db_catalog db') = fmupd table root (ct_btrees (db_catalog db))
     \<and> db_txns db' = db_txns db"
proof -
  let ?rest = "fold update_row us rows"
  obtain root T where r: "fmlookup (ct_btrees (db_catalog db)) table = Some root"
    "store (page_view (db_pager db)) (ct_btrees (db_catalog db)) T h data"
    "table_at (en_crc en) \<lparr>root_page = root, bt_pager = db_pager db\<rparr> (T table) h rows"
    by (rule table_tree [OF ok rows])
  let ?bt = "\<lparr>root_page = root, bt_pager = db_pager db\<rparr>"
  have hf: "h \<le> en_fuel en" using fuel by simp
  obtain bt1 where kept: "kept (en_crc en) ?bt bt1" and u: "update_rows en ts as wc ?bt = mbind (run_updates en us) (\<lambda>_. mret us) bt1"
    using update_rows_at [OF r(3) hf k dn, of as wc] out by auto
  have 1: "active_group (bt_pager bt1) \<noteq> None" "Suc h * length us < page_room (bt_pager bt1)"
    using kept g room by (simp_all add: kept_def at_group_def)
  have tat: "tree_at (page_view (bt_pager ?bt)) 0 (T table)" "root_page ?bt = root_id (T table)"
    using r(3) by (simp_all add: table_at_def tree_shown_def)
  have "table_separators db table = root_keys (T table)" using root_separators_tree [OF tat] by (simp add: table_separators_def r(1))
  with can have 2: "distinct (map (fst \<circ> upd_entry) us)" "list_all (\<lambda>u. row_ok (snd (upd_entry u))) us"
    "list_all (\<lambda>r. length (serialize_row (snd r)) \<le> 164) (map upd_entry us @ rows)" "update_room (root_keys (T table)) rows us"
    unfolding can_update_def by metis+
  from run_updates_at [OF kept_table [OF kept r(3)] 1(1) outcome_fresh [OF out k 2(1)] 2(2,3) 1(2) fuel 2(4)] obtain bt' t' where
    d: "run_updates en us bt1 = (Inr (), bt')" "table_at (en_crc en) bt' t' (Suc h) ?rest"
      "active_group (bt_pager bt') \<noteq> None" "reshaped (Suc h * length us) bt1 (T table) bt' t'"
    by blast
  have run: "update_rows en ts as wc ?bt = (Inr us, bt')" using u d(1) by (simp add: mbind_def mret_def)
  have rs: "reshaped (Suc h * length us) ?bt (T table) bt' t'" by (rule reshaped_kept [OF kept d(4)])
  have hh: "h \<le> Suc h" by simp
  from on_btree_grows [where m = "update_rows en ts as wc", OF r(2) rows r(1) run d(2) hh rs] obtain db1 where
    b: "on_btree table (update_rows en ts as wc) db = (Inr us, db1)" "tables_ok en db1 (Suc h) (fmupd table ?rest data)"
      "db_pager db1 = bt_pager bt'" "ct_schema (db_catalog db1) = ct_schema (db_catalog db)" "db_cdc db1 = db_cdc db" "db_txns db1 = db_txns db"
      "page_view (db_pager db1) 1 = page_view (db_pager db) 1"
      "0 < root_page bt'" "root_page bt' < 2 ^ 32" "ct_btrees (db_catalog db1) = fmupd table (root_page bt') (ct_btrees (db_catalog db))"
    by auto
  have "execute_update en table as wc db = stage_all (\<lambda>(key, _, before, after). stage table Update key (Some before) (Some after)) us db1"
    using ts b(1) by (simp add: execute_update_def mbind_def read_schema_def get_table_def mlift_def)
  note e = this [unfolded stage_updates]
  have "0 < page_room (bt_pager bt')" using rs room by (simp add: reshaped_def)
  then have "num_pages (bt_pager bt') \<le> 2 ^ 32" by (simp add: page_room_def)
  with b d(3) show ?thesis unfolding e
    by (intro exI [of _ "db1\<lparr>db_cdc := fold (\<lambda>u. cdc_stage (modification table u)) us (db_cdc db1)\<rparr>"] exI [of _ "root_page bt'"])
      (auto simp: tables_ok_def)
qed

lemma update_statement_done:
  assumes ok: "db_ok en db" and a: "ex_active db = None" and tables: "tables_ok en db h data" and rows: "fmlookup data table = Some rows"
    and ts: "fmlookup (ct_schema (db_catalog db)) table = Some ts"
    and k: "keyed ts rows" and dn: "distinct (map col_name (ts_columns ts))"
    and out: "update_outcome en ts rows as wc = Inr us" and can: "can_update en db table rows us"
    and room: "Suc h * length us < page_room (db_pager db)" and fuel: "3 * h \<le> en_fuel en"
    and free: "entries_of (ex_locks db) table = []" and lf: "0 < en_lock_fuel en" and ord: "hash_order (en_order en)"
    and io: "io_append (en_io en) = WriteOk" "io_truncate (en_io en) \<noteq> TruncateSyncFails"
  obtains db' where "run_statement en (UpdateSet table as wc) db = (Inr (), db')" and "db_ok en db'"
    and "tables_ok en db' (Suc h) (fmupd table (fold update_row us rows) data)"
    and "ct_schema (db_catalog db') = ct_schema (db_catalog db)" and "ex_active db' = None"
    and "reopens_as (en_crc en) (pg_file (db_pager db')) (wal_file (pg_wal (db_pager db'))) (page_view (db_pager db'))"
    and "db_cdc db' = publish_staged (fold (\<lambda>u. cdc_stage (modification table u)) us (db_cdc db))"
proof -
  note s = started_facts [OF ok a]
  have 2: "tables_ok en (started table db) h data" "fmlookup (ct_schema (db_catalog (started table db))) table = Some ts"
    "Suc h * length us < page_room (db_pager (started table db))"
    using s(1) [OF tables] ts room by (simp_all add: s)
  have can': "can_update en (started table db) table rows us" using can can_update_cong [OF s(4,5)] by simp
  from update_done [OF 2(1) rows 2(2) k dn out can' s(2) 2(3) fuel] obtain db3 root where d: "execute_update en table as wc (started table db) = (Inr (), db3)"
      "tables_ok en db3 (Suc h) (fmupd table (fold update_row us rows) data)"
      "db_cdc db3 = fold (\<lambda>u. cdc_stage (modification table u)) us (db_cdc (started table db))"
      "ct_schema (db_catalog db3) = ct_schema (db_catalog (started table db))"
      "active_group (db_pager db3) \<noteq> None" "num_pages (db_pager db3) \<le> 2 ^ 32"
      "page_view (db_pager db3) 1 = page_view (db_pager (started table db)) 1" "0 < root" "root < 2 ^ 32"
      "ct_btrees (db_catalog db3) = fmupd table root (ct_btrees (db_catalog (started table db)))" "db_txns db3 = db_txns (started table db)"
    by blast
  have ex: "execute_statement en (UpdateSet table as wc) db = with_table_lock en table Exclusive (execute_update en table as wc) db" for db
    by (simp add: execute_statement_def)
  have st: "UpdateSet table as wc \<notin> {BeginTransaction, CommitTransaction, RollbackTransaction}" by simp
  show thesis
    by (rule locked_statement_done [where f = "execute_update en table as wc", OF ok a st ex d(1,11,2,5,4,7-10,6) ts free lf ord io])
      (use d(3) in \<open>auto simp: s intro: that\<close>)
qed

lemma updated_set:
  assumes "update_outcome en ts rows as wc = Inr us" and "keyed ts rows" and "distinct (map (fst \<circ> upd_entry) us)"
  shows "set (fold update_row us rows) = {r \<in> set rows. \<not> selected en ts wc r} \<union> upd_entry ` set us"
proof -
  from assms(1) obtain pk where p: "planned ts pk as (fst ` set rows) (map as_stored (filter (selected en ts wc) rows)) = Inr us"
    by (auto simp: update_outcome_def rbind_eq_Inr)
  have k: "upd_key ` set us = fst ` set (map as_stored (filter (selected en ts wc) rows))" using planned_keys(1) [OF p] by (metis set_map)
  have "{r \<in> set rows. fst r \<notin> upd_key ` set us} = {r \<in> set rows. \<not> selected en ts wc r}"
    using arg_cong [OF kept_rows [OF assms(2), of "selected en ts wc"], of set] unfolding k set_filter .
  then show ?thesis using set_updates [OF outcome_fresh [OF assms]] by simp
qed

end
