(* ===== verification/TableTheorems.thy ===== *)
theory TableTheorems
  imports TableUpdate DatabaseTheorems
begin

text \<open>
  Properties of the statements on tables: what they do to the rows, what they refuse, and that an
  acknowledged change is there after a restart.
\<close>

section \<open>A sample table\<close>

definition sample_columns :: "column list" where
  "sample_columns = [sample_column, \<lparr>col_name = ''n'', col_data_type = DtText, col_primary_key = False, col_not_null = True, col_unique = True\<rparr>]"

abbreviation sample_schema :: "nat \<Rightarrow> table_schema" where
  "sample_schema root \<equiv> \<lparr>ts_name = ''t'', ts_columns = sample_columns, ts_root_page = root\<rparr>"

definition table_env :: env where
  "table_env = sample_env\<lparr>en_fuel := 9\<rparr>"

abbreviation sample_values :: "sql_value list" where
  "sample_values \<equiv> [VInteger 5, VText ''a'']"

definition sample_created :: database where
  "sample_created = snd (run_statement table_env (CreateTable ''t'' sample_columns) sample_db)"

definition sample_filled :: database where
  "sample_filled = snd (run_statement table_env (InsertInto ''t'' None sample_values) sample_created)"

definition sample_clause :: "where_clause option" where
  "sample_clause = Some [\<lparr>cond_column = ''id'', cond_operator = OpEqual, cond_value = VInteger 5\<rparr>]"

lemma table_env_fields [simp]:
  "en_crc table_env = sample_crc" "en_io table_env = io_ok" "en_fuel table_env = 9" "en_order table_env = sorted_list_of_fset"
  "en_lock_fuel table_env = 1" "en_fmt table_env = (\<lambda>_. [])" "en_rx table_env = (\<lambda>_. None)"
  by (simp_all add: table_env_def sample_env_def)

lemma sample_db_tables:
  "db_ok table_env sample_db" "tables_ok table_env sample_db 1 fmempty" "page_room (db_pager sample_db) = 2 ^ 32 - 3"
  "ct_schema (db_catalog sample_db) = fmempty" "ct_btrees (db_catalog sample_db) = fmempty" "ex_locks sample_db = lock_manager_new"
proof -
  show ok: "db_ok table_env sample_db" using sample_db_ok(1) by (simp add: db_ok_def sample_env_def)
  have p: "db_pager sample_db = promoted sample_crc 1 sample_pages" by (simp add: sample_db_def database_new_def)
  have n: "num_pages (db_pager sample_db) = 3" by (simp add: p promoted_views sample_pages_facts)
  then show "page_room (db_pager sample_db) = 2 ^ 32 - 3" by (simp add: page_room_def)
  show b: "ct_schema (db_catalog sample_db) = fmempty" "ct_btrees (db_catalog sample_db) = fmempty" "ex_locks sample_db = lock_manager_new"
    by (simp_all add: sample_db_def database_new_def schema_new_def)
  have "view_ok (page_view (db_pager sample_db)) 3" using ok n by (simp add: db_ok_def pager_inv_def)
  then have "page_view (db_pager sample_db) 0 \<noteq> None" "page_view (db_pager sample_db) 1 \<noteq> None" by (simp_all add: view_ok_def)
  then show "tables_ok table_env sample_db 1 fmempty" using ok by (simp add: tables_ok_def store_def db_ok_def b)
qed

lemma sample_columns_ok:
  "list_all column_ok sample_columns" "length sample_columns = 2" "sample_columns \<noteq> []" "str_ok ''t''"
  "distinct (map col_name sample_columns)" "position col_primary_key sample_columns = Some 0"
  by (simp_all add: sample_columns_def sample_column_def column_ok_def type_ok_def str_ok_def str_bytes_def of_char_def)

lemma sample_size: "length (encode_schema sorted_list_of_fset (fmupd ''t'' (sample_schema root) fmempty) (fmupd ''t'' root fmempty)) < usable_size"
  by (simp add: encode_schema_def list_tables_def get_table_def sorted_list_of_fset.rep_eq encode_table_def encode_column_def
      type_bytes_def usable_size_def page_size_def sample_columns_def sample_column_def)

lemma sample_created_facts:
  obtains root where "run_statement table_env (CreateTable ''t'' sample_columns) sample_db = (Inr (), sample_created)"
    and "db_ok table_env sample_created" and "tables_ok table_env sample_created 1 (fmupd ''t'' [] fmempty)"
    and "ct_schema (db_catalog sample_created) = fmupd ''t'' (sample_schema root) fmempty"
    and "ex_active sample_created = None" and "ex_locks sample_created = lock_manager_new" and "5 < page_room (db_pager sample_created)"
proof -
  have 1: "fmlookup (ct_schema (db_catalog sample_db)) ''t'' = None" "1 < page_room (db_pager sample_db)" "hash_order (en_order table_env)"
    "io_append (en_io table_env) = WriteOk" "io_truncate (en_io table_env) \<noteq> TruncateSyncFails"
    by (simp_all add: sample_db_tables hash_order_sorted io_ok_def)
  obtain db' root where d: "run_statement table_env (CreateTable ''t'' sample_columns) sample_db = (Inr (), db')" "db_ok table_env db'"
    "tables_ok table_env db' 1 (fmupd ''t'' [] fmempty)" "ct_schema (db_catalog db') = fmupd ''t'' (sample_schema root) (ct_schema (db_catalog sample_db))"
    "ex_active db' = None" "ex_locks db' = ex_locks sample_db" "page_room (db_pager sample_db) \<le> page_room (db_pager db') + 1"
    by (rule create_statement_done [OF sample_db_tables(1) sample_db_ok(2) sample_db_tables(2) _ 1(1) sample_columns_ok(3,1) _ _ sample_columns_ok(4) _ 1(2-5)])
      (simp_all add: sample_columns_ok sample_db_tables sample_size)
  then have "sample_created = db'" by (simp add: sample_created_def)
  with d show thesis by (intro that [of root]) (simp_all add: sample_db_tables)
qed

lemma sample_insert:
  "insert_outcome table_env (sample_schema root) [] None sample_values = Inr (5, sample_values)" "row_ok sample_values"
  "length (serialize_row sample_values) \<le> 164"
  by (simp_all add: insert_outcome_def insert_row_for_def Let_def sample_columns_def sample_column_def index_or_def as_integer_def
      build_row_def column_index_def unique_clash_def row_ok_def value_ok_def str_ok_def str_bytes_def of_char_def length_serialize_row size_bytes_def)

lemma sample_flat: "grown_height 1 [] sample_values = 1"
  by (simp add: grown_height_def fits_leaf_def length_serialize_row size_bytes_def HEADER_SIZE_def page_size_def str_bytes_def)

lemma sample_filled_facts:
  obtains root where "db_ok table_env sample_filled" and "tables_ok table_env sample_filled 1 (fmupd ''t'' [(5, sample_values)] fmempty)"
    and "fmlookup (ct_schema (db_catalog sample_filled)) ''t'' = Some (sample_schema root)"
    and "reopens_as sample_crc (pg_file (db_pager sample_filled)) (wal_file (pg_wal (db_pager sample_filled))) (page_view (db_pager sample_filled))"
    and "3 < page_room (db_pager sample_filled)"
proof -
  obtain root where c: "db_ok table_env sample_created" "tables_ok table_env sample_created 1 (fmupd ''t'' [] fmempty)"
    "ct_schema (db_catalog sample_created) = fmupd ''t'' (sample_schema root) fmempty"
    "ex_active sample_created = None" "ex_locks sample_created = lock_manager_new" "5 < page_room (db_pager sample_created)"
    by (rule sample_created_facts)
  have 1: "fmlookup (fmupd ''t'' [] fmempty) ''t'' = Some ([] :: (i64 \<times> row) list)"
    "fmlookup (ct_schema (db_catalog sample_created)) ''t'' = Some (sample_schema root)"
    "list_all (\<lambda>r. length (serialize_row (snd r)) \<le> 164) [(5 :: i64, sample_values)]"
    "Suc 1 < page_room (db_pager sample_created)" "3 * 1 \<le> en_fuel table_env" "Transaction.entries_of (ex_locks sample_created) ''t'' = []"
    "0 < en_lock_fuel table_env" "hash_order (en_order table_env)"
    "io_append (en_io table_env) = WriteOk" "io_truncate (en_io table_env) \<noteq> TruncateSyncFails"
    using c by (simp_all add: hash_order_sorted io_ok_def sample_insert lock_manager_new_def Transaction.entries_of_def)
  obtain db' where d: "run_statement table_env (InsertInto ''t'' None sample_values) sample_created = (Inr (), db')" "db_ok table_env db'"
    "tables_ok table_env db' (grown_height 1 [] sample_values) (fmupd ''t'' (insert_row 5 sample_values []) (fmupd ''t'' [] fmempty))"
    "ct_schema (db_catalog db') = ct_schema (db_catalog sample_created)"
    "reopens_as (en_crc table_env) (pg_file (db_pager db')) (wal_file (pg_wal (db_pager db'))) (page_view (db_pager db'))"
    "page_room (db_pager sample_created) \<le> page_room (db_pager db') + Suc 1"
    by (rule insert_statement_done [OF c(1,4,2) 1(1,2) sample_insert(1,2) 1(3-)])
  have e: "sample_filled = db'" using d(1) by (simp add: sample_filled_def)
  have m: "fmupd ''t'' (insert_row 5 sample_values []) (fmupd ''t'' [] fmempty) = fmupd ''t'' [(5, sample_values)] fmempty"
    by (rule fmap_ext) (simp add: insert_row_def)
  show thesis using d(2,4-6) d(3) [unfolded sample_flat m] c(3,6) by (intro that [of root]) (simp_all add: e)
qed

lemma sample_keyed: "keyed (sample_schema root) [(5, sample_values)]"
  by (simp add: keyed_def sample_columns_ok)

lemma sample_selected: "selected table_env (sample_schema root) sample_clause (5, sample_values)"
  by (simp add: selected_def sample_clause_def stored_value_def column_index_def sample_columns_def sample_column_def
      index_or_def evaluate_def operator_holds_def cmp_int_def)

definition sample_reopened :: database where
  "sample_reopened = (case open_database table_env (pg_file (db_pager sample_filled)) (wal_file (pg_wal (db_pager sample_filled))) of
     Inr db \<Rightarrow> db | Inl _ \<Rightarrow> sample_filled)"

lemma sample_reopened_facts:
  obtains root where "db_ok table_env sample_reopened" and "tables_ok table_env sample_reopened 1 (fmupd ''t'' [(5, sample_values)] fmempty)"
    and "fmlookup (ct_schema (db_catalog sample_reopened)) ''t'' = Some (sample_schema root)"
    and "ex_active sample_reopened = None" and "ex_locks sample_reopened = lock_manager_new"
    and "3 < page_room (db_pager sample_reopened)" and "table_separators sample_reopened ''t'' = 0"
proof -
  have e: "table_env\<lparr>en_io := io_ok\<rparr> = table_env" by (simp add: table_env_def sample_env_def)
  obtain root where f: "db_ok table_env sample_filled" "tables_ok table_env sample_filled 1 (fmupd ''t'' [(5, sample_values)] fmempty)"
    "fmlookup (ct_schema (db_catalog sample_filled)) ''t'' = Some (sample_schema root)"
    "reopens_as (en_crc table_env) (pg_file (db_pager sample_filled)) (wal_file (pg_wal (db_pager sample_filled))) (page_view (db_pager sample_filled))"
    "3 < page_room (db_pager sample_filled)"
    by (rule sample_filled_facts) simp
  obtain db' where d: "open_database table_env (pg_file (db_pager sample_filled)) (wal_file (pg_wal (db_pager sample_filled))) = Inr db'"
    "tables_ok table_env db' 1 (fmupd ''t'' [(5, sample_values)] fmempty)"
    "ct_schema (db_catalog db') = fmmap_keys (synced (ct_btrees (db_catalog sample_filled))) (ct_schema (db_catalog sample_filled))"
    "db_ok table_env db'" "ex_active db' = None" "ex_locks db' = lock_manager_new" "page_view (db_pager db') = page_view (db_pager sample_filled)"
    by (rule reopen_committed [OF f(1,2,4), unfolded e])
  have db': "sample_reopened = db'" using d(1) by (simp add: sample_reopened_def)
  have "num_pages (db_pager db') = num_pages (db_pager sample_filled)"
    using d(4,7) f(1) view_ok_unique by (metis db_ok_def pager_inv_def)
  then have "3 < page_room (db_pager db')" using f(5) by (simp add: page_room_def)
  moreover have "table_separators db' ''t'' = 0"
  proof -
    have l: "fmlookup (fmupd ''t'' [(5, sample_values)] fmempty) ''t'' = Some [(5, sample_values)]" by simp
    obtain r T where r: "fmlookup (ct_btrees (db_catalog db')) ''t'' = Some r"
      "table_at (en_crc table_env) \<lparr>root_page = r, bt_pager = db_pager db'\<rparr> (T ''t'') 1 [(5, sample_values)]"
      by (rule table_tree [OF d(2) l])
    have at: "tree_at (page_view (bt_pager \<lparr>root_page = r, bt_pager = db_pager db'\<rparr>)) 0 (T ''t'')"
      "root_page \<lparr>root_page = r, bt_pager = db_pager db'\<rparr> = root_id (T ''t'')" and h: "height (T ''t'') \<le> 1"
      using r(2) by (simp_all add: table_at_def tree_shown_def)
    have "0 < height (T ''t'')" by (cases "T ''t''") simp_all
    then have "height (T ''t'') = 1" using h by simp
    then obtain q es where "T ''t'' = TLeaf q es" by (rule height_one)
    with root_separators_tree [OF at] r(1) show ?thesis by (simp add: table_separators_def)
  qed
  ultimately show thesis using d f(3,5) db'
    by (intro that [of "case fmlookup (ct_btrees (db_catalog sample_filled)) ''t'' of Some rp \<Rightarrow> rp | None \<Rightarrow> 0"]) (simp_all add: synced_def)
qed

section \<open>Durable statements\<close>











text \<open>
  The plan compares a new key with the keys in the table, not with the other new keys: an UPDATE that assigns one key to
  several rows is accepted, and the table then has two rows under it.
\<close>

lemma update_accepts_same_key:
  "\<exists>us. update_outcome table_env (sample_schema root) [(1, [VInteger 1, VText ''a'']), (2, [VInteger 2, VText ''b''])] [(''id'', VInteger 9)] None = Inr us
     \<and> map (fst \<circ> upd_entry) us = [9, 9] \<and> map fst (fold update_row us [(1, [VInteger 1, VText ''a'']), (2, [VInteger 2, VText ''b''])]) = [9, 9]"
  using sample_columns_ok(6)
  by (simp add: update_outcome_def index_or_def as_stored_def stored_value_def column_index_def sample_columns_def sample_column_def selected_def
      as_integer_def update_unique_def unique_columns_def upd_defs rbind_def update_row_def insert_row_def delete_row_def)

section \<open>Queries\<close>



text \<open>
  The lookup by primary key is an optimisation only. A clause with a condition \<open>key = n\<close> reads a single row
  by a descent of the tree instead of a scan; on a table whose rows stand under their primary keys, the rows
  it leaves to the clause give the same matches as all rows.
\<close>

theorem key_lookup_equals_scan:
  assumes "table_at crc bt t h rows" and "h \<le> fuel" and "keyed ts rows" and "distinct (map col_name (ts_columns ts))"
  shows "fst (mbind (candidate_rows (pager_ops crc pick io) fuel wc ts) (\<lambda>rs. mlift (matching_rows rx ts wc rs)) bt) =
     fst (mbind (btree_scan (pager_ops crc pick io) fuel) (\<lambda>rs. mlift (matching_rows rx ts wc rs)) bt)"
proof -
  obtain bt1 where "candidate_rows (pager_ops crc pick io) fuel wc ts bt = (Inr (candidates wc ts (map as_stored rows)), bt1)"
    by (rule candidate_rows_at [OF assms(1,2)])
  moreover obtain bt2 where "btree_scan (pager_ops crc pick io) fuel bt = (Inr (map as_stored rows), bt2)"
    by (rule scan_at [OF assms(1,2)])
  ultimately show ?thesis by (simp add: mbind_def mlift_def candidates_matching [OF keyed_stored [OF assms(3)] assms(4)])
qed

theorem key_lookup_equals_scan_witness:
  "\<exists>bt. fst (mbind (candidate_rows sample_ops 9 sample_clause (sample_schema 2)) (\<lambda>rs. mlift (matching_rows (\<lambda>_. None) (sample_schema 2) sample_clause rs)) bt) =
     fst (mbind (btree_scan sample_ops 9) (\<lambda>rs. mlift (matching_rows (\<lambda>_. None) (sample_schema 2) sample_clause rs)) bt)"
proof -
  obtain root where f: "tables_ok table_env sample_filled 1 (fmupd ''t'' [(5, sample_values)] fmempty)" by (rule sample_filled_facts)
  have l: "fmlookup (fmupd ''t'' [(5, sample_values)] fmempty) ''t'' = Some [(5, sample_values)]" by simp
  obtain r T where at: "table_at (en_crc table_env) \<lparr>root_page = r, bt_pager = db_pager sample_filled\<rparr> (T ''t'') 1 [(5, sample_values)]"
    by (rule table_tree [OF f l])
  have "fst (mbind (candidate_rows (pager_ops (en_crc table_env) (\<lambda>_. None) io_ok) 9 sample_clause (sample_schema 2))
      (\<lambda>rs. mlift (matching_rows (\<lambda>_. None) (sample_schema 2) sample_clause rs)) \<lparr>root_page = r, bt_pager = db_pager sample_filled\<rparr>) =
     fst (mbind (btree_scan (pager_ops (en_crc table_env) (\<lambda>_. None) io_ok) 9)
      (\<lambda>rs. mlift (matching_rows (\<lambda>_. None) (sample_schema 2) sample_clause rs)) \<lparr>root_page = r, bt_pager = db_pager sample_filled\<rparr>)"
    by (rule key_lookup_equals_scan [OF at _ sample_keyed]) (simp_all add: sample_columns_ok)
  then show ?thesis by (intro exI) simp
qed

section \<open>Refused insertions\<close>

text \<open>
  C10: An INSERT that must not happen does not happen. When the values do not fit the table, the key is taken,
  or another row has the same value in a UNIQUE column, the work of the INSERT returns the error the checks
  name, stages no change and leaves every page and table as it was.
\<close>

theorem insert_refused_unchanged:
  assumes "tables_ok en db h data" and "fmlookup data table = Some rows"
    and "fmlookup (ct_schema (db_catalog db)) table = Some ts"
    and "insert_outcome en ts rows columns vs = Inl e" and "h \<le> en_fuel en"
  shows "\<exists>db'. execute_insert en table columns vs db = (Inl e, db') \<and> tables_ok en db' h data
     \<and> page_view (db_pager db') = page_view (db_pager db) \<and> db_cdc db' = db_cdc db"
proof -
  obtain db' where d: "execute_insert en table columns vs db = (Inl e, db')" "only_read en db db'"
    using insert_refused [OF assms] by blast
  then show ?thesis using only_read_tables [OF d(2) assms(1)] by (auto simp: only_read_def)
qed

theorem insert_refused_unchanged_witness:
  "\<exists>db'. execute_insert table_env ''t'' None [VInteger 6, VText ''a''] sample_filled = (Inl (Error ConstraintViolation), db')
     \<and> tables_ok table_env db' 1 (fmupd ''t'' [(5, sample_values)] fmempty)"
proof -
  obtain root where f: "tables_ok table_env sample_filled 1 (fmupd ''t'' [(5, sample_values)] fmempty)"
    "fmlookup (ct_schema (db_catalog sample_filled)) ''t'' = Some (sample_schema root)"
    by (rule sample_filled_facts)
  have l: "fmlookup (fmupd ''t'' [(5, sample_values)] fmempty) ''t'' = Some [(5, sample_values)]" by simp
  have "unique_columns (sample_schema root) = [1]"
    by (simp add: unique_columns_def sample_columns_def sample_column_def upt_rec)
  then have "insert_outcome table_env (sample_schema root) [(5, sample_values)] None [VInteger 6, VText ''a''] = Inl (Error ConstraintViolation)"
    by (simp add: insert_outcome_def insert_row_for_def Let_def sample_columns_def sample_column_def index_or_def as_integer_def
        build_row_def column_index_def unique_clash_def as_stored_def stored_value_def compare_values_def cmp_str_def)
  from insert_refused_unchanged [OF f(1) l f(2) this] show ?thesis by auto
qed

end
