(* ===== verification/RowTheorems.thy ===== *)
theory RowTheorems
  imports TableTheorems
begin

text \<open>
  Properties of the executor's checks on values: the order of values, UNIQUE checking by sorting, the types
  of inserted rows, and the NOT NULL constraint an INSERT can leave out.
\<close>

section \<open>UNIQUE by sorting\<close>

text \<open>Two rows have the same value, not NULL, in a column.\<close>

definition same_in :: "(f32 list \<Rightarrow> string) \<Rightarrow> nat \<Rightarrow> row \<Rightarrow> row \<Rightarrow> bool" where
  "same_in fmt ci r s \<longleftrightarrow> ci < length r \<and> ci < length s \<and> r ! ci \<noteq> VNull \<and> s ! ci \<noteq> VNull
     \<and> compare_values fmt (r ! ci) (s ! ci) = Equal"

lemma set_column_values: "v \<in> set (column_values ci rows) \<longleftrightarrow> v \<noteq> VNull \<and> (\<exists>r\<in>set rows. ci < length r \<and> v = r ! ci)"
  by (auto simp: column_values_def List.map_filter_def get_value_def)

lemma distinct_column_values:
  "sorted_wrt (\<lambda>a b. compare_values fmt a b \<noteq> Equal) (column_values ci rows) \<longleftrightarrow> sorted_wrt (\<lambda>r s. \<not> same_in fmt ci r s) rows"
proof (induction rows)
  case (Cons r rows)
  show ?case
  proof (cases "ci < length r \<and> r ! ci \<noteq> VNull")
    case True
    then have "column_values ci (r # rows) = r ! ci # column_values ci rows" by (simp add: column_values_def get_value_def List.map_filter_simps)
    moreover have "(\<forall>v\<in>set (column_values ci rows). compare_values fmt (r ! ci) v \<noteq> Equal) \<longleftrightarrow> (\<forall>s\<in>set rows. \<not> same_in fmt ci r s)"
      using True unfolding Ball_def set_column_values same_in_def by blast
    ultimately show ?thesis using Cons by simp
  next
    case False
    then have "column_values ci (r # rows) = column_values ci rows" by (auto simp: column_values_def get_value_def List.map_filter_simps)
    with False Cons show ?thesis by (auto simp: same_in_def)
  qed
qed (simp add: column_values_def List.map_filter_simps)

text \<open>
  C33: Checking UNIQUE by sorting is right. For values without NaN and without integers beyond 2^52, the check
  that sorts a column and compares neighbours accepts exactly when no two different rows have equal values,
  NULL excepted, in any of the columns.
\<close>

theorem check_unique_exact:
  assumes "\<forall>ci\<in>set cols. set (column_values ci rows) \<subseteq> Collect ordinary"
  shows "check_unique fmt cols rows =
     (if \<forall>ci\<in>set cols. \<forall>i j. i < j \<and> j < length rows \<longrightarrow> \<not> same_in fmt ci (rows ! i) (rows ! j)
      then Inr () else Inl (Error ConstraintViolation))"
proof -
  have "adjacent (\<lambda>a b. compare_values fmt a b = Equal) (sort_by (compare_values fmt) (column_values ci rows)) \<longleftrightarrow>
      \<not> (\<forall>i j. i < j \<and> j < length rows \<longrightarrow> \<not> same_in fmt ci (rows ! i) (rows ! j))" if "ci \<in> set cols" for ci
  proof -
    have "set (column_values ci rows) \<subseteq> Collect ordinary" using assms that by blast
    from adjacent_values [OF this, of fmt] show ?thesis
      unfolding distinct_column_values by (simp add: sorted_wrt_iff_nth_less)
  qed
  then show ?thesis by (auto simp: check_unique_def list_ex_iff)
qed

theorem check_unique_exact_witness:
  "check_unique (\<lambda>_. []) [0] [[VInteger 7], [VNull], [VText ''a''], [VNull], [VInteger 7]] = Inl (Error ConstraintViolation)"
proof -
  let ?rows = "[[VInteger 7], [VNull], [VText ''a''], [VNull], [VInteger 7]]"
  have "same_in (\<lambda>_. []) 0 (?rows ! 0) (?rows ! 4)" by (simp add: same_in_def compare_values_def cmp_int_def)
  moreover have "\<forall>ci\<in>set [0]. set (column_values ci ?rows) \<subseteq> Collect ordinary"
    by (simp add: column_values_def List.map_filter_simps get_value_def ordinary_def)
  ultimately show ?thesis using check_unique_exact [of "[0]" ?rows "\<lambda>_. []"] by (force split: if_splits)
qed

section \<open>The order of values\<close>

text \<open>
  Values are ordered consistently within bounds. On values without NaN and without integers beyond 2^52,
  comparing two values either way gives opposite answers and \<open>not greater\<close> is transitive, so that ORDER BY
  sorts them, whatever kinds of values a column mixes.
\<close>

theorem sort_by_values_sorts:
  assumes "set xs \<subseteq> Collect ordinary"
  shows "mset (sort_by (compare_values fmt) xs) = mset xs
     \<and> sorted_wrt (\<lambda>a b. compare_values fmt a b \<noteq> Greater) (sort_by (compare_values fmt) xs)"
  using vals.ascending_sort [OF assms, of fmt] by (simp add: vals.ascending_def)

theorem sort_by_values_sorts_witness:
  "sorted_wrt (\<lambda>a b. compare_values (\<lambda>_. []) a b \<noteq> Greater)
     (sort_by (compare_values (\<lambda>_. [])) [VText ''a'', VInteger 3, VNull, VBlob [1], VInteger 2])"
  using sort_by_values_sorts [of "[VText ''a'', VInteger 3, VNull, VBlob [1], VInteger 2]" "\<lambda>_. []"] by (simp add: ordinary_def)

text \<open>
  Beyond those bounds the order breaks. Integers compare exactly with each other but with a float only
  after rounding, so 2^53 and 2^53 + 1 are both equal to the float 2^53 and yet different: equality of values
  is not transitive.
\<close>

theorem compare_values_not_transitive:
  "\<exists>a b c. compare_values fmt a b = Equal \<and> compare_values fmt b c = Equal \<and> compare_values fmt a c = Less"
proof -
  let ?a = "VInteger (2 ^ 53)" and ?c = "VInteger (2 ^ 53 + 1)" and ?b = "VFloat (f64_of_int (2 ^ 53))"
  have "compare_values fmt ?a ?b = Equal \<and> compare_values fmt ?b ?c = Equal \<and> compare_values fmt ?a ?c = Less"
    by code_simp
  then show ?thesis by blast
qed

section \<open>Inserted rows\<close>



text \<open>
  NOT NULL is not checked for columns an INSERT leaves out. A statement that names only the primary key is
  accepted for every table with an ordinary key column, and the row has NULL in all other columns, those
  declared NOT NULL included.
\<close>

theorem omitted_columns_are_null:
  assumes "position col_primary_key (ts_columns ts) = Some pk" and "distinct (map col_name (ts_columns ts))"
    and "\<forall>d. col_data_type (ts_columns ts ! pk) \<noteq> DtVector d"
  shows "insert_row_for ts (Some [col_name (ts_columns ts ! pk)]) [VInteger k] =
     Inr (k, (replicate (length (ts_columns ts)) VNull)[pk := VInteger k])"
proof -
  have pk: "pk < length (ts_columns ts)" using position_Some [OF assms(1)] by simp
  obtain i where i: "column_index ts (col_name (ts_columns ts ! pk)) = Some i"
    using pk by (cases "column_index ts (col_name (ts_columns ts ! pk))") (auto simp: column_index_def position_None)
  from column_index_bound [OF i] assms(2) pk have e: "i = pk" by (metis length_map nth_eq_iff_index_eq nth_map)
  have "check_values ts [(col_name (ts_columns ts ! pk), VInteger k)] = Inr ()"
    using find_column [OF i] assms(3) e by (auto split: data_type.splits)
  then show ?thesis
    using assms(1) i e by (simp add: insert_row_for_def Let_def index_or_def as_integer_def build_row_def)
qed

theorem omitted_columns_are_null_witness:
  "insert_row_for (sample_schema 2) (Some [''id'']) [VInteger 1] = Inr (1, [VInteger 1, VNull]) \<and> col_not_null (sample_columns ! 1)"
  using omitted_columns_are_null [of "sample_schema 2" 0 1]
  by (simp add: sample_columns_ok(6)) (simp add: sample_columns_def sample_column_def)

end
