(* ===== verification/Parser.thy ===== *)
theory Parser
  imports Vector "HOL-Library.Finite_Map"
begin

text \<open>
  The SQL parser, \<open>src/parser.rs\<close>: finding clauses, splitting lists outside quotes and parentheses,
  literals, identifiers, and the statements.

  The \<open>regex\<close> crate is the record \<open>regex_ops\<close>: for each of the parser's patterns its capture groups on a
  text (group 1 first, absent groups \<open>None\<close>), the end of its match and the text without its match. A group
  the code unwraps and that is absent is a panic. Loops that compare characters with ASCII only run over
  the bytes of the text; those that ask for Unicode white space run over its characters.
\<close>

section \<open>Patterns\<close>

datatype pattern =
    ReCreateTable | ReDropTable | ReRenameTable | ReRenameColumn | ReAddColumn | ReDropColumn
  | ReInsert | ReLimit | ReOrderBy | ReSelect | ReUpdate | ReDelete | ReCondition

record regex_ops =
  rx_captures :: "pattern \<Rightarrow> string \<Rightarrow> string option list option"
  rx_end :: "pattern \<Rightarrow> string \<Rightarrow> nat option"
  rx_remove :: "pattern \<Rightarrow> string \<Rightarrow> string"

definition captures_or :: "regex_ops \<Rightarrow> pattern \<Rightarrow> string \<Rightarrow> string option list result" where
  "captures_or rx p s = (case rx_captures rx p s of None \<Rightarrow> Inl (Error ParseError) | Some caps \<Rightarrow> Inr caps)"

definition group_opt :: "nat \<Rightarrow> string option list \<Rightarrow> string option" where
  "group_opt i caps = (if i - 1 < length caps then caps ! (i - 1) else None)"

definition group :: "nat \<Rightarrow> string option list \<Rightarrow> string result" where
  "group i caps = (case group_opt i caps of None \<Rightarrow> Inl Panic | Some s \<Rightarrow> Inr s)"

section \<open>Slices\<close>

text \<open>A slice of a \<open>str\<close> has to start and end between characters.\<close>

definition char_boundary :: "nat \<Rightarrow> string \<Rightarrow> bool" where
  "char_boundary n s \<longleftrightarrow> n = length s \<or> n < length s \<and> \<not> (128 \<le> (of_char (s ! n) :: nat) \<and> (of_char (s ! n) :: nat) < 192)"

definition str_from :: "nat \<Rightarrow> string \<Rightarrow> string result" where
  "str_from n s = (if char_boundary n s then Inr (drop n s) else Inl Panic)"

definition str_range :: "nat \<Rightarrow> nat \<Rightarrow> string \<Rightarrow> string result" where
  "str_range a b s = (if a \<le> b \<and> char_boundary a s \<and> char_boundary b s then Inr (drop a (take b s)) else Inl Panic)"

definition str_drop_end :: "nat \<Rightarrow> string \<Rightarrow> string result" where
  "str_drop_end n s = (if n \<le> length s \<and> char_boundary (length s - n) s then Inr (take (length s - n) s) else Inl Panic)"

definition is_quote :: "char \<Rightarrow> bool" where
  "is_quote ch \<longleftrightarrow> ch = CHR 0x27 \<or> ch = CHR 0x22"

definition backslash :: char where
  "backslash = CHR 0x5C"

section \<open>ORDER BY\<close>

definition is_ascii_whitespace :: "char \<Rightarrow> bool" where
  "is_ascii_whitespace ch \<longleftrightarrow> ch = CHR 0x20 \<or> ch = CHR 0x09 \<or> ch = CHR 0x0A \<or> ch = CHR 0x0C \<or> ch = CHR 0x0D"

definition take_upper :: "nat \<Rightarrow> string \<Rightarrow> string" where
  "take_upper n s = to_uppercase (of_chars (take n (chars s)))"

definition starts_order :: "string \<Rightarrow> bool" where
  "starts_order rest \<longleftrightarrow> (let upper = take_upper 9 rest in
     starts_with (''ORDER'' @ [CHR 0x20]) upper \<or> starts_with (''ORDER'' @ [CHR 0x09]) upper \<or> starts_with (''ORDER'' @ [CHR 0x0A]) upper)"

definition order_by_at :: "string \<Rightarrow> bool result" where
  "order_by_at rest =
     (if 8 \<le> length rest \<and> starts_order rest then
        rbind (str_from 5 rest) (\<lambda>r. let after_order = trim_start r in
          if starts_with ''BY'' (take_upper 3 after_order) then
            rbind (str_from 2 after_order) (\<lambda>tl. Inr (case chars tl of [] \<Rightarrow> False | c # _ \<Rightarrow> is_whitespace c))
          else Inr False)
      else Inr False)"

fun find_order_by_loop :: "nat \<Rightarrow> bool \<Rightarrow> char option \<Rightarrow> string \<Rightarrow> nat option result" where
  "find_order_by_loop i bounded quote [] = Inr None"
| "find_order_by_loop i bounded quote (b # bs) =
     (case quote of
        Some q \<Rightarrow> find_order_by_loop (Suc i) (is_ascii_whitespace b) (if b = q then None else Some q) bs
      | None \<Rightarrow>
          if is_quote b then find_order_by_loop (Suc i) (is_ascii_whitespace b) (Some b) bs
          else rbind (if (b = CHR ''O'' \<or> b = CHR ''o'') \<and> bounded then order_by_at (b # bs) else Inr False) (\<lambda>found.
            if found then Inr (Some i) else find_order_by_loop (Suc i) (is_ascii_whitespace b) None bs))"

definition find_order_by :: "string \<Rightarrow> nat option result" where
  "find_order_by s = find_order_by_loop 0 True None s"

section \<open>Splitting\<close>

text \<open>The scanner state the splitting loops share: what is collected, the piece at hand, the open quote, the nesting.\<close>

record 'a scan =
  sc_done :: "'a list"
  sc_current :: string
  sc_quote :: "char option"
  sc_depth :: nat
  sc_escaped :: bool

definition scan_start :: "'a scan" where
  "scan_start = \<lparr>sc_done = [], sc_current = [], sc_quote = None, sc_depth = 0, sc_escaped = False\<rparr>"

definition scan_push :: "char \<Rightarrow> 'a scan \<Rightarrow> 'a scan" where
  "scan_push ch st = st\<lparr>sc_current := sc_current st @ [ch]\<rparr>"

definition scan_cut :: "string scan \<Rightarrow> string scan" where
  "scan_cut st =
     (let part = trim (sc_current st) in
      (if part = [] then st else st\<lparr>sc_done := sc_done st @ [part]\<rparr>)\<lparr>sc_current := []\<rparr>)"

definition comma_step :: "char \<Rightarrow> string scan \<Rightarrow> string scan" where
  "comma_step ch st =
     (case sc_quote st of
        Some q \<Rightarrow> (scan_push ch st)\<lparr>sc_quote := if ch = q then None else Some q\<rparr>
      | None \<Rightarrow>
          if is_quote ch then (scan_push ch st)\<lparr>sc_quote := Some ch\<rparr>
          else if ch = CHR ''('' \<or> ch = CHR ''['' then (scan_push ch st)\<lparr>sc_depth := sc_depth st + 1\<rparr>
          else if ch = CHR '')'' \<or> ch = CHR '']'' then (scan_push ch st)\<lparr>sc_depth := sc_depth st - 1\<rparr>
          else if ch = CHR '','' \<and> sc_depth st = 0 then scan_cut st
          else scan_push ch st)"

definition split_top_level_commas :: "string \<Rightarrow> string list" where
  "split_top_level_commas s = sc_done (scan_cut (fold comma_step s scan_start))"

text \<open>\<open>split_on_and\<close> and \<open>split_sql_parts\<close> run over characters.\<close>

definition uquote :: "uchar \<Rightarrow> bool" where
  "uquote c \<longleftrightarrow> c = ascii CHR 0x27 \<or> c = ascii CHR 0x22"

definition letter :: "char \<Rightarrow> char \<Rightarrow> uchar \<Rightarrow> bool" where
  "letter upper lower c \<longleftrightarrow> c = ascii upper \<or> c = ascii lower"

definition and_here :: "uchar list \<Rightarrow> bool" where
  "and_here cs \<longleftrightarrow> 4 < length cs \<and> is_whitespace (cs ! 0) \<and> letter CHR ''A'' CHR ''a'' (cs ! 1)
     \<and> letter CHR ''N'' CHR ''n'' (cs ! 2) \<and> letter CHR ''D'' CHR ''d'' (cs ! 3) \<and> is_whitespace (cs ! 4)"

function and_loop :: "uchar option \<Rightarrow> uchar list \<Rightarrow> uchar list \<Rightarrow> uchar list list" where
  "and_loop quote current [] = (if trim (of_chars current) = [] then [] else [current])"
| "and_loop quote current (c # cs) =
     (case quote of
        Some q \<Rightarrow> and_loop (if c = q then None else Some q) (current @ [c]) cs
      | None \<Rightarrow>
          if uquote c then and_loop (Some c) (current @ [c]) cs
          else if and_here (c # cs) then current # and_loop None [] (drop 4 cs)
          else and_loop None (current @ [c]) cs)"
  by pat_completeness auto
termination by (relation "measure (\<lambda>(q, cur, cs). length cs)") auto

definition split_on_and :: "string \<Rightarrow> string list" where
  "split_on_and clause = map of_chars (and_loop None [] (chars clause))"

fun parts_loop :: "uchar option \<Rightarrow> bool \<Rightarrow> uchar list \<Rightarrow> uchar list \<Rightarrow> uchar list list" where
  "parts_loop quote escaped current [] = (if current = [] then [] else [current])"
| "parts_loop quote escaped current (c # cs) =
     (if escaped then parts_loop quote False (current @ [c]) cs
      else if c = ascii backslash then parts_loop quote True (current @ [c]) cs
      else if quote = None \<and> uquote c then parts_loop (Some c) False (current @ [c]) cs
      else if quote = Some c then parts_loop None False (current @ [c]) cs
      else if quote = None \<and> is_whitespace c then
        (if current = [] then parts_loop quote False [] cs else current # parts_loop quote False [] cs)
      else parts_loop quote False (current @ [c]) cs)"

definition split_sql_parts :: "string \<Rightarrow> string list" where
  "split_sql_parts s = map of_chars (parts_loop None False [] (chars s))"

section \<open>Literals\<close>

definition hex_digit :: "char \<Rightarrow> nat option" where
  "hex_digit ch =
     (let n = of_char ch :: nat in
      if 48 \<le> n \<and> n \<le> 57 then Some (n - 48)
      else if 97 \<le> n \<and> n \<le> 102 then Some (n - 87)
      else if 65 \<le> n \<and> n \<le> 70 then Some (n - 55)
      else None)"

text \<open>\<open>u8::from_str_radix\<close> on two characters; a leading plus sign is accepted.\<close>

definition hex_byte :: "char \<Rightarrow> char \<Rightarrow> u8 option" where
  "hex_byte a b =
     (if a = CHR ''+'' then map_option word_of_nat (hex_digit b)
      else Option.bind (hex_digit a) (\<lambda>h. map_option (\<lambda>l. word_of_nat (16 * h + l)) (hex_digit b)))"

definition continuation :: "char \<Rightarrow> bool" where
  "continuation ch \<longleftrightarrow> 128 \<le> (of_char ch :: nat) \<and> (of_char ch :: nat) < 192"

fun parse_hex :: "string \<Rightarrow> bytes result" where
  "parse_hex (a # b # rest) =
     (if continuation a \<or> rest \<noteq> [] \<and> continuation (hd rest) then Inl Panic
      else case hex_byte a b of
        None \<Rightarrow> Inl (Error ParseError)
      | Some x \<Rightarrow> rbind (parse_hex rest) (\<lambda>xs. Inr (x # xs)))"
| "parse_hex _ = Inr []"

definition unescape :: "char \<Rightarrow> string \<Rightarrow> string" where
  "unescape q content = replace_all [backslash, backslash] [backslash] (replace_all [backslash, q] [q] content)"

definition is_blob_literal :: "string \<Rightarrow> bool" where
  "is_blob_literal s \<longleftrightarrow> 3 \<le> length s \<and> (starts_with [CHR ''X'', CHR 0x27] s \<or> starts_with [CHR ''x'', CHR 0x27] s) \<and> ends_with [CHR 0x27] s"

definition parse_blob :: "string \<Rightarrow> sql_value result" where
  "parse_blob s =
     rbind (str_range 2 (length s - 1) s) (\<lambda>hex_part.
       if odd (length hex_part) then Inl (Error ParseError)
       else rbind (parse_hex hex_part) (\<lambda>blob. Inr (VBlob blob)))"

definition quoted_by :: "char \<Rightarrow> string \<Rightarrow> bool" where
  "quoted_by q s \<longleftrightarrow> starts_with [q] s \<and> ends_with [q] s"

definition parse_number_or_text :: "string \<Rightarrow> sql_value result" where
  "parse_number_or_text s =
     (case parse_i64 s of
        Some i \<Rightarrow> Inr (VInteger i)
      | None \<Rightarrow>
          (case parse_f64 s of
             Some f \<Rightarrow> Inr (VFloat f)
           | None \<Rightarrow> if is_blob_literal s then parse_blob s else Inr (VText s)))"

definition parse_scalar :: "string \<Rightarrow> sql_value result" where
  "parse_scalar s =
     (if quoted_by CHR 0x27 s \<or> quoted_by CHR 0x22 s
      then rbind (str_range 1 (length s - 1) s) (\<lambda>content. Inr (VText (unescape (hd s) content)))
      else parse_number_or_text s)"

definition parse_value :: "string \<Rightarrow> sql_value result" where
  "parse_value s0 =
     (let s = trim s0 in
      if to_uppercase s = ''NULL'' then Inr VNull
      else case parse_vector_constructor s of
        Some parsed \<Rightarrow>
          if \<not> starts_with [CHR 0x27] s \<and> \<not> starts_with [CHR 0x22] s then rbind parsed (\<lambda>v. Inr (VVector v))
          else parse_scalar s
      | None \<Rightarrow> parse_scalar s)"

definition value_step :: "char \<Rightarrow> sql_value scan \<Rightarrow> sql_value scan result" where
  "value_step ch st =
     (if sc_escaped st then Inr ((scan_push ch st)\<lparr>sc_escaped := False\<rparr>)
      else if ch = backslash \<and> sc_quote st \<noteq> None then Inr ((scan_push ch st)\<lparr>sc_escaped := True\<rparr>)
      else if sc_quote st = None \<and> is_quote ch then Inr ((scan_push ch st)\<lparr>sc_quote := Some ch\<rparr>)
      else if sc_quote st = Some ch then Inr ((scan_push ch st)\<lparr>sc_quote := None\<rparr>)
      else if sc_quote st = None \<and> (ch = CHR ''('' \<or> ch = CHR ''['') then Inr ((scan_push ch st)\<lparr>sc_depth := sc_depth st + 1\<rparr>)
      else if sc_quote st = None \<and> (ch = CHR '')'' \<or> ch = CHR '']'') then Inr ((scan_push ch st)\<lparr>sc_depth := sc_depth st - 1\<rparr>)
      else if sc_quote st = None \<and> sc_depth st = 0 \<and> ch = CHR '','' then
        rbind (parse_value (trim (sc_current st))) (\<lambda>v. Inr (st\<lparr>sc_done := sc_done st @ [v], sc_current := []\<rparr>))
      else Inr (scan_push ch st))"

fun value_loop :: "string \<Rightarrow> sql_value scan \<Rightarrow> sql_value scan result" where
  "value_loop [] st = Inr st"
| "value_loop (ch # s) st = rbind (value_step ch st) (value_loop s)"

definition parse_values :: "string \<Rightarrow> sql_value list result" where
  "parse_values values_str =
     rbind (value_loop values_str scan_start) (\<lambda>st.
       if trim (sc_current st) = [] then Inr (sc_done st)
       else rbind (parse_value (trim (sc_current st))) (\<lambda>v. Inr (sc_done st @ [v])))"

section \<open>Identifiers and types\<close>

fun quoted_identifier :: "char \<Rightarrow> bool \<Rightarrow> string \<Rightarrow> string \<Rightarrow> (string \<times> string) result" where
  "quoted_identifier q escaped ident [] = Inl (Error ParseError)"
| "quoted_identifier q escaped ident (ch # s) =
     (if escaped then quoted_identifier q False (ident @ [ch]) s
      else if ch = backslash then quoted_identifier q True ident s
      else if ch = q then Inr (ident, s)
      else quoted_identifier q False (ident @ [ch]) s)"

definition parse_identifier :: "string \<Rightarrow> (string \<times> string) result" where
  "parse_identifier s0 =
     (let s = trim s0; not_space = (\<lambda>c. \<not> is_whitespace c) in
      if starts_with [CHR 0x22] s then quoted_identifier CHR 0x22 False [] (tl s)
      else if starts_with [CHR 0x60] s then quoted_identifier CHR 0x60 False [] (tl s)
      else if starts_with ''['' s then quoted_identifier CHR '']'' False [] (tl s)
      else Inr (of_chars (takeWhile not_space (chars s)), of_chars (dropWhile not_space (chars s))))"

definition data_type_from_str :: "string \<Rightarrow> data_type" where
  "data_type_from_str s =
     (let upper = to_uppercase (trim s);
          rest = (case strip_prefix ''F32_BLOB('' upper of Some r \<Rightarrow> Some r | None \<Rightarrow> strip_prefix ''VECTOR('' upper)
      in case Option.bind (Option.bind rest (strip_suffix '')'')) (\<lambda>d. parse_unsigned 32 (trim d)) of
        Some dim \<Rightarrow> DtVector dim
      | None \<Rightarrow>
          if upper = ''INTEGER'' \<or> upper = ''INT'' then DtInteger
          else if upper = ''REAL'' \<or> upper = ''FLOAT'' \<or> upper = ''DOUBLE'' then DtReal
          else if upper = ''TEXT'' \<or> upper = ''VARCHAR'' \<or> upper = ''STRING'' then DtText
          else if upper = ''BLOB'' then DtBlob
          else DtText)"

section \<open>WHERE\<close>

fun parse_conditions :: "regex_ops \<Rightarrow> string list \<Rightarrow> where_clause result" where
  "parse_conditions rx [] = Inr []"
| "parse_conditions rx (part # parts) =
     rbind (captures_or rx ReCondition (trim part)) (\<lambda>caps.
     rbind (group 1 caps) (\<lambda>column.
     rbind (group 2 caps) (\<lambda>operator_str.
     rbind (operator_from_str operator_str) (\<lambda>operator.
     rbind (group 3 caps) (\<lambda>value_str.
     rbind (parse_value (trim value_str)) (\<lambda>v.
     rbind (parse_conditions rx parts) (\<lambda>conditions.
       Inr (\<lparr>cond_column = column, cond_operator = operator, cond_value = v\<rparr> # conditions))))))))"

definition parse_where_clause :: "regex_ops \<Rightarrow> string \<Rightarrow> where_clause result" where
  "parse_where_clause rx clause =
     rbind (parse_conditions rx (split_on_and clause)) (\<lambda>conditions.
       if conditions = [] then Inl (Error ParseError) else Inr conditions)"

definition parse_where_opt :: "regex_ops \<Rightarrow> string option \<Rightarrow> where_clause option result" where
  "parse_where_opt rx w =
     (case w of None \<Rightarrow> Inr None | Some clause \<Rightarrow> rbind (parse_where_clause rx clause) (\<lambda>wc. Inr (Some wc)))"

section \<open>Statements\<close>

definition parse_column :: "string \<Rightarrow> column result" where
  "parse_column col_def =
     rbind (parse_identifier col_def) (\<lambda>(name, rest).
       let remainder = trim rest; parts = split_sql_parts remainder in
       if remainder = [] \<or> parts = [] then Inl (Error ParseError)
       else
         let upper_parts = map to_uppercase parts;
             primary_key = ''PRIMARY'' \<in> set upper_parts \<and> ''KEY'' \<in> set upper_parts in
         Inr \<lparr>col_name = name, col_data_type = data_type_from_str (hd parts), col_primary_key = primary_key,
              col_not_null = (primary_key \<or> ''NOT'' \<in> set upper_parts \<and> ''NULL'' \<in> set upper_parts),
              col_unique = (''UNIQUE'' \<in> set upper_parts)\<rparr>)"

fun parse_columns :: "string list \<Rightarrow> column list result" where
  "parse_columns [] = Inr []"
| "parse_columns (c # cs) =
     (let col_def = trim c in
      if col_def = [] then parse_columns cs
      else rbind (parse_column col_def) (\<lambda>col. rbind (parse_columns cs) (\<lambda>cols. Inr (col # cols))))"

definition parse_create_table :: "regex_ops \<Rightarrow> string \<Rightarrow> statement result" where
  "parse_create_table rx sql =
     rbind (captures_or rx ReCreateTable sql) (\<lambda>caps.
     rbind (group 1 caps) (\<lambda>name.
     rbind (group 2 caps) (\<lambda>columns_str.
     rbind (parse_columns (split_char CHR '','' columns_str)) (\<lambda>columns. Inr (CreateTable name columns)))))"

definition parse_drop_table :: "regex_ops \<Rightarrow> string \<Rightarrow> statement result" where
  "parse_drop_table rx sql =
     rbind (captures_or rx ReDropTable sql) (\<lambda>caps. rbind (group 1 caps) (\<lambda>name. Inr (DropTable name)))"

definition parse_added_column :: "string \<Rightarrow> column result" where
  "parse_added_column col_def =
     rbind (parse_identifier col_def) (\<lambda>(name, rest).
       let parts = split_sql_parts (trim rest); upper_parts = map to_uppercase parts in
       if parts = [] then Inl (Error ParseError)
       else if ''PRIMARY'' \<in> set upper_parts then Inl (Error ParseError)
       else if ''NOT'' \<in> set upper_parts \<and> ''NULL'' \<in> set upper_parts then Inl (Error ParseError)
       else Inr \<lparr>col_name = name, col_data_type = data_type_from_str (hd parts), col_primary_key = False,
                 col_not_null = False, col_unique = (''UNIQUE'' \<in> set upper_parts)\<rparr>)"

definition parse_alter_table :: "regex_ops \<Rightarrow> string \<Rightarrow> statement result" where
  "parse_alter_table rx sql0 =
     (let sql = trim (trim_end_matches CHR '';'' (trim sql0)) in
      case rx_captures rx ReRenameTable sql of
        Some caps \<Rightarrow> rbind (group 1 caps) (\<lambda>t. rbind (group 2 caps) (\<lambda>n. Inr (AlterTable t (RenameTable n))))
      | None \<Rightarrow>
          (case rx_captures rx ReRenameColumn sql of
             Some caps \<Rightarrow>
               rbind (group 1 caps) (\<lambda>t. rbind (group 2 caps) (\<lambda>a. rbind (group 3 caps) (\<lambda>b. Inr (AlterTable t (RenameColumn a b)))))
           | None \<Rightarrow>
               (case rx_captures rx ReAddColumn sql of
                  Some caps \<Rightarrow>
                    rbind (group 1 caps) (\<lambda>t. rbind (group 2 caps) (\<lambda>d.
                    rbind (parse_added_column (trim d)) (\<lambda>col. Inr (AlterTable t (AddColumn col)))))
                | None \<Rightarrow>
                    (case rx_captures rx ReDropColumn sql of
                       Some caps \<Rightarrow> rbind (group 1 caps) (\<lambda>t. rbind (group 2 caps) (\<lambda>c. Inr (AlterTable t (DropColumn c))))
                     | None \<Rightarrow> Inl (Error ParseError)))))"

definition parse_insert :: "regex_ops \<Rightarrow> string \<Rightarrow> statement result" where
  "parse_insert rx sql =
     rbind (captures_or rx ReInsert sql) (\<lambda>caps.
     rbind (group 1 caps) (\<lambda>table.
     rbind (group 3 caps) (\<lambda>values_str.
     rbind (parse_values values_str) (\<lambda>vs.
       Inr (InsertInto table (map_option (\<lambda>c. map trim (split_char CHR '','' c)) (group_opt 2 caps)) vs)))))"

definition parse_limit :: "regex_ops \<Rightarrow> string \<Rightarrow> (nat option \<times> string) result" where
  "parse_limit rx remaining =
     (case rx_captures rx ReLimit remaining of
        None \<Rightarrow> Inr (None, remaining)
      | Some caps \<Rightarrow>
          rbind (group 1 caps) (\<lambda>d.
            case parse_unsigned 64 d of
              None \<Rightarrow> Inl (Error ParseError)
            | Some n \<Rightarrow> Inr (Some n, rx_remove rx ReLimit remaining)))"

definition order_direction :: "string \<Rightarrow> (bool \<times> string) result" where
  "order_direction expr =
     (let upper_expr = to_uppercase expr in
      if ends_with '' DESC'' upper_expr then rbind (str_drop_end 5 expr) (\<lambda>e. Inr (False, trim e))
      else if ends_with '' ASC'' upper_expr then rbind (str_drop_end 4 expr) (\<lambda>e. Inr (True, trim e))
      else Inr (True, trim expr))"

definition parse_order_by :: "regex_ops \<Rightarrow> string \<Rightarrow> (order_by option \<times> string) result" where
  "parse_order_by rx remaining =
     rbind (find_order_by remaining) (\<lambda>found.
       case found of
         None \<Rightarrow> Inr (None, remaining)
       | Some idx \<Rightarrow>
           let clause = trim (drop idx remaining) in
           (case rx_end rx ReOrderBy clause of
              None \<Rightarrow> Inl (Error ParseError)
            | Some expr_start \<Rightarrow>
                rbind (str_from expr_start clause) (\<lambda>rest.
                rbind (order_direction (trim (trim_end_matches CHR '';'' (trim rest)))) (\<lambda>(ascending, expr).
                  if expr = [] then Inl (Error ParseError)
                  else Inr (Some \<lparr>ob_column = expr, ob_ascending = ascending\<rparr>, trim_end (take idx remaining))))))"

definition select_columns :: "string \<Rightarrow> string list" where
  "select_columns columns_str =
     (if columns_str = ''*'' then [''*'']
      else if starts_with ''COUNT('' (to_uppercase columns_str) then [columns_str]
      else split_top_level_commas columns_str)"

definition parse_select :: "regex_ops \<Rightarrow> string \<Rightarrow> statement result" where
  "parse_select rx sql =
     rbind (parse_limit rx (trim sql)) (\<lambda>(limit, r1).
     rbind (parse_order_by rx r1) (\<lambda>(order, r2).
     rbind (captures_or rx ReSelect (trim (trim_end_matches CHR '';'' r2))) (\<lambda>caps.
     rbind (group 1 caps) (\<lambda>columns_str.
     rbind (group 2 caps) (\<lambda>table.
     rbind (parse_where_opt rx (group_opt 3 caps)) (\<lambda>wc.
       Inr (Select table (select_columns (trim columns_str)) wc order limit)))))))"

fun parse_assignments :: "string list \<Rightarrow> (string, sql_value) fmap \<Rightarrow> (string, sql_value) fmap result" where
  "parse_assignments [] m = Inr m"
| "parse_assignments (a # as) m =
     (case split_char CHR ''='' a of
        [column, v] \<Rightarrow> rbind (parse_value (trim v)) (\<lambda>x. parse_assignments as (fmupd (trim column) x m))
      | _ \<Rightarrow> Inl (Error ParseError))"

definition assignment_list :: "(string fset \<Rightarrow> string list) \<Rightarrow> (string, sql_value) fmap \<Rightarrow> (string \<times> sql_value) list" where
  "assignment_list ord m = List.map_filter (\<lambda>c. map_option (Pair c) (fmlookup m c)) (ord (fmdom m))"

definition parse_update :: "regex_ops \<Rightarrow> (string fset \<Rightarrow> string list) \<Rightarrow> string \<Rightarrow> statement result" where
  "parse_update rx ord sql =
     rbind (captures_or rx ReUpdate sql) (\<lambda>caps.
     rbind (group 1 caps) (\<lambda>table.
     rbind (group 2 caps) (\<lambda>assignments_str.
     rbind (parse_assignments (split_char CHR '','' assignments_str) fmempty) (\<lambda>m.
     rbind (parse_where_opt rx (group_opt 3 caps)) (\<lambda>wc.
       Inr (UpdateSet table (assignment_list ord m) wc))))))"

definition parse_delete :: "regex_ops \<Rightarrow> string \<Rightarrow> statement result" where
  "parse_delete rx sql =
     rbind (captures_or rx ReDelete sql) (\<lambda>caps.
     rbind (group 1 caps) (\<lambda>table.
     rbind (parse_where_opt rx (group_opt 2 caps)) (\<lambda>wc. Inr (DeleteFrom table wc))))"

definition parse_sql :: "regex_ops \<Rightarrow> (string fset \<Rightarrow> string list) \<Rightarrow> string \<Rightarrow> statement result" where
  "parse_sql rx ord sql0 =
     (let sql = trim sql0; upper = to_uppercase sql in
      if starts_with ''CREATE TABLE'' upper then parse_create_table rx sql
      else if starts_with ''DROP TABLE'' upper then parse_drop_table rx sql
      else if starts_with ''ALTER TABLE'' upper then parse_alter_table rx sql
      else if starts_with ''INSERT INTO'' upper then parse_insert rx sql
      else if starts_with ''SELECT'' upper then parse_select rx sql
      else if starts_with ''UPDATE'' upper then parse_update rx ord sql
      else if starts_with ''DELETE FROM'' upper then parse_delete rx sql
      else if upper = ''BEGIN'' \<or> upper = ''BEGIN TRANSACTION'' then Inr BeginTransaction
      else if upper = ''COMMIT'' \<or> upper = ''COMMIT TRANSACTION'' then Inr CommitTransaction
      else if upper = ''ROLLBACK'' \<or> upper = ''ROLLBACK TRANSACTION'' then Inr RollbackTransaction
      else Inl (Error ParseError))"

end
