(* ===== verification/SqlText.thy ===== *)
theory SqlText
  imports Parser Database
begin

text \<open>
  SQL text in, effects out: \<open>Database::execute\<close> and \<open>Database::query\<close> with the parser in front.
\<close>

definition db_execute :: "env \<Rightarrow> regex_ops \<Rightarrow> (string fset \<Rightarrow> string list) \<Rightarrow> string \<Rightarrow> (database, unit) op" where
  "db_execute en rx ord sql = mbind (mlift (parse_sql rx ord sql)) (execute_parsed en)"

definition db_query :: "env \<Rightarrow> regex_ops \<Rightarrow> (string fset \<Rightarrow> string list) \<Rightarrow> string \<Rightarrow> (database, query_result) op" where
  "db_query en rx ord sql = mbind (mlift (parse_sql rx ord sql)) (query_statement en)"

section \<open>ASCII text\<close>

definition is_ascii :: "string \<Rightarrow> bool" where
  "is_ascii s = list_all (\<lambda>c. of_char c < (128 :: nat)) s"

lemma is_ascii_simps [simp]:
  "is_ascii []" "is_ascii (c # s) \<longleftrightarrow> of_char c < (128 :: nat) \<and> is_ascii s" "is_ascii (s @ t) \<longleftrightarrow> is_ascii s \<and> is_ascii t"
  by (simp_all add: is_ascii_def)

lemma chars_ascii: "is_ascii s \<Longrightarrow> chars s = map of_char s"
  unfolding chars_def by (induction s) simp_all

lemma of_chars_ascii: "is_ascii s \<Longrightarrow> of_chars (map of_char s) = s"
  by (induction s) (simp_all add: of_chars_def utf8_encode_def)

lemma is_ascii_rev: "is_ascii (rev s) = is_ascii s"
  by (simp add: is_ascii_def)

definition visible :: "char \<Rightarrow> bool" where
  "visible c \<longleftrightarrow> \<not> is_whitespace (ascii c)"

lemma dropWhile_space: "dropWhile is_whitespace (map of_char s) = map of_char (dropWhile (\<lambda>c. \<not> visible c) s)"
  by (simp add: dropWhile_map comp_def visible_def)

lemma is_ascii_dropWhile: "is_ascii s \<Longrightarrow> is_ascii (dropWhile P s)"
  by (induction s) simp_all

lemma trim_start_ascii: "is_ascii s \<Longrightarrow> trim_start s = dropWhile (\<lambda>c. \<not> visible c) s"
  by (simp add: trim_start_def chars_ascii dropWhile_space of_chars_ascii is_ascii_dropWhile)

lemma trim_end_ascii: "is_ascii s \<Longrightarrow> trim_end s = rev (dropWhile (\<lambda>c. \<not> visible c) (rev s))"
  by (simp add: trim_end_def chars_ascii dropWhile_space of_chars_ascii is_ascii_dropWhile is_ascii_rev rev_map)

text \<open>Trimming a text that starts and ends with a visible character, with or without a space in front.\<close>

definition compact :: "string \<Rightarrow> bool" where
  "compact s \<longleftrightarrow> is_ascii s \<and> s \<noteq> [] \<and> visible (hd s) \<and> visible (last s)"

lemma trim_compact: "compact s \<Longrightarrow> trim s = s"
proof -
  assume c: "compact s"
  have "dropWhile (\<lambda>c. \<not> visible c) s = s" using c by (cases s) (simp_all add: compact_def)
  moreover have "dropWhile (\<lambda>c. \<not> visible c) (rev s) = rev s"
    using c by (cases "rev s") (simp_all add: compact_def last_rev [of "rev s", simplified] flip: hd_rev)
  ultimately show "trim s = s" using c by (simp add: trim_def trim_start_ascii trim_end_ascii compact_def)
qed

lemma trim_space: "compact s \<Longrightarrow> trim (CHR 0x20 # s) = s"
proof -
  assume c: "compact s"
  have "\<not> visible CHR 0x20" by (simp add: visible_def is_whitespace_def)
  moreover have "dropWhile (\<lambda>c. \<not> visible c) s = s" using c by (cases s) (simp_all add: compact_def)
  ultimately have "trim_start (CHR 0x20 # s) = trim_start s" using c by (simp add: trim_start_ascii compact_def)
  then show ?thesis using trim_compact [OF c] by (simp add: trim_def)
qed

section \<open>Quoted text\<close>

definition escape_char :: "char \<Rightarrow> char \<Rightarrow> string" where
  "escape_char q c = (if c = backslash \<or> c = q then [backslash, c] else [c])"

definition quote_text :: "char \<Rightarrow> string \<Rightarrow> string" where
  "quote_text q s = q # concat (map (escape_char q) s) @ [q]"

lemma replace_all_Nil: "replace_all pat by [] = []"
  by (simp add: replace_all.simps)

lemma replace_all_match: "pat \<noteq> [] \<Longrightarrow> replace_all pat by (pat @ s) = by @ replace_all pat by s"
  by (subst replace_all.simps) (simp add: starts_with_def)

lemma replace_all_skip: "pat \<noteq> [] \<Longrightarrow> \<not> starts_with pat (c # s) \<Longrightarrow> replace_all pat by (c # s) = c # replace_all pat by s"
  by (subst replace_all.simps) simp

lemma escaped_not_quote: "q \<noteq> backslash \<Longrightarrow> \<not> starts_with [q] (concat (map (escape_char q) s))"
  by (cases s) (auto simp: escape_char_def starts_with_def)

lemma unescape_quotes:
  assumes q: "q \<noteq> backslash"
  shows "replace_all [backslash, q] [q] (concat (map (escape_char q) s)) = concat (map (escape_char backslash) s)"
proof (induction s)
  case (Cons c s)
  let ?r = "concat (map (escape_char q) s)"
  consider "c = backslash" | "c = q" | "c \<noteq> backslash" "c \<noteq> q" by blast
  then show ?case
  proof cases
    case 1
    have "\<not> starts_with [backslash, q] (backslash # backslash # ?r)" using q by (auto simp: starts_with_def)
    moreover have "\<not> starts_with [backslash, q] (backslash # ?r)" using escaped_not_quote [OF q, of s] by (auto simp: starts_with_def)
    moreover have "escape_char q c = [backslash, backslash]" "escape_char backslash c = [backslash, backslash]" using 1 by (simp_all add: escape_char_def)
    ultimately show ?thesis using Cons by (simp add: replace_all_skip)
  next
    case 2
    then have "escape_char q c = [backslash, q]" "escape_char backslash c = [q]" using q by (simp_all add: escape_char_def)
    then show ?thesis using Cons replace_all_match [of "[backslash, q]" "[q]" ?r] by simp
  next
    case 3
    then have "escape_char q c = [c]" "escape_char backslash c = [c]" by (simp_all add: escape_char_def)
    with 3 show ?thesis using Cons by (simp add: replace_all_skip starts_with_def)
  qed
qed (simp add: replace_all_Nil)

lemma unescape_backslashes: "replace_all [backslash, backslash] [backslash] (concat (map (escape_char backslash) s)) = s"
proof (induction s)
  case (Cons c s)
  show ?case
  proof (cases "c = backslash")
    case True
    then have "escape_char backslash c = [backslash, backslash]" by (simp add: escape_char_def)
    with True show ?thesis
      using Cons replace_all_match [of "[backslash, backslash]" "[backslash]" "concat (map (escape_char backslash) s)"] by simp
  next
    case False
    then have "escape_char backslash c = [c]" by (simp add: escape_char_def)
    with False show ?thesis using Cons by (simp add: replace_all_skip starts_with_def)
  qed
qed (simp add: replace_all_Nil)

lemma unescape_escaped: "q \<noteq> backslash \<Longrightarrow> unescape q (concat (map (escape_char q) s)) = s"
  by (simp add: unescape_def unescape_quotes unescape_backslashes)

end
