(* ===== verification/ParserTheorems.thy ===== *)
theory ParserTheorems
  imports SqlText "HOL-Library.List_Lexorder" "HOL-Library.Char_ord"
begin

text \<open>
  Properties of the parser: literals written as SQL are read back, and texts it treats badly.
\<close>

section \<open>Writing literals\<close>

definition decimal_int :: "int \<Rightarrow> string" where
  "decimal_int i = (if i < 0 then CHR ''-'' # decimal (nat (- i)) else decimal (nat i))"

definition sql_literal :: "sql_value \<Rightarrow> string" where
  "sql_literal v =
     (case v of VInteger i \<Rightarrow> decimal_int (sint i) | VText s \<Rightarrow> quote_text CHR 0x27 s | _ \<Rightarrow> ''NULL'')"

definition printable :: "sql_value \<Rightarrow> bool" where
  "printable v = (case v of VNull \<Rightarrow> True | VInteger _ \<Rightarrow> True | VText s \<Rightarrow> is_ascii s | _ \<Rightarrow> False)"

lemma decimal_digits: "list_all is_digit (decimal n) \<and> decimal n \<noteq> [] \<and> digits_value (decimal n) = n"
proof (induction n rule: decimal.induct)
  case (1 n)
  have d: "m < 10 \<Longrightarrow> (of_char (char_of (48 + m) :: char) :: nat) = 48 + m" for m :: nat by simp
  show ?case
  proof (cases "n < 10")
    case True
    then have "decimal n = [char_of (48 + n)]" by (subst decimal.simps) simp
    then show ?thesis using True d [OF True] by (simp add: is_digit_def digits_value_def)
  next
    case False
    have m: "n mod 10 < 10" by simp
    from 1 False have IH: "list_all is_digit (decimal (n div 10))" "digits_value (decimal (n div 10)) = n div 10" by simp_all
    have e: "decimal n = decimal (n div 10) @ [char_of (48 + n mod 10)]" using False by (subst decimal.simps) simp
    have "n mod 10 \<le> 9" using m by linarith
    then have "is_digit (char_of (48 + n mod 10))" using d [OF m] by (simp add: is_digit_def)
    moreover have "10 * (n div 10) + n mod 10 = n" by simp
    ultimately show ?thesis unfolding e using IH d [OF m] by (simp add: digits_value_def)
  qed
qed

lemma parse_decimal: "parse_digits (decimal n) = Some n"
  using decimal_digits [of n] by (simp add: parse_digits_def)

lemma digit_facts:
  assumes "is_digit c"
  shows "of_char c < (128 :: nat)" and "visible c" and "c \<noteq> CHR ''-''" and "c \<noteq> CHR ''+''" and "c \<noteq> CHR ''[''" and "c \<notin> set ''(),]''"
    and "\<not> is_quote c" and "c \<noteq> backslash" and "upper_char (ascii c) = [ascii c]" and "lower_char (ascii c) = [ascii c]"
  using assms by (auto simp: is_digit_def visible_def is_whitespace_def is_quote_def backslash_def upper_char_def lower_char_def)

lemma decimal_ascii: "is_ascii (decimal n)"
  using decimal_digits [of n] digit_facts(1) by (auto simp: is_ascii_def list_all_iff)

lemma decimal_Cons: obtains c s where "decimal n = c # s" and "is_digit c" and "list_all is_digit s"
  using decimal_digits [of n] by (cases "decimal n") auto

lemma parse_i64_decimal: "parse_i64 (decimal_int (sint i)) = Some i"
proof (cases "sint i < 0")
  case True
  have "- (2 ^ 63) \<le> sint i" using sint_ge [of i] by simp
  then show ?thesis using True by (simp add: decimal_int_def parse_i64_def parse_decimal of_int_sint)
next
  case False
  obtain c s where d: "decimal (nat (sint i)) = c # s" "is_digit c" by (rule decimal_Cons)
  have "sint i < 2 ^ 63" using sint_lt [of i] by simp
  moreover have "parse_i64 (c # s) = (case parse_digits (c # s) of None \<Rightarrow> None | Some n \<Rightarrow> if n < 2 ^ 63 then Some (word_of_int (int n)) else None)"
    using digit_facts(3,4) [OF d(2)] by (simp add: parse_i64_def split: char.split bool.split)
  ultimately show ?thesis using False parse_decimal [of "nat (sint i)"] d(1) by (simp add: decimal_int_def nat_less_iff of_int_sint)
qed

section \<open>Reading one literal\<close>

lemma boundary_ascii:
  assumes "is_ascii s" and "n \<le> length s"
  shows "char_boundary n s"
proof (cases "n = length s")
  case False
  then have "of_char (s ! n) < (128 :: nat)" using assms by (simp add: is_ascii_def list_all_length)
  with False assms(2) show ?thesis by (simp add: char_boundary_def)
qed (simp add: char_boundary_def)

lemma case_Cons:
  assumes "of_char c < (128 :: nat)"
  shows "to_uppercase (c # s) = of_chars (upper_char (ascii c)) @ to_uppercase s"
    and "to_lowercase (c # s) = of_chars (lower_char (ascii c)) @ to_lowercase s"
  using assms by (simp_all add: to_uppercase_def to_lowercase_def chars_def of_chars_def)

lemma of_chars_one: "of_char c < (128 :: nat) \<Longrightarrow> of_chars [ascii c] = [c]"
  using of_chars_ascii [of "[c]"] by simp

lemma upper_id: "of_char c < (97 :: nat) \<Longrightarrow> to_uppercase (c # s) = c # to_uppercase s"
  using of_chars_one [of c] by (simp add: case_Cons upper_char_def)

lemma quote_text_facts:
  assumes "is_ascii s"
  shows "compact (quote_text CHR 0x27 s)" and "is_ascii (concat (map (escape_char CHR 0x27) s))"
proof -
  show a: "is_ascii (concat (map (escape_char CHR 0x27) s))"
    using assms by (induction s) (simp_all add: escape_char_def backslash_def)
  show "compact (quote_text CHR 0x27 s)"
    using a by (simp add: compact_def quote_text_def visible_def is_whitespace_def)
qed

lemma parse_text_literal:
  assumes "is_ascii s"
  shows "parse_value (quote_text CHR 0x27 s) = Inr (VText s)"
proof -
  let ?e = "concat (map (escape_char CHR 0x27) s)" and ?l = "quote_text CHR 0x27 s"
  have l: "?l = CHR 0x27 # ?e @ [CHR 0x27]" by (simp add: quote_text_def)
  have a: "is_ascii ?l" using quote_text_facts [OF assms] by (simp add: compact_def)
  have "to_uppercase ?l \<noteq> ''NULL''"
    by (simp add: l upper_id)
  moreover have "starts_with [CHR 0x27] ?l" "ends_with [CHR 0x27] ?l" by (simp_all add: l starts_with_def ends_with_def)
  moreover have "str_range 1 (length ?l - 1) ?l = Inr ?e"
    using boundary_ascii [OF a, of 1] boundary_ascii [OF a, of "length ?l - 1"] by (simp add: str_range_def l)
  moreover have "unescape CHR 0x27 ?e = s" by (rule unescape_escaped) (simp add: backslash_def)
  moreover have "hd ?l = CHR 0x27" by (simp add: l)
  ultimately show ?thesis
    by (simp add: parse_value_def trim_compact [OF quote_text_facts(1) [OF assms]] parse_scalar_def quoted_by_def Let_def split: option.split)
qed

lemma parse_null_literal: "parse_value ''NULL'' = Inr VNull"
proof -
  have "to_uppercase ''NULL'' = ''NULL''" by (simp add: upper_id) (simp add: to_uppercase_def chars_def of_chars_def)
  moreover have "trim ''NULL'' = ''NULL''" by (rule trim_compact) (simp add: compact_def visible_def is_whitespace_def)
  ultimately show ?thesis by (simp add: parse_value_def)
qed

lemma number_text:
  assumes s: "s = c # r" and a: "is_ascii s" and c: "is_digit c \<or> c = CHR ''-''" and v: "visible (last s)"
  shows "parse_value s = parse_number_or_text s" and "compact s"
proof -
  have ca: "of_char c < (128 :: nat)" "visible c" using c digit_facts(1,2) [of c] by (auto simp: visible_def is_whitespace_def)
  show cp: "compact s" using s a ca v by (simp add: compact_def)
  have up: "upper_char (ascii c) = [ascii c]" "lower_char (ascii c) = [ascii c]"
    using c digit_facts(9,10) [of c] by (auto simp: upper_char_def lower_char_def)
  have ne: "c \<noteq> CHR ''N''" "c \<noteq> CHR ''v''" "c \<noteq> CHR ''[''" "c \<noteq> CHR 0x27" "c \<noteq> CHR 0x22"
    using c by (auto simp: is_digit_def)
  have "to_uppercase s \<noteq> ''NULL''" using ne by (simp add: s case_Cons ca up of_chars_one)
  moreover have "\<not> starts_with ''['' s" "\<not> starts_with [CHR 0x27] s" "\<not> starts_with [CHR 0x22] s" using ne by (simp_all add: s starts_with_def)
  moreover have "vector_call [''vector32('', ''vector64('', ''vector(''] (to_lowercase s) s = None"
    using ne by (simp add: s case_Cons ca up of_chars_one starts_with_def)
  ultimately show "parse_value s = parse_number_or_text s"
    by (simp add: parse_value_def trim_compact [OF cp] parse_vector_constructor_def unquote_def strip_prefix_def parse_scalar_def quoted_by_def Let_def)
qed

lemma decimal_int_Cons:
  obtains c r where "decimal_int i = c # r" and "is_digit c \<or> c = CHR ''-''" and "list_all is_digit r" and "visible (last (c # r))"
proof (cases "i < 0")
  case True
  have d: "list_all is_digit (decimal (nat (- i)))" "decimal (nat (- i)) \<noteq> []" using decimal_digits by auto
  then have "is_digit (last (decimal (nat (- i))))" by (simp add: list_all_iff)
  then have "visible (last (CHR ''-'' # decimal (nat (- i))))" using d(2) digit_facts(2) by simp
  with True d show thesis by (intro that [of "CHR ''-''" "decimal (nat (- i))"]) (simp_all add: decimal_int_def)
next
  case False
  obtain c s where c: "decimal (nat i) = c # s" "is_digit c" "list_all is_digit s" by (rule decimal_Cons)
  have "is_digit (last (c # s))" using c(2,3) by (auto simp: list_all_iff)
  with False c show thesis using digit_facts(2) by (intro that [of c s]) (auto simp: decimal_int_def)
qed

lemma parse_integer_literal: "parse_value (decimal_int (sint i)) = Inr (VInteger i)" "compact (decimal_int (sint i))"
proof -
  obtain c r where d: "decimal_int (sint i) = c # r" "is_digit c \<or> c = CHR ''-''" "list_all is_digit r" "visible (last (c # r))"
    by (rule decimal_int_Cons)
  have a: "is_ascii (decimal_int (sint i))" using decimal_ascii by (simp add: decimal_int_def)
  have v: "visible (last (decimal_int (sint i)))" using d(1,4) by simp
  from number_text [OF d(1) a d(2) v] show "parse_value (decimal_int (sint i)) = Inr (VInteger i)" "compact (decimal_int (sint i))"
    by (simp_all add: parse_number_or_text_def parse_i64_decimal)
qed

lemma literal_facts:
  assumes "printable v"
  shows "parse_value (sql_literal v) = Inr v" and "compact (sql_literal v)"
proof -
  have "compact ''NULL''" by (simp add: compact_def visible_def is_whitespace_def)
  with assms show "parse_value (sql_literal v) = Inr v" "compact (sql_literal v)"
    by (cases v; simp add: printable_def sql_literal_def parse_null_literal parse_integer_literal parse_text_literal quote_text_facts)+
qed

section \<open>Reading a list of literals\<close>

definition plain_char :: "char \<Rightarrow> bool" where
  "plain_char c \<longleftrightarrow> \<not> is_quote c \<and> c \<notin> set ''([)],''"

lemma value_loop_append: "value_loop (s @ t) st = rbind (value_loop s st) (value_loop t)"
  by (induction s arbitrary: st) (simp_all add: rbind_def split: sum.split)

lemma loop_plain:
  assumes "list_all plain_char s" and "sc_quote st = None" and "\<not> sc_escaped st"
  shows "value_loop s st = Inr (st\<lparr>sc_current := sc_current st @ s\<rparr>)"
  using assms
proof (induction s arbitrary: st)
  case (Cons c s)
  then have "value_step c st = Inr (scan_push c st)" by (simp add: value_step_def plain_char_def)
  moreover have "value_loop s (scan_push c st) = Inr ((scan_push c st)\<lparr>sc_current := sc_current (scan_push c st) @ s\<rparr>)"
    using Cons.prems by (intro Cons.IH) (simp_all add: scan_push_def)
  ultimately show ?case by (simp add: scan_push_def)
qed simp

lemma loop_escaped:
  assumes "sc_quote st = Some q" and "\<not> sc_escaped st" and q: "q \<noteq> backslash"
  shows "value_loop (concat (map (escape_char q) s)) st = Inr (st\<lparr>sc_current := sc_current st @ concat (map (escape_char q) s)\<rparr>)"
  using assms(1,2)
proof (induction s arbitrary: st)
  case (Cons c s)
  have step: "value_loop (escape_char q c) st = Inr (st\<lparr>sc_current := sc_current st @ escape_char q c\<rparr>)"
    using Cons.prems q by (cases st) (simp add: escape_char_def value_step_def scan_push_def)
  have "value_loop (concat (map (escape_char q) s)) (st\<lparr>sc_current := sc_current st @ escape_char q c\<rparr>) =
      Inr (st\<lparr>sc_current := (sc_current st @ escape_char q c) @ concat (map (escape_char q) s)\<rparr>)"
    using Cons.prems Cons.IH [of "st\<lparr>sc_current := sc_current st @ escape_char q c\<rparr>"] by simp
  with step show ?case by (simp add: value_loop_append)
qed simp

lemma loop_quoted:
  assumes "sc_quote st = None" and "\<not> sc_escaped st"
  shows "value_loop (quote_text CHR 0x27 s) st = Inr (st\<lparr>sc_current := sc_current st @ quote_text CHR 0x27 s\<rparr>)"
proof -
  let ?st = "st\<lparr>sc_current := sc_current st @ [CHR 0x27], sc_quote := Some CHR 0x27\<rparr>" and ?e = "concat (map (escape_char CHR 0x27) s)"
  have b: "CHR 0x27 \<noteq> backslash" by (simp add: backslash_def)
  have 1: "value_step CHR 0x27 st = Inr ?st" using assms b by (simp add: value_step_def scan_push_def is_quote_def)
  have 2: "value_loop ?e ?st = Inr (?st\<lparr>sc_current := sc_current ?st @ ?e\<rparr>)" by (rule loop_escaped) (use assms b in simp_all)
  have 3: "value_step CHR 0x27 (?st\<lparr>sc_current := sc_current ?st @ ?e\<rparr>) = Inr (st\<lparr>sc_current := sc_current st @ quote_text CHR 0x27 s\<rparr>)"
    using assms b by (cases st) (simp add: value_step_def scan_push_def quote_text_def)
  show ?thesis using 1 2 3 by (simp add: quote_text_def value_loop_append)
qed

lemma loop_literal:
  assumes "printable v" and "sc_quote st = None" and "\<not> sc_escaped st"
  shows "value_loop (sql_literal v) st = Inr (st\<lparr>sc_current := sc_current st @ sql_literal v\<rparr>)"
proof -
  have digit: "plain_char c" if "is_digit c \<or> c = CHR ''-''" for c
    using that digit_facts(5-7) [of c] by (auto simp: plain_char_def is_quote_def)
  have int: "list_all plain_char (decimal_int i)" for i
  proof -
    obtain c r where "decimal_int i = c # r" "is_digit c \<or> c = CHR ''-''" "list_all is_digit r" by (rule decimal_int_Cons)
    then show ?thesis using digit by (auto simp: list_all_iff)
  qed
  have "value_loop ''NULL'' st = Inr (st\<lparr>sc_current := sc_current st @ ''NULL''\<rparr>)"
    using assms by (intro loop_plain) (simp_all add: plain_char_def is_quote_def)
  with assms int show ?thesis
    by (cases v) (simp_all add: printable_def sql_literal_def loop_plain loop_quoted del: value_loop.simps)
qed

text \<open>Literals separated by a comma and a space.\<close>

fun literal_list :: "sql_value list \<Rightarrow> string" where
  "literal_list [] = []"
| "literal_list [v] = sql_literal v"
| "literal_list (v # w # vs) = sql_literal v @ '', '' @ literal_list (w # vs)"

definition pending_text :: "string \<Rightarrow> bool" where
  "pending_text cur \<longleftrightarrow> cur = [] \<or> cur = [CHR 0x20]"

lemma trim_pending: "pending_text cur \<Longrightarrow> compact s \<Longrightarrow> trim (cur @ s) = s"
  by (auto simp: pending_text_def trim_compact trim_space)

lemma loop_list:
  assumes "list_all printable vs" and "vs \<noteq> []" and "sc_quote st = None" and "\<not> sc_escaped st" and "sc_depth st = 0"
    and "pending_text (sc_current st)"
  shows "rbind (value_loop (literal_list vs) st) (\<lambda>st. if trim (sc_current st) = [] then Inr (sc_done st)
      else rbind (parse_value (trim (sc_current st))) (\<lambda>v. Inr (sc_done st @ [v]))) = Inr (sc_done st @ vs)"
  using assms
proof (induction vs arbitrary: st rule: literal_list.induct)
  case (2 v)
  then have v: "parse_value (sql_literal v) = Inr v" "compact (sql_literal v)" by (simp_all add: literal_facts)
  then have "sql_literal v \<noteq> []" by (simp add: compact_def)
  with 2 v show ?case by (simp add: loop_literal trim_pending)
next
  case (3 v w vs)
  have v: "parse_value (sql_literal v) = Inr v" "compact (sql_literal v)" using "3.prems" by (simp_all add: literal_facts)
  let ?st1 = "st\<lparr>sc_current := sc_current st @ sql_literal v\<rparr>"
  let ?st2 = "st\<lparr>sc_done := sc_done st @ [v], sc_current := [CHR 0x20]\<rparr>"
  have l: "value_loop (sql_literal v) st = Inr ?st1" using "3.prems" by (intro loop_literal) simp_all
  have t: "trim (sc_current ?st1) = sql_literal v" using "3.prems"(6) v(2) by (simp add: trim_pending)
  have "value_step CHR '','' ?st1 = Inr (st\<lparr>sc_done := sc_done st @ [v], sc_current := []\<rparr>)"
    using "3.prems" t v(1) by (cases st) (simp add: value_step_def is_quote_def backslash_def)
  moreover have "value_step CHR 0x20 (st\<lparr>sc_done := sc_done st @ [v], sc_current := []\<rparr>) = Inr ?st2"
    using "3.prems" by (cases st) (simp add: value_step_def scan_push_def is_quote_def backslash_def)
  ultimately have c: "value_loop '', '' ?st1 = Inr ?st2" by simp
  have "value_loop (literal_list (v # w # vs)) st = value_loop (literal_list (w # vs)) ?st2"
    by (simp only: literal_list.simps value_loop_append l c rbind_Inr)
  with "3.IH" [of ?st2] "3.prems" show ?case by (simp add: pending_text_def)
qed simp

lemma parse_literal_list: "list_all printable vs \<Longrightarrow> parse_values (literal_list vs) = Inr vs"
proof (cases "vs = []")
  case True
  then show ?thesis by (simp add: parse_values_def scan_start_def trim_def trim_start_def trim_end_def chars_def of_chars_def)
next
  case False
  assume "list_all printable vs"
  from loop_list [OF this False, of scan_start] show ?thesis
    by (simp add: parse_values_def scan_start_def pending_text_def)
qed

section \<open>Text that is no literal\<close>

lemma trim_trailing: "compact s \<Longrightarrow> trim (s @ [CHR 0x20]) = s"
proof -
  assume c: "compact s"
  have "\<not> visible CHR 0x20" by (simp add: visible_def is_whitespace_def)
  moreover have "dropWhile (\<lambda>c. \<not> visible c) (rev s) = rev s"
    using c by (cases "rev s") (simp_all add: compact_def last_rev [of "rev s", simplified] flip: hd_rev)
  ultimately have "trim_end (s @ [CHR 0x20]) = s" using c by (simp add: trim_end_ascii compact_def)
  moreover have "trim_start (s @ [CHR 0x20]) = s @ [CHR 0x20]"
    using c by (cases s) (simp_all add: trim_start_ascii compact_def)
  ultimately show "trim (s @ [CHR 0x20]) = s" by (simp add: trim_def)
qed

lemmas literal_defs = parse_value_def Let_def parse_vector_constructor_def starts_with_def unquote_def strip_prefix_def strip_suffix_def
  ends_with_def case_Cons(2) lower_char_def of_chars_def utf8_encode_def parse_scalar_def quoted_by_def parse_number_or_text_def
  parse_i64_def parse_digits_def is_digit_def parse_f64_def parse_float_def parse_decimal_def is_blob_literal_def

section \<open>Properties\<close>


definition sample_regex :: regex_ops where
  "sample_regex = \<lparr>rx_captures = (\<lambda>p s. if p = ReInsert then Some [Some ''t'', None, Some (butlast (drop 22 s))] else None),
     rx_end = (\<lambda>_ _. None), rx_remove = (\<lambda>_ s. s)\<rparr>"


text \<open>
  UPDATE takes string literals apart. The assignments are split at every comma and every equals sign,
  inside quotes too: \<open>n = 'a,b=c'\<close> is read, without an error, as two assignments, of the text \<open>'a\<close> to \<open>n\<close> and of
  the text \<open>
  c'\<close> to \<open>b\<close>.
\<close>

theorem update_splits_strings:
  "parse_assignments (split_char CHR '','' (''n = '' @ [CHR 0x27] @ ''a,b=c'' @ [CHR 0x27])) fmempty =
     Inr (fmupd ''b'' (VText (''c'' @ [CHR 0x27])) (fmupd ''n'' (VText ([CHR 0x27] @ ''a'')) fmempty))"
proof -
  have c: "compact [CHR 0x27, CHR ''a'']" "compact [CHR ''c'', CHR 0x27]" "compact ''n''" "compact ''b''"
    by (simp_all add: compact_def visible_def is_whitespace_def)
  have "parse_value [CHR 0x27, CHR ''a''] = Inr (VText [CHR 0x27, CHR ''a''])"
    by (simp add: literal_defs trim_compact [OF c(1)] upper_id)
  moreover have "to_uppercase [CHR ''c'', CHR 0x27] = ''C'' @ [CHR 0x27]"
    using of_chars_one [of "CHR ''C''"] of_chars_one [of "CHR 0x27"]
    by (simp add: case_Cons(1) upper_char_def) (simp add: to_uppercase_def chars_def of_chars_def)
  then have "parse_value [CHR ''c'', CHR 0x27] = Inr (VText [CHR ''c'', CHR 0x27])"
    by (simp add: literal_defs trim_compact [OF c(2)])
  ultimately show ?thesis
    using trim_compact [OF c(1)] trim_space [OF c(1)] trim_trailing [OF c(3)] trim_compact [OF c(2)] trim_compact [OF c(4)] by simp
qed

text \<open>A quote alone panics: the slice between the quotes would start behind its end.\<close>

lemma lone_quote_panics:
  assumes "q = CHR 0x27 \<or> q = CHR 0x22"
  shows "parse_values [q] = Inl Panic"
proof -
  have c: "compact [q]" using assms by (auto simp: compact_def visible_def is_whitespace_def)
  have "parse_value [q] = Inl Panic"
    using assms by (auto simp: parse_value_def trim_compact [OF c] upper_id Let_def parse_scalar_def quoted_by_def
        starts_with_def ends_with_def str_range_def split: option.split)
  then show ?thesis
    using assms by (auto simp: parse_values_def value_step_def scan_start_def scan_push_def is_quote_def backslash_def trim_compact [OF c])
qed

end
