(* ===== verification/Mvcc.thy ===== *)
theory Mvcc
  imports Types "HOL-Library.Finite_Map"
begin

text \<open>
  Multi-version concurrency control, \<open>src/mvcc.rs\<close>: versions and their visibility, versioned records,
  snapshots and the manager with its version store.

  Timestamps and transaction ids are 64-bit counters; \<open>fetch_add\<close> wraps. The process-wide id counter is
  an argument of \<open>begin_transaction\<close>. The order in which a hash map lists its keys is an argument \<open>ord\<close>.
  Ordered maps are finite maps that are listed by key.
\<close>

section \<open>Versions\<close>

definition U64 :: nat where
  "U64 = 2 ^ 64"

definition fetch_add :: "nat \<Rightarrow> nat" where
  "fetch_add n = (n + 1) mod U64"

record version_info =
  xmin :: nat
  xmax :: nat
  created_at :: nat
  deleted_at :: nat

record snapshot =
  snap_timestamp :: nat
  snap_active :: "nat list"
  snap_txn :: nat

definition version_info_new :: "nat \<Rightarrow> nat \<Rightarrow> version_info" where
  "version_info_new t created = \<lparr>xmin = t, xmax = 0, created_at = created, deleted_at = 0\<rparr>"

definition is_transaction_visible :: "snapshot \<Rightarrow> nat \<Rightarrow> bool" where
  "is_transaction_visible s t =
     (if t = snap_txn s then True
      else if snap_txn s \<le> t then False
      else t \<notin> set (snap_active s))"

definition info_visible :: "snapshot \<Rightarrow> version_info \<Rightarrow> bool" where
  "info_visible s i =
     (if snap_timestamp s < created_at i then False
      else if \<not> is_transaction_visible s (xmin i) then False
      else if 0 < xmax i \<and> is_transaction_visible s (xmax i) then False
      else True)"

definition info_mark_deleted :: "nat \<Rightarrow> nat \<Rightarrow> version_info \<Rightarrow> version_info" where
  "info_mark_deleted t ts i = i\<lparr>xmax := t, deleted_at := ts\<rparr>"

record record_version =
  rv_info :: version_info
  rv_data :: row

definition record_version_new :: "nat \<Rightarrow> nat \<Rightarrow> row \<Rightarrow> record_version" where
  "record_version_new t created d = \<lparr>rv_info = version_info_new t created, rv_data = d\<rparr>"

definition version_visible :: "snapshot \<Rightarrow> record_version \<Rightarrow> bool" where
  "version_visible s v = info_visible s (rv_info v)"

section \<open>Records\<close>

record versioned_record =
  vr_key :: i64
  vr_versions :: "record_version list"

definition versioned_record_new :: "i64 \<Rightarrow> versioned_record" where
  "versioned_record_new k = \<lparr>vr_key = k, vr_versions = []\<rparr>"

definition add_version :: "record_version \<Rightarrow> versioned_record \<Rightarrow> versioned_record" where
  "add_version v r = r\<lparr>vr_versions := vr_versions r @ [v]\<rparr>"

definition get_visible_version :: "snapshot \<Rightarrow> versioned_record \<Rightarrow> record_version option" where
  "get_visible_version s r = List.find (version_visible s) (rev (vr_versions r))"

definition mark_deleted :: "nat \<Rightarrow> nat \<Rightarrow> versioned_record \<Rightarrow> unit result \<times> versioned_record" where
  "mark_deleted t ts r =
     (if vr_versions r = [] then (Inl (Error NotFound), r)
      else let v = last (vr_versions r) in
        (Inr (), r\<lparr>vr_versions := butlast (vr_versions r) @ [v\<lparr>rv_info := info_mark_deleted t ts (rv_info v)\<rparr>]\<rparr>))"

definition record_vacuum :: "nat \<Rightarrow> versioned_record \<Rightarrow> versioned_record" where
  "record_vacuum min_active r =
     r\<lparr>vr_versions := filter (\<lambda>v. deleted_at (rv_info v) = 0 \<or> min_active \<le> deleted_at (rv_info v)) (vr_versions r)\<rparr>"

section \<open>The manager\<close>

type_synonym table_versions = "(i64, versioned_record) fmap"

record mvcc_manager =
  current_timestamp :: nat
  active_snapshots :: "(nat, snapshot) fmap"
  version_store :: "(string, table_versions) fmap"
  committed_transactions :: "(nat, nat) fmap"

definition mvcc_new :: mvcc_manager where
  "mvcc_new = \<lparr>current_timestamp = 1, active_snapshots = fmempty, version_store = fmempty, committed_transactions = fmempty\<rparr>"

text \<open>
  \<open>begin_transaction\<close> makes three separate accesses: it takes an id and a timestamp, lists the active
  transactions, and registers its snapshot.
\<close>

definition begin_ids :: "nat \<Rightarrow> mvcc_manager \<Rightarrow> (nat \<times> nat) \<times> nat \<times> mvcc_manager" where
  "begin_ids g m = ((g, current_timestamp m), fetch_add g, m\<lparr>current_timestamp := fetch_add (current_timestamp m)\<rparr>)"

definition begin_snapshot :: "(nat fset \<Rightarrow> nat list) \<Rightarrow> nat \<times> nat \<Rightarrow> mvcc_manager \<Rightarrow> snapshot" where
  "begin_snapshot ord ids m = \<lparr>snap_timestamp = snd ids, snap_active = ord (fmdom (active_snapshots m)), snap_txn = fst ids\<rparr>"

definition begin_register :: "snapshot \<Rightarrow> mvcc_manager \<Rightarrow> mvcc_manager" where
  "begin_register s m = m\<lparr>active_snapshots := fmupd (snap_txn s) s (active_snapshots m)\<rparr>"

definition mvcc_begin :: "(nat fset \<Rightarrow> nat list) \<Rightarrow> nat \<Rightarrow> mvcc_manager \<Rightarrow> snapshot \<times> nat \<times> mvcc_manager" where
  "mvcc_begin ord g m =
     (case begin_ids g m of (ids, g', m1) \<Rightarrow>
        let s = begin_snapshot ord ids m1 in (s, g', begin_register s m1))"

definition mvcc_commit :: "snapshot \<Rightarrow> mvcc_manager \<Rightarrow> mvcc_manager" where
  "mvcc_commit s m =
     m\<lparr>current_timestamp := fetch_add (current_timestamp m),
       committed_transactions := fmupd (snap_txn s) (current_timestamp m) (committed_transactions m),
       active_snapshots := fmdrop (snap_txn s) (active_snapshots m)\<rparr>"

definition mvcc_abort :: "snapshot \<Rightarrow> mvcc_manager \<Rightarrow> mvcc_manager" where
  "mvcc_abort s m = m\<lparr>active_snapshots := fmdrop (snap_txn s) (active_snapshots m)\<rparr>"

definition insert_version :: "string \<Rightarrow> i64 \<Rightarrow> row \<Rightarrow> snapshot \<Rightarrow> mvcc_manager \<Rightarrow> mvcc_manager" where
  "insert_version table key d s m =
     (let version = record_version_new (snap_txn s) (current_timestamp m) d;
          records = (case fmlookup (version_store m) table of None \<Rightarrow> fmempty | Some records \<Rightarrow> records);
          record = (case fmlookup records key of None \<Rightarrow> versioned_record_new key | Some r \<Rightarrow> r)
      in m\<lparr>version_store := fmupd table (fmupd key (add_version version record) records) (version_store m)\<rparr>)"

definition find_record :: "string \<Rightarrow> i64 \<Rightarrow> mvcc_manager \<Rightarrow> versioned_record option" where
  "find_record table key m = Option.bind (fmlookup (version_store m) table) (\<lambda>records. fmlookup records key)"

definition read_version :: "string \<Rightarrow> i64 \<Rightarrow> snapshot \<Rightarrow> mvcc_manager \<Rightarrow> row option" where
  "read_version table key s m =
     map_option rv_data (Option.bind (find_record table key m) (get_visible_version s))"

definition put_record :: "string \<Rightarrow> i64 \<Rightarrow> versioned_record \<Rightarrow> mvcc_manager \<Rightarrow> mvcc_manager" where
  "put_record table key r m =
     (case fmlookup (version_store m) table of
        None \<Rightarrow> m
      | Some records \<Rightarrow> m\<lparr>version_store := fmupd table (fmupd key r records) (version_store m)\<rparr>)"

definition delete_version :: "string \<Rightarrow> i64 \<Rightarrow> snapshot \<Rightarrow> (mvcc_manager, unit) op" where
  "delete_version table key s m =
     (let ts = current_timestamp m; m1 = m\<lparr>current_timestamp := fetch_add ts\<rparr> in
      case find_record table key m1 of
        None \<Rightarrow> (Inl (Error NotFound), m1)
      | Some record \<Rightarrow>
          (case mark_deleted (snap_txn s) ts record of (res, record') \<Rightarrow> (res, put_record table key record' m1)))"

definition keys_in_order :: "table_versions \<Rightarrow> i64 list" where
  "keys_in_order records = sort_key sint (sorted_list_of_fset (fmdom records))"

definition scan_table :: "string \<Rightarrow> snapshot \<Rightarrow> mvcc_manager \<Rightarrow> (i64 \<times> row) list" where
  "scan_table table s m =
     (case fmlookup (version_store m) table of
        None \<Rightarrow> []
      | Some records \<Rightarrow>
          List.map_filter (\<lambda>key. map_option (\<lambda>v. (key, rv_data v))
            (Option.bind (fmlookup records key) (get_visible_version s))) (keys_in_order records))"

definition min_active_timestamp :: "mvcc_manager \<Rightarrow> nat" where
  "min_active_timestamp m =
     (let snaps = map (\<lambda>t. snap_timestamp (the (fmlookup (active_snapshots m) t)))
                    (sorted_list_of_fset (fmdom (active_snapshots m)))
      in if snaps = [] then current_timestamp m else Min (set snaps))"

definition mvcc_vacuum :: "mvcc_manager \<Rightarrow> mvcc_manager" where
  "mvcc_vacuum m =
     (let min_active = min_active_timestamp m in
      m\<lparr>committed_transactions := fmfilter (\<lambda>t. min_active \<le> the (fmlookup (committed_transactions m) t)) (committed_transactions m),
        version_store := fmmap (fmmap (record_vacuum min_active)) (version_store m)\<rparr>)"

record mvcc_stats =
  ms_active :: nat
  ms_records :: nat
  ms_versions :: nat
  ms_bloat :: f64

text \<open>The sizes run over the tables in the order the concurrent map lists them; \<open>fdiv\<close> is the division of the two counts as floats.\<close>

definition get_stats :: "(string fset \<Rightarrow> string list) \<Rightarrow> (nat \<Rightarrow> nat \<Rightarrow> f64) \<Rightarrow> mvcc_manager \<Rightarrow> mvcc_stats" where
  "get_stats ord fdiv m =
     (let tables = List.map_filter (fmlookup (version_store m)) (ord (fmdom (version_store m)));
          total_records = sum_list (map (\<lambda>records. length (keys_in_order records)) tables);
          total_versions = sum_list (map (\<lambda>records. sum_list (map (\<lambda>r. length (vr_versions r))
            (List.map_filter (fmlookup records) (keys_in_order records)))) tables)
      in \<lparr>ms_active = length (sorted_list_of_fset (fmdom (active_snapshots m))), ms_records = total_records,
          ms_versions = total_versions, ms_bloat = (if 0 < total_records then fdiv total_versions total_records else 0)\<rparr>)"

section \<open>Calls of any number of transactions\<close>

text \<open>
  The calls as steps, each atomic: \<open>CForeign\<close> is another manager of the process taking an id. A caller hands in
  the snapshot of a transaction it has begun and not ended. Counters have not wrapped.
\<close>

datatype mvcc_call =
    CBegin | CForeign | CCommit snapshot | CAbort snapshot
  | CInsert string i64 row snapshot | CDelete string i64 snapshot | CVacuum

definition registered :: "mvcc_manager \<Rightarrow> snapshot \<Rightarrow> bool" where
  "registered m s \<longleftrightarrow> fmlookup (active_snapshots m) (snap_txn s) = Some s"

definition lists_keys :: "(nat fset \<Rightarrow> nat list) \<Rightarrow> bool" where
  "lists_keys ord \<longleftrightarrow> (\<forall>S. set (ord S) = fset S)"

inductive mvcc_step :: "mvcc_call \<Rightarrow> nat \<times> mvcc_manager \<Rightarrow> nat \<times> mvcc_manager \<Rightarrow> bool" where
  step_begin: "lists_keys ord \<Longrightarrow> g + 1 < U64 \<Longrightarrow> current_timestamp m + 1 < U64 \<Longrightarrow>
     mvcc_step CBegin (g, m) (snd (mvcc_begin ord g m))"
| step_foreign: "g + 1 < U64 \<Longrightarrow> mvcc_step CForeign (g, m) (fetch_add g, m)"
| step_commit: "registered m s \<Longrightarrow> current_timestamp m + 1 < U64 \<Longrightarrow>
     mvcc_step (CCommit s) (g, m) (g, mvcc_commit s m)"
| step_abort: "registered m s \<Longrightarrow> mvcc_step (CAbort s) (g, m) (g, mvcc_abort s m)"
| step_insert: "registered m s \<Longrightarrow> mvcc_step (CInsert table key d s) (g, m) (g, insert_version table key d s m)"
| step_delete: "registered m s \<Longrightarrow> current_timestamp m + 1 < U64 \<Longrightarrow>
     mvcc_step (CDelete table key s) (g, m) (g, snd (delete_version table key s m))"
| step_vacuum: "mvcc_step CVacuum (g, m) (g, mvcc_vacuum m)"

inductive mvcc_reachable :: "nat \<times> mvcc_manager \<Rightarrow> bool" where
  reach_new: "0 < g \<Longrightarrow> mvcc_reachable (g, mvcc_new)"
| reach_step: "mvcc_reachable a \<Longrightarrow> mvcc_step c a b \<Longrightarrow> mvcc_reachable b"

end
