(* ===== verification/MvccTheorems.thy ===== *)
theory MvccTheorems
  imports Mvcc
begin

text \<open>
  What the snapshots of \<open>src/mvcc.rs\<close> guarantee: an invariant of the active snapshots, that the reads of a
  transaction do not change under the writes of the others, that committed inserts are read, and where the
  snapshots break: a transaction does not see what it inserted, and garbage collection takes rows an
  active snapshot still sees.
\<close>

section \<open>The active snapshots\<close>

text \<open>
  Every registered snapshot is older than the clock, and a transaction that is still active was listed by
  every active transaction that began behind it.
\<close>

definition snapshots_ok :: "nat \<Rightarrow> mvcc_manager \<Rightarrow> bool" where
  "snapshots_ok g m \<longleftrightarrow> 0 < g \<and>
     (\<forall>t s. fmlookup (active_snapshots m) t = Some s \<longrightarrow>
        snap_txn s = t \<and> 0 < t \<and> t < g \<and> snap_timestamp s < current_timestamp m) \<and>
     (\<forall>a b sa sb. fmlookup (active_snapshots m) a = Some sa \<longrightarrow> fmlookup (active_snapshots m) b = Some sb \<longrightarrow>
        a < b \<longrightarrow> a \<in> set (snap_active sb))"

lemma fetch_add_Suc: "n + 1 < U64 \<Longrightarrow> fetch_add n = Suc n"
  by (simp add: fetch_add_def)

lemma snapshots_ok_at:
  assumes "snapshots_ok g m" and "fmlookup (active_snapshots m) t = Some s"
  shows "snap_txn s = t" and "0 < t" and "t < g" and "snap_timestamp s < current_timestamp m"
  using assms unfolding snapshots_ok_def by blast+

lemma snapshots_ok_listed:
  assumes "snapshots_ok g m" and "fmlookup (active_snapshots m) a = Some sa" and "fmlookup (active_snapshots m) b = Some sb" and "a < b"
  shows "a \<in> set (snap_active sb)"
  using assms unfolding snapshots_ok_def by blast

lemma snapshots_ok_pos: "snapshots_ok g m \<Longrightarrow> 0 < g"
  by (simp add: snapshots_ok_def)

lemmas registered_at = snapshots_ok_at [OF _ iffD1 [OF registered_def]]

lemma snapshots_ok_mono:
  assumes "snapshots_ok g m" and "g \<le> g'" and "fmlookup (active_snapshots m') \<subseteq>\<^sub>m fmlookup (active_snapshots m)"
    and "current_timestamp m \<le> current_timestamp m'"
  shows "snapshots_ok g' m'"
proof -
  have sub: "fmlookup (active_snapshots m') t = Some s \<Longrightarrow> fmlookup (active_snapshots m) t = Some s" for t s
    using assms(3) by (metis domI map_le_def)
  show ?thesis unfolding snapshots_ok_def
  proof (intro conjI allI impI)
    show "0 < g'" using snapshots_ok_pos [OF assms(1)] assms(2) by simp
  next
    fix t s
    assume "fmlookup (active_snapshots m') t = Some s"
    note at = snapshots_ok_at [OF assms(1) sub [OF this]]
    show "snap_txn s = t" "0 < t" "t < g'" "snap_timestamp s < current_timestamp m'"
      using at assms(2, 4) by simp_all
  next
    fix a b sa sb
    assume "fmlookup (active_snapshots m') a = Some sa" "fmlookup (active_snapshots m') b = Some sb" "a < b"
    then show "a \<in> set (snap_active sb)" using snapshots_ok_listed [OF assms(1)] sub by blast
  qed
qed

lemma drop_sub: "fmlookup (fmdrop t f) \<subseteq>\<^sub>m fmlookup f"
  by (auto simp: map_le_def)

lemma begin_apply:
  assumes "g + 1 < U64" and "current_timestamp m + 1 < U64"
  shows "mvcc_begin ord g m =
    (let s = \<lparr>snap_timestamp = current_timestamp m, snap_active = ord (fmdom (active_snapshots m)), snap_txn = g\<rparr> in
     (s, Suc g, m\<lparr>current_timestamp := Suc (current_timestamp m), active_snapshots := fmupd g s (active_snapshots m)\<rparr>))"
  using assms by (simp add: mvcc_begin_def begin_ids_def begin_snapshot_def begin_register_def fetch_add_Suc Let_def)

lemma snapshots_ok_begin:
  assumes "snapshots_ok g m" and "lists_keys ord" and "g + 1 < U64" and "current_timestamp m + 1 < U64"
    and "mvcc_begin ord g m = (s, g', m')"
  shows "snapshots_ok g' m'"
proof -
  let ?s = "\<lparr>snap_timestamp = current_timestamp m, snap_active = ord (fmdom (active_snapshots m)), snap_txn = g\<rparr>"
  have eq: "g' = Suc g" "m' = m\<lparr>current_timestamp := Suc (current_timestamp m), active_snapshots := fmupd g ?s (active_snapshots m)\<rparr>"
    using assms(5) unfolding begin_apply [OF assms(3, 4)] by (auto simp: Let_def)
  note at = snapshots_ok_at [OF assms(1)]
  have listed: "t \<in> set (ord (fmdom (active_snapshots m)))" if "fmlookup (active_snapshots m) t = Some x" for t x
    using assms(2) that by (auto simp: lists_keys_def intro: fmdomI)
  show ?thesis unfolding snapshots_ok_def
  proof (intro conjI allI impI)
    fix t x
    assume "fmlookup (active_snapshots m') t = Some x"
    then have "t = g \<and> x = ?s \<or> fmlookup (active_snapshots m) t = Some x" by (auto simp: eq split: if_splits)
    then show "snap_txn x = t" "0 < t" "t < g'" "snap_timestamp x < current_timestamp m'"
      using at [of t x] snapshots_ok_pos [OF assms(1)] by (auto simp: eq)
  next
    fix a b sa sb
    assume *: "fmlookup (active_snapshots m') a = Some sa" "fmlookup (active_snapshots m') b = Some sb" "a < b"
    show "a \<in> set (snap_active sb)"
    proof (cases "b = g")
      case True
      with * listed show ?thesis by (auto simp: eq)
    next
      case False
      with * have b: "fmlookup (active_snapshots m) b = Some sb" by (simp add: eq)
      with * at(3) [OF b] have "fmlookup (active_snapshots m) a = Some sa" by (simp add: eq split: if_splits)
      then show ?thesis using snapshots_ok_listed [OF assms(1) _ b *(3)] by blast
    qed
  qed (simp add: eq)
qed

lemma delete_version_keeps:
  "active_snapshots (snd (delete_version table key s m)) = active_snapshots m"
  "current_timestamp (snd (delete_version table key s m)) = fetch_add (current_timestamp m)"
  by (auto simp: delete_version_def put_record_def Let_def split: option.split prod.split)

lemma insert_version_keeps:
  "active_snapshots (insert_version table key d s m) = active_snapshots m"
  "current_timestamp (insert_version table key d s m) = current_timestamp m"
  by (simp_all add: insert_version_def Let_def)

lemma snapshots_ok_step:
  assumes "mvcc_step c a b" and "snapshots_ok (fst a) (snd a)"
  shows "snapshots_ok (fst b) (snd b)"
  using assms
proof (induction rule: mvcc_step.induct)
  case (step_begin ord g m)
  then show ?case using snapshots_ok_begin [of g m ord "fst (mvcc_begin ord g m)"] by simp
qed (simp_all, (rule snapshots_ok_mono, assumption, simp_all add: fetch_add_Suc mvcc_commit_def mvcc_abort_def
      mvcc_vacuum_def Let_def drop_sub delete_version_keeps insert_version_keeps)+)

lemma reachable_snapshots_ok: "mvcc_reachable a \<Longrightarrow> snapshots_ok (fst a) (snd a)"
proof (induction rule: mvcc_reachable.induct)
  case (reach_new g)
  then show ?case by (simp add: snapshots_ok_def mvcc_new_def)
qed (rule snapshots_ok_step)

section \<open>Writes a snapshot does not see\<close>

lemma other_active_invisible:
  assumes "snapshots_ok g m" and "registered m s" and "registered m d" and "d \<noteq> s"
  shows "\<not> is_transaction_visible s (snap_txn d)"
proof -
  have "snap_txn d \<noteq> snap_txn s" using assms(2 - 4) by (auto simp: registered_def)
  moreover from this have "snap_txn d \<in> set (snap_active s)" if "snap_txn d < snap_txn s"
    using snapshots_ok_listed [OF assms(1)] assms(2, 3) that by (simp add: registered_def)
  ultimately show ?thesis by (auto simp: is_transaction_visible_def)
qed

lemma find_record_insert:
  "find_record tb k (insert_version table key d s m) =
     (if tb = table \<and> k = key
      then Some (add_version (record_version_new (snap_txn s) (current_timestamp m) d)
        (case find_record table key m of None \<Rightarrow> versioned_record_new key | Some r \<Rightarrow> r))
      else find_record tb k m)"
  by (auto simp: find_record_def insert_version_def Let_def split: option.split)

lemma new_version_invisible:
  assumes "snap_timestamp s < ts"
  shows "\<not> version_visible s (record_version_new t ts d)"
  using assms by (simp add: version_visible_def info_visible_def record_version_new_def version_info_new_def)

lemma read_version_insert:
  assumes "snap_timestamp s < current_timestamp m"
  shows "read_version tb k s (insert_version table key d t m) = read_version tb k s m"
  using new_version_invisible [OF assms]
  by (auto simp: read_version_def find_record_insert add_version_def versioned_record_new_def get_visible_version_def
      split: option.split)

text \<open>A deletion that hits a version not deleted so far, or no record.\<close>

definition first_deletion :: "string \<Rightarrow> i64 \<Rightarrow> mvcc_manager \<Rightarrow> bool" where
  "first_deletion table key m =
     (case find_record table key m of
        None \<Rightarrow> True
      | Some r \<Rightarrow> vr_versions r = [] \<or> xmax (rv_info (last (vr_versions r))) = 0)"

lemma mark_invisible:
  assumes "\<not> is_transaction_visible s t" and "xmax (rv_info v) = 0"
  shows "version_visible s (v\<lparr>rv_info := info_mark_deleted t ts (rv_info v)\<rparr>) = version_visible s v"
  using assms by (simp add: version_visible_def info_visible_def info_mark_deleted_def)

lemma get_visible_mark_deleted:
  assumes "\<not> is_transaction_visible s t" and "vr_versions r = [] \<or> xmax (rv_info (last (vr_versions r))) = 0"
  shows "map_option rv_data (get_visible_version s (snd (mark_deleted t ts r))) = map_option rv_data (get_visible_version s r)"
proof (cases "vr_versions r" rule: rev_cases)
  case (snoc vs v)
  with assms show ?thesis
    using mark_invisible [of s t v ts] by (simp add: mark_deleted_def get_visible_version_def Let_def)
qed (simp add: mark_deleted_def)

lemma find_record_delete:
  "find_record tb k (snd (delete_version table key d m)) =
     (if tb = table \<and> k = key
      then map_option (\<lambda>r. snd (mark_deleted (snap_txn d) (current_timestamp m) r)) (find_record table key m)
      else find_record tb k m)"
  by (auto simp: find_record_def delete_version_def put_record_def Let_def split: option.split prod.split)

lemma read_version_delete:
  assumes "\<not> is_transaction_visible s (snap_txn d)" and "first_deletion table key m"
  shows "read_version tb k s (snd (delete_version table key d m)) = read_version tb k s m"
  using assms get_visible_mark_deleted [of s "snap_txn d"]
  by (auto simp: read_version_def find_record_delete first_deletion_def split: option.splits)

section \<open>Repeatable reads\<close>

text \<open>
  The calls that leave the reads of \<open>s\<close> alone: anything but garbage collection, the end of \<open>s\<close> itself, and a second
  deletion of a version.
\<close>

fun harmless :: "snapshot \<Rightarrow> mvcc_manager \<Rightarrow> mvcc_call \<Rightarrow> bool" where
  "harmless s m CBegin = True"
| "harmless s m CForeign = True"
| "harmless s m (CCommit d) = (d \<noteq> s)"
| "harmless s m (CAbort d) = (d \<noteq> s)"
| "harmless s m (CInsert table key vs d) = True"
| "harmless s m (CDelete table key d) = (d \<noteq> s \<and> first_deletion table key m)"
| "harmless s m CVacuum = False"

inductive harmless_run :: "snapshot \<Rightarrow> nat \<times> mvcc_manager \<Rightarrow> nat \<times> mvcc_manager \<Rightarrow> bool" for s where
  run_none: "harmless_run s a a"
| run_step: "harmless_run s a b \<Longrightarrow> harmless s (snd b) c \<Longrightarrow> mvcc_step c b b' \<Longrightarrow> harmless_run s a b'"

lemma registered_distinct:
  assumes "registered m s" and "registered m d" and "d \<noteq> s"
  shows "snap_txn d \<noteq> snap_txn s"
  using assms by (auto simp: registered_def)

lemma find_record_store: "version_store m' = version_store m \<Longrightarrow> find_record tb k m' = find_record tb k m"
  by (simp add: find_record_def)

lemma harmless_step:
  assumes "mvcc_step c a b" and "harmless s (snd a) c" and "snapshots_ok (fst a) (snd a)" and "registered (snd a) s"
  shows "registered (snd b) s \<and> read_version tb k s (snd b) = read_version tb k s (snd a)"
  using assms
proof (induction rule: mvcc_step.induct)
  case (step_begin ord g m)
  then have "snap_txn s \<noteq> g" using snapshots_ok_at(3) [of g m "snap_txn s" s] by (auto simp: registered_def)
  with step_begin show ?case
    by (simp add: begin_apply Let_def registered_def read_version_def find_record_def)
next
  case (step_foreign g m)
  then show ?case by simp
next
  case (step_commit m d g)
  then show ?case using registered_distinct [of m s d]
    by (simp add: mvcc_commit_def registered_def read_version_def find_record_def)
next
  case (step_abort m d g)
  then show ?case using registered_distinct [of m s d]
    by (simp add: mvcc_abort_def registered_def read_version_def find_record_def)
next
  case (step_insert m d table key vs g)
  then have "snap_timestamp s < current_timestamp m"
    using snapshots_ok_at(4) [of g m "snap_txn s" s] by (simp add: registered_def)
  with step_insert show ?case by (simp add: read_version_insert registered_def insert_version_keeps)
next
  case (step_delete m d table key g)
  then have "\<not> is_transaction_visible s (snap_txn d)" using other_active_invisible [of g m s d] by simp
  with step_delete show ?case by (simp add: read_version_delete registered_def delete_version_keeps)
qed simp

lemma harmless_run_reads:
  assumes "harmless_run s a b" and "mvcc_reachable a" and "registered (snd a) s"
  shows "mvcc_reachable b \<and> registered (snd b) s \<and> read_version tb k s (snd b) = read_version tb k s (snd a)"
  using assms
proof (induction rule: harmless_run.induct)
  case (run_step a b c b')
  then show ?case
    using harmless_step [of c b b' s tb k] reachable_snapshots_ok [of b] reach_step [of b c b'] by simp
qed simp

section \<open>Properties\<close>


text \<open>
  a committed insert is read. A transaction that begins behind the commit of another reads the row the
  other has inserted.
\<close>

theorem committed_insert_read:
  assumes "mvcc_reachable (g, m)" and "registered m s" and "lists_keys ord"
    and "g + 1 < U64" and "current_timestamp m + 2 < U64"
    and "mvcc_begin ord g (mvcc_commit s (insert_version table key vs s m)) = (s', g', m')"
  shows "read_version table key s' m' = Some vs"
proof -
  have ok: "snapshots_ok g m" using reachable_snapshots_ok [OF assms(1)] by simp
  have lt: "snap_txn s < g" using snapshots_ok_at(3) [OF ok] assms(2) by (simp add: registered_def)
  let ?m = "mvcc_commit s (insert_version table key vs s m)"
  have ts: "current_timestamp ?m = Suc (current_timestamp m)"
    using assms(5) by (simp add: mvcc_commit_def insert_version_keeps fetch_add_Suc)
  have "current_timestamp ?m + 1 < U64" using assms(5) ts by simp
  from begin_apply [OF assms(4) this, of ord] assms(6)
  have s': "snap_txn s' = g" "snap_timestamp s' = Suc (current_timestamp m)"
    "set (snap_active s') = fset (fmdom (active_snapshots ?m))" and m': "version_store m' = version_store ?m"
    using assms(3) ts by (auto simp: Let_def lists_keys_def)
  have "snap_txn s \<notin> set (snap_active s')" by (simp add: s'(3) mvcc_commit_def)
  then have "version_visible s' (record_version_new (snap_txn s) (current_timestamp m) vs)"
    using lt s' by (simp add: version_visible_def info_visible_def record_version_new_def version_info_new_def is_transaction_visible_def)
  moreover have "find_record table key m' = find_record table key (insert_version table key vs s m)"
    using m' by (intro find_record_store) (simp add: mvcc_commit_def)
  ultimately show ?thesis
    by (simp add: read_version_def find_record_insert add_version_def get_visible_version_def record_version_new_def)
qed

text \<open>
  a transaction does not see its own inserts. The row it has just inserted is not visible to its
  snapshot: it reads what it read before the insert.
\<close>

theorem own_insert_unseen:
  assumes "mvcc_reachable (g, m)" and "registered m s"
  shows "read_version table key s (insert_version table key vs s m) = read_version table key s m"
  using read_version_insert snapshots_ok_at(4) reachable_snapshots_ok [OF assms(1)] assms(2)
  by (simp add: registered_def)

section \<open>A run\<close>

text \<open>
  Transaction 1 inserts a row and commits, transaction 2 deletes it, transaction 3 begins while 2 is
  still active, then 2 commits.
\<close>

definition run_snapshot :: "nat \<Rightarrow> snapshot" where
  "run_snapshot i = (if i = 1 then \<lparr>snap_timestamp = 1, snap_active = [], snap_txn = 1\<rparr>
     else if i = 2 then \<lparr>snap_timestamp = 3, snap_active = [], snap_txn = 2\<rparr>
     else \<lparr>snap_timestamp = 5, snap_active = [2], snap_txn = 3\<rparr>)"

definition run_begun :: "nat \<times> mvcc_manager" where
  "run_begun = snd (mvcc_begin sorted_list_of_fset 1 mvcc_new)"

definition run_committed :: "nat \<times> mvcc_manager" where
  "run_committed = (2, mvcc_commit (run_snapshot 1) (insert_version ''t'' 1 [VInteger 7] (run_snapshot 1) (snd run_begun)))"

definition run_deleted :: "nat \<times> mvcc_manager" where
  "run_deleted = (3, snd (delete_version ''t'' 1 (run_snapshot 2) (snd (snd (mvcc_begin sorted_list_of_fset 2 (snd run_committed))))))"

definition run_reading :: "nat \<times> mvcc_manager" where
  "run_reading = snd (mvcc_begin sorted_list_of_fset 3 (snd run_deleted))"

lemma lists_keys_sorted: "lists_keys sorted_list_of_fset"
  by (simp add: lists_keys_def)

lemma listed_small [simp]: "sorted_list_of_fset {||} = []" "sorted_list_of_fset {|x|} = [x :: nat]"
  by (simp_all add: sorted_list_of_fset.rep_eq)

definition run_store :: "nat \<Rightarrow> nat \<Rightarrow> (string, table_versions) fmap" where
  "run_store deleter ts = fmupd ''t'' (fmupd 1 \<lparr>vr_key = 1, vr_versions =
     [\<lparr>rv_info = \<lparr>xmin = 1, xmax = deleter, created_at = 2, deleted_at = ts\<rparr>, rv_data = [VInteger 7]\<rparr>]\<rparr> fmempty) fmempty"

lemmas run_defs = begin_apply U64_def run_snapshot_def Let_def fetch_add_def mvcc_new_def run_store_def
  version_info_new_def record_version_new_def versioned_record_new_def add_version_def find_record_def put_record_def
  mark_deleted_def info_mark_deleted_def registered_def fmdrop_fmupd

lemma run_begun_eval:
  "run_begun = (2, mvcc_new\<lparr>current_timestamp := 2, active_snapshots := fmupd 1 (run_snapshot 1) fmempty\<rparr>)"
  by (simp add: run_begun_def run_defs)

lemma run_committed_eval:
  "run_committed = (2, \<lparr>current_timestamp = 3, active_snapshots = fmempty, version_store = run_store 0 0,
     committed_transactions = fmupd 1 2 fmempty\<rparr>)"
  by (simp add: run_committed_def run_begun_eval insert_version_def mvcc_commit_def run_defs)

lemma run_deleted_eval:
  "run_deleted = (3, \<lparr>current_timestamp = 5, active_snapshots = fmupd 2 (run_snapshot 2) fmempty, version_store = run_store 2 4,
     committed_transactions = fmupd 1 2 fmempty\<rparr>)"
  by (simp add: run_deleted_def run_committed_eval delete_version_def run_defs)

lemma run_reading_eval:
  "run_reading = (4, \<lparr>current_timestamp = 6, active_snapshots = fmupd 3 (run_snapshot 3) (fmupd 2 (run_snapshot 2) fmempty),
     version_store = run_store 2 4, committed_transactions = fmupd 1 2 fmempty\<rparr>)"
  by (simp add: run_reading_def run_deleted_eval run_defs)

lemma run_begun_reachable: "mvcc_reachable run_begun"
  unfolding run_begun_def
  by (rule reach_step [OF reach_new step_begin]) (simp_all add: lists_keys_sorted U64_def mvcc_new_def)

lemma run_committed_reachable: "mvcc_reachable run_committed"
proof -
  have b: "mvcc_reachable (2, snd run_begun)" using run_begun_reachable by (simp add: run_begun_eval)
  have "mvcc_reachable (2, insert_version ''t'' 1 [VInteger 7] (run_snapshot 1) (snd run_begun))"
    by (rule reach_step [OF b step_insert]) (simp add: run_begun_eval run_defs)
  then show ?thesis unfolding run_committed_def
    by (rule reach_step [OF _ step_commit]) (simp_all add: insert_version_keeps run_begun_eval run_defs)
qed

lemma run_reading_reachable: "mvcc_reachable run_reading"
proof -
  have "mvcc_reachable (snd (mvcc_begin sorted_list_of_fset 2 (snd run_committed)))"
    using run_committed_reachable
    by (intro reach_step [OF _ step_begin]) (simp_all add: run_committed_eval lists_keys_sorted U64_def)
  then have "mvcc_reachable (3, snd (snd (mvcc_begin sorted_list_of_fset 2 (snd run_committed))))"
    by (simp add: run_committed_eval run_defs)
  then have "mvcc_reachable run_deleted" unfolding run_deleted_def
    by (rule reach_step [OF _ step_delete]) (simp_all add: run_committed_eval run_defs)
  then show ?thesis unfolding run_reading_def
    by (intro reach_step [OF _ step_begin]) (simp_all add: run_deleted_eval lists_keys_sorted U64_def)
qed

text \<open>
  garbage collection takes rows an active snapshot reads. There is a reachable state in which an active
  transaction reads a row whose deleter was active when it began and has committed since; after \<open>vacuum\<close>
  the same transaction finds nothing.
\<close>

theorem vacuum_drops_visible:
  "\<exists>g m s. mvcc_reachable (g, m) \<and> registered m s \<and> read_version ''t'' 1 s m = Some [VInteger 7]
     \<and> read_version ''t'' 1 s (mvcc_vacuum m) = None"
proof -
  let ?m = "mvcc_commit (run_snapshot 2) (snd run_reading)"
  have "mvcc_reachable (4, snd run_reading)" using run_reading_reachable by (simp add: run_reading_eval)
  then have "mvcc_reachable (4, ?m)"
    by (rule reach_step [OF _ step_commit]) (simp_all add: run_reading_eval run_defs)
  moreover have "registered ?m (run_snapshot 3)" by (simp add: run_reading_eval mvcc_commit_def run_defs)
  moreover have "read_version ''t'' 1 (run_snapshot 3) ?m = Some [VInteger 7]"
    by (simp add: run_reading_eval mvcc_commit_def run_defs read_version_def get_visible_version_def version_visible_def
        info_visible_def is_transaction_visible_def)
  moreover have "min_active_timestamp ?m = 5"
    by (simp add: run_reading_eval mvcc_commit_def run_defs min_active_timestamp_def)
  then have "read_version ''t'' 1 (run_snapshot 3) (mvcc_vacuum ?m) = None"
    by (simp add: run_reading_eval mvcc_vacuum_def mvcc_commit_def run_defs read_version_def get_visible_version_def record_vacuum_def)
  ultimately show ?thesis by blast
qed

section \<open>Witnesses\<close>


lemma run_start: "mvcc_reachable (2, snd run_begun)" "registered (snd run_begun) (run_snapshot 1)"
  using run_begun_reachable by (simp_all add: run_begun_eval run_defs)

theorem committed_insert_read_witness:
  "case mvcc_begin sorted_list_of_fset 2 (mvcc_commit (run_snapshot 1)
      (insert_version ''t'' 1 [VInteger 7] (run_snapshot 1) (snd run_begun))) of
     (s', g', m') \<Rightarrow> read_version ''t'' 1 s' m' = Some [VInteger 7]"
  using committed_insert_read [OF run_start lists_keys_sorted]
  by (auto simp: run_begun_eval U64_def split: prod.split)

theorem own_insert_unseen_witness:
  "read_version ''t'' 1 (run_snapshot 1) (insert_version ''t'' 1 [VInteger 7] (run_snapshot 1) (snd run_begun)) = None"
  using own_insert_unseen [OF run_start, of "''t''" 1] by (simp add: run_begun_eval run_defs read_version_def)

end
