(* ===== verification/Crdt.thy ===== *)
theory Crdt
  imports RustStr "HOL-Library.Finite_Map"
begin

text \<open>
  Replicated records, \<open>src/crdt.rs\<close>: operations stamped with a Lamport timestamp and a node, records merged by
  last write wins, the store of a replica with its operation log and vector clock, and the
  synchronisation protocol.

  Taking a timestamp is an atomic \<open>fetch_add\<close> and wraps; the addition in \<open>update_timestamp\<close> is a checked
  one, whose overflow is a panic. Node ids are compared byte by byte.
\<close>

section \<open>Operations and records\<close>

definition max_u64 :: nat where
  "max_u64 = 2 ^ 64 - 1"

datatype crdt_operation =
    CrdtInsert string i64 row nat string
  | CrdtUpdate string i64 row nat string
  | CrdtDelete string i64 nat string

fun op_timestamp :: "crdt_operation \<Rightarrow> nat" where
  "op_timestamp (CrdtInsert _ _ _ ts _) = ts"
| "op_timestamp (CrdtUpdate _ _ _ ts _) = ts"
| "op_timestamp (CrdtDelete _ _ ts _) = ts"

fun op_node_id :: "crdt_operation \<Rightarrow> string" where
  "op_node_id (CrdtInsert _ _ _ _ n) = n"
| "op_node_id (CrdtUpdate _ _ _ _ n) = n"
| "op_node_id (CrdtDelete _ _ _ n) = n"

fun op_table :: "crdt_operation \<Rightarrow> string" where
  "op_table (CrdtInsert t _ _ _ _) = t"
| "op_table (CrdtUpdate t _ _ _ _) = t"
| "op_table (CrdtDelete t _ _ _) = t"

record crdt_record =
  cr_key :: i64
  cr_values :: row
  cr_timestamp :: nat
  cr_node_id :: string
  cr_is_deleted :: bool

definition crdt_record_new :: "i64 \<Rightarrow> row \<Rightarrow> nat \<Rightarrow> string \<Rightarrow> crdt_record" where
  "crdt_record_new key vs ts node = \<lparr>cr_key = key, cr_values = vs, cr_timestamp = ts, cr_node_id = node, cr_is_deleted = False\<rparr>"

definition crdt_merge :: "crdt_record \<Rightarrow> crdt_record \<Rightarrow> bool \<times> crdt_record" where
  "crdt_merge self other =
     (if cr_timestamp self < cr_timestamp other then
        (True, self\<lparr>cr_values := cr_values other, cr_timestamp := cr_timestamp other,
                   cr_node_id := cr_node_id other, cr_is_deleted := cr_is_deleted other\<rparr>)
      else if cr_timestamp other = cr_timestamp self then
        if cmp_str (cr_node_id other) (cr_node_id self) = Greater then
          (True, self\<lparr>cr_values := cr_values other, cr_node_id := cr_node_id other, cr_is_deleted := cr_is_deleted other\<rparr>)
        else (False, self)
      else (False, self))"

definition record_delete :: "nat \<Rightarrow> string \<Rightarrow> crdt_record \<Rightarrow> crdt_record" where
  "record_delete ts node r =
     (if cr_timestamp r < ts then r\<lparr>cr_is_deleted := True, cr_timestamp := ts, cr_node_id := node\<rparr> else r)"

section \<open>The store\<close>

type_synonym crdt_table = "(i64, crdt_record) fmap"

record crdt_store =
  st_node_id :: string
  st_state :: "(string, crdt_table) fmap"
  st_log :: "crdt_operation list"
  st_vector_clock :: "(string, nat) fmap"
  st_lamport :: nat

definition crdt_store_new :: "string \<Rightarrow> crdt_store" where
  "crdt_store_new node =
     \<lparr>st_node_id = node, st_state = fmempty, st_log = [], st_vector_clock = fmupd node 0 fmempty, st_lamport = 1\<rparr>"

definition next_timestamp :: "crdt_store \<Rightarrow> nat \<times> crdt_store" where
  "next_timestamp st = (st_lamport st, st\<lparr>st_lamport := (st_lamport st + 1) mod (max_u64 + 1)\<rparr>)"

definition update_timestamp :: "nat \<Rightarrow> (crdt_store, unit) op" where
  "update_timestamp received st =
     (let newest = max received (st_lamport st) in
      if newest = max_u64 then (Inl Panic, st) else (Inr (), st\<lparr>st_lamport := newest + 1\<rparr>))"

definition table_entry :: "string \<Rightarrow> crdt_store \<Rightarrow> crdt_table" where
  "table_entry table st = (case fmlookup (st_state st) table of None \<Rightarrow> fmempty | Some records \<Rightarrow> records)"

definition put_table :: "string \<Rightarrow> crdt_table \<Rightarrow> crdt_store \<Rightarrow> crdt_store" where
  "put_table table records st = st\<lparr>st_state := fmupd table records (st_state st)\<rparr>"

text \<open>Applying an operation never fails.\<close>

fun apply_operation :: "crdt_operation \<Rightarrow> crdt_store \<Rightarrow> crdt_store" where
  "apply_operation (CrdtInsert table key vs ts node) st =
     put_table table (fmupd key (crdt_record_new key vs ts node) (table_entry table st)) st"
| "apply_operation (CrdtUpdate table key vs ts node) st =
     (let records = table_entry table st; record = crdt_record_new key vs ts node in
      case fmlookup records key of
        Some existing \<Rightarrow> put_table table (fmupd key (snd (crdt_merge existing record)) records) st
      | None \<Rightarrow> put_table table (fmupd key record records) st)"
| "apply_operation (CrdtDelete table key ts node) st =
     (let records = table_entry table st in
      case fmlookup records key of
        Some existing \<Rightarrow> put_table table (fmupd key (record_delete ts node existing) records) st
      | None \<Rightarrow> put_table table records st)"

definition update_vector_clock :: "nat \<Rightarrow> crdt_store \<Rightarrow> crdt_store" where
  "update_vector_clock ts st =
     st\<lparr>st_vector_clock := fmupd (st_node_id st)
        (case fmlookup (st_vector_clock st) (st_node_id st) of Some t \<Rightarrow> max t ts | None \<Rightarrow> ts) (st_vector_clock st)\<rparr>"

definition push_log :: "crdt_operation \<Rightarrow> crdt_store \<Rightarrow> crdt_store" where
  "push_log op st = st\<lparr>st_log := st_log st @ [op]\<rparr>"

definition local_operation :: "(nat \<Rightarrow> crdt_operation) \<Rightarrow> crdt_store \<Rightarrow> crdt_store" where
  "local_operation mk st =
     (case next_timestamp st of (ts, st1) \<Rightarrow>
        update_vector_clock ts (push_log (mk ts) (apply_operation (mk ts) st1)))"

definition crdt_insert :: "string \<Rightarrow> i64 \<Rightarrow> row \<Rightarrow> crdt_store \<Rightarrow> crdt_store" where
  "crdt_insert table key vs st = local_operation (\<lambda>ts. CrdtInsert table key vs ts (st_node_id st)) st"

definition crdt_update :: "string \<Rightarrow> i64 \<Rightarrow> row \<Rightarrow> crdt_store \<Rightarrow> crdt_store" where
  "crdt_update table key vs st = local_operation (\<lambda>ts. CrdtUpdate table key vs ts (st_node_id st)) st"

definition crdt_delete :: "string \<Rightarrow> i64 \<Rightarrow> crdt_store \<Rightarrow> crdt_store" where
  "crdt_delete table key st = local_operation (\<lambda>ts. CrdtDelete table key ts (st_node_id st)) st"

definition same_stamp :: "crdt_operation \<Rightarrow> crdt_operation \<Rightarrow> bool" where
  "same_stamp a b \<longleftrightarrow> op_timestamp a = op_timestamp b \<and> op_node_id a = op_node_id b"

definition merge_operation :: "crdt_operation \<Rightarrow> (crdt_store, unit) op" where
  "merge_operation op =
     mbind (update_timestamp (op_timestamp op)) (\<lambda>_ st.
       let st1 = apply_operation op st;
           st2 = (if list_ex (\<lambda>o'. same_stamp o' op) (st_log st1) then st1 else push_log op st1)
       in (Inr (), update_vector_clock (op_timestamp op) st2))"

fun merge_operations :: "crdt_operation list \<Rightarrow> (crdt_store, unit) op" where
  "merge_operations [] = mret ()"
| "merge_operations (op # ops) = mbind (merge_operation op) (\<lambda>_. merge_operations ops)"

definition get_operations_since :: "nat \<Rightarrow> crdt_store \<Rightarrow> crdt_operation list" where
  "get_operations_since ts st = filter (\<lambda>op. ts < op_timestamp op) (st_log st)"

definition get_table_state :: "string \<Rightarrow> crdt_store \<Rightarrow> crdt_table option" where
  "get_table_state table st = fmlookup (st_state st) table"

definition get_record :: "string \<Rightarrow> i64 \<Rightarrow> crdt_store \<Rightarrow> crdt_record option" where
  "get_record table key st = Option.bind (fmlookup (st_state st) table) (\<lambda>records. fmlookup records key)"

text \<open>\<open>values().min().unwrap_or(0)\<close> of a vector clock.\<close>

definition clock_min :: "(string, nat) fmap \<Rightarrow> nat" where
  "clock_min vc = (if fmdom vc = {||} then 0 else Min (fset (fmran vc)))"

definition prune_operations :: "crdt_store \<Rightarrow> crdt_store" where
  "prune_operations st =
     (if fcard (fmdom (st_vector_clock st)) \<le> 1 then st
      else st\<lparr>st_log := filter (\<lambda>op. clock_min (st_vector_clock st) < op_timestamp op) (st_log st)\<rparr>)"

record crdt_stats =
  cs_node_id :: string
  cs_tables :: nat
  cs_total_records :: nat
  cs_deleted_records :: nat
  cs_log_size :: nat
  cs_clock_size :: nat

definition table_records :: "crdt_table \<Rightarrow> crdt_record list" where
  "table_records records = List.map_filter (fmlookup records) (sorted_list_of_fset (fmdom records))"

text \<open>\<open>ord\<close> is the order in which the hash map lists the tables.\<close>

definition crdt_store_stats :: "(string fset \<Rightarrow> string list) \<Rightarrow> crdt_store \<Rightarrow> crdt_stats" where
  "crdt_store_stats ord st =
     (let tables = map table_records (List.map_filter (fmlookup (st_state st)) (ord (fmdom (st_state st)))) in
      \<lparr>cs_node_id = st_node_id st, cs_tables = fcard (fmdom (st_state st)),
        cs_total_records = sum_list (map length tables),
        cs_deleted_records = sum_list (map (\<lambda>rs. length (filter cr_is_deleted rs)) tables),
        cs_log_size = length (st_log st), cs_clock_size = fcard (fmdom (st_vector_clock st))\<rparr>)"

section \<open>Synchronisation\<close>

definition generate_sync_message :: "(string, nat) fmap \<Rightarrow> crdt_store \<Rightarrow> crdt_operation list" where
  "generate_sync_message peer_vector_clock st = get_operations_since (clock_min peer_vector_clock) st"

definition process_sync_message :: "crdt_operation list \<Rightarrow> (crdt_store, unit) op" where
  "process_sync_message = merge_operations"

inductive store_step :: "crdt_store \<Rightarrow> crdt_store \<Rightarrow> bool" where
  store_insert: "st_lamport st < max_u64 \<Longrightarrow> store_step st (crdt_insert table key vs st)"
| store_update: "st_lamport st < max_u64 \<Longrightarrow> store_step st (crdt_update table key vs st)"
| store_delete: "st_lamport st < max_u64 \<Longrightarrow> store_step st (crdt_delete table key st)"
| store_merge: "merge_operations ops st = (Inr (), st') \<Longrightarrow> store_step st st'"
| store_prune: "store_step st (prune_operations st)"

inductive store_reachable :: "crdt_store \<Rightarrow> bool" where
  store_new: "store_reachable (crdt_store_new node)"
| store_next: "store_reachable st \<Longrightarrow> store_step st st' \<Longrightarrow> store_reachable st'"

end
