(* ===== verification/CrdtTheorems.thy ===== *)
theory CrdtTheorems
  imports Crdt ValueOrder
begin

text \<open>
  What the replicas of \<open>src/crdt.rs\<close> agree on: records as last-write-wins registers, convergence of updates in
  any order and with duplicates, the invariant of operation log and clocks, and where replicas do not
  converge: concurrent inserts, and messages cut off by the vector clock.
\<close>

section \<open>Last-write-wins registers\<close>

text \<open>
  A register keeps the value with the highest stamp. The value written keeps the identity of the register,
  which only matters when values of different records are mixed.
\<close>

locale lww_register =
  fixes stamp :: "'r \<Rightarrow> 's :: linorder" and join :: "'r \<Rightarrow> 'r \<Rightarrow> 'r" and ident :: "'r \<Rightarrow> 'k"
  assumes join_stamp: "stamp (join a b) = max (stamp a) (stamp b)"
    and join_keeps: "stamp b \<le> stamp a \<Longrightarrow> join a b = a"
    and join_takes: "ident a = ident b \<Longrightarrow> stamp a < stamp b \<Longrightarrow> join a b = b"
    and join_again: "stamp a < stamp b \<Longrightarrow> stamp b < stamp c \<Longrightarrow> join (join a b) c = join a c"
begin

definition wput :: "'r \<Rightarrow> 'r option \<Rightarrow> 'r option" where
  "wput r x = Some (case x of None \<Rightarrow> r | Some e \<Rightarrow> join e r)"

lemma wput_idem: "wput r (wput r x) = wput r x"
  by (cases x) (simp_all add: wput_def join_keeps join_stamp)

lemma join_commute:
  assumes "stamp a < stamp b"
  shows "join (join e a) b = join (join e b) a"
proof -
  consider "stamp b \<le> stamp e" | "stamp a \<le> stamp e" "stamp e < stamp b" | "stamp e < stamp a"
    by (meson not_le)
  then show ?thesis
    using assms by cases (simp_all add: join_keeps join_stamp join_again)
qed

lemma wput_commute:
  assumes "ident a = ident b" and "stamp a = stamp b \<Longrightarrow> a = b"
  shows "wput a (wput b x) = wput b (wput a x)"
proof -
  consider "a = b" | "stamp a < stamp b" | "stamp b < stamp a" using assms(2) by (meson linorder_cases)
  then show ?thesis
  proof cases
    case 2
    then show ?thesis using assms(1) join_commute [of a b] by (cases x) (simp_all add: wput_def join_keeps join_takes)
  next
    case 3
    then show ?thesis using assms(1) join_commute [of b a] by (cases x) (simp_all add: wput_def join_keeps join_takes)
  qed simp
qed

text \<open>Any order and any number of deliveries of the same writes give the same register.\<close>

lemma writes_converge:
  assumes "\<forall>a\<in>set xs. \<forall>b\<in>set xs. ident a = ident b \<and> (stamp a = stamp b \<longrightarrow> a = b)" and "set ys = set xs"
  shows "fold wput ys x = fold wput xs x"
proof -
  have commute: "wput b \<circ> wput a = wput a \<circ> wput b" if "a \<in> set xs" "b \<in> set xs" for a b
  proof -
    have "ident b = ident a" "stamp b = stamp a \<Longrightarrow> b = a" using assms(1) that by blast+
    then show ?thesis using wput_commute [of b a] by (simp add: fun_eq_iff)
  qed
  have "wput a \<circ> wput a = wput a" for a by (simp add: fun_eq_iff wput_idem)
  with commute have "comp_fun_idem_on (set xs) wput"
    by (intro comp_fun_idem_on.intro comp_fun_commute_on.intro comp_fun_idem_on_axioms.intro)
  note fold = comp_fun_idem_on.fold_set_fold [OF this, where y = x]
  have "fold wput ys x = Finite_Set.fold wput x (set ys)" using fold [of ys] assms(2) by simp
  also have "\<dots> = fold wput xs x" using fold [of xs] assms(2) by simp
  finally show ?thesis .
qed

end

definition record_stamp :: "crdt_record \<Rightarrow> nat \<times> nat list" where
  "record_stamp r = (cr_timestamp r, map of_char (cr_node_id r))"

lemma merge_by_stamp:
  "snd (crdt_merge a b) = (if record_stamp a < record_stamp b then b\<lparr>cr_key := cr_key a\<rparr> else a)"
  by (auto simp: crdt_merge_def record_stamp_def cmp_str_def lex_cmp_lin cmp_lin_def)

interpretation crdt: lww_register record_stamp "\<lambda>a b. snd (crdt_merge a b)" cr_key
  by unfold_locales (auto simp: merge_by_stamp record_stamp_def max_def)

section \<open>Updates\<close>

fun is_update :: "crdt_operation \<Rightarrow> bool" where
  "is_update (CrdtUpdate _ _ _ _ _) = True"
| "is_update _ = False"

fun update_record :: "crdt_operation \<Rightarrow> crdt_record" where
  "update_record (CrdtUpdate _ key vs ts node) = crdt_record_new key vs ts node"
| "update_record (CrdtInsert _ key vs ts node) = crdt_record_new key vs ts node"
| "update_record (CrdtDelete _ key ts node) = crdt_record_new key [] ts node"

definition concerns :: "string \<Rightarrow> i64 \<Rightarrow> crdt_operation \<Rightarrow> bool" where
  "concerns table key op \<longleftrightarrow> op_table op = table \<and> cr_key (update_record op) = key"

definition crdt_write :: "crdt_record \<Rightarrow> crdt_record option \<Rightarrow> crdt_record option" where
  "crdt_write = crdt.wput"

lemma crdt_write_apply: "crdt_write r x = Some (case x of None \<Rightarrow> r | Some e \<Rightarrow> snd (crdt_merge e r))"
  by (simp add: crdt_write_def crdt.wput_def)

lemma get_record_put [simp]:
  "get_record table key (put_table table' records st) = (if table = table' then fmlookup records key else get_record table key st)"
  by (simp add: get_record_def put_table_def)

lemma get_record_entry: "get_record table key st = fmlookup (table_entry table st) key"
  by (auto simp: get_record_def table_entry_def split: option.split)

lemma apply_update:
  assumes "is_update op"
  shows "get_record table key (apply_operation op st) =
    (if concerns table key op then crdt_write (update_record op) (get_record table key st) else get_record table key st)"
  using assms
  by (cases op) (auto simp: concerns_def crdt_write_apply Let_def get_record_entry [symmetric] crdt_record_new_def split: option.split)

lemma get_record_extra [simp]:
  "get_record table key (update_vector_clock ts st) = get_record table key st"
  "get_record table key (push_log op st) = get_record table key st"
  "get_record table key (st\<lparr>st_lamport := c\<rparr>) = get_record table key st"
  by (simp_all add: get_record_def update_vector_clock_def push_log_def)

lemma other_fields [simp]:
  "st_lamport (update_vector_clock ts st) = st_lamport st" "st_log (update_vector_clock ts st) = st_log st"
  "st_node_id (update_vector_clock ts st) = st_node_id st"
  "fmdom (st_vector_clock (update_vector_clock ts st)) = finsert (st_node_id st) (fmdom (st_vector_clock st))"
  "st_lamport (push_log op st) = st_lamport st" "st_log (push_log op st) = st_log st @ [op]"
  "st_node_id (push_log op st) = st_node_id st" "st_vector_clock (push_log op st) = st_vector_clock st"
  by (simp_all add: update_vector_clock_def push_log_def)

lemma merge_operation_ok:
  assumes "op_timestamp op < max_u64" and "st_lamport st < max_u64"
  obtains st' where "merge_operation op st = (Inr (), st')" and "st_lamport st' = max (op_timestamp op) (st_lamport st) + 1"
    and "\<forall>table key. get_record table key st' = get_record table key (apply_operation op st)"
proof -
  let ?st1 = "st\<lparr>st_lamport := max (op_timestamp op) (st_lamport st) + 1\<rparr>"
  have keep: "st_lamport (apply_operation op st0) = st_lamport st0"
    "get_record table key (apply_operation op (st0\<lparr>st_lamport := c\<rparr>)) = get_record table key (apply_operation op st0)" for st0 table key c
    by (cases op; simp add: Let_def put_table_def table_entry_def get_record_def split: option.split)+
  have "update_timestamp (op_timestamp op) st = (Inr (), ?st1)"
    using assms by (auto simp: update_timestamp_def Let_def max_def)
  then show thesis
    by (intro that) (auto simp: merge_operation_def mbind_def Let_def keep)
qed

lemma merge_updates:
  assumes "list_all is_update ops" and "\<forall>op\<in>set ops. op_timestamp op \<le> M" and "st_lamport st \<le> M" and "M + length ops \<le> max_u64"
  obtains st' where "merge_operations ops st = (Inr (), st')"
    and "get_record table key st' = fold crdt_write (map update_record (filter (concerns table key) ops)) (get_record table key st)"
  using assms
proof (induction ops arbitrary: st M thesis)
  case Nil
  then show ?case by simp
next
  case (Cons op ops)
  obtain st1 where st1: "merge_operation op st = (Inr (), st1)" "st_lamport st1 = max (op_timestamp op) (st_lamport st) + 1"
    "\<forall>table key. get_record table key st1 = get_record table key (apply_operation op st)"
    using merge_operation_ok [of op st] Cons.prems(3 - 5) by auto
  obtain st2 where "merge_operations ops st1 = (Inr (), st2)"
    "get_record table key st2 = fold crdt_write (map update_record (filter (concerns table key) ops)) (get_record table key st1)"
    using Cons.IH [where st = st1 and M = "M + 1"] Cons.prems(2 - 5) st1(2) by force
  with st1 Cons.prems(1, 2) show ?case by (auto simp: apply_update mbind_Inr [where m = "merge_operation op", OF st1(1)])
qed

section \<open>Log and clocks\<close>

definition op_stamp :: "crdt_operation \<Rightarrow> nat \<times> string" where
  "op_stamp op = (op_timestamp op, op_node_id op)"

definition store_ok :: "crdt_store \<Rightarrow> bool" where
  "store_ok st \<longleftrightarrow> distinct (map op_stamp (st_log st)) \<and> (\<forall>op\<in>set (st_log st). op_timestamp op < st_lamport st)
     \<and> fmdom (st_vector_clock st) = {|st_node_id st|}"

lemma apply_operation_keeps [simp]:
  "st_log (apply_operation op st) = st_log st" "st_lamport (apply_operation op st) = st_lamport st"
  "st_vector_clock (apply_operation op st) = st_vector_clock st" "st_node_id (apply_operation op st) = st_node_id st"
  by (cases op; simp add: Let_def put_table_def split: option.split)+

lemma store_ok_local:
  assumes "store_ok st" and "st_lamport st < max_u64" and "\<And>ts. op_timestamp (mk ts) = ts"
  shows "store_ok (local_operation mk st)"
proof -
  have "Suc (st_lamport st) mod Suc max_u64 = Suc (st_lamport st)" using assms(2) by simp
  with assms show ?thesis
    by (auto simp: store_ok_def local_operation_def next_timestamp_def op_stamp_def less_Suc_eq simp del: mod_less)
qed

lemma store_ok_merge_operation:
  assumes "store_ok st" and "merge_operation op st = (Inr (), st')"
  shows "store_ok st'"
proof -
  let ?st1 = "apply_operation op (st\<lparr>st_lamport := max (op_timestamp op) (st_lamport st) + 1\<rparr>)"
  let ?known = "list_ex (\<lambda>o'. same_stamp o' op) (st_log st)"
  have st': "st' = update_vector_clock (op_timestamp op) (if ?known then ?st1 else push_log op ?st1)"
    using assms(2) by (auto simp: merge_operation_def mbind_def update_timestamp_def Let_def split: if_splits)
  have "op_stamp op \<notin> op_stamp ` set (st_log st)" if "\<not> ?known"
    using that by (auto simp: op_stamp_def same_stamp_def list_ex_iff)
  moreover have "op_timestamp x < max (op_timestamp op) (st_lamport st) + 1" if "x \<in> set (st_log st)" for x
    using assms(1) that by (auto simp: store_ok_def max_def less_Suc_eq)
  moreover have "op_timestamp op < max (op_timestamp op) (st_lamport st) + 1" by (simp add: max_def)
  ultimately show ?thesis using assms(1) unfolding st' by (simp add: store_ok_def)
qed

lemma store_ok_merge:
  assumes "store_ok st" and "merge_operations ops st = (Inr (), st')"
  shows "store_ok st'"
  using assms
  by (induction ops arbitrary: st) (auto simp: mbind_eq_Inr intro: store_ok_merge_operation)

lemma store_ok_prune: "store_ok st \<Longrightarrow> prune_operations st = st"
  by (simp add: store_ok_def prune_operations_def fcard_finsert_if)

lemma store_reachable_ok: "store_reachable st \<Longrightarrow> store_ok st"
proof (induction rule: store_reachable.induct)
  case (store_new node)
  show ?case by (simp add: store_ok_def crdt_store_new_def)
next
  case (store_next st st')
  from store_next.hyps(2) store_next.IH show ?case
    by cases (auto simp: crdt_insert_def crdt_update_def crdt_delete_def store_ok_prune intro: store_ok_local store_ok_merge)
qed

section \<open>Properties\<close>

text \<open>
  C27: updates converge. Two replicas that agree on a record and receive the same updates, in any order
  and any number of times each, agree on the record afterwards, provided a timestamp and a node identify one
  update; merging succeeds while the timestamps leave room for the clock.
\<close>

theorem updates_converge:
  assumes "list_all is_update ops" and "set ops' = set ops"
    and "\<forall>x\<in>set ops. \<forall>y\<in>set ops. op_stamp x = op_stamp y \<longrightarrow> x = y"
    and "\<forall>op\<in>set ops. op_timestamp op \<le> M" and "st_lamport a \<le> M" and "st_lamport b \<le> M"
    and "M + length ops \<le> max_u64" and "M + length ops' \<le> max_u64"
    and "get_record table key a = get_record table key b"
  shows "\<exists>a' b'. merge_operations ops a = (Inr (), a') \<and> merge_operations ops' b = (Inr (), b')
           \<and> get_record table key a' = get_record table key b'"
proof -
  let ?of = "\<lambda>ops. map update_record (filter (concerns table key) ops)"
  have u: "list_all is_update ops'" "\<forall>op\<in>set ops'. op_timestamp op \<le> M" using assms(1, 2, 4) by (simp_all add: list_all_iff)
  obtain a' where a': "merge_operations ops a = (Inr (), a')"
    "get_record table key a' = fold crdt_write (?of ops) (get_record table key a)"
    using merge_updates [OF assms(1, 4, 5, 7)] by blast
  obtain b' where b': "merge_operations ops' b = (Inr (), b')"
    "get_record table key b' = fold crdt_write (?of ops') (get_record table key b)"
    using merge_updates [OF u assms(6, 8)] by blast
  have "op_stamp x = op_stamp y" if "record_stamp (update_record x) = record_stamp (update_record y)" for x y
    using that by (cases x; cases y) (simp_all add: record_stamp_def op_stamp_def crdt_record_new_def inj_map_eq_map [OF inj_of_char])
  then have same: "x = y" if "x \<in> set ops" "y \<in> set ops" "record_stamp (update_record x) = record_stamp (update_record y)" for x y
    using that assms(3) by blast
  have "\<forall>r\<in>set (?of ops). \<forall>r'\<in>set (?of ops). cr_key r = cr_key r' \<and> (record_stamp r = record_stamp r' \<longrightarrow> r = r')"
  proof (intro ballI conjI impI)
    fix r r'
    assume "r \<in> set (?of ops)" "r' \<in> set (?of ops)"
    then obtain x y where xy: "x \<in> set ops" "y \<in> set ops" "r = update_record x" "r' = update_record y"
      "concerns table key x" "concerns table key y" by auto
    then show "cr_key r = cr_key r'" by (simp add: concerns_def)
    show "r = r'" if "record_stamp r = record_stamp r'" using same [of x y] xy that by simp
  qed
  from crdt.writes_converge [OF this, of "?of ops'"] assms(2, 9) a' b' show ?thesis by (simp add: crdt_write_def)
qed


text \<open>
  concurrent inserts diverge. Two fresh replicas insert different rows under the same key and then
  exchange all their operations: each holds the other's row, and synchronising has exchanged them instead of
  agreeing on one.
\<close>

theorem concurrent_inserts_diverge:
  "let a = crdt_insert table key vs1 (crdt_store_new n1); b = crdt_insert table key vs2 (crdt_store_new n2) in
   \<exists>a' b'. merge_operations (get_operations_since 0 b) a = (Inr (), a') \<and> merge_operations (get_operations_since 0 a) b = (Inr (), b')
     \<and> map_option cr_values (get_record table key a') = Some vs2 \<and> map_option cr_values (get_record table key b') = Some vs1"
proof -
  define a b where a_def: "a = crdt_insert table key vs1 (crdt_store_new n1)" and b_def: "b = crdt_insert table key vs2 (crdt_store_new n2)"
  have small: "1 < max_u64" "2 < max_u64" by (simp_all add: max_u64_def)
  have ops: "get_operations_since 0 a = [CrdtInsert table key vs1 1 n1]" "get_operations_since 0 b = [CrdtInsert table key vs2 1 n2]"
    by (simp_all add: a_def b_def get_operations_since_def crdt_insert_def local_operation_def next_timestamp_def crdt_store_new_def
        push_log_def update_vector_clock_def put_table_def)
  have clocks: "st_lamport a = 2" "st_lamport b = 2"
    using small by (simp_all add: a_def b_def crdt_insert_def local_operation_def next_timestamp_def crdt_store_new_def put_table_def)
  obtain a' where "merge_operation (CrdtInsert table key vs2 1 n2) a = (Inr (), a')"
    "get_record table key a' = get_record table key (apply_operation (CrdtInsert table key vs2 1 n2) a)"
    by (rule merge_operation_ok [of "CrdtInsert table key vs2 1 n2" a]) (use small clocks in auto)
  moreover obtain b' where "merge_operation (CrdtInsert table key vs1 1 n1) b = (Inr (), b')"
    "get_record table key b' = get_record table key (apply_operation (CrdtInsert table key vs1 1 n1) b)"
    by (rule merge_operation_ok [of "CrdtInsert table key vs1 1 n1" b]) (use small clocks in auto)
  ultimately show ?thesis unfolding Let_def a_def [symmetric] b_def [symmetric] ops by (auto simp: mbind_def crdt_record_new_def)
qed

text \<open>
  A replica with two operations of its own asks another for what it has not seen: the other's first operation is below
  the only entry of the vector clock and is not sent.
\<close>

lemma fmran_single: "fmran (fmupd k v fmempty) = {|v|}"
  by (rule fset_eqI) (auto simp: fmlookup_ran_iff)

lemma sync_skips_operations:
  "generate_sync_message (st_vector_clock (crdt_insert t k2 vs2 (crdt_insert t k1 vs1 (crdt_store_new n1))))
     (crdt_insert t k3 vs3 (crdt_store_new n2)) = []"
  by (simp add: generate_sync_message_def get_operations_since_def crdt_insert_def local_operation_def next_timestamp_def
      crdt_store_new_def push_log_def update_vector_clock_def put_table_def clock_min_def fmran_single max_u64_def)

section \<open>Witnesses\<close>

definition sample_updates :: "crdt_operation list" where
  "sample_updates = [CrdtUpdate ''t'' 1 [VInteger 5] 3 ''a'', CrdtUpdate ''t'' 1 [VInteger 6] 3 ''b'', CrdtUpdate ''t'' 2 [VNull] 1 ''a'']"

theorem updates_converge_witness:
  "\<exists>a' b'. merge_operations sample_updates (crdt_store_new ''a'') = (Inr (), a')
     \<and> merge_operations (sample_updates @ rev sample_updates) (crdt_store_new ''b'') = (Inr (), b')
     \<and> get_record ''t'' 1 a' = get_record ''t'' 1 b'"
  by (rule updates_converge [where M = 3])
    (auto simp: sample_updates_def op_stamp_def crdt_store_new_def max_u64_def get_record_def)


end
