(* ===== verification/Simd.thy ===== *)
theory Simd
  imports Types
begin

text \<open>
  Vectorised execution, \<open>src/simd.rs\<close>: filters and aggregates over columns of integers with four-lane
  instructions and their scalar versions, and the batch that dispatches to them.

  Whether the processor has AVX2 is the argument \<open>avx2\<close>. A vector register is its four lanes; a loop
  over chunks of four is a recursion that takes four elements at a time, with the remainder loop at its end.
  Additions wrap, as the release profile compiles them; the division of floats is an argument \<open>fdiv\<close>.
\<close>

section \<open>Lanes\<close>

type_synonym lanes = "i64 \<times> i64 \<times> i64 \<times> i64"

definition set1 :: "i64 \<Rightarrow> lanes" where
  "set1 x = (x, x, x, x)"

fun lanes_list :: "lanes \<Rightarrow> i64 list" where
  "lanes_list (a, b, c, d) = [a, b, c, d]"

fun add_epi64 :: "lanes \<Rightarrow> lanes \<Rightarrow> lanes" where
  "add_epi64 (a, b, c, d) (a', b', c', d') = (a + a', b + b', c + c', d + d')"

text \<open>A comparison fills a lane with ones or zeros; \<open>movemask_pd\<close> collects the sign bits of the lanes.\<close>

definition fill :: "bool \<Rightarrow> i64" where
  "fill b = (if b then - 1 else 0)"

fun cmpgt_epi64 :: "lanes \<Rightarrow> lanes \<Rightarrow> lanes" where
  "cmpgt_epi64 (a, b, c, d) (a', b', c', d') =
     (fill (sint a' < sint a), fill (sint b' < sint b), fill (sint c' < sint c), fill (sint d' < sint d))"

fun cmpeq_epi64 :: "lanes \<Rightarrow> lanes \<Rightarrow> lanes" where
  "cmpeq_epi64 (a, b, c, d) (a', b', c', d') = (fill (a = a'), fill (b = b'), fill (c = c'), fill (d = d'))"

fun movemask_pd :: "lanes \<Rightarrow> nat" where
  "movemask_pd (a, b, c, d) =
     of_bool (sint a < 0) + 2 * of_bool (sint b < 0) + 4 * of_bool (sint c < 0) + 8 * of_bool (sint d < 0)"

text \<open>\<open>blendv_epi8\<close> with a mask whose lanes are all ones or all zeros takes whole lanes.\<close>

fun blendv :: "lanes \<Rightarrow> lanes \<Rightarrow> lanes \<Rightarrow> lanes" where
  "blendv (a, b, c, d) (a', b', c', d') (m0, m1, m2, m3) =
     (if sint m0 < 0 then a' else a, if sint m1 < 0 then b' else b, if sint m2 < 0 then c' else c, if sint m3 < 0 then d' else d)"

definition mask_bits :: "nat \<Rightarrow> bool list" where
  "mask_bits m = [odd m, odd (m div 2), odd (m div 4), odd (m div 8)]"

section \<open>Filters\<close>

fun filter_greater_avx2 :: "i64 list \<Rightarrow> i64 \<Rightarrow> bool list" where
  "filter_greater_avx2 (a # b # c # d # rest) threshold =
     mask_bits (movemask_pd (cmpgt_epi64 (a, b, c, d) (set1 threshold))) @ filter_greater_avx2 rest threshold"
| "filter_greater_avx2 remainder threshold = map (\<lambda>v. sint threshold < sint v) remainder"

definition filter_greater_scalar :: "i64 list \<Rightarrow> i64 \<Rightarrow> bool list" where
  "filter_greater_scalar vs threshold = map (\<lambda>v. sint threshold < sint v) vs"

definition filter_integers_greater_than :: "bool \<Rightarrow> i64 list \<Rightarrow> i64 \<Rightarrow> bool list" where
  "filter_integers_greater_than avx2 vs threshold =
     (if avx2 then filter_greater_avx2 vs threshold else filter_greater_scalar vs threshold)"

fun filter_equal_avx2 :: "i64 list \<Rightarrow> i64 \<Rightarrow> bool list" where
  "filter_equal_avx2 (a # b # c # d # rest) target =
     mask_bits (movemask_pd (cmpeq_epi64 (a, b, c, d) (set1 target))) @ filter_equal_avx2 rest target"
| "filter_equal_avx2 remainder target = map (\<lambda>v. v = target) remainder"

definition filter_integers_equal :: "bool \<Rightarrow> i64 list \<Rightarrow> i64 \<Rightarrow> bool list" where
  "filter_integers_equal avx2 vs target =
     (if avx2 then filter_equal_avx2 vs target else map (\<lambda>v. v = target) vs)"

section \<open>Aggregates\<close>

fun sum_avx2 :: "i64 list \<Rightarrow> lanes \<Rightarrow> i64" where
  "sum_avx2 (a # b # c # d # rest) sum_vec = sum_avx2 rest (add_epi64 sum_vec (a, b, c, d))"
| "sum_avx2 remainder sum_vec = sum_list (lanes_list sum_vec) + sum_list remainder"

definition sum_integers :: "bool \<Rightarrow> i64 list \<Rightarrow> i64" where
  "sum_integers avx2 vs = (if avx2 then sum_avx2 vs (set1 0) else sum_list vs)"

definition count_non_null :: "i64 option list \<Rightarrow> nat" where
  "count_non_null vs = length (filter (\<lambda>v. v \<noteq> None) vs)"

definition average_integers :: "(f64 \<Rightarrow> f64 \<Rightarrow> f64) \<Rightarrow> bool \<Rightarrow> i64 list \<Rightarrow> f64" where
  "average_integers fdiv avx2 vs =
     (if vs = [] then 0 else fdiv (f64_of_int (sint (sum_integers avx2 vs))) (f64_of_int (int (length vs))))"

definition smin :: "i64 \<Rightarrow> i64 \<Rightarrow> i64" where
  "smin a b = (if sint b < sint a then b else a)"

definition smax :: "i64 \<Rightarrow> i64 \<Rightarrow> i64" where
  "smax a b = (if sint a < sint b then b else a)"

definition i64_MAX :: i64 where
  "i64_MAX = 2 ^ 63 - 1"

definition i64_MIN :: i64 where
  "i64_MIN = 2 ^ 63"

fun min_avx2 :: "i64 list \<Rightarrow> lanes \<Rightarrow> i64" where
  "min_avx2 (a # b # c # d # rest) min_vec =
     min_avx2 rest (blendv min_vec (a, b, c, d) (cmpgt_epi64 min_vec (a, b, c, d)))"
| "min_avx2 remainder min_vec = fold (\<lambda>v m. smin m v) remainder (foldr smin (tl (lanes_list min_vec)) (hd (lanes_list min_vec)))"

definition min_integers :: "bool \<Rightarrow> i64 list \<Rightarrow> i64 option" where
  "min_integers avx2 vs =
     (if vs = [] then None
      else if avx2 then Some (min_avx2 vs (set1 i64_MAX))
      else Some (fold (\<lambda>v m. smin m v) (tl vs) (hd vs)))"

fun max_avx2 :: "i64 list \<Rightarrow> lanes \<Rightarrow> i64" where
  "max_avx2 (a # b # c # d # rest) max_vec =
     max_avx2 rest (blendv max_vec (a, b, c, d) (cmpgt_epi64 (a, b, c, d) max_vec))"
| "max_avx2 remainder max_vec = fold (\<lambda>v m. smax m v) remainder (foldr smax (tl (lanes_list max_vec)) (hd (lanes_list max_vec)))"

definition max_integers :: "bool \<Rightarrow> i64 list \<Rightarrow> i64 option" where
  "max_integers avx2 vs =
     (if vs = [] then None
      else if avx2 then Some (max_avx2 vs (set1 i64_MIN))
      else Some (fold (\<lambda>v m. smax m v) (tl vs) (hd vs)))"

section \<open>Batches\<close>

datatype vector_column = VcInteger "i64 list" | VcReal "f64 list" | VcText "string list" | VcNull nat

record vector_batch =
  vb_columns :: "vector_column list"
  vb_row_count :: nat

datatype filter_predicate =
    PEqual "sql_value" | PNotEqual "sql_value" | PGreaterThan "sql_value" | PLessThan "sql_value"
  | PGreaterThanOrEqual "sql_value" | PLessThanOrEqual "sql_value"

datatype aggregate_function = AggSum | AggCount | AggAvg | AggMin | AggMax

definition vector_batch_new :: vector_batch where
  "vector_batch_new = \<lparr>vb_columns = [], vb_row_count = 0\<rparr>"

definition add_column :: "vector_column \<Rightarrow> vector_batch \<Rightarrow> vector_batch" where
  "add_column c b = b\<lparr>vb_columns := vb_columns b @ [c]\<rparr>"

definition set_row_count :: "nat \<Rightarrow> vector_batch \<Rightarrow> vector_batch" where
  "set_row_count n b = b\<lparr>vb_row_count := n\<rparr>"

definition filter_column :: "bool \<Rightarrow> nat \<Rightarrow> filter_predicate \<Rightarrow> vector_batch \<Rightarrow> bool list result" where
  "filter_column avx2 i predicate b =
     (if length (vb_columns b) \<le> i then Inl (Error NotFound)
      else case (vb_columns b ! i, predicate) of
        (VcInteger vs, PGreaterThan (VInteger threshold)) \<Rightarrow> Inr (filter_integers_greater_than avx2 vs threshold)
      | (VcInteger vs, PEqual (VInteger target)) \<Rightarrow> Inr (filter_integers_equal avx2 vs target)
      | _ \<Rightarrow> Inl (Error NotImplemented))"

definition unwrap_or :: "'a \<Rightarrow> 'a option \<Rightarrow> 'a" where
  "unwrap_or d x = (case x of None \<Rightarrow> d | Some y \<Rightarrow> y)"

definition aggregate_column :: "(f64 \<Rightarrow> f64 \<Rightarrow> f64) \<Rightarrow> bool \<Rightarrow> nat \<Rightarrow> aggregate_function \<Rightarrow> vector_batch \<Rightarrow> sql_value result" where
  "aggregate_column fdiv avx2 i agg b =
     (if length (vb_columns b) \<le> i then Inl (Error NotFound)
      else case (vb_columns b ! i, agg) of
        (VcInteger vs, AggSum) \<Rightarrow> Inr (VInteger (sum_integers avx2 vs))
      | (VcInteger vs, AggCount) \<Rightarrow> Inr (VInteger (word_of_nat (length vs)))
      | (VcInteger vs, AggAvg) \<Rightarrow> Inr (VReal (average_integers fdiv avx2 vs))
      | (VcInteger vs, AggMin) \<Rightarrow> Inr (VInteger (unwrap_or 0 (min_integers avx2 vs)))
      | (VcInteger vs, AggMax) \<Rightarrow> Inr (VInteger (unwrap_or 0 (max_integers avx2 vs)))
      | _ \<Rightarrow> Inl (Error NotImplemented))"

section \<open>What the lanes compute\<close>

lemma fill_sign: "sint (fill b) < 0 \<longleftrightarrow> b"
  by (simp add: fill_def)

lemma mask_of_lanes: "mask_bits (of_bool p + 2 * of_bool q + 4 * of_bool r + 8 * of_bool s) = [p, q, r, s]"
  by (cases p; cases q; cases r; cases s) (simp_all add: mask_bits_def)

lemma filter_greater_avx2_exact: "filter_greater_avx2 vs t = map (\<lambda>v. sint t < sint v) vs"
  by (induction vs t rule: filter_greater_avx2.induct) (simp_all add: fill_sign mask_of_lanes set1_def)

lemma filter_equal_avx2_exact: "filter_equal_avx2 vs t = map (\<lambda>v. v = t) vs"
  by (induction vs t rule: filter_equal_avx2.induct) (simp_all add: fill_sign mask_of_lanes set1_def)

lemma sum_avx2_exact: "sum_avx2 vs l = sum_list (lanes_list l) + sum_list vs"
  by (induction vs l rule: sum_avx2.induct) (simp_all split: prod.split, auto simp: algebra_simps)

lemma sint_smin: "sint (smin a b) = min (sint a) (sint b)"
  by (simp add: smin_def min_def)

lemma sint_smax: "sint (smax a b) = max (sint a) (sint b)"
  by (simp add: smax_def max_def)

lemma fold_smin: "k \<le> sint (fold (\<lambda>v m. smin m v) vs m) \<longleftrightarrow> k \<le> sint m \<and> (\<forall>v\<in>set vs. k \<le> sint v)"
  by (induction vs arbitrary: m) (auto simp: sint_smin)

lemma fold_smax: "sint (fold (\<lambda>v m. smax m v) vs m) \<le> k \<longleftrightarrow> sint m \<le> k \<and> (\<forall>v\<in>set vs. sint v \<le> k)"
  by (induction vs arbitrary: m) (auto simp: sint_smax)

lemma blendv_min: "lanes_list (blendv l v (cmpgt_epi64 l v)) = map2 smin (lanes_list l) (lanes_list v)"
  by (cases l; cases v) (simp add: fill_sign smin_def)

lemma blendv_max: "lanes_list (blendv l v (cmpgt_epi64 v l)) = map2 smax (lanes_list l) (lanes_list v)"
  by (cases l; cases v) (simp add: fill_sign smax_def)

lemma lane_min: "k \<le> sint (foldr smin (tl (lanes_list l)) (hd (lanes_list l))) \<longleftrightarrow> (\<forall>v\<in>set (lanes_list l). k \<le> sint v)"
  by (cases l) (auto simp: sint_smin)

lemma lane_max: "sint (foldr smax (tl (lanes_list l)) (hd (lanes_list l))) \<le> k \<longleftrightarrow> (\<forall>v\<in>set (lanes_list l). sint v \<le> k)"
  by (cases l) (auto simp: sint_smax)

lemma lanes_smin:
  "(\<forall>v\<in>set (lanes_list (blendv l (a, b, c, d) (cmpgt_epi64 l (a, b, c, d)))). k \<le> sint v) \<longleftrightarrow>
     (\<forall>v\<in>set (lanes_list l). k \<le> sint v) \<and> k \<le> sint a \<and> k \<le> sint b \<and> k \<le> sint c \<and> k \<le> sint d"
  unfolding blendv_min by (cases l) (auto simp: sint_smin)

lemma lanes_smax:
  "(\<forall>v\<in>set (lanes_list (blendv l (a, b, c, d) (cmpgt_epi64 (a, b, c, d) l))). sint v \<le> k) \<longleftrightarrow>
     (\<forall>v\<in>set (lanes_list l). sint v \<le> k) \<and> sint a \<le> k \<and> sint b \<le> k \<and> sint c \<le> k \<and> sint d \<le> k"
  unfolding blendv_max by (cases l) (auto simp: sint_smax)

lemma min_avx2_bound: "k \<le> sint (min_avx2 vs l) \<longleftrightarrow> (\<forall>v\<in>set (lanes_list l). k \<le> sint v) \<and> (\<forall>v\<in>set vs. k \<le> sint v)"
proof (induction vs l rule: min_avx2.induct)
  case (1 a b c d rest l)
  then show ?case unfolding min_avx2.simps lanes_smin by auto
qed (simp_all only: min_avx2.simps fold_smin lane_min)

lemma max_avx2_bound: "sint (max_avx2 vs l) \<le> k \<longleftrightarrow> (\<forall>v\<in>set (lanes_list l). sint v \<le> k) \<and> (\<forall>v\<in>set vs. sint v \<le> k)"
proof (induction vs l rule: max_avx2.induct)
  case (1 a b c d rest l)
  then show ?case unfolding max_avx2.simps lanes_smax by auto
qed (simp_all only: max_avx2.simps fold_smax lane_max)

lemma i64_extremes: "sint i64_MIN \<le> sint (v :: i64)" "sint (v :: i64) \<le> sint i64_MAX"
proof -
  have "sint i64_MIN = - (2 ^ 63)" "sint i64_MAX = 2 ^ 63 - 1" by (simp_all add: i64_MIN_def i64_MAX_def)
  then show "sint i64_MIN \<le> sint v" "sint v \<le> sint i64_MAX"
    using sint_ge [of v] sint_lt [of v] by simp_all
qed

lemma Min_by_bounds:
  assumes "vs \<noteq> []" and "\<And>k. k \<le> sint m \<longleftrightarrow> (\<forall>v\<in>set vs. k \<le> sint (v :: i64))"
  shows "sint (m :: i64) = Min (sint ` set vs)"
proof (rule order_antisym)
  show "sint m \<le> Min (sint ` set vs)" using assms(1) assms(2) [of "sint m"] by (simp add: Min_ge_iff)
  show "Min (sint ` set vs) \<le> sint m" unfolding assms(2) by simp
qed

lemma Max_by_bounds:
  assumes "vs \<noteq> []" and "\<And>k. sint m \<le> k \<longleftrightarrow> (\<forall>v\<in>set vs. sint (v :: i64) \<le> k)"
  shows "sint (m :: i64) = Max (sint ` set vs)"
proof (rule order_antisym)
  show "Max (sint ` set vs) \<le> sint m" using assms(1) assms(2) [of "sint m"] by (simp add: Max_le_iff)
  show "sint m \<le> Max (sint ` set vs)" unfolding assms(2) by simp
qed

lemma min_integers_exact:
  assumes "vs \<noteq> []"
  shows "\<exists>m. min_integers avx2 vs = Some m \<and> sint m = Min (sint ` set vs)"
proof -
  have "k \<le> sint (min_avx2 vs (set1 i64_MAX)) \<longleftrightarrow> (\<forall>v\<in>set vs. k \<le> sint v)" for k
    unfolding min_avx2_bound using assms i64_extremes(2) by (cases vs) (auto simp: set1_def intro: order_trans)
  moreover have "k \<le> sint (fold (\<lambda>v m. smin m v) (tl vs) (hd vs)) \<longleftrightarrow> (\<forall>v\<in>set vs. k \<le> sint v)" for k
    using assms by (cases vs) (simp_all add: fold_smin)
  ultimately show ?thesis using assms Min_by_bounds [OF assms] by (auto simp: min_integers_def)
qed

lemma max_integers_exact:
  assumes "vs \<noteq> []"
  shows "\<exists>m. max_integers avx2 vs = Some m \<and> sint m = Max (sint ` set vs)"
proof -
  have "sint (max_avx2 vs (set1 i64_MIN)) \<le> k \<longleftrightarrow> (\<forall>v\<in>set vs. sint v \<le> k)" for k
    unfolding max_avx2_bound using assms i64_extremes(1) by (cases vs) (auto simp: set1_def intro: order_trans)
  moreover have "sint (fold (\<lambda>v m. smax m v) (tl vs) (hd vs)) \<le> k \<longleftrightarrow> (\<forall>v\<in>set vs. sint v \<le> k)" for k
    using assms by (cases vs) (simp_all add: fold_smax)
  ultimately show ?thesis using assms Max_by_bounds [OF assms] by (auto simp: max_integers_def)
qed

section \<open>Properties\<close>

text \<open>
  C32: the vectorised routines compute what they should, with and without AVX2 and for every length: the
  filters are the elementwise comparisons, the sum is the sum modulo \<open>2\<^sup>6\<^sup>4\<close>, and the extremes of a column that
  is not empty are its least and greatest value.
\<close>

theorem vectorised_exact:
  "filter_integers_greater_than avx2 vs t = map (\<lambda>v. sint t < sint v) vs
   \<and> filter_integers_equal avx2 vs t = map (\<lambda>v. v = t) vs
   \<and> sum_integers avx2 vs = sum_list vs
   \<and> (vs \<noteq> [] \<longrightarrow> (\<exists>m. min_integers avx2 vs = Some m \<and> sint m = Min (sint ` set vs))
              \<and> (\<exists>m. max_integers avx2 vs = Some m \<and> sint m = Max (sint ` set vs)))"
  using min_integers_exact max_integers_exact
  by (auto simp: filter_integers_greater_than_def filter_greater_scalar_def filter_greater_avx2_exact
      filter_integers_equal_def filter_equal_avx2_exact sum_integers_def sum_avx2_exact set1_def)

theorem vectorised_exact_witness:
  "filter_integers_greater_than True [1, 5, 10, 15, - 20] 7 = [False, False, True, True, False]
   \<and> (\<exists>m. min_integers True [1, 5, 10, 15, - 20] = Some m \<and> sint m = - 20)"
  using vectorised_exact [of True "[1, 5, 10, 15, - 20]" 7] by simp

end
