(* ===== verification/OptNode.thy ===== *)
theory OptNode
  imports BTreePage Simd
begin

text \<open>
  The cache-optimised B-tree node, \<open>src/btree_optimized.rs\<close>: the 64-byte header, the node with its key and child
  arrays, key search with four-lane comparisons or by binary search, insertion into an internal node
  and the page format.

  An index beyond an array is a panic, also where the vectorised search would read beyond the key array. Child
  pointers are 32-bit numbers. The prefetch hints have no effect on the state.
\<close>

section \<open>Header\<close>

definition OPTIMIZED_BTREE_ORDER :: nat where "OPTIMIZED_BTREE_ORDER = 32"
definition OPT_HEADER_SIZE :: nat where "OPT_HEADER_SIZE = 64"

record opt_header =
  oh_node_type :: u8
  oh_num_keys :: nat
  oh_parent :: nat
  oh_level :: u8
  oh_flags :: nat

definition opt_header_leaf :: opt_header where
  "opt_header_leaf = \<lparr>oh_node_type = 1, oh_num_keys = 0, oh_parent = 0, oh_level = 0, oh_flags = 0\<rparr>"

definition opt_header_internal :: "u8 \<Rightarrow> opt_header" where
  "opt_header_internal level = \<lparr>oh_node_type = 0, oh_num_keys = 0, oh_parent = 0, oh_level = level, oh_flags = 0\<rparr>"

definition opt_is_leaf :: "opt_header \<Rightarrow> bool" where
  "opt_is_leaf h \<longleftrightarrow> oh_node_type h = 1"

definition opt_serialize_header :: "opt_header \<Rightarrow> bytes \<Rightarrow> bytes result" where
  "opt_serialize_header h buffer =
     (if length buffer < OPT_HEADER_SIZE then Inr buffer
      else put 0 (oh_node_type h # le_bytes 2 (oh_num_keys h) @ le_bytes 4 (oh_parent h) @ [oh_level h] @ le_bytes 2 (oh_flags h)) buffer)"

definition opt_deserialize_header :: "bytes \<Rightarrow> opt_header result" where
  "opt_deserialize_header buffer =
     (if length buffer < OPT_HEADER_SIZE then Inl (Error Corruption)
      else Inr \<lparr>oh_node_type = buffer ! 0, oh_num_keys = le_nat (take 2 (drop 1 buffer)),
                oh_parent = le_nat (take 4 (drop 3 buffer)), oh_level = buffer ! 7, oh_flags = le_nat (take 2 (drop 8 buffer))\<rparr>)"

section \<open>Node\<close>

record opt_node =
  on_header :: opt_header
  on_keys :: "i64 list"
  on_children :: "nat list"
  on_data_area :: bytes

definition data_area_size :: nat where
  "data_area_size = page_size - 64 - OPTIMIZED_BTREE_ORDER * 8 - (OPTIMIZED_BTREE_ORDER + 1) * 4"

definition opt_node_with :: "opt_header \<Rightarrow> opt_node" where
  "opt_node_with h = \<lparr>on_header = h, on_keys = replicate OPTIMIZED_BTREE_ORDER 0,
     on_children = replicate (OPTIMIZED_BTREE_ORDER + 1) 0, on_data_area = replicate data_area_size 0\<rparr>"

definition opt_new_leaf :: opt_node where
  "opt_new_leaf = opt_node_with opt_header_leaf"

definition opt_new_internal :: "u8 \<Rightarrow> opt_node" where
  "opt_new_internal level = opt_node_with (opt_header_internal level)"

definition opt_count :: "opt_node \<Rightarrow> nat" where
  "opt_count n = oh_num_keys (on_header n)"

section \<open>Search\<close>

datatype found = Found nat | Missing nat

fun shift_found :: "nat \<Rightarrow> found \<Rightarrow> found" where
  "shift_found i (Found j) = Found (i + j)"
| "shift_found i (Missing j) = Missing (i + j)"

text \<open>The loop of \<open>slice::binary_search\<close>: the search interval starts at \<open>base\<close> and has \<open>len\<close> elements.\<close>

function binary_search_base :: "i64 list \<Rightarrow> i64 \<Rightarrow> nat \<Rightarrow> nat \<Rightarrow> nat" where
  "binary_search_base keys key base len =
     (if len \<le> 1 then base
      else let half = len div 2; mid = base + half in
        binary_search_base keys key (if sint key < sint (keys ! mid) then base else mid) (len - half))"
  by pat_completeness auto
termination by (relation "measure (\<lambda>(keys, key, base, len). len)") auto

declare binary_search_base.simps [simp del]

definition binary_search :: "i64 list \<Rightarrow> i64 \<Rightarrow> found" where
  "binary_search keys key =
     (if keys = [] then Missing 0
      else let base = binary_search_base keys key 0 (length keys); k = keys ! base in
        if k = key then Found base else Missing (base + of_bool (sint k < sint key)))"

fun first_lane :: "nat \<Rightarrow> bool list \<Rightarrow> nat option" where
  "first_lane j [] = None"
| "first_lane j (b # bs) = (if b then Some j else first_lane (Suc j) bs)"

fun search_chunks :: "i64 list \<Rightarrow> i64 \<Rightarrow> found" where
  "search_chunks [] key = Missing 0"
| "search_chunks (a # b # c # d # rest) key =
     (case first_lane 0 (mask_bits (movemask_pd (cmpeq_epi64 (a, b, c, d) (set1 key)))) of
        Some j \<Rightarrow> Found j
      | None \<Rightarrow>
          (case first_lane 0 (mask_bits (movemask_pd (cmpgt_epi64 (a, b, c, d) (set1 key)))) of
             Some j \<Rightarrow> Missing j
           | None \<Rightarrow> shift_found 4 (search_chunks rest key)))"
| "search_chunks remainder key = binary_search remainder key"

definition search_key :: "bool \<Rightarrow> i64 \<Rightarrow> opt_node \<Rightarrow> found result" where
  "search_key avx2 key n =
     (if OPTIMIZED_BTREE_ORDER < opt_count n then Inl Panic
      else
        let keys = take (opt_count n) (on_keys n) in
        Inr (if 8 \<le> opt_count n \<and> avx2 then search_chunks keys key else binary_search keys key))"

definition get_key :: "nat \<Rightarrow> opt_node \<Rightarrow> i64 option result" where
  "get_key i n =
     (if i < opt_count n then if i < length (on_keys n) then Inr (Some (on_keys n ! i)) else Inl Panic else Inr None)"

definition get_child :: "nat \<Rightarrow> opt_node \<Rightarrow> nat option result" where
  "get_child i n =
     (if i \<le> opt_count n then if i < length (on_children n) then Inr (Some (on_children n ! i)) else Inl Panic else Inr None)"

section \<open>Insertion\<close>

text \<open>The shift loop from \<open>num_keys - 1\<close> down to \<open>index\<close>: element \<open>i + off\<close> moves one place up.\<close>

fun shift_up :: "nat \<Rightarrow> nat \<Rightarrow> nat \<Rightarrow> 'a list \<Rightarrow> 'a list" where
  "shift_up off index 0 xs = xs"
| "shift_up off index (Suc i) xs =
     (if i < index then xs else shift_up off index i (xs[i + off + 1 := xs ! (i + off)]))"

definition insert_internal :: "i64 \<Rightarrow> nat \<Rightarrow> nat \<Rightarrow> nat \<Rightarrow> (opt_node, unit) op" where
  "insert_internal key left_child right_child index n =
     (let num = opt_count n in
      if OPTIMIZED_BTREE_ORDER \<le> num then (Inl (Error StorageError), n)
      else if OPTIMIZED_BTREE_ORDER \<le> index then (Inl Panic, n)
      else (Inr (), n\<lparr>on_keys := (shift_up 0 index num (on_keys n))[index := key],
        on_children := (shift_up 1 index num (on_children n))[index := as_u32 left_child, index + 1 := as_u32 right_child],
        on_header := (on_header n)\<lparr>oh_num_keys := num + 1\<rparr>\<rparr>))"

section \<open>Page format\<close>

fun put_each :: "nat \<Rightarrow> bytes list \<Rightarrow> bytes \<Rightarrow> bytes result" where
  "put_each offset [] page = Inr page"
| "put_each offset (v # vs) page = rbind (put offset v page) (put_each (offset + length v) vs)"

definition opt_serialize :: "opt_node \<Rightarrow> bytes \<Rightarrow> bytes result" where
  "opt_serialize n page =
     (if OPTIMIZED_BTREE_ORDER < opt_count n then Inl Panic
      else
        rbind (opt_serialize_header (on_header n) page) (\<lambda>page.
        rbind (put_each 64 (map i64_to_le (take (opt_count n) (on_keys n))) page) (\<lambda>page.
          put_each (64 + OPTIMIZED_BTREE_ORDER * 8) (map (le_bytes 4) (take (opt_count n + 1) (on_children n))) page)))"

fun get_each :: "nat \<Rightarrow> nat \<Rightarrow> nat \<Rightarrow> bytes \<Rightarrow> bytes list result" where
  "get_each width offset 0 page = Inr []"
| "get_each width offset (Suc k) page =
     rbind (slice offset (offset + width) page) (\<lambda>v. rbind (get_each width (offset + width) k page) (\<lambda>vs. Inr (v # vs)))"

definition opt_deserialize :: "bytes \<Rightarrow> opt_node result" where
  "opt_deserialize page =
     rbind (opt_deserialize_header (take 64 page)) (\<lambda>h.
       if OPTIMIZED_BTREE_ORDER < oh_num_keys h then Inl Panic
       else
         rbind (get_each 8 64 (oh_num_keys h) page) (\<lambda>ks.
         rbind (get_each 4 (64 + OPTIMIZED_BTREE_ORDER * 8) (oh_num_keys h + 1) page) (\<lambda>cs.
           Inr \<lparr>on_header = h, on_keys = map i64_from_le ks @ replicate (OPTIMIZED_BTREE_ORDER - oh_num_keys h) 0,
                on_children = map le_nat cs @ replicate (OPTIMIZED_BTREE_ORDER - oh_num_keys h) 0,
                on_data_area = replicate data_area_size 0\<rparr>)))"

end
