(* ===== verification/OptNodeTheorems.thy ===== *)
theory OptNodeTheorems
  imports OptNode LeafPage
begin

text \<open>
  The optimised node computes what a plain one would: both searches find the place of a key in ascending
  keys, insertion at that place keeps them ascending, and a node survives its page.
\<close>

section \<open>The place of a key\<close>

definition ascending_keys :: "i64 list \<Rightarrow> bool" where
  "ascending_keys = sorted_wrt (\<lambda>a b. sint a < sint b)"

definition place :: "i64 list \<Rightarrow> i64 \<Rightarrow> found" where
  "place keys key =
     (let i = length (takeWhile (\<lambda>k. sint k < sint key) keys) in
      if i < length keys \<and> keys ! i = key then Found i else Missing i)"

lemma place_append:
  "\<forall>k\<in>set xs. sint k < sint key \<Longrightarrow> place (xs @ ys) key = shift_found (length xs) (place ys key)"
  by (induction xs) (auto simp: place_def Let_def)

lemma place_at:
  assumes "i \<le> length keys" and "\<forall>j<i. sint (keys ! j) < sint key" and "i < length keys \<Longrightarrow> \<not> sint (keys ! i) < sint key"
  shows "place keys key = (if i < length keys \<and> keys ! i = key then Found i else Missing i)"
proof -
  have "takeWhile (\<lambda>k. sint k < sint key) keys = take i keys"
    by (rule takeWhile_eq_take_P_nth) (use assms in auto)
  then show ?thesis using assms(1) by (simp add: place_def)
qed

lemma binary_search_base_spec:
  assumes "0 < len" and "base + len \<le> length keys" and "ascending_keys keys"
    and "base = 0 \<or> sint (keys ! base) \<le> sint key" and "\<forall>j. base + len \<le> j \<longrightarrow> j < length keys \<longrightarrow> sint key < sint (keys ! j)"
  shows "binary_search_base keys key base len < length keys
    \<and> (binary_search_base keys key base len = 0 \<or> sint (keys ! binary_search_base keys key base len) \<le> sint key)
    \<and> (\<forall>j. binary_search_base keys key base len < j \<longrightarrow> j < length keys \<longrightarrow> sint key < sint (keys ! j))"
  using assms
proof (induction keys key base len rule: binary_search_base.induct)
  case (1 keys key base len)
  show ?case
  proof (cases "len \<le> 1")
    case True
    with "1.prems"(1) have "len = 1" by simp
    with "1.prems" show ?thesis by (simp add: binary_search_base.simps)
  next
    case False
    let ?half = "len div 2"
    let ?mid = "base + ?half"
    let ?base = "if sint key < sint (keys ! ?mid) then base else ?mid"
    have step: "binary_search_base keys key base len = binary_search_base keys key ?base (len - ?half)"
      using False by (subst binary_search_base.simps) (simp add: Let_def)
    have half: "0 < ?half" "?half < len" using False by auto
    have above: "sint key < sint (keys ! j)" if "sint key < sint (keys ! ?mid)" "?mid \<le> j" "j < length keys" for j
    proof (cases "?mid = j")
      case False
      with that "1.prems"(3) have "sint (keys ! ?mid) < sint (keys ! j)" by (simp add: ascending_keys_def sorted_wrt_iff_nth_less)
      with that show ?thesis by simp
    qed (use that in simp)
    have gt: "\<forall>j. ?base + (len - ?half) \<le> j \<longrightarrow> j < length keys \<longrightarrow> sint key < sint (keys ! j)"
      using above "1.prems"(5) half by (auto split: if_splits)
    have fits: "?base + (len - ?half) \<le> length keys" using "1.prems"(2) half by auto
    have le: "?base = 0 \<or> sint (keys ! ?base) \<le> sint key" using "1.prems"(4) by auto
    have pos: "0 < len - ?half" using half by simp
    show ?thesis unfolding step
      by (rule "1.IH" [OF False refl refl pos fits "1.prems"(3) le gt])
  qed
qed

lemma binary_search_place:
  assumes "ascending_keys keys"
  shows "binary_search keys key = place keys key"
proof (cases "keys = []")
  case False
  let ?b = "binary_search_base keys key 0 (length keys)"
  have b: "?b < length keys" "?b = 0 \<or> sint (keys ! ?b) \<le> sint key" "\<forall>j. ?b < j \<longrightarrow> j < length keys \<longrightarrow> sint key < sint (keys ! j)"
    using binary_search_base_spec [of "length keys" 0 keys key] False assms by auto
  have below: "sint (keys ! j) < sint (keys ! ?b)" if "j < ?b" for j
    using assms b(1) that by (simp add: ascending_keys_def sorted_wrt_iff_nth_less)
  show ?thesis
  proof (cases "sint (keys ! ?b) < sint key")
    case True
    then have "\<forall>j<Suc ?b. sint (keys ! j) < sint key" using below by (auto simp: less_Suc_eq intro: order_less_trans)
    moreover have "Suc ?b < length keys \<Longrightarrow> sint key < sint (keys ! Suc ?b)" using b(3) by simp
    ultimately have "place keys key = Missing (Suc ?b)"
      using place_at [of "Suc ?b" keys key] b(1) by fastforce
    moreover have "keys ! ?b \<noteq> key" using True by auto
    ultimately show ?thesis using True False by (simp add: binary_search_def Let_def)
  next
    case F: False
    have "\<forall>j<?b. sint (keys ! j) < sint key" using below b(2) by (auto intro: order_less_le_trans)
    then have "place keys key = (if keys ! ?b = key then Found ?b else Missing ?b)"
      using place_at [of ?b keys key] b(1) F by simp
    then show ?thesis using F False by (simp add: binary_search_def Let_def)
  qed
qed (simp add: binary_search_def place_def)

lemma sint_inject [simp]: "sint (a :: i64) = sint b \<longleftrightarrow> a = b"
  by (auto intro: signed_word_eqI)

lemma search_chunks_place:
  assumes "ascending_keys keys"
  shows "search_chunks keys key = place keys key"
  using assms
proof (induction keys key rule: search_chunks.induct)
  case (2 a b c d rest key)
  have lanes: "mask_bits (movemask_pd (cmpeq_epi64 (a, b, c, d) (set1 key))) = [a = key, b = key, c = key, d = key]"
    "mask_bits (movemask_pd (cmpgt_epi64 (a, b, c, d) (set1 key))) = [sint key < sint a, sint key < sint b, sint key < sint c, sint key < sint d]"
    by (simp_all add: fill_sign mask_of_lanes set1_def)
  show ?case
  proof (cases "sint a < sint key \<and> sint b < sint key \<and> sint c < sint key \<and> sint d < sint key")
    case True
    then have "place ([a, b, c, d] @ rest) key = shift_found 4 (place rest key)" using place_append [of "[a, b, c, d]" key rest] by (simp add: numeral_eq_Suc)
    moreover have none: "first_lane 0 [a = key, b = key, c = key, d = key] = None"
      "first_lane 0 [sint key < sint a, sint key < sint b, sint key < sint c, sint key < sint d] = None" using True by auto
    have "search_chunks rest key = place rest key"
      using "2.IH" [unfolded lanes, OF none] "2.prems" by (simp add: ascending_keys_def)
    ultimately show ?thesis using True by (auto simp: lanes numeral_eq_Suc)
  next
    case False
    then show ?thesis using "2.prems"
      by (auto simp: lanes place_def Let_def ascending_keys_def not_less numeral_eq_Suc)
  qed
qed (simp_all add: binary_search_place place_def del: binary_search_def)

section \<open>Nodes\<close>

text \<open>A node within its arrays.\<close>

definition opt_ok :: "opt_node \<Rightarrow> bool" where
  "opt_ok n \<longleftrightarrow> length (on_keys n) = OPTIMIZED_BTREE_ORDER \<and> length (on_children n) = OPTIMIZED_BTREE_ORDER + 1
     \<and> opt_count n \<le> OPTIMIZED_BTREE_ORDER"

definition live_keys :: "opt_node \<Rightarrow> i64 list" where
  "live_keys n = take (opt_count n) (on_keys n)"

definition live_children :: "opt_node \<Rightarrow> nat list" where
  "live_children n = take (opt_count n + 1) (on_children n)"

lemma search_key_place:
  assumes "opt_ok n" and "ascending_keys (live_keys n)"
  shows "search_key avx2 key n = Inr (place (live_keys n) key)"
  using assms by (simp add: search_key_def opt_ok_def live_keys_def Let_def search_chunks_place binary_search_place)

lemma length_shift_up [simp]: "length (shift_up off index i xs) = length xs"
  by (induction off index i xs rule: shift_up.induct) auto

lemma nth_shift_up:
  assumes "i + off < length xs" and "index \<le> i"
  shows "shift_up off index i xs ! j =
    (if index + off < j \<and> j \<le> i + off then xs ! (j - 1) else xs ! j)"
  using assms
proof (induction off index i xs arbitrary: j rule: shift_up.induct)
  case (2 off index i xs)
  show ?case
  proof (cases "i < index")
    case False
    then have "shift_up off index i (xs[i + off + 1 := xs ! (i + off)]) ! j =
        (if index + off < j \<and> j \<le> i + off then xs[i + off + 1 := xs ! (i + off)] ! (j - 1) else xs[i + off + 1 := xs ! (i + off)] ! j)"
      using 2 by simp
    then show ?thesis using False "2.prems" by (auto simp: nth_list_update)
  next
    case True
    with 2 show ?thesis by auto
  qed
qed auto

lemma take_inserted:
  assumes "index \<le> num" and "num < length xs"
  shows "take (num + 1) ((shift_up 0 index num xs)[index := x]) = take index xs @ x # drop index (take num xs)"
  using assms by (intro nth_equalityI) (auto simp: nth_shift_up nth_append nth_list_update nth_Cons split: nat.split,
    (rule arg_cong [where f = "(!) xs"], arith)+)

lemma take_inserted_children:
  assumes "index \<le> num" and "num + 1 < length xs"
  shows "take (num + 2) ((shift_up 1 index num xs)[index := l, index + 1 := r]) =
    take index xs @ l # r # drop (index + 1) (take (num + 1) xs)"
  using assms by (intro nth_equalityI) (auto simp: nth_shift_up nth_append nth_list_update nth_Cons split: nat.split,
    (rule arg_cong [where f = "(!) xs"], arith)+)

lemma insert_internal_live:
  assumes "opt_ok n" and "opt_count n < OPTIMIZED_BTREE_ORDER" and "index \<le> opt_count n"
  obtains n' where "insert_internal key l r index n = (Inr (), n')" and "opt_ok n'"
    and "live_keys n' = take index (live_keys n) @ key # drop index (live_keys n)"
    and "live_children n' = take index (live_children n) @ as_u32 l # as_u32 r # drop (index + 1) (live_children n)"
proof (rule that)
  let ?n = "n\<lparr>on_keys := (shift_up 0 index (opt_count n) (on_keys n))[index := key],
    on_children := (shift_up 1 index (opt_count n) (on_children n))[index := as_u32 l, index + 1 := as_u32 r],
    on_header := (on_header n)\<lparr>oh_num_keys := opt_count n + 1\<rparr>\<rparr>"
  show "insert_internal key l r index n = (Inr (), ?n)" using assms by (simp add: insert_internal_def Let_def)
  have count: "opt_count ?n = opt_count n + 1" by (simp add: opt_count_def)
  show "opt_ok ?n" using assms by (simp add: opt_ok_def count [simplified])
  show "live_keys ?n = take index (live_keys n) @ key # drop index (live_keys n)"
    using assms take_inserted [of index "opt_count n" "on_keys n" key] by (simp add: live_keys_def count [simplified] opt_ok_def min_def)
  show "live_children ?n = take index (live_children n) @ as_u32 l # as_u32 r # drop (index + 1) (live_children n)"
    using assms take_inserted_children [of index "opt_count n" "on_children n" "as_u32 l" "as_u32 r"]
    by (simp add: live_children_def count [simplified] opt_ok_def min_def)
qed

lemma ascending_insert_between:
  assumes "ascending_keys (A @ D)" and "\<forall>k\<in>set A. sint k < sint key" and "\<forall>k\<in>set D. sint key < sint k"
  shows "ascending_keys (A @ key # D)"
  using assms by (auto simp: ascending_keys_def sorted_wrt_append)

lemma place_missing:
  assumes "place keys key = Missing i" and "ascending_keys keys"
  shows "i \<le> length keys" and "ascending_keys (take i keys @ key # drop i keys)"
proof -
  let ?P = "\<lambda>k. sint k < sint key"
  have i: "i = length (takeWhile ?P keys)" and ne: "i < length keys \<longrightarrow> keys ! i \<noteq> key"
    using assms(1) by (auto simp: place_def Let_def split: if_splits)
  then show "i \<le> length keys" by (simp add: length_takeWhile_le)
  have parts: "take i keys = takeWhile ?P keys" "drop i keys = dropWhile ?P keys"
    unfolding i by (rule takeWhile_eq_take [symmetric], rule dropWhile_eq_drop [symmetric])
  have s: "ascending_keys (takeWhile ?P keys @ dropWhile ?P keys)" using assms(2) by simp
  have below: "\<forall>k\<in>set (takeWhile ?P keys). sint k < sint key" by (auto dest: set_takeWhileD)
  have above: "\<forall>k\<in>set (dropWhile ?P keys). sint key < sint k"
  proof (cases "dropWhile ?P keys")
    case (Cons k ks)
    then have "\<not> sint k < sint key" using hd_dropWhile [of ?P keys] by simp
    moreover have "drop i keys = k # ks" using Cons parts(2) by simp
    then have "keys ! i = k" "i < length keys" by (simp add: nth_via_drop, metis drop_all list.distinct(1) not_less)
    then have "sint k \<noteq> sint key" using ne by simp
    ultimately have "sint key < sint k" by linarith
    moreover have "\<forall>x\<in>set ks. sint k < sint x" using s Cons by (simp add: ascending_keys_def sorted_wrt_append)
    ultimately show ?thesis using Cons by auto
  next
    case Nil
    show ?thesis unfolding Nil by simp
  qed
  show "ascending_keys (take i keys @ key # drop i keys)"
    unfolding parts by (rule ascending_insert_between [OF s below above])
qed

section \<open>Pages\<close>

lemma put_each_mid:
  assumes "length pre = off" and "length old = length (concat vs)"
  shows "put_each off vs (pre @ old @ post) = Inr (pre @ concat vs @ post)"
  using assms
proof (induction vs arbitrary: off pre old)
  case (Cons v vs)
  have "old = take (length v) old @ drop (length v) old" by simp
  with Cons.prems have "put off v (pre @ old @ post) = Inr ((pre @ v) @ drop (length v) old @ post)"
    using put_mid [of off pre v "take (length v) old" "drop (length v) old @ post"] by (simp flip: append_assoc)
  with Cons.IH [of "pre @ v" "off + length v" "drop (length v) old"] Cons.prems show ?case by simp
qed simp

lemma get_each_mid:
  assumes "length pre = off" and "\<forall>v\<in>set vs. length v = width"
  shows "get_each width off (length vs) (pre @ concat vs @ post) = Inr vs"
  using assms
proof (induction vs arbitrary: off pre)
  case (Cons v vs)
  have "slice off (off + width) (pre @ v @ concat vs @ post) = Inr v"
    using Cons.prems by (intro slice_mid) simp_all
  with Cons.IH [of "pre @ v" "off + width"] Cons.prems show ?case by simp
qed simp

definition opt_fields_ok :: "opt_node \<Rightarrow> bool" where
  "opt_fields_ok n \<longleftrightarrow> opt_ok n \<and> oh_parent (on_header n) < 2 ^ 32 \<and> oh_flags (on_header n) < 2 ^ 16
     \<and> (\<forall>c\<in>set (on_children n). c < 2 ^ 32)"

definition opt_header_bytes :: "opt_header \<Rightarrow> bytes" where
  "opt_header_bytes h = oh_node_type h # le_bytes 2 (oh_num_keys h) @ le_bytes 4 (oh_parent h) @ [oh_level h] @ le_bytes 2 (oh_flags h)"

lemma length_opt_header_bytes [simp]: "length (opt_header_bytes h) = 10"
  by (simp add: opt_header_bytes_def)

lemma header_roundtrip:
  assumes "oh_num_keys h < 2 ^ 16" and "oh_parent h < 2 ^ 32" and "oh_flags h < 2 ^ 16" and "54 \<le> length rest"
  shows "opt_deserialize_header (take 64 (opt_header_bytes h @ rest)) = Inr h"
proof -
  let ?b = "opt_header_bytes h @ take 54 rest"
  have b: "take 64 (opt_header_bytes h @ rest) = ?b" by simp
  have "?b = [oh_node_type h] @ le_bytes 2 (oh_num_keys h) @ (le_bytes 4 (oh_parent h) @ [oh_level h] @ le_bytes 2 (oh_flags h) @ take 54 rest)"
    by (simp add: opt_header_bytes_def)
  then have 1: "take 2 (drop 1 ?b) = le_bytes 2 (oh_num_keys h)" by (simp only:) (rule take_drop_mid, simp_all)
  have "?b = (oh_node_type h # le_bytes 2 (oh_num_keys h)) @ le_bytes 4 (oh_parent h) @ ([oh_level h] @ le_bytes 2 (oh_flags h) @ take 54 rest)"
    by (simp add: opt_header_bytes_def)
  then have 2: "take 4 (drop 3 ?b) = le_bytes 4 (oh_parent h)" by (simp only:) (rule take_drop_mid, simp_all)
  have c: "?b = (oh_node_type h # le_bytes 2 (oh_num_keys h) @ le_bytes 4 (oh_parent h)) @ oh_level h # (le_bytes 2 (oh_flags h) @ take 54 rest)"
    by (simp add: opt_header_bytes_def)
  have 3: "?b ! 7 = oh_level h" unfolding c by (subst nth_append) simp
  have "?b = (oh_node_type h # le_bytes 2 (oh_num_keys h) @ le_bytes 4 (oh_parent h) @ [oh_level h]) @ le_bytes 2 (oh_flags h) @ take 54 rest"
    by (simp add: opt_header_bytes_def)
  then have 4: "take 2 (drop 8 ?b) = le_bytes 2 (oh_flags h)" by (simp only:) (rule take_drop_mid, simp_all)
  have "?b ! 0 = oh_node_type h" by (simp add: opt_header_bytes_def)
  with 1 2 3 4 assms show ?thesis
    unfolding b by (simp add: opt_deserialize_header_def OPT_HEADER_SIZE_def le_nat_le_bytes_id)
qed

lemma length_concat_const: "\<forall>v\<in>set vs. length v = w \<Longrightarrow> length (concat vs) = w * length vs"
  by (induction vs) auto

lemma opt_serialize_bytes:
  assumes "opt_ok n" and "length page = page_size"
  obtains gap unused_keys rest where "opt_serialize n page =
      Inr (opt_header_bytes (on_header n) @ gap @ concat (map i64_to_le (live_keys n)) @ unused_keys
           @ concat (map (le_bytes 4) (live_children n)) @ rest)"
    and "length gap = 54" and "length unused_keys = 256 - 8 * opt_count n"
proof -
  let ?c = "opt_count n"
  have c: "?c \<le> 32" using assms(1) by (simp add: opt_ok_def OPTIMIZED_BTREE_ORDER_def)
  have lk: "length (live_keys n) = ?c" and lc: "length (live_children n) = ?c + 1"
    using assms(1) by (auto simp: live_keys_def live_children_def opt_ok_def)
  have ck: "length (concat (map i64_to_le (live_keys n))) = 8 * ?c"
    using length_concat_const [of "map i64_to_le (live_keys n)" 8] lk by simp
  have cc: "length (concat (map (le_bytes 4) (live_children n))) = 4 * (?c + 1)"
    using length_concat_const [of "map (le_bytes 4) (live_children n)" 4] lc by simp
  define gap keys unused children rest where "gap = take 54 (drop 10 page)" and "keys = take (8 * ?c) (drop 64 page)"
    and "unused = take (256 - 8 * ?c) (drop (64 + 8 * ?c) page)" and "children = take (4 * (?c + 1)) (drop 320 page)"
    and "rest = drop (320 + 4 * (?c + 1)) page"
  have lens: "length gap = 54" "length keys = 8 * ?c" "length unused = 256 - 8 * ?c" "length children = 4 * (?c + 1)"
    using assms(2) c by (simp_all add: gap_def keys_def unused_def children_def page_size_def)
  have cut: "drop a page = take k (drop a page) @ drop (a + k) page" for a k
    by (metis append_take_drop_id drop_drop add.commute)
  have "page = take 10 page @ drop 10 page" by simp
  also have "drop 10 page = gap @ drop 64 page" using cut [of 10 54] by (simp add: gap_def)
  also have "drop 64 page = keys @ drop (64 + 8 * ?c) page" unfolding keys_def by (rule cut)
  also have "drop (64 + 8 * ?c) page = unused @ drop 320 page"
    using cut [of "64 + 8 * ?c" "256 - 8 * ?c"] c by (simp add: unused_def)
  also have "drop 320 page = children @ rest" unfolding children_def rest_def by (rule cut)
  finally have page: "page = take 10 page @ gap @ keys @ unused @ children @ rest" .
  have ten: "length (take 10 page) = length (opt_header_bytes (on_header n))" using assms(2) by (simp add: page_size_def)
  have "opt_serialize_header (on_header n) page = put 0 (opt_header_bytes (on_header n)) page"
    using assms(2) by (simp add: opt_serialize_header_def opt_header_bytes_def OPT_HEADER_SIZE_def page_size_def)
  also have "\<dots> = Inr (opt_header_bytes (on_header n) @ gap @ keys @ unused @ children @ rest)"
    by (subst page) (use put_mid [of 0 "[]", OF _ ten [symmetric]] in simp)
  finally have 1: "opt_serialize_header (on_header n) page = Inr (opt_header_bytes (on_header n) @ gap @ keys @ unused @ children @ rest)" .
  let ?h = "opt_header_bytes (on_header n) @ gap"
  let ?k = "concat (map i64_to_le (live_keys n))"
  have 2: "put_each 64 (map i64_to_le (live_keys n)) (?h @ keys @ unused @ children @ rest) = Inr (?h @ ?k @ unused @ children @ rest)"
    by (rule put_each_mid) (use lens ck in simp_all)
  have 3: "put_each 320 (map (le_bytes 4) (live_children n)) ((?h @ ?k @ unused) @ children @ rest) =
      Inr ((?h @ ?k @ unused) @ concat (map (le_bytes 4) (live_children n)) @ rest)"
    by (rule put_each_mid) (use lens ck cc c in simp_all)
  show thesis
    by (rule that [of gap unused rest])
      (use 1 2 3 lens c in \<open>simp_all add: opt_serialize_def OPTIMIZED_BTREE_ORDER_def live_keys_def live_children_def\<close>)
qed

section \<open>Properties\<close>

text \<open>
  C31: vectorised and binary search agree. On a node whose keys are ascending, the search with four-lane
  comparisons, the binary search on its remainder and the binary search alone all return the place of the key:
  its index, or the number of smaller keys when it is absent.
\<close>

theorem search_key_exact:
  assumes "opt_ok n" and "ascending_keys (live_keys n)"
  shows "search_key avx2 key n = Inr (place (live_keys n) key)"
  using assms by (rule search_key_place)

text \<open>
  inserting at the place a search reports. A key that is not found is inserted into a node that is not
  full at the reported index: the keys stay ascending, exactly the new key is added, and the child at the index
  is replaced by the two new children.
\<close>

theorem insert_at_place:
  assumes "opt_ok n" and "ascending_keys (live_keys n)" and "opt_count n < OPTIMIZED_BTREE_ORDER"
    and "search_key avx2 key n = Inr (Missing i)"
  shows "\<exists>n'. insert_internal key l r i n = (Inr (), n') \<and> opt_ok n' \<and> ascending_keys (live_keys n')
    \<and> set (live_keys n') = insert key (set (live_keys n))
    \<and> live_children n' = take i (live_children n) @ as_u32 l # as_u32 r # drop (i + 1) (live_children n)"
proof -
  have "place (live_keys n) key = Missing i" using search_key_place [OF assms(1, 2)] assms(4) by simp
  note m = place_missing [OF this assms(2)]
  have "length (live_keys n) = opt_count n" using assms(1) by (simp add: opt_ok_def live_keys_def)
  with m(1) have i: "i \<le> opt_count n" by simp
  obtain n' where "insert_internal key l r i n = (Inr (), n')" "opt_ok n'"
    "live_keys n' = take i (live_keys n) @ key # drop i (live_keys n)"
    "live_children n' = take i (live_children n) @ as_u32 l # as_u32 r # drop (i + 1) (live_children n)"
    by (rule insert_internal_live [OF assms(1, 3) i])
  moreover have "set (live_keys n) = set (take i (live_keys n)) \<union> set (drop i (live_keys n))"
    by (metis append_take_drop_id set_append)
  ultimately show ?thesis using m(2) by auto
qed

text \<open>
  a node survives its page. Writing a node to a page and reading it back gives the header, the keys and the
  child pointers in use; the data area is not stored.
\<close>

theorem opt_node_roundtrip:
  assumes "opt_fields_ok n" and "length page = page_size"
  shows "\<exists>page' n'. opt_serialize n page = Inr page' \<and> opt_deserialize page' = Inr n' \<and> on_header n' = on_header n
    \<and> live_keys n' = live_keys n \<and> live_children n' = live_children n"
proof -
  have ok: "opt_ok n" using assms(1) by (simp add: opt_fields_ok_def)
  let ?h = "opt_header_bytes (on_header n)" and ?k = "concat (map i64_to_le (live_keys n))"
  let ?ch = "concat (map (le_bytes 4) (live_children n))" and ?c = "opt_count n"
  have c: "?c \<le> 32" using ok by (simp add: opt_ok_def OPTIMIZED_BTREE_ORDER_def)
  have lk: "length (live_keys n) = ?c" and lc: "length (live_children n) = ?c + 1"
    using ok by (auto simp: live_keys_def live_children_def opt_ok_def)
  obtain gap unused rest where ser: "opt_serialize n page = Inr (?h @ gap @ ?k @ unused @ ?ch @ rest)"
    and gap: "length gap = 54" and unused: "length unused = 256 - 8 * ?c"
    by (rule opt_serialize_bytes [OF ok assms(2)])
  have "oh_num_keys (on_header n) < 2 ^ 16" using c by (simp add: opt_count_def)
  then have hd: "opt_deserialize_header (take 64 (?h @ gap @ ?k @ unused @ ?ch @ rest)) = Inr (on_header n)"
    using assms(1) gap by (intro header_roundtrip) (simp_all add: opt_fields_ok_def)
  have ks: "get_each 8 64 ?c (?h @ gap @ ?k @ unused @ ?ch @ rest) = Inr (map i64_to_le (live_keys n))"
    using get_each_mid [of "?h @ gap" 64 "map i64_to_le (live_keys n)" 8 "unused @ ?ch @ rest"] gap lk by simp
  have "length ?k = 8 * ?c" using length_concat_const [of "map i64_to_le (live_keys n)" 8] lk by simp
  then have cs: "get_each 4 320 (?c + 1) (?h @ gap @ ?k @ unused @ ?ch @ rest) = Inr (map (le_bytes 4) (live_children n))"
    using get_each_mid [of "?h @ gap @ ?k @ unused" 320 "map (le_bytes 4) (live_children n)" 4 rest] gap unused lc c by simp
  have "map (le_nat \<circ> le_bytes 4) (live_children n) = live_children n"
    using assms(1) by (intro map_idI) (auto simp: opt_fields_ok_def live_children_def le_nat_le_bytes_id dest: in_set_takeD)
  moreover have "map (i64_from_le \<circ> i64_to_le) (live_keys n) = live_keys n" by (simp add: comp_def)
  ultimately have "opt_deserialize (?h @ gap @ ?k @ unused @ ?ch @ rest) =
      Inr \<lparr>on_header = on_header n, on_keys = live_keys n @ replicate (32 - ?c) 0,
           on_children = live_children n @ replicate (32 - ?c) 0, on_data_area = replicate data_area_size 0\<rparr>"
    using hd ks cs c by (simp add: opt_deserialize_def OPTIMIZED_BTREE_ORDER_def opt_count_def)
  with ser lk lc show ?thesis by (auto simp: live_keys_def live_children_def opt_count_def)
qed

section \<open>Witnesses\<close>

definition sample_node :: opt_node where
  "sample_node = \<lparr>on_header = opt_header_leaf\<lparr>oh_num_keys := 9\<rparr>,
     on_keys = map (\<lambda>i. word_of_int (10 * int i)) [0..<9] @ replicate 23 0,
     on_children = [0..<10] @ replicate 23 0, on_data_area = []\<rparr>"

lemma sample_node_ok: "opt_fields_ok sample_node" "live_keys sample_node = [0, 10, 20, 30, 40, 50, 60, 70, 80]"
  "ascending_keys (live_keys sample_node)" "opt_count sample_node = 9"
  by (simp_all add: sample_node_def opt_fields_ok_def opt_ok_def opt_header_leaf_def opt_count_def OPTIMIZED_BTREE_ORDER_def
      live_keys_def ascending_keys_def upt_rec)

theorem search_key_exact_witness: "search_key True 55 sample_node = Inr (Missing 6)"
  using search_key_exact [of sample_node True 55] sample_node_ok by (simp add: opt_fields_ok_def place_def)

theorem insert_at_place_witness:
  "\<exists>n'. insert_internal 55 3 4 6 sample_node = (Inr (), n') \<and> ascending_keys (live_keys n')"
proof -
  have "search_key True 55 sample_node = Inr (Missing 6)" by code_simp
  with insert_at_place [of sample_node True 55 6 3 4] sample_node_ok show ?thesis
    by (auto simp: opt_fields_ok_def OPTIMIZED_BTREE_ORDER_def)
qed

theorem opt_node_roundtrip_witness:
  "\<exists>page' n'. opt_serialize sample_node (replicate page_size 0) = Inr page' \<and> opt_deserialize page' = Inr n'
     \<and> live_keys n' = [0, 10, 20, 30, 40, 50, 60, 70, 80]"
  using opt_node_roundtrip [of sample_node "replicate page_size 0"] sample_node_ok by auto

end
