(* ===== verification/AsyncIo.thy ===== *)
theory AsyncIo
  imports Pager
begin

text \<open>
  The asynchronous storage layer, \<open>src/async_io.rs\<close>: the trait \<open>AsyncVfs\<close> as a record of operations, the
  file-backed \<open>TokioVfs\<close>, the write-through page cache on any such system, the pager in front of it and the
  batch executor.

  A call is one step. The handles of a file that \<open>get_file\<close> clones share one cursor, which is part of the
  state of \<open>TokioVfs\<close>; seeking and reading are steps of their own, so that calls of several tasks can be interleaved.
  \<open>fails = Some n\<close> says that the next write stops with an error after \<open>n\<close> bytes; other accesses to the open file succeed.
  The order in which the concurrent map lists its entries is the argument \<open>pick\<close>; the eviction loop is the one of the
  synchronous pager.
\<close>

section \<open>The trait\<close>

record 'v async_vfs =
  av_read :: "nat \<Rightarrow> ('v, bytes) op"
  av_write :: "nat \<Rightarrow> bytes \<Rightarrow> ('v, unit) op"
  av_alloc :: "('v, nat) op"
  av_flush :: "('v, unit) op"
  av_num_pages :: "'v \<Rightarrow> nat"
  av_sync :: "('v, unit) op"

section \<open>The file system\<close>

record tokio_vfs =
  tv_file :: bytes
  tv_pos :: nat
  tv_pages :: nat

definition tokio_new :: "bytes \<Rightarrow> tokio_vfs" where
  "tokio_new f = \<lparr>tv_file = f, tv_pos = 0,
     tv_pages = (if length f = 0 then 0 else (length f + page_size - 1) div page_size)\<rparr>"

definition tokio_seek :: "nat \<Rightarrow> tokio_vfs \<Rightarrow> tokio_vfs" where
  "tokio_seek off s = s\<lparr>tv_pos := off\<rparr>"

definition tokio_read_exact :: "(tokio_vfs, bytes) op" where
  "tokio_read_exact s =
     (if tv_pos s + page_size \<le> length (tv_file s)
      then (Inr (take page_size (drop (tv_pos s) (tv_file s))), s\<lparr>tv_pos := tv_pos s + page_size\<rparr>)
      else (Inl (Error Io), s))"

definition tokio_write_all :: "nat option \<Rightarrow> bytes \<Rightarrow> (tokio_vfs, unit) op" where
  "tokio_write_all fails bs s =
     (let written = (case fails of None \<Rightarrow> bs | Some n \<Rightarrow> take n bs);
          s1 = s\<lparr>tv_file := write_at (tv_pos s) written (tv_file s), tv_pos := tv_pos s + length written\<rparr>
      in (if fails = None then Inr () else Inl (Error Io), s1))"

definition tokio_read_page :: "nat \<Rightarrow> (tokio_vfs, bytes) op" where
  "tokio_read_page page_id s =
     (if tv_pages s \<le> page_id then (Inl (Error NotFound), s)
      else tokio_read_exact (tokio_seek (page_id * page_size) s))"

definition tokio_write_page :: "nat option \<Rightarrow> nat \<Rightarrow> bytes \<Rightarrow> (tokio_vfs, unit) op" where
  "tokio_write_page fails page_id page s =
     mbind (tokio_write_all fails page) (\<lambda>_ s1.
       (Inr (), if tv_pages s1 \<le> page_id then s1\<lparr>tv_pages := page_id + 1\<rparr> else s1))
     (tokio_seek (page_id * page_size) s)"

definition tokio_allocate_page :: "nat option \<Rightarrow> (tokio_vfs, nat) op" where
  "tokio_allocate_page fails s =
     (let page_id = tv_pages s in
      mbind (tokio_write_page fails page_id (replicate page_size 0)) (\<lambda>_. mret page_id) (s\<lparr>tv_pages := page_id + 1\<rparr>))"

definition tokio_ops :: "nat option \<Rightarrow> tokio_vfs async_vfs" where
  "tokio_ops fails = \<lparr>av_read = tokio_read_page, av_write = tokio_write_page fails, av_alloc = tokio_allocate_page fails,
     av_flush = mret (), av_num_pages = tv_pages, av_sync = mret ()\<rparr>"

section \<open>The cache\<close>

record 'v page_cache =
  ac_cache :: "(nat, bytes) fmap"
  ac_capacity :: nat
  ac_size :: nat
  ac_vfs :: 'v

definition async_cache_new :: "nat \<Rightarrow> 'v \<Rightarrow> 'v page_cache" where
  "async_cache_new capacity v = \<lparr>ac_cache = fmempty, ac_capacity = capacity, ac_size = 0, ac_vfs = v\<rparr>"

definition on_vfs :: "('v, 'a) op \<Rightarrow> ('v page_cache, 'a) op" where
  "on_vfs m c = (case m (ac_vfs c) of (r, v) \<Rightarrow> (r, c\<lparr>ac_vfs := v\<rparr>))"

definition async_cache_insert :: "((nat, bytes) fmap \<Rightarrow> nat option) \<Rightarrow> nat option \<Rightarrow> nat \<Rightarrow> bytes \<Rightarrow> 'v page_cache \<Rightarrow> 'v page_cache" where
  "async_cache_insert pick keep page_id page c =
     (case cache_insert page_id page (evict_until pick keep (ac_capacity c) (ac_cache c, ac_size c)) of (pages, n) \<Rightarrow>
        c\<lparr>ac_cache := pages, ac_size := n\<rparr>)"

definition cache_read_page :: "'v async_vfs \<Rightarrow> ((nat, bytes) fmap \<Rightarrow> nat option) \<Rightarrow> nat \<Rightarrow> ('v page_cache, bytes) op" where
  "cache_read_page V pick page_id c =
     (case fmlookup (ac_cache c) page_id of
        Some page \<Rightarrow> (Inr page, c)
      | None \<Rightarrow> mbind (on_vfs (av_read V page_id)) (\<lambda>page c. (Inr page, async_cache_insert pick None page_id page c)) c)"

definition cache_write_page :: "'v async_vfs \<Rightarrow> ((nat, bytes) fmap \<Rightarrow> nat option) \<Rightarrow> nat \<Rightarrow> bytes \<Rightarrow> ('v page_cache, unit) op" where
  "cache_write_page V pick page_id page =
     mbind (on_vfs (av_write V page_id page)) (\<lambda>_ c. (Inr (), async_cache_insert pick (Some page_id) page_id page c))"

definition cache_allocate_page :: "'v async_vfs \<Rightarrow> ('v page_cache, nat) op" where
  "cache_allocate_page V = on_vfs (av_alloc V)"

definition pager_flush :: "'v async_vfs \<Rightarrow> ('v page_cache, unit) op" where
  "pager_flush V = mbind (on_vfs (av_flush V)) (\<lambda>_. on_vfs (av_sync V))"

definition cache_stats :: "'v page_cache \<Rightarrow> nat \<times> nat" where
  "cache_stats c = (fcard (fmdom (ac_cache c)), ac_capacity c)"

section \<open>Batches\<close>

datatype io_request = IoRead nat | IoWrite nat bytes

fun run_request :: "'v async_vfs \<Rightarrow> ((nat, bytes) fmap \<Rightarrow> nat option) \<Rightarrow> io_request \<Rightarrow> ('v page_cache, nat \<times> bytes) op" where
  "run_request V pick (IoRead page_id) = mbind (cache_read_page V pick page_id) (\<lambda>page. mret (page_id, page))"
| "run_request V pick (IoWrite page_id page) = mbind (cache_write_page V pick page_id page) (\<lambda>_. mret (page_id, page))"

text \<open>The spawned tasks run in the order \<open>sched\<close>, the indices of the requests; their results are awaited in request order.\<close>

fun run_tasks :: "'v async_vfs \<Rightarrow> ((nat, bytes) fmap \<Rightarrow> nat option) \<Rightarrow> io_request list \<Rightarrow> nat list \<Rightarrow> 'v page_cache \<Rightarrow>
    (nat \<rightharpoonup> (nat \<times> bytes) result) \<times> 'v page_cache" where
  "run_tasks V pick rqs [] c = (Map.empty, c)"
| "run_tasks V pick rqs (i # is) c =
     (case run_request V pick (rqs ! i) c of (r, c1) \<Rightarrow>
        case run_tasks V pick rqs is c1 of (rs, c2) \<Rightarrow> (rs(i \<mapsto> r), c2))"

fun collect_results :: "(nat \<times> bytes) result list \<Rightarrow> (nat, bytes) fmap \<Rightarrow> (nat, bytes) fmap result" where
  "collect_results [] m = Inr m"
| "collect_results (r # rs) m = rbind r (\<lambda>(page_id, page). collect_results rs (fmupd page_id page m))"

definition execute_batch :: "'v async_vfs \<Rightarrow> ((nat, bytes) fmap \<Rightarrow> nat option) \<Rightarrow> nat list \<Rightarrow> io_request list \<Rightarrow>
    ('v page_cache, (nat, bytes) fmap) op" where
  "execute_batch V pick sched rqs c =
     (case run_tasks V pick rqs sched c of (rs, c1) \<Rightarrow>
        (collect_results (map (\<lambda>i. case rs i of None \<Rightarrow> Inl (Error IoError) | Some r \<Rightarrow> r) [0..<length rqs]) fmempty, c1))"

definition read_batch :: "'v async_vfs \<Rightarrow> ((nat, bytes) fmap \<Rightarrow> nat option) \<Rightarrow> nat list \<Rightarrow> nat list \<Rightarrow> ('v page_cache, (nat, bytes) fmap) op" where
  "read_batch V pick sched page_ids = execute_batch V pick sched (map IoRead page_ids)"

end
