(* ===== verification/AsyncTheorems.thy ===== *)
theory AsyncTheorems
  imports AsyncIo PagerOps
begin

text \<open>
  The asynchronous page cache. The locale states what the cache relies on of an \<open>AsyncVfs\<close>; inside it the cache
  is shown to answer as the pages below it. The file system meets the contract as long as writes succeed.
\<close>

section \<open>The contract of the trait\<close>

locale vfs_contract =
  fixes V :: "'v async_vfs" and inv :: "'v \<Rightarrow> bool" and view :: "'v \<Rightarrow> nat \<Rightarrow> bytes option"
  assumes read_present: "inv s \<Longrightarrow> view s pid = Some page \<Longrightarrow> \<exists>s'. av_read V pid s = (Inr page, s') \<and> inv s' \<and> view s' = view s"
    and read_absent: "inv s \<Longrightarrow> view s pid = None \<Longrightarrow> \<exists>s'. av_read V pid s = (Inl (Error NotFound), s') \<and> inv s' \<and> view s' = view s"
    and write_done: "inv s \<Longrightarrow> length page = page_size \<Longrightarrow> view s pid \<noteq> None \<Longrightarrow>
      \<exists>s'. av_write V pid page s = (Inr (), s') \<and> inv s' \<and> view s' pid = Some page \<and> (\<forall>q. q \<noteq> pid \<longrightarrow> view s q \<noteq> None \<longrightarrow> view s' q = view s q)"
    and alloc_done: "inv s \<Longrightarrow>
      \<exists>pid s'. av_alloc V s = (Inr pid, s') \<and> inv s' \<and> view s pid = None \<and> view s' pid = Some (replicate page_size 0)
        \<and> (\<forall>q. q \<noteq> pid \<longrightarrow> view s' q = view s q)"
begin

text \<open>A cache is coherent when the pages it holds are those below it.\<close>

definition coherent :: "'v page_cache \<Rightarrow> bool" where
  "coherent c \<longleftrightarrow> inv (ac_vfs c) \<and> cache_ok (view (ac_vfs c)) (ac_cache c) \<and> ac_size c = fcard (fmdom (ac_cache c))"

abbreviation pages :: "'v page_cache \<Rightarrow> nat \<Rightarrow> bytes option" where
  "pages c \<equiv> view (ac_vfs c)"

lemma coherent_insert:
  assumes "inv (ac_vfs c)" and "cache_ok (pages c) (fst (evict_until pick keep (ac_capacity c) (ac_cache c, ac_size c)))"
    and "ac_size c = fcard (fmdom (ac_cache c))" and "pages c pid = Some page"
  shows "coherent (async_cache_insert pick keep pid page c)" and "pages (async_cache_insert pick keep pid page c) = pages c"
  using assms cache_insert_ok [OF assms(2, 4)] cache_insert_size [OF evict_until_size, of "(ac_cache c, ac_size c)"]
  by (simp_all add: async_cache_insert_def coherent_def split_beta)

lemma cache_read_present:
  assumes "coherent c" and "pages c pid = Some page"
  shows "\<exists>c'. cache_read_page V pick pid c = (Inr page, c') \<and> coherent c' \<and> pages c' = pages c"
proof (cases "fmlookup (ac_cache c) pid")
  case None
  obtain v where v: "av_read V pid (ac_vfs c) = (Inr page, v)" "inv v" "view v = pages c"
    using read_present [of "ac_vfs c" pid page] assms by (auto simp: coherent_def)
  let ?c = "c\<lparr>ac_vfs := v\<rparr>"
  have "cache_ok (pages ?c) (fst (evict_until pick None (ac_capacity ?c) (ac_cache ?c, ac_size ?c)))"
    using assms(1) v(3) by (intro evict_until_ok) (simp add: coherent_def)
  then have "coherent (async_cache_insert pick None pid page ?c)" "pages (async_cache_insert pick None pid page ?c) = pages ?c"
    using coherent_insert [of ?c] assms v by (simp_all add: coherent_def)
  with None v show ?thesis by (simp add: cache_read_page_def on_vfs_def mbind_def)
next
  case (Some x)
  with assms show ?thesis by (simp add: cache_read_page_def coherent_def cache_ok_def)
qed

lemma cache_read_absent:
  assumes "coherent c" and "pages c pid = None"
  shows "\<exists>c'. cache_read_page V pick pid c = (Inl (Error NotFound), c') \<and> coherent c' \<and> pages c' = pages c"
proof -
  have "fmlookup (ac_cache c) pid = None" using assms by (cases "fmlookup (ac_cache c) pid") (auto simp: coherent_def cache_ok_def)
  moreover obtain v where "av_read V pid (ac_vfs c) = (Inl (Error NotFound), v)" "inv v" "view v = pages c"
    using read_absent [of "ac_vfs c" pid] assms by (auto simp: coherent_def)
  ultimately show ?thesis using assms by (simp add: cache_read_page_def on_vfs_def mbind_def coherent_def)
qed

lemma cache_write_step:
  assumes "coherent c" and v: "av_write V pid page (ac_vfs c) = (Inr (), v)" "inv v" "view v pid = Some page"
    "\<forall>q. q \<noteq> pid \<longrightarrow> pages c q \<noteq> None \<longrightarrow> view v q = pages c q"
  shows "\<exists>c'. cache_write_page V pick pid page c = (Inr (), c') \<and> coherent c' \<and> pages c' pid = Some page
    \<and> (\<forall>q. q \<noteq> pid \<longrightarrow> pages c q \<noteq> None \<longrightarrow> pages c' q = pages c q)"
proof -
  let ?c = "c\<lparr>ac_vfs := v\<rparr>" and ?e = "evict_until pick (Some pid) (ac_capacity c) (ac_cache c, ac_size c)"
  have keep: "view v q = Some x" if "fmlookup (fst ?e) q = Some x" "q \<noteq> pid" for q x
    using evict_until_sub [OF that(1)] assms(1) v(4) that(2) by (auto simp: coherent_def cache_ok_def)
  have "cache_ok (view v) (fst (cache_insert pid page ?e))"
    using keep v(3) by (auto simp: cache_ok_def cache_insert_def)
  moreover have "snd (cache_insert pid page ?e) = fcard (fmdom (fst (cache_insert pid page ?e)))"
    using assms(1) by (intro cache_insert_size evict_until_size) (simp add: coherent_def)
  ultimately have "coherent (async_cache_insert pick (Some pid) pid page ?c)" "pages (async_cache_insert pick (Some pid) pid page ?c) = view v"
    using v(2) by (simp_all add: async_cache_insert_def coherent_def split_beta)
  with v show ?thesis by (simp add: cache_write_page_def on_vfs_def mbind_def)
qed

lemma cache_write_done:
  assumes "coherent c" and "length page = page_size" and "pages c pid \<noteq> None"
  shows "\<exists>c'. cache_write_page V pick pid page c = (Inr (), c') \<and> coherent c' \<and> pages c' pid = Some page
    \<and> (\<forall>q. q \<noteq> pid \<longrightarrow> pages c q \<noteq> None \<longrightarrow> pages c' q = pages c q)"
  using write_done [of "ac_vfs c" page pid] assms cache_write_step [OF assms(1)] by (auto simp: coherent_def)

lemma cache_alloc_done:
  assumes "coherent c"
  shows "\<exists>pid c'. cache_allocate_page V c = (Inr pid, c') \<and> coherent c' \<and> pages c pid = None
    \<and> pages c' pid = Some (replicate page_size 0) \<and> (\<forall>q. q \<noteq> pid \<longrightarrow> pages c' q = pages c q)"
proof -
  obtain pid v where v: "av_alloc V (ac_vfs c) = (Inr pid, v)" "inv v" "pages c pid = None" "view v pid = Some (replicate page_size 0)"
    "\<forall>q. q \<noteq> pid \<longrightarrow> view v q = pages c q"
    using alloc_done [of "ac_vfs c"] assms by (auto simp: coherent_def)
  have "cache_ok (view v) (ac_cache c)"
    unfolding cache_ok_def
  proof (intro allI impI)
    fix q x
    assume "fmlookup (ac_cache c) q = Some x"
    with assms have "pages c q = Some x" by (simp add: coherent_def cache_ok_def)
    with v(3, 5) show "view v q = Some x" by (cases "q = pid") simp_all
  qed
  with v assms show ?thesis by (simp add: cache_allocate_page_def on_vfs_def coherent_def)
qed

end

text \<open>A file system that also takes pages behind the end.\<close>

locale vfs_extending = vfs_contract +
  assumes write_new: "inv s \<Longrightarrow> length page = page_size \<Longrightarrow> view s pid = None \<Longrightarrow>
      \<exists>s'. av_write V pid page s = (Inr (), s') \<and> inv s' \<and> view s' pid = Some page \<and> (\<forall>q. q \<noteq> pid \<longrightarrow> view s q \<noteq> None \<longrightarrow> view s' q = view s q)"
begin

lemma cache_write_any:
  assumes "coherent c" and "length page = page_size"
  shows "\<exists>c'. cache_write_page V pick pid page c = (Inr (), c') \<and> coherent c' \<and> pages c' pid = Some page
    \<and> (\<forall>q. q \<noteq> pid \<longrightarrow> pages c q \<noteq> None \<longrightarrow> pages c' q = pages c q)"
proof (cases "pages c pid = None")
  case True
  with write_new [of "ac_vfs c" page pid] assms cache_write_step [OF assms(1)] show ?thesis by (auto simp: coherent_def)
next
  case False
  with assms show ?thesis by (rule cache_write_done)
qed

end

section \<open>The file system meets it\<close>

definition tokio_inv :: "tokio_vfs \<Rightarrow> bool" where
  "tokio_inv s \<longleftrightarrow> length (tv_file s) = tv_pages s * page_size"

definition tokio_view :: "tokio_vfs \<Rightarrow> nat \<Rightarrow> bytes option" where
  "tokio_view s = file_page (tv_file s)"

lemma page_fits: "pid * page_size + page_size \<le> n * page_size \<longleftrightarrow> pid < n"
proof -
  have "pid * page_size + page_size = Suc pid * page_size" by simp
  then show ?thesis by (simp only: mult_le_cancel2 page_size_pos) auto
qed

lemma tokio_view_at: "tokio_inv s \<Longrightarrow> tokio_view s pid =
    (if pid < tv_pages s then Some (take page_size (drop (pid * page_size) (tv_file s))) else None)"
  by (simp add: tokio_inv_def tokio_view_def file_page_def page_fits)

lemma tokio_read_present:
  assumes "tokio_inv s" and "tokio_view s pid = Some page"
  shows "\<exists>s'. tokio_read_page pid s = (Inr page, s') \<and> tokio_inv s' \<and> tokio_view s' = tokio_view s"
proof -
  have pid: "pid < tv_pages s" "page = take page_size (drop (pid * page_size) (tv_file s))"
    using assms by (auto simp: tokio_view_at split: if_splits)
  then have "tokio_read_page pid s = (Inr page, s\<lparr>tv_pos := pid * page_size + page_size\<rparr>)"
    using assms(1) by (simp add: tokio_read_page_def tokio_read_exact_def tokio_seek_def tokio_inv_def page_fits)
  then show ?thesis using assms(1) by (simp add: tokio_inv_def tokio_view_def)
qed

lemma tokio_read_absent:
  assumes "tokio_inv s" and "tokio_view s pid = None"
  shows "\<exists>s'. tokio_read_page pid s = (Inl (Error NotFound), s') \<and> tokio_inv s' \<and> tokio_view s' = tokio_view s"
  using assms by (auto simp: tokio_view_at tokio_read_page_def split: if_splits)

lemma tokio_write_done:
  assumes "length (tv_file s) = m * page_size" and "m \<le> tv_pages s" and "tv_pages s \<le> max m (Suc pid)" and "length page = page_size"
  shows "\<exists>s'. tokio_write_page None pid page s = (Inr (), s') \<and> tokio_inv s' \<and> tokio_view s' pid = Some page
    \<and> (\<forall>q. q \<noteq> pid \<longrightarrow> tokio_view s q \<noteq> None \<longrightarrow> tokio_view s' q = tokio_view s q)"
proof -
  let ?f = "write_at (pid * page_size) page (tv_file s)"
  let ?n = "if tv_pages s \<le> pid then pid + 1 else tv_pages s"
  let ?s = "\<lparr>tv_file = ?f, tv_pos = pid * page_size + page_size, tv_pages = ?n\<rparr>"
  have w: "tokio_write_page None pid page s = (Inr (), ?s)"
    using assms(4) by (simp add: tokio_write_page_def tokio_write_all_def tokio_seek_def mbind_def)
  have "length ?f = max m (Suc pid) * page_size" using assms(1, 4) by (simp add: length_write_at nat_mult_max_left add.commute)
  moreover have "?n = max m (Suc pid)" using assms(2, 3) by (auto simp: max_def split: if_splits)
  ultimately have "length ?f = ?n * page_size" by simp
  then have "tokio_inv ?s" by (simp add: tokio_inv_def)
  moreover have "tokio_view ?s pid = Some page" using assms(4) by (simp add: tokio_view_def file_page_write_same)
  moreover have "tokio_view ?s q = tokio_view s q" if "q \<noteq> pid" "tokio_view s q \<noteq> None" for q
    using that file_page_write_other [of q pid page "tv_file s"] assms(4) by (auto simp: tokio_view_def)
  ultimately show ?thesis using w by blast
qed

lemma tokio_alloc_done:
  assumes "tokio_inv s"
  shows "\<exists>pid s'. tokio_allocate_page None s = (Inr pid, s') \<and> tokio_inv s' \<and> tokio_view s pid = None
    \<and> tokio_view s' pid = Some (replicate page_size 0) \<and> (\<forall>q. q \<noteq> pid \<longrightarrow> tokio_view s' q = tokio_view s q)"
proof -
  let ?pid = "tv_pages s" and ?s = "s\<lparr>tv_pages := tv_pages s + 1\<rparr>"
  obtain s' where s': "tokio_write_page None ?pid (replicate page_size 0) ?s = (Inr (), s')" "tokio_inv s'"
    "tokio_view s' ?pid = Some (replicate page_size 0)" "\<forall>q. q \<noteq> ?pid \<longrightarrow> tokio_view ?s q \<noteq> None \<longrightarrow> tokio_view s' q = tokio_view ?s q"
    using tokio_write_done [of ?s "tv_pages s" ?pid "replicate page_size 0"] assms by (auto simp: tokio_inv_def)
  have "tv_pages s' = Suc ?pid" using s'(1) by (auto simp: tokio_write_page_def tokio_write_all_def tokio_seek_def mbind_def)
  have "tokio_view s' q = tokio_view s q" if "q \<noteq> ?pid" for q
  proof (cases "q < ?pid")
    case True
    with s'(4) that assms show ?thesis by (simp add: tokio_view_def tokio_inv_def file_page_def page_fits)
  next
    case False
    with that have "\<not> q < Suc ?pid" by simp
    with False assms s'(2) \<open>tv_pages s' = Suc ?pid\<close> show ?thesis by (simp add: tokio_view_at)
  qed
  moreover have "tokio_view s ?pid = None" using assms by (simp add: tokio_view_at)
  ultimately show ?thesis using s' by (simp add: tokio_allocate_page_def Let_def mbind_def)
qed

lemma tokio_write_any:
  assumes "tokio_inv s" and "length page = page_size"
  shows "\<exists>s'. tokio_write_page None pid page s = (Inr (), s') \<and> tokio_inv s' \<and> tokio_view s' pid = Some page
      \<and> (\<forall>q. q \<noteq> pid \<longrightarrow> tokio_view s q \<noteq> None \<longrightarrow> tokio_view s' q = tokio_view s q)"
  using tokio_write_done [of s "tv_pages s" pid page] assms by (simp add: tokio_inv_def)

interpretation tokio: vfs_extending "tokio_ops None" tokio_inv tokio_view
  by unfold_locales (simp_all add: tokio_ops_def tokio_read_present tokio_read_absent tokio_alloc_done tokio_write_any del: not_None_eq)

section \<open>Properties\<close>

definition cache_coherent :: "tokio_vfs page_cache \<Rightarrow> bool" where
  "cache_coherent = tokio.coherent"

lemma cache_coherent_new: "length f = n * page_size \<Longrightarrow> cache_coherent (async_cache_new capacity (tokio_new f))"
proof -
  assume "length f = n * page_size"
  moreover have "(n * page_size + page_size - 1) div page_size = n"
  proof -
    have "n * page_size + page_size - 1 = (page_size - 1) + n * page_size" using page_size_pos by linarith
    then show ?thesis by simp
  qed
  ultimately have "tokio_inv (tokio_new f)" by (simp add: tokio_inv_def tokio_new_def)
  then show ?thesis by (simp add: cache_coherent_def tokio.coherent_def async_cache_new_def cache_ok_def fcard_fempty)
qed

text \<open>
  C35: the asynchronous cache answers as the file. While writes to the file succeed, a coherent cache stays
  coherent; reading a page returns the page of the file, cached or not, and an error for a page behind the end; a
  write changes its page and no other; a new page is zero.
\<close>

theorem async_cache_refines:
  assumes "cache_coherent c"
  shows "(\<exists>c'. cache_read_page (tokio_ops None) pick pid c =
              ((case tokio_view (ac_vfs c) pid of None \<Rightarrow> Inl (Error NotFound) | Some page \<Rightarrow> Inr page), c')
            \<and> cache_coherent c' \<and> tokio_view (ac_vfs c') = tokio_view (ac_vfs c))
    \<and> (length page = page_size \<longrightarrow>
         (\<exists>c'. cache_write_page (tokio_ops None) pick pid page c = (Inr (), c') \<and> cache_coherent c'
            \<and> tokio_view (ac_vfs c') pid = Some page
            \<and> (\<forall>q. q \<noteq> pid \<longrightarrow> tokio_view (ac_vfs c) q \<noteq> None \<longrightarrow> tokio_view (ac_vfs c') q = tokio_view (ac_vfs c) q)))
    \<and> (\<exists>new c'. cache_allocate_page (tokio_ops None) c = (Inr new, c') \<and> cache_coherent c'
            \<and> tokio_view (ac_vfs c) new = None \<and> tokio_view (ac_vfs c') new = Some (replicate page_size 0)
            \<and> (\<forall>q. q \<noteq> new \<longrightarrow> tokio_view (ac_vfs c') q = tokio_view (ac_vfs c) q))"
  using tokio.cache_read_present [OF assms [unfolded cache_coherent_def]] tokio.cache_read_absent [OF assms [unfolded cache_coherent_def]]
    tokio.cache_write_any [OF assms [unfolded cache_coherent_def]] tokio.cache_alloc_done [OF assms [unfolded cache_coherent_def]]
  unfolding cache_coherent_def by (cases "tokio_view (ac_vfs c) pid") auto

text \<open>
  Two tasks share the cursor of the file: when another task seeks between the seek and the read of \<open>read_page\<close>, the
  task receives the other's page.
\<close>

lemma shared_cursor_race:
  assumes "tokio_inv s" and "b < tv_pages s"
  shows "fst (tokio_read_exact (tokio_seek (b * page_size) (tokio_seek (a * page_size) s))) = Inr (the (tokio_view s b))"
  using assms by (simp add: tokio_view_at tokio_read_exact_def tokio_seek_def tokio_inv_def page_fits)

theorem async_cache_refines_witness:
  "\<exists>c'. cache_write_page (tokio_ops None) (\<lambda>_. None) 0 (replicate page_size 1) (async_cache_new 4 (tokio_new [])) = (Inr (), c')
     \<and> tokio_view (ac_vfs c') 0 = Some (replicate page_size 1)"
  using async_cache_refines [OF cache_coherent_new [of "[]" 0 4], of "\<lambda>_. None" 0 "replicate page_size 1"] by auto

end
