(* ===== verification/Repl.thy ===== *)
theory Repl
  imports SqlText
begin

text \<open>
  The shell, \<open>src/main.rs\<close>: splitting input into statements, the dot commands, and the loop that reads a script
  line by line. What the shell prints is a list of \<open>shell_reply\<close> values; \<open>Shell\<close> holds their text, the
  command line and the interactive loop.
\<close>

section \<open>Statements in a buffer\<close>

definition cut_statement :: "string \<Rightarrow> string list" where
  "cut_statement current = (let s = trim current in if s = [] then [] else [s])"

fun split_loop :: "char option \<Rightarrow> string \<Rightarrow> string \<Rightarrow> string list" where
  "split_loop quote current [] = cut_statement current"
| "split_loop quote current (ch # s) =
     (case quote of
        Some q \<Rightarrow> split_loop (if ch = q then None else Some q) (current @ [ch]) s
      | None \<Rightarrow>
          if is_quote ch then split_loop (Some ch) (current @ [ch]) s
          else if ch = CHR '';'' then cut_statement current @ split_loop None [] s
          else split_loop None (current @ [ch]) s)"

definition split_statements :: "string \<Rightarrow> string list" where
  "split_statements buffer = split_loop None [] buffer"

fun complete_loop :: "char option \<Rightarrow> string \<Rightarrow> bool" where
  "complete_loop quote [] = False"
| "complete_loop quote (ch # s) =
     (case quote of
        Some q \<Rightarrow> complete_loop (if ch = q then None else Some q) s
      | None \<Rightarrow> if is_quote ch then complete_loop (Some ch) s else if ch = CHR '';'' then True else complete_loop None s)"

definition has_complete_statement :: "string \<Rightarrow> bool" where
  "has_complete_statement buffer = complete_loop None buffer"

section \<open>Commands\<close>

datatype shell_reply = Said string | Help | Listed "string list" | Answered query_result | Changed "change_event list" | Failed fault

definition tell :: "string \<Rightarrow> (database, unit) op \<Rightarrow> database \<Rightarrow> shell_reply list \<times> database" where
  "tell message m db = (case m db of (Inr _, db1) \<Rightarrow> ([Said message], db1) | (Inl e, db1) \<Rightarrow> ([Failed e], db1))"

definition run_sql :: "env \<Rightarrow> regex_ops \<Rightarrow> (string fset \<Rightarrow> string list) \<Rightarrow> string \<Rightarrow> database \<Rightarrow> shell_reply list \<times> database" where
  "run_sql en rx ord sql db =
     (if starts_with ''SELECT'' (to_uppercase sql)
      then case db_query en rx ord sql db of (Inr result, db1) \<Rightarrow> ([Answered result], db1) | (Inl e, db1) \<Rightarrow> ([Failed e], db1)
      else tell ''OK'' (db_execute en rx ord sql) db)"

fun run_sqls :: "env \<Rightarrow> regex_ops \<Rightarrow> (string fset \<Rightarrow> string list) \<Rightarrow> string list \<Rightarrow> database \<Rightarrow> shell_reply list \<times> database" where
  "run_sqls en rx ord [] db = ([], db)"
| "run_sqls en rx ord (sql # sqls) db =
     (case run_sql en rx ord sql db of (out, db1) \<Rightarrow>
        case run_sqls en rx ord sqls db1 of (out', db2) \<Rightarrow> (out @ out', db2))"

definition describe_reply :: "string \<Rightarrow> database \<Rightarrow> shell_reply" where
  "describe_reply t db = (case fst (describe_table t db) of Inr sql \<Rightarrow> Said (sql @ '';'') | Inl e \<Rightarrow> Failed e)"

definition table_names :: "env \<Rightarrow> database \<Rightarrow> string list" where
  "table_names en db = list_tables (en_order en) (ct_schema (db_catalog db))"

definition handle_meta_command :: "env \<Rightarrow> string \<Rightarrow> database \<Rightarrow> bool \<times> shell_reply list \<times> database" where
  "handle_meta_command en cmd db =
     (let verb_chars = takeWhile (\<lambda>c. \<not> is_whitespace c) (chars cmd);
          verb = to_lowercase (of_chars verb_chars);
          arg = trim (of_chars (drop (length verb_chars + 1) (chars cmd))) in
      if verb = ''exit'' \<or> verb = ''quit'' then (False, [Said ''Goodbye!''], snd (db_close en db))
      else if verb = ''help'' then (True, [Help], db)
      else if verb = ''tables'' then
        (True, [if table_names en db = [] then Said ''No tables.'' else Listed (table_names en db)], db)
      else if verb = ''schema'' then
        if arg = [] then
          (True, (if table_names en db = [] then [Said ''No tables.''] else []) @ map (\<lambda>t. describe_reply t db) (table_names en db), db)
        else (True, [describe_reply arg db], db)
      else if verb = ''cdc'' then
        if to_lowercase arg = ''on'' then (True, [Said ''Change Data Capture enabled.''], db\<lparr>db_cdc := cdc_enable (db_cdc db)\<rparr>)
        else if to_lowercase arg = ''off'' then (True, [Said ''Change Data Capture disabled.''], db\<lparr>db_cdc := cdc_disable (db_cdc db)\<rparr>)
        else if arg = [] then (True, [Said (if cdc_enabled (db_cdc db) then ''Change Data Capture is on.'' else ''Change Data Capture is off.'')], db)
        else (True, [Said (''Usage: .cdc [on|off] (got '' @ [CHR 0x27] @ to_lowercase arg @ [CHR 0x27] @ '')'')], db)
      else if verb = ''changes'' then
        let since = (case parse_unsigned 64 arg of Some n \<Rightarrow> n | None \<Rightarrow> 0); events = changes_since since (db_cdc db) in
        (True, [if events = [] then Said (''No changes captured (is CDC on? try '' @ [CHR 0x27] @ ''.cdc on'' @ [CHR 0x27] @ '').'') else Changed events], db)
      else (True, [Said (''Unknown meta command: .'' @ verb)], db))"

definition process_command ::
    "env \<Rightarrow> regex_ops \<Rightarrow> (string fset \<Rightarrow> string list) \<Rightarrow> string \<Rightarrow> database \<Rightarrow> bool \<times> shell_reply list \<times> database" where
  "process_command en rx ord input db =
     (let trimmed = trim input; lower = to_lowercase trimmed in
      if trimmed = [] then (True, [], db)
      else case strip_prefix ''.'' trimmed of
        Some rest \<Rightarrow> handle_meta_command en (trim rest) db
      | None \<Rightarrow>
          if lower = ''exit'' \<or> lower = ''quit'' then handle_meta_command en ''exit'' db
          else if lower = ''help'' then handle_meta_command en ''help'' db
          else if lower = ''begin'' \<or> lower = ''begin transaction'' then (True, tell ''Transaction started.'' (db_begin en) db)
          else if lower = ''commit'' \<or> lower = ''commit transaction'' then (True, tell ''Transaction committed.'' (db_commit en) db)
          else if lower = ''rollback'' \<or> lower = ''rollback transaction'' then (True, tell ''Transaction rolled back.'' (db_rollback en) db)
          else (True, run_sqls en rx ord (split_statements trimmed) db))"

section \<open>Scripts\<close>

text \<open>The loop over the lines of a script: the buffer holds the lines of a statement that is not complete.\<close>

fun script_loop :: "env \<Rightarrow> regex_ops \<Rightarrow> (string fset \<Rightarrow> string list) \<Rightarrow> string \<Rightarrow> string list \<Rightarrow> database \<Rightarrow> shell_reply list \<times> string \<times> database" where
  "script_loop en rx ord sql_buf [] db = ([], sql_buf, db)"
| "script_loop en rx ord sql_buf (line # ls) db =
     (let trimmed = trim line in
      if trimmed = [] then script_loop en rx ord sql_buf ls db
      else if sql_buf = [] \<and> starts_with ''.'' trimmed then
        (case process_command en rx ord trimmed db of (continue, out, db1) \<Rightarrow>
           if \<not> continue then (out, sql_buf, db1)
           else case script_loop en rx ord sql_buf ls db1 of (out', buf, db2) \<Rightarrow> (out @ out', buf, db2))
      else
        let buf = (if sql_buf = [] then [] else sql_buf @ [CHR 0x0A]) @ line in
        if has_complete_statement buf then
          (case process_command en rx ord (trim buf) db of (continue, out, db1) \<Rightarrow>
             if \<not> continue then (out, [], db1)
             else case script_loop en rx ord [] ls db1 of (out', buf', db2) \<Rightarrow> (out @ out', buf', db2))
        else script_loop en rx ord buf ls db)"

definition run_script :: "env \<Rightarrow> regex_ops \<Rightarrow> (string fset \<Rightarrow> string list) \<Rightarrow> string list \<Rightarrow> database \<Rightarrow> shell_reply list \<times> database" where
  "run_script en rx ord ls db =
     (case script_loop en rx ord [] ls db of (out, buf, db1) \<Rightarrow>
        case (if trim buf = [] then (True, [], db1) else process_command en rx ord (trim buf) db1) of
          (_, out', db2) \<Rightarrow> (out @ out', snd (db_close en db2)))"

section \<open>Splitting is exact\<close>

text \<open>The open quote after a text, or \<open>None\<close> when a semicolon stands outside quotes.\<close>

fun quotes_after :: "char option \<Rightarrow> string \<Rightarrow> char option option" where
  "quotes_after quote [] = Some quote"
| "quotes_after quote (ch # s) =
     (case quote of
        Some q \<Rightarrow> quotes_after (if ch = q then None else Some q) s
      | None \<Rightarrow> if is_quote ch then quotes_after (Some ch) s else if ch = CHR '';'' then None else quotes_after None s)"

lemma split_loop_statement:
  assumes "quotes_after quote s = Some None"
  shows "split_loop quote current (s @ '';'' @ rest) = cut_statement (current @ s) @ split_loop None [] rest"
  using assms
proof (induction s arbitrary: quote current)
  case (Cons ch s)
  show ?case
  proof (cases quote)
    case None
    with Cons.prems Cons.IH [of "Some ch" "current @ [ch]"] Cons.IH [of None "current @ [ch]"] show ?thesis
      by (cases "is_quote ch"; cases "ch = CHR '';''") simp_all
  next
    case (Some q)
    with Cons.prems Cons.IH [of "if ch = q then None else Some q" "current @ [ch]"] show ?thesis by simp
  qed
qed (simp_all add: is_quote_def)

lemma split_loop_last:
  assumes "quotes_after quote s \<noteq> None"
  shows "split_loop quote current s = cut_statement (current @ s)"
  using assms
proof (induction s arbitrary: quote current)
  case (Cons ch s)
  show ?case
  proof (cases quote)
    case None
    with Cons.prems Cons.IH [of "Some ch" "current @ [ch]"] Cons.IH [of None "current @ [ch]"] show ?thesis
      by (cases "is_quote ch"; cases "ch = CHR '';''") simp_all
  next
    case (Some q)
    with Cons.prems Cons.IH [of "if ch = q then None else Some q" "current @ [ch]"] show ?thesis by simp
  qed
qed (simp_all add: is_quote_def)

lemma complete_loop_iff: "complete_loop quote s \<longleftrightarrow> quotes_after quote s = None"
  by (induction quote s rule: quotes_after.induct) (auto split: option.splits)


text \<open>The shell does not know the escapes of the parser: a backslash before a quote does not keep the literal open.\<close>

lemma escaped_quote_splits:
  "split_statements [CHR 0x27, CHR 0x5C, CHR 0x27, CHR '';'', CHR 0x27] =
     cut_statement [CHR 0x27, CHR 0x5C, CHR 0x27] @ cut_statement [CHR 0x27]"
  using split_loop_statement [of None "[CHR 0x27, CHR 0x5C, CHR 0x27]" "[]" "[CHR 0x27]"] split_loop_last [of None "[CHR 0x27]" "[]"]
  by (simp add: split_statements_def is_quote_def)


end
