(* ===== verification/Shell.thy ===== *)
theory Shell
  imports Repl ParserTheorems
begin

text \<open>
  The rest of \<open>src/main.rs\<close>: the text the shell prints, its command line, and the interactive loop. The line
  editor is a third-party package: the loop runs over the list of what its \<open>readline\<close> returns. Floating-point
  numbers and error messages are printed by the functions of a \<open>display\<close> record; key bindings and
  loading and saving the history have no effect on the database.
\<close>

section \<open>Printing\<close>

definition show_i64 :: "i64 \<Rightarrow> string" where
  "show_i64 w = decimal_int (sint w)"

record display =
  show_f64 :: "f64 \<Rightarrow> string"
  show_f32 :: "f32 \<Rightarrow> string"
  show_fault :: "fault \<Rightarrow> string"

fun join_with :: "string \<Rightarrow> string list \<Rightarrow> string" where
  "join_with sep [] = []"
| "join_with sep [x] = x"
| "join_with sep (x # y # ys) = x @ sep @ join_with sep (y # ys)"

definition value_display :: "display \<Rightarrow> sql_value \<Rightarrow> string" where
  "value_display ds v =
     (case v of
        VNull \<Rightarrow> ''NULL''
      | VInteger i \<Rightarrow> show_i64 i
      | VFloat x \<Rightarrow> show_f64 ds x
      | VReal x \<Rightarrow> show_f64 ds x
      | VText s \<Rightarrow> s
      | VBlob b \<Rightarrow> ''<blob '' @ decimal (length b) @ '' bytes>''
      | VVector xs \<Rightarrow> ''['' @ join_with '','' (map (show_f32 ds) xs) @ '']'')"

definition print_query_result :: "display \<Rightarrow> query_result \<Rightarrow> string list" where
  "print_query_result ds r =
     join_with '' | '' (map col_name (qr_columns r))
     # join_with ''-+-'' (map (\<lambda>c. replicate (max (length (col_name c)) 10) (CHR ''-'')) (qr_columns r))
     # map (\<lambda>row. join_with '' | '' (map (value_display ds) row)) (qr_rows r)
     @ [[], decimal (length (qr_rows r)) @ '' row(s) returned'']"

definition op_display :: "change_op \<Rightarrow> string" where
  "op_display c = (case c of Cdc.Insert \<Rightarrow> ''INSERT'' | Cdc.Update \<Rightarrow> ''UPDATE'' | Cdc.Delete \<Rightarrow> ''DELETE'')"

definition print_change :: "change_event \<Rightarrow> string" where
  "print_change ev =
     ''#'' @ decimal (ev_seq ev) @ '' '' @ op_display (ch_op (ev_change ev)) @ '' '' @ ch_table (ev_change ev)
     @ '' rowid='' @ show_i64 (ch_rowid (ev_change ev))"

definition version_line :: string where
  "version_line = ''VelociDB v0.3.0''"

definition print_help :: "string list" where
  "print_help =
    [version_line,
     [],
     ''USAGE:'',
     ''    velocidb [OPTIONS] [DATABASE]'',
     [],
     ''OPTIONS:'',
     ''    -h, --help       Show this help message'',
     ''    -v, --version    Show version information'',
     ''    -d, --db <FILE>  Specify database file (alternative syntax)'',
     [],
     ''Meta commands (single-line):'',
     ''    .help              Show this help'',
     ''    .tables            List tables'',
     ''    .schema [name]     Show CREATE TABLE for one or all tables'',
     ''    .cdc [on|off]      Toggle / show Change Data Capture'',
     ''    .changes [seq]     Show captured changes after seq (default 0)'',
     ''    .exit              Exit the shell'',
     [],
     ''SQL (terminated by '' @ [CHR 0x27] @ '';'' @ [CHR 0x27] @ ''):'',
     ''    CREATE TABLE <name> (...)   -- vector columns: F32_BLOB(n) / VECTOR(n)'',
     ''    DROP TABLE <name>'',
     ''    ALTER TABLE <name> RENAME TO <new> | RENAME COLUMN a TO b'',
     ''                       | ADD COLUMN <col> <type> | DROP COLUMN <col>'',
     ''    INSERT INTO <table> [(cols)] VALUES (...)  -- vectors: vector32('' @ [CHR 0x27] @ ''[1,2,3]'' @ [CHR 0x27] @ '')'',
     ''    SELECT [* | cols | COUNT(*)] FROM <table>'',
     ''        [WHERE expr [AND expr ...]] [ORDER BY col [ASC|DESC]] [LIMIT n]'',
     ''    UPDATE <table> SET col = val [, ...] [WHERE ...]'',
     ''    DELETE FROM <table> [WHERE ...]'',
     ''    BEGIN | COMMIT | ROLLBACK'',
     [],
     ''Vector search (exact KNN, parallel):'',
     ''    CREATE TABLE docs (id INTEGER PRIMARY KEY, embedding F32_BLOB(3));'',
     ''    INSERT INTO docs VALUES (1, vector32('' @ [CHR 0x27] @ ''[1.0, 0.0, 0.0]'' @ [CHR 0x27] @ ''));'',
     ''    SELECT id, vector_distance_cos(embedding, vector32('' @ [CHR 0x27] @ ''[1,0,0]'' @ [CHR 0x27] @ '')) FROM docs'',
     ''        ORDER BY vector_distance_cos(embedding, vector32('' @ [CHR 0x27] @ ''[1,0,0]'' @ [CHR 0x27] @ '')) LIMIT 5;'']"

definition print_reply :: "display \<Rightarrow> shell_reply \<Rightarrow> string list" where
  "print_reply ds r =
     (case r of
        Said s \<Rightarrow> [s]
      | Help \<Rightarrow> print_help
      | Listed tables \<Rightarrow> ''Tables:'' # map (\<lambda>t. ''  '' @ t) tables
      | Answered result \<Rightarrow> print_query_result ds result
      | Changed events \<Rightarrow> map print_change events @ [decimal (length events) @ '' change(s)'']
      | Failed e \<Rightarrow> [''Error: '' @ show_fault ds e])"

section \<open>The command line\<close>

datatype shell_start = PrintHelp | PrintVersion | MissingFile | UnknownOption string | OpenFile string

fun parse_args :: "string \<Rightarrow> string list \<Rightarrow> shell_start" where
  "parse_args db_filename [] = OpenFile db_filename"
| "parse_args db_filename (arg # rest) =
     (if arg = ''--help'' \<or> arg = ''-h'' then PrintHelp
      else if arg = ''--version'' \<or> arg = ''-v'' then PrintVersion
      else if arg = ''--db'' \<or> arg = ''-d'' then
        (case rest of [] \<Rightarrow> MissingFile | name # rest' \<Rightarrow> parse_args name rest')
      else if starts_with ''-'' arg then UnknownOption arg
      else parse_args arg rest)"

definition path_join :: "string \<Rightarrow> string \<Rightarrow> string" where
  "path_join dir name = (if dir = [] then name else if ends_with ''/'' dir then dir @ name else dir @ ''/'' @ name)"

definition history_path :: "string option \<Rightarrow> string option \<Rightarrow> string option" where
  "history_path velocidb_history home =
     (case velocidb_history of
        Some p \<Rightarrow> Some p
      | None \<Rightarrow> map_option (\<lambda>dir. path_join dir ''.velocidb_history'') home)"

section \<open>The interactive loop\<close>

datatype read_event = Line string | Interrupted | Eof | ReadFailed

definition bare_words :: "string list" where
  "bare_words = [''exit'', ''quit'', ''help'', ''begin'', ''commit'', ''rollback'', ''begin transaction'', ''commit transaction'',
     ''rollback transaction'']"

definition said :: "shell_reply list \<Rightarrow> shell_reply list \<times> string \<times> database \<Rightarrow> shell_reply list \<times> string \<times> database" where
  "said out r = (out @ fst r, snd r)"

fun repl_loop ::
    "env \<Rightarrow> regex_ops \<Rightarrow> (string fset \<Rightarrow> string list) \<Rightarrow> string \<Rightarrow> read_event list \<Rightarrow> database \<Rightarrow> shell_reply list \<times> string \<times> database" where
  "repl_loop en rx ord buffer [] db = ([], buffer, db)"
| "repl_loop en rx ord buffer (Line line # events) db =
     (let line_trimmed = trim line in
      if buffer = [] \<and> (starts_with ''.'' line_trimmed \<or> to_lowercase line_trimmed \<in> set bare_words) then
        (case process_command en rx ord line_trimmed db of (continue, out, db1) \<Rightarrow>
           if continue then said out (repl_loop en rx ord buffer events db1) else (out, buffer, db1))
      else
        let buf = (if buffer = [] then [] else buffer @ [CHR 0x0A]) @ line in
        if has_complete_statement buf then
          (case process_command en rx ord (trim buf) db of (_, out, db1) \<Rightarrow> said out (repl_loop en rx ord [] events db1))
        else repl_loop en rx ord buf events db)"
| "repl_loop en rx ord buffer (Interrupted # events) db =
     said [Said (if buffer \<noteq> [] then ''(input cleared)'' else ''(Ctrl-D or .exit to quit)'')] (repl_loop en rx ord [] events db)"
| "repl_loop en rx ord buffer (Eof # events) db = ([Said [], Said ''Goodbye!''], buffer, db)"
| "repl_loop en rx ord buffer (ReadFailed # events) db = ([], buffer, db)"

definition run_interactive ::
    "env \<Rightarrow> regex_ops \<Rightarrow> (string fset \<Rightarrow> string list) \<Rightarrow> read_event list \<Rightarrow> database \<Rightarrow> shell_reply list \<times> database" where
  "run_interactive en rx ord events db =
     (case repl_loop en rx ord [] events db of (out, _, db1) \<Rightarrow> (out, snd (db_close en db1)))"

text \<open>\<open>str::lines\<close>: a final line feed ends the last line, and a carriage return before a line feed is dropped.\<close>

definition drop_cr :: "string \<Rightarrow> string" where
  "drop_cr s = (case strip_suffix [CHR 0x0D] s of Some t \<Rightarrow> t | None \<Rightarrow> s)"

definition str_lines :: "string \<Rightarrow> string list" where
  "str_lines s =
     (let ps = split_char (CHR 0x0A) s in map drop_cr (butlast ps) @ (if last ps = [] then [] else [last ps]))"

datatype shell_input = Piped "string option" | Terminal "read_event list"

definition shell_main ::
    "env \<Rightarrow> regex_ops \<Rightarrow> (string fset \<Rightarrow> string list) \<Rightarrow> (string \<Rightarrow> bytes \<times> bytes) \<Rightarrow> string list \<Rightarrow> shell_input
      \<Rightarrow> shell_reply list \<times> (database result) option" where
  "shell_main en rx ord files args input =
     (case parse_args ''veloci.db'' (drop 1 args) of
        PrintHelp \<Rightarrow> ([Help], None)
      | PrintVersion \<Rightarrow> ([Said version_line], None)
      | MissingFile \<Rightarrow> ([Said ''Error: --db/-d requires a filename argument''], None)
      | UnknownOption arg \<Rightarrow> ([Said (''Unknown option: '' @ arg)], None)
      | OpenFile db_filename \<Rightarrow>
          let banner = [Said version_line, Said (''Database: '' @ db_filename),
                Said (''Type '' @ [CHR 0x27] @ ''.help'' @ [CHR 0x27] @ '' for help, '' @ [CHR 0x27] @ ''.exit'' @ [CHR 0x27]
                  @ '' to quit. Statements end with '' @ [CHR 0x27] @ '';'' @ [CHR 0x27] @ ''.''), Said []] in
          (case open_database en (fst (files db_filename)) (snd (files db_filename)) of
             Inl e \<Rightarrow> (banner, Some (Inl e))
           | Inr db \<Rightarrow>
               (case (case input of
                        Piped None \<Rightarrow> ([], snd (db_close en db))
                      | Piped (Some buf) \<Rightarrow> run_script en rx ord (str_lines buf) db
                      | Terminal events \<Rightarrow> run_interactive en rx ord events db) of
                  (out, db1) \<Rightarrow> (banner @ out, Some (Inr db1)))))"

section \<open>A blank line hides the next command\<close>

lemma blank_line_hides_command:
  "repl_loop en rx ord [] (Line '' '' # Line ''.help'' # events) db = repl_loop en rx ord ('' '' @ [CHR 0x0A] @ ''.help'') events db"
proof -
  have "trim '' '' = []" "to_lowercase [] = []"
    by (simp_all add: trim_def trim_start_def trim_end_def chars_def of_chars_def is_whitespace_def to_lowercase_def)
  moreover have "\<not> has_complete_statement '' ''" "\<not> has_complete_statement ('' '' @ [CHR 0x0A] @ ''.help'')"
    by (simp_all add: has_complete_statement_def is_quote_def)
  ultimately show ?thesis by (simp add: starts_with_def bare_words_def)
qed

end
