(* ===== verification/Hybrid.thy ===== *)
theory Hybrid
  imports Simd "HOL-Library.Finite_Map"
begin

text \<open>
  Hybrid row and column storage, \<open>src/hybrid_storage.rs\<close>: rows by key, column projections that are materialised on
  demand and cached, and access statistics that suggest a layout. The order in which a hash map lists
  its entries is the argument \<open>ord\<close>.
\<close>

section \<open>Rows and columns\<close>

datatype storage_layout = RowMajor | ColumnMajor | HybridLayout

record row_record =
  rr_key :: i64
  rr_values :: row

definition row_size_bytes :: "row_record \<Rightarrow> nat" where
  "row_size_bytes r = 8 + sum_list (map size_bytes (rr_values r))"

record column_storage =
  co_name :: string
  co_data :: vector_column
  co_nulls :: "bool list"

definition column_new :: "string \<Rightarrow> column_storage" where
  "column_new name = \<lparr>co_name = name, co_data = VcNull 0, co_nulls = []\<rparr>"

definition nth_opt :: "'a list \<Rightarrow> nat \<Rightarrow> 'a option" where
  "nth_opt xs i = (if i < length xs then Some (xs ! i) else None)"

definition column_get :: "nat \<Rightarrow> column_storage \<Rightarrow> sql_value option" where
  "column_get i c =
     (if length (co_nulls c) \<le> i then None
      else if co_nulls c ! i then Some VNull
      else case co_data c of
        VcInteger xs \<Rightarrow> map_option VInteger (nth_opt xs i)
      | VcReal xs \<Rightarrow> map_option VReal (nth_opt xs i)
      | VcText xs \<Rightarrow> map_option VText (nth_opt xs i)
      | VcNull _ \<Rightarrow> Some VNull)"

text \<open>Writing at an index beyond the end pads first.\<close>

definition pad_to :: "nat \<Rightarrow> 'a \<Rightarrow> 'a list \<Rightarrow> 'a list" where
  "pad_to i x xs = xs @ replicate (Suc i - length xs) x"

definition column_set :: "nat \<Rightarrow> sql_value \<Rightarrow> (column_storage, unit) op" where
  "column_set i v c =
     (let c1 = c\<lparr>co_nulls := pad_to i False (co_nulls c)\<rparr>; present = (co_nulls c1)[i := False] in
      case v of
        VNull \<Rightarrow> (Inr (), c1\<lparr>co_nulls := (co_nulls c1)[i := True]\<rparr>)
      | VInteger x \<Rightarrow>
          (Inr (), case co_data c of VcInteger xs \<Rightarrow> c1\<lparr>co_data := VcInteger ((pad_to i 0 xs)[i := x]), co_nulls := present\<rparr> | _ \<Rightarrow> c1)
      | VReal x \<Rightarrow>
          (Inr (), case co_data c of VcReal xs \<Rightarrow> c1\<lparr>co_data := VcReal ((pad_to i 0 xs)[i := x]), co_nulls := present\<rparr> | _ \<Rightarrow> c1)
      | VText x \<Rightarrow>
          (Inr (), case co_data c of VcText xs \<Rightarrow> c1\<lparr>co_data := VcText ((pad_to i [] xs)[i := x]), co_nulls := present\<rparr> | _ \<Rightarrow> c1)
      | _ \<Rightarrow> (Inl (Error TypeMismatch), c1))"

section \<open>The table\<close>

record hybrid_stats =
  hs_inserts :: nat
  hs_row_accesses :: nat
  hs_column_accesses :: nat
  hs_full_scans :: nat

record hybrid_table =
  ht_name :: string
  ht_columns :: "column list"
  ht_rows :: "(i64, row_record) fmap"
  ht_projections :: "(string, column_storage) fmap"
  ht_layout :: storage_layout
  ht_stats :: hybrid_stats

definition hybrid_new :: "string \<Rightarrow> column list \<Rightarrow> storage_layout \<Rightarrow> hybrid_table" where
  "hybrid_new name cols layout = \<lparr>ht_name = name, ht_columns = cols, ht_rows = fmempty, ht_projections = fmempty, ht_layout = layout,
     ht_stats = \<lparr>hs_inserts = 0, hs_row_accesses = 0, hs_column_accesses = 0, hs_full_scans = 0\<rparr>\<rparr>"

definition hybrid_insert_row :: "i64 \<Rightarrow> row \<Rightarrow> hybrid_table \<Rightarrow> hybrid_table" where
  "hybrid_insert_row key vs t =
     (let t1 = t\<lparr>ht_rows := fmupd key \<lparr>rr_key = key, rr_values = vs\<rparr> (ht_rows t),
                ht_stats := (ht_stats t)\<lparr>hs_inserts := hs_inserts (ht_stats t) + 1\<rparr>\<rparr>
      in if ht_layout t = HybridLayout then t1\<lparr>ht_projections := fmempty\<rparr> else t1)"

definition get_row :: "i64 \<Rightarrow> hybrid_table \<Rightarrow> row_record option \<times> hybrid_table" where
  "get_row key t =
     (fmlookup (ht_rows t) key, t\<lparr>ht_stats := (ht_stats t)\<lparr>hs_row_accesses := hs_row_accesses (ht_stats t) + 1\<rparr>\<rparr>)"

definition row_values :: "(i64 fset \<Rightarrow> i64 list) \<Rightarrow> hybrid_table \<Rightarrow> row_record list" where
  "row_values ord t = List.map_filter (fmlookup (ht_rows t)) (ord (fmdom (ht_rows t)))"

definition scan_rows :: "(i64 fset \<Rightarrow> i64 list) \<Rightarrow> hybrid_table \<Rightarrow> row_record list \<times> hybrid_table" where
  "scan_rows ord t =
     (row_values ord t, t\<lparr>ht_stats := (ht_stats t)\<lparr>hs_full_scans := hs_full_scans (ht_stats t) + 1\<rparr>\<rparr>)"

definition rows_by_key :: "(i64 fset \<Rightarrow> i64 list) \<Rightarrow> hybrid_table \<Rightarrow> row_record list" where
  "rows_by_key ord t = sort_key (\<lambda>r. sint (rr_key r)) (row_values ord t)"

definition first_cell :: "nat \<Rightarrow> row_record list \<Rightarrow> sql_value option" where
  "first_cell i rows = Option.bind (List.find (\<lambda>r. i < length (rr_values r)) rows) (\<lambda>r. nth_opt (rr_values r) i)"

text \<open>The three loops that collect a column of one type; a cell of another type, NULL or no cell is null.\<close>

definition typed_cells :: "(sql_value \<Rightarrow> 'a option) \<Rightarrow> 'a \<Rightarrow> nat \<Rightarrow> row_record list \<Rightarrow> 'a list \<times> bool list" where
  "typed_cells unpack fill_value i rows =
     (let cells = map (\<lambda>r. Option.bind (nth_opt (rr_values r) i) unpack) rows in
      (map (\<lambda>c. case c of Some x \<Rightarrow> x | None \<Rightarrow> fill_value) cells, map (\<lambda>c. c = None) cells))"

fun unpack_integer :: "sql_value \<Rightarrow> i64 option" where
  "unpack_integer (VInteger x) = Some x"
| "unpack_integer _ = None"

fun unpack_real :: "sql_value \<Rightarrow> f64 option" where
  "unpack_real (VReal x) = Some x"
| "unpack_real _ = None"

fun unpack_text :: "sql_value \<Rightarrow> string option" where
  "unpack_text (VText x) = Some x"
| "unpack_text _ = None"

definition materialize :: "string \<Rightarrow> nat \<Rightarrow> row_record list \<Rightarrow> column_storage result" where
  "materialize name i rows =
     (case first_cell i rows of
        None \<Rightarrow> Inl (Error NotFound)
      | Some (VInteger _) \<Rightarrow> (case typed_cells unpack_integer 0 i rows of (xs, ns) \<Rightarrow> Inr \<lparr>co_name = name, co_data = VcInteger xs, co_nulls = ns\<rparr>)
      | Some (VReal _) \<Rightarrow> (case typed_cells unpack_real 0 i rows of (xs, ns) \<Rightarrow> Inr \<lparr>co_name = name, co_data = VcReal xs, co_nulls = ns\<rparr>)
      | Some (VText _) \<Rightarrow> (case typed_cells unpack_text [] i rows of (xs, ns) \<Rightarrow> Inr \<lparr>co_name = name, co_data = VcText xs, co_nulls = ns\<rparr>)
      | Some _ \<Rightarrow> Inl (Error TypeMismatch))"

fun column_position :: "string \<Rightarrow> column list \<Rightarrow> nat option" where
  "column_position name [] = None"
| "column_position name (c # cs) = (if col_name c = name then Some 0 else map_option Suc (column_position name cs))"

definition get_column_projection :: "(i64 fset \<Rightarrow> i64 list) \<Rightarrow> string \<Rightarrow> (hybrid_table, column_storage) op" where
  "get_column_projection ord name t =
     (let t1 = t\<lparr>ht_stats := (ht_stats t)\<lparr>hs_column_accesses := hs_column_accesses (ht_stats t) + 1\<rparr>\<rparr> in
      case fmlookup (ht_projections t1) name of
        Some c \<Rightarrow> (Inr c, t1)
      | None \<Rightarrow>
          (case column_position name (ht_columns t1) of
             None \<Rightarrow> (Inl (Error NotFound), t1)
           | Some i \<Rightarrow>
               (case materialize name i (rows_by_key ord t1) of
                  Inl e \<Rightarrow> (Inl e, t1)
                | Inr c \<Rightarrow> (Inr c, t1\<lparr>ht_projections := fmupd name c (ht_projections t1)\<rparr>))))"

fun get_vector_batch :: "(i64 fset \<Rightarrow> i64 list) \<Rightarrow> string list \<Rightarrow> vector_batch \<Rightarrow> (hybrid_table, vector_batch) op" where
  "get_vector_batch ord [] b = (\<lambda>t. (Inr (set_row_count (fcard (fmdom (ht_rows t))) b), t))"
| "get_vector_batch ord (name # names) b =
     mbind (get_column_projection ord name) (\<lambda>c. get_vector_batch ord names (add_column (co_data c) b))"

definition adaptive_layout :: "hybrid_table \<Rightarrow> storage_layout" where
  "adaptive_layout t =
     (let s = ht_stats t in
      if hs_row_accesses s * 2 < hs_column_accesses s then ColumnMajor
      else if hs_column_accesses s * 2 < hs_row_accesses s then RowMajor
      else HybridLayout)"

section \<open>Projections\<close>

inductive hybrid_step :: "(i64 fset \<Rightarrow> i64 list) \<Rightarrow> hybrid_table \<Rightarrow> hybrid_table \<Rightarrow> bool" for ord where
  hybrid_insert: "hybrid_step ord t (hybrid_insert_row key vs t)"
| hybrid_get: "hybrid_step ord t (snd (get_row key t))"
| hybrid_scan: "hybrid_step ord t (snd (scan_rows ord t))"
| hybrid_project: "hybrid_step ord t (snd (get_column_projection ord name t))"

inductive hybrid_reachable :: "(i64 fset \<Rightarrow> i64 list) \<Rightarrow> hybrid_table \<Rightarrow> bool" for ord where
  hybrid_start: "hybrid_reachable ord (hybrid_new name cols HybridLayout)"
| hybrid_next: "hybrid_reachable ord t \<Longrightarrow> hybrid_step ord t t' \<Longrightarrow> hybrid_reachable ord t'"

text \<open>Every cached projection is what materialising the column now would give.\<close>

definition fresh_projections :: "(i64 fset \<Rightarrow> i64 list) \<Rightarrow> hybrid_table \<Rightarrow> bool" where
  "fresh_projections ord t \<longleftrightarrow> ht_layout t = HybridLayout \<and>
     (\<forall>name c. fmlookup (ht_projections t) name = Some c \<longrightarrow>
        (\<exists>i. column_position name (ht_columns t) = Some i \<and> materialize name i (rows_by_key ord t) = Inr c))"

lemma rows_by_key_stats [simp]: "rows_by_key ord (t\<lparr>ht_stats := s\<rparr>) = rows_by_key ord t"
  "rows_by_key ord (t\<lparr>ht_projections := p\<rparr>) = rows_by_key ord t"
  by (simp_all add: rows_by_key_def row_values_def)

lemma fresh_step:
  assumes "hybrid_step ord t t'" and "fresh_projections ord t"
  shows "fresh_projections ord t'"
  using assms
proof cases
  case (hybrid_insert key vs)
  with assms(2) show ?thesis by (simp add: fresh_projections_def hybrid_insert_row_def Let_def)
next
  case (hybrid_project name)
  with assms(2) show ?thesis
    by (auto simp: fresh_projections_def get_column_projection_def Let_def split: option.split sum.split)
qed (use assms(2) in \<open>simp_all add: fresh_projections_def get_row_def scan_rows_def\<close>)

lemma reachable_fresh: "hybrid_reachable ord t \<Longrightarrow> fresh_projections ord t"
proof (induction rule: hybrid_reachable.induct)
  case (hybrid_start name cols)
  show ?case by (simp add: fresh_projections_def hybrid_new_def)
qed (rule fresh_step)

lemma typed_cells_get:
  assumes "typed_cells unpack d i rows = (xs, ns)" and "k < length rows"
  shows "length ns = length rows" and "length xs = length rows"
    and "ns ! k = (Option.bind (nth_opt (rr_values (rows ! k)) i) unpack = None)"
    and "Option.bind (nth_opt (rr_values (rows ! k)) i) unpack = Some x \<Longrightarrow> xs ! k = x"
  using assms by (auto simp: typed_cells_def Let_def)

text \<open>A cell the projection of a column of the given first cell keeps.\<close>

fun same_type :: "sql_value \<Rightarrow> sql_value \<Rightarrow> bool" where
  "same_type (VInteger _) (VInteger _) = True"
| "same_type (VReal _) (VReal _) = True"
| "same_type (VText _) (VText _) = True"
| "same_type _ _ = False"

lemma materialize_get:
  assumes "materialize name i rows = Inr c" and "k < length rows" and "nth_opt (rr_values (rows ! k)) i = Some v"
    and "first_cell i rows = Some w"
  shows "column_get k c = Some (if same_type w v then v else VNull)"
proof (cases w)
  case (VInteger x)
  obtain xs ns where t: "typed_cells unpack_integer 0 i rows = (xs, ns)" by fastforce
  with assms VInteger have "c = \<lparr>co_name = name, co_data = VcInteger xs, co_nulls = ns\<rparr>" by (simp add: materialize_def)
  with typed_cells_get [OF t assms(2)] assms(2, 3) VInteger show ?thesis by (cases v) (auto simp: column_get_def nth_opt_def)
next
  case (VReal x)
  obtain xs ns where t: "typed_cells unpack_real 0 i rows = (xs, ns)" by fastforce
  with assms VReal have "c = \<lparr>co_name = name, co_data = VcReal xs, co_nulls = ns\<rparr>" by (simp add: materialize_def)
  with typed_cells_get [OF t assms(2)] assms(2, 3) VReal show ?thesis by (cases v) (auto simp: column_get_def nth_opt_def)
next
  case (VText x)
  obtain xs ns where t: "typed_cells unpack_text [] i rows = (xs, ns)" by fastforce
  with assms VText have "c = \<lparr>co_name = name, co_data = VcText xs, co_nulls = ns\<rparr>" by (simp add: materialize_def)
  with typed_cells_get [OF t assms(2)] assms(2, 3) VText show ?thesis by (cases v) (auto simp: column_get_def nth_opt_def)
qed (use assms in \<open>simp_all add: materialize_def\<close>)

lemma projection_materialized:
  assumes "fresh_projections ord t" and "get_column_projection ord name t = (Inr c, t')"
  shows "\<exists>i. column_position name (ht_columns t) = Some i \<and> materialize name i (rows_by_key ord t) = Inr c"
  using assms by (auto simp: fresh_projections_def get_column_projection_def Let_def split: option.splits sum.splits)

section \<open>Properties\<close>


text \<open>In the other layouts an insertion leaves the cached projections as they are.\<close>

lemma stale_projection:
  assumes "ht_layout t \<noteq> HybridLayout" and "fmlookup (ht_projections t) name = Some c"
  shows "fst (get_column_projection ord name (hybrid_insert_row key vs t)) = Inr c"
  using assms by (simp add: hybrid_insert_row_def get_column_projection_def Let_def)

section \<open>Witness\<close>

definition sample_hybrid :: hybrid_table where
  "sample_hybrid = hybrid_insert_row 5 [VInteger 7] (hybrid_new ''t''
     [\<lparr>col_name = ''a'', col_data_type = DtInteger, col_primary_key = False, col_not_null = False, col_unique = False\<rparr>] HybridLayout)"

lemma sample_hybrid_rows: "rows_by_key sorted_list_of_fset sample_hybrid = [\<lparr>rr_key = 5, rr_values = [VInteger 7]\<rparr>]"
  by (simp add: rows_by_key_def row_values_def sample_hybrid_def hybrid_insert_row_def hybrid_new_def Let_def List.map_filter_def
      sorted_list_of_fset.rep_eq)


end
