(* ===== verification/Lockfree.thy ===== *)
theory Lockfree
  imports Types "HOL-Library.Finite_Map"
begin

text \<open>
  The concurrent structures of \<open>src/lockfree.rs\<close>: the page cache with its approximate LRU eviction, the I/O
  queue, the counter and the metrics. Each call is one step, and \<open>now\<close> is the clock reading of a call. The queue
  of the \<open>crossbeam\<close> crate is a parameter: a \<open>seg_ops\<close> record of its operations on a queue state of any type.
  Its bounded queue, behind the ring buffer, is a record \<open>aq_ops\<close> of the same kind.
\<close>

section \<open>The page cache\<close>

record ('q, 'a) seg_ops =
  seg_new :: 'q
  seg_push :: "'a \<Rightarrow> 'q \<Rightarrow> 'q"
  seg_pop :: "'q \<Rightarrow> 'a option \<times> 'q"

record cached_page =
  cp_page_id :: nat
  cp_page :: bytes
  cp_access_count :: nat
  cp_last_access :: nat

record 'q lockfree_cache =
  lc_capacity :: nat
  lc_size :: nat
  lc_entries :: "(nat, cached_page) fmap"
  lc_lru :: 'q

definition cached_page_new :: "nat \<Rightarrow> nat \<Rightarrow> bytes \<Rightarrow> cached_page" where
  "cached_page_new now page_id page = \<lparr>cp_page_id = page_id, cp_page = page, cp_access_count = 1, cp_last_access = now\<rparr>"

definition cached_page_access :: "nat \<Rightarrow> cached_page \<Rightarrow> cached_page" where
  "cached_page_access now p = p\<lparr>cp_access_count := cp_access_count p + 1, cp_last_access := now\<rparr>"

definition lockfree_cache_new :: "('q, nat) seg_ops \<Rightarrow> nat \<Rightarrow> 'q lockfree_cache" where
  "lockfree_cache_new qs capacity = \<lparr>lc_capacity = capacity, lc_size = 0, lc_entries = fmempty, lc_lru = seg_new qs\<rparr>"

definition lc_get :: "('q, nat) seg_ops \<Rightarrow> nat \<Rightarrow> nat \<Rightarrow> 'q lockfree_cache \<Rightarrow> cached_page option \<times> 'q lockfree_cache" where
  "lc_get qs now page_id c =
     (case fmlookup (lc_entries c) page_id of
        None \<Rightarrow> (None, c)
      | Some p \<Rightarrow>
          let p' = cached_page_access now p in
          (Some p', c\<lparr>lc_entries := fmupd page_id p' (lc_entries c), lc_lru := seg_push qs page_id (lc_lru c)\<rparr>))"

definition max_timestamp :: nat where
  "max_timestamp = 2 ^ 64 - 1"

text \<open>The scan of \<open>evict_lru\<close>: \<open>n\<close> ids are taken from the queue and pushed back; the oldest cached one wins.\<close>

fun scan_lru :: "('q, nat) seg_ops \<Rightarrow> nat \<Rightarrow> 'q \<Rightarrow> (nat, cached_page) fmap \<Rightarrow> nat option \<Rightarrow> nat \<Rightarrow> 'q \<times> nat option" where
  "scan_lru qs 0 queue entries oldest_page_id oldest_timestamp = (queue, oldest_page_id)"
| "scan_lru qs (Suc n) queue entries oldest_page_id oldest_timestamp =
     (case seg_pop qs queue of
        (None, queue') \<Rightarrow> scan_lru qs n queue' entries oldest_page_id oldest_timestamp
      | (Some page_id, queue') \<Rightarrow>
          (case fmlookup entries page_id of
             None \<Rightarrow> scan_lru qs n (seg_push qs page_id queue') entries oldest_page_id oldest_timestamp
           | Some cached \<Rightarrow>
               if cp_last_access cached < oldest_timestamp
               then scan_lru qs n (seg_push qs page_id queue') entries (Some page_id) (cp_last_access cached)
               else scan_lru qs n (seg_push qs page_id queue') entries oldest_page_id oldest_timestamp))"

definition evict_lru :: "('q, nat) seg_ops \<Rightarrow> 'q lockfree_cache \<Rightarrow> 'q lockfree_cache" where
  "evict_lru qs c =
     (case scan_lru qs (min 100 (lc_capacity c)) (lc_lru c) (lc_entries c) None max_timestamp of
        (queue, None) \<Rightarrow> c\<lparr>lc_lru := queue\<rparr>
      | (queue, Some page_id) \<Rightarrow>
          c\<lparr>lc_lru := queue, lc_entries := fmdrop page_id (lc_entries c), lc_size := lc_size c - 1\<rparr>)"

definition lc_insert :: "('q, nat) seg_ops \<Rightarrow> nat \<Rightarrow> nat \<Rightarrow> bytes \<Rightarrow> 'q lockfree_cache \<Rightarrow> 'q lockfree_cache" where
  "lc_insert qs now page_id page c =
     (let c1 = (if lc_capacity c \<le> lc_size c then evict_lru qs c else c) in
      c1\<lparr>lc_entries := fmupd page_id (cached_page_new now page_id page) (lc_entries c1),
         lc_size := lc_size c1 + 1, lc_lru := seg_push qs page_id (lc_lru c1)\<rparr>)"

definition lc_remove :: "nat \<Rightarrow> 'q lockfree_cache \<Rightarrow> cached_page option \<times> 'q lockfree_cache" where
  "lc_remove page_id c =
     (case fmlookup (lc_entries c) page_id of
        None \<Rightarrow> (None, c)
      | Some p \<Rightarrow> (Some p, c\<lparr>lc_entries := fmdrop page_id (lc_entries c), lc_size := lc_size c - 1\<rparr>))"

definition lc_stats :: "'q lockfree_cache \<Rightarrow> nat \<times> nat" where
  "lc_stats c = (lc_size c, lc_capacity c)"

text \<open>The loop of \<open>clear\<close> pops until the queue is empty, and so may not end while other threads push: it has fuel.\<close>

fun drain_lru :: "('q, nat) seg_ops \<Rightarrow> nat \<Rightarrow> 'q \<Rightarrow> 'q option" where
  "drain_lru qs 0 queue = None"
| "drain_lru qs (Suc fuel) queue =
     (case seg_pop qs queue of (None, queue') \<Rightarrow> Some queue' | (Some _, queue') \<Rightarrow> drain_lru qs fuel queue')"

definition lc_clear :: "('q, nat) seg_ops \<Rightarrow> nat \<Rightarrow> 'q lockfree_cache \<Rightarrow> 'q lockfree_cache option" where
  "lc_clear qs fuel c =
     (case drain_lru qs fuel (lc_lru c) of
        None \<Rightarrow> None
      | Some queue \<Rightarrow> Some (c\<lparr>lc_entries := fmempty, lc_size := 0, lc_lru := queue\<rparr>))"

section \<open>Queue, counter, metrics\<close>

record 'q io_queue =
  iq_queue :: 'q
  iq_size :: nat

definition io_queue_new :: "('q, 'a) seg_ops \<Rightarrow> 'q io_queue" where
  "io_queue_new qs = \<lparr>iq_queue = seg_new qs, iq_size = 0\<rparr>"

definition io_push :: "('q, 'a) seg_ops \<Rightarrow> 'a \<Rightarrow> 'q io_queue \<Rightarrow> 'q io_queue" where
  "io_push qs item q = q\<lparr>iq_queue := seg_push qs item (iq_queue q), iq_size := iq_size q + 1\<rparr>"

definition io_pop :: "('q, 'a) seg_ops \<Rightarrow> 'q io_queue \<Rightarrow> 'a option \<times> 'q io_queue" where
  "io_pop qs q =
     (case seg_pop qs (iq_queue q) of
        (None, queue) \<Rightarrow> (None, q\<lparr>iq_queue := queue\<rparr>)
      | (Some item, queue) \<Rightarrow> (Some item, q\<lparr>iq_queue := queue, iq_size := iq_size q - 1\<rparr>))"

definition io_len :: "'q io_queue \<Rightarrow> nat" where
  "io_len q = iq_size q"

definition io_is_empty :: "'q io_queue \<Rightarrow> bool" where
  "io_is_empty q \<longleftrightarrow> io_len q = 0"

definition counter_increment :: "nat \<Rightarrow> nat \<times> nat" where
  "counter_increment v = (v, (v + 1) mod 2 ^ 64)"

definition counter_set :: "nat \<Rightarrow> nat \<Rightarrow> nat" where
  "counter_set val v = val"

definition counter_compare_and_swap :: "nat \<Rightarrow> nat \<Rightarrow> nat \<Rightarrow> (nat + nat) \<times> nat" where
  "counter_compare_and_swap current replacement v = (if v = current then (Inr v, replacement) else (Inl v, v))"

text \<open>The ring buffer: each call forwards to the bounded queue, whose creation panics for capacity 0 (\<open>None\<close>).\<close>

record ('q, 'a) aq_ops =
  aq_new :: "nat \<Rightarrow> 'q option"
  aq_push :: "'a \<Rightarrow> 'q \<Rightarrow> ('a + unit) \<times> 'q"
  aq_pop :: "'q \<Rightarrow> 'a option \<times> 'q"
  aq_capacity :: "'q \<Rightarrow> nat"
  aq_len :: "'q \<Rightarrow> nat"

record 'q ring_buffer =
  rb_buffer :: 'q

definition ring_new :: "('q, 'a) aq_ops \<Rightarrow> nat \<Rightarrow> 'q ring_buffer option" where
  "ring_new aq capacity = map_option (\<lambda>q. \<lparr>rb_buffer = q\<rparr>) (aq_new aq capacity)"

definition ring_try_push :: "('q, 'a) aq_ops \<Rightarrow> 'a \<Rightarrow> 'q ring_buffer \<Rightarrow> ('a + unit) \<times> 'q ring_buffer" where
  "ring_try_push aq item b = (case aq_push aq item (rb_buffer b) of (r, q) \<Rightarrow> (r, b\<lparr>rb_buffer := q\<rparr>))"

definition ring_try_pop :: "('q, 'a) aq_ops \<Rightarrow> 'q ring_buffer \<Rightarrow> 'a option \<times> 'q ring_buffer" where
  "ring_try_pop aq b = (case aq_pop aq (rb_buffer b) of (r, q) \<Rightarrow> (r, b\<lparr>rb_buffer := q\<rparr>))"

definition ring_capacity :: "('q, 'a) aq_ops \<Rightarrow> 'q ring_buffer \<Rightarrow> nat" where
  "ring_capacity aq b = aq_capacity aq (rb_buffer b)"

definition ring_len :: "('q, 'a) aq_ops \<Rightarrow> 'q ring_buffer \<Rightarrow> nat" where
  "ring_len aq b = aq_len aq (rb_buffer b)"

definition ring_is_empty :: "('q, 'a) aq_ops \<Rightarrow> 'q ring_buffer \<Rightarrow> bool" where
  "ring_is_empty aq b \<longleftrightarrow> aq_len aq (rb_buffer b) = 0"

definition ring_is_full :: "('q, 'a) aq_ops \<Rightarrow> 'q ring_buffer \<Rightarrow> bool" where
  "ring_is_full aq b \<longleftrightarrow> aq_len aq (rb_buffer b) = aq_capacity aq (rb_buffer b)"

record lockfree_metrics =
  lm_reads :: nat
  lm_writes :: nat
  lm_hits :: nat
  lm_misses :: nat

definition record_read :: "lockfree_metrics \<Rightarrow> lockfree_metrics" where
  "record_read m = m\<lparr>lm_reads := lm_reads m + 1\<rparr>"

definition record_write :: "lockfree_metrics \<Rightarrow> lockfree_metrics" where
  "record_write m = m\<lparr>lm_writes := lm_writes m + 1\<rparr>"

definition record_cache_hit :: "lockfree_metrics \<Rightarrow> lockfree_metrics" where
  "record_cache_hit m = m\<lparr>lm_hits := lm_hits m + 1\<rparr>"

definition record_cache_miss :: "lockfree_metrics \<Rightarrow> lockfree_metrics" where
  "record_cache_miss m = m\<lparr>lm_misses := lm_misses m + 1\<rparr>"

definition metrics_reset :: lockfree_metrics where
  "metrics_reset = \<lparr>lm_reads = 0, lm_writes = 0, lm_hits = 0, lm_misses = 0\<rparr>"

definition metrics_new :: lockfree_metrics where
  "metrics_new = \<lparr>lm_reads = 0, lm_writes = 0, lm_hits = 0, lm_misses = 0\<rparr>"

definition metrics_stats :: "lockfree_metrics \<Rightarrow> lockfree_metrics" where
  "metrics_stats m = \<lparr>lm_reads = lm_reads m, lm_writes = lm_writes m, lm_hits = lm_hits m, lm_misses = lm_misses m\<rparr>"

definition cache_hit_rate :: "(nat \<Rightarrow> nat \<Rightarrow> f64) \<Rightarrow> lockfree_metrics \<Rightarrow> f64" where
  "cache_hit_rate fdiv m = (let total = lm_hits m + lm_misses m in if total = 0 then 0 else fdiv (lm_hits m) total)"

section \<open>The cache under any calls\<close>

inductive lc_step :: "('q, nat) seg_ops \<Rightarrow> 'q lockfree_cache \<Rightarrow> 'q lockfree_cache \<Rightarrow> bool" for qs where
  step_get: "lc_step qs c (snd (lc_get qs now page_id c))"
| step_insert: "lc_step qs c (lc_insert qs now page_id page c)"
| step_remove: "lc_step qs c (snd (lc_remove page_id c))"
| step_clear: "lc_clear qs fuel c = Some c' \<Longrightarrow> lc_step qs c c'"

inductive lc_reachable :: "('q, nat) seg_ops \<Rightarrow> 'q lockfree_cache \<Rightarrow> bool" for qs where
  lc_new: "lc_reachable qs (lockfree_cache_new qs capacity)"
| lc_next: "lc_reachable qs c \<Longrightarrow> lc_step qs c c' \<Longrightarrow> lc_reachable qs c'"

definition lc_ok :: "'q lockfree_cache \<Rightarrow> bool" where
  "lc_ok c \<longleftrightarrow> fcard (fmdom (lc_entries c)) \<le> lc_size c"

lemma fcard_fmupd: "fcard (fmdom (fmupd k v m)) \<le> fcard (fmdom m) + 1"
  by (simp add: fcard_finsert_if)

lemma fcard_fmupd_old: "fmlookup m k = Some w \<Longrightarrow> fcard (fmdom (fmupd k v m)) = fcard (fmdom m)"
  by (simp add: fmdomI finsert_absorb)

lemma fcard_fmdrop_old: "fmlookup m k = Some w \<Longrightarrow> fcard (fmdom (fmdrop k m)) = fcard (fmdom m) - 1"
  by (simp add: fmdomI fcard_fminus_fsingleton)

lemma scan_lru_cached:
  "snd (scan_lru qs n queue entries oldest ts) = Some k \<Longrightarrow> oldest = Some k \<or> (\<exists>p. fmlookup entries k = Some p)"
proof (induction n arbitrary: queue oldest ts)
  case (Suc n)
  obtain popped queue' where pop: "seg_pop qs queue = (popped, queue')" by fastforce
  show ?case
  proof (cases popped)
    case None
    with Suc.prems pop Suc.IH show ?thesis by simp
  next
    case (Some page_id)
    let ?q = "seg_push qs page_id queue'"
    show ?thesis
    proof (cases "\<exists>cached. fmlookup entries page_id = Some cached \<and> cp_last_access cached < ts")
      case True
      then obtain cached where cached: "fmlookup entries page_id = Some cached" "cp_last_access cached < ts" by blast
      with Suc.prems pop Some have "snd (scan_lru qs n ?q entries (Some page_id) (cp_last_access cached)) = Some k" by simp
      from Suc.IH [OF this] cached show ?thesis by blast
    next
      case False
      with Suc.prems pop Some have "snd (scan_lru qs n ?q entries oldest ts) = Some k" by (simp split: option.splits)
      then show ?thesis by (rule Suc.IH)
    qed
  qed
qed simp

lemma evict_lru_ok:
  assumes "lc_ok c"
  shows "lc_ok (evict_lru qs c)"
proof -
  let ?scan = "scan_lru qs (min 100 (lc_capacity c)) (lc_lru c) (lc_entries c) None max_timestamp"
  obtain queue found where scan: "?scan = (queue, found)" by fastforce
  show ?thesis
  proof (cases found)
    case None
    with scan assms show ?thesis by (simp add: evict_lru_def lc_ok_def)
  next
    case (Some k)
    with scan scan_lru_cached [of qs "min 100 (lc_capacity c)" "lc_lru c" "lc_entries c" None max_timestamp k]
    obtain p where "fmlookup (lc_entries c) k = Some p" by auto
    then have "fcard (fmdom (fmdrop k (lc_entries c))) = fcard (fmdom (lc_entries c)) - 1" by (rule fcard_fmdrop_old)
    with Some scan assms show ?thesis by (simp add: evict_lru_def lc_ok_def)
  qed
qed

lemma lc_ok_insert:
  assumes "lc_ok c"
  shows "lc_ok (lc_insert qs now page_id page c)"
proof -
  define c1 where "c1 = (if lc_capacity c \<le> lc_size c then evict_lru qs c else c)"
  have "lc_ok c1" using assms evict_lru_ok [of c qs] by (simp add: c1_def)
  moreover have "fcard (fmdom (fmupd page_id (cached_page_new now page_id page) (lc_entries c1))) \<le> fcard (fmdom (lc_entries c1)) + 1"
    by (rule fcard_fmupd)
  ultimately show ?thesis by (simp add: lc_insert_def lc_ok_def flip: c1_def del: fmdom_fmupd)
qed

lemma lc_ok_get: "lc_ok c \<Longrightarrow> lc_ok (snd (lc_get qs now page_id c))"
  by (simp add: lc_get_def lc_ok_def Let_def fcard_fmupd_old del: fmdom_fmupd split: option.split)

lemma lc_ok_remove: "lc_ok c \<Longrightarrow> lc_ok (snd (lc_remove page_id c))"
  by (simp add: lc_remove_def lc_ok_def fcard_fmdrop_old diff_le_mono del: fmdom_drop split: option.split)

lemma lc_ok_clear: "lc_clear qs fuel c = Some c' \<Longrightarrow> lc_ok c'"
  by (auto simp: lc_clear_def lc_ok_def fcard_fempty split: option.splits)

lemma lc_reachable_ok: "lc_reachable qs c \<Longrightarrow> lc_ok c"
proof (induction rule: lc_reachable.induct)
  case (lc_new capacity)
  show ?case by (simp add: lc_ok_def lockfree_cache_new_def fcard_fempty)
next
  case (lc_next c c')
  from lc_next(2) show ?case
    by cases (use lc_next.IH in \<open>simp_all add: lc_ok_get lc_ok_insert lc_ok_remove lc_ok_clear\<close>)
qed

lemma evict_lru_lookup: "fmlookup (lc_entries (evict_lru qs c)) q \<in> {fmlookup (lc_entries c) q, None}"
  by (simp add: evict_lru_def split: prod.split option.split)

section \<open>Properties\<close>


text \<open>Inserting a cached page again counts it twice.\<close>

lemma reinsert_counts_twice:
  assumes "2 \<le> capacity"
  shows "lc_stats (lc_insert qs now2 k page2 (lc_insert qs now1 k page1 (lockfree_cache_new qs capacity))) = (2, capacity)"
    and "fcard (fmdom (lc_entries (lc_insert qs now2 k page2 (lc_insert qs now1 k page1 (lockfree_cache_new qs capacity))))) = 1"
  using assms by (simp_all add: lc_insert_def lockfree_cache_new_def lc_stats_def fcard_finsert_if fcard_fempty)


end
