(* ===== verification/Pmem.thy ===== *)
theory Pmem
  imports AsyncTheorems
begin

text \<open>
  Direct access to persistent memory, \<open>src/pmem.rs\<close>: the mapped file behind \<open>AsyncVfs\<close> and the log page on it.

  The state has the bytes the processor sees, \<open>dx_file\<close>, and the bytes a power failure leaves, \<open>dx_durable\<close>; a
  store changes only the former, a flushed cache line of 64 bytes is copied to the latter. A pointer is an offset into the file.
  An access outside the mapping is undefined in the source and a panic here. The processor is an x86-64. \<open>base_addr\<close>
  is written and never read, and is left out.
\<close>

section \<open>The mapped file\<close>

record dax_vfs =
  dx_file :: bytes
  dx_durable :: bytes
  dx_mapped :: "nat option"
  dx_pages :: nat

definition dax_new :: "bytes \<Rightarrow> dax_vfs" where
  "dax_new f = \<lparr>dx_file = f, dx_durable = f, dx_mapped = (if 0 < length f then Some (length f) else None),
     dx_pages = (length f + page_size - 1) div page_size\<rparr>"

definition get_page_ptr :: "nat \<Rightarrow> (dax_vfs, nat) op" where
  "get_page_ptr page_id s =
     (if dx_pages s \<le> page_id then (Inl (Error NotFound), s)
      else case dx_mapped s of
        None \<Rightarrow> (Inl (Error StorageError), s)
      | Some _ \<Rightarrow> (Inr (page_id * page_size), s))"

definition get_page_ptr_mut :: "nat \<Rightarrow> (dax_vfs, nat) op" where
  "get_page_ptr_mut page_id s =
     (if dx_pages s \<le> page_id then (Inl (Error NotFound), s)
      else case dx_mapped s of
        None \<Rightarrow> (Inl (Error StorageError), s)
      | Some _ \<Rightarrow> (Inr (page_id * page_size), s))"

definition in_mapping :: "nat \<Rightarrow> nat \<Rightarrow> dax_vfs \<Rightarrow> bool" where
  "in_mapping ptr n s \<longleftrightarrow> (case dx_mapped s of None \<Rightarrow> False | Some m \<Rightarrow> ptr + n \<le> m)"

definition load_bytes :: "nat \<Rightarrow> nat \<Rightarrow> (dax_vfs, bytes) op" where
  "load_bytes ptr n s = (if in_mapping ptr n s then (Inr (take n (drop ptr (dx_file s))), s) else (Inl Panic, s))"

definition store_bytes :: "nat \<Rightarrow> bytes \<Rightarrow> (dax_vfs, unit) op" where
  "store_bytes ptr bs s =
     (if in_mapping ptr (length bs) s then (Inr (), s\<lparr>dx_file := write_at ptr bs (dx_file s)\<rparr>) else (Inl Panic, s))"

definition cache_line_size :: nat where
  "cache_line_size = 64"

definition clflush :: "nat \<Rightarrow> dax_vfs \<Rightarrow> dax_vfs" where
  "clflush ptr s =
     (let start = ptr div cache_line_size * cache_line_size in
      s\<lparr>dx_durable := write_at start (take cache_line_size (drop start (dx_file s))) (dx_durable s)\<rparr>)"

definition persist_with_clflush :: "nat \<Rightarrow> nat \<Rightarrow> dax_vfs \<Rightarrow> dax_vfs" where
  "persist_with_clflush ptr n s =
     fold (\<lambda>i. clflush (ptr + i * cache_line_size)) [0..<(n + cache_line_size - 1) div cache_line_size] s"

definition persist_page :: "nat \<Rightarrow> (dax_vfs, unit) op" where
  "persist_page page_id = mbind (get_page_ptr page_id) (\<lambda>ptr s. (Inr (), persist_with_clflush ptr page_size s))"

text \<open>The streaming copy: chunks of 16 bytes, then the rest.\<close>

fun stream_chunks :: "nat \<Rightarrow> bytes \<Rightarrow> nat \<Rightarrow> nat \<Rightarrow> (dax_vfs, unit) op" where
  "stream_chunks dst src i 0 = mret ()"
| "stream_chunks dst src i (Suc n) =
     mbind (store_bytes (dst + i * 16) (take 16 (drop (i * 16) src))) (\<lambda>_. stream_chunks dst src (Suc i) n)"

definition non_temporal_memcpy :: "nat \<Rightarrow> bytes \<Rightarrow> nat \<Rightarrow> (dax_vfs, unit) op" where
  "non_temporal_memcpy dst src len =
     (let chunks = len div 16; remainder = len mod 16; off = chunks * 16 in
      mbind (stream_chunks dst src 0 chunks) (\<lambda>_.
        if 0 < remainder then store_bytes (dst + off) (take remainder (drop off src)) else mret ()))"

definition non_temporal_store :: "nat \<Rightarrow> bytes \<Rightarrow> (dax_vfs, unit) op" where
  "non_temporal_store page_id data =
     mbind (get_page_ptr_mut page_id) (\<lambda>ptr.
     mbind (non_temporal_memcpy ptr data (min (length data) page_size)) (\<lambda>_.
     persist_page page_id))"

text \<open>Growing the file may fail before its length is set, or at the new mapping.\<close>

datatype expand_fault = ResizeFails | MapFails

definition expand :: "expand_fault option \<Rightarrow> nat \<Rightarrow> (dax_vfs, unit) op" where
  "expand fails new_size s =
     (let s1 = s\<lparr>dx_file := set_len new_size (dx_file s), dx_durable := set_len new_size (dx_durable s)\<rparr> in
      case fails of
        Some ResizeFails \<Rightarrow> (Inl (Error Io), s)
      | Some MapFails \<Rightarrow> (Inl (Error Io), s1)
      | None \<Rightarrow> (Inr (), s1\<lparr>dx_mapped := Some new_size, dx_pages := new_size div page_size\<rparr>))"

definition dax_read_page :: "nat \<Rightarrow> (dax_vfs, bytes) op" where
  "dax_read_page page_id = mbind (get_page_ptr page_id) (\<lambda>ptr. load_bytes ptr page_size)"

definition dax_write_page :: "nat \<Rightarrow> bytes \<Rightarrow> (dax_vfs, unit) op" where
  "dax_write_page page_id page =
     mbind (get_page_ptr_mut page_id) (\<lambda>ptr. mbind (store_bytes ptr page) (\<lambda>_. persist_page page_id))"

definition dax_allocate_page :: "expand_fault option \<Rightarrow> (dax_vfs, nat) op" where
  "dax_allocate_page fails s =
     (let new_page_id = dx_pages s in
      mbind (expand fails ((new_page_id + 1) * page_size)) (\<lambda>_.
      mbind (dax_write_page new_page_id (replicate page_size 0)) (\<lambda>_.
      mret new_page_id)) s)"

definition dax_sync :: "bool \<Rightarrow> (dax_vfs, unit) op" where
  "dax_sync fails s =
     (if dx_mapped s = None then (Inr (), s)
      else if fails then (Inl (Error Io), s)
      else (Inr (), s\<lparr>dx_durable := dx_file s\<rparr>))"

definition dax_ops :: "expand_fault option \<Rightarrow> bool \<Rightarrow> dax_vfs async_vfs" where
  "dax_ops expand_fails sync_fails = \<lparr>av_read = dax_read_page, av_write = dax_write_page, av_alloc = dax_allocate_page expand_fails,
     av_flush = mret (), av_num_pages = dx_pages, av_sync = dax_sync sync_fails\<rparr>"

section \<open>The log page\<close>

record pmem_log =
  pl_vfs :: dax_vfs
  pl_page :: nat
  pl_offset :: nat

definition pmem_log_new :: "expand_fault option \<Rightarrow> dax_vfs \<Rightarrow> pmem_log result" where
  "pmem_log_new fails v =
     (case dax_allocate_page fails v of
        (Inl e, _) \<Rightarrow> Inl e
      | (Inr log_page, v1) \<Rightarrow> Inr \<lparr>pl_vfs = v1, pl_page = log_page, pl_offset = 0\<rparr>)"

definition on_dax :: "(dax_vfs, 'a) op \<Rightarrow> (pmem_log, 'a) op" where
  "on_dax m l = (case m (pl_vfs l) of (r, v) \<Rightarrow> (r, l\<lparr>pl_vfs := v\<rparr>))"

definition log_append :: "bytes \<Rightarrow> (pmem_log, nat) op" where
  "log_append data l =
     (let off = pl_offset l; l1 = l\<lparr>pl_offset := off + length data\<rparr> in
      if page_size < off + length data then (Inl (Error StorageError), l1)
      else mbind (on_dax (get_page_ptr_mut (pl_page l))) (\<lambda>ptr.
           mbind (on_dax (store_bytes (ptr + off) data)) (\<lambda>_.
           mbind (on_dax (persist_page (pl_page l))) (\<lambda>_. mret off))) l1)"

definition log_read :: "nat \<Rightarrow> nat \<Rightarrow> (pmem_log, bytes) op" where
  "log_read off len l =
     mbind (on_dax (get_page_ptr (pl_page l))) (\<lambda>ptr.
       if page_size < off + len then mfail (Error StorageError) else on_dax (load_bytes (ptr + off) len)) l"

end
