(* ===== verification/PmemTheorems.thy ===== *)
theory PmemTheorems
  imports Pmem
begin

text \<open>
  Persistent memory: flushing the lines of a page makes exactly the page durable, the streaming copy stores what a
  plain copy stores, the mapped file meets the contract of the trait, and log entries stay readable and durable.
\<close>

section \<open>Stores inside the mapping\<close>

lemma write_at_in: "off + length bs \<le> length f \<Longrightarrow> write_at off bs f = take off f @ bs @ drop (off + length bs) f"
  by (simp add: write_at_def)

lemma write_at_append:
  assumes "off + length a + length b \<le> length f"
  shows "write_at (off + length a) b (write_at off a f) = write_at off (a @ b) f"
  using assms by (simp add: write_at_in length_write_at max_def ac_simps)

lemma write_at_Nil: "off \<le> length f \<Longrightarrow> write_at off [] f = f"
  by (simp add: write_at_def)

lemma slice_append: "take n (drop p f) @ take m (drop (p + n) f) = take (n + m) (drop p f)"
  by (simp add: take_add drop_drop [symmetric] add.commute [of p n] del: drop_drop)

definition dax_inv :: "dax_vfs \<Rightarrow> bool" where
  "dax_inv s \<longleftrightarrow> length (dx_file s) = dx_pages s * page_size \<and> length (dx_durable s) = length (dx_file s)
     \<and> (0 < dx_pages s \<longrightarrow> dx_mapped s = Some (length (dx_file s)))"

definition dax_view :: "dax_vfs \<Rightarrow> nat \<Rightarrow> bytes option" where
  "dax_view s = file_page (dx_file s)"

definition durable_view :: "dax_vfs \<Rightarrow> nat \<Rightarrow> bytes option" where
  "durable_view s = file_page (dx_durable s)"

lemma dax_inv_page:
  assumes "dax_inv s" and "pid < dx_pages s"
  shows "pid * page_size + page_size \<le> length (dx_file s)" and "length (dx_durable s) = length (dx_file s)"
    and "dx_mapped s = Some (length (dx_file s))"
    and "get_page_ptr pid s = (Inr (pid * page_size), s)" and "get_page_ptr_mut pid s = (Inr (pid * page_size), s)"
  using assms page_fits [of pid "dx_pages s"] by (auto simp: dax_inv_def get_page_ptr_def get_page_ptr_mut_def)

lemma flush_lines:
  assumes "ptr mod cache_line_size = 0" and "ptr + n * cache_line_size \<le> length (dx_file s)" and "length (dx_durable s) = length (dx_file s)"
  shows "fold (\<lambda>i. clflush (ptr + i * cache_line_size)) [0..<n] s =
    s\<lparr>dx_durable := write_at ptr (take (n * cache_line_size) (drop ptr (dx_file s))) (dx_durable s)\<rparr>"
  using assms(2)
proof (induction n)
  case 0
  with assms(3) show ?case by (simp add: write_at_Nil)
next
  case (Suc n)
  let ?c = cache_line_size and ?f = "dx_file s" and ?d = "dx_durable s"
  have start: "(ptr + n * ?c) div ?c * ?c = ptr + n * ?c"
    using assms(1) by (simp add: cache_line_size_def mod_0_imp_dvd dvd_div_mult_self)
  have len: "length (take (n * ?c) (drop ptr ?f)) = n * ?c" using Suc.prems by simp
  have fit: "ptr + length (take (n * ?c) (drop ptr ?f)) + length (take ?c (drop (ptr + n * ?c) ?f)) \<le> length ?d"
    using Suc.prems assms(3) len by simp
  have "write_at (ptr + n * ?c) (take ?c (drop (ptr + n * ?c) ?f)) (write_at ptr (take (n * ?c) (drop ptr ?f)) ?d) =
      write_at ptr (take (Suc n * ?c) (drop ptr ?f)) ?d"
    using write_at_append [OF fit] len slice_append [of "n * ?c" ptr ?f ?c] by (simp add: add.commute)
  with Suc start show ?case by (simp add: clflush_def Let_def)
qed

lemma persist_page_done:
  assumes "dax_inv s" and "pid < dx_pages s"
  shows "persist_page pid s =
    (Inr (), s\<lparr>dx_durable := write_at (pid * page_size) (take page_size (drop (pid * page_size) (dx_file s))) (dx_durable s)\<rparr>)"
proof -
  have n: "(page_size + cache_line_size - Suc 0) div cache_line_size = 64" "64 * cache_line_size = page_size"
    "pid * page_size mod cache_line_size = 0"
    by (simp_all add: page_size_def cache_line_size_def mod_eq_0_iff_dvd)
  have "pid * page_size + 64 * cache_line_size \<le> length (dx_file s)" using dax_inv_page [OF assms] n by simp
  from flush_lines [OF n(3) this dax_inv_page(2) [OF assms]] show ?thesis
    using dax_inv_page [OF assms] by (simp add: persist_page_def persist_with_clflush_def mbind_def n(1, 2) del: upt_conv_Cons upt_Suc)
qed

lemma stream_chunks_done:
  assumes "dx_mapped s = Some (length (dx_file s))" and "dst + (i + n) * 16 \<le> length (dx_file s)" and "(i + n) * 16 \<le> length src"
  shows "stream_chunks dst src i n s = (Inr (), s\<lparr>dx_file := write_at (dst + i * 16) (take (n * 16) (drop (i * 16) src)) (dx_file s)\<rparr>)"
  using assms
proof (induction n arbitrary: i s)
  case 0
  then show ?case by (simp add: write_at_Nil)
next
  case (Suc n)
  let ?a = "take 16 (drop (i * 16) src)" and ?b = "take (n * 16) (drop (Suc i * 16) src)"
  let ?s = "s\<lparr>dx_file := write_at (dst + i * 16) ?a (dx_file s)\<rparr>"
  have a: "length ?a = 16" and b: "length ?b = n * 16" using Suc.prems(3) by simp_all
  have len: "length (dx_file ?s) = length (dx_file s)" using Suc.prems(2) a by (simp add: length_write_at)
  have "store_bytes (dst + i * 16) ?a s = (Inr (), ?s)"
    using Suc.prems(1, 2) a by (simp add: store_bytes_def in_mapping_def)
  moreover have "stream_chunks dst src (Suc i) n ?s =
      (Inr (), ?s\<lparr>dx_file := write_at (dst + Suc i * 16) ?b (dx_file ?s)\<rparr>)"
    using Suc.prems len by (intro Suc.IH) simp_all
  moreover have "write_at (dst + Suc i * 16) ?b (write_at (dst + i * 16) ?a (dx_file s)) =
      write_at (dst + i * 16) (take (Suc n * 16) (drop (i * 16) src)) (dx_file s)"
    using write_at_append [of "dst + i * 16" ?a ?b "dx_file s"] Suc.prems(2) a b slice_append [of 16 "i * 16" src "n * 16"]
    by (simp add: algebra_simps)
  ultimately show ?case by (simp add: mbind_def)
qed

lemma non_temporal_memcpy_done:
  assumes "dx_mapped s = Some (length (dx_file s))" and "dst + len \<le> length (dx_file s)" and "len \<le> length src"
  shows "non_temporal_memcpy dst src len s = (Inr (), s\<lparr>dx_file := write_at dst (take len src) (dx_file s)\<rparr>)"
proof -
  let ?n = "len div 16" and ?r = "len mod 16"
  have split: "?n * 16 + ?r = len" by simp
  let ?s = "s\<lparr>dx_file := write_at dst (take (?n * 16) src) (dx_file s)\<rparr>"
  have "stream_chunks dst src 0 ?n s = (Inr (), ?s)"
    using stream_chunks_done [of s dst 0 ?n src] assms split by simp
  moreover have "length (dx_file ?s) = length (dx_file s)" using assms(2, 3) split by (simp add: length_write_at)
  moreover have "write_at (dst + ?n * 16) (take ?r (drop (?n * 16) src)) (write_at dst (take (?n * 16) src) (dx_file s)) =
      write_at dst (take len src) (dx_file s)"
    using write_at_append [of dst "take (?n * 16) src" "take ?r (drop (?n * 16) src)" "dx_file s"] assms split
      slice_append [of "?n * 16" 0 src ?r] by simp
  moreover have "dst + ?n * 16 + length (take ?r (drop (?n * 16) src)) \<le> length (dx_file s)"
    using assms(2) split by (simp only: length_take length_drop)
  moreover have "?n * 16 = len" if "?r = 0" using split that by simp
  ultimately show ?thesis using assms(1)
    by (cases "?r = 0") (simp_all add: non_temporal_memcpy_def Let_def mbind_def store_bytes_def in_mapping_def)
qed

section \<open>The contract\<close>

lemma dax_view_at: "dax_inv s \<Longrightarrow> dax_view s pid =
    (if pid < dx_pages s then Some (take page_size (drop (pid * page_size) (dx_file s))) else None)"
  by (simp add: dax_inv_def dax_view_def file_page_def page_fits)

lemma dax_read_present:
  "dax_inv s \<Longrightarrow> dax_view s pid = Some page \<Longrightarrow> dax_read_page pid s = (Inr page, s)"
  using dax_inv_page [of s pid] by (auto simp: dax_view_at dax_read_page_def mbind_def load_bytes_def in_mapping_def split: if_splits)

lemma dax_read_absent:
  "dax_inv s \<Longrightarrow> dax_view s pid = None \<Longrightarrow> dax_read_page pid s = (Inl (Error NotFound), s)"
  by (auto simp: dax_view_at dax_read_page_def get_page_ptr_def mbind_def split: if_splits)

text \<open>A store inside a page, followed by the flush of the page.\<close>

definition stored :: "nat \<Rightarrow> nat \<Rightarrow> bytes \<Rightarrow> dax_vfs \<Rightarrow> dax_vfs" where
  "stored pid off bs s =
     (let f = write_at (pid * page_size + off) bs (dx_file s) in
      s\<lparr>dx_file := f, dx_durable := write_at (pid * page_size) (take page_size (drop (pid * page_size) f)) (dx_durable s)\<rparr>)"

lemma store_persist:
  assumes "dax_inv s" and "pid < dx_pages s" and "off + length bs \<le> page_size"
  shows "store_bytes (pid * page_size + off) bs s = (Inr (), s\<lparr>dx_file := write_at (pid * page_size + off) bs (dx_file s)\<rparr>)"
    and "persist_page pid (s\<lparr>dx_file := write_at (pid * page_size + off) bs (dx_file s)\<rparr>) = (Inr (), stored pid off bs s)"
    and "dax_inv (stored pid off bs s)"
proof -
  note page = dax_inv_page [OF assms(1, 2)]
  show "store_bytes (pid * page_size + off) bs s = (Inr (), s\<lparr>dx_file := write_at (pid * page_size + off) bs (dx_file s)\<rparr>)"
    using page assms(3) by (simp add: store_bytes_def in_mapping_def)
  let ?s = "s\<lparr>dx_file := write_at (pid * page_size + off) bs (dx_file s)\<rparr>"
  have len: "length (dx_file ?s) = length (dx_file s)" using page(1) assms(3) by (simp add: length_write_at)
  then have inv: "dax_inv ?s" using assms(1) by (simp add: dax_inv_def)
  then show "persist_page pid ?s = (Inr (), stored pid off bs s)"
    using persist_page_done [OF inv] assms(2) by (simp add: stored_def Let_def)
  show "dax_inv (stored pid off bs s)"
    using inv len page(1, 2) by (simp add: dax_inv_def stored_def Let_def length_write_at)
qed

lemma write_at_in_page:
  assumes "p + n \<le> length f" and "off + length bs \<le> n"
  shows "write_at (p + off) bs f = write_at p (write_at off bs (take n (drop p f))) f"
proof -
  have "take (p + off) f @ bs @ drop (p + off + length bs) f =
      take p f @ (take off (drop p f) @ bs @ take (n - (off + length bs)) (drop (p + off + length bs) f)) @ drop (p + n) f"
    using assms append_take_drop_id [of "n - (off + length bs)" "drop (p + off + length bs) f"]
    by (simp add: take_add add.assoc add.commute [of n p] del: append_take_drop_id)
  moreover have "off + length bs \<le> length (take n (drop p f))" using assms by simp
  then have "write_at off bs (take n (drop p f)) = take off (drop p f) @ bs @ take (n - (off + length bs)) (drop (p + off + length bs) f)"
    using assms write_at_in by (simp add: drop_take min_def add.commute add.left_commute del: length_take)
  ultimately show ?thesis using assms by (simp add: write_at_in)
qed

lemma file_page_write_page:
  assumes "length page = page_size" and "pid * page_size + page_size \<le> length f"
  shows "file_page (write_at (pid * page_size) page f) = (file_page f)(pid \<mapsto> page)"
proof
  fix q
  have len: "length (write_at (pid * page_size) page f) = length f" using assms by (simp add: length_write_at)
  show "file_page (write_at (pid * page_size) page f) q = ((file_page f)(pid \<mapsto> page)) q"
  proof (cases "q = pid")
    case False
    show ?thesis
    proof (cases "file_page f q")
      case None
      with False len show ?thesis by (simp add: file_page_def split: if_splits)
    next
      case (Some x)
      with False assms(1) file_page_write_other [of q pid page f x] show ?thesis by simp
    qed
  qed (simp add: assms(1) file_page_write_same)
qed

lemma stored_views:
  assumes "dax_inv s" and "pid < dx_pages s" and "off + length bs \<le> page_size" and "dax_view s pid = Some old"
  shows "dax_view (stored pid off bs s) = (dax_view s)(pid \<mapsto> write_at off bs old)"
    and "durable_view (stored pid off bs s) = (durable_view s)(pid \<mapsto> write_at off bs old)"
proof -
  note page = dax_inv_page [OF assms(1, 2)]
  let ?f = "write_at (pid * page_size + off) bs (dx_file s)"
  have old: "old = take page_size (drop (pid * page_size) (dx_file s))" using assms(1, 2, 4) by (simp add: dax_view_at)
  have len: "length (write_at off bs old) = page_size" using old page(1) assms(3) by (simp add: length_write_at)
  have f: "?f = write_at (pid * page_size) (write_at off bs old) (dx_file s)"
    unfolding old using page(1) assms(3) by (rule write_at_in_page)
  with len page(1) show view: "dax_view (stored pid off bs s) = (dax_view s)(pid \<mapsto> write_at off bs old)"
    by (simp add: stored_def dax_view_def Let_def file_page_write_page)
  have "take page_size (drop (pid * page_size) ?f) = write_at off bs old"
    unfolding f using len write_at_mid [of "write_at off bs old" "pid * page_size" "dx_file s"] by simp
  with len page(1, 2) show "durable_view (stored pid off bs s) = (durable_view s)(pid \<mapsto> write_at off bs old)"
    by (simp add: stored_def durable_view_def Let_def file_page_write_page)
qed

lemma dax_write_present:
  assumes "dax_inv s" and "length page = page_size" and "pid < dx_pages s"
  shows "\<exists>s'. dax_write_page pid page s = (Inr (), s') \<and> dax_inv s' \<and> dx_pages s' = dx_pages s
    \<and> dax_view s' = (dax_view s)(pid \<mapsto> page) \<and> durable_view s' = (durable_view s)(pid \<mapsto> page)"
proof -
  obtain old where old: "dax_view s pid = Some old" "length old = page_size"
    using assms(1, 3) dax_inv_page(1) [OF assms(1, 3)] by (simp add: dax_view_at)
  have fit: "0 + length page \<le> page_size" using assms(2) by simp
  have "write_at 0 page old = page" using old(2) assms(2) by (simp add: write_at_def)
  then show ?thesis
    using store_persist [OF assms(1, 3) fit] stored_views [OF assms(1, 3) fit old(1)] dax_inv_page(5) [OF assms(1, 3)]
    by (simp add: dax_write_page_def mbind_def stored_def Let_def)
qed

lemma expand_inv:
  assumes "dax_inv s"
  shows "\<exists>s1. expand None ((dx_pages s + 1) * page_size) s = (Inr (), s1) \<and> dax_inv s1 \<and> dx_pages s1 = dx_pages s + 1
    \<and> (\<forall>q. q \<noteq> dx_pages s \<longrightarrow> dax_view s1 q = dax_view s q \<and> durable_view s1 q = durable_view s q)"
proof -
  let ?n = "(dx_pages s + 1) * page_size"
  have len: "length (set_len ?n f) = ?n" for f by (simp add: set_len_def)
  have div: "?n div page_size = dx_pages s + 1" by (rule div_mult_self_is_m) simp
  have same: "file_page (set_len ?n f) q = file_page f q" if "length f = dx_pages s * page_size" "q \<noteq> dx_pages s" for f q
  proof (cases "q < dx_pages s")
    case True
    then have "q * page_size + page_size \<le> length f" using that(1) page_fits by simp
    with that(1) True show ?thesis by (simp add: file_page_def set_len_def)
  next
    case False
    with that(2) have "\<not> q < dx_pages s + 1" by simp
    with False that(1) len [of f] show ?thesis by (simp only: file_page_def page_fits if_False)
  qed
  with assms len div show ?thesis
    by (simp add: expand_def Let_def dax_inv_def dax_view_def durable_view_def del: mult_Suc)
qed

lemma dax_alloc_done:
  assumes "dax_inv s"
  shows "\<exists>s'. dax_allocate_page None s = (Inr (dx_pages s), s') \<and> dax_inv s' \<and> dx_pages s' = dx_pages s + 1
    \<and> dax_view s' = (dax_view s)(dx_pages s \<mapsto> replicate page_size 0)
    \<and> durable_view s' = (durable_view s)(dx_pages s \<mapsto> replicate page_size 0)"
proof -
  obtain s1 where s1: "expand None ((dx_pages s + 1) * page_size) s = (Inr (), s1)" "dax_inv s1" "dx_pages s1 = dx_pages s + 1"
    "\<And>q. q \<noteq> dx_pages s \<Longrightarrow> dax_view s1 q = dax_view s q \<and> durable_view s1 q = durable_view s q"
    using expand_inv [OF assms] by blast
  obtain s' where s': "dax_write_page (dx_pages s) (replicate page_size 0) s1 = (Inr (), s')" "dax_inv s'" "dx_pages s' = dx_pages s1"
    "dax_view s' = (dax_view s1)(dx_pages s \<mapsto> replicate page_size 0)" "durable_view s' = (durable_view s1)(dx_pages s \<mapsto> replicate page_size 0)"
    using dax_write_present [OF s1(2), of "replicate page_size 0" "dx_pages s"] s1(3) by auto
  have "dax_view s' = (dax_view s)(dx_pages s \<mapsto> replicate page_size 0)" "durable_view s' = (durable_view s)(dx_pages s \<mapsto> replicate page_size 0)"
    using s'(4, 5) s1(4) by (auto simp: fun_eq_iff)
  with s1(1, 3) s'(1-3) show ?thesis by (simp add: dax_allocate_page_def Let_def mbind_def del: mult_Suc)
qed

interpretation dax: vfs_contract "dax_ops None False" dax_inv dax_view
proof
  fix s :: dax_vfs and pid and page :: bytes
  assume inv: "dax_inv s" and "length page = page_size" "dax_view s pid \<noteq> None"
  then have "pid < dx_pages s" by (simp add: dax_view_at split: if_splits)
  with dax_write_present [OF inv, of page pid] \<open>length page = page_size\<close>
  show "\<exists>s'. av_write (dax_ops None False) pid page s = (Inr (), s') \<and> dax_inv s' \<and> dax_view s' pid = Some page
      \<and> (\<forall>q. q \<noteq> pid \<longrightarrow> dax_view s q \<noteq> None \<longrightarrow> dax_view s' q = dax_view s q)"
    by (auto simp: dax_ops_def)
next
  fix s :: dax_vfs
  assume inv: "dax_inv s"
  have "dax_view s (dx_pages s) = None" using inv by (simp add: dax_view_at)
  with dax_alloc_done [OF inv]
  show "\<exists>pid s'. av_alloc (dax_ops None False) s = (Inr pid, s') \<and> dax_inv s' \<and> dax_view s pid = None
      \<and> dax_view s' pid = Some (replicate page_size 0) \<and> (\<forall>q. q \<noteq> pid \<longrightarrow> dax_view s' q = dax_view s q)"
    by (auto simp: dax_ops_def)
qed (simp_all add: dax_ops_def dax_read_present dax_read_absent)

section \<open>The log\<close>

definition log_ok :: "pmem_log \<Rightarrow> bool" where
  "log_ok l \<longleftrightarrow> dax_inv (pl_vfs l) \<and> pl_page l < dx_pages (pl_vfs l)
     \<and> durable_view (pl_vfs l) (pl_page l) = dax_view (pl_vfs l) (pl_page l)"

text \<open>The bytes of the log page.\<close>

definition log_page :: "pmem_log \<Rightarrow> bytes" where
  "log_page l = the (dax_view (pl_vfs l) (pl_page l))"

lemma log_view:
  assumes "log_ok l"
  shows "dax_view (pl_vfs l) (pl_page l) = Some (log_page l)" and "length (log_page l) = page_size"
  using assms dax_inv_page(1) [of "pl_vfs l" "pl_page l"] by (simp_all add: log_ok_def log_page_def dax_view_at)

lemma log_new_ok:
  assumes "dax_inv v"
  shows "\<exists>l. pmem_log_new None v = Inr l \<and> log_ok l \<and> pl_offset l = 0"
  using dax_alloc_done [OF assms] by (auto simp: pmem_log_new_def log_ok_def)

lemma log_append_full:
  "page_size < pl_offset l + length data \<Longrightarrow>
    log_append data l = (Inl (Error StorageError), l\<lparr>pl_offset := pl_offset l + length data\<rparr>)"
  by (simp add: log_append_def Let_def)

lemma log_append_fits:
  assumes "log_ok l" and "pl_offset l + length data \<le> page_size"
  shows "\<exists>l'. log_append data l = (Inr (pl_offset l), l') \<and> log_ok l' \<and> pl_offset l' = pl_offset l + length data
    \<and> log_page l' = write_at (pl_offset l) data (log_page l)"
proof -
  have ok: "dax_inv (pl_vfs l)" "pl_page l < dx_pages (pl_vfs l)" using assms(1) by (simp_all add: log_ok_def)
  let ?v = "stored (pl_page l) (pl_offset l) data (pl_vfs l)"
  let ?l = "l\<lparr>pl_offset := pl_offset l + length data, pl_vfs := ?v\<rparr>"
  note st = store_persist [OF ok assms(2)] and views = stored_views [OF ok assms(2) log_view(1) [OF assms(1)]]
  have "log_append data l = (Inr (pl_offset l), ?l)"
    using assms(2) st dax_inv_page(5) [OF ok] by (simp add: log_append_def Let_def mbind_def on_dax_def)
  moreover have "log_ok ?l" using st(3) ok(2) views by (simp add: log_ok_def) (simp add: stored_def Let_def)
  moreover have "log_page ?l = write_at (pl_offset l) data (log_page l)" using views(1) by (simp add: log_page_def)
  ultimately show ?thesis by simp
qed

lemma log_read_done:
  assumes "log_ok l" and "off + len \<le> page_size"
  shows "fst (log_read off len l) = Inr (take len (drop off (log_page l)))"
proof -
  have ok: "dax_inv (pl_vfs l)" "pl_page l < dx_pages (pl_vfs l)" using assms(1) by (simp_all add: log_ok_def)
  have "log_page l = take page_size (drop (pl_page l * page_size) (dx_file (pl_vfs l)))"
    using log_view(1) [OF assms(1)] ok by (simp add: dax_view_at)
  then show ?thesis
    using assms(2) dax_inv_page [OF ok]
    by (simp add: log_read_def mbind_def on_dax_def load_bytes_def in_mapping_def drop_take min_def add.commute)
qed

text \<open>A sequence of further appends, the refused ones included.\<close>

primrec log_appends :: "bytes list \<Rightarrow> pmem_log \<Rightarrow> pmem_log" where
  "log_appends [] l = l"
| "log_appends (data # rest) l = log_appends rest (snd (log_append data l))"

lemma log_append_prefix:
  assumes "log_ok l"
  shows "log_ok (snd (log_append data l)) \<and> pl_offset l \<le> pl_offset (snd (log_append data l))
    \<and> take (pl_offset l) (log_page (snd (log_append data l))) = take (pl_offset l) (log_page l)"
proof (cases "pl_offset l + length data \<le> page_size")
  case True
  from log_append_fits [OF assms True] obtain l' where l': "log_append data l = (Inr (pl_offset l), l')" "log_ok l'"
    "pl_offset l' = pl_offset l + length data" "log_page l' = write_at (pl_offset l) data (log_page l)" by blast
  with True log_view(2) [OF assms] show ?thesis by (simp add: write_at_def)
next
  case False
  with log_append_full [of l data] assms show ?thesis by (simp add: log_ok_def log_page_def)
qed

lemma log_appends_prefix:
  "log_ok l \<Longrightarrow> log_ok (log_appends datas l) \<and> pl_offset l \<le> pl_offset (log_appends datas l)
    \<and> take (pl_offset l) (log_page (log_appends datas l)) = take (pl_offset l) (log_page l)"
proof (induction datas arbitrary: l)
  case (Cons data datas)
  let ?l = "snd (log_append data l)"
  note step = log_append_prefix [OF Cons.prems, of data]
  note IH = Cons.IH [of ?l]
  have "take (pl_offset l) (log_page (log_appends datas ?l)) = take (pl_offset l) (take (pl_offset ?l) (log_page (log_appends datas ?l)))"
    using step by (simp add: min_def)
  also have "\<dots> = take (pl_offset l) (log_page l)" using step IH by (simp add: min_def)
  finally show ?case using step IH by auto
qed simp

section \<open>Properties\<close>

text \<open>
  C39: a log entry stays readable and durable. From any log on a well-formed mapped file, an entry that fits is
  accepted at the current offset, and after any further appends, accepted or refused, reading at that offset returns
  the entry and the bytes that survive a power failure hold it too.
\<close>

theorem pmem_log_durable:
  assumes "log_ok l" and "pl_offset l + length data \<le> page_size"
  shows "\<exists>l'. log_append data l = (Inr (pl_offset l), l')
    \<and> fst (log_read (pl_offset l) (length data) (log_appends datas l')) = Inr data
    \<and> (\<exists>page. durable_view (pl_vfs (log_appends datas l')) (pl_page (log_appends datas l')) = Some page
         \<and> take (length data) (drop (pl_offset l) page) = data)"
proof -
  from log_append_fits [OF assms] obtain l' where l': "log_append data l = (Inr (pl_offset l), l')" "log_ok l'"
    "pl_offset l' = pl_offset l + length data" "log_page l' = write_at (pl_offset l) data (log_page l)" by blast
  let ?l = "log_appends datas l'"
  have ok: "log_ok ?l" and same: "take (pl_offset l') (log_page ?l) = take (pl_offset l') (log_page l')"
    using log_appends_prefix [OF l'(2)] by simp_all
  have "take (length data) (drop (pl_offset l) (log_page ?l)) = drop (pl_offset l) (take (pl_offset l') (log_page ?l))"
    using l'(3) by (simp add: drop_take)
  also have "\<dots> = take (length data) (drop (pl_offset l) (log_page l'))"
    unfolding same using l'(3) by (simp add: drop_take)
  also have "\<dots> = data" using l'(4) write_at_mid by simp
  finally have "take (length data) (drop (pl_offset l) (log_page ?l)) = data" .
  with l'(1) log_read_done [OF ok assms(2)] log_view(1) [OF ok] ok show ?thesis by (simp add: log_ok_def)
qed

text \<open>A refused entry still moves the offset, so that entries which would fit are refused from then on.\<close>

lemma refused_append_fills_log:
  assumes "page_size < pl_offset l + length data" and "data' \<noteq> []"
  shows "fst (log_append data' (snd (log_append data l))) = Inl (Error StorageError)"
  using assms by (simp add: log_append_full log_append_def Let_def)

text \<open>The streaming store of a page leaves what a plain write leaves.\<close>

theorem non_temporal_store_writes:
  assumes "dax_inv s" and "pid < dx_pages s" and "length page = page_size"
  shows "non_temporal_store pid page s = dax_write_page pid page s"
  using assms dax_inv_page [OF assms(1, 2)] non_temporal_memcpy_done [of s "pid * page_size" page_size page]
  by (simp add: non_temporal_store_def dax_write_page_def mbind_def store_bytes_def in_mapping_def)

definition empty_log :: pmem_log where
  "empty_log = (case pmem_log_new None (dax_new []) of Inr l \<Rightarrow> l | Inl _ \<Rightarrow> \<lparr>pl_vfs = dax_new [], pl_page = 0, pl_offset = 0\<rparr>)"

lemma empty_log_ok: "log_ok empty_log" "pl_offset empty_log = 0"
proof -
  have "dax_inv (dax_new [])" by (simp add: dax_inv_def dax_new_def page_size_def)
  from log_new_ok [OF this] show "log_ok empty_log" "pl_offset empty_log = 0" by (auto simp: empty_log_def)
qed

theorem pmem_log_durable_witness:
  "\<exists>l'. log_append [1, 2] empty_log = (Inr 0, l') \<and> fst (log_read 0 2 (log_appends [[3], replicate 5000 0, [4]] l')) = Inr [1, 2]"
  using pmem_log_durable [OF empty_log_ok(1), of "[1, 2]" "[[3], replicate 5000 0, [4]]"] empty_log_ok(2)
  by (auto simp: page_size_def numeral_2_eq_2)

end
