(* ===== verification/Cloud.thy ===== *)
theory Cloud
  imports AsyncTheorems
begin

text \<open>
  The storage layer over a remote object, \<open>src/cloud_vfs.rs\<close> with the feature \<open>cloud-vfs\<close>: a read cache, pending
  writes that \<open>flush\<close> uploads by rewriting the object, and the prefetcher.

  The client of the \<open>object_store\<close> crate is a parameter, the record \<open>object_store\<close> of its calls on one path; \<open>None\<close> and
  \<open>False\<close> are its errors. The order in which a hash map lists its keys is the argument \<open>ord\<close>, the entry the cache drops the argument \<open>pick\<close>.
\<close>

section \<open>Remote storage\<close>

record 'o object_store =
  os_head :: "'o \<Rightarrow> nat option"
  os_get_range :: "nat \<Rightarrow> nat \<Rightarrow> 'o \<Rightarrow> bytes option"
  os_get :: "'o \<Rightarrow> bytes option"
  os_put :: "bytes \<Rightarrow> 'o \<Rightarrow> bool \<times> 'o"

record 'o cloud_vfs =
  cv_store :: 'o
  cv_cache :: "(nat, bytes) fmap"
  cv_capacity :: nat
  cv_pages :: nat
  cv_pending :: "(nat, bytes) fmap"

definition cloud_new :: "'o object_store \<Rightarrow> nat \<Rightarrow> 'o \<Rightarrow> 'o cloud_vfs" where
  "cloud_new S cache_capacity store =
     \<lparr>cv_store = store, cv_cache = fmempty, cv_capacity = cache_capacity,
      cv_pages = (case os_head S store of Some file_size \<Rightarrow> (file_size + page_size - 1) div page_size | None \<Rightarrow> 0),
      cv_pending = fmempty\<rparr>"

definition fetch_page_from_remote :: "'o object_store \<Rightarrow> nat \<Rightarrow> ('o cloud_vfs, bytes) op" where
  "fetch_page_from_remote S page_id c =
     (let off = page_id * page_size in
      case os_get_range S off (off + page_size) (cv_store c) of
        None \<Rightarrow> (Inl (Error IoError), c)
      | Some found \<Rightarrow>
          let bytes_read = min (length found) page_size in
          (Inr (take bytes_read found @ replicate (page_size - bytes_read) 0), c))"

definition flush_page_to_remote :: "'o object_store \<Rightarrow> nat \<Rightarrow> bytes \<Rightarrow> ('o cloud_vfs, unit) op" where
  "flush_page_to_remote S page_id page c =
     (let off = page_id * page_size;
          file_data = (case os_get S (cv_store c) of Some d \<Rightarrow> d | None \<Rightarrow> []);
          required_size = off + page_size;
          new_data = (if length file_data < required_size then set_len required_size file_data else file_data)
      in case os_put S (write_at off page new_data) (cv_store c) of (ok, store) \<Rightarrow>
           (if ok then Inr () else Inl (Error IoError), c\<lparr>cv_store := store\<rparr>))"

definition cloud_evict_lru :: "((nat, bytes) fmap \<Rightarrow> nat option) \<Rightarrow> 'o cloud_vfs \<Rightarrow> 'o cloud_vfs" where
  "cloud_evict_lru pick c =
     (if cv_capacity c \<le> fcard (fmdom (cv_cache c))
      then case pick (cv_cache c) of None \<Rightarrow> c | Some page_id \<Rightarrow> c\<lparr>cv_cache := fmdrop page_id (cv_cache c)\<rparr>
      else c)"

section \<open>The operations of the trait\<close>

definition cloud_read_page :: "'o object_store \<Rightarrow> ((nat, bytes) fmap \<Rightarrow> nat option) \<Rightarrow> nat \<Rightarrow> ('o cloud_vfs, bytes) op" where
  "cloud_read_page S pick page_id c =
     (case fmlookup (cv_pending c) page_id of
        Some page \<Rightarrow> (Inr page, c)
      | None \<Rightarrow>
          (case fmlookup (cv_cache c) page_id of
             Some page \<Rightarrow> (Inr page, c)
           | None \<Rightarrow>
               mbind (fetch_page_from_remote S page_id) (\<lambda>page c.
                 let c1 = cloud_evict_lru pick c in
                 (Inr page, c1\<lparr>cv_cache := fmupd page_id page (cv_cache c1)\<rparr>)) c))"

definition cloud_write_page :: "nat \<Rightarrow> bytes \<Rightarrow> ('o cloud_vfs, unit) op" where
  "cloud_write_page page_id page c =
     (Inr (), c\<lparr>cv_pending := fmupd page_id page (cv_pending c), cv_cache := fmupd page_id page (cv_cache c),
        cv_pages := (if cv_pages c \<le> page_id then page_id + 1 else cv_pages c)\<rparr>)"

definition cloud_allocate_page :: "('o cloud_vfs, nat) op" where
  "cloud_allocate_page c =
     (let page_id = cv_pages c in
      mbind (cloud_write_page page_id (replicate page_size 0)) (\<lambda>_. mret page_id) (c\<lparr>cv_pages := page_id + 1\<rparr>))"

text \<open>Draining the map empties it whether or not the loop reaches its end.\<close>

fun flush_loop :: "'o object_store \<Rightarrow> (nat \<times> bytes) list \<Rightarrow> ('o cloud_vfs, unit) op" where
  "flush_loop S [] = mret ()"
| "flush_loop S ((page_id, page) # rest) = mbind (flush_page_to_remote S page_id page) (\<lambda>_. flush_loop S rest)"

definition drained :: "(nat fset \<Rightarrow> nat list) \<Rightarrow> (nat, bytes) fmap \<Rightarrow> (nat \<times> bytes) list" where
  "drained ord m = List.map_filter (\<lambda>k. map_option (Pair k) (fmlookup m k)) (ord (fmdom m))"

definition cloud_flush :: "'o object_store \<Rightarrow> (nat fset \<Rightarrow> nat list) \<Rightarrow> ('o cloud_vfs, unit) op" where
  "cloud_flush S ord c = flush_loop S (drained ord (cv_pending c)) (c\<lparr>cv_pending := fmempty\<rparr>)"

definition cloud_ops :: "'o object_store \<Rightarrow> ((nat, bytes) fmap \<Rightarrow> nat option) \<Rightarrow> (nat fset \<Rightarrow> nat list) \<Rightarrow> 'o cloud_vfs async_vfs" where
  "cloud_ops S pick ord = \<lparr>av_read = cloud_read_page S pick, av_write = cloud_write_page, av_alloc = cloud_allocate_page,
     av_flush = cloud_flush S ord, av_num_pages = cv_pages, av_sync = cloud_flush S ord\<rparr>"

section \<open>The prefetcher\<close>

text \<open>The reads are spawned as tasks, which run in the order \<open>sched\<close> of their indices; their results are ignored.\<close>

definition prefetch_range ::
    "'o object_store \<Rightarrow> ((nat, bytes) fmap \<Rightarrow> nat option) \<Rightarrow> (nat \<Rightarrow> nat list) \<Rightarrow> nat \<Rightarrow> nat \<Rightarrow> ('o cloud_vfs, unit) op" where
  "prefetch_range S pick sched start_page count c =
     (Inr (), fold (\<lambda>i c. snd (cloud_read_page S pick (start_page + i) c)) (sched count) c)"

definition prefetch_sequential ::
    "'o object_store \<Rightarrow> ((nat, bytes) fmap \<Rightarrow> nat option) \<Rightarrow> (nat \<Rightarrow> nat list) \<Rightarrow> nat \<Rightarrow> nat \<Rightarrow> ('o cloud_vfs, unit) op" where
  "prefetch_sequential S pick sched current_page window = prefetch_range S pick sched (current_page + 1) window"

section \<open>What is read\<close>

text \<open>
  The documented behaviour of the client that the code relies on: the calls see the object, a range inside it is returned in
  full, one that starts behind its end is an error, and a put replaces the object or leaves it as it was.
\<close>

definition store_laws :: "'o object_store \<Rightarrow> ('o \<Rightarrow> bytes option) \<Rightarrow> bool" where
  "store_laws S obj \<longleftrightarrow>
     (\<forall>st. os_head S st = map_option length (obj st) \<and> os_get S st = obj st) \<and>
     (\<forall>st a b. a < b \<longrightarrow>
        (case obj st of
           None \<Rightarrow> os_get_range S a b st = None
         | Some d \<Rightarrow> (if b \<le> length d then os_get_range S a b st = Some (take (b - a) (drop a d))
                      else length d \<le> a \<longrightarrow> os_get_range S a b st = None))) \<and>
     (\<forall>st d ok st'. os_put S d st = (ok, st') \<longrightarrow> obj st' = (if ok then Some d else obj st))"

definition remote_data :: "('o \<Rightarrow> bytes option) \<Rightarrow> 'o \<Rightarrow> bytes" where
  "remote_data obj st = (case obj st of Some d \<Rightarrow> d | None \<Rightarrow> [])"

definition cloud_view :: "('o \<Rightarrow> bytes option) \<Rightarrow> 'o cloud_vfs \<Rightarrow> nat \<Rightarrow> bytes option" where
  "cloud_view obj c page_id =
     (case fmlookup (cv_pending c) page_id of Some page \<Rightarrow> Some page | None \<Rightarrow> file_page (remote_data obj (cv_store c)) page_id)"

definition cloud_inv :: "('o \<Rightarrow> bytes option) \<Rightarrow> 'o cloud_vfs \<Rightarrow> bool" where
  "cloud_inv obj c \<longleftrightarrow> (\<exists>n. length (remote_data obj (cv_store c)) = n * page_size)
     \<and> (\<forall>pid page. fmlookup (cv_pending c) pid = Some page \<longrightarrow> length page = page_size)
     \<and> (\<forall>pid page. fmlookup (cv_cache c) pid = Some page \<longrightarrow> cloud_view obj c pid = Some page)
     \<and> (\<forall>pid. cloud_view obj c pid \<noteq> None \<longrightarrow> pid < cv_pages c)"

text \<open>The calls of a client whose flushes succeed.\<close>

inductive cloud_reachable :: "'o object_store \<Rightarrow> ('o \<Rightarrow> bytes option) \<Rightarrow> 'o cloud_vfs \<Rightarrow> bool" for S obj where
  cloud_open: "length (remote_data obj st) = n * page_size \<Longrightarrow> cloud_reachable S obj (cloud_new S capacity st)"
| cloud_read: "cloud_reachable S obj c \<Longrightarrow> cloud_reachable S obj (snd (cloud_read_page S pick pid c))"
| cloud_write: "cloud_reachable S obj c \<Longrightarrow> length page = page_size \<Longrightarrow> cloud_reachable S obj (snd (cloud_write_page pid page c))"
| cloud_alloc: "cloud_reachable S obj c \<Longrightarrow> cloud_reachable S obj (snd (cloud_allocate_page c))"
| cloud_flushed: "cloud_reachable S obj c \<Longrightarrow> (\<And>K. set (ord K) = fset K) \<Longrightarrow> cloud_flush S ord c = (Inr (), c') \<Longrightarrow> cloud_reachable S obj c'"

section \<open>One call\<close>

lemma page_size_neq [simp]: "page_size \<noteq> 0"
  by (simp add: page_size_def)

lemma file_page_multiple:
  assumes "length d = n * page_size"
  shows "file_page d pid = (if pid < n then Some (take page_size (drop (pid * page_size) d)) else None)"
  using assms by (simp add: file_page_def page_fits)

lemma fetch_present:
  assumes "store_laws S obj" and "file_page (remote_data obj (cv_store c)) pid = Some page"
  shows "fetch_page_from_remote S pid c = (Inr page, c)"
proof -
  let ?d = "remote_data obj (cv_store c)"
  have fit: "pid * page_size + page_size \<le> length ?d" and page: "page = take page_size (drop (pid * page_size) ?d)"
    using assms(2) by (auto simp: file_page_def split: if_splits)
  from fit have obj: "obj (cv_store c) = Some ?d" by (auto simp: remote_data_def split: option.splits)
  have "os_get_range S (pid * page_size) (pid * page_size + page_size) (cv_store c) = Some page"
    using assms(1) [unfolded store_laws_def, THEN conjunct2, THEN conjunct1, rule_format,
        of "pid * page_size" "pid * page_size + page_size" "cv_store c"] fit page by (simp add: obj)
  moreover have "length page = page_size" using fit page by simp
  ultimately show ?thesis by (simp add: fetch_page_from_remote_def Let_def)
qed

lemma fetch_absent:
  assumes "store_laws S obj" and "length (remote_data obj (cv_store c)) = n * page_size"
    and "file_page (remote_data obj (cv_store c)) pid = None"
  shows "fetch_page_from_remote S pid c = (Inl (Error IoError), c)"
proof -
  let ?d = "remote_data obj (cv_store c)"
  have "n \<le> pid" using assms(3) by (simp add: file_page_multiple [OF assms(2)] split: if_splits)
  then have behind: "length ?d \<le> pid * page_size" using assms(2) by simp
  then have "\<not> pid * page_size + page_size \<le> length ?d" using page_size_pos by linarith
  then have "os_get_range S (pid * page_size) (pid * page_size + page_size) (cv_store c) = None"
    using assms(1) [unfolded store_laws_def, THEN conjunct2, THEN conjunct1, rule_format,
        of "pid * page_size" "pid * page_size + page_size" "cv_store c"] behind
    by (auto simp: remote_data_def split: option.splits if_splits)
  then show ?thesis by (simp add: fetch_page_from_remote_def Let_def)
qed

lemma cloud_view_cache [simp]: "cloud_view obj (c\<lparr>cv_cache := m\<rparr>) = cloud_view obj c"
  by (rule ext) (simp add: cloud_view_def split: option.split)

lemma cloud_evict_keeps:
  "\<exists>m. cloud_evict_lru pick c = c\<lparr>cv_cache := m\<rparr> \<and> (\<forall>k x. fmlookup m k = Some x \<longrightarrow> fmlookup (cv_cache c) k = Some x)"
proof -
  have same: "c = c\<lparr>cv_cache := cv_cache c\<rparr>" by simp
  show ?thesis
  proof (cases "cv_capacity c \<le> fcard (fmdom (cv_cache c)) \<and> pick (cv_cache c) \<noteq> None")
    case True
    then show ?thesis by (auto simp: cloud_evict_lru_def intro!: exI [of _ "fmdrop (the (pick (cv_cache c))) (cv_cache c)"] split: if_splits)
  next
    case False
    then have "cloud_evict_lru pick c = c" by (auto simp: cloud_evict_lru_def)
    then show ?thesis using same by metis
  qed
qed

lemma cloud_read_present:
  assumes "store_laws S obj" and inv: "cloud_inv obj c" and "cloud_view obj c pid = Some page"
  shows "\<exists>m. cloud_read_page S pick pid c = (Inr page, c\<lparr>cv_cache := m\<rparr>)
    \<and> (\<forall>k x. fmlookup m k = Some x \<longrightarrow> cloud_view obj c k = Some x)"
proof -
  have cached: "fmlookup (cv_cache c) k = Some x \<Longrightarrow> cloud_view obj c k = Some x" for k x using inv by (simp add: cloud_inv_def)
  have same: "c = c\<lparr>cv_cache := cv_cache c\<rparr>" by simp
  show ?thesis
  proof (cases "fmlookup (cv_pending c) pid = None \<and> fmlookup (cv_cache c) pid = None")
    case True
    then have fetch: "fetch_page_from_remote S pid c = (Inr page, c)"
      using fetch_present [OF assms(1)] assms(3) by (simp add: cloud_view_def)
    obtain m where m: "cloud_evict_lru pick c = c\<lparr>cv_cache := m\<rparr>" "\<forall>k x. fmlookup m k = Some x \<longrightarrow> fmlookup (cv_cache c) k = Some x"
      using cloud_evict_keeps by blast
    have "cloud_read_page S pick pid c = (Inr page, c\<lparr>cv_cache := fmupd pid page m\<rparr>)"
      using True fetch m(1) by (simp add: cloud_read_page_def mbind_def)
    moreover have "\<forall>k x. fmlookup (fmupd pid page m) k = Some x \<longrightarrow> cloud_view obj c k = Some x"
      using m(2) cached assms(3) by auto
    ultimately show ?thesis by blast
  next
    case False
    then have "cloud_read_page S pick pid c = (Inr page, c)"
      using assms(3) cached [of pid] by (auto simp: cloud_read_page_def cloud_view_def split: option.splits)
    then show ?thesis using same cached by metis
  qed
qed

lemma cloud_read_absent:
  assumes "store_laws S obj" and inv: "cloud_inv obj c" and "cloud_view obj c pid = None"
  shows "cloud_read_page S pick pid c = (Inl (Error IoError), c)"
proof -
  have none: "fmlookup (cv_pending c) pid = None" "file_page (remote_data obj (cv_store c)) pid = None"
    using assms(3) by (auto simp: cloud_view_def split: option.splits)
  moreover have "fmlookup (cv_cache c) pid = None"
    using inv assms(3) by (cases "fmlookup (cv_cache c) pid") (auto simp: cloud_inv_def)
  moreover obtain n where n: "length (remote_data obj (cv_store c)) = n * page_size" using inv by (auto simp: cloud_inv_def)
  ultimately show ?thesis using fetch_absent [OF assms(1) n none(2)] by (simp add: cloud_read_page_def mbind_def)
qed

lemma cloud_write_inv:
  assumes "cloud_inv obj c" and "length page = page_size"
  shows "cloud_inv obj (snd (cloud_write_page pid page c))"
    and "cloud_view obj (snd (cloud_write_page pid page c)) = (cloud_view obj c)(pid \<mapsto> page)"
proof -
  let ?c = "snd (cloud_write_page pid page c)"
  show view: "cloud_view obj ?c = (cloud_view obj c)(pid \<mapsto> page)"
    by (rule ext) (simp add: cloud_view_def cloud_write_page_def split: option.split)
  show "cloud_inv obj ?c"
    unfolding cloud_inv_def view
    using assms by (auto simp: cloud_inv_def cloud_write_page_def split: if_splits)
qed

section \<open>Flushing\<close>

lemma store_put: "store_laws S obj \<Longrightarrow> os_put S d st = (ok, st') \<Longrightarrow> obj st' = (if ok then Some d else obj st)"
  by (simp add: store_laws_def)

lemma flush_page_done:
  assumes "store_laws S obj" and "flush_page_to_remote S pid page c = (Inr (), c')" and "length page = page_size"
  shows "\<exists>st. c' = c\<lparr>cv_store := st\<rparr> \<and> remote_data obj st = write_at (pid * page_size) page (remote_data obj (cv_store c))"
proof -
  let ?d = "remote_data obj (cv_store c)" and ?off = "pid * page_size"
  let ?new = "if length ?d < ?off + page_size then set_len (?off + page_size) ?d else ?d"
  have get: "(case os_get S (cv_store c) of Some d \<Rightarrow> d | None \<Rightarrow> []) = ?d"
    using assms(1) by (simp add: store_laws_def remote_data_def)
  have same: "write_at ?off page ?new = write_at ?off page ?d"
    using assms(3) by (auto simp: write_at_def set_len_def min_def take_append)
  obtain ok st where put: "os_put S (write_at ?off page ?new) (cv_store c) = (ok, st)" by fastforce
  with assms(2) have "ok" "c' = c\<lparr>cv_store := st\<rparr>"
    unfolding flush_page_to_remote_def Let_def get by (auto split: if_splits)
  moreover have "obj st = Some (write_at ?off page ?d)"
    using store_put [OF assms(1) put] \<open>ok\<close> same by simp
  then have "remote_data obj st = write_at ?off page ?d" by (simp add: remote_data_def)
  ultimately show ?thesis by blast
qed

definition replay :: "(nat \<times> bytes) list \<Rightarrow> bytes \<Rightarrow> bytes" where
  "replay = fold (\<lambda>(pid, page). write_at (pid * page_size) page)"

lemma flush_loop_done:
  assumes "store_laws S obj" and "flush_loop S pairs c = (Inr (), c')" and "\<forall>(pid, page)\<in>set pairs. length page = page_size"
  shows "\<exists>st. c' = c\<lparr>cv_store := st\<rparr> \<and> remote_data obj st = replay pairs (remote_data obj (cv_store c))"
  using assms(2, 3)
proof (induction pairs arbitrary: c)
  case Nil
  then show ?case by (auto simp: replay_def intro: exI [of _ "cv_store c"])
next
  case (Cons pair pairs)
  obtain pid page where pair: "pair = (pid, page)" by fastforce
  from Cons.prems(1) obtain c1 where c1: "flush_page_to_remote S pid page c = (Inr (), c1)" "flush_loop S pairs c1 = (Inr (), c')"
    by (auto simp: pair mbind_eq_Inr)
  from flush_page_done [OF assms(1) c1(1)] Cons.prems(2) obtain st where
    st: "c1 = c\<lparr>cv_store := st\<rparr>" "remote_data obj st = write_at (pid * page_size) page (remote_data obj (cv_store c))"
    by (auto simp: pair)
  from Cons.IH [OF c1(2)] Cons.prems(2) st show ?case by (auto simp: pair replay_def)
qed

lemma replay_kept:
  "file_page d pid = Some x \<Longrightarrow> \<forall>(k, page)\<in>set pairs. length page = page_size \<Longrightarrow> pid \<notin> fst ` set pairs
    \<Longrightarrow> file_page (replay pairs d) pid = Some x"
  by (induction pairs arbitrary: d) (auto simp: replay_def file_page_write_other)

lemma replay_written:
  assumes "\<forall>(k, page)\<in>set pairs. m k = Some page \<and> length page = page_size" and "pid \<in> fst ` set pairs"
  shows "file_page (replay pairs d) pid = m pid"
  using assms
proof (induction pairs arbitrary: d)
  case (Cons pair pairs)
  obtain k page where pair: "pair = (k, page)" by fastforce
  show ?case
  proof (cases "pid \<in> fst ` set pairs")
    case True
    with Cons.IH [of "write_at (k * page_size) page d"] Cons.prems(1) show ?thesis by (simp add: pair replay_def)
  next
    case False
    with Cons.prems have pid: "pid = k" "m k = Some page" "length page = page_size" by (auto simp: pair)
    moreover have "file_page (write_at (k * page_size) page d) k = Some page" using pid(3) by (rule file_page_write_same)
    ultimately show ?thesis
      using replay_kept [of "write_at (k * page_size) page d" k page pairs] Cons.prems(1) False by (auto simp: pair replay_def)
  qed
qed simp

lemma replay_length:
  "length d = n * page_size \<Longrightarrow> n \<le> bound \<Longrightarrow> \<forall>(k, page)\<in>set pairs. length page = page_size \<and> k < bound \<Longrightarrow>
    \<exists>n'\<le>bound. length (replay pairs d) = n' * page_size"
proof (induction pairs arbitrary: d n)
  case (Cons pair pairs)
  obtain k page where pair: "pair = (k, page)" by fastforce
  have "length (write_at (k * page_size) page d) = max n (Suc k) * page_size"
    using Cons.prems by (simp add: pair length_write_at nat_mult_max_left add.commute)
  from Cons.IH [OF this] Cons.prems(2, 3) show ?case by (simp add: pair replay_def)
qed (auto simp: replay_def)

lemma drained_pairs:
  assumes "\<And>K. set (ord K) = fset K"
  shows "(pid, page) \<in> set (drained ord m) \<longleftrightarrow> fmlookup m pid = Some page"
proof -
  have "pid |\<in>| fmdom m" if "fmlookup m pid = Some page" using that by (rule fmdomI)
  then show ?thesis using assms by (force simp: drained_def List.map_filter_def)
qed

lemma cloud_remote_bound:
  assumes "cloud_inv obj c"
  shows "\<exists>n\<le>cv_pages c. length (remote_data obj (cv_store c)) = n * page_size"
proof -
  obtain n where n: "length (remote_data obj (cv_store c)) = n * page_size" using assms by (auto simp: cloud_inv_def)
  have "pid < cv_pages c" if "pid < n" for pid
  proof -
    have "cloud_view obj c pid \<noteq> None"
      using that by (cases "fmlookup (cv_pending c) pid") (simp_all add: cloud_view_def file_page_multiple [OF n])
    with assms show ?thesis by (simp add: cloud_inv_def)
  qed
  then have "n \<le> cv_pages c" by (metis le_less_linear less_irrefl)
  with n show ?thesis by blast
qed

lemma flush_remote:
  assumes laws: "store_laws S obj" and inv: "cloud_inv obj c" and ord: "\<And>K. set (ord K) = fset K"
    and flush: "cloud_flush S ord c = (Inr (), c')"
  shows "cv_pending c' = fmempty" and "cv_cache c' = cv_cache c" and "cv_pages c' = cv_pages c"
    and "cloud_view obj c pid = Some page \<Longrightarrow> file_page (remote_data obj (cv_store c')) pid = Some page"
    and "\<exists>n\<le>cv_pages c'. length (remote_data obj (cv_store c')) = n * page_size"
proof -
  let ?pairs = "drained ord (cv_pending c)" and ?d = "remote_data obj (cv_store c)"
  have "k < cv_pages c" if "fmlookup (cv_pending c) k = Some page" for k page
    using inv that unfolding cloud_inv_def cloud_view_def by (metis option.simps(3, 5))
  with inv have pairs: "\<forall>(k, page)\<in>set ?pairs. fmlookup (cv_pending c) k = Some page \<and> length page = page_size \<and> k < cv_pages c"
    by (auto simp: drained_pairs [OF ord] cloud_inv_def)
  then have lens: "\<forall>(k, page)\<in>set ?pairs. length page = page_size" by auto
  from flush_loop_done [OF laws flush [unfolded cloud_flush_def] lens]
  obtain st where st: "c' = c\<lparr>cv_pending := fmempty, cv_store := st\<rparr>" "remote_data obj st = replay ?pairs ?d" by auto
  then show "cv_pending c' = fmempty" "cv_cache c' = cv_cache c" and pages: "cv_pages c' = cv_pages c" by simp_all
  obtain n where "length ?d = n * page_size" "n \<le> cv_pages c" using cloud_remote_bound [OF inv] by blast
  moreover have "\<forall>(k, page)\<in>set ?pairs. length page = page_size \<and> k < cv_pages c" using pairs by auto
  ultimately show "\<exists>n\<le>cv_pages c'. length (remote_data obj (cv_store c')) = n * page_size"
    using replay_length [of ?d n "cv_pages c" ?pairs] st by simp
  assume view: "cloud_view obj c pid = Some page"
  show "file_page (remote_data obj (cv_store c')) pid = Some page"
  proof (cases "fmlookup (cv_pending c) pid")
    case None
    then have "pid \<notin> fst ` set ?pairs" using pairs by auto
    with None view replay_kept [OF _ lens] st show ?thesis by (simp add: cloud_view_def)
  next
    case (Some x)
    then have "pid \<in> fst ` set ?pairs" using drained_pairs [OF ord] by force
    moreover have "\<forall>(k, page)\<in>set ?pairs. fmlookup (cv_pending c) k = Some page \<and> length page = page_size" using pairs by auto
    ultimately show ?thesis using Some view replay_written [of ?pairs "fmlookup (cv_pending c)" pid ?d] st by (simp add: cloud_view_def)
  qed
qed

lemma cloud_flush_inv:
  assumes "store_laws S obj" and "cloud_inv obj c" and "\<And>K. set (ord K) = fset K" and "cloud_flush S ord c = (Inr (), c')"
  shows "cloud_inv obj c'"
proof -
  note flushed = flush_remote [OF assms]
  have view: "cloud_view obj c' = file_page (remote_data obj (cv_store c'))" using flushed(1) by (simp add: cloud_view_def fun_eq_iff)
  obtain n where n: "n \<le> cv_pages c'" "length (remote_data obj (cv_store c')) = n * page_size" using flushed(5) by blast
  have "cloud_view obj c' pid = Some page" if "fmlookup (cv_cache c') pid = Some page" for pid page
    using that flushed(2) flushed(4) [of pid page] assms(2) unfolding view by (simp add: cloud_inv_def)
  moreover have "pid < cv_pages c'" if "cloud_view obj c' pid \<noteq> None" for pid
    using that n(1) unfolding view by (simp add: file_page_multiple [OF n(2)] split: if_splits)
  ultimately show ?thesis using n(2) flushed(1) unfolding cloud_inv_def by auto
qed

lemma cloud_new_inv:
  assumes "store_laws S obj" and "length (remote_data obj st) = n * page_size"
  shows "cloud_inv obj (cloud_new S capacity st)" and "cloud_view obj (cloud_new S capacity st) = file_page (remote_data obj st)"
proof -
  let ?c = "cloud_new S capacity st"
  show view: "cloud_view obj ?c = file_page (remote_data obj st)" by (simp add: cloud_view_def cloud_new_def fun_eq_iff)
  have "(n * page_size + page_size - 1) div page_size = n"
    using div_mult_self3 [of page_size n "page_size - 1"] page_size_pos by (simp add: Nat.add_diff_assoc add.commute)
  then have "n \<le> cv_pages ?c"
    using assms by (cases "obj st") (auto simp: cloud_new_def store_laws_def remote_data_def)
  then show "cloud_inv obj ?c"
    using assms(2) unfolding cloud_inv_def view by (auto simp: cloud_new_def file_page_multiple [OF assms(2)])
qed

lemma cloud_read_inv:
  assumes "store_laws S obj" and "cloud_inv obj c"
  shows "cloud_inv obj (snd (cloud_read_page S pick pid c))"
    and "cloud_view obj (snd (cloud_read_page S pick pid c)) = cloud_view obj c"
proof -
  have "cloud_inv obj (snd (cloud_read_page S pick pid c)) \<and> cloud_view obj (snd (cloud_read_page S pick pid c)) = cloud_view obj c"
  proof (cases "cloud_view obj c pid")
    case None
    with cloud_read_absent [OF assms] assms(2) show ?thesis by simp
  next
    case (Some page)
    from cloud_read_present [OF assms Some] obtain m where
      "cloud_read_page S pick pid c = (Inr page, c\<lparr>cv_cache := m\<rparr>)" "\<forall>k x. fmlookup m k = Some x \<longrightarrow> cloud_view obj c k = Some x" by blast
    with assms(2) show ?thesis by (simp add: cloud_inv_def)
  qed
  then show "cloud_inv obj (snd (cloud_read_page S pick pid c))" "cloud_view obj (snd (cloud_read_page S pick pid c)) = cloud_view obj c"
    by blast+
qed

lemma cloud_alloc_inv:
  assumes "cloud_inv obj c"
  shows "cloud_inv obj (snd (cloud_allocate_page c))"
proof -
  have "cloud_inv obj (c\<lparr>cv_pages := cv_pages c + 1\<rparr>)"
  proof -
    have "cloud_view obj (c\<lparr>cv_pages := cv_pages c + 1\<rparr>) = cloud_view obj c"
      by (rule ext) (simp add: cloud_view_def split: option.split)
    then show ?thesis using assms unfolding cloud_inv_def by (auto intro: less_SucI)
  qed
  from cloud_write_inv(1) [OF this, of "replicate page_size 0" "cv_pages c"]
  show ?thesis by (simp add: cloud_allocate_page_def Let_def mbind_def cloud_write_page_def)
qed

lemma cloud_reachable_inv:
  assumes "store_laws S obj" and "cloud_reachable S obj c"
  shows "cloud_inv obj c"
  using assms(2)
proof induction
  case (cloud_flushed c ord c')
  from cloud_flush_inv [OF assms(1) cloud_flushed.IH cloud_flushed(2, 3)] show ?case .
qed (simp_all add: assms(1) cloud_new_inv cloud_read_inv cloud_write_inv cloud_alloc_inv)

section \<open>Properties\<close>


lemma flush_page_failed:
  assumes "store_laws S obj" and "\<And>d. fst (os_put S d (cv_store c)) = False"
  shows "\<exists>st. flush_page_to_remote S pid page c = (Inl (Error IoError), c\<lparr>cv_store := st\<rparr>) \<and> obj st = obj (cv_store c)"
proof -
  let ?d = "case os_get S (cv_store c) of Some d \<Rightarrow> d | None \<Rightarrow> []" and ?off = "pid * page_size"
  let ?new = "if length ?d < ?off + page_size then set_len (?off + page_size) ?d else ?d"
  obtain st where put: "os_put S (write_at ?off page ?new) (cv_store c) = (False, st)"
    using assms(2) [of "write_at ?off page ?new"] by (cases "os_put S (write_at ?off page ?new) (cv_store c)") simp
  have "flush_page_to_remote S pid page c = (Inl (Error IoError), c\<lparr>cv_store := st\<rparr>)"
    unfolding flush_page_to_remote_def Let_def put by simp
  with store_put [OF assms(1) put] show ?thesis by (simp add: exI [of _ st])
qed

text \<open>A flush whose upload fails has emptied the pending writes: the acknowledged pages are gone from them and not in the object.\<close>

lemma failed_flush_drops_writes:
  assumes "store_laws S obj" and "drained ord (cv_pending c) \<noteq> []" and "\<And>d. fst (os_put S d (cv_store c)) = False"
  shows "\<exists>c'. cloud_flush S ord c = (Inl (Error IoError), c') \<and> cv_pending c' = fmempty \<and> obj (cv_store c') = obj (cv_store c)"
proof -
  obtain pid page rest where d: "drained ord (cv_pending c) = (pid, page) # rest" using assms(2) by (cases "drained ord (cv_pending c)") auto
  obtain st where "flush_page_to_remote S pid page (c\<lparr>cv_pending := fmempty\<rparr>) = (Inl (Error IoError), c\<lparr>cv_pending := fmempty, cv_store := st\<rparr>)"
    "obj st = obj (cv_store c)"
    using flush_page_failed [OF assms(1), of "c\<lparr>cv_pending := fmempty\<rparr>" pid page] assms(3) by auto
  then show ?thesis by (simp add: cloud_flush_def d mbind_def)
qed

text \<open>The property on an object held in memory.\<close>

definition memory_store :: "bytes option object_store" where
  "memory_store = \<lparr>os_head = map_option length,
     os_get_range = \<lambda>a b st. (case st of None \<Rightarrow> None | Some d \<Rightarrow> if length d \<le> a then None else Some (take (b - a) (drop a d))),
     os_get = id, os_put = \<lambda>d st. (True, Some d)\<rparr>"

lemma memory_store_laws: "store_laws memory_store id"
  by (auto simp: store_laws_def memory_store_def split: option.split)


end
