(* ===== verification/AsyncApi.thy ===== *)
theory AsyncApi
  imports SqlText
begin

text \<open>
  The asynchronous interface, \<open>src/async_api.rs\<close>: every call runs as a task on a pool of threads. A panic of the task
  becomes an error of the caller, and the database stays as the panic left it. All connections share one database, so that a
  schedule of calls is a sequence of steps on it.
\<close>

section \<open>Calls\<close>

definition run_blocking :: "('s, 'a) op \<Rightarrow> ('s, 'a) op" where
  "run_blocking f s = (case f s of (Inl Panic, s1) \<Rightarrow> (Inl (Error IoError), s1) | answer \<Rightarrow> answer)"

definition builder_build :: "env \<Rightarrow> bytes \<Rightarrow> bytes \<Rightarrow> database result" where
  "builder_build en f wal_bytes = fst (run_blocking (\<lambda>_. (open_database en f wal_bytes, ())) ())"

definition conn_execute :: "env \<Rightarrow> regex_ops \<Rightarrow> (string fset \<Rightarrow> string list) \<Rightarrow> string \<Rightarrow> (database, unit) op" where
  "conn_execute en rx ord sql = run_blocking (db_execute en rx ord sql)"

definition conn_query :: "env \<Rightarrow> regex_ops \<Rightarrow> (string fset \<Rightarrow> string list) \<Rightarrow> string \<Rightarrow> (database, query_result) op" where
  "conn_query en rx ord sql = run_blocking (db_query en rx ord sql)"

definition conn_vector_search ::
    "env \<Rightarrow> string \<Rightarrow> string \<Rightarrow> f32 list \<Rightarrow> nat \<Rightarrow> distance_metric \<Rightarrow> (database, (f64 \<times> row) list) op" where
  "conn_vector_search en table column q k metric = run_blocking (vector_search en table column q k metric)"

definition conn_begin :: "env \<Rightarrow> (database, unit) op" where
  "conn_begin en = run_blocking (db_begin en)"

definition conn_commit :: "env \<Rightarrow> (database, unit) op" where
  "conn_commit en = run_blocking (db_commit en)"

definition conn_rollback :: "env \<Rightarrow> (database, unit) op" where
  "conn_rollback en = run_blocking (db_rollback en)"

definition conn_changes_since :: "nat \<Rightarrow> database \<Rightarrow> change_event list" where
  "conn_changes_since since db = changes_since since (db_cdc db)"

section \<open>Answers\<close>

lemma run_blocking_state: "snd (run_blocking f s) = snd (f s)"
  by (simp add: run_blocking_def split: prod.split sum.split fault.split)

lemma run_blocking_ok: "fst (run_blocking f s) = Inr x \<longleftrightarrow> fst (f s) = Inr x"
  by (simp add: run_blocking_def split: prod.split sum.split fault.split)

text \<open>
  A connection changes the database exactly as the synchronous call does, succeeds exactly when it succeeds and with
  the same answer, and never panics.
\<close>

theorem async_call_refines:
  "snd (conn_execute en rx ord sql db) = snd (db_execute en rx ord sql db)
   \<and> (fst (conn_execute en rx ord sql db) = Inr () \<longleftrightarrow> fst (db_execute en rx ord sql db) = Inr ())
   \<and> snd (conn_query en rx ord sql db) = snd (db_query en rx ord sql db)
   \<and> (fst (conn_query en rx ord sql db) = Inr r \<longleftrightarrow> fst (db_query en rx ord sql db) = Inr r)
   \<and> fst (conn_execute en rx ord sql db) \<noteq> Inl Panic \<and> fst (conn_query en rx ord sql db) \<noteq> Inl Panic"
  unfolding conn_execute_def conn_query_def run_blocking_state run_blocking_ok
  by (simp add: run_blocking_def split: prod.split sum.split fault.split)

end
