(* ===== verification/Spec2Isabelle.thy ===== *)
theory Spec2Isabelle
  imports Cdc Transaction WalTheorems PagerTheorems BTreeTheorems SchemaTheorems DatabaseTheorems VectorTheorems RowTheorems ParserTheorems TableTheorems MvccTheorems CrdtTheorems OptNodeTheorems AsyncTheorems Shell Hybrid Lockfree PmemTheorems Cloud AsyncApi
begin

text \<open>
  A verification development of VelociDB, an embedded SQL database in Rust (\<open>src/src/*.rs\<close>).

  \<^bold>\<open>The program.\<close> \<open>Database\<close> (\<open>storage.rs\<close>) takes SQL text, parses it (\<open>parser.rs\<close>) and runs the
  statement in the \<open>Executor\<close> (\<open>executor.rs\<close>), which works on the table map, on one B+tree per table
  (\<open>btree.rs\<close>), on table locks (\<open>transaction.rs\<close>) and on the change log (\<open>cdc.rs\<close>). The trees read and
  write pages through the \<open>Pager\<close> (\<open>storage.rs\<close>), which buffers the pages of a write group, appends
  them to the write-ahead log (\<open>wal.rs\<close>) on commit, checkpoints them into the data file and recovers
  them when the database is opened. A statement runs in a group of its own or, between BEGIN and
  COMMIT, under a savepoint. Beside this engine stand parts with an interface of their own: versioned
  records (\<open>mvcc.rs\<close>), replicated records (\<open>crdt.rs\<close>), vectorised filters and aggregates (\<open>simd.rs\<close>), a
  cache-optimised tree node (\<open>btree_optimized.rs\<close>), hybrid row and column storage (\<open>hybrid_storage.rs\<close>),
  concurrent caches and queues (\<open>lockfree.rs\<close>), the asynchronous page store with its file, remote and
  persistent-memory back ends (\<open>async_io.rs\<close>, \<open>cloud_vfs.rs\<close>, \<open>pmem.rs\<close>), the asynchronous interface
  (\<open>async_api.rs\<close>) and the shell (\<open>main.rs\<close>).

  \<^bold>\<open>How it is modelled.\<close> An operation is a function of type \<open>('s, 'a) op\<close> from the state to a result and
  the state it leaves, because a Rust function that returns an error keeps the changes it has made.
  A result is an error of \<open>VelociError\<close>, a panic, the mark that the fuel of the model ended, or an
  answer (\<open>Prelude\<close>). Bytes are \<open>8 word\<close>, \<open>i64\<close> is \<open>64 word\<close>, floats are their bit patterns with
  IEEE arithmetic as an argument. What lies outside the sources is an argument too: the outcome of each file operation, the
  checksum, the regex crate, the clock, the order in which a hash map lists its keys, the queue of
  crossbeam and the client of the object store. What a theorem needs of such an argument is a hypothesis.

  \<^bold>\<open>Theories, from the bottom up.\<close>
  \<^item> \<open>Prelude\<close>, \<open>Types\<close>, \<open>RustStr\<close>: results, little-endian encoding, slices, values (\<open>types.rs\<close>), \<open>str\<close>.
  \<^item> \<open>RowCodec\<close>: the bytes of a row and their round trip (locale \<open>row_codec\<close>).
  \<^item> \<open>Wal\<close>, \<open>WalTheorems\<close>: log records, appending a group, reading the committed groups; any prefix of a
    log recovers exactly the groups inside it.
  \<^item> \<open>Pager\<close> (model), \<open>PagerFile\<close>, \<open>PagerInv\<close>, \<open>PagerOps\<close>, \<open>PagerCrash\<close>, \<open>PagerSpec\<close>, \<open>PagerTheorems\<close>: the
    durable, the current and the savepoint view of the pages, one preservation lemma per operation, crashes
    at every byte of a commit and a checkpoint, and refinement of an array of pages.
  \<^item> \<open>BTreePage\<close>, \<open>BTree\<close> (model), \<open>LeafPage\<close>, \<open>InternalPage\<close>, \<open>BTreeRead\<close>, \<open>BTreeContext\<close>, \<open>BTreeShape\<close>, \<open>BTreeSplit\<close>,
    \<open>BTreeInsert\<close>, \<open>BTreeLeaf\<close>, \<open>BTreeOps\<close>: the tree over any page store that meets the locales \<open>page_reads\<close>
    and \<open>page_io\<close>, its balance and insertion with all splits. \<open>PageShrink\<close>, \<open>BTreeShrink\<close>, \<open>BTreeUnderflow\<close>, \<open>BTreeRebalance\<close>: deletion,
    borrowing from a sibling, merging, and the climb of merges towards the root. \<open>BTreePager\<close> interprets them on the pager and \<open>BTreeTheorems\<close> reads the
    operations as operations on the ascending list of rows.
  \<^item> \<open>Sql\<close>, \<open>Vector\<close>, \<open>ValueOrder\<close>, \<open>VectorTheorems\<close>: statements, vector search, comparisons as orders
    (locale \<open>comparison\<close>).
  \<^item> \<open>Schema\<close>, \<open>SchemaStore\<close>, \<open>SchemaTheorems\<close>: the table map and the schema page.
  \<^item> \<open>Transaction\<close>, \<open>Cdc\<close>: transaction states, table locks with their retry loop, the change log.
  \<^item> \<open>Executor\<close>, \<open>Database\<close>: every statement, the groups and savepoints around it, BEGIN, COMMIT, ROLLBACK, opening.
  \<^item> \<open>Stable\<close>, \<open>PagerUndo\<close>, \<open>Atomicity\<close>, \<open>Rollback\<close>, \<open>DatabaseTheorems\<close>: what every run keeps, failing runs
    included (locales \<open>stable_pages\<close>, \<open>statement_pages\<close>), so that a failed statement and a rolled back
    transaction leave nothing behind.
  \<^item> \<open>RowChecks\<close>, \<open>TableStore\<close>, \<open>TableOps\<close>, \<open>TableSpec\<close>, \<open>Durable\<close>, \<open>TableCreate\<close>, \<open>TableDrop\<close>, \<open>TableDelete\<close>, \<open>TableUpdate\<close>,
    \<open>TableTheorems\<close>, \<open>RowTheorems\<close>: tables as lists of rows, INSERT, UPDATE, DELETE, CREATE, DROP and renaming as operations on them, and acknowledged changes found
    again in a database opened on the files.
  \<^item> \<open>Parser\<close>, \<open>SqlText\<close>, \<open>ParserTheorems\<close>: the parser and its round trip; \<open>Repl\<close>, \<open>Shell\<close>, \<open>AsyncApi\<close>: the shell, its loop
    and what it prints, and the asynchronous interface in front of the database.
  \<^item> \<open>Mvcc\<close>, \<open>MvccTheorems\<close>; \<open>Crdt\<close>, \<open>CrdtTheorems\<close> (locale \<open>lww_register\<close>); \<open>Simd\<close>; \<open>OptNode\<close>, \<open>OptNodeTheorems\<close>; \<open>Hybrid\<close>; \<open>Lockfree\<close>.
  \<^item> \<open>AsyncIo\<close>, \<open>AsyncTheorems\<close> (locales \<open>vfs_contract\<close>, \<open>vfs_extending\<close>), \<open>Pmem\<close>, \<open>PmemTheorems\<close>, \<open>Cloud\<close>: the asynchronous
    page store, its cache over any back end that meets the contract, and the back ends.

  \<^bold>\<open>Fuel and bounds.\<close> Recursion over pages has fuel: the descent needs the height of the tree, an
  insertion three times the height, and the theorems state that this much suffices and that an answer comes out. A deletion
  needs three times the height as well. The lock retry loop ends when the clock passes the timeout, which is a theorem. Insertion is shown for rows of at most 164 serialized
  bytes, where one split of a leaf always makes room. Deletion with rebalancing is shown for rows of at most 52 bytes, where two leaves
  that have to merge fit one page, and for a root with two separators: the code refuses to merge larger leaves, and a
  root that gives way to its only child leaves a stale parent field there. A DELETE may take fewer rows than the root has separators, or any number from a single leaf; an UPDATE of
  several rows is shown for a single leaf with room, and of one row where its deletion is; \<open>u64\<close> counters are natural numbers, with the width written
  out where they are encoded.

  \<^bold>\<open>Not modelled.\<close> Interleavings inside one pager or tree call: the writer mutex and the latches make each a step. The editing of
  a line and the saved history of the shell, log messages, prefetch hints and the derived serde encodings have no effect on the state.
\<close>

end
